(* ===== verification/TG_Prelude.thy ===== *)
theory TG_Prelude imports Main "HOL-Library.AList" "HOL-Library.Multiset" begin

text \<open>
  What every component of the model shares: the errors the TypeScript code throws, results of
  fallible code as \<open>js_error + 'a\<close>, loops that may throw, and lemmas on sums and
  insertion-ordered maps (a JavaScript \<open>Map\<close> is an association list in which \<open>set\<close> replaces
  the value of a present key in place and appends a new key: \<open>AList.update\<close>).
\<close>

section \<open>Thrown errors and results\<close>

text \<open>One constructor per class of \<open>throw\<close> in the modelled sources; the string is the message.
  \<open>LibraryError\<close> is whatever a library throws for an argument it cannot take, which the string names.\<close>

datatype js_error =
    Error string
  | TypeError string
  | RangeError string
  | SyntaxError string
  | RpcError string bool
  | ReorgDetectedError string
  | MessageConflictError string
  | StaleQueueGenerationError string
  | LibraryError string

type_synonym 'a res = "js_error + 'a"

named_theorems res_simps \<open>normal forms of results: binds, checks and loops that returned\<close>

definition bindR :: "'e + 'a \<Rightarrow> ('a \<Rightarrow> 'e + 'b) \<Rightarrow> 'e + 'b" where
  "bindR m f = (case m of Inl e \<Rightarrow> Inl e | Inr a \<Rightarrow> f a)"

definition ensure :: "bool \<Rightarrow> 'e \<Rightarrow> 'e + unit" where
  "ensure b e = (if b then Inr () else Inl e)"

lemma bindR_simps [simp]:
  "bindR (Inl e) f = Inl e"
  "bindR (Inr a) f = f a"
  by (simp_all add: bindR_def)

lemma bindR_cong [fundef_cong]:
  "m = m' \<Longrightarrow> (\<And>a. m' = Inr a \<Longrightarrow> f a = f' a) \<Longrightarrow> bindR m f = bindR m' f'"
  by (cases m') (auto simp: bindR_def)

lemma bindR_eq_Inr [res_simps]: "bindR m f = Inr b \<longleftrightarrow> (\<exists>a. m = Inr a \<and> f a = Inr b)"
  by (cases m) auto

lemma bindR_eq_Inl [res_simps]:
  "bindR m f = Inl e \<longleftrightarrow> m = Inl e \<or> (\<exists>a. m = Inr a \<and> f a = Inl e)"
  by (cases m) auto

lemma ensure_eq_Inr [res_simps]: "ensure b e = Inr u \<longleftrightarrow> b"
  by (simp add: ensure_def)

lemma ensure_eq_Inl [res_simps]: "ensure b e = Inl e' \<longleftrightarrow> \<not> b \<and> e' = e"
  by (auto simp: ensure_def)

lemma ensure_simps [simp]: "ensure True e = Inr ()" "ensure False e = Inl e"
  by (simp_all add: ensure_def)

lemma if_Inl_eq_Inr [res_simps]: "(if b then Inl e else m) = Inr r \<longleftrightarrow> \<not> b \<and> m = Inr r"
  by auto

lemma if_Inl_else_eq_Inr [res_simps]: "(if b then m else Inl e) = Inr r \<longleftrightarrow> b \<and> m = Inr r"
  by auto

lemma case_option_eq_Inr [res_simps]:
  "(case x of None \<Rightarrow> Inl e | Some a \<Rightarrow> f a) = Inr r \<longleftrightarrow> (\<exists>a. x = Some a \<and> f a = Inr r)"
  by (cases x) auto

text \<open>A \<open>for\<close> loop whose body may throw, over a state, and a \<open>map\<close> whose function may throw.\<close>

fun foldR :: "('a \<Rightarrow> 's \<Rightarrow> 'e + 's) \<Rightarrow> 'a list \<Rightarrow> 's \<Rightarrow> 'e + 's" where
  "foldR f [] s = Inr s"
| "foldR f (x # xs) s = bindR (f x s) (foldR f xs)"

fun mapR :: "('a \<Rightarrow> 'e + 'b) \<Rightarrow> 'a list \<Rightarrow> 'e + 'b list" where
  "mapR f [] = Inr []"
| "mapR f (x # xs) = bindR (f x) (\<lambda>y. bindR (mapR f xs) (\<lambda>ys. Inr (y # ys)))"

lemma foldR_append: "foldR f (xs @ ys) s = bindR (foldR f xs s) (foldR f ys)"
  by (induction xs arbitrary: s) (auto simp: bindR_def split: sum.splits)

text \<open>An invariant that relates the state to the elements already visited.\<close>

lemma foldR_invariant:
  assumes run: "foldR f xs s = Inr t"
    and base: "P [] s"
    and step: "\<And>pre x post s t. xs = pre @ x # post \<Longrightarrow> P pre s \<Longrightarrow> f x s = Inr t
      \<Longrightarrow> P (pre @ [x]) t"
  shows "P xs t"
proof -
  have "P (pre @ ys) t" if "xs = pre @ ys" and "foldR f ys s = Inr t" and "P pre s" for pre ys s
    using that
  proof (induction ys arbitrary: pre s)
    case (Cons y ys)
    from Cons.prems(2) obtain s' where s': "f y s = Inr s'" "foldR f ys s' = Inr t"
      by (auto simp: res_simps)
    have "P (pre @ [y]) s'" using step [OF Cons.prems(1) Cons.prems(3) s'(1)] .
    with Cons.IH [of "pre @ [y]" s'] Cons.prems(1) s'(2) show ?case by simp
  qed simp
  from this [of "[]" xs s] run base show ?thesis by simp
qed

lemma foldR_keeps:
  assumes "foldR f xs s = Inr t" and "I s"
    and "\<And>x s t. x \<in> set xs \<Longrightarrow> I s \<Longrightarrow> f x s = Inr t \<Longrightarrow> I t"
  shows "I t"
  by (rule foldR_invariant [where P = "\<lambda>_. I", OF assms(1,2)]) (use assms(3) in auto)

lemma mapR_eq_Inr: "mapR f xs = Inr ys \<longleftrightarrow> list_all2 (\<lambda>x y. f x = Inr y) xs ys"
  by (induction xs arbitrary: ys) (auto simp: res_simps list_all2_Cons1)

lemma mapR_map: "(\<And>x. x \<in> set xs \<Longrightarrow> f x = Inr (g x)) \<Longrightarrow> mapR f xs = Inr (map g xs)"
  by (induction xs) auto

lemma foldR_not_Inl: "(\<And>x s. f x s \<noteq> Inl e) \<Longrightarrow> foldR f xs s \<noteq> Inl e"
  by (induction xs arbitrary: s) (auto simp: bindR_eq_Inl)

lemma mapR_not_Inl: "(\<And>x. f x \<noteq> Inl e) \<Longrightarrow> mapR f xs \<noteq> Inl e"
  by (induction xs) (auto simp: bindR_eq_Inl)

lemma mapR_length: "mapR f xs = Inr ys \<Longrightarrow> length ys = length xs"
  by (auto simp: mapR_eq_Inr dest: list_all2_lengthD)

section \<open>Sums\<close>

lemma sum_list_int_nonneg: "(\<And>x. x \<in> set xs \<Longrightarrow> 0 \<le> f x) \<Longrightarrow> 0 \<le> (\<Sum>x\<leftarrow>xs. f x :: int)"
  by (induction xs) auto

lemma sum_list_member_le:
  "(\<And>y. y \<in> set xs \<Longrightarrow> 0 \<le> f y) \<Longrightarrow> x \<in> set xs \<Longrightarrow> f x \<le> (\<Sum>y\<leftarrow>xs. f y :: int)"
proof (induction xs)
  case (Cons y ys)
  have "0 \<le> (\<Sum>y\<leftarrow>ys. f y)" using Cons.prems(1) by (intro sum_list_int_nonneg) auto
  with Cons show ?case by (auto intro: add_increasing add_increasing2)
qed simp

lemma sum_list_mset_eq: "mset xs = mset ys \<Longrightarrow> sum_list (map f xs) = (sum_list (map f ys) :: int)"
  by (metis mset_map sum_mset_sum_list)

lemma sum_list_filter_positive:
  "(\<And>x. x \<in> set xs \<Longrightarrow> 0 \<le> f x) \<Longrightarrow> (\<Sum>x\<leftarrow>filter (\<lambda>x. f x > 0) xs. f x) = (\<Sum>x\<leftarrow>xs. f x :: int)"
  by (induction xs) (auto simp: not_less dest: order.antisym)

section \<open>Insertion-ordered maps\<close>

text \<open>\<open>m.get(k) ?? 0n\<close> for a map of balances.\<close>

definition balance_of :: "('k \<times> int) list \<Rightarrow> 'k \<Rightarrow> int" where
  "balance_of m k = (case map_of m k of None \<Rightarrow> 0 | Some v \<Rightarrow> v)"

abbreviation keys_of :: "('k \<times> 'v) list \<Rightarrow> 'k list" where
  "keys_of m \<equiv> map fst m"

lemma keys_of_update: "keys_of (AList.update k v m) = (if k \<in> set (keys_of m) then keys_of m else keys_of m @ [k])"
  by (induction m) auto

lemma update_new_key: "k \<notin> set (keys_of m) \<Longrightarrow> AList.update k v m = m @ [(k, v)]"
  by (induction m) auto

lemma balance_of_update [simp]:
  "balance_of (AList.update k v m) k' = (if k' = k then v else balance_of m k')"
  by (simp add: balance_of_def update_conv')

lemma balance_of_Nil [simp]: "balance_of [] k = 0"
  by (simp add: balance_of_def)

lemma balance_of_Cons: "balance_of ((k', v) # m) k = (if k = k' then v else balance_of m k)"
  by (simp add: balance_of_def)

lemma sum_update:
  "distinct (keys_of m) \<Longrightarrow>
    (\<Sum>p\<leftarrow>AList.update k v m. snd p) = (\<Sum>p\<leftarrow>m. snd p) - balance_of m k + (v :: int)"
proof (induction m)
  case (Cons p m)
  obtain a b where p: "p = (a, b)" by (cases p)
  show ?case
  proof (cases "a = k")
    case True
    with p show ?thesis by (simp add: balance_of_def)
  next
    case False
    with Cons p show ?thesis by (simp add: balance_of_def)
  qed
qed (simp add: balance_of_def)

lemma balance_of_mem: "distinct (keys_of m) \<Longrightarrow> (k, v) \<in> set m \<Longrightarrow> balance_of m k = v"
  by (simp add: balance_of_def)

lemma update_all_values:
  "\<forall>p\<in>set m. P (snd p) \<Longrightarrow> P v \<Longrightarrow> \<forall>p\<in>set (AList.update k v m). P (snd p)"
  by (induction m) (auto split: if_splits)

lemma balance_of_bounds:
  "(\<And>p. p \<in> set m \<Longrightarrow> 0 \<le> snd p) \<Longrightarrow> 0 \<le> balance_of m k"
  by (auto simp: balance_of_def split: option.splits dest: map_of_SomeD)

end
