(* ===== verification/TG_Text.thy ===== *)
theory TG_Text imports TG_Prelude "HOL-Library.Char_ord" "HOL-Library.List_Lexorder" begin

text \<open>
  Strings as the sources use them: \<open>toLowerCase\<close> on ASCII, the regular expressions for
  addresses, 32-byte hashes and decimal literals as executable predicates, \<open>BigInt\<close> of a
  decimal or \<open>0x\<close> literal, and \<open>toString\<close> of an unsigned \<open>bigint\<close>. A string is a list
  of characters (all text the modelled code compares is ASCII), and \<open><\<close> on strings is the
  code-unit order of JavaScript (\<open>List_Lexorder\<close> over \<open>Char_ord\<close>).
\<close>

section \<open>Decimal literals\<close>

definition code_of :: "char \<Rightarrow> nat" where
  "code_of c = of_char c"

definition is_digit :: "char \<Rightarrow> bool" where
  "is_digit c \<longleftrightarrow> 48 \<le> code_of c \<and> code_of c \<le> 57"

definition digit_val :: "char \<Rightarrow> nat" where
  "digit_val c = code_of c - 48"

definition digit_char :: "nat \<Rightarrow> char" where
  "digit_char d = char_of (48 + d)"

text \<open>\<open>n.toString()\<close> for a non-negative \<open>bigint\<close>.\<close>

fun show_nat :: "nat \<Rightarrow> string" where
  "show_nat n = (if n < 10 then [digit_char n] else show_nat (n div 10) @ [digit_char (n mod 10)])"

declare show_nat.simps [simp del]

definition parse_nat :: "string \<Rightarrow> nat" where
  "parse_nat s = foldl (\<lambda>acc c. 10 * acc + digit_val c) 0 s"

text \<open>The regular expression \<open>/^(0|[1-9][0-9]*)$/\<close>.\<close>

definition is_uint_literal :: "string \<Rightarrow> bool" where
  "is_uint_literal s \<longleftrightarrow> s \<noteq> [] \<and> list_all is_digit s \<and> (hd s \<noteq> CHR ''0'' \<or> s = ''0'')"

text \<open>\<open>/^[1-9][0-9]*$/\<close>.\<close>

definition is_pos_literal :: "string \<Rightarrow> bool" where
  "is_pos_literal s \<longleftrightarrow> s \<noteq> [] \<and> list_all is_digit s \<and> hd s \<noteq> CHR ''0''"

text \<open>\<open>/^\d+$/\<close>.\<close>

definition is_digits :: "string \<Rightarrow> bool" where
  "is_digits s \<longleftrightarrow> s \<noteq> [] \<and> list_all is_digit s"

lemma code_of_digit_char [simp]: "d < 10 \<Longrightarrow> code_of (digit_char d) = 48 + d"
  by (simp add: code_of_def digit_char_def)

lemma digit_val_digit_char [simp]: "d < 10 \<Longrightarrow> digit_val (digit_char d) = d"
  by (simp add: digit_val_def)

lemma is_digit_digit_char [simp]: "d < 10 \<Longrightarrow> is_digit (digit_char d)"
  by (simp add: is_digit_def)

lemma digit_char_digit_val: "is_digit c \<Longrightarrow> digit_char (digit_val c) = c"
  by (simp add: is_digit_def digit_val_def digit_char_def code_of_def)

lemma digit_val_less: "is_digit c \<Longrightarrow> digit_val c < 10"
  unfolding is_digit_def digit_val_def by arith

lemma digit_char_0 [simp]: "digit_char 0 = CHR ''0''"
proof -
  have "of_char (CHR ''0'') = (48 :: nat)" by simp
  then show ?thesis by (metis add_0_right char_of_char digit_char_def)
qed

lemma digit_char_eq_0: "d < 10 \<Longrightarrow> digit_char d = CHR ''0'' \<longleftrightarrow> d = 0"
proof -
  assume "d < 10"
  then show ?thesis by (metis digit_char_0 digit_val_digit_char zero_less_numeral)
qed

lemma parse_nat_snoc: "parse_nat (s @ [c]) = 10 * parse_nat s + digit_val c"
  by (simp add: parse_nat_def)

lemma parse_show_nat [simp]: "parse_nat (show_nat n) = n"
proof (induction n rule: show_nat.induct)
  case (1 n)
  show ?case
  proof (cases "n < 10")
    case True
    then show ?thesis by (simp add: show_nat.simps [of n] parse_nat_def)
  next
    case False
    with 1 show ?thesis by (simp add: show_nat.simps [of n] parse_nat_snoc)
  qed
qed

lemma show_nat_inj [simp]: "show_nat m = show_nat n \<longleftrightarrow> m = n"
  by (metis parse_show_nat)

lemma show_nat_not_Nil [simp]: "show_nat n \<noteq> []"
  by (simp add: show_nat.simps)

lemma digits_show_nat: "list_all is_digit (show_nat n)"
proof (induction n rule: show_nat.induct)
  case (1 n)
  then show ?case by (cases "n < 10") (simp_all add: show_nat.simps [of n])
qed

lemma hd_show_nat: "0 < n \<Longrightarrow> hd (show_nat n) \<noteq> CHR ''0''"
proof (induction n rule: show_nat.induct)
  case (1 n)
  then show ?case
    by (cases "n < 10") (simp_all add: show_nat.simps [of n] digit_char_eq_0 hd_append)
qed

lemma show_nat_0 [simp]: "show_nat 0 = ''0''"
  by (simp add: show_nat.simps)

lemma is_uint_literal_show_nat [simp]: "is_uint_literal (show_nat n)"
  by (cases "n = 0") (auto simp: is_uint_literal_def digits_show_nat hd_show_nat is_digit_def code_of_def)

lemma is_pos_literal_show_nat [simp]: "is_pos_literal (show_nat n) \<longleftrightarrow> 0 < n"
  by (cases "n = 0") (auto simp: is_pos_literal_def digits_show_nat hd_show_nat)

text \<open>Printing is the only way a canonical literal arises: parsing it and printing is the identity.\<close>

lemma parse_nat_pos: "is_pos_literal s \<Longrightarrow> 0 < parse_nat s"
proof (induction s rule: rev_induct)
  case (snoc c s)
  show ?case
  proof (cases "s = []")
    case True
    with snoc.prems have "digit_char (digit_val c) \<noteq> CHR ''0''" "digit_val c < 10"
      by (auto simp: is_pos_literal_def digit_char_digit_val digit_val_less)
    with True show ?thesis by (simp add: parse_nat_def digit_char_eq_0)
  next
    case False
    with snoc show ?thesis by (simp add: parse_nat_snoc is_pos_literal_def)
  qed
qed (simp add: is_pos_literal_def)

lemma show_parse_pos: "is_pos_literal s \<Longrightarrow> show_nat (parse_nat s) = s"
proof (induction s rule: rev_induct)
  case (snoc c s)
  from snoc.prems have c: "is_digit c" "digit_val c < 10"
    by (auto simp: is_pos_literal_def digit_val_less)
  show ?case
  proof (cases "s = []")
    case True
    with c show ?thesis by (simp add: parse_nat_def show_nat.simps digit_char_digit_val)
  next
    case False
    with snoc.prems have s: "is_pos_literal s" by (simp add: is_pos_literal_def)
    with parse_nat_pos [OF s] snoc.IH c show ?thesis
      by (simp add: parse_nat_snoc show_nat.simps [of "10 * parse_nat s + digit_val c"] digit_char_digit_val)
  qed
qed (simp add: is_pos_literal_def)

lemma show_parse_nat: "is_uint_literal s \<Longrightarrow> show_nat (parse_nat s) = s"
proof (cases "s = ''0''")
  case True
  then show ?thesis by (simp add: parse_nat_def digit_val_def code_of_def)
next
  case False
  moreover assume "is_uint_literal s"
  ultimately show ?thesis by (intro show_parse_pos) (simp add: is_uint_literal_def is_pos_literal_def)
qed

text \<open>\<open>Number.MAX_SAFE_INTEGER\<close>.\<close>

definition MAX_SAFE :: int where "MAX_SAFE = 2 ^ 53 - 1"

section \<open>Hexadecimal\<close>

definition is_hex_digit :: "char \<Rightarrow> bool" where
  "is_hex_digit c \<longleftrightarrow> is_digit c \<or> (97 \<le> code_of c \<and> code_of c \<le> 102) \<or> (65 \<le> code_of c \<and> code_of c \<le> 70)"

definition is_lower_hex_digit :: "char \<Rightarrow> bool" where
  "is_lower_hex_digit c \<longleftrightarrow> is_digit c \<or> (97 \<le> code_of c \<and> code_of c \<le> 102)"

text \<open>\<open>s.toLowerCase()\<close>.\<close>

definition lower_char :: "char \<Rightarrow> char" where
  "lower_char c = (if 65 \<le> code_of c \<and> code_of c \<le> 90 then char_of (code_of c + 32) else c)"

definition lower :: "string \<Rightarrow> string" where
  "lower s = map lower_char s"

text \<open>\<open>/^0x[0-9a-fA-F]{n}$/\<close> and \<open>/^0x[0-9a-f]{n}$/\<close>.\<close>

definition is_hex :: "nat \<Rightarrow> string \<Rightarrow> bool" where
  "is_hex n s \<longleftrightarrow> length s = n + 2 \<and> take 2 s = ''0x'' \<and> list_all is_hex_digit (drop 2 s)"

definition is_lower_hex :: "nat \<Rightarrow> string \<Rightarrow> bool" where
  "is_lower_hex n s \<longleftrightarrow> length s = n + 2 \<and> take 2 s = ''0x'' \<and> list_all is_lower_hex_digit (drop 2 s)"

text \<open>\<open>BigInt(s)\<close> of a \<open>0x\<close> literal.\<close>

definition hex_val :: "char \<Rightarrow> nat" where
  "hex_val c = (if is_digit c then code_of c - 48
                else if 97 \<le> code_of c then code_of c - 87 else code_of c - 55)"

definition parse_hex :: "string \<Rightarrow> nat" where
  "parse_hex s = foldl (\<lambda>acc c. 16 * acc + hex_val c) 0 (drop 2 s)"

lemma lower_char_idem [simp]: "lower_char (lower_char c) = lower_char c"
  by (auto simp: lower_char_def code_of_def)

lemma lower_idem [simp]: "lower (lower s) = lower s"
  by (simp add: lower_def)

lemma length_lower [simp]: "length (lower s) = length s"
  by (simp add: lower_def)

lemma lower_append [simp]: "lower (s @ t) = lower s @ lower t"
  by (simp add: lower_def)

lemma lower_hex_digit_id: "is_lower_hex_digit c \<Longrightarrow> lower_char c = c"
  by (auto simp: is_lower_hex_digit_def is_digit_def lower_char_def)

lemma is_hex_digit_lower: "is_hex_digit c \<Longrightarrow> is_lower_hex_digit (lower_char c)"
  by (auto simp: is_lower_hex_digit_def is_hex_digit_def is_digit_def lower_char_def code_of_def)

lemma is_lower_hex_digit_hex: "is_lower_hex_digit c \<Longrightarrow> is_hex_digit c"
  by (auto simp: is_lower_hex_digit_def is_hex_digit_def)

lemma is_hex_lower: "is_hex n s \<Longrightarrow> is_lower_hex n (lower s)"
proof -
  assume h: "is_hex n s"
  have "take 2 (lower s) = lower ''0x''"
    using h by (simp add: is_hex_def lower_def take_map)
  moreover have "lower ''0x'' = ''0x''" by (simp add: lower_def lower_char_def code_of_def)
  ultimately show ?thesis
    using h by (auto simp: is_hex_def is_lower_hex_def lower_def drop_map list_all_iff is_hex_digit_lower)
qed

lemma is_lower_hex_is_hex: "is_lower_hex n s \<Longrightarrow> is_hex n s"
  by (auto simp: is_hex_def is_lower_hex_def list_all_iff is_lower_hex_digit_hex)

lemma is_lower_hex_decomp: "is_lower_hex n s \<longleftrightarrow> (\<exists>t. s = ''0x'' @ t \<and> length t = n \<and> list_all is_lower_hex_digit t)"
proof
  assume h: "is_lower_hex n s"
  then have "s = ''0x'' @ drop 2 s" by (metis append_take_drop_id is_lower_hex_def)
  with h show "\<exists>t. s = ''0x'' @ t \<and> length t = n \<and> list_all is_lower_hex_digit t"
    by (intro exI [of _ "drop 2 s"]) (auto simp: is_lower_hex_def)
qed (auto simp: is_lower_hex_def)

lemma lower_id: "is_lower_hex n s \<Longrightarrow> lower s = s"
proof -
  assume "is_lower_hex n s"
  then obtain t where t: "s = ''0x'' @ t" "list_all is_lower_hex_digit t"
    by (auto simp: is_lower_hex_decomp)
  have "lower ''0x'' = ''0x''" by (simp add: lower_def lower_char_def code_of_def)
  moreover have "lower t = t"
    using t(2) by (auto simp: lower_def list_all_iff lower_hex_digit_id intro!: map_idI)
  ultimately show ?thesis using t(1) by (metis lower_append)
qed

text \<open>Two lowercase literals of one length that denote the same number are the same string.\<close>

lemma hex_val_less: "is_lower_hex_digit c \<Longrightarrow> hex_val c < 16"
  by (auto simp: is_lower_hex_digit_def is_digit_def hex_val_def)

lemma hex_val_inj:
  assumes "is_lower_hex_digit c" and "is_lower_hex_digit d" and "hex_val c = hex_val d"
  shows "c = d"
proof -
  have "code_of c = code_of d"
    using assms by (auto simp: is_lower_hex_digit_def is_digit_def hex_val_def split: if_splits)
  then show ?thesis by (simp add: code_of_def)
qed

lemma hex_fold_inj:
  assumes "length s = length t" and "list_all is_lower_hex_digit s" and "list_all is_lower_hex_digit t"
    and "foldl (\<lambda>acc c. 16 * acc + hex_val c) 0 s = foldl (\<lambda>acc c. 16 * acc + hex_val c) 0 t"
  shows "s = t"
  using assms
proof (induction s arbitrary: t rule: rev_induct)
  case (snoc c s)
  from snoc.prems(1) obtain d t' where t: "t = t' @ [d]" "length t' = length s"
    by (metis length_append_singleton length_Suc_conv_rev)
  let ?f = "foldl (\<lambda>acc c. 16 * acc + hex_val c) 0"
  have eq: "16 * ?f s + hex_val c = 16 * ?f t' + hex_val d"
    and less: "hex_val c < 16" "hex_val d < 16"
    using snoc.prems t by (auto simp: hex_val_less)
  have "?f s = ?f t'" using eq less by arith
  moreover from this eq have "hex_val c = hex_val d" by simp
  ultimately show ?case using snoc t by (auto intro: hex_val_inj)
qed simp

lemma parse_hex_inj:
  "is_lower_hex n s \<Longrightarrow> is_lower_hex n t \<Longrightarrow> parse_hex s = parse_hex t \<Longrightarrow> s = t"
  by (auto simp: is_lower_hex_decomp parse_hex_def intro: hex_fold_inj)

section \<open>Signed decimals and template literals\<close>

definition show_int :: "int \<Rightarrow> string" where
  "show_int i = (if i < 0 then CHR ''-'' # show_nat (nat (- i)) else show_nat (nat i))"

definition parse_int :: "string \<Rightarrow> int" where
  "parse_int s = (case s of [] \<Rightarrow> 0
     | c # cs \<Rightarrow> if c = CHR ''-'' then - int (parse_nat cs) else int (parse_nat s))"

text \<open>The regular expression \<open>/^(0|-?[1-9][0-9]*)$/\<close>.\<close>

definition is_int_literal :: "string \<Rightarrow> bool" where
  "is_int_literal s \<longleftrightarrow> is_uint_literal s \<or> (s \<noteq> [] \<and> hd s = CHR ''-'' \<and> is_pos_literal (tl s))"

lemma show_nat_hd_digit: "is_digit (hd (show_nat n))"
  using digits_show_nat [of n] by (cases "show_nat n") auto

lemma parse_int_show_nat [simp]: "parse_int (show_nat n) = int n"
proof -
  obtain c cs where s: "show_nat n = c # cs" by (cases "show_nat n") auto
  have "\<not> is_digit (CHR ''-'')" by (simp add: is_digit_def code_of_def)
  with show_nat_hd_digit [of n] s have "c \<noteq> CHR ''-''" by auto
  moreover from s have "parse_nat (c # cs) = n" by (metis parse_show_nat)
  ultimately show ?thesis by (simp add: parse_int_def s)
qed

lemma parse_show_int [simp]: "parse_int (show_int i) = i"
  by (cases "i < 0") (simp_all add: show_int_def, simp add: parse_int_def)

lemma show_int_nonneg: "0 \<le> i \<Longrightarrow> show_int i = show_nat (nat i)"
  by (simp add: show_int_def)

text \<open>A literal of \<open>n\<close> equal digits, used for concrete addresses and hashes.\<close>

definition hex_lit :: "nat \<Rightarrow> char \<Rightarrow> string" where
  "hex_lit n c = ''0x'' @ replicate n c"

lemma is_hex_lit [simp]: "is_hex n (hex_lit m c) \<longleftrightarrow> n = m \<and> (n = 0 \<or> is_hex_digit c)"
  by (cases m) (auto simp: is_hex_def hex_lit_def list_all_iff)

lemma lower_hex_lit [simp]: "lower (hex_lit n c) = hex_lit n (lower_char c)"
  by (simp add: hex_lit_def lower_def map_replicate_const lower_char_def code_of_def)

lemma hex_lit_not_Nil [simp]: "hex_lit n c \<noteq> []"
  by (simp add: hex_lit_def)

lemma hex_lit_eq [simp]: "0 < n \<Longrightarrow> hex_lit n c = hex_lit n d \<longleftrightarrow> c = d"
  by (auto simp: hex_lit_def)

lemma hex_lit_less_iff: "0 < n \<Longrightarrow> hex_lit n c \<le> hex_lit n d \<longleftrightarrow> code_of c \<le> code_of d"
  by (cases n) (auto simp: hex_lit_def code_of_def less_eq_char_def less_char_def)

text \<open>A number as \<open>k\<close> lowercase hexadecimal digits, \<open>n.toString(16).padStart(k, '0')\<close>.\<close>

definition hex_char :: "nat \<Rightarrow> char" where
  "hex_char d = (if d < 10 then char_of (48 + d) else char_of (87 + d))"

fun hex_pad :: "nat \<Rightarrow> nat \<Rightarrow> string" where
  "hex_pad 0 n = []"
| "hex_pad (Suc k) n = hex_pad k (n div 16) @ [hex_char (n mod 16)]"

lemma length_hex_pad [simp]: "length (hex_pad k n) = k"
  by (induction k n rule: hex_pad.induct) auto

lemma hex_char_code: "d < 16 \<Longrightarrow> code_of (hex_char d) = (if d < 10 then 48 + d else 87 + d)"
  by (simp add: hex_char_def code_of_def)

lemma hex_char_digit: "d < 16 \<Longrightarrow> is_lower_hex_digit (hex_char d) \<and> hex_val (hex_char d) = d"
  by (auto simp: is_lower_hex_digit_def hex_val_def is_digit_def hex_char_code)

lemma hex_pad_digits: "list_all is_lower_hex_digit (hex_pad k n)"
  by (induction k n rule: hex_pad.induct) (auto simp: hex_char_digit)

lemma hex_pad_value: "foldl (\<lambda>acc c. 16 * acc + hex_val c) 0 (hex_pad k n) = n mod 16 ^ k"
proof (induction k n rule: hex_pad.induct)
  case (2 k n)
  have "n mod 16 ^ Suc k = 16 * (n div 16 mod 16 ^ k) + n mod 16"
    by (simp add: mod_mult2_eq)
  with 2 show ?case by (simp add: hex_char_digit)
qed simp

definition hex_text :: "nat \<Rightarrow> nat \<Rightarrow> string" where
  "hex_text k n = ''0x'' @ hex_pad k n"

lemma hex_text_literal: "is_lower_hex k (hex_text k n)"
  using hex_pad_digits by (auto simp: is_lower_hex_decomp hex_text_def)

lemma parse_hex_text: "n < 16 ^ k \<Longrightarrow> parse_hex (hex_text k n) = n"
  by (simp add: parse_hex_def hex_text_def hex_pad_value)

lemma hex_lit_lower_hex: "is_lower_hex_digit c \<Longrightarrow> is_lower_hex n (hex_lit n c)"
  by (simp add: is_lower_hex_def hex_lit_def list_all_iff)

end
