(* ===== verification/TG_Order.thy ===== *)
theory TG_Order imports TG_Prelude "HOL-Library.Product_Lexorder" begin

text \<open>
  \<open>Array.prototype.sort\<close> with a comparator. ECMAScript requires the sort to be stable and, for
  a consistent comparator, fixes its result; \<open>js_sort\<close> is that result, computed by stable
  insertion. The locale \<open>comparator\<close> states what the callers rely on, and
  \<open>keyed_comparator\<close> the shape all comparators of the sources have: they compare a key in a
  linear order, so sorting is the library's \<open>sort_key\<close>. Each component interprets the
  locales on its own comparators.
\<close>

fun js_insert :: "('a \<Rightarrow> 'a \<Rightarrow> int) \<Rightarrow> 'a \<Rightarrow> 'a list \<Rightarrow> 'a list" where
  "js_insert cmp x [] = [x]"
| "js_insert cmp x (y # ys) = (if cmp x y \<le> 0 then x # y # ys else y # js_insert cmp x ys)"

definition js_sort :: "('a \<Rightarrow> 'a \<Rightarrow> int) \<Rightarrow> 'a list \<Rightarrow> 'a list" where
  "js_sort cmp xs = foldr (js_insert cmp) xs []"

text \<open>The sign of a comparison of two numbers, as \<open>a < b ? -1 : a > b ? 1 : 0\<close> computes it.\<close>

definition sign_cmp :: "'a::linorder \<Rightarrow> 'a \<Rightarrow> int" where
  "sign_cmp a b = (if a < b then -1 else if b < a then 1 else 0)"

lemma sign_cmp_simps [simp]:
  "sign_cmp a b \<le> 0 \<longleftrightarrow> a \<le> b" "sign_cmp a b = 0 \<longleftrightarrow> a = b"
  "sign_cmp a b < 0 \<longleftrightarrow> a < b" "0 < sign_cmp a b \<longleftrightarrow> b < a" "0 \<le> sign_cmp a b \<longleftrightarrow> b \<le> a"
  by (auto simp: sign_cmp_def)

lemma mset_js_insert: "mset (js_insert cmp x xs) = {#x#} + mset xs"
  by (induction xs) auto

lemma mset_js_sort [simp]: "mset (js_sort cmp xs) = mset xs"
  by (induction xs) (auto simp: js_sort_def mset_js_insert)

lemma set_js_sort [simp]: "set (js_sort cmp xs) = set xs"
  by (metis mset_js_sort set_mset_mset)

lemma length_js_sort [simp]: "length (js_sort cmp xs) = length xs"
  by (metis mset_js_sort size_mset)

lemma length_filter_js_sort: "length (filter P (js_sort cmp xs)) = length (filter P xs)"
  by (metis mset_filter mset_js_sort size_mset)

lemma distinct_js_sort [simp]: "distinct (js_sort cmp xs) = distinct xs"
  by (metis mset_js_sort mset_eq_imp_distinct_iff)

lemma distinct_map_js_sort [simp]: "distinct (map f (js_sort cmp xs)) = distinct (map f xs)"
  by (metis mset_js_sort mset_eq_imp_distinct_iff mset_map)

lemma js_sort_Nil [simp]: "js_sort cmp [] = []"
  by (simp add: js_sort_def)

lemma js_sort_Cons: "js_sort cmp (x # xs) = js_insert cmp x (js_sort cmp xs)"
  by (simp add: js_sort_def)

locale comparator =
  fixes cmp :: "'a \<Rightarrow> 'a \<Rightarrow> int"
  assumes cmp_swap: "cmp x y \<le> 0 \<longleftrightarrow> 0 \<le> cmp y x"
    and cmp_trans: "cmp x y \<le> 0 \<Longrightarrow> cmp y z \<le> 0 \<Longrightarrow> cmp x z \<le> 0"
begin

lemma cmp_refl: "cmp x x \<le> 0"
  using cmp_swap [of x x] by linarith

lemma sorted_insert:
  "sorted_wrt (\<lambda>x y. cmp x y \<le> 0) xs \<Longrightarrow> sorted_wrt (\<lambda>x y. cmp x y \<le> 0) (js_insert cmp x xs)"
proof (induction xs)
  case (Cons y ys)
  have elems: "set (js_insert cmp x ys) = insert x (set ys)"
    by (metis mset_js_insert set_mset_mset set_mset_add_mset_insert add_mset_add_single union_commute)
  show ?case
  proof (cases "cmp x y \<le> 0")
    case True
    with Cons.prems show ?thesis by (auto intro: cmp_trans)
  next
    case False
    then have "cmp y x \<le> 0" using cmp_swap [of y x] by linarith
    with Cons False show ?thesis by (auto simp: elems)
  qed
qed simp

lemma sorted: "sorted_wrt (\<lambda>x y. cmp x y \<le> 0) (js_sort cmp xs)"
  by (induction xs) (auto simp: js_sort_Cons sorted_insert)

lemma sorted_id: "sorted_wrt (\<lambda>x y. cmp x y \<le> 0) xs \<Longrightarrow> js_sort cmp xs = xs"
proof (induction xs)
  case (Cons x xs)
  then show ?case by (cases xs) (auto simp: js_sort_Cons)
qed simp

lemma sort_idem: "js_sort cmp (js_sort cmp xs) = js_sort cmp xs"
  by (rule sorted_id) (rule sorted)

end

locale keyed_comparator =
  fixes cmp :: "'a \<Rightarrow> 'a \<Rightarrow> int" and key :: "'a \<Rightarrow> 'k::linorder"
  assumes key_le: "cmp x y \<le> 0 \<longleftrightarrow> key x \<le> key y"
    and key_ge: "0 \<le> cmp x y \<longleftrightarrow> key y \<le> key x"
begin

sublocale comparator cmp
  by unfold_locales (auto simp: key_le key_ge)

lemma insert_key: "js_insert cmp x xs = insort_key key x xs"
  by (induction xs) (auto simp: key_le)

lemma sort_eq: "js_sort cmp xs = sort_key key xs"
  by (induction xs) (auto simp: js_sort_Cons insert_key)

lemma eq_iff: "cmp x y = 0 \<longleftrightarrow> key x = key y"
  using key_le [of x y] key_ge [of x y] by auto

lemma stable: "filter (\<lambda>x. key x = k) (js_sort cmp xs) = filter (\<lambda>x. key x = k) xs"
  by (simp add: sort_eq sort_key_stable)

lemma strictly_sorted:
  "distinct (map key xs) \<Longrightarrow> sorted_wrt (\<lambda>x y. key x < key y) (js_sort cmp xs)"
proof -
  assume d: "distinct (map key xs)"
  have "sorted (map key (js_sort cmp xs))" by (simp add: sort_eq)
  moreover have "distinct (map key (js_sort cmp xs))" using d by simp
  ultimately have "sorted_wrt (<) (map key (js_sort cmp xs))"
    by (simp add: strict_sorted_iff)
  then show ?thesis by (simp add: sorted_wrt_map)
qed

text \<open>The order in which the elements arrive does not matter when their keys differ.\<close>

lemma order_irrelevant:
  assumes "mset xs = mset ys" and "distinct (map key xs)"
  shows "js_sort cmp xs = js_sort cmp ys"
proof -
  have inj: "inj_on key (set xs)" using assms(2) by (simp add: distinct_map)
  have "sort_key key xs = sort_key key ys"
    by (rule sort_key_eq_sort_key [OF assms(1) inj])
  then show ?thesis by (simp add: sort_eq)
qed

end

end
