(* ===== verification/Trade_Types.thy ===== *)
theory Trade_Types imports TG_Text TG_Order begin

text \<open>
  The data of \<open>services/backend-ts/packages/analytics/src/index.ts\<close>: trade sources and
  activities, candle prices, market bindings, decoded events, and the readers that validate an
  event argument (\<open>uint256\<close>, \<open>int128\<close>, \<open>address\<close>, \<open>hex32\<close>). Amounts stay decimal
  strings in the records, as in the code, and are parsed where the code parses them.
\<close>

section \<open>Values of decoded events\<close>

text \<open>
  An event argument has type \<open>unknown\<close>. \<open>JNum\<close> is a JavaScript number with an integral value,
  \<open>JOther\<close> any value that is neither a string, a \<open>bigint\<close> nor such a number (\<open>undefined\<close> for a
  missing key, \<open>null\<close>, a boolean, an object, a fraction, NaN).
\<close>

datatype js_value = JStr string | JBig int | JNum int | JOther

type_synonym js_args = "(string \<times> js_value) list"

definition arg :: "js_args \<Rightarrow> string \<Rightarrow> js_value" where
  "arg a k = (case map_of a k of None \<Rightarrow> JOther | Some v \<Rightarrow> v)"

definition UINT256_MAX :: nat where "UINT256_MAX = 2 ^ 256"
definition INT128_MIN :: int where "INT128_MIN = - (2 ^ 127)"
definition INT128_MAX :: int where "INT128_MAX = 2 ^ 127 - 1"

definition ZERO_ADDRESS :: string where
  "ZERO_ADDRESS = ''0x'' @ replicate 40 (CHR ''0'')"

text \<open>\<open>String(value)\<close> for the supported kinds: a string is itself, an integer its decimal form.\<close>

definition supported_text :: "js_value \<Rightarrow> string option" where
  "supported_text v = (case v of
     JStr s \<Rightarrow> Some s
   | JBig i \<Rightarrow> Some (show_int i)
   | JNum i \<Rightarrow> if \<bar>i\<bar> \<le> MAX_SAFE \<and> 0 \<le> i then Some (show_int i) else None
   | JOther \<Rightarrow> None)"

definition uint256 :: "js_value \<Rightarrow> string \<Rightarrow> nat res" where
  "uint256 v label = (case supported_text v of
     None \<Rightarrow> Inl (Error (label @ '' is not uint256''))
   | Some s \<Rightarrow>
       if \<not> is_uint_literal s then Inl (Error (label @ '' is not uint256''))
       else let result = parse_nat s in
         if result \<ge> UINT256_MAX then Inl (Error (label @ '' exceeds uint256'')) else Inr result)"

definition int128 :: "js_value \<Rightarrow> string \<Rightarrow> int res" where
  "int128 v label = (case (case v of JStr s \<Rightarrow> Some s | JBig i \<Rightarrow> Some (show_int i) | _ \<Rightarrow> None) of
     None \<Rightarrow> Inl (Error (label @ '' is not int128''))
   | Some s \<Rightarrow>
       if \<not> is_int_literal s then Inl (Error (label @ '' is not int128''))
       else let result = parse_int s in
         if result < INT128_MIN \<or> INT128_MAX < result
         then Inl (Error (label @ '' exceeds int128'')) else Inr result)"

definition read_address :: "js_value \<Rightarrow> string \<Rightarrow> string res" where
  "read_address v label = (case v of
     JStr s \<Rightarrow> if is_hex 40 s then Inr (lower s) else Inl (Error (label @ '' is not an address''))
   | _ \<Rightarrow> Inl (Error (label @ '' is not an address'')))"

definition read_hex32 :: "js_value \<Rightarrow> string \<Rightarrow> string res" where
  "read_hex32 v label = (case v of
     JStr s \<Rightarrow> if is_hex 64 s then Inr (lower s) else Inl (Error (label @ '' is not bytes32''))
   | _ \<Rightarrow> Inl (Error (label @ '' is not bytes32'')))"

text \<open>
  \<open>Number(value)\<close> of a \<open>bigint\<close> is exact up to \<open>2^53 - 1\<close> and never becomes a safe
  integer beyond, so the check of \<open>safeNumber\<close> is a range check on the \<open>bigint\<close>.
\<close>

definition safeNumber :: "int \<Rightarrow> string \<Rightarrow> int res" where
  "safeNumber v label = (if MAX_SAFE < \<bar>v\<bar> \<or> v < 0 then Inl (Error (label @ '' exceeds JSON integer'')) else Inr v)"

definition safeTimestamp :: "string \<Rightarrow> int res" where
  "safeTimestamp v = bindR (uint256 (JStr v) ''timestamp'') (\<lambda>parsed. safeNumber (int parsed) ''timestamp'')"

definition addUint :: "string \<Rightarrow> string \<Rightarrow> string res" where
  "addUint l r = bindR (uint256 (JStr l) ''aggregate'') (\<lambda>a.
     bindR (uint256 (JStr r) ''amount'') (\<lambda>b. Inr (show_nat (a + b))))"

lemma uint256_show [simp]:
  "uint256 (JStr (show_nat n)) l
    = (if n < UINT256_MAX then Inr n else Inl (Error (l @ '' exceeds uint256'')))"
  by (simp add: uint256_def supported_text_def)

lemma uint256_JStr: "uint256 (JStr s) l = Inr n \<longleftrightarrow> is_uint_literal s \<and> n = parse_nat s \<and> n < UINT256_MAX"
  by (auto simp: uint256_def supported_text_def Let_def)

lemma uint256_bound: "uint256 v l = Inr n \<Longrightarrow> n < UINT256_MAX"
  by (auto simp: uint256_def Let_def split: option.splits if_splits)

lemma uint256_text: "uint256 (JStr s) l = Inr n \<Longrightarrow> s = show_nat n"
  by (simp add: uint256_JStr show_parse_nat)

lemma read_address_lower: "read_address v l = Inr a \<Longrightarrow> is_lower_hex 40 a"
  by (auto simp: read_address_def is_hex_lower split: js_value.splits if_splits)

lemma read_hex32_lower: "read_hex32 v l = Inr h \<Longrightarrow> is_lower_hex 64 h"
  by (auto simp: read_hex32_def is_hex_lower split: js_value.splits if_splits)

lemma addUint_show: "addUint (show_nat a) s = Inr r \<longleftrightarrow>
    a < UINT256_MAX \<and> is_uint_literal s \<and> parse_nat s < UINT256_MAX \<and> r = show_nat (a + parse_nat s)"
  by (auto simp: addUint_def res_simps uint256_JStr)

lemma int128_show: "INT128_MIN \<le> i \<Longrightarrow> i \<le> INT128_MAX \<Longrightarrow> int128 (JStr (show_int i)) l = Inr i"
proof -
  have "is_int_literal (show_int i)" by (auto simp: is_int_literal_def show_int_def)
  then show "INT128_MIN \<le> i \<Longrightarrow> i \<le> INT128_MAX \<Longrightarrow> int128 (JStr (show_int i)) l = Inr i"
    by (simp add: int128_def)
qed

lemma UINT256_less [simp]: "numeral n < UINT256_MAX \<longleftrightarrow> numeral n < (2 ^ 256 :: nat)" "0 < UINT256_MAX" "1 < UINT256_MAX"
  by (simp_all add: UINT256_MAX_def)

section \<open>Trades, prices and bindings\<close>

datatype trade_class = Unclassified | InternalRewardConversion | InternalHolderConversion
datatype venue = Curve | Pool
datatype side = Buy | Sell
datatype actor_confidence = ContractCallerNotVerifiedWallet | Unavailable
datatype amount_basis = CURVE_EXCLUDING_FEE_TAX | POOL_CORE
datatype fee_status = EventReported | PairedEvent | NotProvided

record trade_source =
  src_chainId :: int
  src_blockNumber :: string
  src_blockHash :: string
  src_transactionHash :: string
  src_transactionIndex :: int
  src_logIndex :: int
  src_emitter :: string
  src_eventKey :: string

record candle_price =
  numerator :: string
  denominator :: string

record trade_activity =
  tr_source :: trade_source
  tr_venue :: venue
  tr_marketId :: string
  tr_timestamp :: string
  tr_side :: side
  tr_classification :: trade_class
  tr_actor :: "string option"
  tr_actorConfidence :: actor_confidence
  tr_recipient :: "string option"
  tr_memeAsset :: string
  tr_quoteAsset :: string
  tr_quoteDecimals :: int
  tr_memeRaw :: string
  tr_quoteRaw :: string
  tr_amountBasis :: amount_basis
  tr_price :: candle_price
  tr_feeRaw :: "string option"
  tr_feeAsset :: "string option"
  tr_taxRaw :: "string option"
  tr_feeStatus :: fee_status

record market_binding =
  mb_chainId :: int
  mb_marketId :: string
  mb_memeAsset :: string
  mb_quoteAsset :: string
  mb_quoteDecimals :: int
  mb_curve :: string
  mb_hook :: string
  mb_poolId :: "string option"
  mb_lpFeePips :: "int option"
  mb_currency0 :: "string option"
  mb_currency1 :: "string option"

text \<open>\<open>RpcLog\<close> (its \<open>data\<close> and \<open>topics\<close> are consumed by the decoder, not here) and a decoded event.\<close>

record rpc_log =
  lg_address :: string
  lg_blockHash :: string
  lg_blockNumber :: int
  lg_transactionHash :: string
  lg_transactionIndex :: int
  lg_logIndex :: int

record decoded_event =
  ev_module :: string
  ev_name :: string
  ev_args :: js_args
  ev_log :: rpc_log

record event_observation =
  ob_event :: decoded_event
  ob_timestamp :: int

section \<open>Order of events\<close>

text \<open>
  \<open>left.transactionIndex - right.transactionIndex || left.logIndex - right.logIndex\<close>: the
  second difference is used when the first is zero. Block numbers of a \<open>TradeSource\<close> are the
  decimal strings \<open>source\<close> writes; \<open>BigInt\<close> reads them back.
\<close>

definition compareSources :: "trade_source \<Rightarrow> trade_source \<Rightarrow> int" where
  "compareSources l r =
     (let block = parse_int (src_blockNumber l) - parse_int (src_blockNumber r) in
      if block \<noteq> 0 then (if block < 0 then -1 else 1)
      else let tx = src_transactionIndex l - src_transactionIndex r in
        if tx \<noteq> 0 then tx else src_logIndex l - src_logIndex r)"

definition compareTradesAscending :: "trade_activity \<Rightarrow> trade_activity \<Rightarrow> int" where
  "compareTradesAscending l r = compareSources (tr_source l) (tr_source r)"

definition compareObservations :: "event_observation \<Rightarrow> event_observation \<Rightarrow> int" where
  "compareObservations l r =
     (let ll = ev_log (ob_event l); rl = ev_log (ob_event r);
          block = lg_blockNumber ll - lg_blockNumber rl in
      if block \<noteq> 0 then (if block < 0 then -1 else 1)
      else let tx = lg_transactionIndex ll - lg_transactionIndex rl in
        if tx \<noteq> 0 then tx else lg_logIndex ll - lg_logIndex rl)"

definition source_key :: "trade_source \<Rightarrow> int \<times> int \<times> int" where
  "source_key s = (parse_int (src_blockNumber s), src_transactionIndex s, src_logIndex s)"

definition observation_key :: "event_observation \<Rightarrow> int \<times> int \<times> int" where
  "observation_key ob = (let l = ev_log (ob_event ob) in
     (lg_blockNumber l, lg_transactionIndex l, lg_logIndex l))"

interpretation sources: keyed_comparator compareSources source_key
  by unfold_locales (auto simp: compareSources_def source_key_def Let_def)

interpretation trades: keyed_comparator compareTradesAscending "\<lambda>t. source_key (tr_source t)"
  by unfold_locales (simp_all add: compareTradesAscending_def sources.key_le sources.key_ge)

interpretation observations: keyed_comparator compareObservations observation_key
  by unfold_locales (auto simp: compareObservations_def observation_key_def Let_def)

end
