(* ===== verification/Trade_Normalize.thy ===== *)
theory Trade_Normalize imports Complex_Main Trade_Types begin

text \<open>
  \<open>normalizeTransaction\<close> of \<open>services/backend-ts/packages/analytics/src/index.ts\<close>: the
  Curve and Pool events of one transaction become trade activities, and each conversion
  summary of the fee vault reclassifies the one pool execution it reports. The vault address
  of the event catalogue comes from the runtime deployment, so it is the parameter
  \<open>feeVault\<close>. The lemmas show the reduced price, the fee accounting, which events become
  trades and in which order, and that summaries and reclassified trades are in bijection.
\<close>

section \<open>Prices\<close>

text \<open>\<open>let x = a, y = b; while (y) [x, y] = [y, x % y]; return x\<close>, on unsigned values.\<close>

fun gcd_loop :: "nat \<Rightarrow> nat \<Rightarrow> nat" where
  "gcd_loop x y = (if y = 0 then x else gcd_loop y (x mod y))"

declare gcd_loop.simps [simp del]

lemma gcd_loop_eq: "gcd_loop x y = gcd x y"
proof (induction x y rule: gcd_loop.induct)
  case (1 x y)
  show ?case
  proof (cases "y = 0")
    case True
    then show ?thesis by (simp add: gcd_loop.simps [of x 0])
  next
    case False
    with 1 show ?thesis by (simp add: gcd_loop.simps [of x y] gcd_red_nat [of x y])
  qed
qed

definition reducePrice :: "candle_price \<Rightarrow> candle_price res" where
  "reducePrice value =
     bindR (uint256 (JStr (numerator value)) ''price numerator'') (\<lambda>n.
     bindR (uint256 (JStr (denominator value)) ''price denominator'') (\<lambda>d.
     if n = 0 \<or> d = 0 then Inl (Error ''zero price'')
     else let divisor = gcd_loop n d in
       Inr \<lparr>numerator = show_nat (n div divisor), denominator = show_nat (d div divisor)\<rparr>))"

definition price :: "nat \<Rightarrow> nat \<Rightarrow> int \<Rightarrow> candle_price res" where
  "price meme quote quoteDecimals =
     (if quoteDecimals < 6 \<or> 18 < quoteDecimals then Inl (Error ''invalid quote decimals'')
      else reducePrice \<lparr>numerator = show_nat (quote * 10 ^ 18),
                        denominator = show_nat (meme * 10 ^ nat quoteDecimals)\<rparr>)"

definition comparePrice :: "candle_price \<Rightarrow> candle_price \<Rightarrow> int" where
  "comparePrice l r = (let value = parse_int (numerator l) * parse_int (denominator r)
                                 - parse_int (numerator r) * parse_int (denominator l) in
     if value < 0 then -1 else if 0 < value then 1 else 0)"

text \<open>
  The abstract reading of a stored price: a reduced fraction of positive numbers, both decimal
  literals that \<open>uint256\<close> accepts. \<open>price_is p q m\<close> says that \<open>p\<close> is the fraction \<open>q / m\<close>.
\<close>

definition price_wf :: "candle_price \<Rightarrow> bool" where
  "price_wf p \<longleftrightarrow> (\<exists>n d. p = \<lparr>numerator = show_nat n, denominator = show_nat d\<rparr> \<and> 0 < n \<and> 0 < d
      \<and> n < UINT256_MAX \<and> d < UINT256_MAX \<and> coprime n d)"

definition price_is :: "candle_price \<Rightarrow> nat \<Rightarrow> nat \<Rightarrow> bool" where
  "price_is p q m \<longleftrightarrow> parse_nat (numerator p) * m = q * parse_nat (denominator p)"

lemma reducePrice_wf:
  assumes "reducePrice p = Inr r"
  shows "price_wf r \<and> price_is r (parse_nat (numerator p)) (parse_nat (denominator p))"
proof -
  let ?n = "parse_nat (numerator p)" and ?d = "parse_nat (denominator p)"
  let ?g = "gcd ?n ?d"
  from assms have pos: "0 < ?n" "0 < ?d" and bound: "?n < UINT256_MAX" "?d < UINT256_MAX"
    and r: "r = \<lparr>numerator = show_nat (?n div ?g), denominator = show_nat (?d div ?g)\<rparr>"
    by (auto simp: reducePrice_def res_simps uint256_JStr gcd_loop_eq Let_def)
  have less: "?n div ?g < UINT256_MAX" "?d div ?g < UINT256_MAX"
    using bound by (auto intro: le_less_trans [OF div_le_dividend])
  have "0 < ?n div ?g" "0 < ?d div ?g" "coprime (?n div ?g) (?d div ?g)"
    using pos by (auto simp: div_greater_zero_iff gcd_le1_nat gcd_le2_nat div_gcd_coprime)
  moreover have "(?n div ?g) * ?d = ?n * (?d div ?g)"
    by (metis div_mult_swap dvd_div_mult gcd_dvd1 gcd_dvd2 mult.commute)
  ultimately show ?thesis using less by (auto simp: r price_wf_def price_is_def)
qed

lemma reducePrice_id: "price_wf p \<Longrightarrow> reducePrice p = Inr p"
  by (auto simp: price_wf_def reducePrice_def gcd_loop_eq Let_def)

lemma price_wf_and_value:
  assumes "price meme quote dec = Inr p"
  shows "price_wf p \<and> price_is p (quote * 10 ^ 18) (meme * 10 ^ nat dec)"
  using assms reducePrice_wf by (fastforce simp: price_def split: if_splits)

text \<open>Comparing two prices by cross multiplication is comparing the fractions.\<close>

definition price_value :: "candle_price \<Rightarrow> rat" where
  "price_value p = of_nat (parse_nat (numerator p)) / of_nat (parse_nat (denominator p))"

lemma comparePrice_value:
  assumes "price_wf p" and "price_wf q"
  shows "comparePrice p q = (if price_value p < price_value q then -1
           else if price_value q < price_value p then 1 else 0)"
proof -
  obtain a b c d where p: "p = \<lparr>numerator = show_nat a, denominator = show_nat b\<rparr>" "0 < b"
    and q: "q = \<lparr>numerator = show_nat c, denominator = show_nat d\<rparr>" "0 < d"
    using assms by (auto simp: price_wf_def)
  have "price_value p < price_value q \<longleftrightarrow> a * d < c * b"
    and "price_value q < price_value p \<longleftrightarrow> c * b < a * d"
    using p q by (simp_all add: price_value_def divide_simps flip: of_nat_mult)
  moreover have "int a * int d - int c * int b < 0 \<longleftrightarrow> a * d < c * b"
    and "0 < int a * int d - int c * int b \<longleftrightarrow> c * b < a * d"
    by (simp_all flip: of_nat_mult)
  ultimately show ?thesis by (simp add: comparePrice_def p q Let_def)
qed

section \<open>Sources and Curve trades\<close>

text \<open>\<open>source(event, chainId)\<close>; the template literal of the event key is spelled out.\<close>

definition source_of :: "decoded_event \<Rightarrow> int \<Rightarrow> trade_source res" where
  "source_of e chainId = (let l = ev_log e in
     bindR (safeNumber (lg_transactionIndex l) ''transaction index'') (\<lambda>ti.
     bindR (safeNumber (lg_logIndex l) ''log index'') (\<lambda>li.
     Inr \<lparr>src_chainId = chainId, src_blockNumber = show_int (lg_blockNumber l),
          src_blockHash = lg_blockHash l, src_transactionHash = lg_transactionHash l,
          src_transactionIndex = ti, src_logIndex = li, src_emitter = lg_address l,
          src_eventKey = show_int chainId @ '':'' @ lg_transactionHash l @ '':'' @ show_int (lg_logIndex l)\<rparr>)))"

text \<open>The amounts \<open>normalizeCurve\<close> reads and checks: \<open>(meme, quote, fee, tax)\<close>.\<close>

definition curve_amounts :: "js_args \<Rightarrow> bool \<Rightarrow> (nat \<times> nat \<times> nat \<times> nat) res" where
  "curve_amounts a buy =
     bindR (uint256 (arg a (if buy then ''tokensOut'' else ''tokensIn'')) ''curve meme amount'') (\<lambda>meme.
     bindR (uint256 (arg a (if buy then ''quoteIn'' else ''quoteOut'')) ''curve quote cash flow'') (\<lambda>cash.
     bindR (uint256 (arg a ''fee'') ''curve fee'') (\<lambda>fee.
     bindR (uint256 (arg a ''tax'') ''curve tax'') (\<lambda>tax.
     let quote = (if buy then int cash - int fee - int tax else int cash + int fee + int tax) in
     if meme = 0 \<or> cash = 0 \<or> quote \<le> 0 then Inl (Error ''invalid curve trade amount'')
     else Inr (meme, nat quote, fee, tax)))))"

definition normalizeCurve :: "event_observation \<Rightarrow> market_binding \<Rightarrow> trade_activity res" where
  "normalizeCurve ob b = (let e = ob_event ob; a = ev_args e; buy = (ev_name e = ''CurveBuy'') in
     bindR (curve_amounts a buy) (\<lambda>(meme, quote, fee, tax).
     bindR (read_address (arg a (if buy then ''buyer'' else ''seller'')) ''curve actor'') (\<lambda>actor.
     bindR (source_of e (mb_chainId b)) (\<lambda>src.
     bindR (read_address (arg a ''recipient'') ''curve recipient'') (\<lambda>recipient.
     bindR (price meme quote (mb_quoteDecimals b)) (\<lambda>pr.
     Inr \<lparr>tr_source = src, tr_venue = Curve, tr_marketId = mb_marketId b,
          tr_timestamp = show_int (ob_timestamp ob), tr_side = (if buy then Buy else Sell),
          tr_classification = Unclassified, tr_actor = Some actor,
          tr_actorConfidence = ContractCallerNotVerifiedWallet, tr_recipient = Some recipient,
          tr_memeAsset = mb_memeAsset b, tr_quoteAsset = mb_quoteAsset b,
          tr_quoteDecimals = mb_quoteDecimals b, tr_memeRaw = show_nat meme,
          tr_quoteRaw = show_nat quote, tr_amountBasis = CURVE_EXCLUDING_FEE_TAX,
          tr_price = pr, tr_feeRaw = Some (show_nat fee), tr_feeAsset = Some (mb_quoteAsset b),
          tr_taxRaw = Some (show_nat tax), tr_feeStatus = EventReported\<rparr>))))))"

section \<open>Pool trades\<close>

text \<open>A \<open>string | null\<close> that passes a truthiness test: present and not empty.\<close>

definition truthy :: "string option \<Rightarrow> string option" where
  "truthy v = (case v of Some s \<Rightarrow> if s = [] then None else Some s | None \<Rightarrow> None)"

text \<open>The fee fields of a pool trade: \<open>(feeRaw, feeAsset, feeStatus)\<close>.\<close>

definition pool_fee :: "market_binding \<Rightarrow> nat \<Rightarrow> nat \<Rightarrow> decoded_event option
    \<Rightarrow> (string option \<times> string option \<times> fee_status) res" where
  "pool_fee b meme quote feeEvent = (case feeEvent of
     None \<Rightarrow> Inr (None, None, NotProvided)
   | Some f \<Rightarrow> (let a = ev_args f in
       if lg_address (ev_log f) \<noteq> mb_hook b then Inl (Error ''pool fee emitter mismatch'')
       else if arg a ''marketId'' \<noteq> JStr (mb_marketId b) \<or> map_option JStr (mb_poolId b) \<noteq> Some (arg a ''poolId'')
       then Inl (Error ''pool fee identity mismatch'')
       else
       bindR (read_address (arg a ''feeAsset'') ''fee asset'') (\<lambda>feeAsset.
       if feeAsset \<noteq> mb_memeAsset b \<and> feeAsset \<noteq> mb_quoteAsset b then Inl (Error ''pool fee asset mismatch'')
       else
       bindR (uint256 (arg a ''base'') ''fee base'') (\<lambda>base.
       bindR (uint256 (arg a ''totalFee'') ''total fee'') (\<lambda>total.
       bindR (uint256 (arg a ''lpAmount'') ''LP fee'') (\<lambda>lp.
       bindR (uint256 (arg a ''nonLpAmount'') ''non-LP fee'') (\<lambda>nonLp.
       if total = 0 \<or> lp + nonLp \<noteq> total \<or> base \<noteq> (if feeAsset = mb_memeAsset b then meme else quote)
       then Inl (Error ''pool fee amount mismatch'')
       else Inr (Some (show_nat total), Some feeAsset, PairedEvent))))))))"

text \<open>The LP fee is a known tier and the reported fee at least it, at most it with the protocol fee.\<close>

definition swap_fee_ok :: "int \<Rightarrow> int \<Rightarrow> bool" where
  "swap_fee_ok lpFee actualFee \<longleftrightarrow> lpFee \<in> {0, 1000, 2000, 3000} \<and> lpFee \<le> actualFee
     \<and> actualFee \<le> lpFee + 1000 - lpFee * 1000 div 1000000"

text \<open>The delta of one of the pool's currencies, \<open>null\<close> for another asset.\<close>

definition delta_of :: "string \<Rightarrow> string \<Rightarrow> int \<Rightarrow> int \<Rightarrow> string \<Rightarrow> int option" where
  "delta_of currency0 currency1 amount0 amount1 asset =
     (if asset = currency0 then Some amount0 else if asset = currency1 then Some amount1 else None)"

text \<open>The first half of \<open>normalizePool\<close>: the checks up to the pair \<open>(memeDelta, quoteDelta)\<close>.\<close>

definition pool_deltas :: "js_args \<Rightarrow> market_binding \<Rightarrow> (int \<times> int) res" where
  "pool_deltas a b = (case (truthy (mb_poolId b), truthy (mb_currency0 b), truthy (mb_currency1 b)) of
       (Some poolId, Some currency0, Some currency1) \<Rightarrow>
         if currency1 \<le> currency0 then Inl (Error ''invalid pool binding'')
         else
         bindR (int128 (arg a ''amount0'') ''amount0'') (\<lambda>amount0.
         bindR (int128 (arg a ''amount1'') ''amount1'') (\<lambda>amount1.
         if (amount0 < 0) = (amount1 < 0) \<or> amount0 = 0 \<or> amount1 = 0
         then Inl (Error ''invalid pool core deltas'')
         else let lpFee = (case mb_lpFeePips b of None \<Rightarrow> 0 | Some f \<Rightarrow> f) in
         bindR (uint256 (arg a ''fee'') ''pool fee'') (\<lambda>actualFee.
         if \<not> swap_fee_ok lpFee (int actualFee) then Inl (Error ''invalid pool fee'')
         else
         case (delta_of currency0 currency1 amount0 amount1 (mb_memeAsset b),
               delta_of currency0 currency1 amount0 amount1 (mb_quoteAsset b)) of
           (Some memeDelta, Some quoteDelta) \<Rightarrow>
             if (memeDelta < 0) = (quoteDelta < 0) then Inl (Error ''pool assets do not match binding'')
             else Inr (memeDelta, quoteDelta)
         | _ \<Rightarrow> Inl (Error ''pool assets do not match binding''))))
     | _ \<Rightarrow> Inl (Error ''invalid pool binding''))"

definition pool_sender :: "js_value \<Rightarrow> string option" where
  "pool_sender v = (case v of JStr s \<Rightarrow> if is_hex 40 s then Some (lower s) else None | _ \<Rightarrow> None)"

definition normalizePool :: "event_observation \<Rightarrow> market_binding \<Rightarrow> decoded_event option \<Rightarrow> trade_activity res" where
  "normalizePool ob b feeEvent = (let e = ob_event ob in
     bindR (pool_deltas (ev_args e) b) (\<lambda>(memeDelta, quoteDelta).
     let meme = nat \<bar>memeDelta\<bar>; quote = nat \<bar>quoteDelta\<bar> in
     bindR (pool_fee b meme quote feeEvent) (\<lambda>(feeRaw, feeAsset, feeStatus).
     let sender = pool_sender (arg (ev_args e) ''sender'') in
     bindR (source_of e (mb_chainId b)) (\<lambda>src.
     bindR (price meme quote (mb_quoteDecimals b)) (\<lambda>pr.
     Inr \<lparr>tr_source = src, tr_venue = Pool, tr_marketId = mb_marketId b,
          tr_timestamp = show_int (ob_timestamp ob),
          tr_side = (if 0 < memeDelta then Buy else Sell),
          tr_classification = Unclassified, tr_actor = sender,
          tr_actorConfidence = (if sender = None then Unavailable else ContractCallerNotVerifiedWallet),
          tr_recipient = None, tr_memeAsset = mb_memeAsset b, tr_quoteAsset = mb_quoteAsset b,
          tr_quoteDecimals = mb_quoteDecimals b, tr_memeRaw = show_nat meme,
          tr_quoteRaw = show_nat quote, tr_amountBasis = POOL_CORE, tr_price = pr,
          tr_feeRaw = feeRaw, tr_feeAsset = feeAsset, tr_taxRaw = None,
          tr_feeStatus = feeStatus\<rparr>)))))"

section \<open>A transaction\<close>

text \<open>\<open>assertSingleOrderedTransaction\<close>: neighbours belong to one transaction and ascend by log index.\<close>

fun assertSingleOrderedTransaction :: "event_observation list \<Rightarrow> unit res" where
  "assertSingleOrderedTransaction (x # y # zs) = (let left = ev_log (ob_event x); right = ev_log (ob_event y) in
     if lg_blockHash left \<noteq> lg_blockHash right \<or> lg_transactionHash left \<noteq> lg_transactionHash right
        \<or> lg_logIndex right \<le> lg_logIndex left
     then Inl (Error ''observations must be one ordered transaction'')
     else assertSingleOrderedTransaction (y # zs))"
| "assertSingleOrderedTransaction _ = Inr ()"

text \<open>\<open>uniqueMap\<close>: a \<open>Map\<close> from the key of each value to it, refusing a repeated key.\<close>

definition uniqueMap :: "('a \<Rightarrow> string) \<Rightarrow> 'a list \<Rightarrow> (string \<times> 'a) list res" where
  "uniqueMap key values = foldR (\<lambda>v m. if map_of m (key v) \<noteq> None
       then Inl (Error ''duplicate analytics binding'') else Inr (AList.update (key v) v m)) values []"

definition is_curve_trade :: "decoded_event \<Rightarrow> bool" where
  "is_curve_trade e \<longleftrightarrow> ev_module e = ''TickerGardenCurve'' \<and> (ev_name e = ''CurveBuy'' \<or> ev_name e = ''CurveSell'')"

definition is_pool_swap :: "decoded_event \<Rightarrow> bool" where
  "is_pool_swap e \<longleftrightarrow> ev_module e = ''UniswapV4PoolManager'' \<and> ev_name e = ''Swap''"

text \<open>The fee events between a swap and the next one that name its pool and market.\<close>

definition fee_events :: "event_observation list \<Rightarrow> string \<Rightarrow> market_binding \<Rightarrow> event_observation list" where
  "fee_events rest poolId b = filter (\<lambda>item. let f = ob_event item in
       ev_module f = ''TickerGardenMemeHook'' \<and> ev_name f = ''V4FeeAccrued''
       \<and> arg (ev_args f) ''poolId'' = JStr poolId \<and> arg (ev_args f) ''marketId'' = JStr (mb_marketId b))
     (takeWhile (\<lambda>item. \<not> is_pool_swap (ob_event item)) rest)"

text \<open>The body of the first loop: the trade of one observation, given those that follow it.\<close>

definition trade_of :: "(string \<times> market_binding) list \<Rightarrow> (string \<times> market_binding) list
    \<Rightarrow> event_observation \<Rightarrow> event_observation list \<Rightarrow> trade_activity option res" where
  "trade_of byCurve byPool ob rest = (let e = ob_event ob in
     if is_curve_trade e then
       (case map_of byCurve (lg_address (ev_log e)) of
          None \<Rightarrow> Inl (Error ''curve trade has no authenticated market binding'')
        | Some b \<Rightarrow> bindR (normalizeCurve ob b) (\<lambda>t. Inr (Some t)))
     else if is_pool_swap e then
       bindR (read_hex32 (arg (ev_args e) ''id'') ''pool id'') (\<lambda>poolId.
         case map_of byPool poolId of
           None \<Rightarrow> Inr None
         | Some b \<Rightarrow> (let fees = fee_events rest poolId b in
             if 1 < length fees then Inl (Error ''pool execution has ambiguous fee events'')
             else bindR (normalizePool ob b (case fees of [] \<Rightarrow> None | f # _ \<Rightarrow> Some (ob_event f)))
                    (\<lambda>t. Inr (Some t))))
     else Inr None)"

text \<open>The first loop; \<open>tradeByLog\<close> maps the log index of a trade to its position in \<open>trades\<close>.\<close>

fun collect_trades :: "(string \<times> market_binding) list \<Rightarrow> (string \<times> market_binding) list \<Rightarrow> event_observation list
    \<Rightarrow> trade_activity list \<times> (int \<times> nat) list \<Rightarrow> (trade_activity list \<times> (int \<times> nat) list) res" where
  "collect_trades byCurve byPool [] st = Inr st"
| "collect_trades byCurve byPool (ob # rest) (ts, byLog) =
     bindR (trade_of byCurve byPool ob rest) (\<lambda>trade. case trade of
         None \<Rightarrow> collect_trades byCurve byPool rest (ts, byLog)
       | Some t \<Rightarrow> collect_trades byCurve byPool rest
            (ts @ [t], AList.update (src_logIndex (tr_source t)) (length ts) byLog))"

definition conversionClassification :: "string \<Rightarrow> decoded_event \<Rightarrow> trade_class option res" where
  "conversionClassification feeVault e =
     (if ev_module e \<noteq> ''ProtocolFeeVault'' \<or> lg_address (ev_log e) \<noteq> feeVault then Inr None
      else if ev_name e = ''RewardBatchConverted'' then
        bindR (uint256 (arg (ev_args e) ''nonce'') ''conversion nonce'') (\<lambda>n.
          if n = 0 then Inl (Error ''invalid conversion nonce'') else Inr (Some InternalRewardConversion))
      else if ev_name e = ''HolderRewardsConverted'' then
        bindR (uint256 (arg (ev_args e) ''epochId'') ''holder epoch'') (\<lambda>n.
          if 2 ^ 32 \<le> n then Inl (Error ''invalid holder epoch'') else Inr (Some InternalHolderConversion))
      else Inr None)"

text \<open>The conditions, other than the log index, under which a trade is the one a summary reports.\<close>

definition conversion_match :: "string \<Rightarrow> string \<Rightarrow> string \<Rightarrow> string \<Rightarrow> nat \<Rightarrow> nat \<Rightarrow> trade_activity \<Rightarrow> bool" where
  "conversion_match marketId hook meme quote memeSpent quoteReceived t \<longleftrightarrow>
     tr_marketId t = marketId \<and> tr_venue t = Pool \<and> tr_actor t = Some hook
     \<and> tr_memeAsset t = meme \<and> tr_quoteAsset t = quote \<and> tr_side t = Sell
     \<and> tr_memeRaw t = show_nat memeSpent \<and> tr_quoteRaw t = show_nat quoteReceived
     \<and> tr_classification t = Unclassified"

text \<open>The body of the second loop.\<close>

definition classify_step :: "string \<Rightarrow> market_binding list \<Rightarrow> (int \<times> nat) list
    \<Rightarrow> event_observation \<Rightarrow> trade_activity list \<Rightarrow> trade_activity list res" where
  "classify_step feeVault bindings byLog ob ts = (let e = ob_event ob; a = ev_args e; li = lg_logIndex (ev_log e) in
     bindR (conversionClassification feeVault e) (\<lambda>cl. case cl of None \<Rightarrow> Inr ts | Some classification \<Rightarrow>
     bindR (read_hex32 (arg a ''marketId'') ''conversion market'') (\<lambda>marketId.
     bindR (read_address (arg a ''memeAsset'') ''conversion meme asset'') (\<lambda>meme.
     bindR (read_address (arg a ''quoteAsset'') ''conversion quote asset'') (\<lambda>quote.
     case find (\<lambda>b. mb_marketId b = marketId) bindings of
       None \<Rightarrow> Inl (Error ''conversion summary has no market binding'')
     | Some cb \<Rightarrow>
     bindR (uint256 (arg a ''memeSpent'') ''conversion meme amount'') (\<lambda>memeSpent.
     bindR (uint256 (arg a ''quoteReceived'') ''conversion quote amount'') (\<lambda>quoteReceived.
     let matching = conversion_match marketId (mb_hook cb) meme quote memeSpent quoteReceived in
     case find (\<lambda>(logIndex, i). logIndex < li \<and> matching (ts ! i)) (rev byLog) of
       None \<Rightarrow> Inl (Error ''conversion summary has no unique preceding pool execution'')
     | Some (logIndex, i) \<Rightarrow>
         if length (filter (\<lambda>t. src_logIndex (tr_source t) < li \<and> matching t) ts) \<noteq> 1
         then Inl (Error ''conversion summary is ambiguous'')
         else Inr (ts[i := (ts ! i)\<lparr>tr_classification := classification\<rparr>]))))))))"

definition normalizeTransaction :: "string \<Rightarrow> event_observation list \<Rightarrow> market_binding list
    \<Rightarrow> trade_activity list res" where
  "normalizeTransaction feeVault obs bindings =
     (if 10000 < length obs \<or> 10000 < length bindings then Inl (Error ''analytics input exceeds bound'')
      else let ordered = js_sort compareObservations obs in
        bindR (assertSingleOrderedTransaction ordered) (\<lambda>_.
        bindR (uniqueMap mb_curve (filter (\<lambda>b. mb_curve b \<noteq> ZERO_ADDRESS) bindings)) (\<lambda>byCurve.
        bindR (uniqueMap (\<lambda>b. the (mb_poolId b)) (filter (\<lambda>b. mb_poolId b \<noteq> None) bindings)) (\<lambda>byPool.
        bindR (collect_trades byCurve byPool ordered ([], [])) (\<lambda>(ts, byLog).
        foldR (classify_step feeVault bindings byLog) ordered ts)))))"

section \<open>What a normalized trade satisfies\<close>

text \<open>Its amounts are positive, stored canonically, and its price is their reduced ratio per whole token.\<close>

definition trade_ok :: "trade_activity \<Rightarrow> bool" where
  "trade_ok t \<longleftrightarrow> is_pos_literal (tr_memeRaw t) \<and> is_pos_literal (tr_quoteRaw t)
     \<and> 6 \<le> tr_quoteDecimals t \<and> tr_quoteDecimals t \<le> 18 \<and> price_wf (tr_price t)
     \<and> price_is (tr_price t) (parse_nat (tr_quoteRaw t) * 10 ^ 18)
                (parse_nat (tr_memeRaw t) * 10 ^ nat (tr_quoteDecimals t))"

lemma price_facts:
  assumes "price meme quote dec = Inr p"
  shows "6 \<le> dec \<and> dec \<le> 18 \<and> price_wf p \<and> price_is p (quote * 10 ^ 18) (meme * 10 ^ nat dec)"
  using assms price_wf_and_value [OF assms] by (auto simp: price_def split: if_splits)

lemma source_of_fields:
  "source_of e c = Inr s \<Longrightarrow> src_logIndex s = lg_logIndex (ev_log e) \<and> src_chainId s = c
     \<and> src_transactionHash s = lg_transactionHash (ev_log e) \<and> src_emitter s = lg_address (ev_log e)
     \<and> 0 \<le> src_logIndex s"
  by (auto simp: source_of_def safeNumber_def Let_def res_simps split: if_splits)

lemma trade_okI:
  "price meme quote (tr_quoteDecimals t) = Inr (tr_price t) \<Longrightarrow> 0 < meme \<Longrightarrow> 0 < quote
    \<Longrightarrow> tr_memeRaw t = show_nat meme \<Longrightarrow> tr_quoteRaw t = show_nat quote \<Longrightarrow> trade_ok t"
  by (drule price_facts) (simp only: trade_ok_def is_pos_literal_show_nat parse_show_nat simp_thms)

lemma curve_amounts_facts:
  assumes "curve_amounts a buy = Inr (meme, quote, fee, tax)"
  shows "0 < meme" "0 < quote"
    "\<exists>cash. uint256 (arg a (if buy then ''quoteIn'' else ''quoteOut'')) ''curve quote cash flow'' = Inr cash
       \<and> (if buy then quote + fee + tax = cash else quote = cash + fee + tax)"
proof -
  from assms obtain cash where c: "0 < meme" and q: "0 < (if buy then int cash - int fee - int tax else int cash + int fee + int tax)"
      "quote = nat (if buy then int cash - int fee - int tax else int cash + int fee + int tax)"
    and u: "uint256 (arg a (if buy then ''quoteIn'' else ''quoteOut'')) ''curve quote cash flow'' = Inr cash"
    by (auto simp: curve_amounts_def Let_def res_simps not_le split del: if_split)
  show "0 < meme" by (rule c)
  from q show "0 < quote" by (simp split: if_splits)
  from q u show "\<exists>cash. uint256 (arg a (if buy then ''quoteIn'' else ''quoteOut'')) ''curve quote cash flow'' = Inr cash
       \<and> (if buy then quote + fee + tax = cash else quote = cash + fee + tax)"
    by (intro exI [of _ cash]) (auto split: if_splits)
qed

lemma normalizeCurve_returns:
  assumes "normalizeCurve ob b = Inr t"
  shows "tr_classification t = Unclassified \<and> tr_venue t = Curve \<and> tr_marketId t = mb_marketId b \<and> (\<exists>meme quote fee tax. 
    curve_amounts (ev_args (ob_event ob)) (ev_name (ob_event ob) = ''CurveBuy'') = Inr (meme, quote, fee, tax) \<and>
    price meme quote (tr_quoteDecimals t) = Inr (tr_price t) \<and> tr_memeRaw t = show_nat meme \<and>
    tr_quoteRaw t = show_nat quote \<and> source_of (ob_event ob) (mb_chainId b) = Inr (tr_source t)
    \<and> tr_feeRaw t = Some (show_nat fee) \<and> tr_taxRaw t = Some (show_nat tax))"
  using assms unfolding normalizeCurve_def Let_def 
  by (clarsimp split: prod.splits simp: bindR_eq_Inr)

lemma normalizePool_returns:
  assumes "normalizePool ob b f = Inr t"
  shows "tr_classification t = Unclassified \<and> tr_venue t = Pool \<and> tr_marketId t = mb_marketId b \<and>
   (\<exists>m q. pool_deltas (ev_args (ob_event ob)) b = Inr (m, q) \<and>
    price (nat \<bar>m\<bar>) (nat \<bar>q\<bar>) (tr_quoteDecimals t) = Inr (tr_price t) \<and> tr_memeRaw t = show_nat (nat \<bar>m\<bar>) \<and>
    tr_quoteRaw t = show_nat (nat \<bar>q\<bar>) \<and> source_of (ob_event ob) (mb_chainId b) = Inr (tr_source t)
   \<and> tr_side t = (if 0 < m then Buy else Sell))"
  using assms unfolding normalizePool_def Let_def 
  by (clarsimp split: prod.splits split del: if_split simp: bindR_eq_Inr)

lemma normalizeCurve_fields:
  assumes "normalizeCurve ob b = Inr t"
  shows "trade_ok t \<and> tr_classification t = Unclassified \<and> tr_venue t = Curve \<and> tr_marketId t = mb_marketId b
    \<and> src_logIndex (tr_source t) = lg_logIndex (ev_log (ob_event ob))"
proof -
  from normalizeCurve_returns [OF assms] obtain meme quote fee tax where r:
    "curve_amounts (ev_args (ob_event ob)) (ev_name (ob_event ob) = ''CurveBuy'') = Inr (meme, quote, fee, tax)"
    "price meme quote (tr_quoteDecimals t) = Inr (tr_price t)" "tr_memeRaw t = show_nat meme"
    "tr_quoteRaw t = show_nat quote" "source_of (ob_event ob) (mb_chainId b) = Inr (tr_source t)" by metis
  have "trade_ok t" by (rule trade_okI [OF r(2) curve_amounts_facts(1,2) [OF r(1)] r(3,4)])
  with source_of_fields [OF r(5)] normalizeCurve_returns [OF assms] show ?thesis by simp
qed

lemma delta_of_Some: "delta_of c0 c1 a0 a1 x = Some d \<Longrightarrow> d = a0 \<or> d = a1"
  by (auto simp: delta_of_def split: if_splits)

lemma pool_deltas_signs: "pool_deltas a b = Inr (m, q) \<Longrightarrow> m \<noteq> 0 \<and> q \<noteq> 0 \<and> (m < 0) = (\<not> q < 0)"
  unfolding pool_deltas_def Let_def
  by (simp only: res_simps prod.case) (auto dest!: delta_of_Some)

lemma pool_deltas_amounts: "pool_deltas a b = Inr (m, q) \<Longrightarrow> 0 < nat \<bar>m\<bar>" "pool_deltas a b = Inr (m, q) \<Longrightarrow> 0 < nat \<bar>q\<bar>"
  by (auto dest: pool_deltas_signs)

lemma normalizePool_fields:
  assumes "normalizePool ob b f = Inr t"
  shows "trade_ok t \<and> tr_classification t = Unclassified \<and> tr_venue t = Pool \<and> tr_marketId t = mb_marketId b
    \<and> src_logIndex (tr_source t) = lg_logIndex (ev_log (ob_event ob))"
proof -
  from normalizePool_returns [OF assms] obtain m q where r:
    "pool_deltas (ev_args (ob_event ob)) b = Inr (m, q)"
    "price (nat \<bar>m\<bar>) (nat \<bar>q\<bar>) (tr_quoteDecimals t) = Inr (tr_price t)" "tr_memeRaw t = show_nat (nat \<bar>m\<bar>)"
    "tr_quoteRaw t = show_nat (nat \<bar>q\<bar>)" "source_of (ob_event ob) (mb_chainId b) = Inr (tr_source t)" by metis
  have "trade_ok t" by (rule trade_okI [OF r(2) pool_deltas_amounts(1) [OF r(1)] pool_deltas_amounts(2) [OF r(1)] r(3,4)])
  with source_of_fields [OF r(5)] normalizePool_returns [OF assms] show ?thesis by simp
qed

section \<open>Which events become trades\<close>

lemma uniqueMap_returns:
  assumes "uniqueMap key vs = Inr m"
  shows "m = map (\<lambda>v. (key v, v)) vs \<and> distinct (map key vs)"
  by (rule foldR_invariant [where P = "\<lambda>pre m. m = map (\<lambda>v. (key v, v)) pre \<and> distinct (map key pre)",
          OF assms [unfolded uniqueMap_def]])
       (auto simp: map_of_eq_None_iff image_image comp_def update_new_key split: if_splits)

lemma assert_ordered:
  "assertSingleOrderedTransaction obs = Inr u \<Longrightarrow>
    sorted_wrt (\<lambda>x y. lg_logIndex (ev_log (ob_event x)) < lg_logIndex (ev_log (ob_event y))) obs"
proof (induction obs rule: assertSingleOrderedTransaction.induct)
  case (1 x y zs)
  from 1(2) have xy: "lg_logIndex (ev_log (ob_event x)) < lg_logIndex (ev_log (ob_event y))"
    and rest: "assertSingleOrderedTransaction (y # zs) = Inr u" by (auto simp: Let_def split: if_splits)
  from 1(1) [OF refl refl _ rest] 1(2) xy show ?case
    by (auto simp: Let_def dest: order.strict_trans split: if_splits)
qed auto

text \<open>The events that must become a trade: those of a bound Curve, and swaps of a bound pool.\<close>

definition is_trade_event :: "market_binding list \<Rightarrow> event_observation \<Rightarrow> bool" where
  "is_trade_event bindings ob \<longleftrightarrow> is_curve_trade (ob_event ob) \<or> (is_pool_swap (ob_event ob)
     \<and> (case arg (ev_args (ob_event ob)) ''id'' of
            JStr s \<Rightarrow> Some (lower s) \<in> mb_poolId ` set bindings | _ \<Rightarrow> False))"

definition pool_bound :: "(string \<times> market_binding) list \<Rightarrow> event_observation \<Rightarrow> bool" where
  "pool_bound byPool ob \<longleftrightarrow> is_curve_trade (ob_event ob) \<or> (is_pool_swap (ob_event ob)
     \<and> (case arg (ev_args (ob_event ob)) ''id'' of JStr s \<Rightarrow> map_of byPool (lower s) \<noteq> None | _ \<Rightarrow> False))"

definition log_of :: "event_observation \<Rightarrow> int" where
  "log_of ob = lg_logIndex (ev_log (ob_event ob))"

definition trade_log :: "trade_activity \<Rightarrow> int" where
  "trade_log t = src_logIndex (tr_source t)"

lemma pool_not_curve: "is_curve_trade e \<Longrightarrow> \<not> is_pool_swap e"
  by (simp add: is_curve_trade_def is_pool_swap_def)

lemma trade_of_Some:
  assumes "trade_of byCurve byPool ob rest = Inr (Some t)"
  shows "pool_bound byPool ob \<and> trade_ok t \<and> tr_classification t = Unclassified \<and> trade_log t = log_of ob"
  using assms
  by (auto simp: trade_of_def pool_bound_def Let_def res_simps log_of_def trade_log_def read_hex32_def
      dest!: normalizeCurve_fields normalizePool_fields split: if_splits js_value.splits option.splits)

lemma trade_of_None:
  assumes "trade_of byCurve byPool ob rest = Inr None"
  shows "\<not> pool_bound byPool ob"
  using assms pool_not_curve
  by (auto simp: trade_of_def pool_bound_def Let_def res_simps read_hex32_def
      split: if_splits js_value.splits option.splits)

lemma set_update_subset: "set (AList.update k v m) \<subseteq> insert (k, v) (set m)"
  by (induction m) auto

definition log_table :: "(int \<times> nat) list \<Rightarrow> trade_activity list \<Rightarrow> bool" where
  "log_table byLog ts \<longleftrightarrow> (\<forall>(l, i)\<in>set byLog. i < length ts \<and> trade_log (ts ! i) = l)"

lemma log_table_update: "log_table byLog ts \<Longrightarrow> log_table (AList.update (trade_log t) (length ts) byLog) (ts @ [t])"
  using set_update_subset [of "trade_log t" "length ts" byLog]
  by (fastforce simp: log_table_def nth_append)

lemma collect_trades_returns:
  assumes "collect_trades byCurve byPool obs (ts, byLog) = Inr (ts', byLog')" and "log_table byLog ts"
  shows "log_table byLog' ts' \<and> (\<exists>new. ts' = ts @ new \<and> map trade_log new = map log_of (filter (pool_bound byPool) obs)
    \<and> (\<forall>t\<in>set new. trade_ok t \<and> tr_classification t = Unclassified))"
  using assms
proof (induction obs arbitrary: ts byLog)
  case (Cons ob obs)
  show ?case
  proof (cases "trade_of byCurve byPool ob obs")
    case (Inr trade)
    show ?thesis
    proof (cases trade)
      case None
      with Cons Inr trade_of_None show ?thesis by (auto split: option.splits)
    next
      case (Some t)
      have t: "pool_bound byPool ob" "trade_ok t" "tr_classification t = Unclassified" "trade_log t = log_of ob"
        using Inr Some trade_of_Some by auto
      have "collect_trades byCurve byPool obs (ts @ [t], AList.update (trade_log t) (length ts) byLog) = Inr (ts', byLog')"
        using Cons.prems(1) Inr Some by (simp add: trade_log_def)
      from Cons.IH [OF this log_table_update [OF Cons.prems(2)]] t show ?thesis by auto
    qed
  qed (use Cons.prems in simp)
qed auto

section \<open>Conversion summaries\<close>

definition summary_class :: "string \<Rightarrow> event_observation \<Rightarrow> trade_class option" where
  "summary_class feeVault ob = (case conversionClassification feeVault (ob_event ob) of Inl e \<Rightarrow> None | Inr c \<Rightarrow> c)"

lemma summary_class_internal: "summary_class fv ob = Some c \<Longrightarrow> c \<noteq> Unclassified"
  by (auto simp: summary_class_def conversionClassification_def res_simps split: sum.splits if_splits)

text \<open>The trade \<open>t\<close> is the pool sell of the conversion that the summary \<open>ob\<close> reports.\<close>

definition reports :: "event_observation \<Rightarrow> trade_activity \<Rightarrow> bool" where
  "reports ob t \<longleftrightarrow> trade_log t < log_of ob \<and> tr_venue t = Pool \<and> tr_side t = Sell
     \<and> read_hex32 (arg (ev_args (ob_event ob)) ''marketId'') ''conversion market'' = Inr (tr_marketId t)
     \<and> uint256 (arg (ev_args (ob_event ob)) ''memeSpent'') ''conversion meme amount'' = Inr (parse_nat (tr_memeRaw t))
     \<and> uint256 (arg (ev_args (ob_event ob)) ''quoteReceived'') ''conversion quote amount'' = Inr (parse_nat (tr_quoteRaw t))"

lemma classify_step_returns:
  assumes step: "classify_step fv bs byLog ob ts = Inr ts'" and tbl: "log_table byLog ts"
  shows "(summary_class fv ob = None \<and> ts' = ts) \<or>
    (\<exists>c i. summary_class fv ob = Some c \<and> i < length ts \<and> tr_classification (ts ! i) = Unclassified
       \<and> reports ob (ts ! i) \<and> ts' = ts[i := (ts ! i)\<lparr>tr_classification := c\<rparr>])"
proof (cases "summary_class fv ob")
  case None
  with step show ?thesis by (auto simp: classify_step_def summary_class_def Let_def res_simps)
next
  case (Some c)
  then have c: "conversionClassification fv (ob_event ob) = Inr (Some c)"
    by (auto simp: summary_class_def split: sum.splits)
  from step obtain m h a q ms qr l i where
    m: "read_hex32 (arg (ev_args (ob_event ob)) ''marketId'') ''conversion market'' = Inr m"
    and ms: "uint256 (arg (ev_args (ob_event ob)) ''memeSpent'') ''conversion meme amount'' = Inr ms"
    and qr: "uint256 (arg (ev_args (ob_event ob)) ''quoteReceived'') ''conversion quote amount'' = Inr qr"
    and f: "find (\<lambda>(logIndex, i). logIndex < log_of ob \<and> conversion_match m h a q ms qr (ts ! i)) (rev byLog) = Some (l, i)"
    and ts': "ts' = ts[i := (ts ! i)\<lparr>tr_classification := c\<rparr>]"
    unfolding classify_step_def Let_def c bindR_simps option.case log_of_def res_simps
    by (clarsimp simp: res_simps split del: if_split)
  from f have li: "(l, i) \<in> set byLog" "l < log_of ob" and cm: "conversion_match m h a q ms qr (ts ! i)"
    by (auto simp: find_Some_iff) (metis nth_mem rev_nth set_rev length_rev)+
  have "i < length ts" "trade_log (ts ! i) = l" using tbl li(1) by (auto simp: log_table_def)
  with Some li cm m ms qr ts' show ?thesis
    by (auto simp: conversion_match_def reports_def)
qed

lemma filter_update_count:
  "i < length xs \<Longrightarrow> length (filter P (xs[i := y])) + (if P (xs ! i) then 1 else 0)
    = length (filter P xs) + (if P y then 1 else 0)"
proof (induction xs arbitrary: i)
  case (Cons x xs)
  then show ?case by (cases i) auto
qed simp

text \<open>What the second loop keeps, for the observations it has visited.\<close>

definition classified :: "string \<Rightarrow> (int \<times> nat) list \<Rightarrow> trade_activity list \<Rightarrow> event_observation list
    \<Rightarrow> trade_activity list \<Rightarrow> bool" where
  "classified fv byLog ts0 pre ts \<longleftrightarrow> log_table byLog ts \<and> map trade_log ts = map trade_log ts0
     \<and> (\<forall>t\<in>set ts. trade_ok t)
     \<and> (\<forall>c. c \<noteq> Unclassified \<longrightarrow> length (filter (\<lambda>t. tr_classification t = c) ts)
           = length (filter (\<lambda>ob. summary_class fv ob = Some c) pre))
     \<and> (\<forall>t\<in>set ts. tr_classification t \<noteq> Unclassified \<longrightarrow>
           (\<exists>ob\<in>set pre. summary_class fv ob = Some (tr_classification t) \<and> reports ob t))"

lemma classified_step:
  assumes inv: "classified fv byLog ts0 pre ts" and step: "classify_step fv bs byLog ob ts = Inr ts'"
  shows "classified fv byLog ts0 (pre @ [ob]) ts'"
proof -
  have tbl: "log_table byLog ts" using inv by (simp add: classified_def)
  consider "summary_class fv ob = None" "ts' = ts"
    | c i where "summary_class fv ob = Some c" "i < length ts" "tr_classification (ts ! i) = Unclassified"
        "reports ob (ts ! i)" "ts' = ts[i := (ts ! i)\<lparr>tr_classification := c\<rparr>]"
    using classify_step_returns [OF step tbl] by auto
  then show ?thesis
  proof cases
    case 1
    with inv show ?thesis by (auto simp: classified_def)
  next
    case (2 c i)
    let ?t = "(ts ! i)\<lparr>tr_classification := c\<rparr>"
    have mem: "ts ! i \<in> set ts" using 2(2) by simp
    have "log_table byLog ts'" using tbl 2(2) by (fastforce simp: log_table_def 2(5) nth_list_update trade_log_def)
    moreover have "map trade_log ts' = map trade_log ts"
      using 2(2) by (simp add: 2(5) map_update trade_log_def list_update_same_conv)
    moreover have "\<forall>t\<in>set ts'. trade_ok t"
      using inv mem set_update_subset_insert [of ts i ?t] by (auto simp: classified_def 2(5) trade_ok_def)
    moreover have "length (filter (\<lambda>t. tr_classification t = k) ts')
        = length (filter (\<lambda>ob. summary_class fv ob = Some k) (pre @ [ob]))" if k: "k \<noteq> Unclassified" for k
    proof -
      have "length (filter (\<lambda>t. tr_classification t = k) ts') =
          length (filter (\<lambda>t. tr_classification t = k) ts) + (if c = k then 1 else 0)"
        using filter_update_count [OF 2(2), of "\<lambda>t. tr_classification t = k" ?t] k 2(3) by (simp add: 2(5))
      with inv k show ?thesis by (simp add: classified_def 2(1))
    qed
    moreover have "\<exists>o'\<in>set (pre @ [ob]). summary_class fv o' = Some (tr_classification t) \<and> reports o' t"
      if t: "t \<in> set ts'" "tr_classification t \<noteq> Unclassified" for t
    proof (cases "t = ?t")
      case True
      with 2 show ?thesis by (auto simp: reports_def trade_log_def)
    next
      case False
      then have "t \<in> set ts" using t(1) set_update_subset_insert [of ts i ?t] by (auto simp: 2(5))
      with inv t(2) show ?thesis by (auto simp: classified_def)
    qed
    ultimately show ?thesis using inv unfolding classified_def by metis
  qed
qed

lemma normalizeTransaction_returns:
  assumes "normalizeTransaction fv obs bindings = Inr ts"
  obtains byLog ts0 where "classified fv byLog ts0 (js_sort compareObservations obs) ts"
    and "map trade_log ts0 = map log_of (filter (is_trade_event bindings) (js_sort compareObservations obs))"
    and "sorted_wrt (\<lambda>x y. log_of x < log_of y) (js_sort compareObservations obs)"
proof -
  let ?ordered = "js_sort compareObservations obs"
  from assms obtain byCurve byPool ts0 byLog where
    ord: "assertSingleOrderedTransaction ?ordered = Inr ()"
    and pool: "uniqueMap (\<lambda>b. the (mb_poolId b)) (filter (\<lambda>b. mb_poolId b \<noteq> None) bindings) = Inr byPool"
    and coll: "collect_trades byCurve byPool ?ordered ([], []) = Inr (ts0, byLog)"
    and fold: "foldR (classify_step fv bindings byLog) ?ordered ts0 = Inr ts"
    by (auto simp: normalizeTransaction_def Let_def res_simps)
  have keys: "map_of byPool p \<noteq> None \<longleftrightarrow> Some p \<in> mb_poolId ` set bindings" for p
    using conjunct1 [OF uniqueMap_returns [OF pool]]
    by (auto simp: map_of_eq_None_iff image_iff) (metis option.distinct(1) option.sel)+
  have events: "pool_bound byPool ob \<longleftrightarrow> is_trade_event bindings ob" for ob
    unfolding pool_bound_def is_trade_event_def keys ..
  have tbl: "log_table byLog ts0" and ok: "\<forall>t\<in>set ts0. trade_ok t \<and> tr_classification t = Unclassified"
    and new: "map trade_log ts0 = map log_of (filter (pool_bound byPool) ?ordered)"
    using collect_trades_returns [OF coll] by (simp_all add: log_table_def)
  from new have logs: "map trade_log ts0 = map log_of (filter (is_trade_event bindings) ?ordered)"
    by (simp only: events cong: filter_cong)
  have "classified fv byLog ts0 ?ordered ts"
  proof (rule foldR_invariant [OF fold])
    show "classified fv byLog ts0 [] ts0" using tbl ok by (auto simp: classified_def filter_empty_conv)
  qed (rule classified_step)
  moreover have "sorted_wrt (\<lambda>x y. log_of x < log_of y) ?ordered"
    using assert_ordered [OF ord] by (simp add: log_of_def)
  ultimately show thesis using that logs by blast
qed

section \<open>A concrete transaction\<close>

text \<open>A Curve buy, a pool sell by the hook and the reward conversion that reports the sell.\<close>

definition sample_log :: "string \<Rightarrow> int \<Rightarrow> rpc_log" where
  "sample_log a i = \<lparr>lg_address = a, lg_blockHash = hex_lit 64 (CHR ''b''), lg_blockNumber = 7,
     lg_transactionHash = hex_lit 64 (CHR ''c''), lg_transactionIndex = 2, lg_logIndex = i\<rparr>"

definition sample_binding :: market_binding where
  "sample_binding = \<lparr>mb_chainId = 4663, mb_marketId = hex_lit 64 (CHR ''1''), mb_memeAsset = hex_lit 40 (CHR ''2''),
     mb_quoteAsset = hex_lit 40 (CHR ''3''), mb_quoteDecimals = 18, mb_curve = hex_lit 40 (CHR ''4''),
     mb_hook = hex_lit 40 (CHR ''5''), mb_poolId = Some (hex_lit 64 (CHR ''6'')), mb_lpFeePips = None,
     mb_currency0 = Some (hex_lit 40 (CHR ''2'')), mb_currency1 = Some (hex_lit 40 (CHR ''3''))\<rparr>"

definition sample_conversion :: event_observation where
  "sample_conversion = \<lparr>ob_event = \<lparr>ev_module = ''ProtocolFeeVault'', ev_name = ''RewardBatchConverted'',
     ev_args = [(''nonce'', JStr (show_nat 4)), (''marketId'', JStr (hex_lit 64 (CHR ''1''))),
       (''memeAsset'', JStr (hex_lit 40 (CHR ''2''))), (''quoteAsset'', JStr (hex_lit 40 (CHR ''3''))),
       (''memeSpent'', JStr (show_nat 3)), (''quoteReceived'', JStr (show_nat 2))],
     ev_log = sample_log (hex_lit 40 (CHR ''9'')) 5\<rparr>, ob_timestamp = 1000\<rparr>"

definition sample_buy :: event_observation where
  "sample_buy = \<lparr>ob_event = \<lparr>ev_module = ''TickerGardenCurve'', ev_name = ''CurveBuy'',
     ev_args = [(''tokensOut'', JStr (show_nat 5)), (''quoteIn'', JStr (show_nat 17)), (''fee'', JStr (show_nat 7)),
       (''tax'', JStr (show_nat 3)), (''buyer'', JStr (hex_lit 40 (CHR ''a''))),
       (''recipient'', JStr (hex_lit 40 (CHR ''a'')))],
     ev_log = sample_log (hex_lit 40 (CHR ''4'')) 1\<rparr>, ob_timestamp = 1000\<rparr>"

definition sample_swap :: event_observation where
  "sample_swap = \<lparr>ob_event = \<lparr>ev_module = ''UniswapV4PoolManager'', ev_name = ''Swap'',
     ev_args = [(''id'', JStr (hex_lit 64 (CHR ''6''))), (''amount0'', JStr (show_int (-3))), (''amount1'', JStr (show_int 2)),
       (''fee'', JStr (show_nat 500)), (''sender'', JStr (hex_lit 40 (CHR ''5'')))],
     ev_log = sample_log (hex_lit 40 (CHR ''8'')) 3\<rparr>, ob_timestamp = 1000\<rparr>"

lemmas sample_eval = sample_log_def sample_binding_def sample_conversion_def sample_buy_def sample_swap_def arg_def Let_def
  read_address_def read_hex32_def safeNumber_def MAX_SAFE_def is_hex_digit_def code_of_def is_digit_def lower_char_def
  int128_show INT128_MIN_def INT128_MAX_def source_of_def

lemma sample_price: "price 5 7 18 = Inr \<lparr>numerator = show_nat 7, denominator = show_nat 5\<rparr>"
  "price 3 2 18 = Inr \<lparr>numerator = show_nat 2, denominator = show_nat 3\<rparr>"
  by (simp_all add: price_def reducePrice_def gcd_loop.simps)

lemma sample_deltas: "pool_deltas (ev_args (ob_event sample_swap)) sample_binding = Inr (-3, 2)"
  by (simp add: pool_deltas_def sample_eval truthy_def hex_lit_less_iff swap_fee_ok_def delta_of_def)

lemma sample_curve: "curve_amounts (ev_args (ob_event sample_buy)) True = Inr (5, 7, 7, 3)"
  by (simp add: curve_amounts_def sample_eval)

lemma sample_buy_trade: "\<exists>t. normalizeCurve sample_buy sample_binding = Inr t \<and> trade_log t = 1 \<and> tr_venue t = Curve"
  using sample_curve
  by (simp add: normalizeCurve_def sample_eval sample_price trade_log_def)

lemma sample_pool_trade: "\<exists>t. normalizePool sample_swap sample_binding None = Inr t \<and> trade_log t = 3
    \<and> conversion_match (hex_lit 64 (CHR ''1'')) (hex_lit 40 (CHR ''5'')) (hex_lit 40 (CHR ''2'')) (hex_lit 40 (CHR ''3'')) 3 2 t"
  using sample_deltas
  by (simp add: normalizePool_def sample_eval trade_log_def sample_price pool_fee_def pool_sender_def conversion_match_def)

lemma sample_order: "js_sort compareObservations [sample_conversion, sample_buy, sample_swap]
    = [sample_buy, sample_swap, sample_conversion]"
  by (simp add: js_sort_def compareObservations_def sample_eval)

lemma sample_ordered: "assertSingleOrderedTransaction [sample_buy, sample_swap, sample_conversion] = Inr ()"
  by (simp add: sample_eval)

lemma sample_trade_of:
  "trade_of [(hex_lit 40 (CHR ''4''), sample_binding)] [(hex_lit 64 (CHR ''6''), sample_binding)] sample_buy rest
     = bindR (normalizeCurve sample_buy sample_binding) (\<lambda>t. Inr (Some t))"
  "trade_of [(hex_lit 40 (CHR ''4''), sample_binding)] [(hex_lit 64 (CHR ''6''), sample_binding)] sample_swap [sample_conversion]
     = bindR (normalizePool sample_swap sample_binding None) (\<lambda>t. Inr (Some t))"
  "trade_of bc bp sample_conversion rest = Inr None"
  by (simp_all add: trade_of_def is_curve_trade_def is_pool_swap_def fee_events_def sample_buy_def sample_swap_def
      sample_conversion_def sample_log_def read_hex32_def arg_def Let_def is_hex_digit_def code_of_def is_digit_def lower_char_def)

lemma sample_class:
  "conversionClassification fv (ob_event sample_buy) = Inr None"
  "conversionClassification fv (ob_event sample_swap) = Inr None"
  "conversionClassification (hex_lit 40 (CHR ''9'')) (ob_event sample_conversion) = Inr (Some InternalRewardConversion)"
  by (simp_all add: conversionClassification_def sample_eval)

lemma sample_conversion_step:
  assumes "trade_log s = 3" and "conversion_match (hex_lit 64 (CHR ''1'')) (hex_lit 40 (CHR ''5''))
      (hex_lit 40 (CHR ''2'')) (hex_lit 40 (CHR ''3'')) 3 2 s" and "tr_venue t = Curve"
  shows "classify_step (hex_lit 40 (CHR ''9'')) [sample_binding] [(1, 0), (3, Suc 0)] sample_conversion [t, s]
    = Inr [t, s\<lparr>tr_classification := InternalRewardConversion\<rparr>]"
  using assms
  by (simp add: classify_step_def sample_class) (simp add: sample_eval trade_log_def conversion_match_def)

lemma sample_normalizes:
  "\<exists>ts. normalizeTransaction (hex_lit 40 (CHR ''9'')) [sample_conversion, sample_buy, sample_swap] [sample_binding] = Inr ts"
proof -
  obtain t s where t: "normalizeCurve sample_buy sample_binding = Inr t" "trade_log t = 1" "tr_venue t = Curve"
    and s: "normalizePool sample_swap sample_binding None = Inr s" "trade_log s = 3"
      "conversion_match (hex_lit 64 (CHR ''1'')) (hex_lit 40 (CHR ''5'')) (hex_lit 40 (CHR ''2'')) (hex_lit 40 (CHR ''3'')) 3 2 s"
    using sample_buy_trade sample_pool_trade by blast
  have b: "mb_curve sample_binding = hex_lit 40 (CHR ''4'')" "hex_lit 40 (CHR ''4'') \<noteq> ZERO_ADDRESS"
      "mb_poolId sample_binding = Some (hex_lit 64 (CHR ''6''))"
    by (simp_all add: sample_binding_def hex_lit_def ZERO_ADDRESS_def)
  have coll: "collect_trades [(hex_lit 40 (CHR ''4''), sample_binding)] [(hex_lit 64 (CHR ''6''), sample_binding)]
      [sample_buy, sample_swap, sample_conversion] ([], []) = Inr ([t, s], [(1, 0), (3, Suc 0)])"
    using t s by (simp add: sample_trade_of trade_log_def)
  show ?thesis
    using sample_conversion_step [OF s(2,3) t(3)]
    by (simp add: normalizeTransaction_def sample_order sample_ordered b uniqueMap_def coll classify_step_def [of _ _ _ sample_buy]
        classify_step_def [of _ _ _ sample_swap] sample_class Let_def
          del: collect_trades.simps
          assertSingleOrderedTransaction.simps)
qed

section \<open>Properties\<close>

lemma summary_class_eq: "summary_class fv ob = Some c \<longleftrightarrow> conversionClassification fv (ob_event ob) = Inr (Some c)"
  by (auto simp: summary_class_def split: sum.splits)

text \<open>C1: a normalized transaction has exactly one trade per Curve trade event and per swap of a
  bound pool, in the order of the logs, whatever the order of the observations given.\<close>

theorem normalize_trades_are_events:
  assumes "normalizeTransaction fv obs bindings = Inr ts"
  shows "map trade_log ts = map log_of (filter (is_trade_event bindings) (js_sort compareObservations obs))
    \<and> sorted_wrt (<) (map trade_log ts)"
proof -
  from assms obtain byLog ts0 where c: "classified fv byLog ts0 (js_sort compareObservations obs) ts"
    and l: "map trade_log ts0 = map log_of (filter (is_trade_event bindings) (js_sort compareObservations obs))"
    and s: "sorted_wrt (\<lambda>x y. log_of x < log_of y) (js_sort compareObservations obs)"
    by (rule normalizeTransaction_returns)
  from c l have "map trade_log ts = map log_of (filter (is_trade_event bindings) (js_sort compareObservations obs))"
    by (simp add: classified_def)
  with s show ?thesis by (simp add: sorted_wrt_map sorted_wrt_filter)
qed

theorem normalize_trades_are_events_witness:
  "\<exists>ts. normalizeTransaction (hex_lit 40 (CHR ''9'')) [sample_conversion, sample_buy, sample_swap] [sample_binding] = Inr ts
    \<and> sorted_wrt (<) (map trade_log ts)"
  using sample_normalizes normalize_trades_are_events by blast

text \<open>C2: for each internal class, the trades of the class are as many as the conversion summaries
  of the fee vault that announce it: a summary reclassifies exactly one trade and no trade twice.\<close>

theorem normalize_one_trade_per_summary:
  assumes "normalizeTransaction fv obs bindings = Inr ts" and "c \<noteq> Unclassified"
  shows "length (filter (\<lambda>t. tr_classification t = c) ts)
    = length (filter (\<lambda>ob. conversionClassification fv (ob_event ob) = Inr (Some c)) obs)"
proof -
  from assms(1) obtain byLog ts0 where "classified fv byLog ts0 (js_sort compareObservations obs) ts"
    by (rule normalizeTransaction_returns)
  with assms(2) have "length (filter (\<lambda>t. tr_classification t = c) ts)
      = length (filter (\<lambda>ob. summary_class fv ob = Some c) (js_sort compareObservations obs))"
    by (simp add: classified_def)
  then show ?thesis by (simp add: summary_class_eq length_filter_js_sort)
qed

theorem normalize_one_trade_per_summary_witness:
  "\<exists>ts. normalizeTransaction (hex_lit 40 (CHR ''9'')) [sample_conversion, sample_buy, sample_swap] [sample_binding] = Inr ts
    \<and> length (filter (\<lambda>t. tr_classification t = InternalRewardConversion) ts)
    = length (filter (\<lambda>ob. conversionClassification (hex_lit 40 (CHR ''9'')) (ob_event ob) = Inr (Some InternalRewardConversion))
        [sample_conversion, sample_buy, sample_swap])"
proof -
  obtain ts where ts: "normalizeTransaction (hex_lit 40 (CHR ''9'')) [sample_conversion, sample_buy, sample_swap] [sample_binding] = Inr ts"
    using sample_normalizes by blast
  show ?thesis by (intro exI conjI, rule ts, rule normalize_one_trade_per_summary [OF ts]) simp
qed

text \<open>C3: a trade is only reclassified by a later summary of the fee vault in the same
  transaction that names its market and its exact amounts, and it is a sell on a pool.\<close>

theorem normalize_reclassified_is_reported:
  assumes "normalizeTransaction fv obs bindings = Inr ts" and "t \<in> set ts" and "tr_classification t \<noteq> Unclassified"
  shows "\<exists>ob\<in>set obs. conversionClassification fv (ob_event ob) = Inr (Some (tr_classification t)) \<and> reports ob t"
proof -
  from assms(1) obtain byLog ts0 where "classified fv byLog ts0 (js_sort compareObservations obs) ts"
    by (rule normalizeTransaction_returns)
  with assms(2,3) have "\<exists>ob\<in>set obs. summary_class fv ob = Some (tr_classification t) \<and> reports ob t"
    by (simp add: classified_def)
  then show ?thesis by (simp add: summary_class_eq)
qed

lemma sample_has_internal:
  assumes "normalizeTransaction (hex_lit 40 (CHR ''9'')) [sample_conversion, sample_buy, sample_swap] [sample_binding] = Inr ts"
  shows "\<exists>t\<in>set ts. tr_classification t = InternalRewardConversion"
proof -
  from assms obtain byLog ts0 where "classified (hex_lit 40 (CHR ''9'')) byLog ts0
      (js_sort compareObservations [sample_conversion, sample_buy, sample_swap]) ts"
    by (rule normalizeTransaction_returns)
  then have "length (filter (\<lambda>t. tr_classification t = InternalRewardConversion) ts) = 1"
    by (simp add: classified_def sample_order summary_class_def sample_class)
  then have "filter (\<lambda>t. tr_classification t = InternalRewardConversion) ts \<noteq> []" by force
  then show ?thesis by (simp add: filter_empty_conv)
qed

theorem normalize_reclassified_is_reported_witness:
  "\<exists>t. \<exists>ob\<in>set [sample_conversion, sample_buy, sample_swap].
    conversionClassification (hex_lit 40 (CHR ''9'')) (ob_event ob) = Inr (Some (tr_classification t)) \<and> reports ob t"
proof -
  obtain ts where ts: "normalizeTransaction (hex_lit 40 (CHR ''9'')) [sample_conversion, sample_buy, sample_swap] [sample_binding] = Inr ts"
    using sample_normalizes by blast
  then obtain t where "t \<in> set ts" "tr_classification t \<noteq> Unclassified"
    using sample_has_internal by force
  then show ?thesis using normalize_reclassified_is_reported [OF ts] by blast
qed

text \<open>Every normalized trade has positive amounts, stored as canonical decimals, and its price
  is the reduced fraction of quote per whole token for these amounts.\<close>

theorem normalize_trades_ok:
  assumes "normalizeTransaction fv obs bindings = Inr ts" and "t \<in> set ts"
  shows "is_pos_literal (tr_memeRaw t) \<and> is_pos_literal (tr_quoteRaw t) \<and> price_wf (tr_price t)
    \<and> parse_nat (numerator (tr_price t)) * (parse_nat (tr_memeRaw t) * 10 ^ nat (tr_quoteDecimals t))
      = parse_nat (tr_quoteRaw t) * 10 ^ 18 * parse_nat (denominator (tr_price t))"
proof -
  from assms(1) obtain byLog ts0 where "classified fv byLog ts0 (js_sort compareObservations obs) ts"
    by (rule normalizeTransaction_returns)
  with assms(2) have "trade_ok t" by (simp add: classified_def)
  then show ?thesis unfolding trade_ok_def price_is_def by blast
qed

theorem normalize_trades_ok_witness:
  "\<exists>ts. normalizeTransaction (hex_lit 40 (CHR ''9'')) [sample_conversion, sample_buy, sample_swap] [sample_binding] = Inr ts
    \<and> (\<exists>t\<in>set ts. is_pos_literal (tr_memeRaw t) \<and> price_wf (tr_price t))"
proof -
  obtain ts where ts: "normalizeTransaction (hex_lit 40 (CHR ''9'')) [sample_conversion, sample_buy, sample_swap] [sample_binding] = Inr ts"
    using sample_normalizes by blast
  then obtain t where t: "t \<in> set ts" using sample_has_internal by blast
  show ?thesis using normalize_trades_ok [OF ts t] ts t by (intro exI [of _ ts] conjI bexI [of _ t]) simp_all
qed

text \<open>The accounting of a Curve trade. On a buy the quote amount, the fee and the tax add up
  to the cash paid in; on a sell the quote amount is the cash paid out plus fee and tax.\<close>

theorem normalizeCurve_accounting:
  assumes "normalizeCurve ob b = Inr t"
  shows "\<exists>cash fee tax. tr_feeRaw t = Some (show_nat fee) \<and> tr_taxRaw t = Some (show_nat tax) \<and>
    (if ev_name (ob_event ob) = ''CurveBuy''
     then uint256 (arg (ev_args (ob_event ob)) ''quoteIn'') ''curve quote cash flow'' = Inr cash
       \<and> parse_nat (tr_quoteRaw t) + fee + tax = cash
     else uint256 (arg (ev_args (ob_event ob)) ''quoteOut'') ''curve quote cash flow'' = Inr cash
       \<and> parse_nat (tr_quoteRaw t) = cash + fee + tax)"
proof -
  from normalizeCurve_returns [OF assms] obtain meme quote fee tax where
    a: "curve_amounts (ev_args (ob_event ob)) (ev_name (ob_event ob) = ''CurveBuy'') = Inr (meme, quote, fee, tax)"
    and t: "tr_quoteRaw t = show_nat quote" "tr_feeRaw t = Some (show_nat fee)" "tr_taxRaw t = Some (show_nat tax)" by metis
  from curve_amounts_facts(3) [OF a] t show ?thesis by (cases "ev_name (ob_event ob) = ''CurveBuy''") auto
qed

theorem normalizeCurve_accounting_witness:
  "\<exists>t. normalizeCurve sample_buy sample_binding = Inr t \<and> (\<exists>fee. tr_feeRaw t = Some (show_nat fee))"
  using sample_buy_trade normalizeCurve_accounting by blast

end
