(* ===== verification/Trade_Candles.thy ===== *)
theory Trade_Candles imports Trade_Normalize begin

text \<open>
  \<open>buildCandles\<close> of \<open>services/backend-ts/packages/analytics/src/index.ts\<close>: the trades of
  one market, in event order, are folded into the candles of a window. The lemmas show that each
  candle is the fold of its own bucket, what that fold computes (open, close, high, low, volumes
  and counts), that no volume is lost and that the order of the input does not matter.
\<close>

section \<open>Candles\<close>

datatype interval = I60 | I300 | I900 | I3600 | I14400 | I86400

fun seconds :: "interval \<Rightarrow> int" where
  "seconds I60 = 60" | "seconds I300 = 300" | "seconds I900 = 900"
| "seconds I3600 = 3600" | "seconds I14400 = 14400" | "seconds I86400 = 86400"

lemma seconds_pos [simp]: "0 < seconds i" "seconds i \<noteq> 0"
  by (cases i; simp)+

record candle =
  ca_timestamp :: int
  ca_open :: "candle_price option"
  ca_high :: "candle_price option"
  ca_low :: "candle_price option"
  ca_close :: "candle_price option"
  ca_memeVolumeRaw :: string
  ca_quoteVolumeRaw :: string
  ca_internalMemeVolumeRaw :: string
  ca_internalQuoteVolumeRaw :: string
  ca_tradeCount :: nat
  ca_internalTradeCount :: nat
  ca_unclassifiedTradeCount :: nat

text \<open>The window; a \<open>from\<close> or \<open>to\<close> that is not an integer fails the first check of the code.\<close>

record candle_input =
  ci_chainId :: int
  ci_marketId :: string
  ci_memeAsset :: string
  ci_quoteAsset :: string
  ci_quoteDecimals :: int
  ci_from :: int
  ci_to :: int
  ci_interval :: interval

definition is_safe_int :: "int \<Rightarrow> bool" where
  "is_safe_int i \<longleftrightarrow> \<bar>i\<bar> \<le> MAX_SAFE"

definition window_ok :: "candle_input \<Rightarrow> bool" where
  "window_ok inp \<longleftrightarrow> is_safe_int (ci_from inp) \<and> is_safe_int (ci_to inp) \<and> 0 \<le> ci_from inp
     \<and> ci_from inp < ci_to inp \<and> ci_from inp mod seconds (ci_interval inp) = 0
     \<and> ci_to inp mod seconds (ci_interval inp) = 0
     \<and> (ci_to inp - ci_from inp) div seconds (ci_interval inp) \<le> 2000"

definition candle_count :: "candle_input \<Rightarrow> nat" where
  "candle_count inp = nat ((ci_to inp - ci_from inp) div seconds (ci_interval inp))"

definition empty_candle :: "candle_input \<Rightarrow> nat \<Rightarrow> candle" where
  "empty_candle inp index = \<lparr>ca_timestamp = ci_from inp + int index * seconds (ci_interval inp),
     ca_open = None, ca_high = None, ca_low = None, ca_close = None,
     ca_memeVolumeRaw = show_nat 0, ca_quoteVolumeRaw = show_nat 0, ca_internalMemeVolumeRaw = show_nat 0,
     ca_internalQuoteVolumeRaw = show_nat 0, ca_tradeCount = 0, ca_internalTradeCount = 0,
     ca_unclassifiedTradeCount = 0\<rparr>"

text \<open>The part of the loop body that updates the candle of the trade.\<close>

definition candle_add :: "trade_activity \<Rightarrow> candle \<Rightarrow> candle res" where
  "candle_add t c =
     bindR (reducePrice (tr_price t)) (\<lambda>p.
     bindR (addUint (ca_memeVolumeRaw c) (tr_memeRaw t)) (\<lambda>memeVolume.
     bindR (addUint (ca_quoteVolumeRaw c) (tr_quoteRaw t)) (\<lambda>quoteVolume.
     let c1 = c\<lparr>ca_open := (case ca_open c of None \<Rightarrow> Some p | Some q \<Rightarrow> Some q),
                ca_high := (case ca_high c of None \<Rightarrow> Some p | Some h \<Rightarrow> if 0 < comparePrice p h then Some p else Some h),
                ca_low := (case ca_low c of None \<Rightarrow> Some p | Some l \<Rightarrow> if comparePrice p l < 0 then Some p else Some l),
                ca_close := Some p, ca_memeVolumeRaw := memeVolume, ca_quoteVolumeRaw := quoteVolume,
                ca_tradeCount := Suc (ca_tradeCount c)\<rparr> in
     if tr_classification t = Unclassified
     then Inr (c1\<lparr>ca_unclassifiedTradeCount := Suc (ca_unclassifiedTradeCount c)\<rparr>)
     else
     bindR (addUint (ca_internalMemeVolumeRaw c) (tr_memeRaw t)) (\<lambda>internalMeme.
     bindR (addUint (ca_internalQuoteVolumeRaw c) (tr_quoteRaw t)) (\<lambda>internalQuote.
     Inr (c1\<lparr>ca_internalTradeCount := Suc (ca_internalTradeCount c),
             ca_internalMemeVolumeRaw := internalMeme, ca_internalQuoteVolumeRaw := internalQuote\<rparr>))))))"

definition candle_identity :: "candle_input \<Rightarrow> trade_activity \<Rightarrow> bool" where
  "candle_identity inp t \<longleftrightarrow> src_chainId (tr_source t) = ci_chainId inp \<and> tr_marketId t = ci_marketId inp
     \<and> tr_memeAsset t = ci_memeAsset inp \<and> tr_quoteAsset t = ci_quoteAsset inp
     \<and> tr_quoteDecimals t = ci_quoteDecimals inp"

definition bucket_of :: "candle_input \<Rightarrow> int \<Rightarrow> nat" where
  "bucket_of inp timestamp = nat ((timestamp - ci_from inp) div seconds (ci_interval inp))"

definition candle_step :: "candle_input \<Rightarrow> trade_activity \<Rightarrow> candle list \<times> string list \<Rightarrow> (candle list \<times> string list) res" where
  "candle_step inp t st = (case st of (candles, seen) \<Rightarrow>
     bindR (safeTimestamp (tr_timestamp t)) (\<lambda>timestamp.
     if \<not> candle_identity inp t \<or> timestamp < ci_from inp \<or> ci_to inp \<le> timestamp
        \<or> src_eventKey (tr_source t) \<in> set seen
     then Inl (Error ''trade is outside candle identity or window'')
     else let k = bucket_of inp timestamp in
     bindR (candle_add t (candles ! k)) (\<lambda>c.
     Inr (candles[k := c], src_eventKey (tr_source t) # seen))))"

definition buildCandles :: "candle_input \<Rightarrow> trade_activity list \<Rightarrow> candle list res" where
  "buildCandles inp trades =
     (if \<not> window_ok inp then Inl (Error ''invalid candle window'')
      else bindR (foldR (candle_step inp) (js_sort compareTradesAscending trades)
                   (map (empty_candle inp) [0..<candle_count inp], []))
             (\<lambda>(candles, seen). Inr candles))"

section \<open>What one candle computes\<close>

text \<open>The summary of the trades \<open>bs\<close> of a bucket that a candle must be.\<close>

definition price_of :: "trade_activity \<Rightarrow> candle_price" where
  "price_of t = (case reducePrice (tr_price t) of Inr p \<Rightarrow> p | Inl e \<Rightarrow> tr_price t)"

abbreviation meme_of :: "trade_activity \<Rightarrow> nat" where "meme_of t \<equiv> parse_nat (tr_memeRaw t)"
abbreviation quote_of :: "trade_activity \<Rightarrow> nat" where "quote_of t \<equiv> parse_nat (tr_quoteRaw t)"
abbreviation internal :: "trade_activity list \<Rightarrow> trade_activity list" where
  "internal \<equiv> filter (\<lambda>t. tr_classification t \<noteq> Unclassified)"

definition candle_volumes :: "trade_activity list \<Rightarrow> candle \<Rightarrow> bool" where
  "candle_volumes bs c \<longleftrightarrow>
     ca_memeVolumeRaw c = show_nat (\<Sum>t\<leftarrow>bs. meme_of t) \<and> ca_quoteVolumeRaw c = show_nat (\<Sum>t\<leftarrow>bs. quote_of t)
     \<and> ca_internalMemeVolumeRaw c = show_nat (\<Sum>t\<leftarrow>internal bs. meme_of t)
     \<and> ca_internalQuoteVolumeRaw c = show_nat (\<Sum>t\<leftarrow>internal bs. quote_of t)
     \<and> ca_tradeCount c = length bs \<and> ca_internalTradeCount c = length (internal bs)
     \<and> ca_unclassifiedTradeCount c + ca_internalTradeCount c = ca_tradeCount c"

definition candle_prices :: "trade_activity list \<Rightarrow> candle \<Rightarrow> bool" where
  "candle_prices bs c \<longleftrightarrow>
     (if bs = [] then ca_open c = None \<and> ca_high c = None \<and> ca_low c = None \<and> ca_close c = None
      else ca_open c = Some (price_of (hd bs)) \<and> ca_close c = Some (price_of (last bs))
        \<and> (\<forall>t\<in>set bs. price_wf (price_of t))
        \<and> (\<exists>h\<in>set bs. ca_high c = Some (price_of h) \<and> (\<forall>t\<in>set bs. price_value (price_of t) \<le> price_value (price_of h)))
        \<and> (\<exists>l\<in>set bs. ca_low c = Some (price_of l) \<and> (\<forall>t\<in>set bs. price_value (price_of l) \<le> price_value (price_of t))))"

lemma candle_add_returns:
  assumes "candle_add t c = Inr c'"
  shows "reducePrice (tr_price t) = Inr (price_of t) \<and> ca_timestamp c' = ca_timestamp c
    \<and> addUint (ca_memeVolumeRaw c) (tr_memeRaw t) = Inr (ca_memeVolumeRaw c')
    \<and> addUint (ca_quoteVolumeRaw c) (tr_quoteRaw t) = Inr (ca_quoteVolumeRaw c')
    \<and> ca_open c' = (case ca_open c of None \<Rightarrow> Some (price_of t) | Some q \<Rightarrow> Some q)
    \<and> ca_high c' = (case ca_high c of None \<Rightarrow> Some (price_of t)
         | Some h \<Rightarrow> if 0 < comparePrice (price_of t) h then Some (price_of t) else Some h)
    \<and> ca_low c' = (case ca_low c of None \<Rightarrow> Some (price_of t)
         | Some l \<Rightarrow> if comparePrice (price_of t) l < 0 then Some (price_of t) else Some l)
    \<and> ca_close c' = Some (price_of t) \<and> ca_tradeCount c' = Suc (ca_tradeCount c)
    \<and> (if tr_classification t = Unclassified
       then ca_unclassifiedTradeCount c' = Suc (ca_unclassifiedTradeCount c) \<and> ca_internalTradeCount c' = ca_internalTradeCount c
         \<and> ca_internalMemeVolumeRaw c' = ca_internalMemeVolumeRaw c \<and> ca_internalQuoteVolumeRaw c' = ca_internalQuoteVolumeRaw c
       else ca_unclassifiedTradeCount c' = ca_unclassifiedTradeCount c \<and> ca_internalTradeCount c' = Suc (ca_internalTradeCount c)
         \<and> addUint (ca_internalMemeVolumeRaw c) (tr_memeRaw t) = Inr (ca_internalMemeVolumeRaw c')
         \<and> addUint (ca_internalQuoteVolumeRaw c) (tr_quoteRaw t) = Inr (ca_internalQuoteVolumeRaw c'))"
proof -
  have p: "reducePrice (tr_price t) = Inr (price_of t)"
    using assms by (auto simp: candle_add_def bindR_eq_Inr price_of_def)
  show ?thesis
    using assms p
    by (cases "tr_classification t = Unclassified") (clarsimp simp: candle_add_def Let_def bindR_eq_Inr)+
qed

lemma candle_add_volumes:
  assumes "candle_volumes bs c" and "candle_add t c = Inr c'"
  shows "candle_volumes (bs @ [t]) c'"
  using assms(1) candle_add_returns [OF assms(2)]
  by (cases "tr_classification t = Unclassified") (auto simp: candle_volumes_def addUint_show)

lemma comparePrice_less: "price_wf p \<Longrightarrow> price_wf q \<Longrightarrow> comparePrice p q < 0 \<longleftrightarrow> price_value p < price_value q"
  by (simp add: comparePrice_value)

lemma comparePrice_greater: "price_wf p \<Longrightarrow> price_wf q \<Longrightarrow> 0 < comparePrice p q \<longleftrightarrow> price_value q < price_value p"
  by (simp add: comparePrice_value)

lemma candle_add_prices:
  assumes inv: "candle_prices bs c" and add: "candle_add t c = Inr c'"
  shows "candle_prices (bs @ [t]) c'"
proof -
  note r = candle_add_returns [OF add]
  have t: "price_wf (price_of t)" using r reducePrice_wf by blast
  show ?thesis
  proof (cases "bs = []")
    case True
    with inv r t show ?thesis by (simp add: candle_prices_def)
  next
    case False
    with inv obtain h l where hl: "h \<in> set bs" "l \<in> set bs" "ca_high c = Some (price_of h)" "ca_low c = Some (price_of l)"
      and hi: "\<forall>t\<in>set bs. price_value (price_of t) \<le> price_value (price_of h)"
      and lo: "\<forall>t\<in>set bs. price_value (price_of l) \<le> price_value (price_of t)"
      and wf: "\<forall>t\<in>set bs. price_wf (price_of t)"
      and oc: "ca_open c = Some (price_of (hd bs))"
      by (auto simp: candle_prices_def)
    have high: "\<exists>h'\<in>set (bs @ [t]). ca_high c' = Some (price_of h')
        \<and> (\<forall>t\<in>set (bs @ [t]). price_value (price_of t) \<le> price_value (price_of h'))"
    proof (cases "price_value (price_of h) < price_value (price_of t)")
      case True
      then have "ca_high c' = Some (price_of t)" using r hl wf t by (simp add: comparePrice_greater)
      with True hi show ?thesis by (intro bexI [of _ t]) auto
    next
      case f: False
      then have "ca_high c' = Some (price_of h)" using r hl wf t by (simp add: comparePrice_greater)
      with f hi hl show ?thesis by (intro bexI [of _ h]) auto
    qed
    have low: "\<exists>l'\<in>set (bs @ [t]). ca_low c' = Some (price_of l')
        \<and> (\<forall>t\<in>set (bs @ [t]). price_value (price_of l') \<le> price_value (price_of t))"
    proof (cases "price_value (price_of t) < price_value (price_of l)")
      case True
      then have "ca_low c' = Some (price_of t)" using r hl wf t by (simp add: comparePrice_less)
      with True lo show ?thesis by (intro bexI [of _ t]) auto
    next
      case f: False
      then have "ca_low c' = Some (price_of l)" using r hl wf t by (simp add: comparePrice_less)
      with f lo hl show ?thesis by (intro bexI [of _ l]) auto
    qed
    show ?thesis using high low False oc wf t r by (simp add: candle_prices_def)
  qed
qed

section \<open>The window\<close>

text \<open>
  Which trades fall into the \<open>k\<close>th interval of the window, by the time they carry: the interval starts \<open>k\<close>
  interval lengths after the window and ends, exclusively, one length later. This is the specification of
  the bucketing and does not mention the index the code computes.
\<close>

definition trade_time :: "trade_activity \<Rightarrow> int" where
  "trade_time t = int (parse_nat (tr_timestamp t))"

definition in_bucket :: "candle_input \<Rightarrow> nat \<Rightarrow> trade_activity \<Rightarrow> bool" where
  "in_bucket inp k t \<longleftrightarrow> ci_from inp + int k * seconds (ci_interval inp) \<le> trade_time t
     \<and> trade_time t < ci_from inp + (int k + 1) * seconds (ci_interval inp)"

lemma safeTimestamp_time: "safeTimestamp s = Inr ts \<Longrightarrow> ts = int (parse_nat s)"
  by (auto simp: safeTimestamp_def safeNumber_def bindR_eq_Inr if_Inl_eq_Inr uint256_JStr split: if_splits)

lemma interval_unique:
  fixes a b n s :: int
  assumes "0 < s" and "a * s \<le> n" and "n < (a + 1) * s" and "b * s \<le> n" and "n < (b + 1) * s"
  shows "a = b"
proof -
  have "a * s < (b + 1) * s" "b * s < (a + 1) * s" using assms by linarith+
  with assms(1) show ?thesis by simp
qed

lemma in_bucket_unique:
  assumes "in_bucket inp j t" and "in_bucket inp k t"
  shows "j = k"
  using interval_unique [of "seconds (ci_interval inp)" "int j" "trade_time t - ci_from inp" "int k"] assms
  by (simp add: in_bucket_def)

lemma count_covers:
  assumes "window_ok inp"
  shows "ci_from inp + int (candle_count inp) * seconds (ci_interval inp) = ci_to inp"
proof -
  have "seconds (ci_interval inp) dvd ci_to inp - ci_from inp"
    using assms by (auto simp: window_ok_def intro!: dvd_diff)
  moreover have "0 \<le> (ci_to inp - ci_from inp) div seconds (ci_interval inp)"
    using assms by (simp add: window_ok_def pos_imp_zdiv_nonneg_iff)
  ultimately show ?thesis by (simp add: candle_count_def)
qed

lemma bucket_in_range:
  assumes "window_ok inp" and "ci_from inp \<le> ts" and "ts < ci_to inp"
  shows "bucket_of inp ts < candle_count inp"
    and "ci_from inp + int (bucket_of inp ts) * seconds (ci_interval inp) \<le> ts"
    and "ts < ci_from inp + (int (bucket_of inp ts) + 1) * seconds (ci_interval inp)"
proof -
  let ?s = "seconds (ci_interval inp)"
  have s: "0 < ?s" by simp
  have dvd: "?s dvd ci_to inp - ci_from inp"
    using assms(1) by (auto simp: window_ok_def intro!: dvd_diff)
  then obtain n where n: "ci_to inp - ci_from inp = ?s * n" by (auto elim: dvdE)
  have d: "0 \<le> (ts - ci_from inp) div ?s" using assms(2) s by (simp add: pos_imp_zdiv_nonneg_iff)
  have "ts - ci_from inp < ?s * n" using assms(3) n by linarith
  moreover have "(ts - ci_from inp) div ?s * ?s \<le> ts - ci_from inp"
    using div_mult_mod_eq [of "ts - ci_from inp" ?s] pos_mod_sign [OF s, of "ts - ci_from inp"] by linarith
  ultimately have "(ts - ci_from inp) div ?s < n" using s
    by (metis le_less_trans mult.commute mult_less_cancel_left_pos)
  moreover have "n = (ci_to inp - ci_from inp) div ?s" using n s by simp
  ultimately show "bucket_of inp ts < candle_count inp" using d by (simp add: bucket_of_def candle_count_def)
  have b: "int (bucket_of inp ts) = (ts - ci_from inp) div ?s" using d by (simp add: bucket_of_def)
  have e: "(ts - ci_from inp) div ?s * ?s + (ts - ci_from inp) mod ?s = ts - ci_from inp" by simp
  show "ci_from inp + int (bucket_of inp ts) * ?s \<le> ts"
    using e pos_mod_sign [OF s, of "ts - ci_from inp"] unfolding b by linarith
  show "ts < ci_from inp + (int (bucket_of inp ts) + 1) * ?s"
    using e pos_mod_bound [OF s, of "ts - ci_from inp"] unfolding b distrib_right mult_1 by linarith
qed

lemma candle_step_returns:
  assumes "candle_step inp t (cs, seen) = Inr (cs', seen')"
  obtains ts c where "safeTimestamp (tr_timestamp t) = Inr ts" "candle_identity inp t"
    "ci_from inp \<le> ts" "ts < ci_to inp" "src_eventKey (tr_source t) \<notin> set seen"
    "candle_add t (cs ! bucket_of inp ts) = Inr c" "cs' = cs[bucket_of inp ts := c]"
    "seen' = src_eventKey (tr_source t) # seen"
  using assms by (auto simp: candle_step_def Let_def bindR_eq_Inr if_Inl_eq_Inr not_le not_less)

text \<open>Each candle is the summary of its own bucket; the keys seen are those of the trades, all different.\<close>

definition window_inv :: "candle_input \<Rightarrow> trade_activity list \<Rightarrow> candle list \<times> string list \<Rightarrow> bool" where
  "window_inv inp pre st \<longleftrightarrow> length (fst st) = candle_count inp
     \<and> (\<forall>k<candle_count inp. candle_volumes (filter (in_bucket inp k) pre) (fst st ! k)
          \<and> candle_prices (filter (in_bucket inp k) pre) (fst st ! k)
          \<and> ca_timestamp (fst st ! k) = ci_from inp + int k * seconds (ci_interval inp))
     \<and> (\<Sum>c\<leftarrow>fst st. parse_nat (ca_memeVolumeRaw c)) = (\<Sum>t\<leftarrow>pre. meme_of t)
     \<and> (\<Sum>c\<leftarrow>fst st. parse_nat (ca_quoteVolumeRaw c)) = (\<Sum>t\<leftarrow>pre. quote_of t)
     \<and> (\<Sum>c\<leftarrow>fst st. ca_tradeCount c) = length pre
     \<and> snd st = rev (map (\<lambda>t. src_eventKey (tr_source t)) pre) \<and> distinct (map (\<lambda>t. src_eventKey (tr_source t)) pre)
     \<and> (\<forall>t\<in>set pre. candle_identity inp t \<and> (\<exists>k<candle_count inp. in_bucket inp k t))"

lemma sum_list_map_update:
  "k < length xs \<Longrightarrow> (\<Sum>x\<leftarrow>xs[k := y]. f x) + f (xs ! k) = (\<Sum>x\<leftarrow>xs. f x) + (f y :: nat)"
proof (induction xs arbitrary: k)
  case (Cons x xs)
  then show ?case by (cases k) auto
qed simp

lemma window_step:
  assumes ok: "window_ok inp" and inv: "window_inv inp pre (cs, seen)"
    and step: "candle_step inp t (cs, seen) = Inr (cs', seen')"
  shows "window_inv inp (pre @ [t]) (cs', seen')"
proof -
  from step obtain ts c where r: "safeTimestamp (tr_timestamp t) = Inr ts" "candle_identity inp t"
    "ci_from inp \<le> ts" "ts < ci_to inp" "src_eventKey (tr_source t) \<notin> set seen"
    and add: "candle_add t (cs ! bucket_of inp ts) = Inr c" and cs': "cs' = cs[bucket_of inp ts := c]"
    and seen': "seen' = src_eventKey (tr_source t) # seen" by (rule candle_step_returns)
  let ?k = "bucket_of inp ts"
  have k: "?k < candle_count inp" by (rule bucket_in_range [OF ok r(3,4)])
  have len: "length cs = candle_count inp" using inv by (simp add: window_inv_def)
  have "in_bucket inp ?k t"
    using bucket_in_range [OF ok r(3,4)] safeTimestamp_time [OF r(1)] by (simp add: in_bucket_def trade_time_def)
  then have bucket: "in_bucket inp j t \<longleftrightarrow> j = ?k" for j using in_bucket_unique by blast
  have old: "candle_volumes (filter (in_bucket inp ?k) pre) (cs ! ?k)" "candle_prices (filter (in_bucket inp ?k) pre) (cs ! ?k)"
    "ca_timestamp (cs ! ?k) = ci_from inp + int ?k * seconds (ci_interval inp)"
    using inv k by (simp_all add: window_inv_def)
  note new = candle_add_volumes [OF old(1) add] candle_add_prices [OF old(2) add] candle_add_returns [OF add]
  have "parse_nat (ca_memeVolumeRaw c) = parse_nat (ca_memeVolumeRaw (cs ! ?k)) + meme_of t"
    "parse_nat (ca_quoteVolumeRaw c) = parse_nat (ca_quoteVolumeRaw (cs ! ?k)) + quote_of t"
    "ca_tradeCount c = Suc (ca_tradeCount (cs ! ?k))"
    using new(1) old(1) by (simp_all add: candle_volumes_def)
  then have sums: "(\<Sum>c\<leftarrow>cs'. parse_nat (ca_memeVolumeRaw c)) = (\<Sum>c\<leftarrow>cs. parse_nat (ca_memeVolumeRaw c)) + meme_of t"
    "(\<Sum>c\<leftarrow>cs'. parse_nat (ca_quoteVolumeRaw c)) = (\<Sum>c\<leftarrow>cs. parse_nat (ca_quoteVolumeRaw c)) + quote_of t"
    "(\<Sum>c\<leftarrow>cs'. ca_tradeCount c) = Suc (\<Sum>c\<leftarrow>cs. ca_tradeCount c)"
    using sum_list_map_update [of ?k cs "\<lambda>c. parse_nat (ca_memeVolumeRaw c)" c]
      sum_list_map_update [of ?k cs "\<lambda>c. parse_nat (ca_quoteVolumeRaw c)" c]
      sum_list_map_update [of ?k cs ca_tradeCount c] k len by (simp_all add: cs')
  have each: "candle_volumes (filter (in_bucket inp j) (pre @ [t])) (cs' ! j)
      \<and> candle_prices (filter (in_bucket inp j) (pre @ [t])) (cs' ! j)
      \<and> ca_timestamp (cs' ! j) = ci_from inp + int j * seconds (ci_interval inp)" if j: "j < candle_count inp" for j
  proof (cases "j = ?k")
    case True
    then show ?thesis using new old(3) k len by (simp add: bucket cs')
  next
    case False
    then show ?thesis using inv j by (simp add: window_inv_def bucket cs')
  qed
  have "\<exists>j<candle_count inp. in_bucket inp j t" using k bucket by blast
  then show ?thesis using inv each sums r(2,5) len by (simp add: window_inv_def seen' cs')
qed

lemma buildCandles_inv:
  assumes "buildCandles inp trades = Inr cs"
  shows "\<exists>seen. window_ok inp \<and> window_inv inp (js_sort compareTradesAscending trades) (cs, seen)"
proof -
  from assms obtain seen where ok: "window_ok inp"
    and fold: "foldR (candle_step inp) (js_sort compareTradesAscending trades)
                 (map (empty_candle inp) [0..<candle_count inp], []) = Inr (cs, seen)"
    by (auto simp: buildCandles_def if_Inl_eq_Inr bindR_eq_Inr)
  have "window_inv inp (js_sort compareTradesAscending trades) (cs, seen)"
  proof (rule foldR_invariant [OF fold])
    show "window_inv inp [] (map (empty_candle inp) [0..<candle_count inp], [])"
      by (simp add: window_inv_def empty_candle_def candle_volumes_def candle_prices_def comp_def
          sum_list_triv del: show_nat_0)
  next
    fix pre x post s t
    assume "window_inv inp pre s" "candle_step inp x s = Inr t"
    then show "window_inv inp (pre @ [x]) t" using window_step [OF ok] by (cases s, cases t) auto
  qed
  with ok show ?thesis by blast
qed

section \<open>A concrete window\<close>

definition sample_trade :: "int \<Rightarrow> nat \<Rightarrow> nat \<Rightarrow> trade_class \<Rightarrow> trade_activity" where
  "sample_trade li ts quote cl = \<lparr>tr_source = \<lparr>src_chainId = 4663, src_blockNumber = show_int 7, src_blockHash = hex_lit 64 (CHR ''b''),
       src_transactionHash = hex_lit 64 (CHR ''c''), src_transactionIndex = 2, src_logIndex = li,
       src_emitter = hex_lit 40 (CHR ''4''), src_eventKey = show_int li\<rparr>,
     tr_venue = Curve, tr_marketId = hex_lit 64 (CHR ''1''), tr_timestamp = show_nat ts, tr_side = Buy,
     tr_classification = cl, tr_actor = None, tr_actorConfidence = Unavailable, tr_recipient = None,
     tr_memeAsset = hex_lit 40 (CHR ''2''), tr_quoteAsset = hex_lit 40 (CHR ''3''), tr_quoteDecimals = 18,
     tr_memeRaw = show_nat 5, tr_quoteRaw = show_nat quote, tr_amountBasis = CURVE_EXCLUDING_FEE_TAX,
     tr_price = \<lparr>numerator = show_nat quote, denominator = show_nat 5\<rparr>, tr_feeRaw = None, tr_feeAsset = None,
     tr_taxRaw = None, tr_feeStatus = NotProvided\<rparr>"

definition sample_window :: candle_input where
  "sample_window = \<lparr>ci_chainId = 4663, ci_marketId = hex_lit 64 (CHR ''1''), ci_memeAsset = hex_lit 40 (CHR ''2''),
     ci_quoteAsset = hex_lit 40 (CHR ''3''), ci_quoteDecimals = 18, ci_from = 60, ci_to = 180, ci_interval = I60\<rparr>"

lemma sample_series: "\<exists>cs. buildCandles sample_window [sample_trade 4 70 3 InternalRewardConversion, sample_trade 2 65 7 Unclassified] = Inr cs"
proof -
  have sort: "js_sort compareTradesAscending [sample_trade 4 70 3 InternalRewardConversion, sample_trade 2 65 7 Unclassified]
      = [sample_trade 2 65 7 Unclassified, sample_trade 4 70 3 InternalRewardConversion]"
    by (simp add: js_sort_def compareTradesAscending_def compareSources_def sample_trade_def)
  have key: "show_int 4 \<noteq> show_int 2" by (simp add: show_int_def)
  show ?thesis
    by (simp add: buildCandles_def sort window_ok_def candle_count_def sample_window_def is_safe_int_def MAX_SAFE_def)
       (simp add: upt_rec candle_step_def candle_identity_def safeTimestamp_def safeNumber_def MAX_SAFE_def bucket_of_def
         sample_trade_def key candle_add_def empty_candle_def reducePrice_def gcd_loop.simps addUint_def Let_def del: show_nat_0)
qed

section \<open>Properties\<close>

lemma buildCandles_window:
  assumes "buildCandles inp trades = Inr cs"
  shows "window_ok inp" "length cs = candle_count inp" "\<forall>t\<in>set trades. \<exists>k<candle_count inp. in_bucket inp k t"
  using buildCandles_inv [OF assms] by (auto simp: window_inv_def)

lemma in_bucket_one: "\<exists>k<n. in_bucket inp k t \<Longrightarrow> \<exists>!k. k < n \<and> in_bucket inp k t"
  using in_bucket_unique by blast

text \<open>C6: a candle series covers the window exactly, with one candle per interval at consecutive
  timestamps; every trade given falls into exactly one of the intervals, and the volumes and counts of
  each candle are the sums over exactly the trades (in event order) whose own timestamp is at or after the
  candle's and less than one interval later, split into unclassified and internal ones.\<close>

theorem candles_volumes:
  assumes "buildCandles inp trades = Inr cs"
  shows "ci_from inp + int (length cs) * seconds (ci_interval inp) = ci_to inp
    \<and> length cs = candle_count inp
    \<and> (\<forall>t\<in>set trades. \<exists>!k. k < length cs \<and> in_bucket inp k t)
    \<and> (\<forall>k<length cs. ca_timestamp (cs ! k) = ci_from inp + int k * seconds (ci_interval inp)
        \<and> candle_volumes (filter (in_bucket inp k) (js_sort compareTradesAscending trades)) (cs ! k))"
proof -
  note w = buildCandles_window [OF assms]
  show ?thesis
    using buildCandles_inv [OF assms] count_covers [OF w(1)] w(2,3) in_bucket_one
    by (auto simp: window_inv_def)
qed

theorem candles_volumes_witness:
  "\<exists>cs. buildCandles sample_window [sample_trade 4 70 3 InternalRewardConversion, sample_trade 2 65 7 Unclassified] = Inr cs
    \<and> length cs = 2"
proof -
  obtain cs where cs: "buildCandles sample_window [sample_trade 4 70 3 InternalRewardConversion, sample_trade 2 65 7 Unclassified] = Inr cs"
    using sample_series by blast
  from candles_volumes [OF cs] have "length cs = candle_count sample_window" by blast
  with cs show ?thesis by (auto simp: candle_count_def sample_window_def)
qed

text \<open>C7: a bucket without trades has null prices; otherwise the candle opens at the reduced price
  of its first trade, closes at that of its last, and its high and low are attained and bound all
  prices of the bucket.\<close>

theorem candles_ohlc:
  assumes "buildCandles inp trades = Inr cs" and "k < candle_count inp"
  shows "candle_prices (filter (in_bucket inp k) (js_sort compareTradesAscending trades)) (cs ! k)"
  using buildCandles_inv [OF assms(1)] assms(2) by (auto simp: window_inv_def)

theorem candles_ohlc_witness:
  "\<exists>cs. candle_prices (filter (in_bucket sample_window 0) (js_sort compareTradesAscending
    [sample_trade 4 70 3 InternalRewardConversion, sample_trade 2 65 7 Unclassified])) (cs ! 0)"
  using sample_series candles_ohlc [of sample_window _ _ 0] by (auto simp: candle_count_def sample_window_def)

text \<open>Nothing is lost between buckets: over the series, volumes and counts add up to those of
  all the trades given, each of which has the identity of the market and its own event key.\<close>

theorem candles_conserve:
  assumes "buildCandles inp trades = Inr cs"
  shows "(\<Sum>c\<leftarrow>cs. parse_nat (ca_memeVolumeRaw c)) = (\<Sum>t\<leftarrow>trades. meme_of t)
    \<and> (\<Sum>c\<leftarrow>cs. parse_nat (ca_quoteVolumeRaw c)) = (\<Sum>t\<leftarrow>trades. quote_of t)
    \<and> (\<Sum>c\<leftarrow>cs. ca_tradeCount c) = length trades
    \<and> distinct (map (\<lambda>t. src_eventKey (tr_source t)) trades) \<and> list_all (candle_identity inp) trades"
proof -
  have "(\<Sum>t\<leftarrow>js_sort compareTradesAscending trades. f t) = (\<Sum>t\<leftarrow>trades. f t)" for f :: "trade_activity \<Rightarrow> nat"
    by (metis mset_js_sort mset_map sum_mset_sum_list)
  then show ?thesis
    using buildCandles_inv [OF assms] by (auto simp: window_inv_def list_all_iff)
qed

theorem candles_conserve_witness:
  "\<exists>cs. buildCandles sample_window [sample_trade 4 70 3 InternalRewardConversion, sample_trade 2 65 7 Unclassified] = Inr cs
    \<and> (\<Sum>c\<leftarrow>cs. ca_tradeCount c) = 2"
proof -
  obtain cs where cs: "buildCandles sample_window [sample_trade 4 70 3 InternalRewardConversion, sample_trade 2 65 7 Unclassified] = Inr cs"
    using sample_series by blast
  with candles_conserve [OF cs] show ?thesis by auto
qed

text \<open>The order in which trades of different events are given does not matter, for the series
  and for the error alike.\<close>

theorem candles_order_irrelevant:
  assumes "mset trades = mset trades'" and "distinct (map (\<lambda>t. source_key (tr_source t)) trades)"
  shows "buildCandles inp trades = buildCandles inp trades'"
  using trades.order_irrelevant [OF assms] by (simp add: buildCandles_def)

theorem candles_order_irrelevant_witness:
  "buildCandles sample_window [sample_trade 4 70 3 InternalRewardConversion, sample_trade 2 65 7 Unclassified]
    = buildCandles sample_window [sample_trade 2 65 7 Unclassified, sample_trade 4 70 3 InternalRewardConversion]"
  by (rule candles_order_irrelevant) (simp_all add: add_mset_commute source_key_def sample_trade_def)

end
