(* ===== verification/Holder_Snapshot.thy ===== *)
theory Holder_Snapshot imports Trade_Normalize begin

text \<open>
  \<open>rebuildHolderSnapshot\<close> and \<open>transferFromObservation\<close> of
  \<open>services/backend-ts/packages/analytics/src/index.ts\<close>: balances of a token rebuilt from its
  transfers. The \<open>Map\<close> of balances is an insertion-ordered association list; its keys are
  lowercase addresses, on which \<open>localeCompare\<close> is the order of the code units. The lemmas show
  that the books balance: every balance is what was received less what was sent, and the
  balances add up to the supply, so that the reconciliation check at the end never fires.
\<close>

section \<open>Transfers and the ledger\<close>

record holder_transfer =
  ht_source :: trade_source
  ht_from :: string
  ht_to :: string
  ht_value :: string

record holder_input =
  hi_chainId :: int
  hi_token :: string
  hi_initialHolder :: string
  hi_burnAuthority :: "string option"
  hi_allowSelfBurn :: bool
  hi_initialSupplyRaw :: string
  hi_excludedAccounts :: "string list"

record holder_balance =
  hb_account :: string
  hb_balanceRaw :: string
  hb_excluded :: bool

record holder_snapshot =
  hs_totalSupplyRaw :: string
  hs_positiveAddressCount :: nat
  hs_includedAddressCount :: nat
  hs_excludedAccounts :: "string list"
  hs_balances :: "holder_balance list"

definition transferFromObservation :: "event_observation \<Rightarrow> int \<Rightarrow> holder_transfer res" where
  "transferFromObservation ob chainId = (let e = ob_event ob in
     if ev_module e \<noteq> ''TickerMemeTokenV1'' \<or> ev_name e \<noteq> ''Transfer'' then Inl (Error ''event is not a token transfer'')
     else
     bindR (source_of e chainId) (\<lambda>src.
     bindR (read_address (arg (ev_args e) ''from'') ''transfer from'') (\<lambda>from.
     bindR (read_address (arg (ev_args e) ''to'') ''transfer to'') (\<lambda>to.
     bindR (uint256 (arg (ev_args e) ''value'') ''transfer value'') (\<lambda>v.
     Inr \<lparr>ht_source = src, ht_from = from, ht_to = to, ht_value = show_nat v\<rparr>)))))"

text \<open>The state of the loop.\<close>

record ledger =
  lg_balances :: "(string \<times> int) list"
  lg_seen :: "string list"
  lg_supply :: int

definition apply_transfer :: "holder_input \<Rightarrow> nat \<Rightarrow> nat \<times> holder_transfer \<Rightarrow> ledger \<Rightarrow> ledger res" where
  "apply_transfer inp supplyInitial it s = (case it of (index, t) \<Rightarrow>
     if src_chainId (ht_source t) \<noteq> hi_chainId inp \<or> src_emitter (ht_source t) \<noteq> hi_token inp
        \<or> src_eventKey (ht_source t) \<in> set (lg_seen s)
     then Inl (Error ''invalid holder transfer source'')
     else let s1 = s\<lparr>lg_seen := src_eventKey (ht_source t) # lg_seen s\<rparr> in
     bindR (read_address (JStr (ht_from t)) ''transfer from'') (\<lambda>from.
     bindR (read_address (JStr (ht_to t)) ''transfer to'') (\<lambda>to.
     bindR (uint256 (JStr (ht_value t)) ''transfer value'') (\<lambda>value.
     if index = 0 then
       (if from \<noteq> ZERO_ADDRESS \<or> to \<noteq> hi_initialHolder inp \<or> value \<noteq> supplyInitial
        then Inl (Error ''invalid initial mint'')
        else Inr (s1\<lparr>lg_supply := int value, lg_balances := AList.update to (int value) (lg_balances s1)\<rparr>))
     else if from = ZERO_ADDRESS then Inl (Error ''unexpected mint after creation'')
     else let fromBalance = balance_of (lg_balances s1) from in
     if fromBalance < int value then Inl (Error ''holder balance underflow'')
     else let balances = AList.update from (fromBalance - int value) (lg_balances s1) in
     if to = ZERO_ADDRESS then
       (if \<not> hi_allowSelfBurn inp \<and> (hi_burnAuthority inp = None \<or> Some from \<noteq> hi_burnAuthority inp \<or> value = 0)
        then Inl (Error ''unauthorized holder burn'')
        else Inr (s1\<lparr>lg_balances := balances, lg_supply := lg_supply s1 - int value\<rparr>))
     else Inr (s1\<lparr>lg_balances := AList.update to (balance_of balances to + int value) balances\<rparr>)))))"

definition compareTransfers :: "holder_transfer \<Rightarrow> holder_transfer \<Rightarrow> int" where
  "compareTransfers l r = compareSources (ht_source l) (ht_source r)"

definition compareAccounts :: "string \<times> int \<Rightarrow> string \<times> int \<Rightarrow> int" where
  "compareAccounts l r = sign_cmp (fst l) (fst r)"

interpretation transfers: keyed_comparator compareTransfers "\<lambda>t. source_key (ht_source t)"
  by unfold_locales (simp_all add: compareTransfers_def sources.key_le sources.key_ge)

interpretation accounts: keyed_comparator compareAccounts fst
  by unfold_locales (simp_all add: compareAccounts_def)

definition rebuildHolderSnapshot :: "holder_input \<Rightarrow> holder_transfer list \<Rightarrow> holder_snapshot res" where
  "rebuildHolderSnapshot inp transfers =
     bindR (uint256 (JStr (hi_initialSupplyRaw inp)) ''initial supply'') (\<lambda>supplyInitial.
     if supplyInitial = 0 \<or> transfers = [] \<or> 1000000 < length transfers \<or> 1000 < length (hi_excludedAccounts inp)
     then Inl (Error ''invalid holder input'')
     else let exclusions = hi_excludedAccounts inp in
     if length (remdups exclusions) \<noteq> length exclusions \<or> ZERO_ADDRESS \<in> set exclusions
     then Inl (Error ''invalid holder exclusions'')
     else
     bindR (mapR (\<lambda>account. read_address (JStr account) ''excluded account'') exclusions) (\<lambda>_.
     let ordered = js_sort compareTransfers transfers in
     bindR (foldR (apply_transfer inp supplyInitial) (enumerate 0 ordered)
              \<lparr>lg_balances = [], lg_seen = [], lg_supply = 0\<rparr>) (\<lambda>s.
     let positive = js_sort compareAccounts (filter (\<lambda>p. 0 < snd p) (lg_balances s)) in
     if (\<Sum>p\<leftarrow>positive. snd p) \<noteq> lg_supply s then Inl (Error ''holder supply does not reconcile'')
     else let rows = map (\<lambda>p. \<lparr>hb_account = fst p, hb_balanceRaw = show_int (snd p),
                                hb_excluded = (fst p \<in> set exclusions)\<rparr>) positive in
     Inr \<lparr>hs_totalSupplyRaw = show_int (lg_supply s), hs_positiveAddressCount = length rows,
          hs_includedAddressCount = length (filter (\<lambda>r. \<not> hb_excluded r) rows),
          hs_excludedAccounts = sort exclusions, hs_balances = rows\<rparr>)))"

section \<open>The books balance\<close>

text \<open>The reference: what an account received and sent, and what was burned.\<close>

definition received :: "string \<Rightarrow> holder_transfer list \<Rightarrow> int" where
  "received a ts = (\<Sum>t\<leftarrow>ts. if lower (ht_to t) = a then int (parse_nat (ht_value t)) else 0)"

definition sent :: "string \<Rightarrow> holder_transfer list \<Rightarrow> int" where
  "sent a ts = (\<Sum>t\<leftarrow>ts. if lower (ht_from t) = a then int (parse_nat (ht_value t)) else 0)"

definition ledger_ok :: "nat \<Rightarrow> holder_transfer list \<Rightarrow> ledger \<Rightarrow> bool" where
  "ledger_ok supply0 pre s \<longleftrightarrow> distinct (keys_of (lg_balances s)) \<and> (\<forall>p\<in>set (lg_balances s). 0 \<le> snd p)
     \<and> (\<Sum>p\<leftarrow>lg_balances s. snd p) = lg_supply s
     \<and> lg_supply s = int supply0 - received ZERO_ADDRESS (tl pre)
     \<and> (\<forall>a. a \<noteq> ZERO_ADDRESS \<longrightarrow> balance_of (lg_balances s) a = received a pre - sent a pre)"

lemma apply_transfer_returns:
  assumes "apply_transfer inp supply0 (i, t) s = Inr s'"
  obtains src dst v where "src = lower (ht_from t)" "dst = lower (ht_to t)" "v = int (parse_nat (ht_value t))" "0 \<le> v"
    "i = 0 \<Longrightarrow> src = ZERO_ADDRESS \<and> lg_supply s' = v \<and> lg_balances s' = AList.update dst v (lg_balances s)
       \<and> parse_nat (ht_value t) = supply0"
    "i \<noteq> 0 \<Longrightarrow> src \<noteq> ZERO_ADDRESS \<and> v \<le> balance_of (lg_balances s) src"
    "i \<noteq> 0 \<Longrightarrow> dst = ZERO_ADDRESS \<Longrightarrow> lg_supply s' = lg_supply s - v
       \<and> lg_balances s' = AList.update src (balance_of (lg_balances s) src - v) (lg_balances s)"
    "i \<noteq> 0 \<Longrightarrow> dst \<noteq> ZERO_ADDRESS \<Longrightarrow> lg_supply s' = lg_supply s
       \<and> lg_balances s' = (let b = AList.update src (balance_of (lg_balances s) src - v) (lg_balances s)
            in AList.update dst (balance_of b dst + v) b)"
proof -
  from assms obtain v where a: "is_hex 40 (ht_from t)" "is_hex 40 (ht_to t)" "uint256 (JStr (ht_value t)) ''transfer value'' = Inr v"
    by (auto simp: apply_transfer_def Let_def res_simps read_address_def split: if_splits)
  from a(3) have v: "v = parse_nat (ht_value t)" by (simp add: uint256_JStr)
  show thesis
    by (rule that [of "lower (ht_from t)" "lower (ht_to t)" "int v"])
       (use assms a in \<open>auto simp: apply_transfer_def Let_def read_address_def v split: if_splits\<close>)
qed

lemma ledger_ok_first:
  assumes "apply_transfer inp supply0 (0, t) \<lparr>lg_balances = [], lg_seen = sn, lg_supply = x\<rparr> = Inr s'"
  shows "ledger_ok supply0 [t] s'"
  using assms by (elim apply_transfer_returns) (auto simp: ledger_ok_def received_def sent_def balance_of_def)

lemma ledger_ok_step:
  assumes inv: "ledger_ok supply0 pre s" and "pre \<noteq> []" and step: "apply_transfer inp supply0 (Suc i, t) s = Inr s'"
  shows "ledger_ok supply0 (pre @ [t]) s'"
proof -
  from step obtain src dst v where f: "src = lower (ht_from t)" "src \<noteq> ZERO_ADDRESS" and t: "dst = lower (ht_to t)"
    and v: "v = int (parse_nat (ht_value t))" "0 \<le> v" "v \<le> balance_of (lg_balances s) src"
    and z: "dst = ZERO_ADDRESS \<Longrightarrow> lg_supply s' = lg_supply s - v
       \<and> lg_balances s' = AList.update src (balance_of (lg_balances s) src - v) (lg_balances s)"
    and nz: "dst \<noteq> ZERO_ADDRESS \<Longrightarrow> lg_supply s' = lg_supply s
       \<and> lg_balances s' = (let b = AList.update src (balance_of (lg_balances s) src - v) (lg_balances s)
            in AList.update dst (balance_of b dst + v) b)"
    by (elim apply_transfer_returns) auto
  define b where "b = AList.update src (balance_of (lg_balances s) src - v) (lg_balances s)"
  have d: "distinct (keys_of (lg_balances s))" and nn: "\<forall>p\<in>set (lg_balances s). 0 \<le> snd p"
    and sm: "(\<Sum>p\<leftarrow>lg_balances s. snd p) = lg_supply s" using inv by (simp_all add: ledger_ok_def)
  have bn: "\<forall>p\<in>set b. 0 \<le> snd p"
    unfolding b_def by (rule update_all_values [where P = "\<lambda>x. 0 \<le> x", OF nn]) (use v in simp)
  have b: "distinct (keys_of b)" "(\<Sum>p\<leftarrow>b. snd p) = lg_supply s - v"
    using d sm by (simp_all add: b_def distinct_update sum_update)
  have b0: "0 \<le> balance_of b dst" using bn by (intro balance_of_bounds) auto
  show ?thesis
  proof (cases "dst = ZERO_ADDRESS")
    case True
    then have s': "lg_supply s' = lg_supply s - v" "lg_balances s' = b" using z by (auto simp: b_def)
    show ?thesis using inv assms(2) b bn f t True v
      by (auto simp: ledger_ok_def s' b_def received_def sent_def)
  next
    case False
    then have s': "lg_supply s' = lg_supply s" "lg_balances s' = AList.update dst (balance_of b dst + v) b"
      using nz by (auto simp: b_def Let_def)
    have "\<forall>p\<in>set (lg_balances s'). 0 \<le> snd p"
      unfolding s' by (rule update_all_values [where P = "\<lambda>x. 0 \<le> x", OF bn]) (use b0 v in simp)
    moreover have "distinct (keys_of (lg_balances s'))" "(\<Sum>p\<leftarrow>lg_balances s'. snd p) = lg_supply s"
      using b by (simp_all add: s' distinct_update sum_update)
    ultimately show ?thesis using inv assms(2) f t False v
      by (auto simp: ledger_ok_def s' b_def received_def sent_def)
  qed
qed

lemma ledger_ok_run:
  assumes "foldR (apply_transfer inp supply0) (enumerate 0 ts) \<lparr>lg_balances = [], lg_seen = [], lg_supply = 0\<rparr> = Inr s"
    and "ts \<noteq> []"
  shows "ledger_ok supply0 ts s"
proof -
  obtain t us where ts: "ts = t # us" using assms(2) by (cases ts) auto
  from assms(1) obtain s1 where first: "apply_transfer inp supply0 (0, t) \<lparr>lg_balances = [], lg_seen = [], lg_supply = 0\<rparr> = Inr s1"
    and rest: "foldR (apply_transfer inp supply0) (enumerate 1 us) s1 = Inr s"
    by (auto simp: ts bindR_eq_Inr)
  have "ledger_ok supply0 (t # map snd (enumerate 1 us)) s"
  proof (rule foldR_invariant [OF rest, where P = "\<lambda>pre s. ledger_ok supply0 (t # map snd pre) s"])
    show "ledger_ok supply0 (t # map snd []) s1" using ledger_ok_first [OF first] by simp
  next
    fix pre x post s s'
    assume e: "enumerate 1 us = pre @ x # post" and ih: "ledger_ok supply0 (t # map snd pre) s"
      and step: "apply_transfer inp supply0 x s = Inr s'"
    obtain i where "x = (Suc i, snd x)"
    proof -
      have "x \<in> set (enumerate 1 us)" by (metis e in_set_conv_decomp)
      then have "1 \<le> fst x" unfolding in_set_enumerate_eq by blast
      then show thesis using that [of "fst x - 1"] by (simp add: prod_eq_iff)
    qed
    with step ledger_ok_step [OF ih] show "ledger_ok supply0 (t # map snd (pre @ [x])) s'" by (metis append_Cons list.discI list.simps(8,9) map_append)
  qed
  then show ?thesis by (simp add: ts)
qed

text \<open>What the final filter and sort do to the balances.\<close>

lemma positive_sum:
  assumes "\<forall>p\<in>set m. 0 \<le> snd p"
  shows "(\<Sum>p\<leftarrow>js_sort compareAccounts (filter (\<lambda>p. 0 < snd p) m). snd p) = (\<Sum>p\<leftarrow>m. snd (p :: string \<times> int))"
proof -
  have "(\<Sum>p\<leftarrow>js_sort compareAccounts (filter (\<lambda>p. 0 < snd p) m). snd p) = (\<Sum>p\<leftarrow>filter (\<lambda>p. 0 < snd p) m. snd p)"
    by (rule sum_list_mset_eq) simp
  also have "\<dots> = (\<Sum>p\<leftarrow>m. snd p)" using assms by (intro sum_list_filter_positive) auto
  finally show ?thesis .
qed

lemma snapshot_returns:
  assumes "rebuildHolderSnapshot inp ts = Inr snap"
  obtains s supply0 where "uint256 (JStr (hi_initialSupplyRaw inp)) ''initial supply'' = Inr supply0"
    "ledger_ok supply0 (js_sort compareTransfers ts) s" "hs_totalSupplyRaw snap = show_int (lg_supply s)"
    "hs_balances snap = map (\<lambda>p. \<lparr>hb_account = fst p, hb_balanceRaw = show_int (snd p),
        hb_excluded = (fst p \<in> set (hi_excludedAccounts inp))\<rparr>)
        (js_sort compareAccounts (filter (\<lambda>p. 0 < snd p) (lg_balances s)))"
    "ts \<noteq> []"
proof -
  from assms obtain s supply0 where u: "uint256 (JStr (hi_initialSupplyRaw inp)) ''initial supply'' = Inr supply0"
    and ne: "ts \<noteq> []" and fold: "foldR (apply_transfer inp supply0) (enumerate 0 (js_sort compareTransfers ts))
              \<lparr>lg_balances = [], lg_seen = [], lg_supply = 0\<rparr> = Inr s"
    and snap: "hs_totalSupplyRaw snap = show_int (lg_supply s)"
    "hs_balances snap = map (\<lambda>p. \<lparr>hb_account = fst p, hb_balanceRaw = show_int (snd p),
        hb_excluded = (fst p \<in> set (hi_excludedAccounts inp))\<rparr>)
        (js_sort compareAccounts (filter (\<lambda>p. 0 < snd p) (lg_balances s)))"
    by (auto simp: rebuildHolderSnapshot_def Let_def res_simps)
  have "js_sort compareTransfers ts \<noteq> []" using ne by (metis length_js_sort length_0_conv)
  from that [OF u ledger_ok_run [OF fold this] snap ne] show thesis .
qed

section \<open>A concrete token\<close>

definition sample_transfer :: "int \<Rightarrow> string \<Rightarrow> string \<Rightarrow> nat \<Rightarrow> holder_transfer" where
  "sample_transfer li src dst v = \<lparr>ht_source = \<lparr>src_chainId = 4663, src_blockNumber = show_int 7, src_blockHash = hex_lit 64 (CHR ''b''),
       src_transactionHash = hex_lit 64 (CHR ''c''), src_transactionIndex = 2, src_logIndex = li,
       src_emitter = hex_lit 40 (CHR ''1''), src_eventKey = show_int li\<rparr>,
     ht_from = src, ht_to = dst, ht_value = show_nat v\<rparr>"

definition sample_holders :: holder_input where
  "sample_holders = \<lparr>hi_chainId = 4663, hi_token = hex_lit 40 (CHR ''1''), hi_initialHolder = hex_lit 40 (CHR ''2''),
     hi_burnAuthority = None, hi_allowSelfBurn = True, hi_initialSupplyRaw = show_nat 100,
     hi_excludedAccounts = [hex_lit 40 (CHR ''2'')]\<rparr>"

definition sample_history :: "holder_transfer list" where
  "sample_history = [sample_transfer 5 (hex_lit 40 (CHR ''3'')) (hex_lit 40 (CHR ''0'')) 10,
     sample_transfer 2 (hex_lit 40 (CHR ''0'')) (hex_lit 40 (CHR ''2'')) 100,
     sample_transfer 3 (hex_lit 40 (CHR ''2'')) (hex_lit 40 (CHR ''3'')) 30]"

lemma zero_address: "ZERO_ADDRESS = hex_lit 40 (CHR ''0'')"
  by (simp add: ZERO_ADDRESS_def hex_lit_def)

lemma sample_history_order: "js_sort compareTransfers sample_history =
    [sample_transfer 2 (hex_lit 40 (CHR ''0'')) (hex_lit 40 (CHR ''2'')) 100,
     sample_transfer 3 (hex_lit 40 (CHR ''2'')) (hex_lit 40 (CHR ''3'')) 30,
     sample_transfer 5 (hex_lit 40 (CHR ''3'')) (hex_lit 40 (CHR ''0'')) 10]"
  by (simp add: js_sort_def sample_history_def compareTransfers_def compareSources_def sample_transfer_def)

lemma sample_snapshot: "\<exists>snap. rebuildHolderSnapshot sample_holders sample_history = Inr snap"
proof -
  have keys: "show_int 3 \<noteq> show_int 2" "show_int 5 \<noteq> show_int 2" "show_int 5 \<noteq> show_int 3"
    by (simp_all add: show_int_def)
  have len: "sample_history \<noteq> []" "length sample_history = 3" by (simp_all add: sample_history_def)
  show ?thesis
    by (simp add: rebuildHolderSnapshot_def sample_holders_def sample_history_order len Let_def read_address_def zero_address
        is_hex_digit_def code_of_def is_digit_def lower_char_def)
       (simp add: apply_transfer_def sample_transfer_def Let_def read_address_def zero_address keys
        is_hex_digit_def code_of_def is_digit_def lower_char_def js_sort_def compareAccounts_def sign_cmp_def hex_lit_less_iff
        balance_of_Cons)
qed

section \<open>Properties\<close>

lemma received_sort: "received a (js_sort cmp ts) = received a ts" and sent_sort: "sent a (js_sort cmp ts) = sent a ts"
  unfolding received_def sent_def by (rule sum_list_mset_eq; simp)+

text \<open>C10: the rows of a snapshot are distinct accounts in ascending order with positive balances
  that add up to the total supply, which is the initial supply less what was burned.\<close>

theorem snapshot_reconciles:
  assumes "rebuildHolderSnapshot inp ts = Inr snap"
  shows "(\<Sum>r\<leftarrow>hs_balances snap. parse_int (hb_balanceRaw r)) = parse_int (hs_totalSupplyRaw snap)
    \<and> parse_int (hs_totalSupplyRaw snap)
      = int (parse_nat (hi_initialSupplyRaw inp)) - received ZERO_ADDRESS (tl (js_sort compareTransfers ts))
    \<and> sorted_wrt (<) (map hb_account (hs_balances snap))
    \<and> (\<forall>r\<in>set (hs_balances snap). 0 < parse_int (hb_balanceRaw r))"
proof -
  from assms obtain s supply0 where u: "uint256 (JStr (hi_initialSupplyRaw inp)) ''initial supply'' = Inr supply0"
    and ok: "ledger_ok supply0 (js_sort compareTransfers ts) s" and tot: "hs_totalSupplyRaw snap = show_int (lg_supply s)"
    and rows: "hs_balances snap = map (\<lambda>p. \<lparr>hb_account = fst p, hb_balanceRaw = show_int (snd p),
        hb_excluded = (fst p \<in> set (hi_excludedAccounts inp))\<rparr>)
        (js_sort compareAccounts (filter (\<lambda>p. 0 < snd p) (lg_balances s)))" by (rule snapshot_returns)
  have "sorted_wrt (\<lambda>x y. fst x < fst y) (js_sort compareAccounts (filter (\<lambda>p. 0 < snd p) (lg_balances s)))"
    using ok by (intro accounts.strictly_sorted) (simp add: ledger_ok_def distinct_map_filter)
  then show ?thesis
    using ok positive_sum [of "lg_balances s"] u by (simp add: rows tot ledger_ok_def comp_def sorted_wrt_map uint256_JStr)
qed

theorem snapshot_reconciles_witness:
  "\<exists>snap. rebuildHolderSnapshot sample_holders sample_history = Inr snap
    \<and> parse_int (hs_totalSupplyRaw snap) = 90"
proof -
  obtain snap where s: "rebuildHolderSnapshot sample_holders sample_history = Inr snap" using sample_snapshot by blast
  have "received ZERO_ADDRESS (tl (js_sort compareTransfers sample_history)) = 10"
    by (simp add: sample_history_order received_def sample_transfer_def zero_address lower_char_def code_of_def)
  with snapshot_reconciles [OF s] have "parse_int (hs_totalSupplyRaw snap) = 90" by (simp add: sample_holders_def)
  with s show ?thesis by blast
qed

text \<open>C11: the snapshot refines the transfer history: an account other than the zero address has a
  row exactly when it received more than it sent, and its balance is the difference.\<close>

theorem snapshot_is_received_less_sent:
  assumes "rebuildHolderSnapshot inp ts = Inr snap" and "a \<noteq> ZERO_ADDRESS"
  shows "(\<exists>r\<in>set (hs_balances snap). hb_account r = a \<and> parse_int (hb_balanceRaw r) = b)
    \<longleftrightarrow> 0 < b \<and> b = received a ts - sent a ts"
proof -
  from assms(1) obtain s supply0 where ok: "ledger_ok supply0 (js_sort compareTransfers ts) s"
    and rows: "hs_balances snap = map (\<lambda>p. \<lparr>hb_account = fst p, hb_balanceRaw = show_int (snd p),
        hb_excluded = (fst p \<in> set (hi_excludedAccounts inp))\<rparr>)
        (js_sort compareAccounts (filter (\<lambda>p. 0 < snd p) (lg_balances s)))" by (rule snapshot_returns)
  have "balance_of (lg_balances s) a = received a ts - sent a ts" and d: "distinct (keys_of (lg_balances s))"
    using ok assms(2) by (simp_all add: ledger_ok_def received_sort sent_sort)
  moreover have "0 < b \<and> balance_of (lg_balances s) a = b \<longleftrightarrow> (a, b) \<in> set (lg_balances s) \<and> 0 < b"
    unfolding map_of_eq_Some_iff [OF d, symmetric] by (auto simp: balance_of_def split: option.splits)
  ultimately show ?thesis by (auto simp: rows) 
qed

theorem snapshot_is_received_less_sent_witness:
  "\<exists>snap. rebuildHolderSnapshot sample_holders sample_history = Inr snap
    \<and> (\<exists>r\<in>set (hs_balances snap). hb_account r = hex_lit 40 (CHR ''3'') \<and> parse_int (hb_balanceRaw r) = 20)"
proof -
  obtain snap where s: "rebuildHolderSnapshot sample_holders sample_history = Inr snap" using sample_snapshot by blast
  have "received (hex_lit 40 (CHR ''3'')) sample_history - sent (hex_lit 40 (CHR ''3'')) sample_history = 20"
    by (simp add: sample_history_def received_def sent_def sample_transfer_def lower_char_def code_of_def)
  then show ?thesis
    using s snapshot_is_received_less_sent [OF s, of "hex_lit 40 (CHR ''3'')" 20] by (simp add: zero_address)
qed

abbreviation reconcile_error :: js_error where "reconcile_error \<equiv> Error ''holder supply does not reconcile''"

lemma label_errors: "uint256 v ''initial supply'' \<noteq> Inl reconcile_error" "uint256 v ''transfer value'' \<noteq> Inl reconcile_error"
  "read_address v ''transfer from'' \<noteq> Inl reconcile_error" "read_address v ''transfer to'' \<noteq> Inl reconcile_error"
  "read_address v ''excluded account'' \<noteq> Inl reconcile_error"
  by (auto simp: uint256_def read_address_def Let_def split: option.splits js_value.splits)

lemma apply_transfer_errors: "apply_transfer inp supply0 x s \<noteq> Inl reconcile_error"
  by (cases x) (auto simp: apply_transfer_def Let_def bindR_eq_Inl label_errors split: if_splits)

lemma loop_errors: "foldR (apply_transfer inp supply0) xs s \<noteq> Inl reconcile_error"
  "mapR (\<lambda>account. read_address (JStr account) ''excluded account'') ys \<noteq> Inl reconcile_error"
  by (rule foldR_not_Inl, rule apply_transfer_errors) (rule mapR_not_Inl, rule label_errors)

text \<open>C12: the final reconciliation check is unreachable: whatever the input, the function never
  fails with \<open>holder supply does not reconcile\<close>.\<close>

theorem snapshot_always_reconciles: "rebuildHolderSnapshot inp ts \<noteq> Inl (Error ''holder supply does not reconcile'')"
proof
  assume "rebuildHolderSnapshot inp ts = Inl (Error ''holder supply does not reconcile'')"
  then obtain s supply0 where ne: "ts \<noteq> []"
    and run: "foldR (apply_transfer inp supply0) (enumerate 0 (js_sort compareTransfers ts))
        \<lparr>lg_balances = [], lg_seen = [], lg_supply = 0\<rparr> = Inr s"
    and bad: "(\<Sum>p\<leftarrow>js_sort compareAccounts (filter (\<lambda>p. 0 < snd p) (lg_balances s)). snd p) \<noteq> lg_supply s"
    unfolding rebuildHolderSnapshot_def Let_def
    by (auto simp: bindR_eq_Inl label_errors loop_errors split: if_splits)
  have "js_sort compareTransfers ts \<noteq> []" using ne by (metis length_js_sort length_0_conv)
  from ledger_ok_run [OF run this] bad positive_sum [of "lg_balances s"] show False
    by (simp add: ledger_ok_def)
qed

end
