(* ===== verification/Queue_Store.thy ===== *)
theory Queue_Store imports TG_Text TG_Order begin

text \<open>
  The durable queue of \<open>services/backend-ts/packages/jobs/src/index.ts\<close>: its tables (jobs,
  outbox, inbox, attempts, generations, of \<open>packages/db/migrations\<close> 0001, 0002 and 0013) as
  lists of rows, and the SQL the functions issue as operations on them. A transaction is atomic:
  an operation returns the new store, or an error and no store (rollback). \<open>now\<close> is the
  transaction's time in milliseconds. The ids a \<open>FOR UPDATE SKIP LOCKED\<close> query must skip
  because other transactions hold them are the parameter \<open>locked\<close>. Strings are ASCII, so that
  \<open>Buffer.byteLength\<close> is their length.
\<close>

section \<open>Rows\<close>

datatype queue_name = Chain | Content

text \<open>\<open>Completed\<close> is \<open>succeeded\<close> for a job and \<open>sent\<close> for an outbox message.\<close>

datatype row_state = Pending | Leased | Retry | Completed | Dead

datatype payload = Body string | Envelope string string string | EmptyBody

text \<open>The columns that jobs and outbox messages share; the two tables extend them.\<close>

record lease_fields =
  lf_id :: nat
  lf_state :: row_state
  lf_fencing :: nat
  lf_attempt :: nat
  lf_max :: nat
  lf_next :: int
  lf_owner :: "string option"
  lf_expires :: "int option"
  lf_error :: "string option"
  lf_created :: int
  lf_updated :: int

record job = lease_fields +
  jb_operation :: string
  jb_queue :: queue_name
  jb_kind :: string
  jb_digest :: string
  jb_payload :: payload
  jb_generation :: int
  jb_result :: "string option"

record outbox = lease_fields +
  ox_operation :: string
  ox_queue :: queue_name
  ox_destination :: string
  ox_digest :: string
  ox_payload :: payload
  ox_provider :: "string option"

datatype inbox_state = InboxPending | InboxProcessed | InboxConflict

record inbox =
  ib_id :: nat
  ib_queue :: queue_name
  ib_external :: string
  ib_digest :: string
  ib_raw :: string
  ib_state :: inbox_state
  ib_received :: int

datatype attempt_outcome = ALeased | ASucceeded | ARetry | ADead | AExpired

record attempt_row =
  at_id :: nat
  at_job :: nat
  at_queue :: queue_name
  at_fencing :: nat
  at_attempt :: nat
  at_outcome :: attempt_outcome
  at_error :: "string option"
  at_started :: int

datatype execution_mode = Qstash | Resident

record generation_row =
  gr_active :: int
  gr_mode :: execution_mode

text \<open>The tables and the counters of their \<open>bigserial\<close> keys.\<close>

record store =
  st_jobs :: "job list"
  st_outbox :: "outbox list"
  st_inbox :: "inbox list"
  st_attempts :: "attempt_row list"
  st_generations :: "(queue_name \<times> generation_row) list"
  st_seq :: nat

definition initial_store :: store where
  "initial_store = \<lparr>st_jobs = [], st_outbox = [], st_inbox = [], st_attempts = [],
     st_generations = [(Chain, \<lparr>gr_active = 0, gr_mode = Qstash\<rparr>), (Content, \<lparr>gr_active = 0, gr_mode = Qstash\<rparr>)],
     st_seq = 1\<rparr>"

section \<open>Statements\<close>

text \<open>\<open>UPDATE ... SET f WHERE p\<close>.\<close>

definition update_where :: "('r \<Rightarrow> bool) \<Rightarrow> ('r \<Rightarrow> 'r) \<Rightarrow> 'r list \<Rightarrow> 'r list" where
  "update_where p f rows = map (\<lambda>r. if p r then f r else r) rows"

text \<open>\<open>SELECT id ... WHERE p ORDER BY k,id FOR UPDATE SKIP LOCKED LIMIT n\<close>.\<close>

definition select_ids :: "('r \<Rightarrow> nat) \<Rightarrow> ('r \<Rightarrow> int) \<Rightarrow> ('r \<Rightarrow> bool) \<Rightarrow> (nat \<Rightarrow> bool) \<Rightarrow> int \<Rightarrow> 'r list \<Rightarrow> nat list" where
  "select_ids idf k p locked limit rows =
     take (nat limit) (map idf (sort_key (\<lambda>r. (k r, idf r)) (filter (\<lambda>r. p r \<and> \<not> locked (idf r)) rows)))"

text \<open>The lease columns: taking, finishing, failing and expiring a lease.\<close>

definition take_lease :: "string \<Rightarrow> int \<Rightarrow> int \<Rightarrow> 'a lease_fields_scheme \<Rightarrow> 'a lease_fields_scheme" where
  "take_lease owner leaseMs now r = r\<lparr>lf_state := Leased, lf_owner := Some owner, lf_expires := Some (now + leaseMs),
     lf_fencing := lf_fencing r + 1, lf_attempt := lf_attempt r + 1, lf_updated := now\<rparr>"

definition finish_lease :: "int \<Rightarrow> 'a lease_fields_scheme \<Rightarrow> 'a lease_fields_scheme" where
  "finish_lease now r = r\<lparr>lf_state := Completed, lf_owner := None, lf_expires := None, lf_updated := now\<rparr>"

definition fail_lease :: "row_state \<Rightarrow> string \<Rightarrow> int \<Rightarrow> int \<Rightarrow> 'a lease_fields_scheme \<Rightarrow> 'a lease_fields_scheme" where
  "fail_lease outcome code delay now r = r\<lparr>lf_state := outcome, lf_owner := None, lf_expires := None, lf_error := Some code,
     lf_next := (if outcome = Retry then now + delay else lf_next r), lf_updated := now\<rparr>"

definition expire_lease :: "int \<Rightarrow> 'a lease_fields_scheme \<Rightarrow> 'a lease_fields_scheme" where
  "expire_lease now r = r\<lparr>lf_state := (if lf_max r \<le> lf_attempt r then Dead else Retry), lf_owner := None, lf_expires := None,
     lf_next := now, lf_error := Some ''lease_expired'', lf_updated := now\<rparr>"

text \<open>\<open>state IN ('pending','retry') AND next_attempt_at<=now()\<close> and the guards of a held lease.\<close>

definition due :: "int \<Rightarrow> 'a lease_fields_scheme \<Rightarrow> bool" where
  "due now r \<longleftrightarrow> (lf_state r = Pending \<or> lf_state r = Retry) \<and> lf_next r \<le> now"

definition lease_held :: "nat \<Rightarrow> string \<Rightarrow> nat \<Rightarrow> 'a lease_fields_scheme \<Rightarrow> bool" where
  "lease_held i owner fencing r \<longleftrightarrow> lf_id r = i \<and> lf_state r = Leased \<and> lf_owner r = Some owner \<and> lf_fencing r = fencing"

definition unexpired :: "int \<Rightarrow> 'a lease_fields_scheme \<Rightarrow> bool" where
  "unexpired now r \<longleftrightarrow> (case lf_expires r of None \<Rightarrow> False | Some t \<Rightarrow> now < t)"

definition expired :: "int \<Rightarrow> 'a lease_fields_scheme \<Rightarrow> bool" where
  "expired now r \<longleftrightarrow> lf_state r = Leased \<and> (case lf_expires r of None \<Rightarrow> False | Some t \<Rightarrow> t \<le> now)"

definition lease_expiry :: "'a lease_fields_scheme \<Rightarrow> int" where
  "lease_expiry r = (case lf_expires r of None \<Rightarrow> 0 | Some t \<Rightarrow> t)"

text \<open>\<open>INSERT INTO job_attempts\<close>, with \<open>UNIQUE(job_id,fencing,outcome)\<close>.\<close>

definition insert_attempt :: "nat \<Rightarrow> queue_name \<Rightarrow> nat \<Rightarrow> nat \<Rightarrow> attempt_outcome \<Rightarrow> string option \<Rightarrow> int \<Rightarrow> store \<Rightarrow> store res" where
  "insert_attempt jobId queue fencing attempt outcome code now db =
     (if list_ex (\<lambda>a. at_job a = jobId \<and> at_fencing a = fencing \<and> at_outcome a = outcome) (st_attempts db)
      then Inl (Error ''duplicate key value violates unique constraint'')
      else Inr (db\<lparr>st_attempts := st_attempts db @ [\<lparr>at_id = st_seq db, at_job = jobId, at_queue = queue,
            at_fencing = fencing, at_attempt = attempt, at_outcome = outcome, at_error = code, at_started = now\<rparr>],
          st_seq := st_seq db + 1\<rparr>))"

section \<open>Syntax checks\<close>

text \<open>\<open>/^[a-z][a-z0-9_]{0,62}$/\<close> and \<open>/^[A-Za-z0-9._:-]{1,160}$/\<close>.\<close>

definition is_lower_alpha :: "char \<Rightarrow> bool" where
  "is_lower_alpha c \<longleftrightarrow> 97 \<le> code_of c \<and> code_of c \<le> 122"

definition is_token_char :: "char \<Rightarrow> bool" where
  "is_token_char c \<longleftrightarrow> is_lower_alpha c \<or> (65 \<le> code_of c \<and> code_of c \<le> 90) \<or> is_digit c
     \<or> c \<in> {CHR ''.'', CHR ''_'', CHR '':'', CHR ''-''}"

definition is_identifier :: "string \<Rightarrow> bool" where
  "is_identifier s \<longleftrightarrow> s \<noteq> [] \<and> length s \<le> 63 \<and> is_lower_alpha (hd s)
     \<and> list_all (\<lambda>c. is_lower_alpha c \<or> is_digit c \<or> c = CHR ''_'') (tl s)"

definition is_token :: "string \<Rightarrow> bool" where
  "is_token s \<longleftrightarrow> s \<noteq> [] \<and> length s \<le> 160 \<and> list_all is_token_char s"

definition schemaIdentifier :: "string \<Rightarrow> unit res" where
  "schemaIdentifier schema = ensure (is_identifier schema) (Error ''invalid database schema name'')"

definition assertToken :: "string \<Rightarrow> string \<Rightarrow> unit res" where
  "assertToken v field = ensure (is_token v) (Error (field @ '' has invalid syntax''))"

definition payload_length :: "payload \<Rightarrow> nat" where
  "payload_length p = (case p of Body s \<Rightarrow> length s
     | Envelope op kind digest \<Rightarrow> length ''{\"operationId\":\"\",\"kind\":\"\",\"payloadDigest\":\"\"}'' + length op + length kind + length digest
     | EmptyBody \<Rightarrow> 2)"

definition assertPayload :: "payload \<Rightarrow> unit res" where
  "assertPayload p = ensure (payload_length p \<le> 65536) (Error ''job payload exceeds 64 KiB'')"

section \<open>Generations\<close>

definition assertActiveGeneration :: "queue_name \<Rightarrow> int \<Rightarrow> store \<Rightarrow> unit res" where
  "assertActiveGeneration queue expected db =
     (if expected < 0 then Inl (Error ''generation must be nonnegative'')
      else case map_of (st_generations db) queue of
        None \<Rightarrow> Inl (StaleQueueGenerationError ''runtime queue generation is stale'')
      | Some g \<Rightarrow> if gr_active g = expected then Inr ()
                  else Inl (StaleQueueGenerationError ''runtime queue generation is stale''))"

definition queueModeMatches :: "queue_name \<Rightarrow> execution_mode \<Rightarrow> store \<Rightarrow> bool" where
  "queueModeMatches queue mode db \<longleftrightarrow>
     (case map_of (st_generations db) queue of None \<Rightarrow> False | Some g \<Rightarrow> gr_mode g = mode)"

definition retryDelayMs :: "int \<Rightarrow> int res" where
  "retryDelayMs attempt = (if attempt < 1 then Inl (Error ''attempt must be positive'')
     else Inr (min 21600000 (1000 * 2 ^ nat (min (attempt - 1) 30))))"

end
