(* ===== verification/Job_Queue.thy ===== *)
theory Job_Queue imports Queue_Store begin

text \<open>
  The operations of \<open>services/backend-ts/packages/jobs/src/index.ts\<close>: enqueueing, leasing,
  completing, failing and recovering jobs and outbox messages, repair, generations and execution
  mode. \<open>sha256\<close> of \<open>node:crypto\<close>, the QStash client and receiver and the job processor
  are parameters. Optional arguments are passed explicitly by the callers of the model.
\<close>

section \<open>Enqueueing\<close>

record enqueue_message =
  em_queue :: queue_name
  em_externalId :: string
  em_operationId :: string
  em_kind :: string
  em_rawBody :: string
  em_payload :: payload
  em_destinationKey :: string
  em_maxAttempts :: "int option"
  em_generation :: "int option"

record enqueue_result =
  er_duplicate :: bool
  er_inboxId :: nat
  er_jobId :: nat
  er_outboxId :: nat

text \<open>The checks before the transaction.\<close>

definition check_message :: "string \<Rightarrow> enqueue_message \<Rightarrow> unit res" where
  "check_message schema m =
     bindR (assertToken (em_externalId m) ''externalId'') (\<lambda>_.
     bindR (assertToken (em_operationId m) ''operationId'') (\<lambda>_.
     bindR (assertToken (em_kind m) ''kind'') (\<lambda>_.
     bindR (assertToken (em_destinationKey m) ''destinationKey'') (\<lambda>_.
     bindR (ensure (length (em_rawBody m) \<le> 262144) (Error ''raw body exceeds 256 KiB'')) (\<lambda>_.
     bindR (assertPayload (em_payload m)) (\<lambda>_.
     let maxAttempts = (case em_maxAttempts m of None \<Rightarrow> 8 | Some n \<Rightarrow> n) in
     bindR (ensure (1 \<le> maxAttempts \<and> maxAttempts \<le> 32) (Error ''maxAttempts must be between 1 and 32'')) (\<lambda>_.
     bindR (schemaIdentifier schema) (\<lambda>_.
     ensure (0 \<le> (case em_generation m of None \<Rightarrow> 0 | Some g \<Rightarrow> g)) (Error ''generation must be nonnegative'')))))))))"

text \<open>The query for the job and outbox message of a duplicate.\<close>

definition prior_rows :: "enqueue_message \<Rightarrow> string \<Rightarrow> store \<Rightarrow> (nat \<times> nat) list" where
  "prior_rows m digest db = concat (map (\<lambda>j. map (\<lambda>o'. (lf_id j, lf_id o'))
       (filter (\<lambda>o'. ox_operation o' = jb_operation j \<and> jb_operation j = em_operationId m
          \<and> ox_destination o' = em_destinationKey m \<and> ox_digest o' = digest) (st_outbox db)))
     (st_jobs db))"

text \<open>The rows a new message inserts; its inbox row is marked processed in the same transaction.\<close>

definition new_inbox :: "enqueue_message \<Rightarrow> string \<Rightarrow> nat \<Rightarrow> int \<Rightarrow> inbox" where
  "new_inbox m digest i now = \<lparr>ib_id = i, ib_queue = em_queue m, ib_external = em_externalId m, ib_digest = digest,
     ib_raw = em_rawBody m, ib_state = InboxProcessed, ib_received = now\<rparr>"

definition new_job :: "enqueue_message \<Rightarrow> string \<Rightarrow> nat \<Rightarrow> int \<Rightarrow> job" where
  "new_job m digest i now = \<lparr>lf_id = i, lf_state = Pending, lf_fencing = 0, lf_attempt = 0,
     lf_max = nat (case em_maxAttempts m of None \<Rightarrow> 8 | Some n \<Rightarrow> n), lf_next = now, lf_owner = None, lf_expires = None,
     lf_error = None, lf_created = now, lf_updated = now, jb_operation = em_operationId m, jb_queue = em_queue m,
     jb_kind = em_kind m, jb_digest = digest, jb_payload = em_payload m,
     jb_generation = (case em_generation m of None \<Rightarrow> 0 | Some g \<Rightarrow> g), jb_result = None\<rparr>"

definition new_outbox :: "string \<Rightarrow> queue_name \<Rightarrow> string \<Rightarrow> string \<Rightarrow> string \<Rightarrow> nat \<Rightarrow> nat \<Rightarrow> int \<Rightarrow> outbox" where
  "new_outbox operation queue destination digest kind maxAttempts i now = \<lparr>lf_id = i, lf_state = Pending, lf_fencing = 0,
     lf_attempt = 0, lf_max = maxAttempts, lf_next = now, lf_owner = None, lf_expires = None, lf_error = None,
     lf_created = now, lf_updated = now, ox_operation = operation, ox_queue = queue, ox_destination = destination,
     ox_digest = digest, ox_payload = Envelope operation kind digest, ox_provider = None\<rparr>"

definition enqueueReliableMessage :: "(string \<Rightarrow> string) \<Rightarrow> string \<Rightarrow> int \<Rightarrow> enqueue_message \<Rightarrow> store
    \<Rightarrow> (enqueue_result \<times> store) res" where
  "enqueueReliableMessage sha256 schema now m db =
     bindR (check_message schema m) (\<lambda>_.
     let digest = sha256 (em_rawBody m);
         generation = (case em_generation m of None \<Rightarrow> 0 | Some g \<Rightarrow> g) in
     bindR (assertActiveGeneration (em_queue m) generation db) (\<lambda>_.
     case find (\<lambda>i. ib_queue i = em_queue m \<and> ib_external i = em_externalId m) (st_inbox db) of
       Some existing \<Rightarrow>
         if ib_digest existing \<noteq> digest
         then Inl (MessageConflictError ''external message ID was reused with different content'')
         else (case prior_rows m digest db of
             [] \<Rightarrow> Inl (MessageConflictError ''duplicate inbox does not match the requested operation'')
           | (jobId, outboxId) # _ \<Rightarrow> Inr (\<lparr>er_duplicate = True, er_inboxId = ib_id existing,
               er_jobId = jobId, er_outboxId = outboxId\<rparr>, db))
     | None \<Rightarrow>
         let n = st_seq db in
         if list_ex (\<lambda>j. jb_operation j = em_operationId m) (st_jobs db)
         then Inl (MessageConflictError ''operation ID already exists'')
         else let job = new_job m digest (n + 1) now;
                  out = new_outbox (em_operationId m) (em_queue m) (em_destinationKey m) digest (em_kind m) (lf_max job) (n + 2) now in
         Inr (\<lparr>er_duplicate = False, er_inboxId = n, er_jobId = n + 1, er_outboxId = n + 2\<rparr>,
              db\<lparr>st_inbox := st_inbox db @ [new_inbox m digest n now], st_jobs := st_jobs db @ [job], st_outbox := st_outbox db @ [out],
                 st_seq := n + 3\<rparr>)))"

section \<open>Leasing jobs\<close>

record lease =
  ls_id :: nat
  ls_operationId :: string
  ls_queue :: queue_name
  ls_kind :: string
  ls_payload :: payload
  ls_payloadDigest :: string
  ls_generation :: int
  ls_fencing :: nat
  ls_attempt :: nat
  ls_maxAttempts :: nat
  ls_leaseExpiresAt :: int

definition lease_of :: "job \<Rightarrow> lease" where
  "lease_of r = \<lparr>ls_id = lf_id r, ls_operationId = jb_operation r, ls_queue = jb_queue r, ls_kind = jb_kind r,
     ls_payload = jb_payload r, ls_payloadDigest = jb_digest r, ls_generation = jb_generation r,
     ls_fencing = lf_fencing r, ls_attempt = lf_attempt r, ls_maxAttempts = lf_max r, ls_leaseExpiresAt = lease_expiry r\<rparr>"

definition check_lease_ms :: "int \<Rightarrow> int \<Rightarrow> string \<Rightarrow> unit res" where
  "check_lease_ms bound leaseMs message = ensure (1000 \<le> leaseMs \<and> leaseMs \<le> bound) (Error message)"

definition job_due :: "queue_name \<Rightarrow> int \<Rightarrow> int \<Rightarrow> job \<Rightarrow> bool" where
  "job_due queue generation now j \<longleftrightarrow> jb_queue j = queue \<and> due now j \<and> jb_generation j = generation"

definition record_attempts :: "attempt_outcome \<Rightarrow> string option \<Rightarrow> int \<Rightarrow> job list \<Rightarrow> store \<Rightarrow> store res" where
  "record_attempts outcome code now rows =
     foldR (\<lambda>r. insert_attempt (lf_id r) (jb_queue r) (lf_fencing r) (lf_attempt r) outcome code now) rows"

definition claimJobByOperation :: "string \<Rightarrow> int \<Rightarrow> queue_name \<Rightarrow> string \<Rightarrow> string \<Rightarrow> int \<Rightarrow> int \<Rightarrow> store
    \<Rightarrow> (lease option \<times> store) res" where
  "claimJobByOperation schema now queue operationId owner leaseMs expectedGeneration db =
     bindR (assertToken operationId ''operationId'') (\<lambda>_.
     bindR (assertToken owner ''owner'') (\<lambda>_.
     bindR (check_lease_ms 300000 leaseMs ''leaseMs must be between 1000 and 300000'') (\<lambda>_.
     bindR (schemaIdentifier schema) (\<lambda>_.
     bindR (assertActiveGeneration queue expectedGeneration db) (\<lambda>_.
     if \<not> queueModeMatches queue Qstash db then Inr (None, db)
     else let p = (\<lambda>j. job_due queue expectedGeneration now j \<and> jb_operation j = operationId) in
     case filter p (st_jobs db) of
       [] \<Rightarrow> Inr (None, db)
     | r # _ \<Rightarrow> let row = take_lease owner leaseMs now r in
         bindR (record_attempts ALeased None now [row] (db\<lparr>st_jobs := update_where p (take_lease owner leaseMs now) (st_jobs db)\<rparr>))
           (\<lambda>db'. Inr (Some (lease_of row), db')))))))"

definition claimJobs :: "string \<Rightarrow> int \<Rightarrow> (nat \<Rightarrow> bool) \<Rightarrow> queue_name \<Rightarrow> string \<Rightarrow> int \<Rightarrow> int \<Rightarrow> int \<Rightarrow> execution_mode \<Rightarrow> store
    \<Rightarrow> (lease list \<times> store) res" where
  "claimJobs schema now locked queue owner limit leaseMs expectedGeneration executionMode db =
     bindR (assertToken owner ''owner'') (\<lambda>_.
     bindR (ensure (1 \<le> limit \<and> limit \<le> 20) (Error ''limit must be between 1 and 20'')) (\<lambda>_.
     bindR (check_lease_ms 300000 leaseMs ''leaseMs must be between 1000 and 300000'') (\<lambda>_.
     bindR (schemaIdentifier schema) (\<lambda>_.
     bindR (assertActiveGeneration queue expectedGeneration db) (\<lambda>_.
     if \<not> queueModeMatches queue executionMode db then Inr ([], db)
     else let candidates = select_ids lf_id lf_next (job_due queue expectedGeneration now) locked limit (st_jobs db);
              rows = map (take_lease owner leaseMs now) (filter (\<lambda>j. lf_id j \<in> set candidates) (st_jobs db)) in
     bindR (record_attempts ALeased None now rows
         (db\<lparr>st_jobs := update_where (\<lambda>j. lf_id j \<in> set candidates) (take_lease owner leaseMs now) (st_jobs db)\<rparr>))
       (\<lambda>db'. Inr (map lease_of rows, db')))))))"

definition lease_guard :: "lease \<Rightarrow> string \<Rightarrow> job \<Rightarrow> bool" where
  "lease_guard l owner j \<longleftrightarrow> lease_held (ls_id l) owner (ls_fencing l) j \<and> jb_generation j = ls_generation l"

definition completeJob :: "string \<Rightarrow> int \<Rightarrow> lease \<Rightarrow> string \<Rightarrow> string \<Rightarrow> store \<Rightarrow> (bool \<times> store) res" where
  "completeJob schema now l owner resultDigest db =
     bindR (assertToken owner ''owner'') (\<lambda>_.
     bindR (ensure (is_lower_hex 64 resultDigest) (Error ''resultDigest must be a lowercase SHA-256 hash'')) (\<lambda>_.
     bindR (schemaIdentifier schema) (\<lambda>_.
     let p = (\<lambda>j. lease_guard l owner j \<and> unexpired now j) in
     if \<not> list_ex p (st_jobs db) then Inr (False, db)
     else bindR (insert_attempt (ls_id l) (ls_queue l) (ls_fencing l) (ls_attempt l) ASucceeded None now
            (db\<lparr>st_jobs := update_where p (\<lambda>j. finish_lease now j\<lparr>jb_result := Some resultDigest\<rparr>) (st_jobs db)\<rparr>))
          (\<lambda>db'. Inr (True, db')))))"

datatype fail_result = FRetry | FDead | FStale

definition lease_outcome :: "nat \<Rightarrow> nat \<Rightarrow> row_state" where
  "lease_outcome attempt maxAttempts = (if maxAttempts \<le> attempt then Dead else Retry)"

definition failJob :: "string \<Rightarrow> int \<Rightarrow> lease \<Rightarrow> string \<Rightarrow> string \<Rightarrow> store \<Rightarrow> (fail_result \<times> store) res" where
  "failJob schema now l owner errorCode db =
     bindR (assertToken owner ''owner'') (\<lambda>_.
     bindR (assertToken errorCode ''errorCode'') (\<lambda>_.
     bindR (schemaIdentifier schema) (\<lambda>_.
     let outcome = lease_outcome (ls_attempt l) (ls_maxAttempts l) in
     bindR (retryDelayMs (int (ls_attempt l))) (\<lambda>delay.
     if \<not> list_ex (lease_guard l owner) (st_jobs db) then Inr (FStale, db)
     else bindR (insert_attempt (ls_id l) (ls_queue l) (ls_fencing l) (ls_attempt l)
              (if outcome = Dead then ADead else ARetry) (Some errorCode) now
            (db\<lparr>st_jobs := update_where (lease_guard l owner) (fail_lease outcome errorCode delay now) (st_jobs db)\<rparr>))
          (\<lambda>db'. Inr (if outcome = Dead then FDead else FRetry, db'))))))"

definition recoverExpiredLeases :: "string \<Rightarrow> int \<Rightarrow> (nat \<Rightarrow> bool) \<Rightarrow> queue_name \<Rightarrow> int \<Rightarrow> int \<Rightarrow> store \<Rightarrow> (nat \<times> store) res" where
  "recoverExpiredLeases schema now locked queue limit expectedGeneration db =
     bindR (ensure (1 \<le> limit \<and> limit \<le> 1000) (Error ''limit must be between 1 and 1000'')) (\<lambda>_.
     bindR (schemaIdentifier schema) (\<lambda>_.
     bindR (assertActiveGeneration queue expectedGeneration db) (\<lambda>_.
     let ids = select_ids lf_id lease_expiry (\<lambda>j. jb_queue j = queue \<and> expired now j \<and> jb_generation j = expectedGeneration)
                 locked limit (st_jobs db);
         rows = map (expire_lease now) (filter (\<lambda>j. lf_id j \<in> set ids) (st_jobs db)) in
     bindR (record_attempts AExpired (Some ''lease_expired'') now rows
         (db\<lparr>st_jobs := update_where (\<lambda>j. lf_id j \<in> set ids) (expire_lease now) (st_jobs db)\<rparr>))
       (\<lambda>db'. Inr (length rows, db')))))"

section \<open>The outbox\<close>

record outbox_lease =
  ol_id :: nat
  ol_operationId :: string
  ol_queue :: queue_name
  ol_destinationKey :: string
  ol_payload :: payload
  ol_payloadDigest :: string
  ol_fencing :: nat
  ol_attempt :: nat
  ol_maxAttempts :: nat
  ol_leaseExpiresAt :: int

definition outbox_lease_of :: "outbox \<Rightarrow> outbox_lease" where
  "outbox_lease_of r = \<lparr>ol_id = lf_id r, ol_operationId = ox_operation r, ol_queue = ox_queue r,
     ol_destinationKey = ox_destination r, ol_payload = ox_payload r, ol_payloadDigest = ox_digest r,
     ol_fencing = lf_fencing r, ol_attempt = lf_attempt r, ol_maxAttempts = lf_max r, ol_leaseExpiresAt = lease_expiry r\<rparr>"

text \<open>\<open>JOIN jobs j ON j.operation_id=o.operation_id ... AND j.generation=$n\<close>.\<close>

definition of_generation :: "store \<Rightarrow> int \<Rightarrow> outbox \<Rightarrow> bool" where
  "of_generation db generation o' \<longleftrightarrow>
     list_ex (\<lambda>j. jb_operation j = ox_operation o' \<and> jb_generation j = generation) (st_jobs db)"

definition claimOutbox :: "string \<Rightarrow> int \<Rightarrow> (nat \<Rightarrow> bool) \<Rightarrow> queue_name \<Rightarrow> string \<Rightarrow> int \<Rightarrow> int \<Rightarrow> int \<Rightarrow> store
    \<Rightarrow> (outbox_lease list \<times> store) res" where
  "claimOutbox schema now locked queue owner limit leaseMs expectedGeneration db =
     bindR (assertToken owner ''owner'') (\<lambda>_.
     bindR (ensure (1 \<le> limit \<and> limit \<le> 20) (Error ''limit must be between 1 and 20'')) (\<lambda>_.
     bindR (check_lease_ms 120000 leaseMs ''leaseMs must be between 1000 and 120000'') (\<lambda>_.
     bindR (schemaIdentifier schema) (\<lambda>_.
     bindR (assertActiveGeneration queue expectedGeneration db) (\<lambda>_.
     if \<not> queueModeMatches queue Qstash db then Inr ([], db)
     else let candidates = select_ids lf_id lf_next
                (\<lambda>r. ox_queue r = queue \<and> due now r \<and> of_generation db expectedGeneration r) locked limit (st_outbox db);
              rows = map (take_lease owner leaseMs now) (filter (\<lambda>r. lf_id r \<in> set candidates) (st_outbox db)) in
     Inr (map outbox_lease_of rows,
          db\<lparr>st_outbox := update_where (\<lambda>r. lf_id r \<in> set candidates) (take_lease owner leaseMs now) (st_outbox db)\<rparr>))))))"

definition completeOutbox :: "string \<Rightarrow> int \<Rightarrow> outbox_lease \<Rightarrow> string \<Rightarrow> string \<Rightarrow> store \<Rightarrow> (bool \<times> store) res" where
  "completeOutbox schema now l owner providerMessageId db =
     bindR (assertToken owner ''owner'') (\<lambda>_.
     bindR (assertToken providerMessageId ''providerMessageId'') (\<lambda>_.
     bindR (schemaIdentifier schema) (\<lambda>_.
     let p = (\<lambda>r. lease_held (ol_id l) owner (ol_fencing l) r \<and> unexpired now r) in
     Inr (length (filter p (st_outbox db)) = 1,
          db\<lparr>st_outbox := update_where p (\<lambda>r. finish_lease now r\<lparr>ox_provider := Some providerMessageId\<rparr>) (st_outbox db)\<rparr>))))"

definition failOutbox :: "string \<Rightarrow> int \<Rightarrow> outbox_lease \<Rightarrow> string \<Rightarrow> string \<Rightarrow> store \<Rightarrow> (fail_result \<times> store) res" where
  "failOutbox schema now l owner errorCode db =
     bindR (assertToken owner ''owner'') (\<lambda>_.
     bindR (assertToken errorCode ''errorCode'') (\<lambda>_.
     bindR (schemaIdentifier schema) (\<lambda>_.
     let outcome = lease_outcome (ol_attempt l) (ol_maxAttempts l); p = lease_held (ol_id l) owner (ol_fencing l) in
     bindR (retryDelayMs (int (ol_attempt l))) (\<lambda>delay.
     Inr (if length (filter p (st_outbox db)) = 1 then (if outcome = Dead then FDead else FRetry) else FStale,
          db\<lparr>st_outbox := update_where p (fail_lease outcome errorCode delay now) (st_outbox db)\<rparr>)))))"

definition recoverExpiredOutboxLeases :: "string \<Rightarrow> int \<Rightarrow> (nat \<Rightarrow> bool) \<Rightarrow> queue_name \<Rightarrow> int \<Rightarrow> int \<Rightarrow> store \<Rightarrow> (nat \<times> store) res" where
  "recoverExpiredOutboxLeases schema now locked queue limit expectedGeneration db =
     bindR (ensure (1 \<le> limit \<and> limit \<le> 1000) (Error ''limit must be between 1 and 1000'')) (\<lambda>_.
     bindR (schemaIdentifier schema) (\<lambda>_.
     bindR (assertActiveGeneration queue expectedGeneration db) (\<lambda>_.
     let ids = select_ids lf_id lease_expiry (\<lambda>r. ox_queue r = queue \<and> expired now r \<and> of_generation db expectedGeneration r)
                 locked limit (st_outbox db) in
     Inr (length (filter (\<lambda>r. lf_id r \<in> set ids) (st_outbox db)),
          db\<lparr>st_outbox := update_where (\<lambda>r. lf_id r \<in> set ids) (expire_lease now) (st_outbox db)\<rparr>))))"

section \<open>Repair\<close>

text \<open>The latest outbox message of an operation, \<open>ORDER BY o.created_at DESC,o.id DESC LIMIT 1\<close>.\<close>

definition latest_outbox :: "string \<Rightarrow> outbox list \<Rightarrow> outbox option" where
  "latest_outbox operation rows = (case rev (sort_key (\<lambda>r. (lf_created r, lf_id r)) (filter (\<lambda>r. ox_operation r = operation) rows)) of
     [] \<Rightarrow> None | r # _ \<Rightarrow> Some r)"

definition is_active :: "outbox \<Rightarrow> bool" where
  "is_active r \<longleftrightarrow> lf_state r = Pending \<or> lf_state r = Retry \<or> lf_state r = Leased"

definition requeue_row :: "queue_name \<Rightarrow> int \<Rightarrow> outbox list \<Rightarrow> nat \<Rightarrow> job \<Rightarrow> outbox list" where
  "requeue_row queue now rows i j = (case latest_outbox (jb_operation j) rows of
     None \<Rightarrow> []
   | Some r \<Rightarrow> [new_outbox (jb_operation j) queue (ox_destination r) (jb_digest j) (jb_kind j) (lf_max j) i now])"

definition requeueDueJobs :: "string \<Rightarrow> int \<Rightarrow> (nat \<Rightarrow> bool) \<Rightarrow> queue_name \<Rightarrow> int \<Rightarrow> int \<Rightarrow> store \<Rightarrow> (nat \<times> store) res" where
  "requeueDueJobs schema now locked queue limit expectedGeneration db =
     bindR (ensure (1 \<le> limit \<and> limit \<le> 1000) (Error ''limit must be between 1 and 1000'')) (\<lambda>_.
     bindR (schemaIdentifier schema) (\<lambda>_.
     bindR (assertActiveGeneration queue expectedGeneration db) (\<lambda>_.
     let ids = select_ids lf_id lf_next (\<lambda>j. jb_queue j = queue \<and> lf_state j = Retry \<and> lf_next j \<le> now
            \<and> jb_generation j = expectedGeneration
            \<and> \<not> list_ex (\<lambda>r. ox_operation r = jb_operation j \<and> is_active r) (st_outbox db)) locked limit (st_jobs db);
         jobs = filter (\<lambda>j. lf_id j \<in> set ids) (st_jobs db);
         rows = concat (map (\<lambda>(i, j). requeue_row queue now (st_outbox db) (st_seq db + i) j) (enumerate 0 jobs)) in
     Inr (length rows, db\<lparr>st_outbox := st_outbox db @ rows, st_seq := st_seq db + length jobs\<rparr>))))"

text \<open>The two recoveries of \<open>repairQueue\<close> run concurrently on different tables; they commute.\<close>

definition repairQueue :: "string \<Rightarrow> int \<Rightarrow> (nat \<Rightarrow> bool) \<Rightarrow> queue_name \<Rightarrow> int \<Rightarrow> store \<Rightarrow> ((nat \<times> nat \<times> nat) \<times> store) res" where
  "repairQueue schema now locked queue expectedGeneration db =
     bindR (recoverExpiredLeases schema now locked queue 100 expectedGeneration db) (\<lambda>(jobs, db1).
     bindR (recoverExpiredOutboxLeases schema now locked queue 100 expectedGeneration db1) (\<lambda>(outbox, db2).
     bindR (requeueDueJobs schema now locked queue 100 expectedGeneration db2) (\<lambda>(requeued, db3).
     Inr ((jobs, outbox, requeued), db3))))"

section \<open>Generations and execution mode\<close>

definition undrained :: "queue_name \<Rightarrow> int \<Rightarrow> store \<Rightarrow> job \<Rightarrow> bool" where
  "undrained queue generation db j \<longleftrightarrow> jb_queue j = queue \<and> jb_generation j = generation
     \<and> (lf_state j \<noteq> Completed \<or> list_ex (\<lambda>r. ox_operation r = jb_operation j \<and> lf_state r \<noteq> Completed) (st_outbox db))"

definition advanceQueueGeneration :: "string \<Rightarrow> queue_name \<Rightarrow> int \<Rightarrow> int \<Rightarrow> store \<Rightarrow> store res" where
  "advanceQueueGeneration schema queue expectedGeneration nextGeneration db =
     (if expectedGeneration < 0 \<or> nextGeneration \<noteq> expectedGeneration + 1
      then Inl (Error ''queue generation must advance by exactly one'')
      else
      bindR (schemaIdentifier schema) (\<lambda>_.
      bindR (assertActiveGeneration queue expectedGeneration db) (\<lambda>_.
      if list_ex (undrained queue expectedGeneration db) (st_jobs db)
      then Inl (Error ''queue generation cannot advance before successful drain'')
      else if length (filter (\<lambda>(q, g). q = queue \<and> gr_active g = expectedGeneration) (st_generations db)) \<noteq> 1
      then Inl (Error ''queue generation changed concurrently'')
      else Inr (db\<lparr>st_generations := map (\<lambda>(q, g). if q = queue \<and> gr_active g = expectedGeneration
                     then (q, g\<lparr>gr_active := nextGeneration\<rparr>) else (q, g)) (st_generations db)\<rparr>))))"

definition setQueueExecutionMode :: "string \<Rightarrow> execution_mode \<Rightarrow> int \<Rightarrow> store \<Rightarrow> store res" where
  "setQueueExecutionMode schema mode expectedGeneration db =
     bindR (schemaIdentifier schema) (\<lambda>_.
     bindR (assertActiveGeneration Chain expectedGeneration db) (\<lambda>_.
     if list_ex (\<lambda>j. jb_queue j = Chain \<and> lf_state j = Leased) (st_jobs db)
        \<or> list_ex (\<lambda>r. ox_queue r = Chain \<and> lf_state r = Leased) (st_outbox db)
     then Inl (Error ''execution mode switch requires drained leases'')
     else Inr (db\<lparr>st_generations := map (\<lambda>(q, g). if q = Chain then (q, g\<lparr>gr_mode := mode\<rparr>) else (q, g)) (st_generations db)\<rparr>)))"

section \<open>Processing and dispatch\<close>

text \<open>The fields of a parsed envelope; \<open>None\<close> where the field is not a string.\<close>

record job_envelope =
  en_operationId :: "string option"
  en_kind :: "string option"
  en_payloadDigest :: "string option"

datatype process_result = PSucceeded | PRetry | PDead | PDuplicateOrNotDue | PStale

definition process_of :: "fail_result \<Rightarrow> process_result" where
  "process_of r = (case r of FRetry \<Rightarrow> PRetry | FDead \<Rightarrow> PDead | FStale \<Rightarrow> PStale)"

text \<open>
  \<open>verified\<close> is the outcome of the QStash receiver (it throws on a bad signature), \<open>envelope\<close>
  that of \<open>JSON.parse\<close>, \<open>process\<close> the job's processor. While it runs, other transactions turn
  the store by \<open>others\<close> and time moves from \<open>t0\<close> to \<open>t1\<close>.
\<close>

definition processSignedJob :: "(string \<Rightarrow> string) \<Rightarrow> string \<Rightarrow> int \<Rightarrow> int \<Rightarrow> unit res \<Rightarrow> job_envelope res \<Rightarrow> (lease \<Rightarrow> string res)
    \<Rightarrow> (store \<Rightarrow> store) \<Rightarrow> queue_name \<Rightarrow> string \<Rightarrow> int \<Rightarrow> int \<Rightarrow> store \<Rightarrow> (process_result \<times> store) res" where
  "processSignedJob sha256 schema t0 t1 verified envelope process others queue owner leaseMs expectedGeneration db =
     bindR verified (\<lambda>_.
     bindR envelope (\<lambda>env.
     case (en_operationId env, en_kind env, en_payloadDigest env) of
       (Some operationId, Some kind, Some digest) \<Rightarrow>
         bindR (claimJobByOperation schema t0 queue operationId owner leaseMs expectedGeneration db) (\<lambda>(claimed, db1).
         case claimed of None \<Rightarrow> Inr (PDuplicateOrNotDue, db1)
         | Some l \<Rightarrow>
           if ls_kind l \<noteq> kind \<or> ls_payloadDigest l \<noteq> digest
           then bindR (failJob schema t0 l owner ''envelope_mismatch'' db1) (\<lambda>(r, db2). Inr (process_of r, db2))
           else let db2 = others db1 in
             (case bindR (process l) (\<lambda>result. completeJob schema t1 l owner (sha256 result) db2) of
                Inr (done, db3) \<Rightarrow> Inr (if done then PSucceeded else PStale, db3)
              | Inl e \<Rightarrow> bindR (failJob schema t1 l owner ''processor_failed'' db2) (\<lambda>(r, db3). Inr (process_of r, db3))))
     | _ \<Rightarrow> Inl (Error ''invalid job envelope'')))"

definition verifyRepairToken :: "string option \<Rightarrow> string \<Rightarrow> bool" where
  "verifyRepairToken provided configured = (case provided of None \<Rightarrow> False
     | Some p \<Rightarrow> p \<noteq> [] \<and> configured \<noteq> [] \<and> length p = length configured \<and> p = configured)"

record dispatch_result =
  dr_claimed :: nat
  dr_sent :: nat
  dr_retried :: nat
  dr_dead :: nat
  dr_stale :: nat

text \<open>One element of the \<open>Promise.all\<close>; \<open>publish\<close> is \<open>publishOutbox\<close> with its client.\<close>

definition dispatch_one :: "string \<Rightarrow> int \<Rightarrow> (outbox_lease \<Rightarrow> string res) \<Rightarrow> string \<Rightarrow> outbox_lease
    \<Rightarrow> dispatch_result \<times> store \<Rightarrow> (dispatch_result \<times> store) res" where
  "dispatch_one schema now publish owner l st = (case st of (result, db) \<Rightarrow>
     (case bindR (publish l) (\<lambda>messageId. completeOutbox schema now l owner messageId db) of
        Inr (done, db') \<Rightarrow> Inr (if done then result\<lparr>dr_sent := dr_sent result + 1\<rparr> else result\<lparr>dr_stale := dr_stale result + 1\<rparr>, db')
      | Inl e \<Rightarrow> bindR (failOutbox schema now l owner ''provider_publish_failed'' db) (\<lambda>(outcome, db').
          Inr (case outcome of FRetry \<Rightarrow> result\<lparr>dr_retried := dr_retried result + 1\<rparr>
                 | FDead \<Rightarrow> result\<lparr>dr_dead := dr_dead result + 1\<rparr> | FStale \<Rightarrow> result\<lparr>dr_stale := dr_stale result + 1\<rparr>, db'))))"

text \<open>The deliveries run concurrently; each works on its own row, and the model runs them in order.\<close>

definition dispatchDueOutbox :: "string \<Rightarrow> int \<Rightarrow> int \<Rightarrow> (nat \<Rightarrow> bool) \<Rightarrow> (outbox_lease \<Rightarrow> string res) \<Rightarrow> queue_name \<Rightarrow> string
    \<Rightarrow> int \<Rightarrow> int \<Rightarrow> store \<Rightarrow> (dispatch_result \<times> store) res" where
  "dispatchDueOutbox schema t0 t1 locked publish queue owner limit expectedGeneration db =
     bindR (claimOutbox schema t0 locked queue owner limit 20000 expectedGeneration db) (\<lambda>(leases, db1).
     foldR (dispatch_one schema t1 publish owner) leases
       (\<lparr>dr_claimed = length leases, dr_sent = 0, dr_retried = 0, dr_dead = 0, dr_stale = 0\<rparr>, db1))"

end
