(* ===== verification/Queue_Correct.thy ===== *)
theory Queue_Correct imports Job_Queue begin

text \<open>
  The queue is correct: every operation of \<open>Job_Queue\<close> keeps the store well formed
  (\<open>store_ok\<close>) and lets rows change only in the permitted way (\<open>store_evolves\<close>); from this
  follow the guarantees the services rely on: fencing of stale leases, at most one completion,
  bounded attempts, no work stranded in an old generation, and exactly-once enqueueing.
\<close>

section \<open>Rows and tables\<close>

text \<open>
  What holds of every row: the lease columns are set exactly while it is leased, the fencing token
  counts the attempts, attempts never exceed their bound and a row that waits has one left.
\<close>

definition row_ok :: "'a lease_fields_scheme \<Rightarrow> bool" where
  "row_ok r \<longleftrightarrow> (lf_state r = Leased \<longleftrightarrow> lf_owner r \<noteq> None) \<and> (lf_state r = Leased \<longleftrightarrow> lf_expires r \<noteq> None)
     \<and> lf_fencing r = lf_attempt r \<and> lf_attempt r \<le> lf_max r \<and> 1 \<le> lf_max r \<and> lf_max r \<le> 32
     \<and> (lf_state r = Pending \<longrightarrow> lf_attempt r = 0) \<and> (lf_state r = Retry \<longrightarrow> lf_attempt r < lf_max r)
     \<and> (lf_state r = Leased \<longrightarrow> 1 \<le> lf_attempt r)"

definition table_ok :: "('r \<Rightarrow> nat) \<Rightarrow> ('r \<Rightarrow> bool) \<Rightarrow> nat \<Rightarrow> 'r list \<Rightarrow> bool" where
  "table_ok ident ok bound rows \<longleftrightarrow> distinct (map ident rows) \<and> (\<forall>r\<in>set rows. ok r \<and> ident r < bound)"

text \<open>An \<open>UPDATE\<close> that keeps the key and, under its guard, the row invariant keeps the table.\<close>

locale guarded_update =
  fixes ident :: "'r \<Rightarrow> nat" and ok :: "'r \<Rightarrow> bool" and guard :: "'r \<Rightarrow> bool" and upd :: "'r \<Rightarrow> 'r"
  assumes ident_upd: "ident (upd r) = ident r"
    and ok_upd: "ok r \<Longrightarrow> guard r \<Longrightarrow> ok (upd r)"
begin

lemma map_ident: "map ident (update_where p upd rows) = map ident rows"
  by (simp add: update_where_def ident_upd)

lemma table_kept:
  assumes "table_ok ident ok b rows" and "\<And>r. r \<in> set rows \<Longrightarrow> p r \<Longrightarrow> guard r"
  shows "table_ok ident ok b (update_where p upd rows)"
  using assms unfolding table_ok_def map_ident by (auto simp: update_where_def ident_upd ok_upd)

end

interpretation taking: guarded_update lf_id row_ok "due now" "take_lease owner leaseMs now" for owner leaseMs now
  by unfold_locales (auto simp: row_ok_def take_lease_def due_def)

interpretation finishing: guarded_update lf_id row_ok "\<lambda>r. lf_state r = Leased" "finish_lease now" for now
  by unfold_locales (auto simp: row_ok_def finish_lease_def)

interpretation failing: guarded_update lf_id row_ok
    "\<lambda>r. lf_state r = Leased \<and> outcome = lease_outcome (lf_attempt r) (lf_max r)" "fail_lease outcome code delay now"
  for outcome code delay now
  by unfold_locales (auto simp: row_ok_def fail_lease_def lease_outcome_def)

interpretation expiring: guarded_update lf_id row_ok "\<lambda>r. lf_state r = Leased" "expire_lease now" for now
  by unfold_locales (auto simp: row_ok_def expire_lease_def)

interpretation completing_job: guarded_update lf_id row_ok "\<lambda>r. lf_state r = Leased"
    "\<lambda>j :: job. finish_lease now j\<lparr>jb_result := res\<rparr>" for now res
  by unfold_locales (auto simp: row_ok_def finish_lease_def)

interpretation completing_outbox: guarded_update lf_id row_ok "\<lambda>r. lf_state r = Leased"
    "\<lambda>r :: outbox. finish_lease now r\<lparr>ox_provider := res\<rparr>" for now res
  by unfold_locales (auto simp: row_ok_def finish_lease_def)

lemma distinct_map_eq: "distinct (map f xs) \<Longrightarrow> x \<in> set xs \<Longrightarrow> y \<in> set xs \<Longrightarrow> f x = f y \<Longrightarrow> x = y"
  by (auto simp: distinct_map dest: inj_onD)

text \<open>What a \<open>SELECT ... LIMIT\<close> returns.\<close>

lemma select_ids_sound: "i \<in> set (select_ids idf k p locked limit rows) \<Longrightarrow> \<exists>r\<in>set rows. idf r = i \<and> p r \<and> \<not> locked i"
  by (auto simp: select_ids_def dest!: in_set_takeD)

lemma select_ids_row:
  assumes "distinct (map idf rows)" and "r \<in> set rows" and "idf r \<in> set (select_ids idf k p locked limit rows)"
  shows "p r"
  using select_ids_sound [OF assms(3)] assms(1,2) by (auto simp: distinct_map dest: inj_onD)

lemma select_ids_limit: "length (select_ids idf k p locked limit rows) \<le> nat limit"
  by (simp add: select_ids_def)

lemma select_ids_distinct: "distinct (map idf rows) \<Longrightarrow> distinct (select_ids idf k p locked limit rows)"
proof -
  assume d: "distinct (map idf rows)"
  have "distinct (map idf (sort_key (\<lambda>r. (k r, idf r)) (filter (\<lambda>r. p r \<and> \<not> locked (idf r)) rows)))"
    using d by (simp add: distinct_map inj_on_def)
  then show ?thesis unfolding select_ids_def by (rule distinct_take)
qed

text \<open>The first in the order are taken: a candidate left out comes after every one taken.\<close>

lemma select_ids_first:
  assumes "r \<in> set rows" "p r" "\<not> locked (idf r)" "idf r \<notin> set (select_ids idf k p locked limit rows)"
    and "i \<in> set (select_ids idf k p locked limit rows)"
  shows "\<exists>q\<in>set rows. idf q = i \<and> (k q, idf q) \<le> (k r, idf r)"
proof -
  let ?key = "\<lambda>r. (k r, idf r)"
  define xs where "xs = sort_key ?key (filter (\<lambda>r. p r \<and> \<not> locked (idf r)) rows)"
  have sel: "select_ids idf k p locked limit rows = map idf (take (nat limit) xs)"
    by (simp add: select_ids_def xs_def take_map)
  have sorted: "sorted (map ?key xs)" by (simp add: xs_def)
  obtain q where q: "q \<in> set (take (nat limit) xs)" "idf q = i" using assms(5) by (auto simp: sel)
  have "r \<in> set xs" using assms(1-3) by (simp add: xs_def)
  moreover have "r \<notin> set (take (nat limit) xs)" using assms(4) by (auto simp: sel)
  ultimately have r: "r \<in> set (drop (nat limit) xs)"
    by (metis Un_iff append_take_drop_id set_append)
  have "sorted (map ?key (take (nat limit) xs) @ map ?key (drop (nat limit) xs))"
    using sorted by (metis append_take_drop_id map_append)
  then have "\<forall>x\<in>?key ` set (take (nat limit) xs). \<forall>y\<in>?key ` set (drop (nat limit) xs). x \<le> y"
    unfolding sorted_append set_map by blast
  then have "?key q \<le> ?key r" using q(1) r by blast
  moreover have "q \<in> set rows" using in_set_takeD [OF q(1)] by (simp add: xs_def)
  ultimately show ?thesis using q(2) by blast
qed

section \<open>The store\<close>

text \<open>How a job row may change: its identity is fixed, fencing never falls, a completed job stays so.\<close>

definition job_evolves :: "job \<Rightarrow> job \<Rightarrow> bool" where
  "job_evolves j j' \<longleftrightarrow> lf_id j' = lf_id j \<and> jb_operation j' = jb_operation j \<and> jb_queue j' = jb_queue j
     \<and> jb_kind j' = jb_kind j \<and> jb_digest j' = jb_digest j \<and> jb_generation j' = jb_generation j \<and> lf_max j' = lf_max j
     \<and> lf_fencing j \<le> lf_fencing j'
     \<and> (lf_state j = Completed \<longrightarrow> lf_state j' = Completed \<and> jb_result j' = jb_result j \<and> lf_fencing j' = lf_fencing j)"

definition outbox_evolves :: "outbox \<Rightarrow> outbox \<Rightarrow> bool" where
  "outbox_evolves r r' \<longleftrightarrow> lf_id r' = lf_id r \<and> ox_operation r' = ox_operation r \<and> ox_queue r' = ox_queue r
     \<and> ox_destination r' = ox_destination r \<and> ox_digest r' = ox_digest r \<and> lf_max r' = lf_max r
     \<and> lf_fencing r \<le> lf_fencing r' \<and> (lf_state r = Completed \<longrightarrow> lf_state r' = Completed)"

lemma job_evolves_refl [simp]: "job_evolves j j" and outbox_evolves_refl [simp]: "outbox_evolves r r"
  by (simp_all add: job_evolves_def outbox_evolves_def)

lemma job_evolves_trans: "job_evolves a b \<Longrightarrow> job_evolves b c \<Longrightarrow> job_evolves a c"
  by (auto simp: job_evolves_def)

lemma outbox_evolves_trans: "outbox_evolves a b \<Longrightarrow> outbox_evolves b c \<Longrightarrow> outbox_evolves a c"
  by (auto simp: outbox_evolves_def)

lemma update_evolves:
  "(\<And>r. r \<in> set rows \<Longrightarrow> p r \<Longrightarrow> ev r (f r)) \<Longrightarrow> (\<And>r. ev r r) \<Longrightarrow> list_all2 ev rows (update_where p f rows)"
  by (simp add: update_where_def list_all2_conv_all_nth)

definition job_attempts_ok :: "attempt_row list \<Rightarrow> job list \<Rightarrow> bool" where
  "job_attempts_ok ats jobs \<longleftrightarrow> distinct (map (\<lambda>a. (at_job a, at_fencing a, at_outcome a)) ats)
     \<and> (\<forall>a\<in>set ats. \<exists>j\<in>set jobs. at_job a = lf_id j \<and> at_fencing a \<le> lf_fencing j
          \<and> (at_fencing a = lf_fencing j \<and> lf_state j = Leased \<longrightarrow> at_outcome a = ALeased))"

text \<open>No work is left in a generation that is over: its jobs succeeded and their messages were sent.\<close>

definition generations_ok :: "store \<Rightarrow> bool" where
  "generations_ok db \<longleftrightarrow> map fst (st_generations db) = [Chain, Content]
     \<and> (\<forall>j\<in>set (st_jobs db). \<exists>g. map_of (st_generations db) (jb_queue j) = Some g \<and> 0 \<le> jb_generation j
          \<and> jb_generation j \<le> gr_active g
          \<and> (jb_generation j < gr_active g \<longrightarrow> lf_state j = Completed
               \<and> (\<forall>r\<in>set (st_outbox db). ox_operation r = jb_operation j \<longrightarrow> lf_state r = Completed)))"

definition store_ok :: "store \<Rightarrow> bool" where
  "store_ok db \<longleftrightarrow> table_ok lf_id row_ok (st_seq db) (st_jobs db) \<and> distinct (map jb_operation (st_jobs db))
     \<and> table_ok lf_id row_ok (st_seq db) (st_outbox db)
     \<and> (\<forall>r\<in>set (st_outbox db). \<exists>j\<in>set (st_jobs db). jb_operation j = ox_operation r \<and> jb_queue j = ox_queue r)
     \<and> job_attempts_ok (st_attempts db) (st_jobs db) \<and> generations_ok db"

section \<open>Changing one table\<close>

lemma table_ok_mono: "table_ok idf ok b rows \<Longrightarrow> b \<le> c \<Longrightarrow> table_ok idf ok c rows"
  by (auto simp: table_ok_def)

lemma table_ok_change:
  assumes "table_ok idf ok b rows" and "map idf rows' = map idf rows" and "\<And>r. r \<in> set rows' \<Longrightarrow> ok r"
  shows "table_ok idf ok b rows'"
proof -
  have "idf ` set rows' = idf ` set rows" using assms(2) by (metis set_map)
  then have "\<exists>q\<in>set rows. idf r = idf q" if "r \<in> set rows'" for r using that by blast
  then have "idf r < b" if "r \<in> set rows'" for r using assms(1) that unfolding table_ok_def by metis
  with assms show ?thesis by (simp add: table_ok_def)
qed

lemma update_where_cases: "r \<in> set (update_where p f rows) \<Longrightarrow> (\<exists>q\<in>set rows. p q \<and> r = f q) \<or> (r \<in> set rows \<and> \<not> p r)"
  by (auto simp: update_where_def)

lemma list_all2_set1: "list_all2 P xs ys \<Longrightarrow> x \<in> set xs \<Longrightarrow> \<exists>y\<in>set ys. P x y"
  by (induction rule: list_all2_induct) auto

lemma list_all2_set2: "list_all2 P xs ys \<Longrightarrow> y \<in> set ys \<Longrightarrow> \<exists>x\<in>set xs. P x y"
  by (induction rule: list_all2_induct) auto

lemma evolves_map: "list_all2 P xs ys \<Longrightarrow> (\<And>x y. P x y \<Longrightarrow> f y = f x) \<Longrightarrow> map f ys = map f xs"
  by (induction rule: list_all2_induct) auto

lemma generations_ok_evolves:
  assumes "generations_ok db" and "list_all2 job_evolves (st_jobs db) jobs" and "list_all2 outbox_evolves (st_outbox db) out"
    and "db' = db\<lparr>st_jobs := jobs, st_outbox := out, st_attempts := ats, st_seq := n\<rparr>"
  shows "generations_ok db'"
  unfolding generations_ok_def
proof (intro conjI ballI)
  show "map fst (st_generations db') = [Chain, Content]" using assms(1,4) by (simp add: generations_ok_def)
next
  fix j' assume "j' \<in> set (st_jobs db')"
  then obtain j where j: "j \<in> set (st_jobs db)" "job_evolves j j'"
    using list_all2_set2 [OF assms(2)] assms(4) by auto
  with assms(1) obtain g where g: "map_of (st_generations db) (jb_queue j) = Some g" "0 \<le> jb_generation j"
    "jb_generation j \<le> gr_active g" and old: "jb_generation j < gr_active g \<Longrightarrow> lf_state j = Completed
       \<and> (\<forall>r\<in>set (st_outbox db). ox_operation r = jb_operation j \<longrightarrow> lf_state r = Completed)"
    unfolding generations_ok_def by blast
  have "lf_state r' = Completed" if "jb_generation j < gr_active g" "r' \<in> set out" "ox_operation r' = jb_operation j" for r'
    using list_all2_set2 [OF assms(3) that(2)] old [OF that(1)] that(3) by (auto simp: outbox_evolves_def)
  with g j(2) old show "\<exists>g. map_of (st_generations db') (jb_queue j') = Some g \<and> 0 \<le> jb_generation j'
          \<and> jb_generation j' \<le> gr_active g \<and> (jb_generation j' < gr_active g \<longrightarrow> lf_state j' = Completed
               \<and> (\<forall>r\<in>set (st_outbox db'). ox_operation r = jb_operation j' \<longrightarrow> lf_state r = Completed))"
    by (auto simp: assms(4) job_evolves_def)
qed

text \<open>An operation that rewrites job rows under their guard and records attempts.\<close>

lemma store_ok_jobs:
  assumes ok: "store_ok db" and tab: "table_ok lf_id row_ok (st_seq db) jobs"
    and ev: "list_all2 job_evolves (st_jobs db) jobs" and ats: "job_attempts_ok ats jobs" and n: "st_seq db \<le> n"
  shows "store_ok (db\<lparr>st_jobs := jobs, st_attempts := ats, st_seq := n\<rparr>)"
proof -
  have "map jb_operation jobs = map jb_operation (st_jobs db)"
    by (rule evolves_map [OF ev]) (simp add: job_evolves_def)
  moreover have "\<exists>j\<in>set jobs. jb_operation j = ox_operation r \<and> jb_queue j = ox_queue r" if "r \<in> set (st_outbox db)" for r
  proof -
    from ok that obtain j where "j \<in> set (st_jobs db)" "jb_operation j = ox_operation r" "jb_queue j = ox_queue r"
      unfolding store_ok_def by blast
    with list_all2_set1 [OF ev] show ?thesis by (auto simp: job_evolves_def) metis
  qed
  moreover have "generations_ok (db\<lparr>st_jobs := jobs, st_attempts := ats, st_seq := n\<rparr>)"
    by (rule generations_ok_evolves [OF _ ev, of "st_outbox db"])
       (use ok in \<open>simp_all add: store_ok_def list.rel_refl\<close>)
  ultimately show ?thesis using ok tab ats n by (auto simp: store_ok_def intro: table_ok_mono)
qed

lemma store_ok_outbox:
  assumes ok: "store_ok db" and tab: "table_ok lf_id row_ok (st_seq db) out"
    and ev: "list_all2 outbox_evolves (st_outbox db) out"
  shows "store_ok (db\<lparr>st_outbox := out\<rparr>)"
proof -
  have "\<exists>j\<in>set (st_jobs db). jb_operation j = ox_operation r' \<and> jb_queue j = ox_queue r'" if "r' \<in> set out" for r'
  proof -
    obtain r where "r \<in> set (st_outbox db)" "outbox_evolves r r'" using list_all2_set2 [OF ev \<open>r' \<in> set out\<close>] by blast
    with ok show ?thesis unfolding store_ok_def by (metis outbox_evolves_def)
  qed
  moreover have "generations_ok (db\<lparr>st_outbox := out\<rparr>)"
    by (rule generations_ok_evolves [where jobs = "st_jobs db" and ats = "st_attempts db" and n = "st_seq db", OF _ _ ev])
       (use ok in \<open>simp_all add: store_ok_def list.rel_refl\<close>)
  ultimately show ?thesis using ok tab by (auto simp: store_ok_def)
qed

section \<open>Attempts\<close>

lemma job_attempts_step:
  assumes ok: "job_attempts_ok ats jobs" and ev: "list_all2 job_evolves jobs jobs'"
    and step: "list_all2 (\<lambda>j j'. lf_fencing j < lf_fencing j' \<or> (lf_state j' = Leased \<longrightarrow> j' = j)) jobs jobs'"
  shows "job_attempts_ok ats jobs'"
proof -
  have both: "list_all2 (\<lambda>j j'. job_evolves j j' \<and> (lf_fencing j < lf_fencing j' \<or> (lf_state j' = Leased \<longrightarrow> j' = j))) jobs jobs'"
    using ev step by (auto simp: list_all2_conv_all_nth)
  have "\<exists>j'\<in>set jobs'. at_job a = lf_id j' \<and> at_fencing a \<le> lf_fencing j'
          \<and> (at_fencing a = lf_fencing j' \<and> lf_state j' = Leased \<longrightarrow> at_outcome a = ALeased)" if a: "a \<in> set ats" for a
  proof -
    from ok a obtain j where j: "j \<in> set jobs" "at_job a = lf_id j" "at_fencing a \<le> lf_fencing j"
      "at_fencing a = lf_fencing j \<and> lf_state j = Leased \<longrightarrow> at_outcome a = ALeased" unfolding job_attempts_ok_def by blast
    from list_all2_set1 [OF both j(1)] obtain j' where "j' \<in> set jobs'" "job_evolves j j'"
      "lf_fencing j < lf_fencing j' \<or> (lf_state j' = Leased \<longrightarrow> j' = j)" by blast
    with j show ?thesis by (intro bexI [of _ j']) (auto simp: job_evolves_def)
  qed
  with ok show ?thesis by (auto simp: job_attempts_ok_def)
qed

definition attempt_fits :: "nat \<Rightarrow> nat \<Rightarrow> attempt_outcome \<Rightarrow> job list \<Rightarrow> bool" where
  "attempt_fits i fencing outcome jobs \<longleftrightarrow> (\<exists>j\<in>set jobs. i = lf_id j \<and> fencing \<le> lf_fencing j
     \<and> (fencing = lf_fencing j \<and> lf_state j = Leased \<longrightarrow> outcome = ALeased))"

lemma insert_attempt_ok:
  assumes "insert_attempt i q f n out code now db = Inr db'" and "job_attempts_ok (st_attempts db) jobs"
    and "attempt_fits i f out jobs"
  shows "job_attempts_ok (st_attempts db') jobs
    \<and> db' = db\<lparr>st_attempts := st_attempts db', st_seq := st_seq db'\<rparr> \<and> st_seq db \<le> st_seq db'"
proof -
  from assms(1) have new: "\<forall>a\<in>set (st_attempts db). \<not> (at_job a = i \<and> at_fencing a = f \<and> at_outcome a = out)"
    and db': "db' = db\<lparr>st_attempts := st_attempts db @ [\<lparr>at_id = st_seq db, at_job = i, at_queue = q,
            at_fencing = f, at_attempt = n, at_outcome = out, at_error = code, at_started = now\<rparr>],
          st_seq := st_seq db + 1\<rparr>"
    by (auto simp: insert_attempt_def list_ex_iff split: if_splits)
  show ?thesis using assms(2,3) new by (auto simp: job_attempts_ok_def attempt_fits_def db')
qed

lemma record_attempts_ok:
  assumes run: "record_attempts out code now rows db = Inr db'" and ok: "job_attempts_ok (st_attempts db) jobs"
    and fits: "\<And>r. r \<in> set rows \<Longrightarrow> attempt_fits (lf_id r) (lf_fencing r) out jobs"
  shows "job_attempts_ok (st_attempts db') jobs
    \<and> db' = db\<lparr>st_attempts := st_attempts db', st_seq := st_seq db'\<rparr> \<and> st_seq db \<le> st_seq db'"
proof (rule foldR_keeps [OF run [unfolded record_attempts_def], where I = "\<lambda>s. job_attempts_ok (st_attempts s) jobs
    \<and> s = db\<lparr>st_attempts := st_attempts s, st_seq := st_seq s\<rparr> \<and> st_seq db \<le> st_seq s"])
  show "job_attempts_ok (st_attempts db) jobs
    \<and> db = db\<lparr>st_attempts := st_attempts db, st_seq := st_seq db\<rparr> \<and> st_seq db \<le> st_seq db" using ok by simp
next
  fix r s t
  assume r: "r \<in> set rows" and inv: "job_attempts_ok (st_attempts s) jobs
    \<and> s = db\<lparr>st_attempts := st_attempts s, st_seq := st_seq s\<rparr> \<and> st_seq db \<le> st_seq s"
    and step: "insert_attempt (lf_id r) (jb_queue r) (lf_fencing r) (lf_attempt r) out code now s = Inr t"
  from insert_attempt_ok [OF step conjunct1 [OF inv] fits [OF r]] have "job_attempts_ok (st_attempts t) jobs"
    and t: "t = s\<lparr>st_attempts := st_attempts t, st_seq := st_seq t\<rparr>" "st_seq s \<le> st_seq t" by auto
  moreover have "t = db\<lparr>st_attempts := st_attempts t, st_seq := st_seq t\<rparr>"
    by (subst t(1), subst conjunct1 [OF conjunct2 [OF inv]]) simp
  ultimately show "job_attempts_ok (st_attempts t) jobs
    \<and> t = db\<lparr>st_attempts := st_attempts t, st_seq := st_seq t\<rparr> \<and> st_seq db \<le> st_seq t" using inv by linarith
qed

section \<open>Every operation keeps the store well formed\<close>

definition store_evolves :: "store \<Rightarrow> store \<Rightarrow> bool" where
  "store_evolves db db' \<longleftrightarrow> (\<forall>j\<in>set (st_jobs db). \<exists>j'\<in>set (st_jobs db'). job_evolves j j')
     \<and> (\<forall>r\<in>set (st_outbox db). \<exists>r'\<in>set (st_outbox db'). outbox_evolves r r')"

lemma store_evolvesI:
  "list_all2 job_evolves (st_jobs db) (st_jobs db') \<Longrightarrow> list_all2 outbox_evolves (st_outbox db) (st_outbox db')
    \<Longrightarrow> store_evolves db db'"
  unfolding store_evolves_def using list_all2_set1 by metis

lemma store_evolves_refl [simp]: "store_evolves db db"
  unfolding store_evolves_def by (meson job_evolves_refl outbox_evolves_refl)

lemma store_evolves_trans: "store_evolves a b \<Longrightarrow> store_evolves b c \<Longrightarrow> store_evolves a c"
  unfolding store_evolves_def by (meson job_evolves_trans outbox_evolves_trans)

definition job_change :: "(job \<Rightarrow> bool) \<Rightarrow> (job \<Rightarrow> job) \<Rightarrow> job list \<Rightarrow> bool" where
  "job_change p f jobs \<longleftrightarrow> (\<forall>j\<in>set jobs. p j \<longrightarrow> row_ok (f j) \<and> job_evolves j (f j)
     \<and> (lf_fencing j < lf_fencing (f j) \<or> lf_state (f j) \<noteq> Leased))"

lemma job_update_ok:
  assumes ok: "store_ok db" and ch: "job_change p f (st_jobs db)"
    and jobs: "jobs = update_where p f (st_jobs db)"
    and after: "job_attempts_ok (st_attempts db) jobs \<Longrightarrow> job_attempts_ok (st_attempts db') jobs
      \<and> db' = db\<lparr>st_jobs := jobs\<rparr>\<lparr>st_attempts := st_attempts db', st_seq := st_seq db'\<rparr> \<and> st_seq db \<le> st_seq db'"
  shows "store_ok db' \<and> store_evolves db db'"
proof -
  have ev: "list_all2 job_evolves (st_jobs db) jobs"
    unfolding jobs by (rule update_evolves) (use ch in \<open>auto simp: job_change_def\<close>)
  have "list_all2 (\<lambda>j j'. lf_fencing j < lf_fencing j' \<or> (lf_state j' = Leased \<longrightarrow> j' = j)) (st_jobs db) jobs"
    unfolding jobs by (rule update_evolves) (use ch in \<open>auto simp: job_change_def\<close>)
  with ok ev have "job_attempts_ok (st_attempts db) jobs"
    using job_attempts_step by (auto simp: store_ok_def)
  from after [OF this] have a: "job_attempts_ok (st_attempts db') jobs" "st_seq db \<le> st_seq db'"
    and db': "db' = db\<lparr>st_jobs := jobs, st_attempts := st_attempts db', st_seq := st_seq db'\<rparr>" by auto
  have ids: "map lf_id jobs = map lf_id (st_jobs db)" by (rule evolves_map [OF ev]) (simp add: job_evolves_def)
  have "table_ok lf_id row_ok (st_seq db) jobs"
    by (rule table_ok_change [OF _ ids])
       (use ok ch in \<open>auto simp: jobs store_ok_def table_ok_def job_change_def dest!: update_where_cases\<close>)
  from store_ok_jobs [OF ok this ev a] have "store_ok db'" by (subst db')
  moreover have "store_evolves db db'"
    by (rule store_evolvesI) (subst db', simp add: ev list.rel_refl)+
  ultimately show ?thesis ..
qed

lemma outbox_update_ok:
  assumes ok: "store_ok db" and ch: "\<And>r. r \<in> set (st_outbox db) \<Longrightarrow> p r \<Longrightarrow> row_ok (f r) \<and> outbox_evolves r (f r)"
  shows "store_ok (db\<lparr>st_outbox := update_where p f (st_outbox db)\<rparr>)
    \<and> store_evolves db (db\<lparr>st_outbox := update_where p f (st_outbox db)\<rparr>)"
proof -
  have ev: "list_all2 outbox_evolves (st_outbox db) (update_where p f (st_outbox db))"
    by (rule update_evolves) (use ch in auto)
  have ids: "map lf_id (update_where p f (st_outbox db)) = map lf_id (st_outbox db)"
    by (rule evolves_map [OF ev]) (simp add: outbox_evolves_def)
  have "table_ok lf_id row_ok (st_seq db) (update_where p f (st_outbox db))"
    by (rule table_ok_change [OF _ ids])
       (use ok ch in \<open>auto simp: store_ok_def table_ok_def dest!: update_where_cases\<close>)
  from store_ok_outbox [OF ok this ev] show ?thesis
    by (auto intro!: store_evolvesI simp: ev list.rel_refl)
qed

lemma row_ok_in: "store_ok db \<Longrightarrow> j \<in> set (st_jobs db) \<Longrightarrow> row_ok j"
  and outbox_row_ok_in: "store_ok db \<Longrightarrow> r \<in> set (st_outbox db) \<Longrightarrow> row_ok r"
  by (auto simp: store_ok_def table_ok_def)

lemma take_lease_job: "row_ok j \<Longrightarrow> due now j \<Longrightarrow> row_ok (take_lease owner ms now j)
    \<and> job_evolves j (take_lease owner ms now j) \<and> lf_fencing j < lf_fencing (take_lease owner ms now j)"
  using taking.ok_upd [of j now owner ms] by (auto simp: job_evolves_def take_lease_def due_def)

lemma leased_row: "lf_state j = Leased \<Longrightarrow> lf_state j \<noteq> Completed" by simp

lemma record_after:
  assumes "record_attempts out code now rows (db\<lparr>st_jobs := jobs\<rparr>) = Inr db'"
    and "\<And>r. r \<in> set rows \<Longrightarrow> r \<in> set jobs \<and> (lf_state r = Leased \<longrightarrow> out = ALeased)"
    and "job_attempts_ok (st_attempts db) jobs"
  shows "job_attempts_ok (st_attempts db') jobs
    \<and> db' = db\<lparr>st_jobs := jobs\<rparr>\<lparr>st_attempts := st_attempts db', st_seq := st_seq db'\<rparr> \<and> st_seq db \<le> st_seq db'"
  using record_attempts_ok [OF assms(1), of jobs] assms(2,3) by (fastforce simp: attempt_fits_def)

lemma claimJobByOperation_ok:
  assumes "claimJobByOperation schema now q op owner ms g db = Inr (l, db')" and ok: "store_ok db"
  shows "store_ok db' \<and> store_evolves db db'"
proof (cases "db' = db")
  case False
  let ?p = "\<lambda>j. job_due q g now j \<and> jb_operation j = op"
  let ?jobs = "update_where ?p (take_lease owner ms now) (st_jobs db)"
  from assms(1) False obtain r rs where r: "filter ?p (st_jobs db) = r # rs"
    and rec: "record_attempts ALeased None now [take_lease owner ms now r] (db\<lparr>st_jobs := ?jobs\<rparr>) = Inr db'"
    by (auto simp: claimJobByOperation_def Let_def res_simps split: if_splits list.splits)
  have mem: "r \<in> set (st_jobs db) \<and> ?p r" using r by (auto dest!: Cons_eq_filterD [OF sym])
  show ?thesis
  proof (rule job_update_ok [OF ok _ refl])
    show "job_change ?p (take_lease owner ms now) (st_jobs db)"
      using row_ok_in [OF ok] take_lease_job by (auto simp: job_change_def job_due_def)
    show "job_attempts_ok (st_attempts db') ?jobs
      \<and> db' = db\<lparr>st_jobs := ?jobs\<rparr>\<lparr>st_attempts := st_attempts db', st_seq := st_seq db'\<rparr> \<and> st_seq db \<le> st_seq db'"
      if "job_attempts_ok (st_attempts db) ?jobs"
      by (rule record_after [OF rec _ that]) (use mem in \<open>auto simp: update_where_def\<close>)
  qed
qed (simp add: ok)

lemma in_rows_filter:
  "r \<in> set (map f (filter p rows)) \<Longrightarrow> r \<in> set (update_where p f rows) \<and> (\<exists>q\<in>set rows. p q \<and> r = f q)"
  by (auto simp: update_where_def)

lemma distinct_job_ids: "store_ok db \<Longrightarrow> distinct (map lf_id (st_jobs db))"
  and distinct_outbox_ids: "store_ok db \<Longrightarrow> distinct (map lf_id (st_outbox db))"
  by (auto simp: store_ok_def table_ok_def)

lemma claimJobs_ok:
  assumes "claimJobs schema now locked q owner limit ms g mode db = Inr (ls, db')" and ok: "store_ok db"
  shows "store_ok db' \<and> store_evolves db db'"
proof (cases "db' = db")
  case False
  let ?p = "\<lambda>j. lf_id j \<in> set (select_ids lf_id lf_next (job_due q g now) locked limit (st_jobs db))"
  let ?jobs = "update_where ?p (take_lease owner ms now) (st_jobs db)"
  from assms(1) False have rec: "record_attempts ALeased None now (map (take_lease owner ms now) (filter ?p (st_jobs db)))
      (db\<lparr>st_jobs := ?jobs\<rparr>) = Inr db'"
    by (auto simp: claimJobs_def Let_def res_simps split: if_splits)
  have due: "due now j" if "j \<in> set (st_jobs db)" "?p j" for j
    using select_ids_row [OF distinct_job_ids [OF ok] that] by (simp add: job_due_def)
  show ?thesis
  proof (rule job_update_ok [OF ok _ refl])
    show "job_change ?p (take_lease owner ms now) (st_jobs db)"
      using row_ok_in [OF ok] take_lease_job due by (auto simp: job_change_def)
    show "job_attempts_ok (st_attempts db') ?jobs
      \<and> db' = db\<lparr>st_jobs := ?jobs\<rparr>\<lparr>st_attempts := st_attempts db', st_seq := st_seq db'\<rparr> \<and> st_seq db \<le> st_seq db'"
      if "job_attempts_ok (st_attempts db) ?jobs"
      by (rule record_after [OF rec _ that]) (intro conjI impI refl, erule conjunct1 [OF in_rows_filter])
  qed
qed (simp add: ok)

lemma expire_lease_job: "row_ok j \<Longrightarrow> lf_state j = Leased \<Longrightarrow> row_ok (expire_lease now j)
    \<and> job_evolves j (expire_lease now j) \<and> lf_state (expire_lease now j) \<noteq> Leased"
  using expiring.ok_upd [of j now] by (auto simp: job_evolves_def expire_lease_def)

lemma recoverExpiredLeases_ok:
  assumes "recoverExpiredLeases schema now locked q limit g db = Inr (n, db')" and ok: "store_ok db"
  shows "store_ok db' \<and> store_evolves db db'"
proof -
  let ?p = "\<lambda>j. lf_id j \<in> set (select_ids lf_id lease_expiry (\<lambda>j. jb_queue j = q \<and> expired now j \<and> jb_generation j = g)
                 locked limit (st_jobs db))"
  let ?jobs = "update_where ?p (expire_lease now) (st_jobs db)"
  from assms(1) have rec: "record_attempts AExpired (Some ''lease_expired'') now
      (map (expire_lease now) (filter ?p (st_jobs db))) (db\<lparr>st_jobs := ?jobs\<rparr>) = Inr db'"
    by (auto simp: recoverExpiredLeases_def Let_def res_simps)
  have leased: "lf_state j = Leased" if "j \<in> set (st_jobs db)" "?p j" for j
    using select_ids_row [OF distinct_job_ids [OF ok] that] by (simp add: expired_def)
  show ?thesis
  proof (rule job_update_ok [OF ok _ refl])
    show "job_change ?p (expire_lease now) (st_jobs db)"
      using row_ok_in [OF ok] expire_lease_job leased by (auto simp: job_change_def)
    show "job_attempts_ok (st_attempts db') ?jobs
      \<and> db' = db\<lparr>st_jobs := ?jobs\<rparr>\<lparr>st_attempts := st_attempts db', st_seq := st_seq db'\<rparr> \<and> st_seq db \<le> st_seq db'"
      if a: "job_attempts_ok (st_attempts db) ?jobs"
    proof (rule record_after [OF rec _ a])
      fix r assume "r \<in> set (map (expire_lease now) (filter ?p (st_jobs db)))"
      then show "r \<in> set ?jobs \<and> (lf_state r = Leased \<longrightarrow> AExpired = ALeased)"
        using in_rows_filter [of r "expire_lease now" ?p "st_jobs db"] expire_lease_job row_ok_in [OF ok] leased by blast
    qed
  qed
qed

lemma completeJob_returns:
  assumes "completeJob schema now l owner digest db = Inr (done, db')"
  shows "(\<not> done \<and> db' = db \<and> \<not> (\<exists>j\<in>set (st_jobs db). lease_guard l owner j \<and> unexpired now j)) \<or>
    (done \<and> (\<exists>j\<in>set (st_jobs db). lease_guard l owner j \<and> unexpired now j) \<and>
      insert_attempt (ls_id l) (ls_queue l) (ls_fencing l) (ls_attempt l) ASucceeded None now
        (db\<lparr>st_jobs := update_where (\<lambda>j. lease_guard l owner j \<and> unexpired now j)
           (\<lambda>j. finish_lease now j\<lparr>jb_result := Some digest\<rparr>) (st_jobs db)\<rparr>) = Inr db')"
  using assms by (auto simp: completeJob_def Let_def res_simps list_ex_iff split: if_splits)

lemma insert_after:
  assumes "insert_attempt i q f n out code now (db\<lparr>st_jobs := jobs\<rparr>) = Inr db'"
    and "j \<in> set jobs" "i = lf_id j" "f = lf_fencing j" "lf_state j \<noteq> Leased"
    and "job_attempts_ok (st_attempts db) jobs"
  shows "job_attempts_ok (st_attempts db') jobs
    \<and> db' = db\<lparr>st_jobs := jobs\<rparr>\<lparr>st_attempts := st_attempts db', st_seq := st_seq db'\<rparr> \<and> st_seq db \<le> st_seq db'"
  using insert_attempt_ok [OF assms(1), of jobs] assms(2-) by (auto simp: attempt_fits_def)

lemma guarded_job: "lease_guard l owner j \<Longrightarrow> lf_state j = Leased \<and> lf_id j = ls_id l \<and> lf_fencing j = ls_fencing l
    \<and> lf_owner j = Some owner \<and> jb_generation j = ls_generation l"
  by (simp add: lease_guard_def lease_held_def)

lemma completeJob_ok:
  assumes run: "completeJob schema now l owner digest db = Inr (done, db')" and ok: "store_ok db"
  shows "store_ok db' \<and> store_evolves db db'"
proof (cases "done")
  case True
  let ?p = "\<lambda>j. lease_guard l owner j \<and> unexpired now j"
  let ?f = "\<lambda>j. finish_lease now j\<lparr>jb_result := Some digest\<rparr>"
  let ?jobs = "update_where ?p ?f (st_jobs db)"
  from completeJob_returns [OF run] True obtain j where j: "j \<in> set (st_jobs db)" "?p j"
    and ins: "insert_attempt (ls_id l) (ls_queue l) (ls_fencing l) (ls_attempt l) ASucceeded None now
        (db\<lparr>st_jobs := ?jobs\<rparr>) = Inr db'" by auto
  show ?thesis
  proof (rule job_update_ok [OF ok _ refl])
    show "job_change ?p ?f (st_jobs db)"
      unfolding job_change_def
    proof (intro ballI impI)
      fix j assume "j \<in> set (st_jobs db)" "?p j"
      then have "row_ok j" "lf_state j = Leased" using row_ok_in [OF ok] guarded_job by blast+
      with completing_job.ok_upd show "row_ok (?f j) \<and> job_evolves j (?f j) \<and> (lf_fencing j < lf_fencing (?f j) \<or> lf_state (?f j) \<noteq> Leased)"
        by (auto simp: job_evolves_def finish_lease_def)
    qed
    have "?f j \<in> set ?jobs" using j by (force simp: update_where_def)
    then show "job_attempts_ok (st_attempts db') ?jobs
      \<and> db' = db\<lparr>st_jobs := ?jobs\<rparr>\<lparr>st_attempts := st_attempts db', st_seq := st_seq db'\<rparr> \<and> st_seq db \<le> st_seq db'"
      if "job_attempts_ok (st_attempts db) ?jobs"
      by (rule insert_after [OF ins _ _ _ _ that]) (use guarded_job j in \<open>auto simp: finish_lease_def\<close>)
  qed
qed (use completeJob_returns [OF run] ok in auto)

text \<open>
  A lease as the queue hands it out: its attempt number is its fencing token, and the bound and the
  identity are those of the row.
\<close>

definition genuine_lease :: "store \<Rightarrow> lease \<Rightarrow> bool" where
  "genuine_lease db l \<longleftrightarrow> ls_attempt l = ls_fencing l \<and> (\<exists>j\<in>set (st_jobs db). lf_id j = ls_id l \<and> lf_max j = ls_maxAttempts l
     \<and> jb_operation j = ls_operationId l \<and> jb_queue j = ls_queue l \<and> jb_generation j = ls_generation l
     \<and> ls_fencing l \<le> lf_fencing j)"

definition genuine_outbox_lease :: "store \<Rightarrow> outbox_lease \<Rightarrow> bool" where
  "genuine_outbox_lease db l \<longleftrightarrow> ol_attempt l = ol_fencing l \<and> (\<exists>r\<in>set (st_outbox db). lf_id r = ol_id l
     \<and> lf_max r = ol_maxAttempts l \<and> ol_fencing l \<le> lf_fencing r)"

lemma genuine_lease_evolves: "genuine_lease db l \<Longrightarrow> store_evolves db db' \<Longrightarrow> genuine_lease db' l"
  unfolding genuine_lease_def store_evolves_def job_evolves_def by (metis order.trans)

lemma genuine_outbox_lease_evolves: "genuine_outbox_lease db l \<Longrightarrow> store_evolves db db' \<Longrightarrow> genuine_outbox_lease db' l"
  unfolding genuine_outbox_lease_def store_evolves_def outbox_evolves_def by (metis order.trans)

lemma genuine_outcome:
  assumes "genuine_lease db l" "store_ok db" "j \<in> set (st_jobs db)" "lease_guard l owner j"
  shows "lease_outcome (ls_attempt l) (ls_maxAttempts l) = lease_outcome (lf_attempt j) (lf_max j)"
proof -
  from assms(1) obtain k where k: "ls_attempt l = ls_fencing l" "k \<in> set (st_jobs db)" "lf_id k = ls_id l" "lf_max k = ls_maxAttempts l"
    unfolding genuine_lease_def by blast
  have "k = j" by (rule distinct_map_eq [OF distinct_job_ids [OF assms(2)] k(2) assms(3)])
      (use k(3) guarded_job [OF assms(4)] in simp)
  with k row_ok_in [OF assms(2,3)] guarded_job [OF assms(4)] show ?thesis by (simp add: row_ok_def)
qed

lemma fail_lease_job: "row_ok j \<Longrightarrow> lf_state j = Leased \<Longrightarrow> out = lease_outcome (lf_attempt j) (lf_max j)
    \<Longrightarrow> row_ok (fail_lease out code delay now j) \<and> job_evolves j (fail_lease out code delay now j)
      \<and> lf_state (fail_lease out code delay now j) \<noteq> Leased"
  using failing.ok_upd [of j out code delay now] by (auto simp: job_evolves_def fail_lease_def lease_outcome_def)

lemma failJob_returns:
  assumes "failJob schema now l owner code db = Inr (res, db')"
  shows "(res = FStale \<and> db' = db \<and> \<not> (\<exists>j\<in>set (st_jobs db). lease_guard l owner j)) \<or>
    (\<exists>delay out. out = lease_outcome (ls_attempt l) (ls_maxAttempts l) \<and> retryDelayMs (int (ls_attempt l)) = Inr delay
      \<and> res = (if out = Dead then FDead else FRetry)
      \<and> (\<exists>j\<in>set (st_jobs db). lease_guard l owner j) \<and>
      insert_attempt (ls_id l) (ls_queue l) (ls_fencing l) (ls_attempt l) (if out = Dead then ADead else ARetry) (Some code) now
        (db\<lparr>st_jobs := update_where (lease_guard l owner) (fail_lease out code delay now) (st_jobs db)\<rparr>) = Inr db')"
  using assms by (auto simp: failJob_def Let_def res_simps list_ex_iff split del: if_split split: if_split_asm)

lemma failJob_ok:
  assumes run: "failJob schema now l owner code db = Inr (res, db')" and ok: "store_ok db" and gen: "genuine_lease db l"
  shows "store_ok db' \<and> store_evolves db db'"
  using failJob_returns [OF run]
proof (elim disjE exE conjE bexE)
  fix delay out j
  let ?jobs = "update_where (lease_guard l owner) (fail_lease out code delay now) (st_jobs db)"
  assume out: "out = lease_outcome (ls_attempt l) (ls_maxAttempts l)" and j: "j \<in> set (st_jobs db)" "lease_guard l owner j"
    and ins: "insert_attempt (ls_id l) (ls_queue l) (ls_fencing l) (ls_attempt l) (if out = Dead then ADead else ARetry) (Some code) now
        (db\<lparr>st_jobs := ?jobs\<rparr>) = Inr db'"
  have f: "row_ok (fail_lease out code delay now k) \<and> job_evolves k (fail_lease out code delay now k)
      \<and> lf_state (fail_lease out code delay now k) \<noteq> Leased" if "k \<in> set (st_jobs db)" "lease_guard l owner k" for k
    using fail_lease_job [OF row_ok_in [OF ok that(1)]] guarded_job [OF that(2)] genuine_outcome [OF gen ok that] out by metis
  show ?thesis
  proof (rule job_update_ok [OF ok _ refl])
    show "job_change (lease_guard l owner) (fail_lease out code delay now) (st_jobs db)"
      using f by (auto simp: job_change_def)
    have "fail_lease out code delay now j \<in> set ?jobs" using j by (force simp: update_where_def)
    then show "job_attempts_ok (st_attempts db') ?jobs
      \<and> db' = db\<lparr>st_jobs := ?jobs\<rparr>\<lparr>st_attempts := st_attempts db', st_seq := st_seq db'\<rparr> \<and> st_seq db \<le> st_seq db'"
      if "job_attempts_ok (st_attempts db) ?jobs"
      by (rule insert_after [OF ins _ _ _ _ that]) (use guarded_job [OF j(2)] f [OF j] in \<open>auto simp: fail_lease_def\<close>)
  qed
qed (simp add: ok)

text \<open>The outbox.\<close>

lemma claimOutbox_ok:
  assumes run: "claimOutbox schema now locked q owner limit ms g db = Inr (ls, db')" and ok: "store_ok db"
  shows "store_ok db' \<and> store_evolves db db'"
proof (cases "db' = db")
  case False
  let ?p = "\<lambda>r. lf_id r \<in> set (select_ids lf_id lf_next (\<lambda>r. ox_queue r = q \<and> due now r \<and> of_generation db g r) locked limit (st_outbox db))"
  from run False have db': "db' = db\<lparr>st_outbox := update_where ?p (take_lease owner ms now) (st_outbox db)\<rparr>"
    by (auto simp: claimOutbox_def Let_def res_simps split: if_splits)
  show ?thesis unfolding db'
  proof (rule outbox_update_ok [OF ok])
    fix r assume r: "r \<in> set (st_outbox db)" "?p r"
    have "due now r" using select_ids_row [OF distinct_outbox_ids [OF ok] r] by simp
    with taking.ok_upd [OF outbox_row_ok_in [OF ok r(1)]] show "row_ok (take_lease owner ms now r)
        \<and> outbox_evolves r (take_lease owner ms now r)"
      by (auto simp: outbox_evolves_def take_lease_def due_def)
  qed
qed (simp add: ok)

lemma completeOutbox_ok:
  assumes run: "completeOutbox schema now l owner mid db = Inr (done, db')" and ok: "store_ok db"
  shows "store_ok db' \<and> store_evolves db db'"
proof -
  from run have db': "db' = db\<lparr>st_outbox := update_where (\<lambda>r. lease_held (ol_id l) owner (ol_fencing l) r \<and> unexpired now r)
      (\<lambda>r. finish_lease now r\<lparr>ox_provider := Some mid\<rparr>) (st_outbox db)\<rparr>"
    by (auto simp: completeOutbox_def Let_def res_simps)
  show ?thesis unfolding db'
  proof (rule outbox_update_ok [OF ok])
    fix r assume r: "r \<in> set (st_outbox db)" "lease_held (ol_id l) owner (ol_fencing l) r \<and> unexpired now r"
    then show "row_ok (finish_lease now r\<lparr>ox_provider := Some mid\<rparr>) \<and> outbox_evolves r (finish_lease now r\<lparr>ox_provider := Some mid\<rparr>)"
      using completing_outbox.ok_upd [OF outbox_row_ok_in [OF ok r(1)]]
      by (auto simp: lease_held_def outbox_evolves_def finish_lease_def)
  qed
qed

lemma failOutbox_ok:
  assumes run: "failOutbox schema now l owner code db = Inr (res, db')" and ok: "store_ok db" and gen: "genuine_outbox_lease db l"
  shows "store_ok db' \<and> store_evolves db db'"
proof -
  define out where "out = lease_outcome (ol_attempt l) (ol_maxAttempts l)"
  from run obtain delay where db': "db' = db\<lparr>st_outbox := update_where (lease_held (ol_id l) owner (ol_fencing l))
      (fail_lease out code delay now) (st_outbox db)\<rparr>"
    by (auto simp: failOutbox_def Let_def res_simps out_def)
  show ?thesis unfolding db'
  proof (rule outbox_update_ok [OF ok])
    fix r assume r: "r \<in> set (st_outbox db)" "lease_held (ol_id l) owner (ol_fencing l) r"
    from gen obtain q where q: "ol_attempt l = ol_fencing l" "q \<in> set (st_outbox db)" "lf_id q = ol_id l" "lf_max q = ol_maxAttempts l"
      unfolding genuine_outbox_lease_def by blast
    have "q = r" by (rule distinct_map_eq [OF distinct_outbox_ids [OF ok] q(2) r(1)])
        (use q(3) r(2) in \<open>simp add: lease_held_def\<close>)
    then have "out = lease_outcome (lf_attempt r) (lf_max r)"
      using q r(2) outbox_row_ok_in [OF ok r(1)] by (simp add: out_def lease_held_def row_ok_def)
    then show "row_ok (fail_lease out code delay now r) \<and> outbox_evolves r (fail_lease out code delay now r)"
      using failing.ok_upd [OF outbox_row_ok_in [OF ok r(1)], of out code delay now] r(2)
      by (auto simp: outbox_evolves_def fail_lease_def lease_held_def)
  qed
qed

lemma recoverExpiredOutboxLeases_ok:
  assumes run: "recoverExpiredOutboxLeases schema now locked q limit g db = Inr (n, db')" and ok: "store_ok db"
  shows "store_ok db' \<and> store_evolves db db'"
proof -
  let ?p = "\<lambda>r. lf_id r \<in> set (select_ids lf_id lease_expiry (\<lambda>r. ox_queue r = q \<and> expired now r \<and> of_generation db g r) locked limit (st_outbox db))"
  from run have db': "db' = db\<lparr>st_outbox := update_where ?p (expire_lease now) (st_outbox db)\<rparr>"
    by (auto simp: recoverExpiredOutboxLeases_def Let_def res_simps)
  show ?thesis unfolding db'
  proof (rule outbox_update_ok [OF ok])
    fix r assume r: "r \<in> set (st_outbox db)" "?p r"
    have "lf_state r = Leased" using select_ids_row [OF distinct_outbox_ids [OF ok] r] by (simp add: expired_def)
    with expiring.ok_upd [OF outbox_row_ok_in [OF ok r(1)], of now] show "row_ok (expire_lease now r) \<and> outbox_evolves r (expire_lease now r)"
      by (auto simp: outbox_evolves_def expire_lease_def)
  qed
qed

lemma store_evolves_grow:
  "set (st_jobs db) \<subseteq> set (st_jobs db') \<Longrightarrow> set (st_outbox db) \<subseteq> set (st_outbox db') \<Longrightarrow> store_evolves db db'"
  unfolding store_evolves_def using job_evolves_refl outbox_evolves_refl by blast

lemma store_ok_append_outbox:
  assumes ok: "store_ok db" and ids: "distinct (map lf_id new)"
    and new: "\<And>r. r \<in> set new \<Longrightarrow> row_ok r \<and> st_seq db \<le> lf_id r \<and> lf_id r < n"
    and op: "\<And>r. r \<in> set new \<Longrightarrow> \<exists>j\<in>set (st_jobs db). jb_operation j = ox_operation r \<and> jb_queue j = ox_queue r
       \<and> (\<exists>g. map_of (st_generations db) (jb_queue j) = Some g \<and> jb_generation j = gr_active g)"
    and n: "st_seq db \<le> n"
  shows "store_ok (db\<lparr>st_outbox := st_outbox db @ new, st_seq := n\<rparr>)"
proof -
  have tab: "table_ok lf_id row_ok n (st_outbox db @ new)"
  proof -
    have "lf_id r \<noteq> lf_id q" if "r \<in> set (st_outbox db)" "q \<in> set new" for r q
      using ok new [OF that(2)] that(1) by (fastforce simp: store_ok_def table_ok_def)
    then have "set (map lf_id (st_outbox db)) \<inter> set (map lf_id new) = {}" by auto
    with ok ids new n show ?thesis by (fastforce simp: store_ok_def table_ok_def)
  qed
  have "\<exists>g. map_of (st_generations db) (jb_queue j) = Some g \<and> 0 \<le> jb_generation j \<and> jb_generation j \<le> gr_active g
      \<and> (jb_generation j < gr_active g \<longrightarrow> lf_state j = Completed
        \<and> (\<forall>r\<in>set (st_outbox db @ new). ox_operation r = jb_operation j \<longrightarrow> lf_state r = Completed))"
    if j: "j \<in> set (st_jobs db)" for j
  proof -
    from ok j obtain g where g: "map_of (st_generations db) (jb_queue j) = Some g" "0 \<le> jb_generation j" "jb_generation j \<le> gr_active g"
      "jb_generation j < gr_active g \<longrightarrow> lf_state j = Completed
        \<and> (\<forall>r\<in>set (st_outbox db). ox_operation r = jb_operation j \<longrightarrow> lf_state r = Completed)"
      unfolding store_ok_def generations_ok_def by blast
    have "ox_operation r \<noteq> jb_operation j" if "jb_generation j < gr_active g" "r \<in> set new" for r
    proof
      assume e: "ox_operation r = jb_operation j"
      from op [OF that(2)] obtain k h where k: "k \<in> set (st_jobs db)" "jb_operation k = ox_operation r"
        "map_of (st_generations db) (jb_queue k) = Some h" "jb_generation k = gr_active h" by blast
      have "k = j" by (rule distinct_map_eq [where f = jb_operation, OF _ k(1) j]) (use ok k(2) e in \<open>auto simp: store_ok_def\<close>)
      with k g(1) that(1) show False by simp
    qed
    with g show ?thesis by auto
  qed
  moreover have "map fst (st_generations db) = [Chain, Content]" using ok by (simp add: store_ok_def generations_ok_def)
  ultimately have gens: "generations_ok (db\<lparr>st_outbox := st_outbox db @ new, st_seq := n\<rparr>)"
    unfolding generations_ok_def by simp
  have ops: "\<exists>j\<in>set (st_jobs db). jb_operation j = ox_operation r \<and> jb_queue j = ox_queue r" if "r \<in> set (st_outbox db @ new)" for r
  proof (cases "r \<in> set new")
    case True
    with op [OF True] show ?thesis by blast
  next
    case False
    with that have "r \<in> set (st_outbox db)" by simp
    with ok show ?thesis unfolding store_ok_def by blast
  qed
  show ?thesis using ok tab ops gens table_ok_mono [OF _ n, of lf_id row_ok "st_jobs db"] unfolding store_ok_def by simp
qed

lemma active_generation:
  "assertActiveGeneration q g db = Inr () \<Longrightarrow> 0 \<le> g \<and> (\<exists>r. map_of (st_generations db) q = Some r \<and> gr_active r = g)"
  by (auto simp: assertActiveGeneration_def split: if_splits option.splits)

lemma requeue_rows_ids:
  fixes rows :: "nat \<Rightarrow> job list \<Rightarrow> outbox list"
  assumes "rows = (\<lambda>k jobs. concat (map (\<lambda>(i, j). requeue_row q now out (base + i) j) (enumerate k jobs)))"
  shows "distinct (map lf_id (rows k jobs)) \<and> (\<forall>r\<in>set (rows k jobs). base + k \<le> lf_id r \<and> lf_id r < base + k + length jobs)"
proof (induction jobs arbitrary: k)
  case (Cons j jobs)
  have "rows k (j # jobs) = requeue_row q now out (base + k) j @ rows (Suc k) jobs" by (simp add: assms)
  moreover have "\<forall>r\<in>set (requeue_row q now out (base + k) j). lf_id r = base + k" "distinct (map lf_id (requeue_row q now out (base + k) j))"
    by (auto simp: requeue_row_def new_outbox_def split: option.splits)
  ultimately show ?case using Cons [of "Suc k"] by fastforce
qed (simp add: assms)

lemma requeueDueJobs_ok:
  assumes run: "requeueDueJobs schema now locked q limit g db = Inr (n, db')" and ok: "store_ok db"
  shows "store_ok db' \<and> store_evolves db db'"
proof -
  define p :: "job \<Rightarrow> bool" where "p = (\<lambda>j. jb_queue j = q \<and> lf_state j = Retry \<and> lf_next j \<le> now \<and> jb_generation j = g
            \<and> \<not> list_ex (\<lambda>r. ox_operation r = jb_operation j \<and> is_active r) (st_outbox db))"
  define jobs where "jobs = filter (\<lambda>j. lf_id j \<in> set (select_ids lf_id lf_next p locked limit (st_jobs db))) (st_jobs db)"
  define new where "new = concat (map (\<lambda>(i, j). requeue_row q now (st_outbox db) (st_seq db + i) j) (enumerate 0 jobs))"
  from run have g: "assertActiveGeneration q g db = Inr ()"
    and db': "db' = db\<lparr>st_outbox := st_outbox db @ new, st_seq := st_seq db + length jobs\<rparr>"
    unfolding requeueDueJobs_def Let_def res_simps p_def jobs_def new_def by auto
  have ids: "distinct (map lf_id new)" "\<forall>r\<in>set new. st_seq db \<le> lf_id r \<and> lf_id r < st_seq db + length jobs"
    using requeue_rows_ids [OF refl, of q now "st_outbox db" "st_seq db" 0 jobs] by (auto simp: new_def)
  have src: "\<exists>j\<in>set jobs. \<exists>i dest. r = new_outbox (jb_operation j) q dest (jb_digest j) (jb_kind j) (lf_max j) i now"
    if "r \<in> set new" for r
    using that by (auto simp: new_def requeue_row_def in_set_enumerate_eq split: option.splits) (metis nth_mem)
  have pj: "j \<in> set (st_jobs db) \<and> p j" if "j \<in> set jobs" for j
    using that select_ids_row [OF distinct_job_ids [OF ok]] by (auto simp: jobs_def)
  have "store_ok db'"
    unfolding db'
  proof (rule store_ok_append_outbox [OF ok ids(1)])
    fix r assume r: "r \<in> set new"
    with src obtain j i dest where j: "j \<in> set jobs"
      and re: "r = new_outbox (jb_operation j) q dest (jb_digest j) (jb_kind j) (lf_max j) i now" by blast
    have "row_ok j" using row_ok_in [OF ok] pj [OF j] by blast
    then have "row_ok r" by (auto simp: re new_outbox_def row_ok_def)
    with ids r show "row_ok r \<and> st_seq db \<le> lf_id r \<and> lf_id r < st_seq db + length jobs" by blast
    show "\<exists>j\<in>set (st_jobs db). jb_operation j = ox_operation r \<and> jb_queue j = ox_queue r
       \<and> (\<exists>g. map_of (st_generations db) (jb_queue j) = Some g \<and> jb_generation j = gr_active g)"
      using pj [OF j] active_generation [OF g] by (intro bexI [of _ j]) (auto simp: re new_outbox_def p_def)
  qed simp
  moreover have "store_evolves db db'"
    by (rule store_evolves_grow) (auto simp: db')
  ultimately show ?thesis ..
qed

lemma new_job_max [simp]: "lf_max (new_job m digest i now) = nat (case em_maxAttempts m of None \<Rightarrow> 8 | Some n \<Rightarrow> n)"
  by (simp add: new_job_def)

lemma enqueue_returns:
  assumes "enqueueReliableMessage h schema now m db = Inr (res, db')"
  shows "check_message schema m = Inr () \<and>
    assertActiveGeneration (em_queue m) (case em_generation m of None \<Rightarrow> 0 | Some g \<Rightarrow> g) db = Inr () \<and>
    ((er_duplicate res \<and> db' = db \<and> (\<exists>i. find (\<lambda>i. ib_queue i = em_queue m \<and> ib_external i = em_externalId m) (st_inbox db) = Some i
        \<and> ib_digest i = h (em_rawBody m) \<and> er_inboxId res = ib_id i)
      \<and> (\<exists>rest. prior_rows m (h (em_rawBody m)) db = (er_jobId res, er_outboxId res) # rest)) \<or>
    (\<not> er_duplicate res \<and> find (\<lambda>i. ib_queue i = em_queue m \<and> ib_external i = em_externalId m) (st_inbox db) = None
      \<and> (\<forall>j\<in>set (st_jobs db). jb_operation j \<noteq> em_operationId m)
      \<and> er_inboxId res = st_seq db \<and> er_jobId res = st_seq db + 1 \<and> er_outboxId res = st_seq db + 2
      \<and> (db' = db\<lparr>st_inbox := st_inbox db @ [new_inbox m (h (em_rawBody m)) (st_seq db) now], st_jobs := st_jobs db @ [new_job m (h (em_rawBody m)) (st_seq db + 1) now],
          st_outbox := st_outbox db @ [new_outbox (em_operationId m) (em_queue m) (em_destinationKey m) (h (em_rawBody m))
             (em_kind m) (nat (case em_maxAttempts m of None \<Rightarrow> 8 | Some n \<Rightarrow> n)) (st_seq db + 2) now], st_seq := st_seq db + 3\<rparr>)))"
  using assms
  unfolding enqueueReliableMessage_def Let_def bindR_eq_Inr
  by (elim exE conjE) (auto simp: list_ex_iff simp del: One_nat_def split: option.split_asm if_split_asm list.split_asm)

lemma check_message_attempts:
  "check_message schema m = Inr () \<Longrightarrow> 1 \<le> (case em_maxAttempts m of None \<Rightarrow> 8 | Some n \<Rightarrow> n)
     \<and> (case em_maxAttempts m of None \<Rightarrow> 8 | Some n \<Rightarrow> n) \<le> 32"
  by (auto simp: check_message_def Let_def res_simps)

lemma store_ok_append_job:
  assumes ok: "store_ok db" and j: "row_ok j" "lf_state j = Pending" "st_seq db \<le> lf_id j" "lf_id j < n"
    and op: "\<forall>k\<in>set (st_jobs db). jb_operation k \<noteq> jb_operation j"
    and g: "map_of (st_generations db) (jb_queue j) = Some g" "jb_generation j = gr_active g" "0 \<le> jb_generation j"
  shows "store_ok (db\<lparr>st_inbox := ib, st_jobs := st_jobs db @ [j], st_seq := n\<rparr>)"
proof -
  have n: "st_seq db \<le> n" using j by simp
  have tab: "table_ok lf_id row_ok n (st_jobs db @ [j])"
    using ok j by (fastforce simp: store_ok_def table_ok_def)
  have ats: "job_attempts_ok (st_attempts db) (st_jobs db @ [j])"
    using ok unfolding store_ok_def job_attempts_ok_def by auto
  have ops: "distinct (map jb_operation (st_jobs db @ [j]))" using ok op by (force simp: store_ok_def)
  have gens: "generations_ok (db\<lparr>st_inbox := ib, st_jobs := st_jobs db @ [j], st_seq := n\<rparr>)"
  proof -
    have "\<exists>g. map_of (st_generations db) (jb_queue k) = Some g \<and> 0 \<le> jb_generation k \<and> jb_generation k \<le> gr_active g
        \<and> (jb_generation k < gr_active g \<longrightarrow> lf_state k = Completed
          \<and> (\<forall>r\<in>set (st_outbox db). ox_operation r = jb_operation k \<longrightarrow> lf_state r = Completed))"
      if "k \<in> set (st_jobs db @ [j])" for k
    proof (cases "k = j")
      case True
      with g show ?thesis by auto
    next
      case False
      with that have "k \<in> set (st_jobs db)" by simp
      with ok show ?thesis unfolding store_ok_def generations_ok_def by blast
    qed
    moreover have "map fst (st_generations db) = [Chain, Content]" using ok by (simp add: store_ok_def generations_ok_def)
    ultimately show ?thesis unfolding generations_ok_def by simp
  qed
  have fk: "\<exists>k\<in>set (st_jobs db @ [j]). jb_operation k = ox_operation r \<and> jb_queue k = ox_queue r" if "r \<in> set (st_outbox db)" for r
    using ok that unfolding store_ok_def by (metis UnI1 set_append)
  show ?thesis using ok tab ats ops gens fk table_ok_mono [OF _ n, of lf_id row_ok "st_outbox db"] unfolding store_ok_def by simp
qed

lemma enqueue_ok:
  assumes run: "enqueueReliableMessage h schema now m db = Inr (res, db')" and ok: "store_ok db"
  shows "store_ok db' \<and> store_evolves db db'"
proof (cases "er_duplicate res")
  case True
  with enqueue_returns [OF run] ok show ?thesis by auto
next
  case False
  let ?max = "nat (case em_maxAttempts m of None \<Rightarrow> 8 | Some n \<Rightarrow> n)"
  let ?j = "new_job m (h (em_rawBody m)) (st_seq db + 1) now"
  let ?o = "new_outbox (em_operationId m) (em_queue m) (em_destinationKey m) (h (em_rawBody m)) (em_kind m) ?max (st_seq db + 2) now"
  from enqueue_returns [OF run] False have chk: "check_message schema m = Inr ()"
    and act: "assertActiveGeneration (em_queue m) (case em_generation m of None \<Rightarrow> 0 | Some g \<Rightarrow> g) db = Inr ()"
    and op: "\<forall>j\<in>set (st_jobs db). jb_operation j \<noteq> em_operationId m"
    and db': "db' = db\<lparr>st_inbox := st_inbox db @ [new_inbox m (h (em_rawBody m)) (st_seq db) now], st_jobs := st_jobs db @ [?j],
          st_outbox := st_outbox db @ [?o], st_seq := st_seq db + 3\<rparr>" by blast+
  from active_generation [OF act] obtain g where g: "map_of (st_generations db) (em_queue m) = Some g"
    "gr_active g = (case em_generation m of None \<Rightarrow> 0 | Some g \<Rightarrow> g)" "0 \<le> gr_active g" by auto
  have max: "1 \<le> ?max" "?max \<le> 32" using check_message_attempts [OF chk] by auto
  have row: "row_ok ?j" "row_ok ?o" using max by (simp_all add: row_ok_def new_job_def new_outbox_def)
  let ?db1 = "db\<lparr>st_inbox := st_inbox db @ [new_inbox m (h (em_rawBody m)) (st_seq db) now], st_jobs := st_jobs db @ [?j], st_seq := st_seq db + 2\<rparr>"
  have ok1: "store_ok ?db1"
    by (rule store_ok_append_job [OF ok row(1)]) (use op g in \<open>auto simp: new_job_def\<close>)
  have "store_ok (?db1\<lparr>st_outbox := st_outbox ?db1 @ [?o], st_seq := st_seq db + 3\<rparr>)"
  proof (rule store_ok_append_outbox [OF ok1])
    fix r assume "r \<in> set [?o]"
    then have r: "r = ?o" by simp
    show "row_ok r \<and> st_seq ?db1 \<le> lf_id r \<and> lf_id r < st_seq db + 3" using row(2) by (simp add: r new_outbox_def)
    show "\<exists>j\<in>set (st_jobs ?db1). jb_operation j = ox_operation r \<and> jb_queue j = ox_queue r
       \<and> (\<exists>g. map_of (st_generations ?db1) (jb_queue j) = Some g \<and> jb_generation j = gr_active g)"
      using g by (intro bexI [of _ ?j]) (auto simp: r new_outbox_def new_job_def)
  qed simp_all
  then have "store_ok db'" by (simp add: db')
  moreover have "store_evolves db db'"
    by (rule store_evolves_grow) (auto simp: db')
  ultimately show ?thesis ..
qed

lemma generation_rows: "generations_ok db \<Longrightarrow> \<exists>a b. st_generations db = [(Chain, a), (Content, b)]"
  by (auto simp: generations_ok_def map_eq_Cons_conv)

lemma advance_returns:
  assumes "advanceQueueGeneration schema q e n db = Inr db'"
  shows "n = e + 1 \<and> assertActiveGeneration q e db = Inr () \<and> \<not> list_ex (undrained q e db) (st_jobs db)
    \<and> db' = db\<lparr>st_generations := map (\<lambda>(q', g). if q' = q \<and> gr_active g = e
                     then (q', g\<lparr>gr_active := n\<rparr>) else (q', g)) (st_generations db)\<rparr>"
  using assms by (auto simp: advanceQueueGeneration_def bindR_eq_Inr split: if_split_asm)

lemma advance_ok:
  assumes run: "advanceQueueGeneration schema q e n db = Inr db'" and ok: "store_ok db"
  shows "store_ok db' \<and> store_evolves db db'"
proof -
  note r = advance_returns [OF run]
  obtain a b where gens: "st_generations db = [(Chain, a), (Content, b)]"
    using generation_rows [of db] ok unfolding store_ok_def by blast
  have drained: "lf_state j = Completed \<and> (\<forall>r\<in>set (st_outbox db). ox_operation r = jb_operation j \<longrightarrow> lf_state r = Completed)"
    if "j \<in> set (st_jobs db)" "jb_queue j = q" "jb_generation j = e" for j
    using r that by (auto simp: list_ex_iff undrained_def)
  have "generations_ok db'"
    unfolding generations_ok_def
  proof (intro conjI ballI)
    show "map fst (st_generations db') = [Chain, Content]" using r gens by simp
    fix j assume "j \<in> set (st_jobs db')"
    then have j: "j \<in> set (st_jobs db)" using r by simp
    from ok j obtain g where g: "map_of (st_generations db) (jb_queue j) = Some g" "0 \<le> jb_generation j" "jb_generation j \<le> gr_active g"
      "jb_generation j < gr_active g \<longrightarrow> lf_state j = Completed
        \<and> (\<forall>r\<in>set (st_outbox db). ox_operation r = jb_operation j \<longrightarrow> lf_state r = Completed)"
      unfolding store_ok_def generations_ok_def by blast
    show "\<exists>g. map_of (st_generations db') (jb_queue j) = Some g \<and> 0 \<le> jb_generation j \<and> jb_generation j \<le> gr_active g
          \<and> (jb_generation j < gr_active g \<longrightarrow> lf_state j = Completed
               \<and> (\<forall>r\<in>set (st_outbox db'). ox_operation r = jb_operation j \<longrightarrow> lf_state r = Completed))"
    proof (cases "jb_queue j = q")
      case True
      have e: "gr_active g = e" using active_generation [of q e db] r g(1) True by auto
      have "map_of (st_generations db') q = Some (g\<lparr>gr_active := n\<rparr>)"
        using r gens g(1) True e by (cases q) auto
      with g drained [OF j True] True e r show ?thesis by auto
    next
      case False
      have "map_of (st_generations db') (jb_queue j) = map_of (st_generations db) (jb_queue j)"
        using r gens False by (cases q; cases "jb_queue j") auto
      with g r show ?thesis by auto
    qed
  qed
  with ok r have "store_ok db'" by (simp add: store_ok_def)
  moreover have "store_evolves db db'" by (rule store_evolves_grow) (use r in auto)
  ultimately show ?thesis ..
qed

lemma setMode_ok:
  assumes run: "setQueueExecutionMode schema mode e db = Inr db'" and ok: "store_ok db"
  shows "store_ok db' \<and> store_evolves db db'"
proof -
  obtain a b where gens: "st_generations db = [(Chain, a), (Content, b)]"
    using generation_rows [of db] ok unfolding store_ok_def by blast
  from run have db': "db' = db\<lparr>st_generations := [(Chain, a\<lparr>gr_mode := mode\<rparr>), (Content, b)]\<rparr>"
    by (auto simp: setQueueExecutionMode_def gens bindR_eq_Inr split: if_split_asm)
  have "generations_ok db'"
    using ok unfolding db' store_ok_def generations_ok_def gens by (auto split: if_split_asm)
  with ok have "store_ok db'" by (simp add: store_ok_def db')
  moreover have "store_evolves db db'" by (rule store_evolves_grow) (auto simp: db')
  ultimately show ?thesis ..
qed

end
