(* ===== verification/Queue_Retention.thy ===== *)
theory Queue_Retention imports Queue_Correct begin

text \<open>
  \<open>services/backend-ts/packages/jobs/src/retention.ts\<close>: bounded cleanup of old queue bodies.
  Payloads and raw bodies are emptied and old attempts deleted; the identities and digests that
  duplicate detection needs stay. The lemmas show that the store stays well formed and that the
  answer to a repeated message does not change.
\<close>

section \<open>The cleanup\<close>

definition MAX_BATCH_SIZE :: int where "MAX_BATCH_SIZE = 200"

definition ALLOWED_KINDS :: "string list" where
  "ALLOWED_KINDS = [''chain-log-trigger'', ''chain-backfill'', ''projection-continuation'']"

definition days :: "int \<Rightarrow> int" where "days n = n * 86400000"

definition is_empty_payload :: "payload \<Rightarrow> bool" where
  "is_empty_payload p \<longleftrightarrow> p = EmptyBody \<or> p = Body ''{}''"

record retention_result =
  rr_acquired :: bool
  rr_jobsPayloadsCleared :: nat
  rr_outboxPayloadsCleared :: nat
  rr_inboxBodiesCleared :: nat
  rr_attemptsDeleted :: nat

definition unsent :: "store \<Rightarrow> job \<Rightarrow> bool" where
  "unsent db j \<longleftrightarrow> list_ex (\<lambda>r. ox_operation r = jb_operation j \<and> lf_state r \<noteq> Completed) (st_outbox db)"

text \<open>The fragment \<open>eligibleJob\<close>, and its variant with 90 days.\<close>

definition eligibleJob :: "int \<Rightarrow> int \<Rightarrow> store \<Rightarrow> job \<Rightarrow> bool" where
  "eligibleJob age now db j \<longleftrightarrow> jb_queue j = Chain \<and> jb_kind j \<in> set ALLOWED_KINDS \<and> lf_state j = Completed
     \<and> lf_updated j < now - days age \<and> \<not> unsent db j"

definition clear_job :: "job \<Rightarrow> job" where "clear_job j = j\<lparr>jb_payload := EmptyBody\<rparr>"
definition clear_outbox :: "outbox \<Rightarrow> outbox" where "clear_outbox r = r\<lparr>ox_payload := EmptyBody\<rparr>"

definition expired_inbox :: "int \<Rightarrow> store \<Rightarrow> inbox \<Rightarrow> bool" where
  "expired_inbox now db i \<longleftrightarrow> ib_queue i = Chain \<and> ib_state i = InboxProcessed \<and> ib_received i < now - days 30
     \<and> list_ex (\<lambda>j. jb_queue j = ib_queue i \<and> jb_digest j = ib_digest i) (st_jobs db)
     \<and> \<not> list_ex (\<lambda>j. jb_queue j = ib_queue i \<and> jb_digest j = ib_digest i \<and> \<not> eligibleJob 30 now db j) (st_jobs db)
     \<and> \<not> list_ex (\<lambda>j. jb_queue j = ib_queue i \<and> jb_digest j = ib_digest i \<and> unsent db j) (st_jobs db)
     \<and> ib_raw i \<noteq> []"

definition expired_attempt :: "int \<Rightarrow> store \<Rightarrow> attempt_row \<Rightarrow> bool" where
  "expired_attempt now db a \<longleftrightarrow> list_ex (\<lambda>j. lf_id j = at_job a \<and> eligibleJob 90 now db j) (st_jobs db)
     \<and> (at_outcome a = ALeased \<or> at_outcome a = ASucceeded) \<and> at_error a = None"

text \<open>\<open>lockFree\<close> is the answer of \<open>pg_try_advisory_xact_lock\<close>.\<close>

definition retainQueueHistory :: "string \<Rightarrow> int \<Rightarrow> bool \<Rightarrow> (nat \<Rightarrow> bool) \<Rightarrow> int \<Rightarrow> store \<Rightarrow> (retention_result \<times> store) res" where
  "retainQueueHistory schema now lockFree locked batchSize db =
     bindR (ensure (is_identifier schema) (Error ''invalid database schema name'')) (\<lambda>_.
     bindR (ensure (1 \<le> batchSize \<and> batchSize \<le> MAX_BATCH_SIZE) (Error ''retention batch size must be between 1 and 200'')) (\<lambda>_.
     if \<not> lockFree then Inr (\<lparr>rr_acquired = False, rr_jobsPayloadsCleared = 0, rr_outboxPayloadsCleared = 0,
          rr_inboxBodiesCleared = 0, rr_attemptsDeleted = 0\<rparr>, db)
     else
     let jobs = select_ids lf_id lf_updated (\<lambda>j. eligibleJob 30 now db j \<and> \<not> is_empty_payload (jb_payload j)) locked batchSize (st_jobs db);
         db1 = db\<lparr>st_jobs := update_where (\<lambda>j. lf_id j \<in> set jobs) clear_job (st_jobs db)\<rparr>;
         outbox = select_ids lf_id lf_created (\<lambda>r. list_ex (\<lambda>j. jb_operation j = ox_operation r \<and> eligibleJob 30 now db1 j) (st_jobs db1)
             \<and> lf_state r = Completed \<and> \<not> is_empty_payload (ox_payload r)) locked batchSize (st_outbox db1);
         db2 = db1\<lparr>st_outbox := update_where (\<lambda>r. lf_id r \<in> set outbox) clear_outbox (st_outbox db1)\<rparr>;
         inbox = select_ids ib_id ib_received (expired_inbox now db2) locked batchSize (st_inbox db2);
         db3 = db2\<lparr>st_inbox := update_where (\<lambda>i. ib_id i \<in> set inbox) (\<lambda>i. i\<lparr>ib_raw := []\<rparr>) (st_inbox db2)\<rparr>;
         attempts = select_ids at_id at_started (expired_attempt now db3) locked batchSize (st_attempts db3);
         db4 = db3\<lparr>st_attempts := filter (\<lambda>a. at_id a \<notin> set attempts) (st_attempts db3)\<rparr> in
     Inr (\<lparr>rr_acquired = True, rr_jobsPayloadsCleared = length jobs, rr_outboxPayloadsCleared = length outbox,
           rr_inboxBodiesCleared = length inbox, rr_attemptsDeleted = length attempts\<rparr>, db4)))"

text \<open>
  The scheduler: \<open>nextRun\<close> is the row of \<open>maintenance_runs\<close>, if any. A run that fails leaves
  the provisional five minutes in place, the error being returned beside it.
\<close>

definition runScheduledQueueRetention :: "string \<Rightarrow> int \<Rightarrow> bool \<Rightarrow> (nat \<Rightarrow> bool) \<Rightarrow> int option \<Rightarrow> store
    \<Rightarrow> (retention_result option res \<times> int option \<times> store)" where
  "runScheduledQueueRetention schema now lockFree locked nextRun db =
     (if \<not> is_identifier schema then (Inl (Error ''invalid database schema name''), nextRun, db)
      else if (case nextRun of None \<Rightarrow> False | Some t \<Rightarrow> now < t) then (Inr None, nextRun, db)
      else case retainQueueHistory schema now lockFree locked MAX_BATCH_SIZE db of
          Inl e \<Rightarrow> (Inl e, Some (now + 300000), db)
        | Inr (r, db') \<Rightarrow>
            let backlog = (\<not> rr_acquired r \<or> list_ex (\<lambda>n. MAX_BATCH_SIZE \<le> int n)
                  [rr_jobsPayloadsCleared r, rr_outboxPayloadsCleared r, rr_inboxBodiesCleared r, rr_attemptsDeleted r]) in
            (Inr (Some r), Some (now + (if backlog then 60000 else 3600000)), db'))"

section \<open>What it keeps\<close>

lemma clear_job_keeps: "row_ok (clear_job j) = row_ok j" "job_evolves j (clear_job j)" "lf_id (clear_job j) = lf_id j"
  "jb_operation (clear_job j) = jb_operation j" "jb_digest (clear_job j) = jb_digest j" "lf_state (clear_job j) = lf_state j"
  by (simp_all add: clear_job_def row_ok_def job_evolves_def)

lemma clear_outbox_keeps: "row_ok (clear_outbox r) = row_ok r" "outbox_evolves r (clear_outbox r)" "lf_id (clear_outbox r) = lf_id r"
  "ox_operation (clear_outbox r) = ox_operation r" "ox_digest (clear_outbox r) = ox_digest r" "ox_destination (clear_outbox r) = ox_destination r"
  by (simp_all add: clear_outbox_def row_ok_def outbox_evolves_def)

lemma store_ok_rest:
  assumes "store_ok db" and "set ats \<subseteq> set (st_attempts db)" and "distinct (map (\<lambda>a. (at_job a, at_fencing a, at_outcome a)) ats)"
  shows "store_ok (db\<lparr>st_inbox := ib, st_attempts := ats\<rparr>)"
proof -
  have "generations_ok (db\<lparr>st_inbox := ib, st_attempts := ats\<rparr>) = generations_ok db" by (simp add: generations_ok_def)
  moreover have "job_attempts_ok ats (st_jobs db)"
    using assms unfolding store_ok_def job_attempts_ok_def by blast
  ultimately show ?thesis using assms(1) by (simp add: store_ok_def)
qed

lemma retain_returns:
  assumes "retainQueueHistory schema now lf locked n db = Inr (res, db')" and ok: "store_ok db"
  shows "db' = db \<or> (\<exists>JS OS IS AS. (\<forall>j\<in>set (st_jobs db). lf_id j \<in> JS \<longrightarrow> lf_state j = Completed)
      \<and> db' = db\<lparr>st_jobs := update_where (\<lambda>j. lf_id j \<in> JS) clear_job (st_jobs db),
        st_outbox := update_where (\<lambda>r. lf_id r \<in> OS) clear_outbox (st_outbox db),
        st_inbox := update_where (\<lambda>i. ib_id i \<in> IS) (\<lambda>i. i\<lparr>ib_raw := []\<rparr>) (st_inbox db),
        st_attempts := filter (\<lambda>a. at_id a \<notin> AS) (st_attempts db)\<rparr>)"
proof (cases "lf")
  case True
  let ?jobs = "select_ids lf_id lf_updated (\<lambda>j. eligibleJob 30 now db j \<and> \<not> is_empty_payload (jb_payload j)) locked n (st_jobs db)"
  have "\<forall>j\<in>set (st_jobs db). lf_id j \<in> set ?jobs \<longrightarrow> lf_state j = Completed"
  proof (intro ballI impI)
    fix j assume "j \<in> set (st_jobs db)" "lf_id j \<in> set ?jobs"
    from select_ids_row [OF distinct_job_ids [OF ok] this] show "lf_state j = Completed" by (simp add: eligibleJob_def)
  qed
  with assms(1) True show ?thesis
    unfolding retainQueueHistory_def Let_def bindR_eq_Inr
    by (intro disjI2 exI [of _ "set ?jobs"] exI conjI) (assumption, auto)
qed (use assms(1) in \<open>auto simp: retainQueueHistory_def bindR_eq_Inr\<close>)

lemma retention_ok:
  assumes run: "retainQueueHistory schema now lf locked n db = Inr (res, db')" and ok: "store_ok db"
  shows "store_ok db' \<and> store_evolves db db'"
  using retain_returns [OF run ok]
proof (elim disjE exE conjE)
  fix JS OS IS AS
  assume J: "\<forall>j\<in>set (st_jobs db). lf_id j \<in> JS \<longrightarrow> lf_state j = Completed"
    and db': "db' = db\<lparr>st_jobs := update_where (\<lambda>j. lf_id j \<in> JS) clear_job (st_jobs db),
        st_outbox := update_where (\<lambda>r. lf_id r \<in> OS) clear_outbox (st_outbox db),
        st_inbox := update_where (\<lambda>i. ib_id i \<in> IS) (\<lambda>i. i\<lparr>ib_raw := []\<rparr>) (st_inbox db),
        st_attempts := filter (\<lambda>a. at_id a \<notin> AS) (st_attempts db)\<rparr>"
  define db1 where "db1 = db\<lparr>st_jobs := update_where (\<lambda>j. lf_id j \<in> JS) clear_job (st_jobs db)\<rparr>"
  have 1: "store_ok db1 \<and> store_evolves db db1"
  proof (rule job_update_ok [OF ok _ refl])
    show "job_change (\<lambda>j. lf_id j \<in> JS) clear_job (st_jobs db)"
      using J row_ok_in [OF ok] by (auto simp: job_change_def clear_job_keeps)
  qed (simp add: db1_def)
  define db2 where "db2 = db1\<lparr>st_outbox := update_where (\<lambda>r. lf_id r \<in> OS) clear_outbox (st_outbox db1)\<rparr>"
  have 2: "store_ok db2 \<and> store_evolves db1 db2"
    unfolding db2_def by (rule outbox_update_ok) (use 1 outbox_row_ok_in clear_outbox_keeps in auto)
  have db'2: "db' = db2\<lparr>st_inbox := st_inbox db', st_attempts := st_attempts db'\<rparr>"
    by (simp add: db' db1_def db2_def)
  have "store_ok (db2\<lparr>st_inbox := st_inbox db', st_attempts := st_attempts db'\<rparr>)"
    by (rule store_ok_rest) (use 2 in \<open>auto simp: db' db1_def db2_def store_ok_def job_attempts_ok_def distinct_map_filter\<close>)
  then have "store_ok db'" using db'2 by simp
  moreover have "store_evolves db2 db'" by (rule store_evolves_grow) (subst db'2, simp)+
  ultimately show ?thesis using 1 2 store_evolves_trans by blast
qed (simp add: ok)

lemma filter_update_where: "(\<And>r. P (f r) = P r) \<Longrightarrow> filter P (update_where p f rows) = update_where p f (filter P rows)"
  by (induction rows) (auto simp: update_where_def)

lemma map_update_where: "(\<And>r. g (f r) = g r) \<Longrightarrow> map g (update_where p f rows) = map g rows"
  by (auto simp: update_where_def)

lemma find_update_where: "(\<And>r. P (f r) = P r) \<Longrightarrow>
    find P (update_where p f rows) = map_option (\<lambda>r. if p r then f r else r) (find P rows)"
  by (induction rows) (auto simp: update_where_def)

text \<open>C13: cleanup never changes the answer to a repeated message: a message that the queue reports
  as a duplicate before a retention run is reported as the same duplicate, with the same ids, after it.\<close>

theorem retention_keeps_duplicates:
  assumes "retainQueueHistory schema now lf locked n db = Inr (res, db')" and "store_ok db"
    and "enqueueReliableMessage h schema' now' m db = Inr (r, db)" and "er_duplicate r"
  shows "enqueueReliableMessage h schema' now' m db' = Inr (r, db')"
  using retain_returns [OF assms(1,2)]
proof (elim disjE exE conjE)
  fix JS OS IS AS
  assume db': "db' = db\<lparr>st_jobs := update_where (\<lambda>j. lf_id j \<in> JS) clear_job (st_jobs db),
        st_outbox := update_where (\<lambda>r. lf_id r \<in> OS) clear_outbox (st_outbox db),
        st_inbox := update_where (\<lambda>i. ib_id i \<in> IS) (\<lambda>i. i\<lparr>ib_raw := []\<rparr>) (st_inbox db),
        st_attempts := filter (\<lambda>a. at_id a \<notin> AS) (st_attempts db)\<rparr>"
  let ?g = "case em_generation m of None \<Rightarrow> 0 | Some g \<Rightarrow> g"
  from enqueue_returns [OF assms(3)] assms(4) obtain i rest where
    c: "check_message schema' m = Inr ()" "assertActiveGeneration (em_queue m) ?g db = Inr ()"
    and i: "find (\<lambda>i. ib_queue i = em_queue m \<and> ib_external i = em_externalId m) (st_inbox db) = Some i"
      "ib_digest i = h (em_rawBody m)" "er_inboxId r = ib_id i"
    and p: "prior_rows m (h (em_rawBody m)) db = (er_jobId r, er_outboxId r) # rest" by auto
  have "prior_rows m d db' = prior_rows m d db" for d
    unfolding prior_rows_def db'
    by (simp add: filter_update_where map_update_where clear_job_keeps clear_outbox_keeps)
  moreover have "assertActiveGeneration q g db' = assertActiveGeneration q g db" for q g
    by (simp add: assertActiveGeneration_def db')
  moreover have "\<exists>i'. find (\<lambda>i. ib_queue i = em_queue m \<and> ib_external i = em_externalId m) (st_inbox db') = Some i'
      \<and> ib_digest i' = ib_digest i \<and> ib_id i' = ib_id i"
    using i(1) by (simp add: db' find_update_where)
  ultimately show ?thesis
    using c i(2,3) p assms(4) by (auto simp: enqueueReliableMessage_def Let_def)
qed (use assms(3) in simp)

end
