(* ===== verification/Queue_Steps.thy ===== *)
theory Queue_Steps imports Queue_Retention begin

text \<open>
  The queue as a state machine: any interleaving of the transactions of \<open>Job_Queue\<close> and
  \<open>Queue_Retention\<close>, by any number of workers, at any times and with any rows locked by others.
  A worker only presents leases the queue handed out (\<open>genuine_lease\<close>), possibly long expired.
  The properties of the queue hold in every reachable store.
\<close>

section \<open>Steps\<close>

inductive queue_step :: "store \<Rightarrow> store \<Rightarrow> bool" where
  enqueue: "enqueueReliableMessage h schema now m db = Inr (r, db') \<Longrightarrow> queue_step db db'"
| claim_one: "claimJobByOperation schema now q op owner ms g db = Inr (l, db') \<Longrightarrow> queue_step db db'"
| claim_many: "claimJobs schema now locked q owner limit ms g mode db = Inr (ls, db') \<Longrightarrow> queue_step db db'"
| complete: "completeJob schema now l owner digest db = Inr (b, db') \<Longrightarrow> genuine_lease db l \<Longrightarrow> queue_step db db'"
| fail: "failJob schema now l owner code db = Inr (x, db') \<Longrightarrow> genuine_lease db l \<Longrightarrow> queue_step db db'"
| recover: "recoverExpiredLeases schema now locked q limit g db = Inr (n, db') \<Longrightarrow> queue_step db db'"
| claim_outbox: "claimOutbox schema now locked q owner limit ms g db = Inr (os, db') \<Longrightarrow> queue_step db db'"
| complete_outbox: "completeOutbox schema now ol owner mid db = Inr (b, db') \<Longrightarrow> genuine_outbox_lease db ol \<Longrightarrow> queue_step db db'"
| fail_outbox: "failOutbox schema now ol owner code db = Inr (x, db') \<Longrightarrow> genuine_outbox_lease db ol \<Longrightarrow> queue_step db db'"
| recover_outbox: "recoverExpiredOutboxLeases schema now locked q limit g db = Inr (n, db') \<Longrightarrow> queue_step db db'"
| requeue: "requeueDueJobs schema now locked q limit g db = Inr (n, db') \<Longrightarrow> queue_step db db'"
| advance: "advanceQueueGeneration schema q e e' db = Inr db' \<Longrightarrow> queue_step db db'"
| set_mode: "setQueueExecutionMode schema mode e db = Inr db' \<Longrightarrow> queue_step db db'"
| retain: "retainQueueHistory schema now free locked batch db = Inr (rr, db') \<Longrightarrow> queue_step db db'"

inductive_cases queue_stepE: "queue_step db db'"

abbreviation queue_steps :: "store \<Rightarrow> store \<Rightarrow> bool" where
  "queue_steps \<equiv> queue_step\<^sup>*\<^sup>*"

lemma step_ok: "queue_step db db' \<Longrightarrow> store_ok db \<Longrightarrow> store_ok db' \<and> store_evolves db db'"
  by (induction rule: queue_step.induct)
     (blast dest: enqueue_ok claimJobByOperation_ok claimJobs_ok completeJob_ok failJob_ok recoverExpiredLeases_ok
        claimOutbox_ok completeOutbox_ok failOutbox_ok recoverExpiredOutboxLeases_ok requeueDueJobs_ok advance_ok setMode_ok
        retention_ok)+

lemma steps_ok: "queue_steps db db' \<Longrightarrow> store_ok db \<Longrightarrow> store_ok db' \<and> store_evolves db db'"
proof (induction rule: rtranclp_induct)
  case (step y z)
  then show ?case using step_ok store_evolves_trans by blast
qed simp

lemma initial_ok: "store_ok initial_store"
  by (simp add: store_ok_def initial_store_def table_ok_def job_attempts_ok_def generations_ok_def)

lemma reachable_ok: "queue_steps initial_store db \<Longrightarrow> store_ok db"
  using steps_ok initial_ok by blast

text \<open>Every lease handed out is genuine, and stays so.\<close>

lemma lease_of_genuine: "row_ok j \<Longrightarrow> j \<in> set (st_jobs db) \<Longrightarrow> genuine_lease db (lease_of j)"
  unfolding genuine_lease_def by (intro conjI bexI [of _ j]) (simp_all add: lease_of_def row_ok_def)

lemma genuine_lease_steps: "genuine_lease db l \<Longrightarrow> store_ok db \<Longrightarrow> queue_steps db db' \<Longrightarrow> genuine_lease db' l"
  using steps_ok genuine_lease_evolves by blast

section \<open>A concrete run\<close>

text \<open>One message, leased, expired, recovered and leased again.\<close>

definition sample_hash :: "string \<Rightarrow> string" where "sample_hash s = hex_lit 64 (CHR ''a'')"

definition sample_message :: enqueue_message where
  "sample_message = \<lparr>em_queue = Chain, em_externalId = ''x'', em_operationId = ''op'', em_kind = ''k'', em_rawBody = ''b'',
     em_payload = EmptyBody, em_destinationKey = ''d'', em_maxAttempts = None, em_generation = None\<rparr>"

abbreviation sample_schema :: string where "sample_schema \<equiv> ''s''"

definition store1 :: store where
  "store1 = initial_store\<lparr>st_inbox := [new_inbox sample_message (hex_lit 64 (CHR ''a'')) 1 0],
     st_jobs := [new_job sample_message (hex_lit 64 (CHR ''a'')) 2 0],
     st_outbox := [new_outbox ''op'' Chain ''d'' (hex_lit 64 (CHR ''a'')) ''k'' 8 3 0], st_seq := 4\<rparr>"

lemma sample_syntax: "is_token ''x''" "is_token ''op''" "is_token ''k''" "is_token ''d''" "is_token ''w''" "is_identifier ''s''"
  by (simp_all add: is_token_def is_identifier_def is_token_char_def is_lower_alpha_def is_digit_def code_of_def)

lemma sample_enqueue: "enqueueReliableMessage sample_hash sample_schema 0 sample_message initial_store
    = Inr (\<lparr>er_duplicate = False, er_inboxId = 1, er_jobId = 2, er_outboxId = 3\<rparr>, store1)"
proof -
  have "check_message sample_schema sample_message = Inr ()"
    by (simp add: check_message_def assertToken_def assertPayload_def schemaIdentifier_def payload_length_def sample_message_def sample_syntax)
  moreover have "assertActiveGeneration Chain 0 initial_store = Inr ()" by (simp add: assertActiveGeneration_def initial_store_def)
  ultimately show ?thesis
    by (simp add: enqueueReliableMessage_def Let_def sample_message_def) (simp add: store1_def initial_store_def sample_message_def sample_hash_def new_job_def numeral_3_eq_3)
qed

lemma store1_reachable: "queue_steps initial_store store1"
  using queue_step.enqueue [OF sample_enqueue] by blast

lemma sample_repeat: "enqueueReliableMessage sample_hash sample_schema 9 sample_message store1
    = Inr (\<lparr>er_duplicate = True, er_inboxId = 1, er_jobId = 2, er_outboxId = 3\<rparr>, store1)"
proof -
  have "check_message sample_schema sample_message = Inr ()"
    by (simp add: check_message_def assertToken_def assertPayload_def schemaIdentifier_def payload_length_def sample_message_def sample_syntax)
  moreover have "assertActiveGeneration Chain 0 store1 = Inr ()" by (simp add: assertActiveGeneration_def store1_def initial_store_def)
  ultimately show ?thesis
    by (simp add: enqueueReliableMessage_def Let_def sample_message_def)
       (simp add: store1_def initial_store_def sample_message_def sample_hash_def new_job_def new_inbox_def new_outbox_def prior_rows_def)
qed

definition lease1 :: job where
  "lease1 = take_lease ''w'' 1000 5 (new_job sample_message (hex_lit 64 (CHR ''a'')) 2 0)"

definition store2 :: store where
  "store2 = store1\<lparr>st_jobs := [lease1], st_attempts := [\<lparr>at_id = 4, at_job = 2, at_queue = Chain, at_fencing = 1,
     at_attempt = 1, at_outcome = ALeased, at_error = None, at_started = 5\<rparr>], st_seq := 5\<rparr>"

lemmas queue_eval = assertToken_def schemaIdentifier_def sample_syntax check_lease_ms_def assertActiveGeneration_def
  queueModeMatches_def store1_def initial_store_def job_due_def due_def new_job_def sample_message_def record_attempts_def
  insert_attempt_def update_where_def select_ids_def take_lease_def

lemma sample_claim: "claimJobs sample_schema 5 (\<lambda>_. False) Chain ''w'' 1 1000 0 Qstash store1 = Inr ([lease_of lease1], store2)"
  by (simp add: claimJobs_def Let_def store2_def lease1_def queue_eval)

definition store3 :: store where
  "store3 = store2\<lparr>st_jobs := [expire_lease 1005 lease1], st_attempts := st_attempts store2 @ [\<lparr>at_id = 5, at_job = 2,
     at_queue = Chain, at_fencing = 1, at_attempt = 1, at_outcome = AExpired, at_error = Some ''lease_expired'', at_started = 1005\<rparr>],
     st_seq := 6\<rparr>"

lemma sample_recover: "recoverExpiredLeases sample_schema 1005 (\<lambda>_. False) Chain 100 0 store2 = Inr (1, store3)"
  by (simp add: recoverExpiredLeases_def Let_def store3_def store2_def lease1_def queue_eval expired_def expire_lease_def)

definition store4 :: store where
  "store4 = store3\<lparr>st_jobs := [take_lease ''w'' 1000 1010 (expire_lease 1005 lease1)], st_attempts := st_attempts store3 @ [\<lparr>at_id = 6, at_job = 2,
     at_queue = Chain, at_fencing = 2, at_attempt = 2, at_outcome = ALeased, at_error = None, at_started = 1010\<rparr>],
     st_seq := 7\<rparr>"

lemma sample_reclaim: "claimJobs sample_schema 1010 (\<lambda>_. False) Chain ''w'' 1 1000 0 Qstash store3
    = Inr ([lease_of (take_lease ''w'' 1000 1010 (expire_lease 1005 lease1))], store4)"
  by (simp add: claimJobs_def Let_def store4_def store3_def store2_def lease1_def queue_eval expire_lease_def)

definition store5 :: store where
  "store5 = store4\<lparr>st_jobs := [finish_lease 1020 (take_lease ''w'' 1000 1010 (expire_lease 1005 lease1))\<lparr>jb_result := Some (hex_lit 64 (CHR ''f''))\<rparr>],
     st_attempts := st_attempts store4 @ [\<lparr>at_id = 7, at_job = 2,
     at_queue = Chain, at_fencing = 2, at_attempt = 2, at_outcome = ASucceeded, at_error = None, at_started = 1020\<rparr>],
     st_seq := 8\<rparr>"

lemma sample_digest: "is_lower_hex 64 (hex_lit 64 (CHR ''f''))"
  by (rule hex_lit_lower_hex) (simp add: is_lower_hex_digit_def code_of_def)

lemma sample_complete: "completeJob sample_schema 1020 (lease_of (take_lease ''w'' 1000 1010 (expire_lease 1005 lease1))) ''w''
    (hex_lit 64 (CHR ''f'')) store4 = Inr (True, store5)"
  by (simp add: completeJob_def Let_def store5_def store4_def store3_def store2_def lease1_def queue_eval expire_lease_def sample_digest
      lease_guard_def lease_held_def lease_of_def unexpired_def)

lemma sample_reachable: "queue_steps initial_store store2" "queue_steps initial_store store4" "queue_steps initial_store store5"
proof -
  show 2: "queue_steps initial_store store2"
    using store1_reachable queue_step.claim_many [OF sample_claim] by (rule rtranclp.rtrancl_into_rtrancl)
  show 4: "queue_steps initial_store store4"
    using 2 queue_step.recover [OF sample_recover] queue_step.claim_many [OF sample_reclaim]
    by (meson rtranclp.rtrancl_into_rtrancl)
  have "genuine_lease store4 (lease_of (take_lease ''w'' 1000 1010 (expire_lease 1005 lease1)))"
    by (rule lease_of_genuine [OF row_ok_in [OF reachable_ok [OF 4]]]) (simp_all add: store4_def)
  with 4 show "queue_steps initial_store store5"
    using queue_step.complete [OF sample_complete] by (meson rtranclp.rtrancl_into_rtrancl)
qed
section \<open>Properties\<close>

lemma record_attempts_jobs: "record_attempts out code now rows db = Inr db' \<Longrightarrow> st_jobs db' = st_jobs db
    \<and> st_outbox db' = st_outbox db \<and> st_generations db' = st_generations db"
  unfolding record_attempts_def
  by (erule foldR_keeps [where I = "\<lambda>s. st_jobs s = st_jobs db \<and> st_outbox s = st_outbox db \<and> st_generations s = st_generations db"])
     (auto simp: insert_attempt_def split: if_splits)

lemma claimJobs_returns:
  assumes "claimJobs schema now locked q owner limit ms g mode db = Inr (ls, db')"
  shows "(ls = [] \<and> db' = db) \<or> (\<exists>ids. ids = select_ids lf_id lf_next (job_due q g now) locked limit (st_jobs db)
     \<and> ls = map (lease_of \<circ> take_lease owner ms now) (filter (\<lambda>j. lf_id j \<in> set ids) (st_jobs db))
     \<and> st_jobs db' = update_where (\<lambda>j. lf_id j \<in> set ids) (take_lease owner ms now) (st_jobs db)
     \<and> 1000 \<le> ms \<and> limit \<le> 20)"
  using assms unfolding claimJobs_def Let_def check_lease_ms_def
  by (auto simp: bindR_eq_Inr ensure_eq_Inr split: if_split_asm dest!: record_attempts_jobs)

lemma find_append_None: "find P xs = None \<Longrightarrow> find P (xs @ ys) = find P ys"
  by (induction xs) (auto split: if_splits)

text \<open>C14: in every reachable store the tables are well formed: keys and operation ids are unique, each
  row has an owner and an expiry exactly while it is leased, its fencing token counts its attempts,
  which never exceed their bound, a row that waits for a worker has an attempt left, and attempts are
  recorded once per outcome.\<close>

theorem queue_invariant:
  assumes "queue_steps initial_store db"
  shows "store_ok db"
  using assms by (rule reachable_ok)

theorem queue_invariant_witness: "store_ok store4 \<and> length (st_attempts store4) = 3"
  using queue_invariant [OF sample_reachable(2)] by (simp add: store4_def store3_def store2_def)

text \<open>C15: fencing. Once the row has moved on to a later lease, the old lease can neither complete nor
  fail the job, now or at any later time, whoever presents it.\<close>

theorem stale_lease_is_fenced:
  assumes "queue_steps initial_store db" and "j \<in> set (st_jobs db)" and "lf_id j = ls_id l" and "ls_fencing l < lf_fencing j"
    and "queue_steps db db'" and "is_token owner" "is_token code" "is_lower_hex 64 digest" "is_identifier schema" "1 \<le> ls_attempt l"
  shows "completeJob schema now l owner digest db' = Inr (False, db') \<and> failJob schema now l owner code db' = Inr (FStale, db')"
proof -
  have ok: "store_ok db" using reachable_ok [OF assms(1)] .
  from steps_ok [OF assms(5) ok] have ok': "store_ok db'" and ev: "store_evolves db db'" by auto
  from ev assms(2) obtain j' where j': "j' \<in> set (st_jobs db')" "job_evolves j j'" unfolding store_evolves_def by blast
  have no: "\<not> lease_guard l owner k" if k: "k \<in> set (st_jobs db')" for k
  proof
    assume g: "lease_guard l owner k"
    have "k = j'" by (rule distinct_map_eq [OF distinct_job_ids [OF ok'] k j'(1)])
      (use guarded_job [OF g] j'(2) assms(3) in \<open>simp add: job_evolves_def\<close>)
    with guarded_job [OF g] j'(2) assms(4) show False by (simp add: job_evolves_def)
  qed
  then show ?thesis using assms(6-)
    by (simp add: completeJob_def failJob_def assertToken_def schemaIdentifier_def retryDelayMs_def list_ex_iff Let_def)
qed

theorem stale_lease_is_fenced_witness:
  "completeJob sample_schema 1011 (lease_of lease1) ''w'' (hex_lit 64 (CHR ''f'')) store4 = Inr (False, store4)"
proof -
  let ?j = "take_lease ''w'' 1000 1010 (expire_lease 1005 lease1)"
  have "?j \<in> set (st_jobs store4)" by (simp add: store4_def)
  moreover have "lf_id ?j = ls_id (lease_of lease1)" "ls_fencing (lease_of lease1) < lf_fencing ?j" "1 \<le> ls_attempt (lease_of lease1)"
    by (simp_all add: take_lease_def expire_lease_def lease_of_def lease1_def)
  ultimately show ?thesis
    using stale_lease_is_fenced [OF sample_reachable(2) _ _ _ rtranclp.rtrancl_refl sample_syntax(5) sample_syntax(1) sample_digest sample_syntax(6)]
    by blast
qed

text \<open>C16: a job completes at most once: after it succeeded, whatever happens, it stays succeeded with
  the same result digest, and no lease completes or fails it again.\<close>

theorem completion_is_final:
  assumes "queue_steps initial_store db" and "j \<in> set (st_jobs db)" and "lf_state j = Completed" and "queue_steps db db'"
  shows "\<exists>j'\<in>set (st_jobs db'). lf_id j' = lf_id j \<and> lf_state j' = Completed \<and> jb_result j' = jb_result j
    \<and> (\<forall>l owner. \<not> lease_guard l owner j')"
proof -
  from steps_ok [OF assms(4) reachable_ok [OF assms(1)]] assms(2) obtain j' where "j' \<in> set (st_jobs db')" "job_evolves j j'"
    unfolding store_evolves_def by blast
  with assms(3) show ?thesis
    by (intro bexI [of _ j']) (auto simp: job_evolves_def lease_guard_def lease_held_def)
qed

theorem completion_is_final_witness:
  "\<exists>j\<in>set (st_jobs store5). lf_state j = Completed \<and> jb_result j = Some (hex_lit 64 (CHR ''f''))"
proof -
  let ?j = "finish_lease 1020 (take_lease ''w'' 1000 1010 (expire_lease 1005 lease1))\<lparr>jb_result := Some (hex_lit 64 (CHR ''f''))\<rparr>"
  have "?j \<in> set (st_jobs store5)" "lf_state ?j = Completed" "jb_result ?j = Some (hex_lit 64 (CHR ''f''))"
    by (simp_all add: store5_def finish_lease_def)
  with completion_is_final [OF sample_reachable(3) this(1,2) rtranclp.rtrancl_refl] show ?thesis by auto
qed

text \<open>C17: no work is stranded in a generation that is over: below the active generation of its queue
  every job has succeeded and each of its messages was sent, and no job is above it.\<close>

theorem no_stranded_generation:
  assumes "queue_steps initial_store db" and "j \<in> set (st_jobs db)"
  shows "\<exists>g. map_of (st_generations db) (jb_queue j) = Some g \<and> jb_generation j \<le> gr_active g
    \<and> (jb_generation j < gr_active g \<longrightarrow> lf_state j = Completed
      \<and> (\<forall>r\<in>set (st_outbox db). ox_operation r = jb_operation j \<longrightarrow> lf_state r = Completed))"
  using reachable_ok [OF assms(1)] assms(2) unfolding store_ok_def generations_ok_def by blast

theorem no_stranded_generation_witness: "\<exists>g. map_of (st_generations store2) (jb_queue lease1) = Some g \<and> jb_generation lease1 \<le> gr_active g"
  using no_stranded_generation [OF sample_reachable(1), of lease1] by (auto simp: store2_def)

text \<open>C18: enqueueing is idempotent: sending an accepted message again, later, reports a duplicate with
  the same inbox, job and outbox ids and changes nothing.\<close>

theorem enqueue_idempotent:
  assumes "enqueueReliableMessage h schema now m db = Inr (r, db')" and "store_ok db"
  shows "enqueueReliableMessage h schema now' m db' = Inr (r\<lparr>er_duplicate := True\<rparr>, db')"
proof (cases "er_duplicate r")
  case True
  from enqueue_returns [OF assms(1)] True have db': "db' = db" by blast
  have "r\<lparr>er_duplicate := True\<rparr> = r" using True by (cases r) simp
  with assms(1) db' show ?thesis by (auto simp: enqueueReliableMessage_def Let_def bindR_eq_Inr split: option.splits if_split_asm list.splits)
next
  case False
  let ?d = "h (em_rawBody m)"
  let ?j = "new_job m ?d (st_seq db + 1) now"
  let ?o = "new_outbox (em_operationId m) (em_queue m) (em_destinationKey m) ?d (em_kind m) (lf_max ?j) (st_seq db + 2) now"
  from enqueue_returns [OF assms(1)] False have c: "check_message schema m = Inr ()"
    and act: "assertActiveGeneration (em_queue m) (case em_generation m of None \<Rightarrow> 0 | Some g \<Rightarrow> g) db = Inr ()"
    and inbox: "find (\<lambda>i. ib_queue i = em_queue m \<and> ib_external i = em_externalId m) (st_inbox db) = None"
    and op: "\<forall>j\<in>set (st_jobs db). jb_operation j \<noteq> em_operationId m"
    and ids: "er_inboxId r = st_seq db" "er_jobId r = st_seq db + 1" "er_outboxId r = st_seq db + 2"
    and db': "db' = db\<lparr>st_inbox := st_inbox db @ [new_inbox m ?d (st_seq db) now], st_jobs := st_jobs db @ [?j],
          st_outbox := st_outbox db @ [?o], st_seq := st_seq db + 3\<rparr>" by simp_all
  have "\<forall>o'\<in>set (st_outbox db). ox_operation o' \<noteq> em_operationId m"
    using assms(2) op unfolding store_ok_def by metis
  then have prior: "prior_rows m ?d db' = [(st_seq db + 1, st_seq db + 2)]"
    using op by (simp add: prior_rows_def db' new_job_def new_outbox_def)
  have "find (\<lambda>i. ib_queue i = em_queue m \<and> ib_external i = em_externalId m) (st_inbox db')
      = Some (new_inbox m ?d (st_seq db) now)"
    using inbox by (simp add: db' find_append_None new_inbox_def)
  moreover have "assertActiveGeneration q g db' = assertActiveGeneration q g db" for q g
    by (simp add: assertActiveGeneration_def db')
  ultimately show ?thesis using c act prior ids
    by (simp add: enqueueReliableMessage_def Let_def new_inbox_def)
qed

theorem enqueue_idempotent_witness:
  "enqueueReliableMessage sample_hash sample_schema 9 sample_message store1
    = Inr (\<lparr>er_duplicate = True, er_inboxId = 1, er_jobId = 2, er_outboxId = 3\<rparr>, store1)"
  using enqueue_idempotent [OF sample_enqueue initial_ok, of 9] by simp

theorem retention_keeps_duplicates_witness:
  "\<exists>res db. retainQueueHistory sample_schema 9 True (\<lambda>_. False) 200 store1 = Inr (res, db)
    \<and> enqueueReliableMessage sample_hash sample_schema 9 sample_message db
      = Inr (\<lparr>er_duplicate = True, er_inboxId = 1, er_jobId = 2, er_outboxId = 3\<rparr>, db)"
proof -
  have dup: "enqueueReliableMessage sample_hash sample_schema 9 sample_message store1
    = Inr (\<lparr>er_duplicate = True, er_inboxId = 1, er_jobId = 2, er_outboxId = 3\<rparr>, store1)"
    by (rule sample_repeat)
  obtain res db where "retainQueueHistory sample_schema 9 True (\<lambda>_. False) 200 store1 = Inr (res, db)"
    by (simp add: retainQueueHistory_def Let_def sample_syntax MAX_BATCH_SIZE_def)
  with retention_keeps_duplicates [OF this reachable_ok [OF store1_reachable] dup] show ?thesis by auto
qed

text \<open>A claim hands out at most its limit of leases on distinct jobs, each on a due job of the queue
  and generation, with a fresh fencing token, and it prefers the jobs that were due first.\<close>

theorem claim_takes_due_in_order:
  assumes "claimJobs schema now locked q owner limit ms g mode db = Inr (ls, db')" and "store_ok db"
  shows "length ls \<le> 20 \<and> distinct (map ls_id ls)
    \<and> (\<forall>l\<in>set ls. \<exists>j\<in>set (st_jobs db). ls_id l = lf_id j \<and> job_due q g now j \<and> \<not> locked (lf_id j)
          \<and> ls_fencing l = lf_fencing j + 1 \<and> ls_leaseExpiresAt l = now + ms
          \<and> (\<forall>k\<in>set (st_jobs db). job_due q g now k \<and> \<not> locked (lf_id k) \<and> lf_id k \<notin> ls_id ` set ls
               \<longrightarrow> (lf_next j, lf_id j) \<le> (lf_next k, lf_id k)))"
proof (cases "ls = []")
  case False
  from claimJobs_returns [OF assms(1)] False obtain ids where ids: "ids = select_ids lf_id lf_next (job_due q g now) locked limit (st_jobs db)"
    and ls: "ls = map (lease_of \<circ> take_lease owner ms now) (filter (\<lambda>j. lf_id j \<in> set ids) (st_jobs db))" and lim: "limit \<le> 20" by auto
  note d = distinct_job_ids [OF assms(2)]
  have lsid: "map ls_id ls = map lf_id (filter (\<lambda>j. lf_id j \<in> set ids) (st_jobs db))"
    by (simp add: ls lease_of_def take_lease_def)
  have dist: "distinct (map ls_id ls)" unfolding lsid using d by (simp add: distinct_map_filter)
  have sub: "set (map ls_id ls) \<subseteq> set ids" unfolding lsid by auto
  have sup: "set ids \<subseteq> set (map ls_id ls)" unfolding lsid using select_ids_sound ids by fastforce
  have "length ls \<le> length ids"
    using dist sub by (metis card_length card_mono distinct_card finite_set length_map order.trans)
  then have "length ls \<le> 20" using select_ids_limit [of lf_id lf_next "job_due q g now" locked limit "st_jobs db"] lim
    unfolding ids [symmetric] by linarith
  moreover have "\<exists>j\<in>set (st_jobs db). ls_id l = lf_id j \<and> job_due q g now j \<and> \<not> locked (lf_id j)
          \<and> ls_fencing l = lf_fencing j + 1 \<and> ls_leaseExpiresAt l = now + ms
          \<and> (\<forall>k\<in>set (st_jobs db). job_due q g now k \<and> \<not> locked (lf_id k) \<and> lf_id k \<notin> ls_id ` set ls
               \<longrightarrow> (lf_next j, lf_id j) \<le> (lf_next k, lf_id k))" if "l \<in> set ls" for l
  proof -
    from that obtain j where j: "j \<in> set (st_jobs db)" "lf_id j \<in> set ids" "l = lease_of (take_lease owner ms now j)" by (auto simp: ls)
    have "job_due q g now j" using select_ids_row [OF d j(1)] j(2) ids by blast
    moreover have "\<not> locked (lf_id j)" using select_ids_sound j(2) ids by fastforce
    moreover have "(lf_next j, lf_id j) \<le> (lf_next k, lf_id k)"
      if k: "k \<in> set (st_jobs db)" "job_due q g now k" "\<not> locked (lf_id k)" "lf_id k \<notin> ls_id ` set ls" for k
    proof -
      have "lf_id k \<notin> set ids" using sup k(4) by auto
      from select_ids_first [OF k(1,2,3) this [unfolded ids] j(2) [unfolded ids]] obtain i
        where i: "i \<in> set (st_jobs db)" "lf_id i = lf_id j" "(lf_next i, lf_id i) \<le> (lf_next k, lf_id k)" by blast
      have "i = j" by (rule distinct_map_eq [OF d i(1) j(1) i(2)])
      with i(3) show ?thesis by simp
    qed
    ultimately show ?thesis
      using j by (intro bexI [of _ j]) (auto simp: lease_of_def take_lease_def lease_expiry_def)
  qed
  ultimately show ?thesis using dist by blast
qed simp

theorem claim_takes_due_in_order_witness: "distinct (map ls_id [lease_of lease1])
    \<and> (\<exists>j\<in>set (st_jobs store1). ls_id (lease_of lease1) = lf_id j \<and> job_due Chain 0 5 j)"
  using claim_takes_due_in_order [OF sample_claim reachable_ok [OF store1_reachable]] by auto

lemma claim_takes_due_in_order_aux:
  assumes "claimJobs schema now locked q owner limit ms g mode db = Inr (ls, db')" and "store_ok db" and "l \<in> set ls"
  shows "\<exists>k\<in>set (st_jobs db). lf_id k = ls_id l \<and> due now k"
proof -
  from claimJobs_returns [OF assms(1)] assms(3) obtain ids where ids: "ids = select_ids lf_id lf_next (job_due q g now) locked limit (st_jobs db)"
    and ls: "ls = map (lease_of \<circ> take_lease owner ms now) (filter (\<lambda>j. lf_id j \<in> set ids) (st_jobs db))" by auto
  from assms(3) obtain j where j: "j \<in> set (st_jobs db)" "lf_id j \<in> set ids" "l = lease_of (take_lease owner ms now j)" by (auto simp: ls)
  have "job_due q g now j" using select_ids_row [OF distinct_job_ids [OF assms(2)] j(1)] j(2) ids by blast
  with j show ?thesis by (intro bexI [of _ j]) (auto simp: lease_of_def take_lease_def job_due_def)
qed

text \<open>Two claims never hand out the same job: whatever the worker, the time and the limits of the
  second, the jobs leased by the first are not among its leases.\<close>

theorem claims_are_disjoint:
  assumes "claimJobs s now lk q owner lim ms g mode db = Inr (ls, db1)" and "store_ok db"
    and "claimJobs s' now' lk' q' owner' lim' ms' g' mode' db1 = Inr (ls', db2)"
  shows "ls_id ` set ls \<inter> ls_id ` set ls' = {}"
proof (rule ccontr)
  assume "ls_id ` set ls \<inter> ls_id ` set ls' \<noteq> {}"
  then obtain l l' where l: "l \<in> set ls" "l' \<in> set ls'" "ls_id l = ls_id l'" by auto
  have ok1: "store_ok db1" using claimJobs_ok [OF assms(1,2)] by blast
  from claimJobs_returns [OF assms(1)] l(1) obtain ids where
    ls: "ls = map (lease_of \<circ> take_lease owner ms now) (filter (\<lambda>j. lf_id j \<in> set ids) (st_jobs db))"
    and jobs: "st_jobs db1 = update_where (\<lambda>j. lf_id j \<in> set ids) (take_lease owner ms now) (st_jobs db)" by auto
  from l(1) obtain j where j: "j \<in> set (st_jobs db)" "lf_id j \<in> set ids" "ls_id l = lf_id j"
    by (auto simp: ls lease_of_def take_lease_def)
  then have j1: "take_lease owner ms now j \<in> set (st_jobs db1)" unfolding jobs by (force simp: update_where_def)
  from claim_takes_due_in_order_aux [OF assms(3) ok1 l(2)] obtain k where k: "k \<in> set (st_jobs db1)" "lf_id k = ls_id l'" "due now' k"
    by blast
  have "k = take_lease owner ms now j"
    by (rule distinct_map_eq [OF distinct_job_ids [OF ok1] k(1) j1]) (use k(2) l(3) j(3) in \<open>simp add: take_lease_def\<close>)
  with k(3) show False by (simp add: due_def take_lease_def)
qed

theorem claims_are_disjoint_witness:
  "claimJobs sample_schema 6 (\<lambda>_. False) Chain ''x'' 1 1000 0 Qstash store2 = Inr ([], store2)
    \<and> ls_id ` set [lease_of lease1] \<inter> ls_id ` set [] = {}"
proof -
  have second: "claimJobs sample_schema 6 (\<lambda>_. False) Chain ''x'' 1 1000 0 Qstash store2 = Inr ([], store2)"
    by (simp add: claimJobs_def Let_def store2_def lease1_def queue_eval)
  from claims_are_disjoint [OF sample_claim reachable_ok [OF store1_reachable] second] second show ?thesis by simp
qed

text \<open>C21: the retry delay doubles from one second and is capped at six hours, which it reaches at the
  sixteenth attempt; it never decreases with the attempt.\<close>

theorem retry_delay_backoff:
  assumes "retryDelayMs a = Inr d"
  shows "(a \<le> 15 \<longrightarrow> d = 1000 * 2 ^ nat (a - 1)) \<and> (16 \<le> a \<longrightarrow> d = 21600000) \<and> 1000 \<le> d \<and> d \<le> 21600000
    \<and> (\<forall>b e. a \<le> b \<longrightarrow> retryDelayMs b = Inr e \<longrightarrow> d \<le> e)"
proof -
  have a: "1 \<le> a" "d = min 21600000 (1000 * 2 ^ nat (min (a - 1) 30))"
    using assms by (auto simp: retryDelayMs_def split: if_splits)
  have "a \<le> 15 \<Longrightarrow> (2::int) ^ nat (a - 1) \<le> 2 ^ 14" by (rule power_increasing) auto
  then have low: "a \<le> 15 \<longrightarrow> d = 1000 * 2 ^ nat (a - 1)" using a by (auto simp: min_def)
  have "16 \<le> a \<Longrightarrow> (2::int) ^ 15 \<le> 2 ^ nat (min (a - 1) 30)" by (rule power_increasing) auto
  then have high: "16 \<le> a \<longrightarrow> d = 21600000" using a by auto
  have "(1::int) \<le> 2 ^ nat (min (a - 1) 30)" by simp
  then have "1000 \<le> d" "d \<le> 21600000" using a by auto
  moreover have "d \<le> e" if "a \<le> b" "retryDelayMs b = Inr e" for b e
  proof -
    have e: "e = min 21600000 (1000 * 2 ^ nat (min (b - 1) 30))" using that(2) by (auto simp: retryDelayMs_def split: if_splits)
    have "(2::int) ^ nat (min (a - 1) 30) \<le> 2 ^ nat (min (b - 1) 30)" by (rule power_increasing) (use that(1) in auto)
    then show ?thesis unfolding a(2) e by (intro min.mono) auto
  qed
  ultimately show ?thesis using low high by blast
qed

theorem retry_delay_backoff_witness: "retryDelayMs 3 = Inr 4000 \<and> (4000::int) = 1000 * 2 ^ nat (3 - 1)"
proof -
  have "retryDelayMs 3 = Inr 4000" by (simp add: retryDelayMs_def)
  with retry_delay_backoff [OF this] show ?thesis by simp
qed

text \<open>The unique constraint of the attempts is never violated.\<close>

abbreviation unique_violation :: js_error where
  "unique_violation \<equiv> Error ''duplicate key value violates unique constraint''"

definition attempt_free :: "nat \<Rightarrow> nat \<Rightarrow> attempt_outcome \<Rightarrow> attempt_row list \<Rightarrow> bool" where
  "attempt_free i f out ats \<longleftrightarrow> \<not> list_ex (\<lambda>a. at_job a = i \<and> at_fencing a = f \<and> at_outcome a = out) ats"

lemma record_attempts_total:
  "(\<And>r. r \<in> set rows \<Longrightarrow> attempt_free (lf_id r) (lf_fencing r) out (st_attempts db)) \<Longrightarrow> distinct (map lf_id rows)
    \<Longrightarrow> \<exists>db'. record_attempts out code now rows db = Inr db'"
  unfolding record_attempts_def
proof (induction rows arbitrary: db)
  case (Cons r rows)
  obtain db1 where db1: "insert_attempt (lf_id r) (jb_queue r) (lf_fencing r) (lf_attempt r) out code now db = Inr db1"
    and ats: "st_attempts db1 = st_attempts db @ [\<lparr>at_id = st_seq db, at_job = lf_id r, at_queue = jb_queue r, at_fencing = lf_fencing r,
      at_attempt = lf_attempt r, at_outcome = out, at_error = code, at_started = now\<rparr>]"
    using Cons.prems(1) [of r] by (auto simp: insert_attempt_def attempt_free_def)
  have "attempt_free (lf_id q) (lf_fencing q) out (st_attempts db1)" if "q \<in> set rows" for q
    using Cons.prems that by (force simp: attempt_free_def ats)
  with Cons.IH [of db1] Cons.prems(2) db1 show ?case by auto
qed simp

lemma attempt_free_new:
  assumes "store_ok db" "j \<in> set (st_jobs db)" "lf_fencing j < f \<or> (f = lf_fencing j \<and> lf_state j = Leased \<and> out \<noteq> ALeased)"
  shows "attempt_free (lf_id j) f out (st_attempts db)"
proof -
  have False if a: "a \<in> set (st_attempts db)" "at_job a = lf_id j" "at_fencing a = f" "at_outcome a = out" for a
  proof -
    from assms(1) a(1) obtain k where k: "k \<in> set (st_jobs db)" "at_job a = lf_id k" "at_fencing a \<le> lf_fencing k"
      "at_fencing a = lf_fencing k \<and> lf_state k = Leased \<longrightarrow> at_outcome a = ALeased"
      unfolding store_ok_def job_attempts_ok_def by blast
    have "k = j" by (rule distinct_map_eq [OF distinct_job_ids [OF assms(1)] k(1) assms(2)]) (use k(2) a(2) in simp)
    with k a assms(3) show False by auto
  qed
  then show ?thesis by (auto simp: attempt_free_def list_ex_iff)
qed

text \<open>In every reachable store, claiming, recovering, completing and failing never run into the
  unique constraint on attempts: no worker's transaction is rolled back for it.\<close>

theorem attempts_never_collide:
  assumes "queue_steps initial_store db"
  shows "claimJobs schema now locked q owner limit ms g mode db \<noteq> Inl unique_violation
    \<and> recoverExpiredLeases schema now locked q limit g db \<noteq> Inl unique_violation
    \<and> (genuine_lease db l \<longrightarrow> completeJob schema now l owner digest db \<noteq> Inl unique_violation
        \<and> failJob schema now l owner code db \<noteq> Inl unique_violation)"
proof (intro conjI impI)
  have ok: "store_ok db" using reachable_ok [OF assms] .
  note d = distinct_job_ids [OF ok]
  let ?ids = "select_ids lf_id lf_next (job_due q g now) locked limit (st_jobs db)"
  obtain s1 where "record_attempts ALeased None now (map (take_lease owner ms now) (filter (\<lambda>j. lf_id j \<in> set ?ids) (st_jobs db)))
      (db\<lparr>st_jobs := update_where (\<lambda>j. lf_id j \<in> set ?ids) (take_lease owner ms now) (st_jobs db)\<rparr>) = Inr s1"
    using record_attempts_total [of "map (take_lease owner ms now) (filter (\<lambda>j. lf_id j \<in> set ?ids) (st_jobs db))" ALeased
        "db\<lparr>st_jobs := update_where (\<lambda>j. lf_id j \<in> set ?ids) (take_lease owner ms now) (st_jobs db)\<rparr>" None now]
      attempt_free_new [OF ok] d by (force simp: take_lease_def distinct_map_filter comp_def)
  then show "claimJobs schema now locked q owner limit ms g mode db \<noteq> Inl unique_violation"
    by (auto simp: claimJobs_def Let_def bindR_eq_Inl ensure_eq_Inl assertToken_def check_lease_ms_def schemaIdentifier_def
        assertActiveGeneration_def split: if_split_asm option.split_asm)
  let ?exp = "select_ids lf_id lease_expiry (\<lambda>j. jb_queue j = q \<and> expired now j \<and> jb_generation j = g) locked limit (st_jobs db)"
  have leased: "lf_state j = Leased" if "j \<in> set (st_jobs db)" "lf_id j \<in> set ?exp" for j
    using select_ids_row [OF d that] by (simp add: expired_def)
  obtain s2 where "record_attempts AExpired (Some ''lease_expired'') now (map (expire_lease now) (filter (\<lambda>j. lf_id j \<in> set ?exp) (st_jobs db)))
      (db\<lparr>st_jobs := update_where (\<lambda>j. lf_id j \<in> set ?exp) (expire_lease now) (st_jobs db)\<rparr>) = Inr s2"
    using record_attempts_total [of "map (expire_lease now) (filter (\<lambda>j. lf_id j \<in> set ?exp) (st_jobs db))" AExpired
        "db\<lparr>st_jobs := update_where (\<lambda>j. lf_id j \<in> set ?exp) (expire_lease now) (st_jobs db)\<rparr>" "Some ''lease_expired''" now]
      attempt_free_new [OF ok] leased d by (force simp: expire_lease_def distinct_map_filter comp_def)
  then show "recoverExpiredLeases schema now locked q limit g db \<noteq> Inl unique_violation"
    by (auto simp: recoverExpiredLeases_def Let_def bindR_eq_Inl ensure_eq_Inl schemaIdentifier_def
        assertActiveGeneration_def split: if_split_asm option.split_asm)
  have free: "attempt_free (ls_id l) (ls_fencing l) out (st_attempts db)" if "j \<in> set (st_jobs db)" "lease_guard l owner j" "out \<noteq> ALeased" for j out
    using attempt_free_new [OF ok that(1), of "ls_fencing l" out] guarded_job [OF that(2)] that(3) by simp
  show "completeJob schema now l owner digest db \<noteq> Inl unique_violation"
    using free [of _ ASucceeded]
    by (auto simp: completeJob_def Let_def bindR_eq_Inl ensure_eq_Inl assertToken_def schemaIdentifier_def insert_attempt_def
        attempt_free_def list_ex_iff split: if_split_asm)
  show "failJob schema now l owner code db \<noteq> Inl unique_violation"
    using free [of _ ADead] free [of _ ARetry]
    by (auto simp: failJob_def Let_def bindR_eq_Inl ensure_eq_Inl assertToken_def schemaIdentifier_def insert_attempt_def
        retryDelayMs_def attempt_free_def list_ex_iff split: if_split_asm)
qed

theorem attempts_never_collide_witness:
  "completeJob sample_schema 6 (lease_of lease1) ''w'' (hex_lit 64 (CHR ''f'')) store2 \<noteq> Inl unique_violation"
proof -
  have mem: "lease1 \<in> set (st_jobs store2)" by (simp add: store2_def)
  have "genuine_lease store2 (lease_of lease1)"
    by (rule lease_of_genuine [OF row_ok_in [OF reachable_ok [OF sample_reachable(1)] mem] mem])
  with attempts_never_collide [OF sample_reachable(1)] show ?thesis by blast
qed

lemma process_of_not [simp]: "process_of r \<noteq> PSucceeded" "PSucceeded \<noteq> process_of r"
  by (simp_all add: process_of_def split: fail_result.splits)

text \<open>When processing a delivered message reports success, the processor ran on a lease of the
  operation the envelope names, and the job is now succeeded with the hash of what it returned,
  whatever other transactions did while the processor ran.\<close>

theorem processed_job_is_completed:
  assumes "processSignedJob h schema t0 t1 verified envelope process others q owner ms g db = Inr (PSucceeded, db')"
  shows "\<exists>l result. process l = Inr result \<and> Some (ls_operationId l) = en_operationId (projr envelope)
    \<and> (\<exists>j\<in>set (st_jobs db'). lf_id j = ls_id l \<and> lf_state j = Completed \<and> jb_result j = Some (h result) \<and> lf_fencing j = ls_fencing l)"
proof -
  let ?rest = "\<lambda>l db1. case bindR (process l) (\<lambda>result. completeJob schema t1 l owner (h result) (others db1)) of
                Inr (done, db3) \<Rightarrow> Inr (if done then PSucceeded else PStale, db3)
              | Inl e \<Rightarrow> bindR (failJob schema t1 l owner ''processor_failed'' (others db1)) (\<lambda>(r, db3). Inr (process_of r, db3))"
  from assms obtain env op kind digest c where env: "envelope = Inr env" "en_operationId env = Some op"
    and cl: "claimJobByOperation schema t0 q op owner ms g db = Inr c"
    and rest: "(case c of (claimed, db1) \<Rightarrow> (case claimed of None \<Rightarrow> Inr (PDuplicateOrNotDue, db1)
         | Some l \<Rightarrow> if ls_kind l \<noteq> kind \<or> ls_payloadDigest l \<noteq> digest
           then bindR (failJob schema t0 l owner ''envelope_mismatch'' db1) (\<lambda>(r, db2). Inr (process_of r, db2))
           else ?rest l db1)) = Inr (PSucceeded, db')"
    unfolding processSignedJob_def Let_def bindR_eq_Inr prod.case case_option_eq_Inr by blast
  obtain claimed db1 where c: "c = (claimed, db1)" by (cases c)
  note cl = cl [unfolded c] and rest = rest [unfolded c prod.case]
  from rest obtain l where l: "claimed = Some l" by (cases claimed) auto
  have r: "?rest l db1 = Inr (PSucceeded, db')"
    using rest unfolding l option.case by (auto simp: bindR_eq_Inr process_of_not split: if_split_asm)
  note cl = cl [unfolded l]
  from r obtain result where p: "process l = Inr result" and c: "completeJob schema t1 l owner (h result) (others db1) = Inr (True, db')"
    by (auto simp: bindR_eq_Inr process_of_not split: sum.split_asm if_split_asm)
  from completeJob_returns [OF c] obtain j where j: "j \<in> set (st_jobs (others db1))" "lease_guard l owner j" "unexpired t1 j"
    and ins: "insert_attempt (ls_id l) (ls_queue l) (ls_fencing l) (ls_attempt l) ASucceeded None t1
        ((others db1)\<lparr>st_jobs := update_where (\<lambda>j. lease_guard l owner j \<and> unexpired t1 j)
           (\<lambda>j. finish_lease t1 j\<lparr>jb_result := Some (h result)\<rparr>) (st_jobs (others db1))\<rparr>) = Inr db'" by auto
  from ins have jobs: "st_jobs db' = update_where (\<lambda>j. lease_guard l owner j \<and> unexpired t1 j)
           (\<lambda>j. finish_lease t1 j\<lparr>jb_result := Some (h result)\<rparr>) (st_jobs (others db1))"
    by (auto simp: insert_attempt_def split: if_split_asm)
  have "finish_lease t1 j\<lparr>jb_result := Some (h result)\<rparr> \<in> set (st_jobs db')"
    using j unfolding jobs by (force simp: update_where_def)
  moreover have "ls_operationId l = op"
    using cl by (auto simp: claimJobByOperation_def Let_def bindR_eq_Inr lease_of_def take_lease_def
        split: if_split_asm list.split_asm dest!: Cons_eq_filterD [OF sym])
  ultimately show ?thesis using p env guarded_job [OF j(2)]
    by (intro exI [of _ l] exI [of _ result] conjI bexI) (auto simp: finish_lease_def)
qed

theorem processed_job_is_completed_witness:
  "\<exists>db. processSignedJob sample_hash sample_schema 5 6 (Inr ()) (Inr \<lparr>en_operationId = Some ''op'', en_kind = Some ''k'',
      en_payloadDigest = Some (hex_lit 64 (CHR ''a''))\<rparr>) (\<lambda>_. Inr ''r'') (\<lambda>db. db) Chain ''w'' 1000 0 store1 = Inr (PSucceeded, db)
    \<and> (\<exists>j\<in>set (st_jobs db). lf_state j = Completed)"
proof -
  have h: "is_lower_hex 64 (sample_hash s)" for s
    unfolding sample_hash_def by (rule hex_lit_lower_hex) (simp add: is_lower_hex_digit_def code_of_def)
  obtain db where db: "processSignedJob sample_hash sample_schema 5 6 (Inr ()) (Inr \<lparr>en_operationId = Some ''op'', en_kind = Some ''k'',
      en_payloadDigest = Some (hex_lit 64 (CHR ''a''))\<rparr>) (\<lambda>_. Inr ''r'') (\<lambda>db. db) Chain ''w'' 1000 0 store1 = Inr (PSucceeded, db)"
    by (simp add: processSignedJob_def claimJobByOperation_def completeJob_def Let_def queue_eval lease_of_def h
        lease_guard_def lease_held_def unexpired_def lease_expiry_def)
  with processed_job_is_completed [OF db] show ?thesis by blast
qed

end
