(* ===== verification/Quote_Routes.thy ===== *)
theory Quote_Routes imports TG_Text begin

text \<open>
  The route table of \<open>packages/chain/src/quote-purchase/routes.ts\<close>: for each supported token the
  pool it is bought in. An address or pool id is the number its \<open>0x\<close> literal denotes: all keys
  of the table are lowercase literals of one length, on which equality and \<open>sort\<close> of the strings
  are equality and order of the numbers. The lemmas evaluate the table: it is well formed.
\<close>

section \<open>Routes\<close>

datatype pool_version = V3 | V4

record purchase_route =
  pr_version :: pool_version
  pr_pool :: nat
  pr_input :: nat
  pr_output :: nat
  pr_fee :: nat
  pr_tickSpacing :: "int option"
  pr_hooks :: "nat option"

definition route :: "pool_version \<Rightarrow> nat \<Rightarrow> nat \<Rightarrow> nat \<Rightarrow> nat \<Rightarrow> int option \<Rightarrow> nat option \<Rightarrow> purchase_route" where
  "route v p i out f t h = \<lparr>pr_version = v, pr_pool = p, pr_input = i, pr_output = out, pr_fee = f,
     pr_tickSpacing = t, pr_hooks = h\<rparr>"

definition ZERO :: nat where "ZERO = 0"
definition WETH :: nat where "WETH = 0x0bd7d308f8e1639fab988df18a8011f41eacad73"
definition USDG :: nat where "USDG = 0x5fc5360d0400a0fd4f2af552add042d716f1d168"

section \<open>The table, in the order of the file\<close>

definition routes_1 :: "(nat \<times> purchase_route) list" where
  "routes_1 = [
    (0xd95b44124e475743a7589e68f3d74008a5536d44, route V4 0x5d0434f1dcf45ff9450c1a63b5c9e088f90cfebf483458164e81be6fb96e2b2a USDG 0xd95b44124e475743a7589e68f3d74008a5536d44 10000 (Some 100) (Some ZERO)),
    (0x1cdad396db64bda184d5182a97dd9b3c62100b7d, route V4 0x502eedd0e88e8a8f374ee4a37c432f2cb75287f499273133600fa3d64f251f23 ZERO 0x1cdad396db64bda184d5182a97dd9b3c62100b7d 50000 (Some 500) (Some ZERO)),
    (0x44f6d488021f8233b9416294d1fe9b1fee28382d, route V4 0x08d99268a599777de8aff18c129d0d75d7e812ded53cee689ec475ae4ea1971a ZERO 0x44f6d488021f8233b9416294d1fe9b1fee28382d 48000 (Some 480) (Some ZERO)),
    (0xbbd09f72b025360fee5c928053dca6248d35be54, route V3 0xfce637eead7d62d9ed27f81d9767de03e9e534cf USDG 0xbbd09f72b025360fee5c928053dca6248d35be54 10000 (Some 200) None),
    (0xb8dbf92f9741c9ac1c32115e78581f23509916fd, route V4 0xac7846c1475c97705b59427f5b697cfa8705480f81ba3cd28058b031d0407ebf ZERO 0xb8dbf92f9741c9ac1c32115e78581f23509916fd 50000 (Some 200) (Some ZERO)),
    (0x5f604fba1162193a4388a5dfa56f556f3e133cc2, route V4 0x361f0fb512c4ce83c253cc4235c3e85f2e60658c2d2f22a0ae06595b7907df45 ZERO 0x5f604fba1162193a4388a5dfa56f556f3e133cc2 49500 (Some 495) (Some ZERO)),
    (0x5b97476b922f3305131b8f0b9d333172e87f4aae, route V4 0x29eec7b9315ec3af9cf1ba669b7cdb53d7a0d5996cefed500fd5ba7e05152db9 ZERO 0x5b97476b922f3305131b8f0b9d333172e87f4aae 50000 (Some 200) (Some ZERO)),
    (0xc583c60aef9dc401da72cec1b404743a93cea1cc, route V4 0x1ff317d83d0169c92ea96e287a7c60289c17908e833de0a478bdf3facf4d2db8 ZERO 0xc583c60aef9dc401da72cec1b404743a93cea1cc 50000 (Some 500) (Some ZERO)),
    (0x93dbb1d2dc5d63f4abacff30485273f538df68ac, route V4 0x4fdf89b864a4b25f6b92bbd3e380a61a42c6087b485dde3249d99b6b953904ff USDG 0x93dbb1d2dc5d63f4abacff30485273f538df68ac 10000 (Some 100) (Some ZERO)),
    (0xc93f4d80e268ab922e871bd169156c3cc41894e6, route V4 0x84884c274899f7f55557193e303e9c1f636ea39e5e820ca331bee3b19e18741f ZERO 0xc93f4d80e268ab922e871bd169156c3cc41894e6 49000 (Some 490) (Some ZERO)),
    (0xc01aa1fecec0605b13bc84874ff7256c0f5f562a, route V4 0x7bacabc3e0325f74fc51230a90a1e1fe54c05ca7c14c390c1780b593f137161a ZERO 0xc01aa1fecec0605b13bc84874ff7256c0f5f562a 50000 (Some 1000) (Some ZERO)),
    (0x941ae714ec6d8130c7b75d67160ca08f1e7d11dd, route V3 0x61346cd249a6453fba2ada35f210376ac0b4957c WETH 0x941ae714ec6d8130c7b75d67160ca08f1e7d11dd 3000 (Some 60) None),
    (0x48961813349333209994750ffa89b3c5c22ec969, route V4 0x92dd9b47059317927dc7f8bce0982a6d7bf2a3c135e74db4864c968bed5290ff ZERO 0x48961813349333209994750ffa89b3c5c22ec969 49500 (Some 495) (Some ZERO)),
    (0x756bc80af765c82da966a788858d65adf14f3793, route V4 0x87be5bc8f3196643f962d5d28fc9121f7c6c7b79f56d54827c76ef8c06d94020 USDG 0x756bc80af765c82da966a788858d65adf14f3793 6000 (Some 60) (Some ZERO)),
    (0x82da4646242e1d962e96e932269dc644c94a9caa, route V4 0x84d02cefcc23186672bab674b960bdef18384d56490926910f22b0d10d116f10 ZERO 0x82da4646242e1d962e96e932269dc644c94a9caa 50000 (Some 200) (Some ZERO)),
    (0x4a0e65a3eccec6dbe60ae065f2e7bb85fae35eea, route V3 0xc61284332117c3fb23a2a56cceffd07f7af60029 USDG 0x4a0e65a3eccec6dbe60ae065f2e7bb85fae35eea 500 (Some 10) None)]"

definition routes_2 :: "(nat \<times> purchase_route) list" where
  "routes_2 = [
    (0x2d427692e928fa156ec22acfabafa0447c5805b7, route V4 0x2fdca0bb38d6737a9b995ec30998b5de9511e7b08cf7c77306397220443e799b USDG 0x2d427692e928fa156ec22acfabafa0447c5805b7 2500 (Some 25) (Some ZERO)),
    (0xea72ecca2d0f6bfa1394dbbcff85b52cd4233931, route V4 0x1d054a6687f34076dd00937c34d827aecf101ef0879f00a46b39409dba69f680 ZERO 0xea72ecca2d0f6bfa1394dbbcff85b52cd4233931 50000 (Some 500) (Some ZERO)),
    (0x156e175dd063a8ce274c50654ef40e0032b3fbcf, route V3 0x5b7c404f1d7d77f9f3885ab13d7764f8a173028c USDG 0x156e175dd063a8ce274c50654ef40e0032b3fbcf 3000 (Some 60) None),
    (0x117cc2133c37b721f49de2a7a74833232b3b4c0c, route V4 0xe5923c8a8be481ec89a2ca784a2bbfa4235de6d88f92260fd66b660c4babf907 USDG 0x117cc2133c37b721f49de2a7a74833232b3b4c0c 500 (Some 5) (Some ZERO)),
    (0x9651342cea770ae9a2969ba2a52611523146aef9, route V3 0xb19ace635ef3a28b85bfb01bae97d0de80750680 USDG 0x9651342cea770ae9a2969ba2a52611523146aef9 10000 (Some 200) None),
    (0xc9a981fee1f9dec688bb123ccdecc63d0debfc4e, route V3 0xba2f1ed4ceb2169d538d1e614d847e83c5a55913 USDG 0xc9a981fee1f9dec688bb123ccdecc63d0debfc4e 500 (Some 10) None),
    (0xba0cab75495255d0cb58e22b648bfed4ecd1f47e, route V4 0xac720e95589b7124f0affbdb9e66c7ec6e824c68eae00dc54f9e11b0b294bac8 USDG 0xba0cab75495255d0cb58e22b648bfed4ecd1f47e 10000 (Some 200) (Some ZERO)),
    (0xa48f22a46c0f1c46ca7d111cb6c137c271987180, route V4 0x6ae9a056661ecc9015a54e48fdc02a0f798ef06e04d7837c7a3c39fcc62c3ee3 ZERO 0xa48f22a46c0f1c46ca7d111cb6c137c271987180 48700 (Some 487) (Some ZERO)),
    (0x4189f0c66ebbb0bfef1c31f763131361ef32f77c, route V4 0x6b3faf5cf92ead741d06cbbff7f424caab3a3d0d7b4806e13caba6d1d81ae3d7 ZERO 0x4189f0c66ebbb0bfef1c31f763131361ef32f77c 49500 (Some 495) (Some ZERO)),
    (0xd5f3879160bc7c32ebb4dc785f8a4f505888de68, route V4 0x40156467240220368e7d8c4400de96f15f674f1954f501dc34389d1b521e4a84 USDG 0xd5f3879160bc7c32ebb4dc785f8a4f505888de68 375 (Some 4) (Some ZERO)),
    (0x9e7abd3c9139d14e4c86dce0e455aab7a0c2fb3e, route V3 0x2a3063e34c60253abb23c2442f4cdfbc5cbd02c2 USDG 0x9e7abd3c9139d14e4c86dce0e455aab7a0c2fb3e 3000 (Some 60) None),
    (0xbef75684c43c4ea7bd18dd532a2244674ee8b926, route V4 0x9b0ca1c4906f6517a12802513c3ae6f1c1e3ec47d81c6d23437fc401b6e2771b USDG 0xbef75684c43c4ea7bd18dd532a2244674ee8b926 10000 (Some 100) (Some ZERO)),
    (0x63b814ddbd6bf339f25fed8c36158a008d5b373e, route V4 0x6bf00eb49fa8d3713cb0f77e9a11f9acd9f5363fc4824e13488acfa28d90dc2d USDG 0x63b814ddbd6bf339f25fed8c36158a008d5b373e 20000 (Some 200) (Some ZERO)),
    (0xf6589f11bc40b669e584073f428b05562f568733, route V4 0x2e4cc4c65587faca7a08b69a13c86ca8c86599d90ad818ceaa1a875176f5fb52 USDG 0xf6589f11bc40b669e584073f428b05562f568733 1950 (Some 20) (Some ZERO)),
    (0x84cab63bc87912e71ad199ff14a0ba45de68fef8, route V3 0x5f2a5025feb93a4c44da4e3b37e4fd3fb0ab5171 USDG 0x84cab63bc87912e71ad199ff14a0ba45de68fef8 3000 (Some 60) None),
    (0x5c90450bbb4273d7b2f17cf6917aeb237a569679, route V4 0x52c4673e8afaae9e6f27776bf567d8eb7d98881409ccbf355ed044717e26735d ZERO 0x5c90450bbb4273d7b2f17cf6917aeb237a569679 50000 (Some 500) (Some ZERO)),
    (0xeb30663bdff0622ef4e4e5cbb4e975f19f33f51d, route V4 0x58dbfebf1974b036a248566f2d80862477b3f09c0ec921f253beb24535d12dc6 ZERO 0xeb30663bdff0622ef4e4e5cbb4e975f19f33f51d 50000 (Some 500) (Some ZERO))]"

definition routes_3 :: "(nat \<times> purchase_route) list" where
  "routes_3 = [
    (0x58ffe4a942d3885baa22d7520691f611ef09e7aa, route V4 0x0ba5d53d2f6255f334b7c8ead4f56b6aef5af3402c5e4d11180afd38c6b85fb1 USDG 0x58ffe4a942d3885baa22d7520691f611ef09e7aa 7500 (Some 75) (Some ZERO)),
    (0x408c14038a04f7bd235329e26d2bf569ee20e250, route V3 0x0e3faed512e7909758eb924e6919e0057bd6b45e USDG 0x408c14038a04f7bd235329e26d2bf569ee20e250 3000 (Some 60) None),
    (0xc72b96e0e48ecd4dc75e1e45396e26300bc39681, route V3 0x2e5a92f5013a64661a49312111be2e8abd33f56a USDG 0xc72b96e0e48ecd4dc75e1e45396e26300bc39681 3000 (Some 60) None),
    (0xe93237c50d904957cf27e7b1133b510c669c2e74, route V4 0xdd04fe28b7f5fcb07b492cfd434286ff1a54b12eaa69ff00a2807fa1f2adc6a8 USDG 0xe93237c50d904957cf27e7b1133b510c669c2e74 900 (Some 9) (Some ZERO)),
    (0xfde6b5d9bb419b10c23268c74e369abff39c0460, route V4 0xd3c27381f7d1ef4dcd8ec4ba66e74fe88d06ab5250c1393769d4dd0e996a8dc9 USDG 0xfde6b5d9bb419b10c23268c74e369abff39c0460 2500 (Some 25) (Some ZERO)),
    (0x284358abc07f9359f19f4b5b4ac91901be2597ba, route V4 0x27e22cc81d01ca660aabd013462df5f8f940d85e9c760fec6cf2b3dab5ac46c6 ZERO 0x284358abc07f9359f19f4b5b4ac91901be2597ba 50000 (Some 200) (Some ZERO)),
    (0x5e81213613b6b86eab4c6c50d718d34359459786, route V4 0xd5850279c17e422d8ad108691254df010af9c6f8fcec0b586b89133100096556 USDG 0x5e81213613b6b86eab4c6c50d718d34359459786 2000 (Some 2) (Some ZERO)),
    (0xc0d6457c16cc70d6790dd43521c899c87ce02f35, route V4 0xb85fa44cbde163fbaa51b861b0fb997d8b2783bd914aba9e0038ffa8df735e09 USDG 0xc0d6457c16cc70d6790dd43521c899c87ce02f35 600 (Some 6) (Some ZERO)),
    (0x6006ed4b2f94110851ff7509d97d034f0eed9226, route V4 0xa1f9cad15a9e12d9fdb4e2de9924f4378904f5acdac6b1d9641761cf37054b6a ZERO 0x6006ed4b2f94110851ff7509d97d034f0eed9226 49000 (Some 490) (Some ZERO)),
    (0x89776d4cd68193597a2fc132cfac1fde36ccea8a, route V4 0xcfc70821a66e31d741e03bebbe5372667675eb4303060ef2988775034b72cafe ZERO 0x89776d4cd68193597a2fc132cfac1fde36ccea8a 47000 (Some 470) (Some ZERO)),
    (0x05b37fb53a299a1b874a619e1c4c404d52c36f4c, route V3 0x714187eed11d8fc9500ff6798734c8bb63a8a19b WETH 0x05b37fb53a299a1b874a619e1c4c404d52c36f4c 3000 (Some 60) None),
    (0x7c04e6a3368f2a1de3874f0e80d2e0a1a9915da6, route V4 0x5363d7374a647d5c0b5ac514c67427d26cc81b516c25df770223193a274507e9 ZERO 0x7c04e6a3368f2a1de3874f0e80d2e0a1a9915da6 49500 (Some 495) (Some ZERO)),
    (0xf23250dac154d05bb671cb0d0ebef3c635c79ce2, route V4 0x62982f45f29ed197c4c98427bdd18b76ff692630027c5fe5c5f6dcbd9a85310a ZERO 0xf23250dac154d05bb671cb0d0ebef3c635c79ce2 1200 (Some 12) (Some ZERO)),
    (0xb039597ed45cba7b6e2fb9e8be51802969cee5be, route V4 0x38f44c508b4e5a3432ea8915bf7c424ec591ff349ba7f2b74821576351748efd ZERO 0xb039597ed45cba7b6e2fb9e8be51802969cee5be 50000 (Some 500) (Some ZERO)),
    (0x48d60243c66437c6ac3c2495be94747aed5dfe25, route V4 0x908ad1c8b831e15c8016116429731d952d0b50dd525ee7751764149f605771ef USDG 0x48d60243c66437c6ac3c2495be94747aed5dfe25 20000 (Some 200) (Some ZERO)),
    (0x03bc731ffb162cdd7b98d3c6542bfc291126075d, route V4 0x6edaf089b86a262e86caa0d40c693502e59de8781402de5f89d2de8e5a230070 USDG 0x03bc731ffb162cdd7b98d3c6542bfc291126075d 20000 (Some 200) (Some ZERO))]"

definition routes_4 :: "(nat \<times> purchase_route) list" where
  "routes_4 = [
    (0xb90a19ff0af67f7779aff50a882a9cff42446400, route V3 0x995c1ad5eb998b1bdd89f515c4bb64760c411b62 WETH 0xb90a19ff0af67f7779aff50a882a9cff42446400 3000 (Some 60) None),
    (0x4d21483a44bf67a86b77e3da301411880797d452, route V4 0x1bd266afaf99164a3913a959e4d27698c51fe51535bbe0af0718d7ae666c7e10 USDG 0x4d21483a44bf67a86b77e3da301411880797d452 2000 (Some 20) (Some ZERO)),
    (0x56d23bee5f41a7120170b0c603dae30128e460e9, route V4 0x42473e27f793b7a3b71b225729e3962651c5dfea6d7fa078a44dc8a4adf3d9bf USDG 0x56d23bee5f41a7120170b0c603dae30128e460e9 30000 (Some 300) (Some ZERO)),
    (0x39ec44bee4f6a116c6f9b8de566848a985c53c60, route V4 0xde350b1f58a33826eecbc54c599ab87391a13a14d5eb4992b4f09b78eba4d49f USDG 0x39ec44bee4f6a116c6f9b8de566848a985c53c60 10000 (Some 100) (Some ZERO)),
    (0x12f190a9f9d7d37a250758b26824b97ce941bf54, route V4 0xefc94885c96b02696b9b45de43eeeb8ac53c0199cab42b4daae4911b96fb8825 USDG 0x12f190a9f9d7d37a250758b26824b97ce941bf54 2400 (Some 24) (Some ZERO)),
    (0xe0444ef8bf4ed74f74fd73686e2ddf4c1c5591e8, route V4 0xc3ce6292ae631e73a6adc6faaad7d10e326a9d11517a6dfcd001345d20097df4 USDG 0xe0444ef8bf4ed74f74fd73686e2ddf4c1c5591e8 1500 (Some 15) (Some ZERO)),
    (0xdf0992e440dd0be65bd8439b609d6d4366bf1cb5, route V4 0x5177eac8c2176468bbf15e44081e151d35c2e7d068e96d3db94f496a4dc944b2 USDG 0xdf0992e440dd0be65bd8439b609d6d4366bf1cb5 1500 (Some 15) (Some ZERO)),
    (0xd917b029c761d264c6a312bbbcda868658ef86a6, route V3 0x04391780f519b7d3ba59c9590459d76e23d225c4 USDG 0xd917b029c761d264c6a312bbbcda868658ef86a6 3000 (Some 60) None),
    (0x561e2a49212b7ccf47f2744ccb83e200722fadbc, route V4 0xa10251ee66f7d51f7410811ab5dacae1f0a32b7ee7f94566a0359ef96b405fb0 ZERO 0x561e2a49212b7ccf47f2744ccb83e200722fadbc 50000 (Some 500) (Some ZERO)),
    (0xf543967eebb6f1917992ef0e68de63ab07a5a0da, route V4 0x0dc674af3aa8f4395dcb338787784d492684ca60b98b6f672196cb084cca1fbd ZERO 0xf543967eebb6f1917992ef0e68de63ab07a5a0da 50000 (Some 500) (Some ZERO)),
    (0x9ece29a4a2397c0a35fb5fa8ee2b9509130a98cc, route V4 0xf5634d8c996cb63836a91c9fcbc18171ae9bb2d98a4c4e627aa96aab9b63d5b1 ZERO 0x9ece29a4a2397c0a35fb5fa8ee2b9509130a98cc 50000 (Some 500) (Some ZERO)),
    (0x2e0847e8910a9732eb3fb1bb4b70a580adad4fe3, route V3 0x34d0dc122cf9a8eb296fc5e0d3a233625d7d19b7 USDG 0x2e0847e8910a9732eb3fb1bb4b70a580adad4fe3 500 (Some 10) None),
    (0x48e39e56acdba37b09020c0b734a613c9a2f100a, route V3 0x183304567485e97e68835708f572aaa0e0e71d08 WETH 0x48e39e56acdba37b09020c0b734a613c9a2f100a 10000 (Some 200) None),
    (0xa4f319104089fe321dc8093c6e707d4fe190a988, route V4 0x37bab26ff48790bf68f287f1ade826288d091a9d527357d8a25b5f7f9700b90b ZERO 0xa4f319104089fe321dc8093c6e707d4fe190a988 50000 (Some 500) (Some ZERO)),
    (0x141eea040c2250eec0314e336975e81f85f6585e, route V4 0x47d2dc7d27a3d6da9be82fba26ee4aaab935246adde2f0d98431c9cdbbc46978 ZERO 0x141eea040c2250eec0314e336975e81f85f6585e 50000 (Some 500) (Some ZERO)),
    (0xc6cbad1016b38b797610c25e1dc7d95988b1f362, route V4 0xd80181d68dfc90f15b2357c5de6ba13895058bbb5a551ded07d1e0fc660fd44d ZERO 0xc6cbad1016b38b797610c25e1dc7d95988b1f362 50000 (Some 200) (Some ZERO)),
    (0x4e62068525ab11fe768e29dfd00ef909b9803016, route V3 0x0f4227d27082b3bca6818381b9ea6460275e49f4 USDG 0x4e62068525ab11fe768e29dfd00ef909b9803016 3000 (Some 60) None)]"

definition routes_5 :: "(nat \<times> purchase_route) list" where
  "routes_5 = [
    (0x329fcaceb9ad6f9580dd5f643fed0646900d043c, route V4 0x0b118d2480ebdb11374d3ad2ea1b935e9458a9f704222004b3b8de07bc98f1eb USDG 0x329fcaceb9ad6f9580dd5f643fed0646900d043c 5000 (Some 50) (Some ZERO)),
    (0xb853bc83a753342a4f8320ea680b4b1e84118d21, route V4 0xf7157cada27780cdf65d8ab74168d0891206bc050c000baec35cb36893e4706d ZERO 0xb853bc83a753342a4f8320ea680b4b1e84118d21 49000 (Some 490) (Some ZERO)),
    (0x92fd66527192e3e61d4ddd13322aa222de86f9b5, route V4 0x834b8424f719784726e0182701ca18416993a62b56b16e403ede94a48a5793a3 USDG 0x92fd66527192e3e61d4ddd13322aa222de86f9b5 200 (Some 2) (Some ZERO)),
    (0x40e7a279850e443f582059ae5dc1c3b6563e6395, route V4 0xec9f7f5b027987e958da9fecee0d3e73ad4adac95755e201e5efbce019b47956 ZERO 0x40e7a279850e443f582059ae5dc1c3b6563e6395 49000 (Some 490) (Some ZERO)),
    (0xf0ab0c93be6f41369d302e55db1a96b3c430212d, route V4 0x2566088fd6aa48831800109ad3360328f6c4131da2043b948e1bacdde5151e9f USDG 0xf0ab0c93be6f41369d302e55db1a96b3c430212d 9000 (Some 90) (Some ZERO)),
    (0x43b07d15ce533bec5476d70c22a78a1b2b662155, route V3 0xb40196272a6d2eb5edf6d93bc4dc39856ad95e0e USDG 0x43b07d15ce533bec5476d70c22a78a1b2b662155 3000 (Some 60) None),
    (0x57b0030166db0c31690d1a5aa167e2e26e2c29a4, route V4 0x545f5bc9a76365f5d838a9aef6e184177f49d491519306f639c93743365c1656 ZERO 0x57b0030166db0c31690d1a5aa167e2e26e2c29a4 50000 (Some 500) (Some ZERO)),
    (0xae517a2903e68bd929dfd15be875f8369d53e94a, route V3 0xc9529b7dc74bf15da6cee01a282908e8c7ab6ba3 USDG 0xae517a2903e68bd929dfd15be875f8369d53e94a 10000 (Some 200) None),
    (0x748c32c3ca24edf31ea597db1f3d330a7a6da3dc, route V4 0xfefd43410dc8dec18294dc6eb4ac418bde567b8944ffa35e45c6b0923fb5dd32 ZERO 0x748c32c3ca24edf31ea597db1f3d330a7a6da3dc 50000 (Some 500) (Some ZERO)),
    (0xb1cc0ec7db69cf43539119814df40071b9d61793, route V4 0xde8f6953e20ad746524e3e45e484b18b8595ba6da20526d9973c79d80a9f961c ZERO 0xb1cc0ec7db69cf43539119814df40071b9d61793 48000 (Some 480) (Some ZERO)),
    (0xcef9027c7d6985b85f0ba431125073529a947a68, route V4 0xdfc620485cebd394955e7cde9e3d336ec8dabe24a7c80c4b9de71ea896208e79 USDG 0xcef9027c7d6985b85f0ba431125073529a947a68 8000 (Some 50) (Some ZERO)),
    (0xcf364ea52787e289de6f32077834056e3e70d6a8, route V4 0x968046797b360bc9af4ac59faa255018d17064412c7a32ae2938e6cf6edabd94 ZERO 0xcf364ea52787e289de6f32077834056e3e70d6a8 50000 (Some 500) (Some ZERO)),
    (0x62200915e7deab1ec7f79fb246dadbb80eacddd0, route V4 0x73fa85bb27e0168f5fea56d0959a0b19d09930b62879cb99fca3a0dcbbf151bf USDG 0x62200915e7deab1ec7f79fb246dadbb80eacddd0 9000 (Some 90) (Some ZERO)),
    (0xad25ac6c84d497db898fa1e8387bf6af3532a1c4, route V4 0x1791fc651cc794a282e5dbcb56d0b2b38eff8754b677c8876e86901521ecc439 USDG 0xad25ac6c84d497db898fa1e8387bf6af3532a1c4 1000 (Some 10) (Some ZERO)),
    (0x77e655e37f4d913fb9540e0d541d824171a60e81, route V4 0xab99c0156e7107cfcdf445b7ab53cf5e547d4a906c434093ce40bfed7a140efe USDG 0x77e655e37f4d913fb9540e0d541d824171a60e81 30000 (Some 300) (Some ZERO)),
    (0xf52597345a8edf418bc4071b4a35112472277d3e, route V4 0xf59909ae5c97ac41157d3841e128ceb495399903883a42e4411cfa7a4840ae52 ZERO 0xf52597345a8edf418bc4071b4a35112472277d3e 50000 (Some 500) (Some ZERO))]"

definition routes_6 :: "(nat \<times> purchase_route) list" where
  "routes_6 = [
    (0xcbb95bbf36099d34da091dc6fa6f49efa257cee3, route V4 0x40e4ceb2358e0fbd20c4d77c62b4830f3363966995e5e54600917de034f77b8d ZERO 0xcbb95bbf36099d34da091dc6fa6f49efa257cee3 49000 (Some 490) (Some ZERO)),
    (0x894e1ec2d74ffe5aef8dc8a9e84686accb964f2a, route V3 0x851680416a4f4e1c463d45171d61acddbc8554c0 USDG 0x894e1ec2d74ffe5aef8dc8a9e84686accb964f2a 3000 (Some 60) None),
    (0xff080c8ce2e5feadaca0da81314ae59d232d4afd, route V3 0xfd4911302ba5c25d153a6912b394a72d0a9601f2 WETH 0xff080c8ce2e5feadaca0da81314ae59d232d4afd 3000 (Some 60) None),
    (0x1af6446f07eb1d97c546afc8c9544cbdf3ad5137, route V4 0xd94506f18e4d618fba9653e48af35df392ce91d30ea0bff327ad8a1102e11942 USDG 0x1af6446f07eb1d97c546afc8c9544cbdf3ad5137 25000 (Some 250) (Some ZERO)),
    (0x237c16d66590f67b886d978acd362eaead8b18c7, route V4 0xb9a7b9c03c6f8da513c7f9ed460f2171417a0df386fe7238efd096bbef9687f6 ZERO 0x237c16d66590f67b886d978acd362eaead8b18c7 50000 (Some 200) (Some ZERO)),
    (0x0594134df3f171a354d9c85ebd65b7a6148f6d09, route V3 0xb78dd1a97fa544c65d7d1f12453ecaaf1e05c36d USDG 0x0594134df3f171a354d9c85ebd65b7a6148f6d09 10000 (Some 200) None),
    (0x3b14c39e89d60d627b42a1a4ca45b5bb45fc12e2, route V4 0x1842905adc4a34f5c21df540eedd60adb7e0847056b9be223c31183af102b68e ZERO 0x3b14c39e89d60d627b42a1a4ca45b5bb45fc12e2 2500 (Some 25) (Some ZERO)),
    (0x2778c5024d5ca2cdb0f8ead671ffc69963adcd9c, route V4 0x6b4812010ce7b82aaa30af7baf7b41ec587ae544c47b239c4cee458cb002f8cb ZERO 0x2778c5024d5ca2cdb0f8ead671ffc69963adcd9c 50000 (Some 500) (Some ZERO)),
    (0x5f10a1c971b69e47e059e1dc91901b59b3fb49c3, route V4 0x237014478f7ef98afbe7412ac35b6a3f96b8fb111de48b7c4dbf49dba4bd9c4b USDG 0x5f10a1c971b69e47e059e1dc91901b59b3fb49c3 9000 (Some 90) (Some ZERO)),
    (0xbf449977089c718c004a66c554b26b94ef3ad4de, route V4 0x568633ce8967d55c31ce8b8f565ee58b301db699a7543d8381b256a57e75fbf1 ZERO 0xbf449977089c718c004a66c554b26b94ef3ad4de 50000 (Some 500) (Some ZERO)),
    (0x41f4267525a8aff329540ef24fd83d9044758b33, route V3 0xca5904c0a9d42f0ec1bf760fdf779907877144fd USDG 0x41f4267525a8aff329540ef24fd83d9044758b33 3000 (Some 60) None),
    (0x86923f96303d656e4aa86d9d42d1e57ad2023fdc, route V4 0x529838496d45557bbe794413893c54787ac063b4505b31a722a69999cf741ab3 USDG 0x86923f96303d656e4aa86d9d42d1e57ad2023fdc 1500 (Some 15) (Some ZERO)),
    (0x7f0abef0c07280f82c6a08ead09ded6bae2c13fc, route V4 0x3cba52145fb271e4a76f44df3d8b86f460a04e767841bcb8288a02729047dbbb USDG 0x7f0abef0c07280f82c6a08ead09ded6bae2c13fc 5000 (Some 50) (Some ZERO)),
    (0x285b231728c7e4333799183df1094d775246a535, route V4 0x7539a5846c5720adc2461cfcc2674e767860a9faffbf9ef756f6f76476410afd ZERO 0x285b231728c7e4333799183df1094d775246a535 50000 (Some 500) (Some ZERO)),
    (0x4d67253bc223e6b0e104f1084c1fb2b669ddc41b, route V4 0x595d46b6ac80fcbc35cf07fbde5252d1cc7a68363e3e1e30a4a68101f3ea73e2 ZERO 0x4d67253bc223e6b0e104f1084c1fb2b669ddc41b 50000 (Some 500) (Some ZERO)),
    (0x072f979c2cac8e1391b0162a87fee094bf8744a0, route V4 0xd4c09b469af5c558fc87d242967efa1f2dcb7e5d2e7bcc5c6a7228e9fe2c7665 ZERO 0x072f979c2cac8e1391b0162a87fee094bf8744a0 50000 (Some 500) (Some ZERO))]"

definition routes_7 :: "(nat \<times> purchase_route) list" where
  "routes_7 = [
    (0xfa78c12e6488814a0262e4e802749a4a737d5fb7, route V4 0xff653b276acea179f3a4f6226c87fe95295da8e5cba47a7b716eef0eb444a2c7 ZERO 0xfa78c12e6488814a0262e4e802749a4a737d5fb7 50000 (Some 500) (Some ZERO)),
    (0x0c3260af4b8f13a69c4c2dfb84fd667890cdfa14, route V4 0xc56a28baafe3bcb71c4243043a186347ed7c8751abf4d84b82563f43a50e81cf USDG 0x0c3260af4b8f13a69c4c2dfb84fd667890cdfa14 19000 (Some 190) (Some ZERO)),
    (0x15cd20759ce7f3285c29a319de2d1a2e098c6f43, route V4 0xae84c62eb66f69bf94262fbe0d65029c2eb27d1a6f3712d06e7521caad0cba00 ZERO 0x15cd20759ce7f3285c29a319de2d1a2e098c6f43 50000 (Some 500) (Some ZERO)),
    (0x99d9d8663545151603863c5acbd6fc3218899009, route V4 0x767f3d7cd19ce87cdd7388325d10e19d979187ffe3f288b7cea05bb29f00a62a ZERO 0x99d9d8663545151603863c5acbd6fc3218899009 50000 (Some 500) (Some ZERO)),
    (0xd0601ce157db5bdc3162bbac2a2c8af5320d9eec, route V4 0x6444a8e0b267406a15db74ca00c4a24bdfa81ed3180f5b6d0851f8ed6f4f29c5 USDG 0xd0601ce157db5bdc3162bbac2a2c8af5320d9eec 100 (Some 1) (Some ZERO)),
    (0xb334c5ce741b80b5b671f47f5c269cb193fe8e24, route V4 0x5ac0d300231e792db1528aecaf28af5f81700efd7ac6cf222500ef5f8934d898 USDG 0xb334c5ce741b80b5b671f47f5c269cb193fe8e24 25000 (Some 250) (Some ZERO)),
    (0x59818904ab4ce163b3ce4ffb64f2d6ca02c434b4, route V3 0x227bbce9a81b3694b01754298a983be3f9e44a93 USDG 0x59818904ab4ce163b3ce4ffb64f2d6ca02c434b4 3000 (Some 60) None),
    (0xa30fa36db767ad9ed3f7a60fc79526fb4d56d344, route V4 0x1f2ad5a274a776d8e1408292bde1d92d8fa7b6444acf14ad60b9c3e4e5b66420 USDG 0xa30fa36db767ad9ed3f7a60fc79526fb4d56d344 1200 (Some 15) (Some ZERO)),
    (0x9ab02ead789b6903c3c44d0ed32f9c707cdf12fd, route V4 0x8ace3c12c92ce921274ce25d8fb00cd03a7f27736577d4deff386358d31dbb3a ZERO 0x9ab02ead789b6903c3c44d0ed32f9c707cdf12fd 50000 (Some 200) (Some ZERO)),
    (0x25c288e6d899b9bc30160965ad9644c67e73be0c, route V3 0x4dbac19e895322ac5b93abad9008691632bffc05 USDG 0x25c288e6d899b9bc30160965ad9644c67e73be0c 3000 (Some 60) None),
    (0x7dc013eb55e436f30d7ed1afe4e36d6e45e3c3f7, route V4 0x39d448c15645d1d4fd0bffa7b91d98ba2bd235508e147c48d2dac2877efc0dc1 ZERO 0x7dc013eb55e436f30d7ed1afe4e36d6e45e3c3f7 49500 (Some 495) (Some ZERO)),
    (0x6330d8c3178a418788df01a47479c0ce7ccf450b, route V3 0x6707aeac7d0e519b083219d27bb427364363183a WETH 0x6330d8c3178a418788df01a47479c0ce7ccf450b 3000 (Some 60) None),
    (0xf9b46d3d1b22199d4d1025a9cedb540a33f1a2d5, route V4 0x98ebc2fbebae0a7d88367485a68ec6e2b457b3896240131f945a150ba277fc08 USDG 0xf9b46d3d1b22199d4d1025a9cedb540a33f1a2d5 20001 (Some 200) (Some ZERO)),
    (0x9d9c6684f596f66a64c030b93a886d51fd4d7931, route V4 0x7c2f9ce1214ba9baf56d1b6a1fc640c1b63e9a711172c0c7d10e5a9c4a3d4f0c USDG 0x9d9c6684f596f66a64c030b93a886d51fd4d7931 9900 (Some 99) (Some ZERO)),
    (0xbe274710bf3d9567e1b290ef6a5f9f90ca016fd8, route V4 0x768b3c7809afd191f99027866d40a43960408d39554835821b1159ea208daa2e USDG 0xbe274710bf3d9567e1b290ef6a5f9f90ca016fd8 48380 (Some 1) (Some ZERO)),
    (0x1eebee7f74517e0279dfb09d25b0407beec3fdd6, route V4 0x70c362347ec9a031e5f2d3b816baed2af9ff56b6302b5b0112b51e207fc812db ZERO 0x1eebee7f74517e0279dfb09d25b0407beec3fdd6 50000 (Some 500) (Some ZERO))]"

definition routes_8 :: "(nat \<times> purchase_route) list" where
  "routes_8 = [
    (0x6e3dfd9f7e1649baa14d25cac18c94d62db10a54, route V4 0x3d2a14a63d4695bcc3403123cd84d287d0bfb932fe94599bb18df00a9b298d8b USDG 0x6e3dfd9f7e1649baa14d25cac18c94d62db10a54 2654 (Some 27) (Some ZERO)),
    (0xcf6b2d875361be807eafa57458c80f28521f9333, route V3 0xa1c781ed62ac2d0283f50ff5a843647a56ddd80a USDG 0xcf6b2d875361be807eafa57458c80f28521f9333 10000 (Some 200) None),
    (0xa249baf1063af884807c1e1400aef7784836917e, route V4 0x7e34702b6f1a53005f5ea94b72b21d51864b38a09be0da6846ece0d51eac8645 ZERO 0xa249baf1063af884807c1e1400aef7784836917e 50000 (Some 500) (Some ZERO)),
    (0x521cf887e6531c6f667b5bc4d896e5d9bfe8eb2e, route V4 0x36b652d2f4bde8958638747d3e45fcb2089fbd2a3c298a17d0d5b458e25c3228 ZERO 0x521cf887e6531c6f667b5bc4d896e5d9bfe8eb2e 50000 (Some 500) (Some ZERO)),
    (0x8ef20885f94e3d9bc7eb3080279188bd5ed7c08c, route V4 0xe2c508ce68ebc3a04a5000cc3659905bb391d390e5b8994d0a65ba316ec326c2 USDG 0x8ef20885f94e3d9bc7eb3080279188bd5ed7c08c 10000 (Some 100) (Some ZERO)),
    (0xfaf9cb261b5fcc1f404bb10cd39c5c6c1974e612, route V4 0xe138f151edae48fda5caae984589c59c1cdb923893b33158999f078889850d05 ZERO 0xfaf9cb261b5fcc1f404bb10cd39c5c6c1974e612 50000 (Some 200) (Some ZERO)),
    (0x7fd06a4d81ccfa3f351394e144d5191874c31313, route V4 0x2c0dad35f93b6f751962c7bed41c19073fc4d0759c7c0bc48863778ee5e0dd57 ZERO 0x7fd06a4d81ccfa3f351394e144d5191874c31313 50000 (Some 200) (Some ZERO)),
    (0x36046893810a7e7fce501229d57dc3fc8c8716d0, route V4 0xe1bf5309778aca8ca0474366ae5e1721c7e5d629f48fe39fd26d3cda4c220258 ZERO 0x36046893810a7e7fce501229d57dc3fc8c8716d0 50000 (Some 1000) (Some ZERO)),
    (0x62fd0668e10d8b72339be2dcf7643001688ff13b, route V3 0x06cc0b96be1fa1d754ce2e1228f5d8c616f795b0 USDG 0x62fd0668e10d8b72339be2dcf7643001688ff13b 10000 (Some 200) None),
    (0xeaf2512dfc1beac608f8794b3793cd4e02894aa6, route V4 0xd907cf233c9ad16de6d794ac9b0feee44bb2d8bc57db7870379164e301acbb0b ZERO 0xeaf2512dfc1beac608f8794b3793cd4e02894aa6 50000 (Some 500) (Some ZERO)),
    (0x8005d266423c7ea827372c9c864491e5786600ea, route V3 0xf212d02146a897f5f686e9d629f6a73da534324a USDG 0x8005d266423c7ea827372c9c864491e5786600ea 500 (Some 10) None),
    (0x0f17206447090e464c277571124dd2688e48aea9, route V4 0x80ee0f4dbf8d83456ad66ba18a95ae2f585ca6d81e07292ebcc5aadfea0af5eb USDG 0x0f17206447090e464c277571124dd2688e48aea9 50000 (Some 500) (Some ZERO)),
    (0x03dfbbe0ac4e7bcdafd08ed41a400326b77d8c80, route V3 0x7f0ace18d1dced47063cf26e649bc8ab14d09e67 USDG 0x03dfbbe0ac4e7bcdafd08ed41a400326b77d8c80 3000 (Some 60) None),
    (0x12e3c047bf9aecaf9ddc98c05c31bfd1dd043993, route V4 0x554820abca0d7fdecfc8a21edf82103a43c063846f71f9c34fddee96cb06bb37 ZERO 0x12e3c047bf9aecaf9ddc98c05c31bfd1dd043993 50000 (Some 500) (Some ZERO)),
    (0x28babd556b60e53663b8615036479a29c2cdd1bf, route V4 0xf127159e45c56c4994b378fb06efa0795aa37fa655e3e59a56bd6cd2db55678e ZERO 0x28babd556b60e53663b8615036479a29c2cdd1bf 50000 (Some 500) (Some ZERO)),
    (0x63d5a3b6939a33f1e75d8bcd85759858239600db, route V4 0xe5c815147ae37e92f1601df5e54f9f49222bb5c19dc0c9b8cf73d9e7f5fdb8eb ZERO 0x63d5a3b6939a33f1e75d8bcd85759858239600db 50000 (Some 500) (Some ZERO))]"

definition routes_9 :: "(nat \<times> purchase_route) list" where
  "routes_9 = [
    (0xaa4d64474c172010ab57719cb9951e6142a100d3, route V4 0x7de70efc572684e85388658e83376a9158f9a964261098d047a2bd498b4d411c ZERO 0xaa4d64474c172010ab57719cb9951e6142a100d3 50000 (Some 500) (Some ZERO)),
    (0x558378e000d634a36593e338ebacdd6207640efe, route V4 0xa5fb5171610a57253725ddecc264ea2c832867ea81559880960300fabd848ca7 ZERO 0x558378e000d634a36593e338ebacdd6207640efe 50000 (Some 500) (Some ZERO)),
    (0xb1969f6604ca1ae7a2cd3f1827876e914594ca2d, route V4 0x686775b1d37ffeb79330a724c1a21aa0cd06cbf00356722f65a59a8b4086ed10 ZERO 0xb1969f6604ca1ae7a2cd3f1827876e914594ca2d 50000 (Some 500) (Some ZERO)),
    (0xf53f66751b1eff985311b693531e3290f600c410, route V4 0x3edfbf6a3c6ef62b822be53c749bab2e52006866ffaa2566b4936823e2c94683 USDG 0xf53f66751b1eff985311b693531e3290f600c410 5210 (Some 52) (Some ZERO)),
    (0xbe6702d7b70315376dc48a3293f24f0982f86386, route V4 0xa3b695bd08e514cfe9ff8ad3a70d14d60b82eabf87f20a949a8fb20ef56e43b2 ZERO 0xbe6702d7b70315376dc48a3293f24f0982f86386 49000 (Some 490) (Some ZERO)),
    (0xfb2664f07b6aadd29ea7a59d8859b1aeb8645cda, route V4 0xfb3f85e9d11d9942d5fea6def7fde1d2bd5b919cdb22b6b1dc5525289491e80d ZERO 0xfb2664f07b6aadd29ea7a59d8859b1aeb8645cda 50000 (Some 500) (Some ZERO)),
    (0x0e6e67ba88e7b5d9b67636a215c76779b948de79, route V4 0x82f6c749e9fb8890434bee3174f2bfe6a235c38f596fd1d8a8551b922e036066 ZERO 0x0e6e67ba88e7b5d9b67636a215c76779b948de79 49500 (Some 495) (Some ZERO)),
    (0xb0992820e760d836549ba69bc7598b4af75dee03, route V4 0xc2ce4784e1e72cf0221b51b30c8aaadf6c0b12863cf03ab3687854fb7b1d850a USDG 0xb0992820e760d836549ba69bc7598b4af75dee03 10000 (Some 200) (Some ZERO)),
    (0x92f9f459f1a9a5ad266b182be7bffd1c6c666894, route V4 0x12fa5c5cdf005323bfe33ffe2bf7ada9e4a333bd65d9eaf844425207cd0ee231 ZERO 0x92f9f459f1a9a5ad266b182be7bffd1c6c666894 50000 (Some 500) (Some ZERO)),
    (0x94b8aae43a1ccc08aa64b7d1f29b4d920af4a0c9, route V4 0xe2e2a7c441753df701531254711e7e707a0c2ccf151053112227cf399121d5ff ZERO 0x94b8aae43a1ccc08aa64b7d1f29b4d920af4a0c9 50000 (Some 200) (Some ZERO)),
    (0x373c06c4f7bde527d7dae4ba169e42b55e393ced, route V4 0xe4f5e2f3f8486f41819079c3fd56df9d65771fce081aa0b153964c14e04045db ZERO 0x373c06c4f7bde527d7dae4ba169e42b55e393ced 48000 (Some 480) (Some ZERO)),
    (0x980dcf6766fa79f5cf0c4aadb3ab477ff15a9619, route V3 0x8cd848ce18b829c5c769aff27164078bb52e0e97 USDG 0x980dcf6766fa79f5cf0c4aadb3ab477ff15a9619 3000 (Some 60) None),
    (0xf7181b63fdb858558a74ba96bc42732684cd7965, route V4 0x1e8a0e15ffd6e28a78f284c76fd54600dc7cd7a1f308037ffe68a4c9387c67f6 ZERO 0xf7181b63fdb858558a74ba96bc42732684cd7965 48900 (Some 489) (Some ZERO)),
    (0xf1953dab6fad537488d5a022361ffaa8b4c95ec6, route V4 0x2f400711661996987514367aa260c8d016b1ae766e9d1d6f2cb848dad98fdc3c ZERO 0xf1953dab6fad537488d5a022361ffaa8b4c95ec6 50000 (Some 500) (Some ZERO)),
    (0xaf3d76f1834a1d425780943c99ea8a608f8a93f9, route V3 0xaae0d815ee56e4092a5e5c2911e676fea50b2d6d USDG 0xaf3d76f1834a1d425780943c99ea8a608f8a93f9 500 (Some 10) None),
    (0x05a3d1cd21d0c88145e82600e62e7e496e0f222b, route V4 0x06b9732431bd134599dd112a93c708fe80cadd2fb7dc750fe632e1cbf49fd8c0 USDG 0x05a3d1cd21d0c88145e82600e62e7e496e0f222b 500 (Some 5) (Some ZERO))]"

definition routes_10 :: "(nat \<times> purchase_route) list" where
  "routes_10 = [
    (0xb1bf26c1d20ff267a4f93550d1e0d06ac40a114b, route V4 0x58b68552d45529cc6c3b35faeaa75e47f4e2bcf2afb2399597acbc39e34a9a8a USDG 0xb1bf26c1d20ff267a4f93550d1e0d06ac40a114b 2300 (Some 23) (Some ZERO)),
    (0x1b0e319c6a659f002271b69db8a7df2f911c153e, route V3 0xe2b46c905e12ab8e2f864e4821a4325884c1b126 USDG 0x1b0e319c6a659f002271b69db8a7df2f911c153e 500 (Some 10) None),
    (0x52d50d0280ad1054b43f052bd70a49a212a1b128, route V4 0x0e12c4fbb7ecd127e221007455718fc07239df9f646d673160af20640794d981 ZERO 0x52d50d0280ad1054b43f052bd70a49a212a1b128 50000 (Some 500) (Some ZERO)),
    (0x9b23573b156b52565012f5ce02cdf60afbaa70be, route V3 0x1cd650500fa6f07646361f5f508aa6fbf7ddad36 USDG 0x9b23573b156b52565012f5ce02cdf60afbaa70be 3000 (Some 60) None),
    (0x116f00968269b7bfbad4109ce591d6e74c0601d4, route V4 0x578d3e799e888723d7f4292dec70e0e2abe9dc7e3b337a1c53ea16757f18faf2 USDG 0x116f00968269b7bfbad4109ce591d6e74c0601d4 9500 (Some 95) (Some ZERO)),
    (0xd63abb2c13d7a8421a8017a712802053568e3c1d, route V4 0x99acaf1862af2d333064b3957cd7ee9d46e6f44747cd89fd826c1936b5d44ea0 ZERO 0xd63abb2c13d7a8421a8017a712802053568e3c1d 50000 (Some 200) (Some ZERO)),
    (0xa5d4968421ba94814be3b136b15cf422101ac1a3, route V4 0x63bd80045294eb0e8283d29de4f54a7861825c4f933c07f383ac9eb58c5911bd ZERO 0xa5d4968421ba94814be3b136b15cf422101ac1a3 50000 (Some 500) (Some ZERO)),
    (0xec262a75e413fafd0df80480274532c79d42da09, route V4 0x0b7651084eb6758980efbccf73d95c680dd26e80800fbc91927d94a7f804d8bf USDG 0xec262a75e413fafd0df80480274532c79d42da09 2010 (Some 20) (Some ZERO)),
    (0x3139d77ace0cbaa5bdfd38bd1f1911a794af0b0e, route V4 0x1d79078707f7d576317be0df85700b22c2e60e18de4bf4510489d77a4d0fd33f USDG 0x3139d77ace0cbaa5bdfd38bd1f1911a794af0b0e 30000 (Some 300) (Some ZERO)),
    (0xc27dbd474af5181c5a8777903690d8d262d12648, route V4 0xe09df23f65bda1230573be579f31eeb0405a3339b53f38392ced9d32fd02679c ZERO 0xc27dbd474af5181c5a8777903690d8d262d12648 50000 (Some 200) (Some ZERO)),
    (0x322f0929c4625ed5bad873c95208d54e1c003b2d, route V3 0xc4f0172d6ac8dd294dd1137d047d5e1893760236 USDG 0x322f0929c4625ed5bad873c95208d54e1c003b2d 500 (Some 10) None),
    (0x1c690498150252222c275a5ced69d3a6b1f52d5e, route V4 0x4fe58bcbb88be70c72057283fa4ddef03556e8ae6b7ab66f0d4ecf46079e6c93 ZERO 0x1c690498150252222c275a5ced69d3a6b1f52d5e 48800 (Some 488) (Some ZERO)),
    (0x3fb8976980d486084b2eb4a404bd12e72823958f, route V4 0x4172402c6b49cb84b1d8f5ce86b2bbe21fdf7fbc38004d4603bd7b2e66abc708 USDG 0x3fb8976980d486084b2eb4a404bd12e72823958f 30000 (Some 300) (Some ZERO)),
    (0x59dd09d4900c2e4b5f75b7c0d4e6796fcc234cb1, route V3 0xe0e25884a3b690b1699732de475b2281600b0934 USDG 0x59dd09d4900c2e4b5f75b7c0d4e6796fcc234cb1 3000 (Some 60) None),
    (0x26dcbfb34fc83cabd6990f449674efdc6097ff85, route V4 0x6065ca2607746f38d7e421cdd7343bcbb8f16f365ce5c659fcd92a0fc6162d9b ZERO 0x26dcbfb34fc83cabd6990f449674efdc6097ff85 50050 (Some 501) (Some ZERO)),
    (0x232b8ed6377be97813853b0ac104c4cda8378d1b, route V4 0xc9c3f1c077949b9b25245aafa34ff974ebd2eb8d053ec55a85ecbfc8f4554660 USDG 0x232b8ed6377be97813853b0ac104c4cda8378d1b 2000 (Some 20) (Some ZERO))]"

definition routes_11 :: "(nat \<times> purchase_route) list" where
  "routes_11 = [
    (0xa8eb3bccbf2017ee7cbfb652eb51cf2e1b153289, route V4 0xaf5c7643bf92e38223a19d783291bd04b85ef80dfacaa9ffce1f5eb010714e14 ZERO 0xa8eb3bccbf2017ee7cbfb652eb51cf2e1b153289 50000 (Some 500) (Some ZERO)),
    (0x27c99fbde9d0d2aa4f4bfb4943f237843ddf6958, route V4 0x977c78c96cd9b306d87c235dee5a69ccab913b0f775575627e709643ad416598 USDG 0x27c99fbde9d0d2aa4f4bfb4943f237843ddf6958 10000 (Some 100) (Some ZERO)),
    (0x92ef19e82bd8ff36661de838d5eae7e5cef0effe, route V4 0x8e373ecc92c00a656e65a554c084bd1260067e6ae820fd87c9bb4101df4c9c96 ZERO 0x92ef19e82bd8ff36661de838d5eae7e5cef0effe 50000 (Some 500) (Some ZERO)),
    (0x822cc93ffd030293e9842c30bbd678f530701867, route V3 0x1bad145c8f06444e0df81c28257cd20231bd1f16 USDG 0x822cc93ffd030293e9842c30bbd678f530701867 3000 (Some 60) None),
    (0x1d11f0496982706c5e14a514d4e79f2e6bde4516, route V4 0xdd8037839d4505a5a7d184628e8f3ad1348d1ac380428eed9e91b67b09d7dc57 USDG 0x1d11f0496982706c5e14a514d4e79f2e6bde4516 1896 (Some 19) (Some ZERO)),
    (0x8b2f88497f15a18e9d4ffa1a8ffb8538399ae774, route V4 0x921d20506de45ee56f7f5ddd9bca9160141de2710b1574dd2bf64afd25aacced ZERO 0x8b2f88497f15a18e9d4ffa1a8ffb8538399ae774 50000 (Some 500) (Some ZERO)),
    (0x44c4f142009036cf477ed2d09932051843137cf1, route V4 0x46f1c54d32456c306e2c1e79f5ccf982654e3d7bd6df4bb4a06a69b27c67571b USDG 0x44c4f142009036cf477ed2d09932051843137cf1 10000 (Some 100) (Some ZERO)),
    (0x282e87451e10fa6679bc7d76c69be44cd3fc777c, route V4 0x9521de4c72b5f92b484af880ea4b1831024d19c460a1e849deb48eeae6218ecd ZERO 0x282e87451e10fa6679bc7d76c69be44cd3fc777c 50000 (Some 200) (Some ZERO)),
    (0x411efb0e7f985935daec3d4c3ebaea0d0ad7d89f, route V3 0xca2734c70e3c348edcda36a6478c9275a0ff0c90 WETH 0x411efb0e7f985935daec3d4c3ebaea0d0ad7d89f 3000 (Some 60) None),
    (0x98e75885157c80992a8d41b696d8c9c6fb30a926, route V4 0x8f78763fc305229964e2e3d7be28f6cde8c3c0797a5774415d86e50b2e409f0f USDG 0x98e75885157c80992a8d41b696d8c9c6fb30a926 29351 (Some 294) (Some ZERO)),
    (0xc02f12b9fe9e707079ec0d546f3050d3f6c1f8bd, route V4 0x0b26355937a72d03a303a1ed6e069d681a4bbf152e521ec31aff6f17c6e3a06b ZERO 0xc02f12b9fe9e707079ec0d546f3050d3f6c1f8bd 48000 (Some 480) (Some ZERO)),
    (0x348be1a8663f15edde5cdf8a96bb69078f7ab6fd, route V4 0x38d736c5aa6a73a320947e877f11b127baddb5b6e45862aac2574e1cee1c0c18 USDG 0x348be1a8663f15edde5cdf8a96bb69078f7ab6fd 8000 (Some 80) (Some ZERO)),
    (0x4ea005168d7f09a7a0ba9d1def21a479950e44c2, route V4 0xd0f36f913c83d95ab0e5f2cd2b991fc74bad741745ba9e7aeb6df8394c761f7b USDG 0x4ea005168d7f09a7a0ba9d1def21a479950e44c2 880 (Some 9) (Some ZERO)),
    (0x0b5fb4031cae9163db10b169ee72685f0edc8545, route V4 0xd7f142d4b74d052c528788792e6df5f84e4acfb35b0b84b7347cac603636b045 ZERO 0x0b5fb4031cae9163db10b169ee72685f0edc8545 47500 (Some 475) (Some ZERO)),
    (0xaea445c5f3db1a462998ccc422a875a361ee5d99, route V4 0x5780789b3e84e8e6b4309932d868fe6d973b0ec8dc9109ee23b63b4ca44afc28 ZERO 0xaea445c5f3db1a462998ccc422a875a361ee5d99 50000 (Some 500) (Some ZERO)),
    (0xccee82fe024c36fa15e1005ede3e9e4787e23d09, route V4 0xa7b26f2f7d0fdddbbe626845948f92eb006ff7df732ffc40d59d560453db8c2a USDG 0xccee82fe024c36fa15e1005ede3e9e4787e23d09 2000 (Some 20) (Some ZERO))]"

definition routes_12 :: "(nat \<times> purchase_route) list" where
  "routes_12 = [
    (0x8cf07c5a878945185d327aaa6e33faa95f95e7bf, route V4 0x6f1423ed3a6ad2124381db3c24740287ce6b7f55bd8868ca95af5be28092d7e9 ZERO 0x8cf07c5a878945185d327aaa6e33faa95f95e7bf 50000 (Some 500) (Some ZERO)),
    (0xf0c4bf4c582cb3836e98394b1d4e7b7281101be8, route V4 0xf807376333cd408c36d48a11a96309b92c5bd2bca9ba9f0b21800636cb3a30da USDG 0xf0c4bf4c582cb3836e98394b1d4e7b7281101be8 1000 (Some 10) (Some ZERO)),
    (0xad622320e520de39e72d41ef07438c3fd3354875, route V4 0x7931fb8c36996a6ade40d5b93c0f531c1b877dd9925946829686de3b0bbc42ee ZERO 0xad622320e520de39e72d41ef07438c3fd3354875 50000 (Some 500) (Some ZERO)),
    (0xdd356aa38f40a7b7076755ac854b6fbb1f0d305b, route V4 0x14177ae51e8ad3aaf2cee426725858335db2c79ac0012c200aecc80e4437d687 ZERO 0xdd356aa38f40a7b7076755ac854b6fbb1f0d305b 49000 (Some 490) (Some ZERO)),
    (0x8ff63eaeee3fe54ba450c4f5538064ec5a893aef, route V4 0x40a5d5da94fdb8154a5823f5e5f6912aab687947db544b850ad4f6df0cf80205 ZERO 0x8ff63eaeee3fe54ba450c4f5538064ec5a893aef 49000 (Some 490) (Some ZERO)),
    (0x75742c18bc1f1c5c5f448f4c9d9c6f66dafaaa38, route V4 0x75c70e9b045d4cb2bb79ff8dea3f22add5aa15a3d5e3e6640aabc23f146d1aed ZERO 0x75742c18bc1f1c5c5f448f4c9d9c6f66dafaaa38 50000 (Some 500) (Some ZERO)),
    (0x47f93d52cbec7c6d2cfc080e154002370a60daea, route V3 0xce79c1b7b5f9ae1aab3b1796e7fcd2f5f24cf265 USDG 0x47f93d52cbec7c6d2cfc080e154002370a60daea 3000 (Some 60) None),
    (0xeb61c0ed490a367d4e3631ccf8a74b3bfc7e775d, route V4 0x2341b2ec6872da1303df008689f40e3d04d9e08851279658ef85b80f8dbf0196 USDG 0xeb61c0ed490a367d4e3631ccf8a74b3bfc7e775d 30000 (Some 300) (Some ZERO)),
    (0xf6290b5e7c26502e2da514c31509849718ea76a5, route V4 0x124771185140451495aeb8387fc513b5eb5dbf1ae2a73ee7b4f782f1b4af4c59 ZERO 0xf6290b5e7c26502e2da514c31509849718ea76a5 49500 (Some 495) (Some ZERO)),
    (0xacef2e09adb47ad6abebad9ff06689e60615c2b6, route V3 0x2171c94d8073c4913f4653a0766d18aa8a29d1f6 USDG 0xacef2e09adb47ad6abebad9ff06689e60615c2b6 3000 (Some 60) None),
    (0xddf2266b79abf0b48898959b0ed6e6adf512be74, route V4 0x108f208bea5ab4d4620097776d2f981094c3da5ff2a58074d86792e7100f0038 USDG 0xddf2266b79abf0b48898959b0ed6e6adf512be74 38560 (Some 386) (Some ZERO)),
    (0x7066a64c24e4206cd62e83bf198c1e7eb361f51e, route V4 0x632d9bdccf26e13dbf23b185f29cba47e237371010e1abf7aceaeff653f66be4 USDG 0x7066a64c24e4206cd62e83bf198c1e7eb361f51e 1500 (Some 15) (Some ZERO)),
    (0x96b933c74ecb4a0926b9210cef7b743ef46be2e9, route V4 0x5c7d204cf492ebf491aac9e52d2e1099aff7397f9d5f87a7bebf7a1e450d48e4 ZERO 0x96b933c74ecb4a0926b9210cef7b743ef46be2e9 50000 (Some 200) (Some ZERO)),
    (0x7c148f74ac7445d1f28366b7fcdc6792a9fcd0cf, route V4 0xa2523895590afecd6245d18f3ea7b81f7f86bafbe1d849c692cd4792beac5ffc ZERO 0x7c148f74ac7445d1f28366b7fcdc6792a9fcd0cf 50000 (Some 500) (Some ZERO))]"

definition routes :: "(nat \<times> purchase_route) list" where
  "routes = routes_1 @ routes_2 @ routes_3 @ routes_4 @ routes_5 @ routes_6 @ routes_7 @ routes_8 @ routes_9 @ routes_10 @ routes_11 @ routes_12"

section \<open>The table is well formed\<close>

text \<open>
  What an entry must be: keyed by its output, bought in ETH, WETH or USDG with a fee below 100 percent
  and a positive tick spacing; a V4 pool has no hooks and is never paid in WETH, which the router's
  V4 program could not settle in ETH; a V3 pool is never paid in ETH, which its path cannot name.
\<close>

definition entry_ok :: "nat \<times> purchase_route \<Rightarrow> bool" where
  "entry_ok e \<longleftrightarrow> (case e of (k, r) \<Rightarrow> pr_output r = k \<and> (pr_input r = ZERO \<or> pr_input r = WETH \<or> pr_input r = USDG)
     \<and> k < 2 ^ 160 \<and> k \<noteq> ZERO \<and> k \<noteq> WETH \<and> k \<noteq> USDG \<and> 0 < pr_fee r \<and> pr_fee r < 1000000
     \<and> (\<exists>t. pr_tickSpacing r = Some t \<and> 0 < t)
     \<and> pr_hooks r = (if pr_version r = V4 then Some ZERO else None)
     \<and> (if pr_version r = V4 then pr_input r \<noteq> WETH \<and> pr_pool r < 2 ^ 256 else pr_input r \<noteq> ZERO \<and> pr_pool r < 2 ^ 160))"

lemmas table_defs = routes_def routes_1_def routes_2_def routes_3_def routes_4_def routes_5_def routes_6_def
  routes_7_def routes_8_def routes_9_def routes_10_def routes_11_def routes_12_def

lemma routes_entries_ok: "list_all entry_ok routes"
  by (simp add: table_defs entry_ok_def route_def ZERO_def WETH_def USDG_def)

lemma routes_distinct: "distinct (map fst routes)"
  by (simp add: table_defs)

lemma routes_pools_distinct: "distinct (map (\<lambda>e. pr_pool (snd e)) routes)"
  by (simp add: table_defs route_def)

lemma routes_lookup_ok: "map_of routes k = Some r \<Longrightarrow> entry_ok (k, r)"
  using routes_entries_ok by (auto simp: list_all_iff dest: map_of_SomeD)

lemma routes_member: "(k, r) \<in> set routes \<Longrightarrow> map_of routes k = Some r"
  using routes_distinct by simp

end
