(* ===== verification/Quote_Purchase.thy ===== *)
theory Quote_Purchase imports Quote_Routes begin

text \<open>
  \<open>quote.ts\<close> and \<open>transaction.ts\<close> of \<open>packages/chain/src/quote-purchase\<close>: the route of a token,
  its price in ETH and the program for the (external) router that buys an exact amount of it.
  The program is a list of commands with their ABI arguments; the encoding of the arguments is the
  library's. The pool quotes and prices read over RPC are parameters. The lemmas show what a route
  is, the bounds of the spending limit, and that a program pays only the recipient, spends at most
  the limit and leaves nothing in the router.
\<close>

section \<open>Routes of tokens\<close>

definition bridge :: purchase_route where
  "bridge = \<lparr>pr_version = V3, pr_pool = 0x52e65b17fb6e5ba00ed806f37afcd2daa50271ca, pr_input = WETH, pr_output = USDG,
     pr_fee = 100, pr_tickSpacing = None, pr_hooks = None\<rparr>"

text \<open>
  The table is an object literal whose keys are address literals, and it is read with \<open>routes[key]\<close>:
  a key it does not own is looked up in \<open>Object.prototype\<close>, whose members are all truthy. The function
  then returns that member, which is not a route.
\<close>

definition route_object :: "(string \<times> purchase_route) list" where
  "route_object = map (\<lambda>(k, r). (hex_text 40 k, r)) routes"

definition object_prototype :: "string list" where
  "object_prototype = [''constructor'', ''__defineGetter__'', ''__defineSetter__'', ''hasOwnProperty'',
     ''__lookupGetter__'', ''__lookupSetter__'', ''isPrototypeOf'', ''propertyIsEnumerable'', ''toString'',
     ''valueOf'', ''__proto__'', ''toLocaleString'']"

datatype found_route = Route purchase_route | PrototypeMember string

definition purchaseRoute :: "string \<Rightarrow> found_route res" where
  "purchaseRoute token = (let key = lower token in
     if key = hex_text 40 USDG then Inr (Route bridge)
     else case map_of route_object key of
         Some r \<Rightarrow> Inr (Route r)
       | None \<Rightarrow> if key \<in> set object_prototype then Inr (PrototypeMember key)
                 else Inl (Error ''Unsupported paired asset''))"

text \<open>
  A member of \<open>Object.prototype\<close> has none of the fields of a route, so each of them reads as
  \<open>undefined\<close>: it is not paid in USDG, its version is not V3, and the library refuses to encode its
  addresses.
\<close>

definition undefined_address :: js_error where
  "undefined_address = LibraryError ''undefined''"

record pool_key =
  pk_currency0 :: nat
  pk_currency1 :: nat
  pk_fee :: nat
  pk_tickSpacing :: "int option"
  pk_hooks :: nat

definition poolKey :: "purchase_route \<Rightarrow> pool_key" where
  "poolKey r = \<lparr>pk_currency0 = min (pr_input r) (pr_output r), pk_currency1 = max (pr_input r) (pr_output r),
     pk_fee = pr_fee r, pk_tickSpacing = pr_tickSpacing r, pk_hooks = ZERO\<rparr>"

text \<open>\<open>/^[1-9][0-9]{0,38}$/.test(s) && BigInt(s) < 2n**128n\<close>.\<close>

definition is_amount :: "string \<Rightarrow> bool" where
  "is_amount s \<longleftrightarrow> is_pos_literal s \<and> length s \<le> 39 \<and> parse_nat s < 2 ^ 128"

section \<open>Quotes\<close>

record purchase_quote =
  pq_chainId :: int
  pq_token :: string
  pq_amountOut :: string
  pq_amountIn :: string
  pq_stockInput :: string
  pq_blockNumber :: string
  pq_expiresAt :: int
  pq_priceImpactBps :: int

text \<open>
  What the RPC node answers at the quoted block: the input each pool asks for an exact output, the
  square-root price of each pool, and the block.
\<close>

record chain_view =
  cv_chainId :: int
  cv_blockNumber :: nat
  cv_timestamp :: int
  cv_exactOutput :: "purchase_route \<Rightarrow> nat \<Rightarrow> nat"
  cv_exactInput :: "purchase_route \<Rightarrow> nat \<Rightarrow> nat"
  cv_sqrtPrice :: "purchase_route \<Rightarrow> nat"

text \<open>\<open>leg\<close>: the input for an exact output and what that input is worth at the pool's spot price.\<close>

definition purchase_leg :: "chain_view \<Rightarrow> purchase_route \<Rightarrow> nat \<Rightarrow> (nat \<times> nat) res" where
  "purchase_leg cv r out = (let input = cv_exactOutput cv r out; square = cv_sqrtPrice cv r ^ 2 in
     if input = 0 \<or> 2 ^ 128 \<le> input then Inl (Error ''No purchase depth'')
     else if pr_input r < pr_output r then Inr (input, input * square div 2 ^ 192)
     else if square = 0 then Inl (RangeError ''Division by zero'')
     else Inr (input, input * 2 ^ 192 div square))"

text \<open>\<open>Math.max(0, Number((spot - amount) * 10000n / spot))\<close>: the division truncates, so a negative
  difference gives zero.\<close>

definition price_impact :: "nat \<Rightarrow> nat \<Rightarrow> int" where
  "price_impact spot amount = (if spot = 0 then 0 else if spot \<le> amount then 0 else int ((spot - amount) * 10000 div spot))"

definition quotePurchase :: "chain_view \<Rightarrow> string \<Rightarrow> string \<Rightarrow> purchase_quote res" where
  "quotePurchase cv token amount =
     (if \<not> is_amount amount then Inl (Error ''Invalid purchase amount'')
      else
      bindR (purchaseRoute token) (\<lambda>f.
      if cv_chainId cv \<noteq> 4663 then Inl (Error ''Wrong purchase network'')
      else case f of PrototypeMember _ \<Rightarrow> Inl undefined_address | Route r \<Rightarrow>
      bindR (purchase_leg cv r (parse_nat amount)) (\<lambda>(stockInput, stockSpot).
      let via = (pr_input r = USDG) in
      bindR (if via then purchase_leg cv bridge stockInput else Inr (stockInput, stockSpot)) (\<lambda>(baseInput, baseSpot).
      let spot = (if via then baseSpot * stockSpot div stockInput else stockSpot) in
      Inr \<lparr>pq_chainId = 4663, pq_token = hex_text 40 (pr_output r), pq_amountOut = amount,
           pq_amountIn = show_nat baseInput, pq_stockInput = show_nat stockInput,
           pq_blockNumber = show_nat (cv_blockNumber cv), pq_expiresAt = cv_timestamp cv * 1000 + 90000,
           pq_priceImpactBps = price_impact spot (parse_nat amount)\<rparr>))))"

section \<open>Router programs\<close>

text \<open>
  Packed path elements, the actions of a V4 swap, and the router commands with their arguments; a V4
  swap carries the byte string that names its actions as well.
\<close>

datatype packed = PAddress nat | PFee nat

datatype v4_action =
    SwapExactOutSingle pool_key bool nat nat
  | SwapExactInSingle pool_key bool nat nat
  | Settle nat nat bool
  | Take nat nat nat

datatype router_command =
    V3ExactIn nat nat nat "packed list" bool "nat list"
  | V3ExactOut nat nat nat "packed list" bool "nat list"
  | Sweep nat nat nat
  | WrapEth nat nat
  | UnwrapWeth nat nat
  | V4Swap string "v4_action list"

fun command_code :: "router_command \<Rightarrow> nat" where
  "command_code (V3ExactIn _ _ _ _ _ _) = 0"
| "command_code (V3ExactOut _ _ _ _ _ _) = 1"
| "command_code (Sweep _ _ _) = 4"
| "command_code (WrapEth _ _) = 11"
| "command_code (UnwrapWeth _ _) = 12"
| "command_code (V4Swap _ _) = 16"

text \<open>The router's own address in a program.\<close>

definition SELF :: nat where "SELF = 2"
definition PURCHASE_ROUTER :: nat where "PURCHASE_ROUTER = 0x8876789976decbfcbbbe364623c63652db8c0904"

record router_request =
  rq_address :: nat
  rq_program :: "router_command list"
  rq_commands :: string
  rq_deadline :: int
  rq_value :: nat

definition command_text :: "router_command list \<Rightarrow> string" where
  "command_text cs = ''0x'' @ concat (map (\<lambda>c. hex_pad 2 (command_code c)) cs)"

definition router_request_of :: "router_command list \<Rightarrow> int \<Rightarrow> nat \<Rightarrow> router_request" where
  "router_request_of program expiresAt value = \<lparr>rq_address = PURCHASE_ROUTER, rq_program = program,
     rq_commands = command_text program, rq_deadline = expiresAt div 1000, rq_value = value\<rparr>"

definition purchaseEthLimit :: "int \<Rightarrow> int res" where
  "purchaseEthLimit estimated = (if estimated \<le> 0 \<or> 2 ^ 128 \<le> estimated then Inl (Error ''Invalid purchase amount'')
     else Inr ((estimated * 110 + 99) div 100))"

text \<open>The commands between funding and sweeping: \<open>r\<close> is the route, \<open>via\<close> whether it starts in USDG.\<close>

definition purchase_body :: "purchase_route \<Rightarrow> bool \<Rightarrow> nat \<Rightarrow> nat \<Rightarrow> nat \<Rightarrow> nat \<Rightarrow> router_command list" where
  "purchase_body r via recipient amountOut stockInput maximumEth =
     (if via \<and> pr_version r = V3 then
        [V3ExactOut recipient amountOut maximumEth
           [PAddress (pr_output r), PFee (pr_fee r), PAddress USDG, PFee (pr_fee bridge), PAddress WETH] False [0, 0]]
      else if pr_version r = V3 then
        [V3ExactOut recipient amountOut maximumEth [PAddress (pr_output r), PFee (pr_fee r), PAddress (pr_input r)] False [0]]
      else (if via then [V3ExactIn SELF maximumEth stockInput [PAddress WETH, PFee (pr_fee bridge), PAddress USDG] False [0]] else [])
        @ [V4Swap ''0x080b0e'' [SwapExactOutSingle (poolKey r) (pr_input r < pr_output r) amountOut (if via then 2 ^ 128 - 1 else maximumEth),
                   Settle (pr_input r) 0 False, Take (pr_output r) recipient 0]])"

definition purchaseRequest :: "purchase_quote \<Rightarrow> string \<Rightarrow> int \<Rightarrow> nat \<Rightarrow> router_request res" where
  "purchaseRequest q recipient now maximumEth =
     (if MAX_SAFE < \<bar>pq_expiresAt q\<bar> \<or> pq_chainId q \<noteq> 4663 \<or> pq_expiresAt q \<le> now \<or> now + 120000 < pq_expiresAt q
         \<or> \<not> is_hex 40 recipient \<or> parse_hex recipient = ZERO
      then Inl (Error ''Purchase quote expired or invalid'')
      else if \<not> list_all is_amount [pq_amountOut q, pq_amountIn q, pq_stockInput q]
      then Inl (Error ''Invalid purchase amount'')
      else if maximumEth < parse_nat (pq_amountIn q) \<or> 2 ^ 128 \<le> maximumEth
      then Inl (Error ''Purchase cost exceeds approved ETH limit'')
      else
      bindR (purchaseRoute (pq_token q)) (\<lambda>f. case f of
        PrototypeMember _ \<Rightarrow> (if pq_stockInput q \<noteq> pq_amountIn q then Inl (Error ''Invalid direct purchase'')
                              else Inl undefined_address)
      | Route r \<Rightarrow>
      let via = (pr_input r = USDG); dest = parse_hex recipient in
      if \<not> via \<and> pq_stockInput q \<noteq> pq_amountIn q then Inl (Error ''Invalid direct purchase'')
      else Inr (router_request_of
        ((if pr_input r \<noteq> ZERO then [WrapEth SELF maximumEth] else [])
         @ purchase_body r via dest (parse_nat (pq_amountOut q)) (parse_nat (pq_stockInput q)) maximumEth
         @ (if via then [Sweep USDG dest 0] else [])
         @ (if pr_input r \<noteq> ZERO then [UnwrapWeth dest 0] else [])
         @ [Sweep ZERO dest 0]) (pq_expiresAt q) maximumEth)))"

section \<open>Routes a token can have\<close>

lemma bridge_simps [simp]:
  "pr_version bridge = V3" "pr_input bridge = WETH" "pr_output bridge = USDG" "pr_fee bridge = 100"
  "pr_pool bridge = 0x52e65b17fb6e5ba00ed806f37afcd2daa50271ca"
  by (simp_all add: bridge_def)

lemma bases_distinct [simp]: "WETH \<noteq> ZERO" "USDG \<noteq> ZERO" "USDG \<noteq> WETH" "ZERO \<noteq> WETH" "ZERO \<noteq> USDG" "WETH \<noteq> USDG"
  by (simp_all add: ZERO_def WETH_def USDG_def)

lemma address_range: "(16::nat) ^ 40 = 2 ^ 160"
  by simp

lemma min_less_max: "min a b < max a b \<longleftrightarrow> a \<noteq> (b :: nat)"
  by (auto simp: min_def max_def)

lemma USDG_less: "USDG < 2 ^ 160" "USDG \<noteq> SELF"
  by (simp_all add: USDG_def SELF_def)

definition route_ok :: "purchase_route \<Rightarrow> bool" where
  "route_ok r \<longleftrightarrow> r = bridge \<or> entry_ok (pr_output r, r)"

lemma hex_text_parse:
  assumes "is_lower_hex k s" and "n < 16 ^ k"
  shows "s = hex_text k n \<longleftrightarrow> parse_hex s = n"
  using parse_hex_text [OF assms(2)] parse_hex_inj [OF assms(1) hex_text_literal] by auto

lemma map_of_text_keys:
  assumes "\<forall>(k, r) \<in> set xs. k < 16 ^ n" and "is_lower_hex n s"
  shows "map_of (map (\<lambda>(k, r). (hex_text n k, r)) xs) s = map_of xs (parse_hex s)"
  using assms(1)
proof (induction xs)
  case (Cons e xs)
  then show ?case
    using hex_text_parse [OF assms(2), of "fst e"] by (cases e) auto
qed simp

lemma map_of_text_literal: "map_of (map (\<lambda>(k, r). (hex_text n k, r)) xs) s = Some r \<Longrightarrow> is_lower_hex n s"
  using hex_text_literal by (auto dest!: map_of_SomeD)

lemma route_object_lookup:
  "map_of route_object s = Some r \<longleftrightarrow> is_lower_hex 40 s \<and> map_of routes (parse_hex s) = Some r"
proof -
  have small: "\<forall>(k, r) \<in> set routes. k < 16 ^ 40"
    unfolding address_range using routes_entries_ok by (auto simp: list_all_iff entry_ok_def)
  show ?thesis
    unfolding route_object_def using map_of_text_keys [OF small] map_of_text_literal by metis
qed

lemma prototype_lower: "lower token \<in> set object_prototype \<longleftrightarrow> lower token \<in> {''constructor'', ''__proto__''}"
proof -
  have "filter (\<lambda>s. lower s = s) object_prototype = [''constructor'', ''__proto__'']"
    by code_simp
  then have "lower token \<in> {s \<in> set object_prototype. lower s = s} \<longleftrightarrow> lower token \<in> set [''constructor'', ''__proto__'']"
    by (simp only: set_filter [symmetric])
  then show ?thesis
    by (simp only: mem_Collect_eq lower_idem simp_thms list.set)
qed

lemma prototype_not_literal: "s \<in> set object_prototype \<Longrightarrow> \<not> is_lower_hex n s"
  by (auto simp: object_prototype_def is_lower_hex_decomp)

lemma purchaseRoute_eq_Route:
  "purchaseRoute token = Inr (Route r) \<longleftrightarrow> is_lower_hex 40 (lower token) \<and>
     (if parse_hex (lower token) = USDG then r = bridge else map_of routes (parse_hex (lower token)) = Some r)"
proof -
  have small: "USDG < 16 ^ 40"
    using USDG_less(1) by (simp only: address_range)
  have usdg: "lower token = hex_text 40 USDG \<longleftrightarrow> is_lower_hex 40 (lower token) \<and> parse_hex (lower token) = USDG"
    using hex_text_parse [OF _ small, of "lower token"] hex_text_literal [of 40 USDG] by metis
  show ?thesis
    using route_object_lookup [of "lower token" r] unfolding purchaseRoute_def Let_def usdg
    by (auto split: option.splits)
qed

lemma purchaseRoute_eq_Member:
  "purchaseRoute token = Inr (PrototypeMember m) \<longleftrightarrow> m = lower token \<and> m \<in> {''constructor'', ''__proto__''}"
proof (cases "lower token \<in> set object_prototype")
  case True
  then have "map_of route_object (lower token) = None" "lower token \<noteq> hex_text 40 USDG"
    using prototype_not_literal [of "lower token" 40] route_object_lookup [of "lower token"] hex_text_literal [of 40 USDG]
    by (auto simp: option.expand)
  then show ?thesis
    using True prototype_lower [of token] by (auto simp: purchaseRoute_def)
next
  case False
  then show ?thesis
    using prototype_lower [of token] by (auto simp: purchaseRoute_def Let_def split: option.splits)
qed

lemma purchaseRoute_ok: "purchaseRoute token = Inr (Route r) \<Longrightarrow> route_ok r \<and> pr_output r = parse_hex (lower token)"
  by (auto simp: purchaseRoute_eq_Route route_ok_def entry_ok_def split: if_splits dest!: routes_lookup_ok)

lemma route_ok_output: "route_ok r \<Longrightarrow> pr_output r < 2 ^ 160"
  using USDG_less(1) by (auto simp: route_ok_def entry_ok_def)

lemma route_ok_input: "route_ok r \<Longrightarrow> pr_input r = ZERO \<or> pr_input r = WETH \<or> pr_input r = USDG"
  by (auto simp: route_ok_def entry_ok_def)

lemma route_ok_v3: "route_ok r \<Longrightarrow> pr_version r = V3 \<Longrightarrow> pr_input r \<noteq> ZERO"
  by (auto simp: route_ok_def entry_ok_def)

lemma route_ok_v4: "route_ok r \<Longrightarrow> pr_version r = V4 \<Longrightarrow> pr_input r \<noteq> WETH"
  by (auto simp: route_ok_def entry_ok_def)

lemma route_ok_directed: "route_ok r \<Longrightarrow> pr_input r \<noteq> pr_output r"
  by (auto simp: route_ok_def entry_ok_def)

lemma purchaseRoute_again: "purchaseRoute token = Inr (Route r) \<Longrightarrow> purchaseRoute (hex_text 40 (pr_output r)) = Inr (Route r)"
proof -
  assume r: "purchaseRoute token = Inr (Route r)"
  let ?t = "hex_text 40 (pr_output r)"
  have small: "pr_output r < 16 ^ 40"
    using route_ok_output [of r] purchaseRoute_ok [OF r] by (simp only: address_range)
  have "lower ?t = ?t" "parse_hex ?t = pr_output r"
    using lower_id [OF hex_text_literal] parse_hex_text [OF small] by simp_all
  then show ?thesis
    using r purchaseRoute_ok [OF r] hex_text_literal [of 40 "pr_output r"]
    by (simp add: purchaseRoute_eq_Route)
qed

lemma purchaseRoute_listed: "purchaseRoute token = Inr (Route r) \<Longrightarrow> r = bridge \<or> (pr_output r, r) \<in> set routes"
proof -
  have "map_of routes k = Some r \<Longrightarrow> (pr_output r, r) \<in> set routes" for k
    using routes_lookup_ok [of k r] map_of_SomeD [of routes k r] by (simp add: entry_ok_def)
  moreover assume "purchaseRoute token = Inr (Route r)"
  ultimately show ?thesis
    unfolding purchaseRoute_eq_Route by metis
qed

lemma purchaseRoute_rejected:
  assumes "purchaseRoute token = Inl e"
  shows "e = Error ''Unsupported paired asset'' \<and> lower token \<notin> {''constructor'', ''__proto__''}
    \<and> lower token \<noteq> hex_text 40 USDG \<and> (\<forall>k. k < 2 ^ 160 \<longrightarrow> lower token = hex_text 40 k \<longrightarrow> k \<notin> fst ` set routes)"
proof -
  have e: "e = Error ''Unsupported paired asset''" "lower token \<noteq> hex_text 40 USDG" "lower token \<notin> set object_prototype"
    "map_of route_object (lower token) = None"
    using assms by (auto simp: purchaseRoute_def Let_def split: option.splits if_splits)
  have "lower token \<noteq> hex_text 40 k" if "k \<in> fst ` set routes" for k
    using e(4) that by (force simp: route_object_def map_of_eq_None_iff)
  then show ?thesis
    using e prototype_lower [of token] by blast
qed

lemma route_ok_sound:
  assumes "route_ok r"
  shows "pr_input r \<in> {ZERO, WETH, USDG} \<and> pr_input r \<noteq> pr_output r
    \<and> pk_currency0 (poolKey r) < pk_currency1 (poolKey r) \<and> 0 < pr_fee r \<and> pr_fee r < 1000000
    \<and> (pr_version r = V3 \<longrightarrow> pr_input r \<noteq> ZERO) \<and> (pr_version r = V4 \<longrightarrow> pr_input r \<noteq> WETH)"
proof -
  have "0 < pr_fee r \<and> pr_fee r < 1000000"
    using assms by (auto simp: route_ok_def entry_ok_def)
  then show ?thesis
    using route_ok_input [OF assms] route_ok_directed [OF assms] route_ok_v3 [OF assms] route_ok_v4 [OF assms]
      min_less_max [of "pr_input r" "pr_output r"]
    by (auto simp: poolKey_def)
qed

text \<open>C24: What is found for a token is either a route of the reviewed table (or the bridge, for USDG) that is a
  sound trade, and then the token is an address literal, or, for exactly the two texts \<open>constructor\<close> and
  \<open>__proto__\<close> (in any case), a member of \<open>Object.prototype\<close> that is no route; every other text is rejected.
  A sound trade: its output is the token asked for (whatever the case of the literal's digits), its input is
  ETH, WETH or USDG and is not the token itself, the two currencies of its pool key are in strict order, the
  fee is a positive share, only V4 pools are paid in ETH and only V3 pools in WETH, and asking again for the
  route's own output gives the same route.\<close>

theorem purchaseRoute_sound:
  "case purchaseRoute token of
     Inr (Route r) \<Rightarrow> is_lower_hex 40 (lower token) \<and> pr_output r = parse_hex (lower token)
       \<and> (r = bridge \<or> (pr_output r, r) \<in> set routes)
       \<and> pr_input r \<in> {ZERO, WETH, USDG} \<and> pr_input r \<noteq> pr_output r
       \<and> pk_currency0 (poolKey r) < pk_currency1 (poolKey r)
       \<and> 0 < pr_fee r \<and> pr_fee r < 1000000
       \<and> (pr_version r = V3 \<longrightarrow> pr_input r \<noteq> ZERO) \<and> (pr_version r = V4 \<longrightarrow> pr_input r \<noteq> WETH)
       \<and> purchaseRoute (hex_text 40 (pr_output r)) = Inr (Route r)
   | Inr (PrototypeMember m) \<Rightarrow> m = lower token \<and> lower token \<in> {''constructor'', ''__proto__''}
   | Inl e \<Rightarrow> e = Error ''Unsupported paired asset'' \<and> lower token \<notin> {''constructor'', ''__proto__''}
       \<and> lower token \<noteq> hex_text 40 USDG \<and> (\<forall>k. k < 2 ^ 160 \<longrightarrow> lower token = hex_text 40 k \<longrightarrow> k \<notin> fst ` set routes)"
proof (cases "purchaseRoute token")
  case (Inl e)
  then show ?thesis
    using purchaseRoute_rejected [OF Inl] by simp
next
  case (Inr f)
  show ?thesis
  proof (cases f)
    case (Route r)
    with Inr have r: "purchaseRoute token = Inr (Route r)"
      by simp
    show ?thesis
      unfolding r sum.case found_route.case
      using route_ok_sound [OF conjunct1 [OF purchaseRoute_ok [OF r]]] purchaseRoute_ok [OF r] purchaseRoute_again [OF r]
        purchaseRoute_listed [OF r] iffD1 [OF purchaseRoute_eq_Route r] by blast
  next
    case (PrototypeMember m)
    with Inr have m: "purchaseRoute token = Inr (PrototypeMember m)"
      by simp
    from m show ?thesis
      using iffD1 [OF purchaseRoute_eq_Member m] unfolding m sum.case found_route.case by blast
  qed
qed

section \<open>Sample tokens\<close>

definition sample_v4_eth :: nat where "sample_v4_eth = 0x1cdad396db64bda184d5182a97dd9b3c62100b7d"
definition sample_v4_usdg :: nat where "sample_v4_usdg = 0xd95b44124e475743a7589e68f3d74008a5536d44"

lemma sample_routes:
  "map_of routes sample_v4_eth = Some (route V4 0x502eedd0e88e8a8f374ee4a37c432f2cb75287f499273133600fa3d64f251f23 ZERO sample_v4_eth 50000 (Some 500) (Some ZERO))"
  "map_of routes sample_v4_usdg = Some (route V4 0x5d0434f1dcf45ff9450c1a63b5c9e088f90cfebf483458164e81be6fb96e2b2a USDG sample_v4_usdg 10000 (Some 100) (Some ZERO))"
  by (rule routes_member, simp add: table_defs sample_v4_eth_def sample_v4_usdg_def)+

lemma purchaseRoute_text:
  assumes "map_of routes k = Some r"
  shows "purchaseRoute (hex_text 40 k) = Inr (Route r)"
proof -
  have k: "k < 2 ^ 160" "k \<noteq> USDG"
    using routes_lookup_ok [OF assms] by (auto simp: entry_ok_def)
  then have "k < 16 ^ 40"
    by (simp only: address_range)
  then show ?thesis
    using k assms lower_id [OF hex_text_literal, of 40 k] hex_text_literal [of 40 k]
    by (simp add: purchaseRoute_eq_Route parse_hex_text)
qed

theorem purchaseRoute_sound_witness:
  "pr_output (route V4 0x502eedd0e88e8a8f374ee4a37c432f2cb75287f499273133600fa3d64f251f23 ZERO sample_v4_eth 50000 (Some 500) (Some ZERO))
    = parse_hex (lower (hex_text 40 sample_v4_eth))
   \<and> purchaseRoute ''Constructor'' = Inr (PrototypeMember ''constructor'')
   \<and> purchaseRoute ''ether'' = Inl (Error ''Unsupported paired asset'')"
proof -
  have "purchaseRoute ''Constructor'' = Inr (PrototypeMember ''constructor'')"
    unfolding purchaseRoute_eq_Member by code_simp
  moreover have lower: "lower ''ether'' = ''ether''"
    by code_simp
  have "\<nexists>f. purchaseRoute ''ether'' = Inr f"
  proof
    assume "\<exists>f. purchaseRoute ''ether'' = Inr f"
    then obtain f where "purchaseRoute ''ether'' = Inr f" by blast
    then show False
      by (cases f) (simp_all add: purchaseRoute_eq_Route purchaseRoute_eq_Member lower is_lower_hex_def)
  qed
  then obtain e where "purchaseRoute ''ether'' = Inl e"
    by (cases "purchaseRoute ''ether''") auto
  then have "purchaseRoute ''ether'' = Inl (Error ''Unsupported paired asset'')"
    using purchaseRoute_sound [of "''ether''"] by simp
  ultimately show ?thesis
    using purchaseRoute_sound [of "hex_text 40 sample_v4_eth"]
      purchaseRoute_text [OF sample_routes(1)] by simp
qed

section \<open>What a program may do\<close>

text \<open>
  The accounts a command pays, the tokens it leaves in the router, and the tokens it returns to
  \<open>dest\<close> from there (an amount of zero asks for the whole balance).
\<close>

fun action_payees :: "v4_action \<Rightarrow> nat list" where
  "action_payees (Take _ d _) = [d]"
| "action_payees _ = []"

fun payees :: "router_command \<Rightarrow> nat list" where
  "payees (V3ExactIn d _ _ _ _ _) = [d]"
| "payees (V3ExactOut d _ _ _ _ _) = [d]"
| "payees (Sweep _ d _) = [d]"
| "payees (WrapEth d _) = [d]"
| "payees (UnwrapWeth d _) = [d]"
| "payees (V4Swap _ as) = concat (map action_payees as)"

fun path_end :: "packed list \<Rightarrow> nat list" where
  "path_end [PAddress a] = [a]"
| "path_end (_ # p) = path_end p"
| "path_end [] = []"

fun action_leaves :: "v4_action \<Rightarrow> nat list" where
  "action_leaves (Take t d _) = (if d = SELF then [t] else [])"
| "action_leaves _ = []"

fun path_start :: "packed list \<Rightarrow> nat list" where
  "path_start (PAddress a # _) = [a]"
| "path_start _ = []"

fun leaves :: "router_command \<Rightarrow> nat list" where
  "leaves (WrapEth d _) = (if d = SELF then [WETH] else [])"
| "leaves (V3ExactIn d _ _ p _ _) = (if d = SELF then path_end p else [])"
| "leaves (V3ExactOut d _ _ p _ _) = (if d = SELF then path_start p else [])"
| "leaves (V4Swap _ as) = concat (map action_leaves as)"
| "leaves _ = []"

fun returned :: "nat \<Rightarrow> router_command \<Rightarrow> nat list" where
  "returned dest (Sweep t d n) = (if d = dest \<and> n = 0 then [t] else [])"
| "returned dest (UnwrapWeth d n) = (if d = dest \<and> n = 0 then [WETH] else [])"
| "returned dest _ = []"

text \<open>
  A program that pays nobody but \<open>dest\<close> and the router itself, and whose last commands return to
  \<open>dest\<close> the ETH sent along and every token an earlier command leaves in the router.
\<close>

definition leaves_nothing :: "nat \<Rightarrow> router_command list \<Rightarrow> bool" where
  "leaves_nothing dest program \<longleftrightarrow> (\<exists>work finish. program = work @ finish
     \<and> list_all (\<lambda>c. leaves c = [] \<and> returned dest c \<noteq> []) finish
     \<and> ZERO \<in> set (concat (map (returned dest) finish))
     \<and> set (concat (map leaves work)) \<subseteq> set (concat (map (returned dest) finish)))"

definition pays_only :: "nat \<Rightarrow> router_command list \<Rightarrow> bool" where
  "pays_only dest program \<longleftrightarrow> set (concat (map payees program)) \<subseteq> {dest, SELF}"

text \<open>The actions of a V4 swap and the bytes that name them.\<close>

fun action_code :: "v4_action \<Rightarrow> nat" where
  "action_code (SwapExactInSingle _ _ _ _) = 6"
| "action_code (SwapExactOutSingle _ _ _ _) = 8"
| "action_code (Settle _ _ _) = 11"
| "action_code (Take _ _ _) = 14"

fun actions_named :: "router_command \<Rightarrow> bool" where
  "actions_named (V4Swap s as) \<longleftrightarrow> s = ''0x'' @ concat (map (\<lambda>a. hex_pad 2 (action_code a)) as)"
| "actions_named _ \<longleftrightarrow> True"

text \<open>A command that delivers exactly \<open>n\<close> of the token of route \<open>r\<close> to \<open>dest\<close>.\<close>

fun delivers :: "purchase_route \<Rightarrow> nat \<Rightarrow> nat \<Rightarrow> router_command \<Rightarrow> bool" where
  "delivers r dest n (V3ExactOut d m _ p payer _) \<longleftrightarrow> d = dest \<and> m = n \<and> \<not> payer \<and> hd p = PAddress (pr_output r)
     \<and> path_end p = [WETH]"
| "delivers r dest n (V4Swap _ as) \<longleftrightarrow> (\<exists>dir most. as = [SwapExactOutSingle (poolKey r) dir n most, Settle (pr_input r) 0 False,
     Take (pr_output r) dest 0] \<and> dir = (pk_currency0 (poolKey r) = pr_input r))"
| "delivers r dest n _ \<longleftrightarrow> False"

lemma poolKey_direction: "route_ok r \<Longrightarrow> (pk_currency0 (poolKey r) = pr_input r) = (pr_input r < pr_output r)"
  using route_ok_directed [of r] by (auto simp: poolKey_def min_def)

lemma hex_pad_2: "hex_pad 2 n = [hex_char (n div 16 mod 16), hex_char (n mod 16)]"
  by (simp add: numeral_2_eq_2)

lemma hex_pad_actions: "''0x080b0e'' = ''0x'' @ hex_pad 2 8 @ hex_pad 2 11 @ hex_pad 2 14"
  "''0x0b060e'' = ''0x'' @ hex_pad 2 11 @ hex_pad 2 6 @ hex_pad 2 14"
  by (simp_all add: hex_pad_2 hex_char_def char_of_def bit_Suc_0_iff)

text \<open>The program of a purchase, as a function of the accepted quote.\<close>

definition purchase_program :: "purchase_route \<Rightarrow> nat \<Rightarrow> nat \<Rightarrow> nat \<Rightarrow> nat \<Rightarrow> router_command list" where
  "purchase_program r dest amountOut stockInput maximumEth =
     (if pr_input r \<noteq> ZERO then [WrapEth SELF maximumEth] else [])
     @ purchase_body r (pr_input r = USDG) dest amountOut stockInput maximumEth
     @ (if pr_input r = USDG then [Sweep USDG dest 0] else [])
     @ (if pr_input r \<noteq> ZERO then [UnwrapWeth dest 0] else [])
     @ [Sweep ZERO dest 0]"

definition purchase_accepts :: "purchase_quote \<Rightarrow> string \<Rightarrow> int \<Rightarrow> nat \<Rightarrow> bool" where
  "purchase_accepts q recipient now maximumEth \<longleftrightarrow> \<bar>pq_expiresAt q\<bar> \<le> MAX_SAFE \<and> pq_chainId q = 4663
     \<and> now < pq_expiresAt q \<and> pq_expiresAt q \<le> now + 120000 \<and> is_hex 40 recipient \<and> parse_hex recipient \<noteq> ZERO
     \<and> is_amount (pq_amountOut q) \<and> is_amount (pq_amountIn q) \<and> is_amount (pq_stockInput q)
     \<and> parse_nat (pq_amountIn q) \<le> maximumEth \<and> maximumEth < 2 ^ 128"

lemma route_only_eq_Inr:
  "(case f of Route r \<Rightarrow> h r | PrototypeMember m \<Rightarrow> Inl e) = Inr y \<longleftrightarrow> (\<exists>r. f = Route r \<and> h r = Inr y)"
  by (cases f) simp_all

lemma found_route_eq_Inr:
  "(\<exists>f. P f \<and> (case f of Route r \<Rightarrow> h r | PrototypeMember m \<Rightarrow> if b then Inl e else Inl e') = Inr y)
     \<longleftrightarrow> (\<exists>r. P (Route r) \<and> h r = Inr y)"
proof
  assume "\<exists>f. P f \<and> (case f of Route r \<Rightarrow> h r | PrototypeMember m \<Rightarrow> if b then Inl e else Inl e') = Inr y"
  then obtain f where "P f" "(case f of Route r \<Rightarrow> h r | PrototypeMember m \<Rightarrow> if b then Inl e else Inl e') = Inr y"
    by blast
  then show "\<exists>r. P (Route r) \<and> h r = Inr y"
    by (cases f) (auto split: if_splits)
qed force

lemma purchaseRequest_eq_Inr:
  "purchaseRequest q recipient now maximumEth = Inr rq \<longleftrightarrow>
     purchase_accepts q recipient now maximumEth
     \<and> (\<exists>r. purchaseRoute (pq_token q) = Inr (Route r) \<and> (pr_input r \<noteq> USDG \<longrightarrow> pq_stockInput q = pq_amountIn q)
       \<and> rq = router_request_of (purchase_program r (parse_hex recipient) (parse_nat (pq_amountOut q))
                 (parse_nat (pq_stockInput q)) maximumEth) (pq_expiresAt q) maximumEth)"
proof -
  have accepts: "purchase_accepts q recipient now maximumEth \<longleftrightarrow>
     \<not> (MAX_SAFE < \<bar>pq_expiresAt q\<bar> \<or> pq_chainId q \<noteq> 4663 \<or> pq_expiresAt q \<le> now \<or> now + 120000 < pq_expiresAt q
         \<or> \<not> is_hex 40 recipient \<or> parse_hex recipient = ZERO)
     \<and> list_all is_amount [pq_amountOut q, pq_amountIn q, pq_stockInput q]
     \<and> \<not> (maximumEth < parse_nat (pq_amountIn q) \<or> 2 ^ 128 \<le> maximumEth)"
    by (simp only: purchase_accepts_def list.pred_inject not_le not_less de_Morgan_disj not_not simp_thms) (simp only: conj_assoc)
  show ?thesis
    unfolding purchaseRequest_def accepts purchase_program_def Let_def if_Inl_eq_Inr bindR_eq_Inr found_route_eq_Inr
      sum.inject
    by (simp only: conj_assoc de_Morgan_conj imp_conv_disj not_not eq_commute [of rq])
qed

lemma purchase_program_leaves_nothing:
  assumes "route_ok r" and "dest \<noteq> SELF"
  shows "leaves_nothing dest (purchase_program r dest out stock most)"
proof -
  let ?finish = "(if pr_input r = USDG then [Sweep USDG dest 0] else [])
     @ (if pr_input r \<noteq> ZERO then [UnwrapWeth dest 0] else []) @ [Sweep ZERO dest 0]"
  let ?work = "(if pr_input r \<noteq> ZERO then [WrapEth SELF most] else []) @ purchase_body r (pr_input r = USDG) dest out stock most"
  have "purchase_program r dest out stock most = ?work @ ?finish"
    by (simp add: purchase_program_def)
  moreover have "list_all (\<lambda>c. leaves c = [] \<and> returned dest c \<noteq> []) ?finish"
    by simp
  moreover have "set (concat (map leaves ?work)) \<subseteq> set (concat (map (returned dest) ?finish))"
    using route_ok_v3 [OF assms(1)] assms(2) by (auto simp: purchase_body_def)
  ultimately show ?thesis
    unfolding leaves_nothing_def by (intro exI[of _ ?work] exI[of _ ?finish]) simp
qed

lemma purchase_program_pays_only: "pays_only dest (purchase_program r dest out stock most)"
  by (auto simp: pays_only_def purchase_program_def purchase_body_def split: if_splits)

lemma purchase_program_delivers:
  assumes "route_ok r"
  shows "\<exists>c\<in>set (purchase_program r dest out stock most). delivers r dest out c"
  using route_ok_input [OF assms] route_ok_v3 [OF assms] poolKey_direction [OF assms]
  by (cases "pr_version r") (auto simp: purchase_program_def purchase_body_def)

lemma purchase_program_actions: "list_all actions_named (purchase_program r dest out stock most)"
  by (simp add: purchase_program_def purchase_body_def hex_pad_actions)

section \<open>A request that is made\<close>

text \<open>C25: A purchase request that is made sends exactly the approved limit, which covers the quoted
  cost, to a recipient that is not the zero address. Its program delivers exactly the quoted amount of the
  token to the recipient, pays nobody but the recipient and the router, and (unless the recipient is the
  address 2, by which a program names the router itself) ends by returning to the recipient the unspent ETH
  and every token that an earlier command can leave in the router; the bytes that
  name the actions of a V4 swap are the codes of the actions passed with them.\<close>

theorem purchase_request_safe:
  assumes "purchaseRequest q recipient now maximumEth = Inr rq"
  shows "rq_value rq = maximumEth \<and> parse_nat (pq_amountIn q) \<le> maximumEth \<and> maximumEth < 2 ^ 128
    \<and> now < pq_expiresAt q \<and> parse_hex recipient \<noteq> ZERO
    \<and> (\<exists>r c. purchaseRoute (pq_token q) = Inr (Route r) \<and> c \<in> set (rq_program rq)
          \<and> delivers r (parse_hex recipient) (parse_nat (pq_amountOut q)) c)
    \<and> pays_only (parse_hex recipient) (rq_program rq) \<and> (parse_hex recipient \<noteq> SELF \<longrightarrow> leaves_nothing (parse_hex recipient) (rq_program rq))
    \<and> list_all actions_named (rq_program rq) \<and> rq_commands rq = command_text (rq_program rq)"
proof -
  obtain r where r: "purchaseRoute (pq_token q) = Inr (Route r)" and ok: "purchase_accepts q recipient now maximumEth"
    and rq: "rq = router_request_of (purchase_program r (parse_hex recipient) (parse_nat (pq_amountOut q))
               (parse_nat (pq_stockInput q)) maximumEth) (pq_expiresAt q) maximumEth"
    using assms unfolding purchaseRequest_eq_Inr by blast
  note route = conjunct1 [OF purchaseRoute_ok [OF r]]
  obtain c where "c \<in> set (rq_program rq)" "delivers r (parse_hex recipient) (parse_nat (pq_amountOut q)) c"
    using purchase_program_delivers [OF route, of "parse_hex recipient" "parse_nat (pq_amountOut q)" "parse_nat (pq_stockInput q)" maximumEth]
    unfolding rq router_request_of_def by auto
  moreover have "rq_value rq = maximumEth" "rq_commands rq = command_text (rq_program rq)"
    "pays_only (parse_hex recipient) (rq_program rq)" "parse_hex recipient \<noteq> SELF \<longrightarrow> leaves_nothing (parse_hex recipient) (rq_program rq)"
    "list_all actions_named (rq_program rq)"
    by (simp_all add: rq router_request_of_def purchase_program_pays_only purchase_program_leaves_nothing [OF route]
        purchase_program_actions)
  ultimately show ?thesis
    using ok r unfolding purchase_accepts_def by blast
qed

section \<open>A quote can be executed\<close>

lemma length_show_nat: "n < 10 ^ k \<Longrightarrow> 0 < k \<Longrightarrow> length (show_nat n) \<le> k"
proof (induction k arbitrary: n)
  case (Suc k)
  show ?case
  proof (cases "n < 10")
    case False
    then have "n div 10 < 10 ^ k" "0 < k"
      using Suc.prems by (auto simp: less_mult_imp_div_less intro: gr0I)
    then show ?thesis
      using Suc.IH [of "n div 10"] False by (simp add: show_nat.simps [of n])
  qed (simp add: show_nat.simps)
qed simp

lemma is_amount_show_nat: "is_amount (show_nat n) \<longleftrightarrow> 0 < n \<and> n < 2 ^ 128"
proof -
  have "n < 2 ^ 128 \<Longrightarrow> length (show_nat n) \<le> 39"
    by (rule length_show_nat) (rule less_le_trans, assumption, simp_all)
  then show ?thesis
    by (auto simp: is_amount_def)
qed

lemma purchase_leg_eq_Inr:
  "purchase_leg cv r out = Inr (input, spot) \<Longrightarrow> input = cv_exactOutput cv r out \<and> 0 < input \<and> input < 2 ^ 128"
  by (auto simp: purchase_leg_def Let_def split: if_splits)

text \<open>What is known of a quote, whichever route it takes.\<close>

lemma quotePurchase_shape:
  assumes "quotePurchase cv token amount = Inr q"
  obtains r where "purchaseRoute token = Inr (Route r)" "pq_token q = hex_text 40 (pr_output r)" "pq_chainId q = 4663"
    "is_amount (pq_amountOut q)" "is_amount (pq_amountIn q)" "is_amount (pq_stockInput q)"
    "pr_input r \<noteq> USDG \<longrightarrow> pq_stockInput q = pq_amountIn q" "pq_amountOut q = amount"
    "pq_expiresAt q = cv_timestamp cv * 1000 + 90000"
proof -
  from assms obtain r i1 s1 i2 s2 impact where r: "purchaseRoute token = Inr (Route r)" and amount: "is_amount amount"
    and l1: "purchase_leg cv r (parse_nat amount) = Inr (i1, s1)"
    and l2: "(if pr_input r = USDG then purchase_leg cv bridge i1 else Inr (i1, s1)) = Inr (i2, s2)"
    and q: "q = \<lparr>pq_chainId = 4663, pq_token = hex_text 40 (pr_output r), pq_amountOut = amount,
           pq_amountIn = show_nat i2, pq_stockInput = show_nat i1,
           pq_blockNumber = show_nat (cv_blockNumber cv), pq_expiresAt = cv_timestamp cv * 1000 + 90000,
           pq_priceImpactBps = impact\<rparr>"
    unfolding quotePurchase_def Let_def if_Inl_eq_Inr bindR_eq_Inr by (auto simp: bindR_eq_Inr route_only_eq_Inr split: prod.splits)
  have "0 < i1 \<and> i1 < 2 ^ 128" "0 < i2 \<and> i2 < 2 ^ 128"
    using purchase_leg_eq_Inr [of cv r "parse_nat amount" i1 s1] purchase_leg_eq_Inr [of cv bridge i1 i2 s2] l1 l2 by (auto split: if_splits)
  moreover have "pr_input r \<noteq> USDG \<longrightarrow> i2 = i1"
    using l2 by auto
  ultimately show ?thesis
    using that [OF r] q amount by (simp only: is_amount_show_nat purchase_quote.simps) blast
qed

lemma purchaseEthLimit_eq_Inr:
  "purchaseEthLimit n = Inr limit \<longleftrightarrow> 0 < n \<and> n < 2 ^ 128 \<and> 11 * n \<le> 10 * limit \<and> 10 * limit < 11 * n + 10"
proof -
  have "(n * 110 + 99) div 100 = limit \<longleftrightarrow> 11 * n \<le> 10 * limit \<and> 10 * limit < 11 * n + 10"
    by arith
  then show ?thesis
    by (auto simp: purchaseEthLimit_def)
qed

text \<open>A quote that is returned can be executed: its default limit is the quoted cost with ten percent
  added, rounded up to the next wei, and until the quote expires the request for any recipient address but
  zero is made with any limit from the quoted cost on, in particular the default one, below \<open>2 ^ 128\<close>.\<close>

theorem purchase_quote_executable:
  assumes "quotePurchase cv token amount = Inr q"
    and "is_hex 40 recipient" and "parse_hex recipient \<noteq> ZERO" and "\<bar>pq_expiresAt q\<bar> \<le> MAX_SAFE"
    and "now < pq_expiresAt q" and "pq_expiresAt q \<le> now + 120000"
  shows "(\<exists>limit. purchaseEthLimit (int (parse_nat (pq_amountIn q))) = Inr limit
        \<and> int (parse_nat (pq_amountIn q)) < limit
        \<and> 11 * int (parse_nat (pq_amountIn q)) \<le> 10 * limit \<and> 10 * limit < 11 * int (parse_nat (pq_amountIn q)) + 10)
    \<and> (\<exists>rq. purchaseRequest q recipient now maximumEth = Inr rq)
        = (parse_nat (pq_amountIn q) \<le> maximumEth \<and> maximumEth < 2 ^ 128)"
proof -
  obtain r where r: "purchaseRoute token = Inr (Route r)" and shape: "pq_token q = hex_text 40 (pr_output r)" "pq_chainId q = 4663"
    "is_amount (pq_amountOut q)" "is_amount (pq_amountIn q)" "is_amount (pq_stockInput q)"
    "pr_input r \<noteq> USDG \<longrightarrow> pq_stockInput q = pq_amountIn q"
    by (rule quotePurchase_shape [OF assms(1)])
  have token: "purchaseRoute (pq_token q) = Inr (Route r)"
    unfolding shape(1) by (rule purchaseRoute_again [OF r])
  have cost: "0 < int (parse_nat (pq_amountIn q))" "int (parse_nat (pq_amountIn q)) < 2 ^ 128"
    using shape(4) parse_nat_pos [of "pq_amountIn q"] by (simp_all add: is_amount_def)
  have limit: "\<exists>limit. 11 * n \<le> 10 * limit \<and> 10 * limit < 11 * n + 10 \<and> n < limit" if "0 < n" for n :: int
    using that by (intro exI [of _ "(n * 110 + 99) div 100"]) arith
  have "purchase_accepts q recipient now maximumEth = (parse_nat (pq_amountIn q) \<le> maximumEth \<and> maximumEth < 2 ^ 128)"
    using shape assms unfolding purchase_accepts_def by blast
  then show ?thesis
    using limit [OF cost(1)] cost token shape(6) unfolding purchaseRequest_eq_Inr purchaseEthLimit_eq_Inr by blast
qed

section \<open>Sample purchases\<close>

definition sample_view :: chain_view where
  "sample_view = \<lparr>cv_chainId = 4663, cv_blockNumber = 9, cv_timestamp = 1000, cv_exactOutput = (\<lambda>r out. if pr_output r = USDG then out div 2 + 1 else out * 3),
     cv_exactInput = (\<lambda>r input. input * 5), cv_sqrtPrice = (\<lambda>r. 2 ^ 96)\<rparr>"

definition sample_quote :: purchase_quote where
  "sample_quote = \<lparr>pq_chainId = 4663, pq_token = hex_text 40 sample_v4_usdg, pq_amountOut = show_nat 1000, pq_amountIn = show_nat 1501,
     pq_stockInput = show_nat 3000, pq_blockNumber = show_nat 9, pq_expiresAt = 1090000, pq_priceImpactBps = 3337\<rparr>"

lemma sample_quote_quoted: "quotePurchase sample_view (hex_text 40 sample_v4_usdg) (show_nat 1000) = Inr sample_quote"
proof -
  have "is_amount (show_nat 1000)"
    by (simp only: is_amount_show_nat) simp
  then show ?thesis
    unfolding quotePurchase_def purchaseRoute_text [OF sample_routes(2)]
    by (simp add: route_def purchase_leg_def sample_view_def sample_quote_def
        price_impact_def Let_def USDG_def WETH_def sample_v4_usdg_def bridge_def del: show_nat.simps)
qed

lemma sample_recipient: "is_hex 40 (hex_text 40 7)" "parse_hex (hex_text 40 7) = 7" "parse_hex (hex_text 40 7) \<noteq> ZERO"
  using is_lower_hex_is_hex [OF hex_text_literal] parse_hex_text [of 7 40] by (simp_all add: ZERO_def)

lemma sample_quote_live: "\<bar>pq_expiresAt sample_quote\<bar> \<le> MAX_SAFE" "1050000 < pq_expiresAt sample_quote"
  "pq_expiresAt sample_quote \<le> 1050000 + 120000"
  by (simp_all add: sample_quote_def MAX_SAFE_def)

theorem purchase_quote_executable_witness:
  "\<exists>rq. purchaseRequest sample_quote (hex_text 40 7) 1050000 1652 = Inr rq"
proof -
  have "parse_nat (pq_amountIn sample_quote) \<le> 1652" "(1652::nat) < 2 ^ 128"
    by (simp_all add: sample_quote_def del: show_nat.simps)
  then show ?thesis
    using purchase_quote_executable [OF sample_quote_quoted sample_recipient(1,3) sample_quote_live, of 1652] by blast
qed

lemma sample_request:
  "purchaseRequest sample_quote (hex_text 40 7) 1050000 1652 = Inr (router_request_of
     (purchase_program (route V4 0x5d0434f1dcf45ff9450c1a63b5c9e088f90cfebf483458164e81be6fb96e2b2a USDG sample_v4_usdg 10000 (Some 100) (Some ZERO))
        7 1000 3000 1652) 1090000 1652)"
proof -
  have "is_amount (show_nat 1000)" "is_amount (show_nat 1501)" "is_amount (show_nat 3000)"
    by (simp_all only: is_amount_show_nat) simp_all
  then have "purchase_accepts sample_quote (hex_text 40 7) 1050000 1652"
    using sample_recipient sample_quote_live by (simp add: purchase_accepts_def) (simp add: sample_quote_def del: show_nat.simps)
  then show ?thesis
    unfolding purchaseRequest_eq_Inr using purchaseRoute_text [OF sample_routes(2)] sample_recipient(2)
    by (simp add: sample_quote_def route_def del: show_nat.simps)
qed

theorem purchase_request_safe_witness:
  "leaves_nothing 7 (rq_program (router_request_of
     (purchase_program (route V4 0x5d0434f1dcf45ff9450c1a63b5c9e088f90cfebf483458164e81be6fb96e2b2a USDG sample_v4_usdg 10000 (Some 100) (Some ZERO))
        7 1000 3000 1652) 1090000 1652))"
  using purchase_request_safe [OF sample_request] by (simp add: sample_recipient(2) SELF_def)

end
