(* ===== verification/Quote_Conversion.thy ===== *)
theory Quote_Conversion imports Quote_Purchase begin

text \<open>
  \<open>conversion.ts\<close> of \<open>packages/chain/src/quote-purchase\<close>: selling an exact amount of ETH for at
  least a minimum of a token, through the same routes and the same router as a purchase. A quote
  extends the intent it answers; clock readings are arguments. The lemmas show that an accepted quote
  gives a program that pays only the taker and enforces the minimum, that a refreshed quote keeps the
  minimum the user confirmed, and that a quote the service returns is accepted until it expires.
\<close>

section \<open>BigInt of a text\<close>

definition js_space :: "char \<Rightarrow> bool" where
  "js_space c \<longleftrightarrow> (9 \<le> code_of c \<and> code_of c \<le> 13) \<or> code_of c = 32 \<or> code_of c = 160"

definition js_trim :: "string \<Rightarrow> string" where
  "js_trim s = rev (dropWhile js_space (rev (dropWhile js_space s)))"

definition radix_digits :: "nat \<Rightarrow> string \<Rightarrow> int option" where
  "radix_digits b s = (if s \<noteq> [] \<and> list_all (\<lambda>c. is_hex_digit c \<and> hex_val (lower_char c) < b) s
     then Some (int (foldl (\<lambda>acc c. b * acc + hex_val (lower_char c)) 0 s)) else None)"

text \<open>\<open>BigInt(s)\<close>: \<open>None\<close> where it throws a \<open>SyntaxError\<close>.\<close>

definition js_bigint :: "string \<Rightarrow> int option" where
  "js_bigint s = (let t = js_trim s; p = lower (take 2 t); r = drop 2 t in
     if t = [] then Some 0
     else if p = ''0x'' then radix_digits 16 r
     else if p = ''0o'' then radix_digits 8 r
     else if p = ''0b'' then radix_digits 2 r
     else if hd t = CHR ''-'' then map_option uminus (if is_digits (tl t) then Some (int (parse_nat (tl t))) else None)
     else let d = (if hd t = CHR ''+'' then tl t else t) in if is_digits d then Some (int (parse_nat d)) else None)"

section \<open>Intents and quotes\<close>

record conversion_intent =
  ci_chainId :: int
  ci_sellToken :: string
  ci_buyToken :: string
  ci_sellAmount :: string
  ci_taker :: string

record conversion_quote = conversion_intent +
  cq_provider :: string
  cq_buyAmount :: string
  cq_minBuyAmount :: string
  cq_blockNumber :: string
  cq_expiresAt :: int
  cq_priceImpactBps :: int

definition intent_ok :: "'a conversion_intent_scheme \<Rightarrow> bool" where
  "intent_ok i \<longleftrightarrow> ci_chainId i = 4663 \<and> ci_sellToken i = hex_lit 40 CHR ''0'' \<and> is_hex 40 (ci_buyToken i)
     \<and> is_hex 40 (ci_taker i) \<and> lower (ci_taker i) \<noteq> hex_lit 40 CHR ''0'' \<and> is_amount (ci_sellAmount i)"

definition assertConversionIntent :: "'a conversion_intent_scheme \<Rightarrow> unit res" where
  "assertConversionIntent i = (if \<not> intent_ok i then Inl (Error ''Invalid conversion request'')
     else bindR (purchaseRoute (ci_buyToken i)) (\<lambda>_. Inr ()))"

text \<open>The conditions under which a quote answers an intent at time \<open>now\<close>.\<close>

definition quote_matches :: "conversion_quote \<Rightarrow> 'a conversion_intent_scheme \<Rightarrow> int \<Rightarrow> bool" where
  "quote_matches q i now \<longleftrightarrow> cq_provider q = ''configured-pool'' \<and> is_digits (cq_blockNumber q)
     \<and> \<bar>cq_priceImpactBps q\<bar> \<le> MAX_SAFE \<and> 0 \<le> cq_priceImpactBps q \<and> cq_priceImpactBps q \<le> 10000
     \<and> ci_chainId q = ci_chainId i \<and> ci_sellToken q = ci_sellToken i
     \<and> lower (ci_buyToken q) = lower (ci_buyToken i) \<and> lower (ci_taker q) = lower (ci_taker i)
     \<and> ci_sellAmount q = ci_sellAmount i \<and> is_amount (cq_buyAmount q) \<and> is_amount (cq_minBuyAmount q)
     \<and> parse_nat (cq_minBuyAmount q) \<le> parse_nat (cq_buyAmount q)
     \<and> parse_nat (cq_buyAmount q) * 99 div 100 \<le> parse_nat (cq_minBuyAmount q)
     \<and> \<bar>cq_expiresAt q\<bar> \<le> MAX_SAFE \<and> now < cq_expiresAt q \<and> cq_expiresAt q \<le> now + 90000"

section \<open>The program of a conversion\<close>

definition BALANCE :: nat where "BALANCE = 2 ^ 255"

definition conversion_body :: "purchase_route \<Rightarrow> bool \<Rightarrow> nat \<Rightarrow> nat \<Rightarrow> nat \<Rightarrow> router_command list" where
  "conversion_body r via taker amount minimum =
     (if pr_version r = V3 then
        [V3ExactIn taker amount minimum
           (if via then [PAddress WETH, PFee (pr_fee bridge), PAddress USDG, PFee (pr_fee r), PAddress (pr_output r)]
            else [PAddress (pr_input r), PFee (pr_fee r), PAddress (pr_output r)]) False (if via then [0, 0] else [0])]
      else (if via then [V3ExactIn SELF amount 0 [PAddress WETH, PFee (pr_fee bridge), PAddress USDG] False [0]] else [])
        @ [V4Swap ''0x0b060e'' [Settle (pr_input r) (if via then BALANCE else amount) False,
             SwapExactInSingle (poolKey r) (pr_input r < pr_output r) 0 minimum, Take (pr_output r) taker 0]])"

definition conversion_program :: "purchase_route \<Rightarrow> nat \<Rightarrow> nat \<Rightarrow> nat \<Rightarrow> router_command list" where
  "conversion_program r taker amount minimum = (let via = (pr_input r = USDG) in
     (if pr_input r \<noteq> ZERO then [WrapEth SELF amount] else [])
     @ conversion_body r via taker amount minimum
     @ (if via then [Sweep USDG taker 0] else [])
     @ (if pr_input r \<noteq> ZERO then [UnwrapWeth taker 0] else [])
     @ [Sweep ZERO taker 0])"

definition conversionRequest :: "conversion_quote \<Rightarrow> 'a conversion_intent_scheme \<Rightarrow> int \<Rightarrow> router_request res" where
  "conversionRequest q i now =
     bindR (assertConversionIntent i) (\<lambda>_.
     if \<not> quote_matches q i now then Inl (Error ''Conversion quote does not match'')
     else bindR (purchaseRoute (ci_buyToken i)) (\<lambda>f. case f of
       PrototypeMember _ \<Rightarrow> Inl undefined_address
     | Route r \<Rightarrow> Inr (router_request_of
       (conversion_program r (parse_hex (ci_taker i)) (parse_nat (ci_sellAmount i)) (parse_nat (cq_minBuyAmount q)))
       (cq_expiresAt q) (parse_nat (ci_sellAmount i)))))"

text \<open>\<open>now\<close> and \<open>later\<close> are the clock readings of the two checks.\<close>

definition preserveConversionMinimum :: "conversion_quote \<Rightarrow> conversion_quote \<Rightarrow> int \<Rightarrow> int \<Rightarrow> conversion_quote res" where
  "preserveConversionMinimum fresh reviewed now later =
     bindR (conversionRequest fresh reviewed now) (\<lambda>_.
     case js_bigint (cq_minBuyAmount reviewed) of None \<Rightarrow> Inl (SyntaxError (cq_minBuyAmount reviewed))
     | Some confirmed \<Rightarrow>
     if int (parse_nat (cq_buyAmount fresh)) < confirmed
     then Inl (Error ''Price changed beyond the confirmed conversion minimum.'')
     else let result = fresh \<lparr>cq_minBuyAmount :=
              (if confirmed < int (parse_nat (cq_minBuyAmount fresh)) then cq_minBuyAmount fresh else cq_minBuyAmount reviewed)\<rparr> in
     bindR (conversionRequest result reviewed later) (\<lambda>_. Inr result))"

section \<open>Quoting\<close>

definition conversion_leg :: "chain_view \<Rightarrow> purchase_route \<Rightarrow> nat \<Rightarrow> nat \<Rightarrow> (nat \<times> nat) res" where
  "conversion_leg cv r input spotInput = (let out = cv_exactInput cv r input; square = cv_sqrtPrice cv r ^ 2 in
     if out = 0 \<or> 2 ^ 128 \<le> out then Inl (Error ''No conversion depth'')
     else if square = 0 then Inl (Error ''No conversion depth'')
     else Inr (out, if pr_input r < pr_output r then spotInput * square div 2 ^ 192 else spotInput * 2 ^ 192 div square))"

definition conversion_impact :: "nat \<Rightarrow> nat \<Rightarrow> int" where
  "conversion_impact spot out = (if out < spot then int ((spot - out) * 10000 div spot) else 0)"

text \<open>\<open>now\<close> is read when the quote is built, \<open>later\<close> when it is checked.\<close>

definition getConversionQuote :: "chain_view \<Rightarrow> conversion_intent \<Rightarrow> int \<Rightarrow> int \<Rightarrow> conversion_quote res" where
  "getConversionQuote cv i now later =
     bindR (assertConversionIntent i) (\<lambda>_.
     if cv_chainId cv \<noteq> 4663 then Inl (Error ''Wrong conversion network'')
     else bindR (purchaseRoute (ci_buyToken i)) (\<lambda>f. case f of PrototypeMember _ \<Rightarrow> Inl undefined_address | Route r \<Rightarrow>
     let input = parse_nat (ci_sellAmount i) in
     bindR (if pr_input r = USDG then conversion_leg cv bridge input input else Inr (input, input)) (\<lambda>(baseOut, baseSpot).
     bindR (conversion_leg cv r baseOut baseSpot) (\<lambda>(out, spot).
     let q = conversion_intent.extend i \<lparr>cq_provider = ''configured-pool'', cq_buyAmount = show_nat out,
         cq_minBuyAmount = show_nat (out * 99 div 100), cq_blockNumber = show_nat (cv_blockNumber cv),
         cq_expiresAt = now + 30000, cq_priceImpactBps = conversion_impact spot out\<rparr> in
     bindR (conversionRequest q i later) (\<lambda>_. Inr q)))))"

section \<open>Accepted conversions\<close>

lemma parse_hex_lower: "is_hex n s \<Longrightarrow> parse_hex (lower s) = parse_hex s"
proof -
  assume "is_hex n s"
  then have digits: "list_all is_hex_digit (drop 2 s)"
    by (simp add: is_hex_def)
  have val: "hex_val (lower_char c) = hex_val c" if "is_hex_digit c" for c
    using that by (auto simp: hex_val_def lower_char_def is_hex_digit_def is_digit_def code_of_def)
  have "foldl (\<lambda>acc c. 16 * acc + hex_val c) a (map lower_char t) = foldl (\<lambda>acc c. 16 * acc + hex_val c) a t"
    if "list_all is_hex_digit t" for a t
    using that by (induction t arbitrary: a) (simp_all add: val)
  then show ?thesis
    using digits by (simp add: parse_hex_def lower_def drop_map)
qed

lemma parse_hex_zero: "parse_hex (hex_lit n CHR ''0'') = 0"
proof -
  have "foldl (\<lambda>acc c. 16 * acc + hex_val c) 0 (replicate n CHR ''0'') = 0"
    by (induction n) (simp_all add: hex_val_def is_digit_def code_of_def)
  then show ?thesis
    by (simp add: parse_hex_def hex_lit_def)
qed

lemma intent_taker: "intent_ok i \<Longrightarrow> parse_hex (ci_taker i) \<noteq> ZERO"
proof
  assume ok: "intent_ok i" and zero: "parse_hex (ci_taker i) = ZERO"
  have "is_lower_hex 40 (lower (ci_taker i))" "is_lower_hex 40 (hex_lit 40 CHR ''0'')"
    using ok is_hex_lower by (auto simp: intent_ok_def is_lower_hex_def hex_lit_def is_lower_hex_digit_def is_digit_def code_of_def list_all_iff)
  moreover have "parse_hex (lower (ci_taker i)) = parse_hex (hex_lit 40 CHR ''0'')"
    using ok zero parse_hex_lower [of 40 "ci_taker i"] by (simp add: intent_ok_def parse_hex_zero ZERO_def)
  ultimately show False
    using ok parse_hex_inj by (auto simp: intent_ok_def)
qed

text \<open>An intent names its token by an address literal, so no member of \<open>Object.prototype\<close> is found for it.\<close>

lemma intent_route: "intent_ok i \<Longrightarrow> purchaseRoute (ci_buyToken i) = Inr f \<Longrightarrow> \<exists>r. f = Route r"
proof (cases f)
  case (PrototypeMember m)
  assume "intent_ok i" "purchaseRoute (ci_buyToken i) = Inr f"
  then have "is_lower_hex 40 (lower (ci_buyToken i))" "lower (ci_buyToken i) \<in> set object_prototype"
    using PrototypeMember is_hex_lower prototype_lower by (auto simp: intent_ok_def purchaseRoute_eq_Member)
  then show ?thesis
    using prototype_not_literal by blast
qed simp

lemma assertConversionIntent_eq_Inr:
  "assertConversionIntent i = Inr u \<longleftrightarrow> intent_ok i \<and> (\<exists>r. purchaseRoute (ci_buyToken i) = Inr (Route r))"
  using intent_route [of i] by (auto simp: assertConversionIntent_def bindR_eq_Inr)

lemma conversionRequest_eq_Inr:
  "conversionRequest q i now = Inr rq \<longleftrightarrow> intent_ok i \<and> quote_matches q i now
     \<and> (\<exists>r. purchaseRoute (ci_buyToken i) = Inr (Route r)
       \<and> rq = router_request_of (conversion_program r (parse_hex (ci_taker i)) (parse_nat (ci_sellAmount i)) (parse_nat (cq_minBuyAmount q)))
             (cq_expiresAt q) (parse_nat (ci_sellAmount i)))"
  by (auto simp: conversionRequest_def bindR_eq_Inr assertConversionIntent_eq_Inr route_only_eq_Inr split: if_splits)

lemma conversion_program_leaves_nothing:
  assumes "route_ok r" and "dest \<noteq> SELF"
  shows "leaves_nothing dest (conversion_program r dest amount least)"
proof -
  let ?finish = "(if pr_input r = USDG then [Sweep USDG dest 0] else [])
     @ (if pr_input r \<noteq> ZERO then [UnwrapWeth dest 0] else []) @ [Sweep ZERO dest 0]"
  let ?work = "(if pr_input r \<noteq> ZERO then [WrapEth SELF amount] else []) @ conversion_body r (pr_input r = USDG) dest amount least"
  have "conversion_program r dest amount least = ?work @ ?finish"
    by (simp add: conversion_program_def Let_def)
  moreover have "list_all (\<lambda>c. leaves c = [] \<and> returned dest c \<noteq> []) ?finish"
    by simp
  moreover have "set (concat (map leaves ?work)) \<subseteq> set (concat (map (returned dest) ?finish))"
    using route_ok_v3 [OF assms(1)] assms(2) by (auto simp: conversion_body_def)
  ultimately show ?thesis
    unfolding leaves_nothing_def by (intro exI[of _ ?work] exI[of _ ?finish]) simp
qed

lemma conversion_program_pays_only: "pays_only dest (conversion_program r dest amount least)"
  by (auto simp: pays_only_def conversion_program_def conversion_body_def Let_def split: if_splits)

lemma conversion_program_actions: "list_all actions_named (conversion_program r dest amount least)"
  by (simp add: conversion_program_def conversion_body_def hex_pad_actions Let_def)

text \<open>A command that delivers at least \<open>n\<close> of the token of route \<open>r\<close> to \<open>dest\<close>.\<close>

fun enforces :: "purchase_route \<Rightarrow> nat \<Rightarrow> nat \<Rightarrow> router_command \<Rightarrow> bool" where
  "enforces r dest n (V3ExactIn d _ m p payer _) \<longleftrightarrow> d = dest \<and> m = n \<and> \<not> payer \<and> path_start p = [WETH]
     \<and> path_end p = [pr_output r]"
| "enforces r dest n (V4Swap _ as) \<longleftrightarrow> (\<exists>paid. as = [Settle (pr_input r) paid False,
     SwapExactInSingle (poolKey r) (pk_currency0 (poolKey r) = pr_input r) 0 n, Take (pr_output r) dest 0])"
| "enforces r dest n _ \<longleftrightarrow> False"

lemma conversion_program_enforces:
  assumes "route_ok r"
  shows "\<exists>c\<in>set (conversion_program r dest amount least). enforces r dest least c"
  using route_ok_input [OF assms] route_ok_v3 [OF assms] poolKey_direction [OF assms]
  by (cases "pr_version r") (auto simp: conversion_program_def conversion_body_def Let_def)

text \<open>A conversion request that is made sends exactly the amount to sell, for a quote that is
  still valid and whose minimum is positive, at most the quoted amount and at least 99 percent of it, rounded
  down. Its program delivers at least that minimum of the token to the taker (who is not the zero
  address), pays nobody but the taker and the router and, unless the taker is the address 2 that names the
  router, returns to the taker the ETH and every token an earlier command can leave in the router.\<close>

theorem conversion_request_safe:
  assumes "conversionRequest q i now = Inr rq"
  shows "rq_value rq = parse_nat (ci_sellAmount i) \<and> now < cq_expiresAt q
    \<and> 0 < parse_nat (cq_minBuyAmount q) \<and> parse_nat (cq_minBuyAmount q) \<le> parse_nat (cq_buyAmount q)
    \<and> parse_nat (cq_buyAmount q) * 99 div 100 \<le> parse_nat (cq_minBuyAmount q) \<and> parse_hex (ci_taker i) \<noteq> ZERO
    \<and> (\<exists>r c. purchaseRoute (ci_buyToken i) = Inr (Route r) \<and> c \<in> set (rq_program rq)
          \<and> enforces r (parse_hex (ci_taker i)) (parse_nat (cq_minBuyAmount q)) c)
    \<and> pays_only (parse_hex (ci_taker i)) (rq_program rq)
    \<and> (parse_hex (ci_taker i) \<noteq> SELF \<longrightarrow> leaves_nothing (parse_hex (ci_taker i)) (rq_program rq))
    \<and> list_all actions_named (rq_program rq) \<and> rq_commands rq = command_text (rq_program rq)"
proof -
  obtain r where r: "purchaseRoute (ci_buyToken i) = Inr (Route r)" and ok: "intent_ok i" "quote_matches q i now"
    and rq: "rq = router_request_of (conversion_program r (parse_hex (ci_taker i)) (parse_nat (ci_sellAmount i))
               (parse_nat (cq_minBuyAmount q))) (cq_expiresAt q) (parse_nat (ci_sellAmount i))"
    using assms unfolding conversionRequest_eq_Inr by blast
  note route = conjunct1 [OF purchaseRoute_ok [OF r]]
  obtain c where "c \<in> set (rq_program rq)" "enforces r (parse_hex (ci_taker i)) (parse_nat (cq_minBuyAmount q)) c"
    using conversion_program_enforces [OF route, of "parse_hex (ci_taker i)" "parse_nat (ci_sellAmount i)" "parse_nat (cq_minBuyAmount q)"]
    unfolding rq router_request_of_def by auto
  moreover have "rq_value rq = parse_nat (ci_sellAmount i)" "rq_commands rq = command_text (rq_program rq)"
    "pays_only (parse_hex (ci_taker i)) (rq_program rq)"
    "parse_hex (ci_taker i) \<noteq> SELF \<longrightarrow> leaves_nothing (parse_hex (ci_taker i)) (rq_program rq)"
    "list_all actions_named (rq_program rq)"
    by (simp_all add: rq router_request_of_def conversion_program_pays_only conversion_program_leaves_nothing [OF route]
        conversion_program_actions)
  moreover have "0 < parse_nat (cq_minBuyAmount q)"
    using ok(2) parse_nat_pos by (simp add: quote_matches_def is_amount_def)
  ultimately show ?thesis
    using ok r intent_taker [OF ok(1)] unfolding quote_matches_def by blast
qed

section \<open>Refreshing a reviewed quote\<close>

lemma digit_not_space: "is_digit c \<Longrightarrow> \<not> js_space c"
  by (auto simp: is_digit_def js_space_def)

lemma js_trim_digits: "is_digits s \<Longrightarrow> js_trim s = s"
proof -
  assume s: "is_digits s"
  have "dropWhile js_space t = t" if "t \<noteq> []" "list_all is_digit t" for t
    using that by (cases t) (auto simp: digit_not_space)
  from this [of s] this [of "rev s"] show ?thesis
    using s by (simp add: js_trim_def is_digits_def list_all_rev)
qed

lemma lower_digit: "is_digit c \<Longrightarrow> lower_char c = c"
  by (auto simp: is_digit_def lower_char_def)

lemma js_bigint_pos:
  assumes "is_pos_literal s"
  shows "js_bigint s = Some (int (parse_nat s))"
proof -
  obtain c t where s: "s = c # t" and c: "is_digit c" "c \<noteq> CHR ''0''"
    using assms by (cases s) (auto simp: is_pos_literal_def)
  have "hd s = c" "c \<noteq> CHR ''-''" "c \<noteq> CHR ''+''" "is_digits s" "s \<noteq> []"
    using assms c s by (auto simp: is_digit_def code_of_def is_pos_literal_def is_digits_def)
  moreover have "lower (take 2 s) \<noteq> CHR ''0'' # r" for r
    using c s by (simp add: lower_def lower_digit numeral_2_eq_2)
  ultimately show ?thesis
    by (simp add: js_bigint_def js_trim_digits Let_def)
qed

lemma is_amount_max: "is_amount s \<Longrightarrow> is_amount t \<Longrightarrow>
    (if parse_nat s < parse_nat t then t else s) = show_nat (max (parse_nat s) (parse_nat t))"
  using show_parse_pos by (auto simp: is_amount_def max_def)

text \<open>Refreshing a conversion quote keeps the confirmed minimum: for a fresh quote that answers the
  reviewed one and does not expire between the two checks, the result is the fresh quote with the larger of
  the two minima, and the only failure is the reported price change, exactly when the fresh amount is below
  the confirmed minimum.\<close>

theorem preserve_minimum:
  assumes fresh: "conversionRequest fresh reviewed now = Inr rq" and reviewed: "is_amount (cq_minBuyAmount reviewed)"
    and clock: "now \<le> later" "later < cq_expiresAt fresh"
  shows "preserveConversionMinimum fresh reviewed now later =
    (if parse_nat (cq_buyAmount fresh) < parse_nat (cq_minBuyAmount reviewed)
     then Inl (Error ''Price changed beyond the confirmed conversion minimum.'')
     else Inr (fresh\<lparr>cq_minBuyAmount := show_nat (max (parse_nat (cq_minBuyAmount reviewed)) (parse_nat (cq_minBuyAmount fresh)))\<rparr>))"
proof (cases "parse_nat (cq_buyAmount fresh) < parse_nat (cq_minBuyAmount reviewed)")
  case True
  then show ?thesis
    using reviewed by (simp add: preserveConversionMinimum_def fresh is_amount_def js_bigint_pos)
next
  case False
  define least where "least = max (parse_nat (cq_minBuyAmount reviewed)) (parse_nat (cq_minBuyAmount fresh))"
  let ?q = "fresh\<lparr>cq_minBuyAmount := show_nat least\<rparr>"
  have ok: "intent_ok reviewed" "quote_matches fresh reviewed now"
    and "\<exists>r. purchaseRoute (ci_buyToken reviewed) = Inr (Route r)"
    using fresh unfolding conversionRequest_eq_Inr by blast+
  then obtain r where r: "purchaseRoute (ci_buyToken reviewed) = Inr (Route r)"
    by blast
  have least: "least \<le> parse_nat (cq_buyAmount fresh)" "parse_nat (cq_minBuyAmount fresh) \<le> least" "0 < least"
    using False ok(2) reviewed parse_nat_pos [of "cq_minBuyAmount reviewed"]
    by (auto simp: least_def quote_matches_def is_amount_def)
  then have "is_amount (show_nat least)"
    unfolding is_amount_show_nat using ok(2) by (simp add: quote_matches_def is_amount_def)
  note least = least this
  have "quote_matches ?q reviewed later"
    using ok(2) least clock by (simp add: quote_matches_def) linarith
  then have "\<exists>rq'. conversionRequest ?q reviewed later = Inr rq'"
    using ok(1) r by (simp add: conversionRequest_eq_Inr)
  moreover have "(if int (parse_nat (cq_minBuyAmount reviewed)) < int (parse_nat (cq_minBuyAmount fresh))
      then cq_minBuyAmount fresh else cq_minBuyAmount reviewed) = show_nat least"
    using is_amount_max [OF reviewed, of "cq_minBuyAmount fresh"] ok(2) by (simp add: least_def quote_matches_def)
  ultimately show ?thesis
    using False reviewed unfolding least_def [symmetric]
    by (auto simp: preserveConversionMinimum_def fresh is_amount_def js_bigint_pos Let_def)
qed

section \<open>A quote the service returns\<close>

lemma conversion_leg_eq_Inr:
  "conversion_leg cv r input spotInput = Inr (out, spot) \<Longrightarrow> out = cv_exactInput cv r input \<and> 0 < out \<and> out < 2 ^ 128"
  by (auto simp: conversion_leg_def Let_def split: if_splits)

text \<open>What the token's pools give for an amount of ETH: through the bridge pool when the route is paid in USDG.\<close>

definition pools_give :: "chain_view \<Rightarrow> purchase_route \<Rightarrow> nat \<Rightarrow> nat" where
  "pools_give cv r amount = cv_exactInput cv r (if pr_input r = USDG then cv_exactInput cv bridge amount else amount)"

lemma getConversionQuote_shape:
  assumes "getConversionQuote cv i now later = Inr q"
  obtains r impact rq where "purchaseRoute (ci_buyToken i) = Inr (Route r)" "conversionRequest q i later = Inr rq"
    "q = conversion_intent.extend i \<lparr>cq_provider = ''configured-pool'', cq_buyAmount = show_nat (pools_give cv r (parse_nat (ci_sellAmount i))),
         cq_minBuyAmount = show_nat (pools_give cv r (parse_nat (ci_sellAmount i)) * 99 div 100), cq_blockNumber = show_nat (cv_blockNumber cv),
         cq_expiresAt = now + 30000, cq_priceImpactBps = impact\<rparr>"
proof -
  obtain r base spot out spot' rq where r: "purchaseRoute (ci_buyToken i) = Inr (Route r)"
    and base: "(if pr_input r = USDG then conversion_leg cv bridge (parse_nat (ci_sellAmount i)) (parse_nat (ci_sellAmount i))
       else Inr (parse_nat (ci_sellAmount i), parse_nat (ci_sellAmount i))) = Inr (base, spot)"
    and out: "conversion_leg cv r base spot = Inr (out, spot')"
    and rq: "conversionRequest q i later = Inr rq"
    and q: "q = conversion_intent.extend i \<lparr>cq_provider = ''configured-pool'', cq_buyAmount = show_nat out,
         cq_minBuyAmount = show_nat (out * 99 div 100), cq_blockNumber = show_nat (cv_blockNumber cv),
         cq_expiresAt = now + 30000, cq_priceImpactBps = conversion_impact spot' out\<rparr>"
    using assms unfolding getConversionQuote_def Let_def bindR_eq_Inr if_Inl_eq_Inr assertConversionIntent_eq_Inr
    by (auto simp: bindR_eq_Inr route_only_eq_Inr split: prod.splits)
  have "out = pools_give cv r (parse_nat (ci_sellAmount i))"
    using conversion_leg_eq_Inr [OF out] conversion_leg_eq_Inr [of cv bridge "parse_nat (ci_sellAmount i)" "parse_nat (ci_sellAmount i)" base spot] base
    by (auto simp: pools_give_def split: if_splits)
  then show ?thesis
    using that [OF r rq] q by blast
qed

text \<open>A conversion quote that is returned offers what the token's pools give for the amount (through
  the USDG pool when the route is paid in USDG) and asks for 99 percent of it, rounded down, and it is accepted
  for the intent it answers at every moment in the thirty seconds before it expires.\<close>

theorem conversion_quote_accepted:
  assumes quote: "getConversionQuote cv i now later = Inr q"
    and live: "cq_expiresAt q - 30000 \<le> t" "t < cq_expiresAt q"
  shows "\<exists>r. purchaseRoute (ci_buyToken i) = Inr (Route r)
     \<and> parse_nat (cq_buyAmount q) = pools_give cv r (parse_nat (ci_sellAmount i))
     \<and> parse_nat (cq_minBuyAmount q) = parse_nat (cq_buyAmount q) * 99 div 100
     \<and> (\<exists>rq. conversionRequest q i t = Inr rq)"
proof -
  obtain r impact rq where r: "purchaseRoute (ci_buyToken i) = Inr (Route r)" and rq: "conversionRequest q i later = Inr rq"
    and q: "q = conversion_intent.extend i \<lparr>cq_provider = ''configured-pool'', cq_buyAmount = show_nat (pools_give cv r (parse_nat (ci_sellAmount i))),
         cq_minBuyAmount = show_nat (pools_give cv r (parse_nat (ci_sellAmount i)) * 99 div 100), cq_blockNumber = show_nat (cv_blockNumber cv),
         cq_expiresAt = now + 30000, cq_priceImpactBps = impact\<rparr>"
    by (rule getConversionQuote_shape [OF quote])
  have "quote_matches q i t"
    using rq live unfolding conversionRequest_eq_Inr quote_matches_def by linarith
  then show ?thesis
    using r rq unfolding conversionRequest_eq_Inr by (auto simp: q conversion_intent.defs)
qed

section \<open>Sample conversions\<close>

definition sample_intent :: conversion_intent where
  "sample_intent = \<lparr>ci_chainId = 4663, ci_sellToken = hex_lit 40 CHR ''0'', ci_buyToken = hex_text 40 sample_v4_usdg,
     ci_sellAmount = show_nat 100, ci_taker = hex_lit 40 CHR ''7''\<rparr>"

definition sample_conversion :: conversion_quote where
  "sample_conversion = conversion_intent.extend sample_intent \<lparr>cq_provider = ''configured-pool'', cq_buyAmount = show_nat 2500,
     cq_minBuyAmount = show_nat 2475, cq_blockNumber = show_nat 9, cq_expiresAt = 1030000, cq_priceImpactBps = 0\<rparr>"

lemma amount_samples: "is_amount (show_nat 100)" "is_amount (show_nat 2500)" "is_amount (show_nat 2475)" "is_amount (show_nat 2490)"
  by (simp_all only: is_amount_show_nat) simp_all

lemma sample_intent_ok: "intent_ok sample_intent"
  using is_lower_hex_is_hex [OF hex_text_literal, of 40 sample_v4_usdg] amount_samples
  by (simp add: intent_ok_def sample_intent_def is_hex_digit_def is_digit_def code_of_def lower_char_def del: show_nat.simps)

lemma sample_conversion_matches: "quote_matches sample_conversion sample_intent 1000000"
  "quote_matches sample_conversion (sample_conversion\<lparr>cq_minBuyAmount := show_nat 2490\<rparr>) 1000000"
  using amount_samples digits_show_nat [of 9]
  by (simp_all add: quote_matches_def sample_conversion_def sample_intent_def conversion_intent.defs MAX_SAFE_def is_digits_def
      del: show_nat.simps)

lemma sample_conversion_accepted: "\<exists>rq. conversionRequest sample_conversion sample_intent 1000000 = Inr rq"
  "\<exists>rq. conversionRequest sample_conversion (sample_conversion\<lparr>cq_minBuyAmount := show_nat 2490\<rparr>) 1000000 = Inr rq"
proof -
  have r: "\<exists>r. purchaseRoute (ci_buyToken sample_intent) = Inr (Route r)"
    using purchaseRoute_text [OF sample_routes(2)] by (simp add: sample_intent_def)
  then show "\<exists>rq. conversionRequest sample_conversion sample_intent 1000000 = Inr rq"
    using sample_intent_ok sample_conversion_matches(1) unfolding conversionRequest_eq_Inr by blast
  let ?i = "sample_conversion\<lparr>cq_minBuyAmount := show_nat 2490\<rparr>"
  have "intent_ok ?i" "ci_buyToken ?i = ci_buyToken sample_intent"
    using sample_intent_ok by (simp_all add: intent_ok_def sample_conversion_def conversion_intent.defs)
  then show "\<exists>rq. conversionRequest sample_conversion ?i 1000000 = Inr rq"
    using r sample_conversion_matches(2) unfolding conversionRequest_eq_Inr by metis
qed

theorem conversion_request_safe_witness:
  "\<exists>rq. conversionRequest sample_conversion sample_intent 1000000 = Inr rq \<and> rq_value rq = 100 \<and> pays_only (parse_hex (hex_lit 40 CHR ''7'')) (rq_program rq)"
proof -
  obtain rq where rq: "conversionRequest sample_conversion sample_intent 1000000 = Inr rq"
    using sample_conversion_accepted(1) by blast
  have "parse_nat (ci_sellAmount sample_intent) = 100" "ci_taker sample_intent = hex_lit 40 CHR ''7''"
    by (simp_all add: sample_intent_def del: show_nat.simps)
  then show ?thesis
    using rq conversion_request_safe [OF rq] by metis
qed

theorem preserve_minimum_witness:
  "preserveConversionMinimum sample_conversion (sample_conversion\<lparr>cq_minBuyAmount := show_nat 2490\<rparr>) 1000000 1000001
    = Inr (sample_conversion\<lparr>cq_minBuyAmount := show_nat 2490\<rparr>)"
proof -
  obtain rq where rq: "conversionRequest sample_conversion (sample_conversion\<lparr>cq_minBuyAmount := show_nat 2490\<rparr>) 1000000 = Inr rq"
    using sample_conversion_accepted(2) by blast
  have "cq_expiresAt sample_conversion = 1030000" "parse_nat (cq_buyAmount sample_conversion) = 2500"
    "parse_nat (cq_minBuyAmount sample_conversion) = 2475"
    by (simp_all add: sample_conversion_def conversion_intent.defs del: show_nat.simps)
  then show ?thesis
    using preserve_minimum [OF rq, of 1000001] amount_samples(4) by (simp del: show_nat.simps)
qed

lemma sample_conversion_quoted: "getConversionQuote sample_view sample_intent 1000000 1000000 = Inr sample_conversion"
proof -
  obtain rq where rq: "conversionRequest sample_conversion sample_intent 1000000 = Inr rq"
    using sample_conversion_accepted(1) by blast
  have route: "purchaseRoute (ci_buyToken sample_intent) = Inr (Route (route V4 0x5d0434f1dcf45ff9450c1a63b5c9e088f90cfebf483458164e81be6fb96e2b2a USDG sample_v4_usdg 10000 (Some 100) (Some ZERO)))"
    using purchaseRoute_text [OF sample_routes(2)] by (simp add: sample_intent_def)
  then have "assertConversionIntent sample_intent = Inr ()"
    using sample_intent_ok by (auto simp: assertConversionIntent_eq_Inr)
  moreover note route
  moreover have "parse_nat (ci_sellAmount sample_intent) = 100"
    by (simp add: sample_intent_def del: show_nat.simps)
  moreover have "conversion_intent.extend sample_intent \<lparr>cq_provider = ''configured-pool'', cq_buyAmount = show_nat 2500,
     cq_minBuyAmount = show_nat 2475, cq_blockNumber = show_nat 9, cq_expiresAt = 1000000 + 30000, cq_priceImpactBps = 0\<rparr> = sample_conversion"
    by (simp add: sample_conversion_def)
  ultimately show ?thesis
    unfolding getConversionQuote_def
    by (simp add: conversion_leg_def route_def sample_view_def Let_def conversion_impact_def rq del: show_nat.simps)
qed

theorem conversion_quote_accepted_witness:
  "\<exists>rq. conversionRequest sample_conversion sample_intent 1029999 = Inr rq"
  using conversion_quote_accepted [OF sample_conversion_quoted, of 1029999] by (auto simp: sample_conversion_def conversion_intent.defs)

end
