(* ===== verification/Treasury_Merkle.thy ===== *)
theory Treasury_Merkle imports TG_Text begin

text \<open>
  The Merkle tree of \<open>services/backend-go/testsupport/treasury-reference.ts\<close>, the reference
  implementation of the treasury's weekly distribution root: sorted-pair hashing, levels in which a
  node without a sibling is promoted unchanged, and proofs that leave such levels out. What the code
  takes from the viem library is the record \<open>viem\<close>, an argument of every definition that uses
  it; \<open>viem_hashes\<close> and \<open>viem_addresses\<close> state the documented behaviour that proofs rely on. The
  lemmas show that building a tree of hashes cannot fail and that every leaf's proof verifies.
\<close>

section \<open>The library the code calls\<close>

record claim_context =
  cc_chainId :: int
  cc_distributor :: string
  cc_marketId :: string
  cc_epochId :: int
  cc_memeToken :: string
  cc_quoteToken :: string
  cc_eligibilityPolicyHash :: string
  cc_windowStart :: int
  cc_windowEnd :: int
  cc_sourceBlockNumber :: int
  cc_sourceBlockHash :: string

record viem =
  keccak256 :: "string \<Rightarrow> string"
  stringToHex :: "string \<Rightarrow> string"
  concatHex :: "string list \<Rightarrow> string"
  encodePolicy :: "string \<Rightarrow> int \<Rightarrow> string \<Rightarrow> string list \<Rightarrow> string"
  encodeLeaf :: "string \<Rightarrow> string \<Rightarrow> claim_context \<Rightarrow> int \<Rightarrow> string \<Rightarrow> int \<Rightarrow> int \<Rightarrow> string"
  getAddress :: "string \<Rightarrow> string"
  isAddress :: "string \<Rightarrow> bool"

text \<open>A hash is returned as 64 lowercase hexadecimal digits.\<close>

definition viem_hashes :: "viem \<Rightarrow> bool" where
  "viem_hashes V \<longleftrightarrow> (\<forall>x. is_lower_hex 64 (keccak256 V x))"

text \<open>
  \<open>isAddress\<close> accepts only address literals; \<open>getAddress\<close> gives the checksummed form of one,
  which differs from it in the case of its digits only and depends on nothing else.
\<close>

definition viem_addresses :: "viem \<Rightarrow> bool" where
  "viem_addresses V \<longleftrightarrow> (\<forall>a. isAddress V a \<longrightarrow> is_hex 40 a)
     \<and> (\<forall>a. is_hex 40 a \<longrightarrow> is_hex 40 (getAddress V a) \<and> lower (getAddress V a) = lower a)
     \<and> (\<forall>a b. lower a = lower b \<longrightarrow> getAddress V a = getAddress V b)"

section \<open>The tree\<close>

definition hashPair :: "viem \<Rightarrow> string \<Rightarrow> string \<Rightarrow> string" where
  "hashPair V left right = (if parse_hex left < parse_hex right then keccak256 V (concatHex V [left, right])
     else keccak256 V (concatHex V [right, left]))"

text \<open>One level from the one below; the empty string is falsy.\<close>

fun next_level :: "viem \<Rightarrow> string list \<Rightarrow> string list res" where
  "next_level V [] = Inr []"
| "next_level V [left] = (if left = [] then Inl (Error ''Merkle node missing'') else Inr [left])"
| "next_level V (left # right # rest) = (if left = [] then Inl (Error ''Merkle node missing'')
     else bindR (next_level V rest) (\<lambda>next. Inr ((if right = [] then left else hashPair V left right) # next)))"

lemma next_level_length: "next_level V current = Inr next \<Longrightarrow> length next = (length current + 1) div 2"
proof (induction V current arbitrary: "next" rule: next_level.induct)
  case (3 V left right rest)
  from "3.prems" obtain n where n: "next_level V rest = Inr n" "length next = Suc (length n)"
    by (auto simp: bindR_eq_Inr split: if_splits)
  have "left \<noteq> []"
    using "3.prems" by auto
  with "3.IH" n show ?case by simp
qed (auto split: if_splits)

function merkle_levels :: "viem \<Rightarrow> string list \<Rightarrow> string list list res" where
  "merkle_levels V current = (if length current \<le> 1 then Inr [current]
     else bindR (next_level V current) (\<lambda>next. bindR (merkle_levels V next) (\<lambda>levels. Inr (current # levels))))"
  by pat_completeness auto

termination
  by (relation "measure (\<lambda>(V, current). length current)") (auto dest: next_level_length)

declare merkle_levels.simps [simp del]

fun merkle_proof :: "string list list \<Rightarrow> nat \<Rightarrow> string list" where
  "merkle_proof (level # parents # levels) index =
     (let siblingIndex = (if even index then index + 1 else index - 1);
          rest = merkle_proof (parents # levels) (index div 2) in
      if siblingIndex < length level \<and> level ! siblingIndex \<noteq> [] then level ! siblingIndex # rest else rest)"
| "merkle_proof _ index = []"

record merkle_tree =
  mt_root :: string
  mt_proofs :: "string list list"

definition buildMerkleTree :: "viem \<Rightarrow> string list \<Rightarrow> merkle_tree res" where
  "buildMerkleTree V leaves =
     (if leaves = [] then Inl (Error ''cannot build an empty Merkle tree'')
      else bindR (merkle_levels V leaves) (\<lambda>levels.
      let top = last levels in
      if top = [] \<or> hd top = [] then Inl (Error ''Merkle root missing'')
      else Inr \<lparr>mt_root = hd top, mt_proofs = map (merkle_proof levels) [0..<length leaves]\<rparr>))"

definition verifyMerkleProof :: "viem \<Rightarrow> string \<Rightarrow> string list \<Rightarrow> string \<Rightarrow> bool" where
  "verifyMerkleProof V leaf p root \<longleftrightarrow> lower (foldl (hashPair V) leaf p) = lower root"

section \<open>Every proof verifies\<close>

abbreviation nodes :: "string list \<Rightarrow> bool" where
  "nodes \<equiv> list_all (is_lower_hex 64)"

lemma node_not_Nil: "is_lower_hex 64 s \<Longrightarrow> s \<noteq> []"
  by (auto simp: is_lower_hex_def)

lemma hashPair_node: "viem_hashes V \<Longrightarrow> is_lower_hex 64 (hashPair V a b)"
  by (simp add: hashPair_def viem_hashes_def)

lemma hashPair_commute: "is_lower_hex 64 a \<Longrightarrow> is_lower_hex 64 b \<Longrightarrow> hashPair V a b = hashPair V b a"
  by (cases "parse_hex a" "parse_hex b" rule: linorder_cases) (auto simp: hashPair_def dest: parse_hex_inj)

lemma next_level_returns: "viem_hashes V \<Longrightarrow> nodes current \<Longrightarrow> \<exists>next. next_level V current = Inr next \<and> nodes next"
  by (induction V current rule: next_level.induct) (auto simp: node_not_Nil hashPair_node)

text \<open>A node's parent is its hash with its sibling or, without one, the node itself.\<close>

lemma next_level_parent:
  assumes "next_level V current = Inr next" and "nodes current" and "i < length current"
  shows "next ! (i div 2) = (let s = (if even i then i + 1 else i - 1) in
           if s < length current then hashPair V (current ! i) (current ! s) else current ! i)"
  using assms
proof (induction V current arbitrary: "next" i rule: next_level.induct)
  case (3 V left right rest)
  have ok: "left \<noteq> []" "right \<noteq> []" "nodes rest" "is_lower_hex 64 left" "is_lower_hex 64 right"
    using "3.prems"(2) by (auto simp: node_not_Nil)
  then obtain n where n: "next_level V rest = Inr n" "next = hashPair V left right # n"
    using "3.prems"(1) by (auto simp: bindR_eq_Inr)
  consider "i = 0" | "i = 1" | j where "i = j + 2" "j < length rest"
    using "3.prems"(3) by (cases i; cases "i - 1") auto
  then show ?case
  proof cases
    case 3
    then show ?thesis
      using "3.IH" [OF ok(1) n(1) ok(3), of j] n(2) by (cases "even j") (auto simp: Let_def elim!: oddE)
  qed (use n ok hashPair_commute in \<open>auto simp: Let_def\<close>)
qed (auto split: if_splits)

lemma merkle_levels_verify:
  assumes "viem_hashes V" and "nodes leaves" and "leaves \<noteq> []"
  shows "\<exists>levels. merkle_levels V leaves = Inr levels \<and> last levels \<noteq> [] \<and> is_lower_hex 64 (hd (last levels))
    \<and> (\<exists>rest. levels = leaves # rest)
    \<and> (\<forall>i < length leaves. foldl (hashPair V) (leaves ! i) (merkle_proof levels i) = hd (last levels))"
  using assms
proof (induction V leaves rule: merkle_levels.induct)
  case (1 V current)
  show ?case
  proof (cases "length current \<le> 1")
    case True
    with "1.prems"(3) obtain x where "current = [x]" by (cases current) auto
    with "1.prems" show ?thesis by (simp add: merkle_levels.simps)
  next
    case False
    obtain "next" where nx: "next_level V current = Inr next" "nodes next"
      using next_level_returns "1.prems" by blast
    have len: "length next = (length current + 1) div 2"
      by (rule next_level_length [OF nx(1)])
    then have "next \<noteq> []"
      using False by auto
    then obtain levels rest where up: "merkle_levels V next = Inr levels" "last levels \<noteq> []" "is_lower_hex 64 (hd (last levels))"
        "levels = next # rest" "\<forall>i < length next. foldl (hashPair V) (next ! i) (merkle_proof levels i) = hd (last levels)"
      using "1.IH" [OF False nx(1) "1.prems"(1) nx(2)] by blast
    have nonempty: "\<And>j. j < length current \<Longrightarrow> current ! j \<noteq> []"
      using "1.prems"(2) by (auto simp: list_all_length node_not_Nil)
    have "foldl (hashPair V) (current ! i) (merkle_proof (current # levels) i) = hd (last levels)" if "i < length current" for i
    proof -
      have "foldl (hashPair V) (current ! i) (merkle_proof (current # levels) i)
          = foldl (hashPair V) (next ! (i div 2)) (merkle_proof levels (i div 2))"
        unfolding next_level_parent [OF nx(1) "1.prems"(2) that] up(4) using nonempty by (auto simp: Let_def)
      also have "... = hd (last levels)"
        using up(5) that len by auto
      finally show ?thesis .
    qed
    then show ?thesis
      using False nx up by (auto simp: merkle_levels.simps)
  qed
qed

lemma buildMerkleTree_verifies:
  assumes "viem_hashes V" and "nodes leaves" and "leaves \<noteq> []"
  obtains tree where "buildMerkleTree V leaves = Inr tree" "length (mt_proofs tree) = length leaves" "is_lower_hex 64 (mt_root tree)"
    "\<And>i. i < length leaves \<Longrightarrow> verifyMerkleProof V (leaves ! i) (mt_proofs tree ! i) (mt_root tree)"
proof -
  obtain levels where l: "merkle_levels V leaves = Inr levels" "last levels \<noteq> []" "is_lower_hex 64 (hd (last levels))"
    "\<And>i. i < length leaves \<Longrightarrow> foldl (hashPair V) (leaves ! i) (merkle_proof levels i) = hd (last levels)"
    using merkle_levels_verify [OF assms] by blast
  show ?thesis
    by (rule that [of "\<lparr>mt_root = hd (last levels), mt_proofs = map (merkle_proof levels) [0..<length leaves]\<rparr>"])
       (use l assms(3) in \<open>auto simp: buildMerkleTree_def verifyMerkleProof_def node_not_Nil Let_def\<close>)
qed

end
