(* ===== verification/TG_Json.thy ===== *)
theory TG_Json imports TG_Text begin

text \<open>
  JSON values, as \<open>JSON.parse\<close> returns them and \<open>JSON.stringify\<close> prints them, and the reading of
  an \<open>unknown\<close> value that came from JSON: a field of it, and \<open>String(value)\<close>. \<open>JNumber\<close> is an
  integral number below \<open>10^21\<close> in absolute value, which prints in decimal; \<open>JReal\<close> is any other
  number, by the text it prints as. \<open>JSON.stringify\<close> prints the fields of an object in their
  order and escapes quotes, backslashes and control characters.
\<close>

datatype json = JNull | JBool bool | JNumber int | JReal string | JText string | JArray "json list"
  | JObject "(string \<times> json) list"

definition escape_char :: "char \<Rightarrow> string" where
  "escape_char c = (if c = CHR 0x22 \<or> c = CHR 0x5C then [CHR 0x5C, c]
     else if c = CHR 0x08 then [CHR 0x5C, CHR ''b''] else if c = CHR 0x0C then [CHR 0x5C, CHR ''f'']
     else if c = CHR 0x0A then [CHR 0x5C, CHR ''n''] else if c = CHR 0x0D then [CHR 0x5C, CHR ''r'']
     else if c = CHR 0x09 then [CHR 0x5C, CHR ''t'']
     else if code_of c < 32 then [CHR 0x5C, CHR ''u''] @ hex_pad 4 (code_of c) else [c])"

definition quoted :: "string \<Rightarrow> string" where "quoted s = [CHR 0x22] @ concat (map escape_char s) @ [CHR 0x22]"

fun comma_separated :: "string list \<Rightarrow> string" where
  "comma_separated [] = []"
| "comma_separated [s] = s"
| "comma_separated (s # t # r) = s @ '','' @ comma_separated (t # r)"

fun json_text :: "json \<Rightarrow> string" where
  "json_text JNull = ''null''"
| "json_text (JBool b) = (if b then ''true'' else ''false'')"
| "json_text (JNumber n) = show_int n"
| "json_text (JReal s) = s"
| "json_text (JText s) = quoted s"
| "json_text (JArray xs) = ''['' @ comma_separated (map json_text xs) @ '']''"
| "json_text (JObject fs) = ''{'' @ comma_separated (map (\<lambda>(k, v). quoted k @ '':'' @ json_text v) fs) @ ''}''"

text \<open>\<open>value.key\<close>: \<open>None\<close> is \<open>undefined\<close>. Reading a field of \<open>null\<close> throws, which the readers check.\<close>

definition field :: "json \<Rightarrow> string \<Rightarrow> json option" where
  "field v k = (case v of JObject fs \<Rightarrow> map_of fs k | _ \<Rightarrow> None)"

definition is_object :: "json option \<Rightarrow> bool" where
  "is_object v = (case v of Some (JObject _) \<Rightarrow> True | _ \<Rightarrow> False)"

text \<open>\<open>String(value)\<close>: an array joins its elements with commas, \<open>null\<close> elements being empty.\<close>

fun string_of :: "json \<Rightarrow> string" where
  "string_of JNull = ''null''"
| "string_of (JBool b) = (if b then ''true'' else ''false'')"
| "string_of (JNumber n) = show_int n"
| "string_of (JReal s) = s"
| "string_of (JText s) = s"
| "string_of (JArray xs) = comma_separated (map (\<lambda>x. if x = JNull then [] else string_of x) xs)"
| "string_of (JObject fs) = ''[object Object]''"

definition string_of_field :: "json \<Rightarrow> string \<Rightarrow> string" where
  "string_of_field v k = (case field v k of None \<Rightarrow> ''undefined'' | Some x \<Rightarrow> string_of x)"

text \<open>A field that is a string satisfying a test, as \<open>typeof x === 'string' && TEST.test(x)\<close>.\<close>

definition text_field :: "(string \<Rightarrow> bool) \<Rightarrow> json \<Rightarrow> string \<Rightarrow> string option" where
  "text_field test v k = (case field v k of Some (JText s) \<Rightarrow> if test s then Some s else None | _ \<Rightarrow> None)"

lemma field_simps [simp]:
  "field (JObject ((k, x) # fs)) k' = (if k' = k then Some x else field (JObject fs) k')"
  "field (JObject []) k' = None"
  by (auto simp: field_def)

lemma text_field_eq [simp]: "field v k = Some (JText s) \<Longrightarrow> text_field t v k = (if t s then Some s else None)"
  by (simp add: text_field_def)

lemma text_field_Some: "text_field t v k = Some s \<longleftrightarrow> field v k = Some (JText s) \<and> t s"
  by (auto simp: text_field_def split: option.splits json.splits if_splits)

end
