(* ===== verification/Treasury_Root.thy ===== *)
theory Treasury_Root imports Treasury_Merkle TG_Json TG_Order begin

text \<open>
  The weekly treasury distribution of \<open>services/backend-go/testsupport/treasury-reference.ts\<close>:
  validation of the request, the transfer history in canonical order, time-weighted balances of the
  holders over the seven-day window, the largest-remainder split of the quote amount, and the leaves with
  their proofs. \<open>bigint\<close> values are integers; the two \<open>Map\<close>s are insertion-ordered
  association lists keyed by lowercase addresses, and the accumulator objects in them are values
  written back where the code mutates them.
\<close>

section \<open>Constants and inputs\<close>

definition TREASURY_ZERO :: string where "TREASURY_ZERO = hex_lit 40 CHR ''0''"
definition MAX_UINT64 :: int where "MAX_UINT64 = 2 ^ 64 - 1"
definition MAX_UINT256 :: int where "MAX_UINT256 = 2 ^ 256 - 1"
definition EPOCH_DURATION_SECONDS :: int where "EPOCH_DURATION_SECONDS = 7 * 24 * 60 * 60"

definition EMPTY_EPOCH_ROOT :: "viem \<Rightarrow> string" where
  "EMPTY_EPOCH_ROOT V = keccak256 V (stringToHex V ''TICKERGARDEN_V1_TREASURY_EMPTY_EPOCH_V1'')"
definition CLAIM_LEAF_DOMAIN :: "viem \<Rightarrow> string" where
  "CLAIM_LEAF_DOMAIN V = keccak256 V (stringToHex V ''TICKERGARDEN_V1_TREASURY_CLAIM_V1'')"
definition TWAB_SCHEMA :: "viem \<Rightarrow> string" where
  "TWAB_SCHEMA V = keccak256 V (stringToHex V ''TRANSFER_LOG_TWAB_7D_V1'')"
definition ELIGIBILITY_POLICY_DOMAIN :: "viem \<Rightarrow> string" where
  "ELIGIBILITY_POLICY_DOMAIN V = keccak256 V (stringToHex V ''TICKERGARDEN_V1_TREASURY_ELIGIBILITY_POLICY_V1'')"

record transfer_observation =
  to_blockNumber :: int
  to_transactionIndex :: int
  to_logIndex :: int
  to_timestamp :: int
  to_from :: string
  to_to :: string
  to_value :: int

record treasury_input =
  ti_emptyEpochPolicy :: "string option"
  ti_chainId :: int
  ti_distributor :: string
  ti_marketId :: string
  ti_memeToken :: string
  ti_quoteToken :: string
  ti_eligibilityPolicyHash :: string
  ti_excludedAccounts :: "string list"
  ti_epochId :: int
  ti_windowStart :: int
  ti_windowEnd :: int
  ti_sourceBlockNumber :: int
  ti_sourceBlockHash :: string
  ti_sourceBlockTimestamp :: int
  ti_quoteAmount :: int
  ti_transfers :: "transfer_observation list"

section \<open>Addresses and hashes of the domain\<close>

definition compareAddress :: "string \<Rightarrow> string \<Rightarrow> int" where
  "compareAddress left right = (if parse_hex left = parse_hex right then 0 else if parse_hex left < parse_hex right then -1 else 1)"

text \<open>The \<open>Set\<close> keeps the first occurrence of a value.\<close>

definition normalizeAddresses :: "viem \<Rightarrow> string list \<Rightarrow> string list res" where
  "normalizeAddresses V addresses =
     bindR (foldR (\<lambda>a unique. if \<not> isAddress V a then Inl (Error (''invalid address: '' @ a))
              else Inr (let k = lower (getAddress V a) in if k \<in> set unique then unique else unique @ [k])) addresses [])
     (\<lambda>unique. Inr (map (getAddress V) (sort unique)))"

definition computeEligibilityPolicyHash :: "viem \<Rightarrow> int \<Rightarrow> string \<Rightarrow> string list \<Rightarrow> string res" where
  "computeEligibilityPolicyHash V chainId marketId excludedAccounts =
     bindR (normalizeAddresses V excludedAccounts) (\<lambda>normalized.
     Inr (keccak256 V (encodePolicy V (ELIGIBILITY_POLICY_DOMAIN V) chainId marketId normalized)))"

definition hashTreasuryLeaf :: "viem \<Rightarrow> claim_context \<Rightarrow> int \<Rightarrow> string \<Rightarrow> int \<Rightarrow> int \<Rightarrow> string" where
  "hashTreasuryLeaf V context leafIndex account twab amount =
     (let inner = keccak256 V (encodeLeaf V (CLAIM_LEAF_DOMAIN V) (TWAB_SCHEMA V) context leafIndex account twab amount) in
      keccak256 V inner)"

text \<open>\<open>/^0x[0-9a-f]{64}$/i\<close> and \<open>/^0x0{64}$/i\<close>.\<close>

definition isBytes32 :: "string \<Rightarrow> bool" where
  "isBytes32 value \<longleftrightarrow> is_lower_hex 64 (lower value)"

definition isZeroBytes32 :: "string \<Rightarrow> bool" where
  "isZeroBytes32 value \<longleftrightarrow> lower value = hex_lit 64 CHR ''0''"

section \<open>Validation\<close>

definition bad_domain :: "treasury_input \<Rightarrow> bool" where
  "bad_domain i \<longleftrightarrow> ti_chainId i \<le> 0 \<or> MAX_UINT256 < ti_chainId i \<or> \<not> isBytes32 (ti_marketId i) \<or> isZeroBytes32 (ti_marketId i)
     \<or> \<not> isBytes32 (ti_eligibilityPolicyHash i) \<or> isZeroBytes32 (ti_eligibilityPolicyHash i)"

definition bad_window :: "treasury_input \<Rightarrow> bool" where
  "bad_window i \<longleftrightarrow> ti_windowStart i \<le> 0 \<or> MAX_UINT64 < ti_windowStart i \<or> ti_windowEnd i \<le> ti_windowStart i
     \<or> MAX_UINT64 < ti_windowEnd i"

definition bad_source :: "treasury_input \<Rightarrow> bool" where
  "bad_source i \<longleftrightarrow> ti_sourceBlockNumber i < 0 \<or> MAX_UINT64 < ti_sourceBlockNumber i
     \<or> ti_sourceBlockTimestamp i < ti_windowEnd i \<or> MAX_UINT64 < ti_sourceBlockTimestamp i
     \<or> \<not> isBytes32 (ti_sourceBlockHash i) \<or> isZeroBytes32 (ti_sourceBlockHash i)
     \<or> ti_quoteAmount i \<le> 0 \<or> MAX_UINT256 < ti_quoteAmount i"

definition validateInput :: "viem \<Rightarrow> treasury_input \<Rightarrow> unit res" where
  "validateInput V i =
     (if \<not> isAddress V (ti_distributor i) \<or> \<not> isAddress V (ti_memeToken i) \<or> \<not> isAddress V (ti_quoteToken i)
      then Inl (Error ''invalid contract address'')
      else if lower (ti_distributor i) = TREASURY_ZERO \<or> lower (ti_memeToken i) = TREASURY_ZERO
      then Inl (Error ''contract address cannot be zero'')
      else if lower (ti_memeToken i) = lower (ti_quoteToken i) then Inl (Error ''meme and quote tokens must differ'')
      else if bad_domain i then Inl (Error ''invalid chain, market, or policy domain'')
      else if ti_epochId i \<le> 0 \<or> 4294967295 < ti_epochId i \<or> MAX_SAFE < \<bar>ti_epochId i\<bar> then Inl (Error ''invalid epoch id'')
      else if bad_window i then Inl (Error ''invalid TWAB window'')
      else if ti_windowEnd i - ti_windowStart i \<noteq> EPOCH_DURATION_SECONDS then Inl (Error ''TWAB window must be exactly 7 days'')
      else if bad_source i then Inl (Error ''invalid source or quote amount'')
      else bindR (computeEligibilityPolicyHash V (ti_chainId i) (ti_marketId i) (ti_excludedAccounts i)) (\<lambda>policyHash.
      if lower policyHash \<noteq> lower (ti_eligibilityPolicyHash i) then Inl (Error ''eligibility policy hash mismatch'') else Inr ()))"

section \<open>The transfer history\<close>

definition compareProvenance :: "transfer_observation \<Rightarrow> transfer_observation \<Rightarrow> int" where
  "compareProvenance l r =
     (if to_blockNumber l \<noteq> to_blockNumber r then (if to_blockNumber l < to_blockNumber r then -1 else 1)
      else if to_transactionIndex l \<noteq> to_transactionIndex r then to_transactionIndex l - to_transactionIndex r
      else to_logIndex l - to_logIndex r)"

definition normalize_observation :: "viem \<Rightarrow> transfer_observation \<Rightarrow> transfer_observation res" where
  "normalize_observation V v =
     (if \<not> isAddress V (to_from v) \<or> \<not> isAddress V (to_to v) then Inl (Error ''invalid Transfer address'')
      else if to_value v < 0 \<or> MAX_UINT256 < to_value v \<or> to_timestamp v < 0 \<or> MAX_UINT64 < to_timestamp v
         \<or> to_blockNumber v < 0 \<or> MAX_UINT64 < to_blockNumber v
      then Inl (Error ''invalid Transfer numeric field'')
      else if MAX_SAFE < \<bar>to_transactionIndex v\<bar> \<or> to_transactionIndex v < 0 \<or> MAX_SAFE < \<bar>to_logIndex v\<bar> \<or> to_logIndex v < 0
      then Inl (Error ''invalid Transfer provenance index'')
      else Inr (v\<lparr>to_from := getAddress V (to_from v), to_to := getAddress V (to_to v)\<rparr>))"

definition same_provenance :: "transfer_observation \<Rightarrow> transfer_observation \<Rightarrow> bool" where
  "same_provenance p c \<longleftrightarrow> to_blockNumber p = to_blockNumber c \<and> to_transactionIndex p = to_transactionIndex c
     \<and> to_logIndex p = to_logIndex c"

fun check_adjacent :: "transfer_observation list \<Rightarrow> unit res" where
  "check_adjacent (p # c # rest) =
     (if same_provenance p c then Inl (Error ''duplicate Transfer provenance'')
      else if to_timestamp c < to_timestamp p then Inl (Error ''block timestamps are not monotonic'')
      else check_adjacent (c # rest))"
| "check_adjacent _ = Inr ()"

definition normalizeObservations :: "viem \<Rightarrow> transfer_observation list \<Rightarrow> transfer_observation list res" where
  "normalizeObservations V observations =
     bindR (mapR (normalize_observation V) observations) (\<lambda>mapped.
     let normalized = js_sort compareProvenance mapped in
     bindR (check_adjacent normalized) (\<lambda>_. Inr normalized))"

section \<open>Time-weighted balances\<close>

record account_accumulator =
  aa_balance :: int
  aa_lastTimestamp :: int
  aa_weightedBalance :: int

record twab_state =
  tw_balances :: "(string \<times> int) list"
  tw_accumulators :: "(string \<times> account_accumulator) list"

definition checkpoint :: "treasury_input \<Rightarrow> string \<Rightarrow> int \<Rightarrow> twab_state \<Rightarrow> twab_state res" where
  "checkpoint i account timestamp s =
     (let key = lower account;
          existing = (case map_of (tw_accumulators s) key of Some a \<Rightarrow> a
            | None \<Rightarrow> \<lparr>aa_balance = balance_of (tw_balances s) key, aa_lastTimestamp = ti_windowStart i, aa_weightedBalance = 0\<rparr>);
          weighted = aa_weightedBalance existing + aa_balance existing * (timestamp - aa_lastTimestamp existing) in
      if timestamp < aa_lastTimestamp existing then Inl (Error (''non-monotonic account timestamp for '' @ account))
      else if MAX_UINT256 < weighted then Inl (Error (''TWAB exceeds uint256 for '' @ account))
      else Inr (s\<lparr>tw_accumulators := AList.update key
             (existing\<lparr>aa_weightedBalance := weighted, aa_lastTimestamp := timestamp\<rparr>) (tw_accumulators s)\<rparr>))"

text \<open>\<open>balances.set(key, next)\<close>, and the balance of the account's accumulator, if it has one.\<close>

definition set_balance :: "string \<Rightarrow> int \<Rightarrow> twab_state \<Rightarrow> twab_state" where
  "set_balance key nextBalance s = s\<lparr>tw_balances := AList.update key nextBalance (tw_balances s),
     tw_accumulators := (case map_of (tw_accumulators s) key of None \<Rightarrow> tw_accumulators s
        | Some a \<Rightarrow> AList.update key (a\<lparr>aa_balance := nextBalance\<rparr>) (tw_accumulators s))\<rparr>"

definition debit :: "string \<Rightarrow> int \<Rightarrow> twab_state \<Rightarrow> twab_state res" where
  "debit account value s = (let fromBalance = balance_of (tw_balances s) (lower account) in
     if account = TREASURY_ZERO then Inr s
     else if fromBalance < value then Inl (Error (''incomplete or invalid Transfer history: negative balance for '' @ account))
     else Inr (set_balance (lower account) (fromBalance - value) s))"

definition credit :: "string \<Rightarrow> int \<Rightarrow> twab_state \<Rightarrow> twab_state res" where
  "credit account value s = (let nextBalance = balance_of (tw_balances s) (lower account) + value in
     if account = TREASURY_ZERO then Inr s
     else if MAX_UINT256 < nextBalance then Inl (Error (''balance exceeds uint256 for '' @ account))
     else Inr (set_balance (lower account) nextBalance s))"

definition observe :: "viem \<Rightarrow> treasury_input \<Rightarrow> transfer_observation \<Rightarrow> twab_state \<Rightarrow> twab_state res" where
  "observe V i ob s =
     (if ti_sourceBlockNumber i < to_blockNumber ob then Inl (Error ''transfer observation is newer than the committed source block'')
      else if ti_sourceBlockTimestamp i < to_timestamp ob
      then Inl (Error ''transfer observation is newer than the committed source block timestamp'')
      else if ti_windowEnd i \<le> to_timestamp ob then Inr s
      else let src = getAddress V (to_from ob); dst = getAddress V (to_to ob); within = (ti_windowStart i \<le> to_timestamp ob) in
      bindR (if within \<and> src \<noteq> TREASURY_ZERO then checkpoint i src (to_timestamp ob) s else Inr s) (\<lambda>s1.
      bindR (if within \<and> dst \<noteq> TREASURY_ZERO \<and> dst \<noteq> src then checkpoint i dst (to_timestamp ob) s1 else Inr s1) (\<lambda>s2.
      bindR (debit src (to_value ob) s2) (credit dst (to_value ob)))))"

definition close_balance :: "viem \<Rightarrow> treasury_input \<Rightarrow> string \<times> int \<Rightarrow> twab_state \<Rightarrow> twab_state res" where
  "close_balance V i kb s = (case kb of (key, balance) \<Rightarrow>
     if balance = 0 \<and> map_of (tw_accumulators s) key = None then Inr s else checkpoint i (getAddress V key) (ti_windowEnd i) s)"

definition close_accumulator :: "viem \<Rightarrow> treasury_input \<Rightarrow> string \<times> account_accumulator \<Rightarrow> twab_state \<Rightarrow> twab_state res" where
  "close_accumulator V i ka s = (case ka of (key, a) \<Rightarrow>
     if aa_lastTimestamp a < ti_windowEnd i then checkpoint i (getAddress V key) (ti_windowEnd i) s else Inr s)"

definition compareWeighted :: "string \<times> int \<Rightarrow> string \<times> int \<Rightarrow> int" where
  "compareWeighted left right = compareAddress (fst left) (fst right)"

definition weighted_accounts :: "viem \<Rightarrow> treasury_input \<Rightarrow> (string \<times> int) list res" where
  "weighted_accounts V i =
     bindR (normalizeAddresses V (ti_excludedAccounts i)) (\<lambda>excluded.
     let exclusions = map lower excluded in
     bindR (normalizeObservations V (ti_transfers i)) (\<lambda>observations.
     bindR (foldR (observe V i) observations \<lparr>tw_balances = [], tw_accumulators = []\<rparr>) (\<lambda>s1.
     bindR (foldR (close_balance V i) (tw_balances s1) s1) (\<lambda>s2.
     bindR (foldR (close_accumulator V i) (tw_accumulators s2) s2) (\<lambda>s3.
     Inr (js_sort compareWeighted (map (\<lambda>(account, a). (getAddress V account, aa_weightedBalance a))
       (filter (\<lambda>(account, a). 0 < aa_weightedBalance a \<and> account \<notin> set exclusions) (tw_accumulators s3)))))))))"

section \<open>The split of the quote amount\<close>

record allocation_draft =
  ad_account :: string
  ad_twab :: int
  ad_amount :: int
  ad_remainder :: int

definition total_twab :: "(string \<times> int) list \<Rightarrow> int res" where
  "total_twab weighted = foldR (\<lambda>w sum. if MAX_UINT256 < sum + snd w then Inl (Error ''total TWAB exceeds uint256'')
     else Inr (sum + snd w)) weighted 0"

definition draft_of :: "int \<Rightarrow> int \<Rightarrow> string \<times> int \<Rightarrow> allocation_draft" where
  "draft_of quoteAmount totalTwab w = (let product = quoteAmount * snd w in
     \<lparr>ad_account = fst w, ad_twab = snd w, ad_amount = product div totalTwab, ad_remainder = product mod totalTwab\<rparr>)"

definition compareRemainders :: "allocation_draft \<Rightarrow> allocation_draft \<Rightarrow> int" where
  "compareRemainders left right = (if ad_remainder left = ad_remainder right then compareAddress (ad_account left) (ad_account right)
     else if ad_remainder right < ad_remainder left then -1 else 1)"

text \<open>
  The objects of the sorted copy are those of \<open>drafts\<close>; each is the only one of its account.
  Adding one unit to the first \<open>roundingUnits\<close> of the copy adds it to the drafts of these accounts.
\<close>

definition add_units :: "string list \<Rightarrow> allocation_draft list \<Rightarrow> allocation_draft list" where
  "add_units accounts drafts = map (\<lambda>d. if ad_account d \<in> set accounts then d\<lparr>ad_amount := ad_amount d + 1\<rparr> else d) drafts"

definition allocate :: "int \<Rightarrow> int \<Rightarrow> (string \<times> int) list \<Rightarrow> allocation_draft list res" where
  "allocate quoteAmount totalTwab weighted =
     (let drafts = map (draft_of quoteAmount totalTwab) weighted;
          roundingUnits = quoteAmount - (\<Sum>d\<leftarrow>drafts. ad_amount d);
          remainderOrder = js_sort compareRemainders drafts in
      if int (length remainderOrder) < roundingUnits then Inl (Error ''rounding allocation invariant violated'')
      else Inr (add_units (map ad_account (take (nat roundingUnits) remainderOrder)) drafts))"

section \<open>The published root\<close>

record treasury_leaf =
  tl_index :: nat
  tl_account :: string
  tl_twab :: int
  tl_amount :: int
  tl_leaf :: string
  tl_proof :: "string list"

record treasury_output =
  tr_context :: claim_context
  tr_sourceBlockTimestamp :: int
  tr_merkleRoot :: string
  tr_datasetHash :: string
  tr_leafCount :: nat
  tr_totalTwab :: int
  tr_totalAllocated :: int
  tr_leaves :: "treasury_leaf list"

definition context_of :: "viem \<Rightarrow> treasury_input \<Rightarrow> claim_context" where
  "context_of V i = \<lparr>cc_chainId = ti_chainId i, cc_distributor = getAddress V (ti_distributor i), cc_marketId = ti_marketId i,
     cc_epochId = ti_epochId i, cc_memeToken = getAddress V (ti_memeToken i), cc_quoteToken = getAddress V (ti_quoteToken i),
     cc_eligibilityPolicyHash = ti_eligibilityPolicyHash i, cc_windowStart = ti_windowStart i, cc_windowEnd = ti_windowEnd i,
     cc_sourceBlockNumber = ti_sourceBlockNumber i, cc_sourceBlockHash = ti_sourceBlockHash i\<rparr>"

definition serializeContext :: "claim_context \<Rightarrow> json" where
  "serializeContext c = JObject [(''chainId'', JText (show_int (cc_chainId c))), (''distributor'', JText (lower (cc_distributor c))),
     (''marketId'', JText (lower (cc_marketId c))), (''epochId'', JNumber (cc_epochId c)),
     (''memeToken'', JText (lower (cc_memeToken c))), (''quoteToken'', JText (lower (cc_quoteToken c))),
     (''eligibilityPolicyHash'', JText (lower (cc_eligibilityPolicyHash c))),
     (''windowStart'', JText (show_int (cc_windowStart c))), (''windowEnd'', JText (show_int (cc_windowEnd c))),
     (''sourceBlockNumber'', JText (show_int (cc_sourceBlockNumber c))), (''sourceBlockHash'', JText (lower (cc_sourceBlockHash c)))]"

definition serialize_leaf :: "treasury_leaf \<Rightarrow> json" where
  "serialize_leaf l = JObject [(''index'', JNumber (int (tl_index l))), (''account'', JText (lower (tl_account l))),
     (''twab'', JText (show_int (tl_twab l))), (''amount'', JText (show_int (tl_amount l))), (''leaf'', JText (lower (tl_leaf l)))]"

definition hashDataset :: "viem \<Rightarrow> claim_context \<Rightarrow> int \<Rightarrow> int \<Rightarrow> int \<Rightarrow> treasury_leaf list \<Rightarrow> string" where
  "hashDataset V context sourceBlockTimestamp quoteAmount totalTwab leaves =
     keccak256 V (stringToHex V (json_text (JObject [(''schema'', JText ''TICKERGARDEN_V1_TREASURY_DATASET_V1''),
       (''context'', serializeContext context), (''sourceBlockTimestamp'', JText (show_int sourceBlockTimestamp)),
       (''quoteAmount'', JText (show_int quoteAmount)), (''totalTwab'', JText (show_int totalTwab)),
       (''allocations'', JArray (map serialize_leaf leaves))])))"

definition compareDrafts :: "allocation_draft \<Rightarrow> allocation_draft \<Rightarrow> int" where
  "compareDrafts left right = compareAddress (ad_account left) (ad_account right)"

definition leaf_of :: "viem \<Rightarrow> claim_context \<Rightarrow> nat \<times> allocation_draft \<Rightarrow> treasury_leaf" where
  "leaf_of V context p = (case p of (index, d) \<Rightarrow> \<lparr>tl_index = index, tl_account = ad_account d, tl_twab = ad_twab d,
     tl_amount = ad_amount d, tl_leaf = hashTreasuryLeaf V context (int index) (ad_account d) (ad_twab d) (ad_amount d), tl_proof = []\<rparr>)"

definition attach_proofs :: "merkle_tree \<Rightarrow> treasury_leaf list \<Rightarrow> treasury_leaf list" where
  "attach_proofs tree leaves = map (\<lambda>(index, l). l\<lparr>tl_proof := (if index < length (mt_proofs tree) then mt_proofs tree ! index else [])\<rparr>)
     (enumerate 0 leaves)"

definition empty_epoch :: "viem \<Rightarrow> treasury_input \<Rightarrow> treasury_output res" where
  "empty_epoch V i = (if ti_emptyEpochPolicy i \<noteq> Some ''reviewed-rollover''
     then Inl (Error ''no eligible TWAB holders; verified empty-epoch policy is required'')
     else Inr \<lparr>tr_context = context_of V i, tr_sourceBlockTimestamp = ti_sourceBlockTimestamp i, tr_merkleRoot = EMPTY_EPOCH_ROOT V,
       tr_datasetHash = hashDataset V (context_of V i) (ti_sourceBlockTimestamp i) (ti_quoteAmount i) 0 [], tr_leafCount = 0,
       tr_totalTwab = 0, tr_totalAllocated = 0, tr_leaves = []\<rparr>)"

definition publish :: "viem \<Rightarrow> treasury_input \<Rightarrow> int \<Rightarrow> allocation_draft list \<Rightarrow> treasury_output res" where
  "publish V i totalTwab drafts = (let context = context_of V i; funded = filter (\<lambda>d. 0 < ad_amount d) drafts in
     if 4294967295 < length funded then Inl (Error ''leaf count exceeds uint32'')
     else let leavesWithoutProof = map (leaf_of V context) (enumerate 0 (js_sort compareDrafts funded)) in
     bindR (buildMerkleTree V (map tl_leaf leavesWithoutProof)) (\<lambda>tree.
     let leaves = attach_proofs tree leavesWithoutProof; totalAllocated = (\<Sum>l\<leftarrow>leaves. tl_amount l) in
     if totalAllocated \<noteq> ti_quoteAmount i then Inl (Error ''allocation does not consume the epoch quote amount'')
     else Inr \<lparr>tr_context = context, tr_sourceBlockTimestamp = ti_sourceBlockTimestamp i, tr_merkleRoot = mt_root tree,
       tr_datasetHash = hashDataset V context (ti_sourceBlockTimestamp i) (ti_quoteAmount i) totalTwab leaves,
       tr_leafCount = length leaves, tr_totalTwab = totalTwab, tr_totalAllocated = totalAllocated, tr_leaves = leaves\<rparr>))"

definition generateTreasuryRoot :: "viem \<Rightarrow> treasury_input \<Rightarrow> treasury_output res" where
  "generateTreasuryRoot V i =
     bindR (validateInput V i) (\<lambda>_.
     bindR (weighted_accounts V i) (\<lambda>weighted.
     if weighted = [] then empty_epoch V i
     else bindR (total_twab weighted) (\<lambda>totalTwab.
     bindR (allocate (ti_quoteAmount i) totalTwab weighted) (publish V i totalTwab))))"

section \<open>Orders\<close>

interpretation addresses: keyed_comparator compareAddress parse_hex
  by unfold_locales (auto simp: compareAddress_def)

interpretation weights: keyed_comparator compareWeighted "\<lambda>w. parse_hex (fst w)"
  by unfold_locales (simp_all add: compareWeighted_def addresses.key_le addresses.key_ge)

interpretation drafts: keyed_comparator compareDrafts "\<lambda>d. parse_hex (ad_account d)"
  by unfold_locales (simp_all add: compareDrafts_def addresses.key_le addresses.key_ge)

text \<open>Larger remainders first.\<close>

definition remainder_key :: "allocation_draft \<Rightarrow> int \<times> nat" where
  "remainder_key d = (- ad_remainder d, parse_hex (ad_account d))"

interpretation remainders: keyed_comparator compareRemainders remainder_key
  by unfold_locales (auto simp: compareRemainders_def remainder_key_def addresses.key_le addresses.key_ge)

definition provenance :: "transfer_observation \<Rightarrow> int \<times> int \<times> int" where
  "provenance ob = (to_blockNumber ob, to_transactionIndex ob, to_logIndex ob)"

interpretation history: keyed_comparator compareProvenance provenance
  by unfold_locales (auto simp: compareProvenance_def provenance_def)

section \<open>Largest remainders\<close>

lemma take_downward:
  assumes "sorted_wrt (\<lambda>x y. key x < (key y :: 'k::linorder)) xs" and "y \<in> set (take k xs)" and "x \<in> set xs" and "key x < key y"
  shows "x \<in> set (take k xs)"
proof (rule ccontr)
  assume "x \<notin> set (take k xs)"
  then have "x \<in> set (drop k xs)"
    using assms(3) by (metis Un_iff append_take_drop_id set_append)
  moreover have "sorted_wrt (\<lambda>x y. key x < key y) (take k xs @ drop k xs)"
    using assms(1) by simp
  ultimately have "key y < key x"
    using assms(2) unfolding sorted_wrt_append by blast
  with assms(4) show False by simp
qed

lemma sum_add_units:
  assumes "distinct (map ad_account ds)" and "set as \<subseteq> set (map ad_account ds)" and "distinct as"
  shows "(\<Sum>d\<leftarrow>add_units as ds. ad_amount d) = (\<Sum>d\<leftarrow>ds. ad_amount d) + int (length as)"
proof -
  have "(\<Sum>d\<leftarrow>add_units as ds. ad_amount d) = (\<Sum>d\<leftarrow>ds. ad_amount d) + int (length (filter (\<lambda>a. a \<in> set as) (map ad_account ds)))"
    by (induction ds) (auto simp: add_units_def)
  moreover have "set (filter (\<lambda>a. a \<in> set as) (map ad_account ds)) = set as" "distinct (filter (\<lambda>a. a \<in> set as) (map ad_account ds))"
    using assms(1,2) by auto
  ultimately show ?thesis
    using assms(3) by (metis distinct_card)
qed

lemma remainders_sum:
  assumes "0 < T"
  shows "T * (\<Sum>w\<leftarrow>ws. (q * snd w) div T) + (\<Sum>w\<leftarrow>ws. (q * snd w) mod T) = q * (\<Sum>w\<leftarrow>ws. snd w :: int)"
proof (induction ws)
  case (Cons w ws)
  have "T * ((q * snd w) div T) + (q * snd w) mod T = q * snd w"
    by simp
  with Cons show ?case by (simp add: distrib_left)
qed simp

lemma remainders_less: "0 < (T::int) \<Longrightarrow> ws \<noteq> [] \<Longrightarrow> (\<Sum>w\<leftarrow>ws. f w mod T) < int (length ws) * T"
proof (induction ws)
  case (Cons w ws)
  have less: "f w mod T < T"
    using Cons.prems by simp
  show ?case
  proof (cases "ws = []")
    case False
    with Cons have "(\<Sum>w\<leftarrow>ws. f w mod T) < int (length ws) * T"
      by blast
    then have "f w mod T + (\<Sum>w\<leftarrow>ws. f w mod T) < T + int (length ws) * T"
      using less by (rule add_strict_mono [rotated])
    then show ?thesis by (simp add: distrib_right)
  qed (use less in simp)
qed simp

text \<open>How many units are left after rounding down.\<close>

lemma rounding_units:
  assumes "ws \<noteq> []" and "\<And>w. w \<in> set ws \<Longrightarrow> 0 < snd w" and T: "T = (\<Sum>w\<leftarrow>ws. snd w)"
  shows "0 < T" and "0 \<le> q - (\<Sum>w\<leftarrow>ws. (q * snd w) div T)" and "q - (\<Sum>w\<leftarrow>ws. (q * snd w) div T) < int (length ws)"
proof -
  obtain w rest where ws: "ws = w # rest"
    using assms(1) by (cases ws) auto
  have "0 \<le> (\<Sum>w\<leftarrow>rest. snd w)"
    by (intro sum_list_int_nonneg) (use assms(2) ws in \<open>auto simp: less_imp_le\<close>)
  then show pos: "0 < T"
    using assms(2) [of w] ws by (auto simp: T)
  have nonneg: "0 \<le> (\<Sum>w\<leftarrow>ws. (q * snd w) mod T)"
    by (intro sum_list_int_nonneg) (use pos in auto)
  have eq: "T * (q - (\<Sum>w\<leftarrow>ws. (q * snd w) div T)) = (\<Sum>w\<leftarrow>ws. (q * snd w) mod T)"
    using remainders_sum [OF pos, of q ws] by (simp add: T [symmetric] right_diff_distrib mult.commute)
  show "0 \<le> q - (\<Sum>w\<leftarrow>ws. (q * snd w) div T)"
    using nonneg unfolding eq [symmetric] using pos by (simp add: zero_le_mult_iff)
  have "T * (q - (\<Sum>w\<leftarrow>ws. (q * snd w) div T)) < T * int (length ws)"
    using remainders_less [OF pos assms(1), of "\<lambda>w. q * snd w"] unfolding eq by (simp only: mult.commute)
  then show "q - (\<Sum>w\<leftarrow>ws. (q * snd w) div T) < int (length ws)"
    using pos by (simp only: mult_less_cancel_left_pos)
qed

definition fair_split :: "int \<Rightarrow> int \<Rightarrow> allocation_draft list \<Rightarrow> bool" where
  "fair_split q T ds \<longleftrightarrow> (\<Sum>d\<leftarrow>ds. ad_amount d) = q
     \<and> (\<forall>d\<in>set ds. ad_amount d \<in> {q * ad_twab d div T, q * ad_twab d div T + 1})
     \<and> (\<forall>d\<in>set ds. \<forall>e\<in>set ds. ad_twab d < ad_twab e \<longrightarrow> ad_amount d \<le> ad_amount e)"

lemma draft_of_simps [simp]:
  "ad_account (draft_of q T w) = fst w" "ad_twab (draft_of q T w) = snd w" "ad_amount (draft_of q T w) = q * snd w div T"
  "ad_remainder (draft_of q T w) = q * snd w mod T"
  by (simp_all add: draft_of_def Let_def)

lemma larger_share_first:
  assumes "0 < T" and "0 < q" and "x < y" and "q * x div T = q * y div T"
  shows "q * x mod T < q * y mod (T :: int)"
proof -
  have "q * x < q * y"
    using assms by simp
  then show ?thesis
    using div_mult_mod_eq [of "q * x" T] div_mult_mod_eq [of "q * y" T] unfolding assms(4) by linarith
qed

lemma allocate_fair:
  assumes ws: "ws \<noteq> []" "distinct (map (\<lambda>w. parse_hex (fst w)) ws)" "\<And>w. w \<in> set ws \<Longrightarrow> 0 < snd w" and q: "0 < q"
    and T: "T = (\<Sum>w\<leftarrow>ws. snd w)"
  obtains ds where "allocate q T ws = Inr ds" "map ad_account ds = map fst ws" "map ad_twab ds = map snd ws" "fair_split q T ds"
proof -
  define drafts where "drafts = map (draft_of q T) ws"
  define units where "units = q - (\<Sum>d\<leftarrow>drafts. ad_amount d)"
  define order where "order = js_sort compareRemainders drafts"
  define chosen where "chosen = map ad_account (take (nat units) order)"
  have "(\<Sum>d\<leftarrow>drafts. ad_amount d) = (\<Sum>w\<leftarrow>ws. q * snd w div T)"
    by (simp add: drafts_def comp_def)
  then have pos: "0 < T" and units: "0 \<le> units" "units < int (length ws)"
    using rounding_units(1) [OF ws(1) ws(3) T] rounding_units(2,3) [OF ws(1) ws(3) T, of q] by (simp_all add: units_def)
  have drafts_length: "length drafts = length ws"
    by (simp add: drafts_def)
  have accounts: "map ad_account drafts = map fst ws" "map ad_twab drafts = map snd ws"
    by (simp_all add: drafts_def)
  have dist_ws: "distinct (map fst ws)"
    using ws(2) by (auto simp: distinct_map inj_on_def)
  then have dist: "distinct (map ad_account drafts)" "distinct (map remainder_key drafts)"
    using accounts ws(2) by (auto simp: distinct_map inj_on_def drafts_def remainder_key_def)
  have sorted: "sorted_wrt (\<lambda>x y. remainder_key x < remainder_key y) order"
    unfolding order_def by (rule remainders.strictly_sorted [OF dist(2)])
  have len: "length order = length ws" "set order = set drafts" "distinct (map ad_account order)"
    using dist by (simp_all add: order_def drafts_def)
  have chosen: "distinct chosen" "length chosen = nat units" "set chosen \<subseteq> set (map ad_account drafts)"
    using len units set_take_subset [of "nat units" order]
    by (auto simp: chosen_def take_map [symmetric] simp del: set_map) (auto simp: take_map dest: in_set_takeD)
  define ds where "ds = add_units chosen drafts"
  have amount: "ad_amount d \<in> {q * ad_twab d div T, q * ad_twab d div T + 1}" if "d \<in> set ds" for d
    using that by (auto simp: ds_def add_units_def drafts_def)
  have mono: "ad_amount d \<le> ad_amount e" if d: "d \<in> set ds" and e: "e \<in> set ds" and less: "ad_twab d < ad_twab e" for d e
  proof -
    obtain d0 e0 where d0: "d0 \<in> set drafts" "d = (if ad_account d0 \<in> set chosen then d0\<lparr>ad_amount := ad_amount d0 + 1\<rparr> else d0)"
      and e0: "e0 \<in> set drafts" "e = (if ad_account e0 \<in> set chosen then e0\<lparr>ad_amount := ad_amount e0 + 1\<rparr> else e0)"
      using d e by (auto simp: ds_def add_units_def)
    have lt: "ad_twab d0 < ad_twab e0"
      using less d0(2) e0(2) by (auto split: if_splits)
    have floors: "ad_amount d0 = q * ad_twab d0 div T" "ad_remainder d0 = q * ad_twab d0 mod T"
        "ad_amount e0 = q * ad_twab e0 div T" "ad_remainder e0 = q * ad_twab e0 mod T"
      using d0(1) e0(1) by (auto simp: drafts_def)
    have le: "ad_amount d0 \<le> ad_amount e0"
      unfolding floors using pos q lt by (intro zdiv_mono1) simp_all
    have "ad_account e0 \<in> set chosen" if picked: "ad_account d0 \<in> set chosen" and even: "ad_amount d0 = ad_amount e0"
    proof -
      have "d0 \<in> set (take (nat units) order)"
      proof -
        obtain d1 where d1: "d1 \<in> set (take (nat units) order)" "ad_account d1 = ad_account d0"
          using picked by (auto simp: chosen_def)
        then have "d1 \<in> set drafts"
          using len(2) in_set_takeD by metis
        with d1 dist(1) d0(1) show ?thesis
          by (metis distinct_map inj_onD)
      qed
      moreover have "remainder_key e0 < remainder_key d0"
        using larger_share_first [OF pos q lt] even floors by (simp add: remainder_key_def)
      ultimately have "e0 \<in> set (take (nat units) order)"
        using take_downward [OF sorted] e0(1) len(2) by blast
      then show ?thesis by (simp add: chosen_def)
    qed
    then show ?thesis
      using le d0(2) e0(2) by (cases "ad_amount d0 = ad_amount e0") (auto split: if_splits)
  qed
  have "(\<Sum>d\<leftarrow>ds. ad_amount d) = q"
    unfolding ds_def sum_add_units [OF dist(1) chosen(3,1)] using chosen(2) units by (simp add: units_def)
  then have "fair_split q T ds"
    using amount mono by (auto simp: fair_split_def)
  moreover have "allocate q T ws = Inr ds"
    using units len drafts_length by (simp add: allocate_def Let_def drafts_def [symmetric] units_def [symmetric] order_def [symmetric] chosen_def [symmetric] ds_def)
  moreover have "map ad_account ds = map fst ws" "map ad_twab ds = map snd ws"
    using accounts by (simp_all add: ds_def add_units_def comp_def) (auto simp: map_eq_conv simp flip: accounts)
  ultimately show ?thesis
    using that by blast
qed

section \<open>Addresses\<close>

lemma lower_char_zero: "lower_char c = CHR ''0'' \<longleftrightarrow> c = CHR ''0''"
proof (cases "65 \<le> code_of c \<and> code_of c \<le> 90")
  case True
  then have "code_of (lower_char c) = code_of c + 32"
    by (simp add: lower_char_def code_of_def)
  then have "code_of (lower_char c) \<noteq> code_of (CHR ''0'')" "code_of c \<noteq> code_of (CHR ''0'')"
    using True by (simp_all add: code_of_def)
  then show ?thesis by auto
next
  case False
  then show ?thesis by (auto simp: lower_char_def)
qed

lemma lower_zero: "is_hex 40 a \<Longrightarrow> lower a = TREASURY_ZERO \<longleftrightarrow> a = TREASURY_ZERO"
proof
  assume hex: "is_hex 40 a" and z: "lower a = TREASURY_ZERO"
  then obtain t where t: "a = ''0x'' @ t" "length t = 40"
    by (metis append_take_drop_id is_hex_def add_diff_cancel_right' length_drop)
  have "map lower_char t = replicate 40 (CHR ''0'')"
    using z t by (simp add: TREASURY_ZERO_def hex_lit_def lower_def)
  then have "set (map lower_char t) = {CHR ''0''}"
    by simp
  then have "\<forall>c\<in>set t. lower_char c = CHR ''0''"
    by auto
  then have "\<forall>c\<in>set t. c = CHR ''0''"
    by (simp add: lower_char_zero)
  then show "a = TREASURY_ZERO"
    using t replicate_eqI [of t 40 "CHR ''0''"] by (simp add: TREASURY_ZERO_def hex_lit_def)
next
  show "a = TREASURY_ZERO \<Longrightarrow> lower a = TREASURY_ZERO"
    by (simp add: TREASURY_ZERO_def lower_char_def code_of_def)
qed

text \<open>What the loop relies on of a checked address: it is a literal in checksummed form.\<close>

definition checksummed :: "viem \<Rightarrow> string \<Rightarrow> bool" where
  "checksummed V a \<longleftrightarrow> is_hex 40 a \<and> getAddress V a = a"

lemma getAddress_checksummed: "viem_addresses V \<Longrightarrow> is_hex 40 a \<Longrightarrow> checksummed V (getAddress V a) \<and> lower (getAddress V a) = lower a"
  unfolding viem_addresses_def checksummed_def by metis

lemma is_hex_of_lower: "is_lower_hex 40 k \<Longrightarrow> is_hex 40 k \<and> lower k = k"
  by (simp add: is_lower_hex_is_hex lower_id)

lemma getAddress_key:
  assumes "viem_addresses V" and "is_lower_hex 40 k"
  shows "checksummed V (getAddress V k)" and "lower (getAddress V k) = k"
  using getAddress_checksummed [OF assms(1), of k] is_hex_of_lower [OF assms(2)] by simp_all

text \<open>The numbers of checksummed addresses differ when their keys do.\<close>

lemma parse_hex_getAddress:
  assumes V: "viem_addresses V" and k: "is_lower_hex 40 k"
  shows "parse_hex (getAddress V k) = parse_hex k"
proof -
  have digits: "list_all is_hex_digit (drop 2 (getAddress V k))"
    using getAddress_key(1) [OF assms] by (simp add: checksummed_def is_hex_def)
  have val: "hex_val (lower_char c) = hex_val c" if "is_hex_digit c" for c
    using that by (auto simp: hex_val_def lower_char_def is_hex_digit_def is_digit_def code_of_def)
  have "foldl (\<lambda>acc c. 16 * acc + hex_val c) n (map lower_char t) = foldl (\<lambda>acc c. 16 * acc + hex_val c) n t"
    if "list_all is_hex_digit t" for n t
    using that by (induction t arbitrary: n) (simp_all add: val)
  then have "parse_hex (lower (getAddress V k)) = parse_hex (getAddress V k)"
    using digits by (simp add: parse_hex_def lower_def drop_map)
  then show ?thesis
    using getAddress_key(2) [OF assms] by simp
qed

lemma normalizeAddresses_keys:
  assumes "normalizeAddresses V as = Inr out" and "viem_addresses V"
  shows "set (map lower out) = lower ` set as"
proof -
  obtain unique where u: "foldR (\<lambda>a unique. if \<not> isAddress V a then Inl (Error (''invalid address: '' @ a))
              else Inr (let k = lower (getAddress V a) in if k \<in> set unique then unique else unique @ [k])) as [] = Inr unique"
    and out: "out = map (getAddress V) (sort unique)"
    using assms(1) by (auto simp: normalizeAddresses_def bindR_eq_Inr)
  have "set unique = lower ` set as \<and> (\<forall>k\<in>set unique. is_lower_hex 40 k)"
    using u
  proof (rule foldR_invariant)
    fix pre a post s t
    assume I: "set s = lower ` set pre \<and> (\<forall>k\<in>set s. is_lower_hex 40 k)"
      and step: "(if \<not> isAddress V a then Inl (Error (''invalid address: '' @ a))
              else Inr (let k = lower (getAddress V a) in if k \<in> set s then s else s @ [k])) = Inr t"
    have "isAddress V a"
      using step by (auto split: if_splits)
    then have "is_hex 40 a" "lower (getAddress V a) = lower a" "is_lower_hex 40 (lower a)"
      using assms(2) is_hex_lower unfolding viem_addresses_def by blast+
    then show "set t = lower ` set (pre @ [a]) \<and> (\<forall>k\<in>set t. is_lower_hex 40 k)"
      using I step by (auto simp: Let_def split: if_splits)
  qed simp
  then show ?thesis
    using getAddress_key(2) [OF assms(2)] by (auto simp: out image_image)
qed

section \<open>The history in order\<close>

definition observation_ok :: "viem \<Rightarrow> transfer_observation \<Rightarrow> bool" where
  "observation_ok V ob \<longleftrightarrow> checksummed V (to_from ob) \<and> checksummed V (to_to ob) \<and> 0 \<le> to_value ob"

text \<open>What of a transfer counts for balances.\<close>

definition movement :: "transfer_observation \<Rightarrow> string \<times> string \<times> int \<times> int" where
  "movement ob = (lower (to_from ob), lower (to_to ob), to_value ob, to_timestamp ob)"

lemma normalize_observation_ok:
  assumes "normalize_observation V v = Inr ob" and "viem_addresses V"
  shows "observation_ok V ob \<and> movement ob = movement v \<and> provenance ob = provenance v"
proof -
  have ob: "ob = v\<lparr>to_from := getAddress V (to_from v), to_to := getAddress V (to_to v)\<rparr>" and "isAddress V (to_from v)" "isAddress V (to_to v)"
      and positive: "0 \<le> to_value v"
    using assms(1) unfolding normalize_observation_def if_Inl_eq_Inr sum.inject by (simp_all add: not_less)
  then have "is_hex 40 (to_from v)" "is_hex 40 (to_to v)"
    using assms(2) unfolding viem_addresses_def by blast+
  then show ?thesis
    using positive getAddress_checksummed [OF assms(2), of "to_from v"] getAddress_checksummed [OF assms(2), of "to_to v"]
    by (simp add: ob observation_ok_def movement_def provenance_def)
qed

lemma check_adjacent_sorted:
  "check_adjacent obs = Inr () \<Longrightarrow> sorted_wrt (\<lambda>x y. provenance x \<le> provenance y) obs \<Longrightarrow>
   sorted (map to_timestamp obs) \<and> distinct (map provenance obs)"
proof (induction obs rule: check_adjacent.induct)
  case (1 p c rest)
  have step: "\<not> same_provenance p c" "to_timestamp p \<le> to_timestamp c" "check_adjacent (c # rest) = Inr ()"
    using "1.prems"(1) by (auto split: if_splits)
  have "provenance p < provenance c"
    using step(1) "1.prems"(2) by (auto simp: same_provenance_def provenance_def)
  then have "\<forall>x\<in>set (c # rest). provenance p < provenance x"
    using "1.prems"(2) by (auto intro: less_le_trans)
  moreover have "sorted (map to_timestamp (c # rest))" "distinct (map provenance (c # rest))"
    using "1.IH" step "1.prems"(2) by auto
  ultimately show ?case
    using step(2) by (auto simp: less_imp_neq)
qed auto

lemma normalizeObservations_sound:
  assumes "normalizeObservations V ts = Inr obs" and "viem_addresses V"
  shows "list_all (observation_ok V) obs" and "sorted (map to_timestamp obs)"
    and "image_mset movement (mset obs) = image_mset movement (mset ts)"
proof -
  obtain mapped where m: "mapR (normalize_observation V) ts = Inr mapped" and obs: "obs = js_sort compareProvenance mapped"
    and adjacent: "check_adjacent obs = Inr ()"
    using assms(1) by (auto simp: normalizeObservations_def bindR_eq_Inr Let_def)
  have all2: "list_all2 (\<lambda>v ob. observation_ok V ob \<and> movement ob = movement v) ts mapped"
    using m unfolding mapR_eq_Inr by (rule list_all2_mono) (simp add: normalize_observation_ok [OF _ assms(2)])
  have "map movement mapped = map movement ts"
    using all2 by (induction rule: list_all2_induct) auto
  then show "image_mset movement (mset obs) = image_mset movement (mset ts)"
    by (metis mset_js_sort mset_map obs)
  have "\<forall>ob\<in>set mapped. observation_ok V ob"
    using all2 by (induction rule: list_all2_induct) auto
  then show "list_all (observation_ok V) obs"
    by (simp add: obs list_all_iff)
  have "sorted_wrt (\<lambda>x y. provenance x \<le> provenance y) obs"
    using history.sorted [of mapped] by (simp add: obs history.key_le)
  then show "sorted (map to_timestamp obs)"
    using check_adjacent_sorted [OF adjacent] by simp
qed

text \<open>The order in which the transfers are listed does not matter.\<close>

lemma mapR_permute:
  assumes "mapR f xs = Inr ys" and "mset xs = mset xs'"
  obtains ys' where "mapR f xs' = Inr ys'" "mset ys' = mset ys"
proof -
  have ok: "\<forall>x\<in>set xs. \<exists>y. f x = Inr y"
    using assms(1) unfolding mapR_eq_Inr by (induction rule: list_all2_induct) auto
  define g where "g x = (case f x of Inr y \<Rightarrow> y)" for x
  have g: "f x = Inr (g x)" if "x \<in> set xs" for x
    using ok that by (auto simp: g_def)
  have "mapR f xs = Inr (map g xs)" "mapR f xs' = Inr (map g xs')"
    by (rule mapR_map, rule g, assumption) (rule mapR_map, rule g, simp add: mset_eq_setD [OF assms(2)])
  then show ?thesis
    using that [of "map g xs'"] assms by simp
qed

lemma normalizeObservations_permute:
  assumes "normalizeObservations V ts = Inr obs" and "mset ts = mset ts'"
  shows "normalizeObservations V ts' = Inr obs"
proof -
  obtain mapped where m: "mapR (normalize_observation V) ts = Inr mapped" and obs: "obs = js_sort compareProvenance mapped"
    and adjacent: "check_adjacent obs = Inr ()"
    using assms(1) by (auto simp: normalizeObservations_def bindR_eq_Inr Let_def)
  obtain mapped' where m': "mapR (normalize_observation V) ts' = Inr mapped'" "mset mapped' = mset mapped"
    by (rule mapR_permute [OF m assms(2)])
  have "sorted_wrt (\<lambda>x y. provenance x \<le> provenance y) obs"
    using history.sorted [of mapped] by (simp add: obs history.key_le)
  then have "distinct (map provenance mapped)"
    using check_adjacent_sorted [OF adjacent] by (simp add: obs)
  then have "js_sort compareProvenance mapped' = obs"
    using history.order_irrelevant [of mapped mapped'] m'(2) obs by simp
  then show ?thesis
    using m' adjacent by (simp add: normalizeObservations_def)
qed

section \<open>The time-weighted balance\<close>

text \<open>
  The reference: the balance of a key after the transfers up to a moment is what they moved to it less
  what they moved from it, and its time-weighted balance is the sum of its balances over the seconds of
  the window.
\<close>

definition moved :: "string \<Rightarrow> transfer_observation \<Rightarrow> int" where
  "moved key ob = (if lower (to_to ob) = key then to_value ob else 0) - (if lower (to_from ob) = key then to_value ob else 0)"

definition balance_at :: "transfer_observation list \<Rightarrow> string \<Rightarrow> int \<Rightarrow> int" where
  "balance_at obs key t = (\<Sum>ob\<leftarrow>filter (\<lambda>ob. to_timestamp ob \<le> t) obs. moved key ob)"

definition twab_of :: "treasury_input \<Rightarrow> transfer_observation list \<Rightarrow> string \<Rightarrow> int" where
  "twab_of i obs key = (\<Sum>t\<in>{ti_windowStart i..<ti_windowEnd i}. balance_at obs key t)"

lemma balance_at_snoc: "balance_at (obs @ [ob]) key t = balance_at obs key t + (if to_timestamp ob \<le> t then moved key ob else 0)"
  by (simp add: balance_at_def)

lemma twab_of_snoc:
  "twab_of i (obs @ [ob]) key = twab_of i obs key + (if to_timestamp ob < ti_windowEnd i \<and> ti_windowStart i \<le> ti_windowEnd i
     then moved key ob * (ti_windowEnd i - max (ti_windowStart i) (to_timestamp ob)) else 0)"
proof -
  let ?S = "{ti_windowStart i..<ti_windowEnd i}" and ?\<tau> = "to_timestamp ob"
  have "(\<Sum>t\<in>?S. if ?\<tau> \<le> t then moved key ob else 0) = (\<Sum>t\<in>{t\<in>?S. ?\<tau> \<le> t}. moved key ob)"
    by (rule sum.inter_filter [symmetric]) simp
  also have "{t\<in>?S. ?\<tau> \<le> t} = {max (ti_windowStart i) ?\<tau>..<ti_windowEnd i}"
    by auto
  finally have "(\<Sum>t\<in>?S. if ?\<tau> \<le> t then moved key ob else 0)
      = int (nat (ti_windowEnd i - max (ti_windowStart i) ?\<tau>)) * moved key ob"
    by simp
  then show ?thesis
    by (auto simp: twab_of_def balance_at_snoc sum.distrib)
qed

text \<open>It depends only on the movements, in any order.\<close>

lemma twab_of_movements:
  assumes "image_mset movement (mset obs) = image_mset movement (mset ts)"
  shows "twab_of i obs key = twab_of i ts key"
proof -
  define m where "m t p = (case p of (src, dst, v, \<tau>) \<Rightarrow> if \<tau> \<le> t then (if dst = key then v else 0) - (if src = key then v else 0) else (0::int))"
    for t :: int and p :: "string \<times> string \<times> int \<times> int"
  have "balance_at xs key t = (\<Sum>p\<leftarrow>map movement xs. m t p)" for xs t
    by (induction xs) (simp_all add: balance_at_def m_def movement_def moved_def)
  moreover have "(\<Sum>p\<leftarrow>map movement obs. m t p) = (\<Sum>p\<leftarrow>map movement ts. m t p)" for t
    by (rule sum_list_mset_eq) (simp add: assms)
  ultimately show ?thesis
    by (simp add: twab_of_def)
qed

section \<open>The state of the loop\<close>

definition holder_key :: "string \<Rightarrow> bool" where
  "holder_key k \<longleftrightarrow> is_lower_hex 40 k \<and> k \<noteq> TREASURY_ZERO"

definition state_ok :: "treasury_input \<Rightarrow> twab_state \<Rightarrow> bool" where
  "state_ok i s \<longleftrightarrow> distinct (keys_of (tw_accumulators s))
     \<and> (\<forall>k\<in>set (keys_of (tw_accumulators s)) \<union> set (keys_of (tw_balances s)). holder_key k)
     \<and> (\<forall>k a. map_of (tw_accumulators s) k = Some a \<longrightarrow> aa_balance a = balance_of (tw_balances s) k
          \<and> ti_windowStart i \<le> aa_lastTimestamp a \<and> aa_lastTimestamp a \<le> ti_windowEnd i)"

text \<open>When a key was last brought up to date, and what it will have weighed at the end of the window.\<close>

definition last_of :: "treasury_input \<Rightarrow> twab_state \<Rightarrow> string \<Rightarrow> int" where
  "last_of i s k = (case map_of (tw_accumulators s) k of None \<Rightarrow> ti_windowStart i | Some a \<Rightarrow> aa_lastTimestamp a)"

definition weight_at_end :: "treasury_input \<Rightarrow> twab_state \<Rightarrow> string \<Rightarrow> int" where
  "weight_at_end i s k = (case map_of (tw_accumulators s) k of None \<Rightarrow> 0 | Some a \<Rightarrow> aa_weightedBalance a)
     + balance_of (tw_balances s) k * (ti_windowEnd i - last_of i s k)"

lemma distinct_keys_update: "distinct (keys_of m) \<Longrightarrow> distinct (keys_of (AList.update k v m))"
  by (simp add: keys_of_update)

lemma checkpoint_effect:
  assumes run: "checkpoint i a t s = Inr s'" and ok: "state_ok i s" and t: "t \<le> ti_windowEnd i" and key: "holder_key (lower a)"
  shows "state_ok i s'" and "tw_balances s' = tw_balances s"
    and "weight_at_end i s' = weight_at_end i s" and "last_of i s' = (last_of i s)(lower a := t)"
    and "set (keys_of (tw_accumulators s')) = insert (lower a) (set (keys_of (tw_accumulators s)))"
proof -
  define old where "old = (case map_of (tw_accumulators s) (lower a) of Some a \<Rightarrow> a
    | None \<Rightarrow> \<lparr>aa_balance = balance_of (tw_balances s) (lower a), aa_lastTimestamp = ti_windowStart i, aa_weightedBalance = 0\<rparr>)"
  define weighted where "weighted = aa_weightedBalance old + aa_balance old * (t - aa_lastTimestamp old)"
  have s': "s' = s\<lparr>tw_accumulators := AList.update (lower a) (old\<lparr>aa_weightedBalance := weighted, aa_lastTimestamp := t\<rparr>) (tw_accumulators s)\<rparr>"
    and after: "aa_lastTimestamp old \<le> t"
    using run unfolding checkpoint_def Let_def old_def [symmetric] weighted_def [symmetric] if_Inl_eq_Inr by auto
  have old: "aa_balance old = balance_of (tw_balances s) (lower a)" "ti_windowStart i \<le> aa_lastTimestamp old"
    "aa_lastTimestamp old = last_of i s (lower a)"
    using ok by (auto simp: old_def state_ok_def last_of_def split: option.splits)
  show "tw_balances s' = tw_balances s" "set (keys_of (tw_accumulators s')) = insert (lower a) (set (keys_of (tw_accumulators s)))"
    by (auto simp: s' keys_of_update)
  show "state_ok i s'"
    using ok old after t key by (auto simp: state_ok_def s' keys_of_update update_conv' split: if_splits)
  show last: "last_of i s' = (last_of i s)(lower a := t)"
    by (auto simp: last_of_def s' update_conv' fun_eq_iff)
  have "weighted + balance_of (tw_balances s) (lower a) * (ti_windowEnd i - t) = weight_at_end i s (lower a)"
    unfolding weight_at_end_def weighted_def old(1) old(3) [symmetric]
    by (cases "map_of (tw_accumulators s) (lower a)") (simp_all add: old_def algebra_simps)
  then show "weight_at_end i s' = weight_at_end i s"
    by (auto simp: fun_eq_iff weight_at_end_def last) (auto simp: s' update_conv')
qed

lemma set_balance_effect:
  assumes ok: "state_ok i s" and key: "holder_key k"
  shows "state_ok i (set_balance k v s)" and "last_of i (set_balance k v s) = last_of i s"
    and "balance_of (tw_balances (set_balance k v s)) = (balance_of (tw_balances s))(k := v)"
    and "weight_at_end i (set_balance k v s) = (weight_at_end i s)(k := weight_at_end i s k
      + (v - balance_of (tw_balances s) k) * (ti_windowEnd i - last_of i s k))"
    and "set (keys_of (tw_accumulators (set_balance k v s))) = set (keys_of (tw_accumulators s))"
proof -
  have accs: "map_of (tw_accumulators (set_balance k v s)) x
     = (if x = k then map_option (\<lambda>a. a\<lparr>aa_balance := v\<rparr>) (map_of (tw_accumulators s) k) else map_of (tw_accumulators s) x)" for x
    by (simp add: set_balance_def update_conv' split: option.split)
  show bal: "balance_of (tw_balances (set_balance k v s)) = (balance_of (tw_balances s))(k := v)"
    by (auto simp: set_balance_def fun_eq_iff)
  show keys: "set (keys_of (tw_accumulators (set_balance k v s))) = set (keys_of (tw_accumulators s))"
  proof (cases "map_of (tw_accumulators s) k")
    case (Some a)
    then have "k \<in> set (keys_of (tw_accumulators s))"
      by (force dest: map_of_SomeD)
    then show ?thesis
      using Some by (simp add: set_balance_def keys_of_update del: set_map)
  qed (simp add: set_balance_def)
  show last: "last_of i (set_balance k v s) = last_of i s"
    by (auto simp: fun_eq_iff last_of_def accs split: option.split)
  show "state_ok i (set_balance k v s)"
  proof -
    have "distinct (keys_of (tw_accumulators (set_balance k v s)))"
      using ok by (auto simp: set_balance_def state_ok_def distinct_keys_update split: option.split)
    moreover have "set (keys_of (tw_balances (set_balance k v s))) \<subseteq> insert k (set (keys_of (tw_balances s)))"
      by (auto simp: set_balance_def keys_of_update)
    ultimately show ?thesis
      using ok key unfolding state_ok_def keys by (auto simp: accs bal)
  qed
  show "weight_at_end i (set_balance k v s) = (weight_at_end i s)(k := weight_at_end i s k
      + (v - balance_of (tw_balances s) k) * (ti_windowEnd i - last_of i s k))"
    by (auto simp: fun_eq_iff weight_at_end_def last bal accs algebra_simps split: option.split)
qed

lemma holder_key_lower: "checksummed V a \<Longrightarrow> a \<noteq> TREASURY_ZERO \<Longrightarrow> holder_key (lower a)"
  using lower_zero is_hex_lower by (auto simp: holder_key_def checksummed_def)

lemma not_holder_zero: "holder_key k \<Longrightarrow> lower a = k \<Longrightarrow> a \<noteq> TREASURY_ZERO"
  by (auto simp: holder_key_def TREASURY_ZERO_def lower_char_def code_of_def)

text \<open>A part of a step that leaves every key's last update alone and adds \<open>d\<close> times the time left to its weight.\<close>

definition shifts :: "treasury_input \<Rightarrow> (string \<Rightarrow> int) \<Rightarrow> twab_state \<Rightarrow> twab_state \<Rightarrow> bool" where
  "shifts i d s s' \<longleftrightarrow> state_ok i s' \<and> last_of i s' = last_of i s
     \<and> set (keys_of (tw_accumulators s')) = set (keys_of (tw_accumulators s))
     \<and> (\<forall>k. holder_key k \<longrightarrow> weight_at_end i s' k = weight_at_end i s k + d k * (ti_windowEnd i - last_of i s k))"

lemma debit_effect:
  assumes "debit a v s = Inr s'" and ok: "state_ok i s" and a: "checksummed V a"
  shows "shifts i (\<lambda>k. - (if lower a = k then v else 0)) s s'"
proof (cases "a = TREASURY_ZERO")
  case True
  with assms have "s' = s" by (simp add: debit_def)
  then show ?thesis
    using ok True not_holder_zero by (auto simp: shifts_def)
next
  case False
  then have s': "s' = set_balance (lower a) (balance_of (tw_balances s) (lower a) - v) s"
    using assms(1) by (simp add: debit_def Let_def split: if_splits)
  show ?thesis
    using set_balance_effect [OF ok holder_key_lower [OF a False]] by (simp add: shifts_def s')
qed

lemma credit_effect:
  assumes "credit a v s = Inr s'" and ok: "state_ok i s" and a: "checksummed V a"
  shows "shifts i (\<lambda>k. if lower a = k then v else 0) s s'"
proof (cases "a = TREASURY_ZERO")
  case True
  with assms have "s' = s" by (simp add: credit_def)
  then show ?thesis
    using ok True not_holder_zero by (auto simp: shifts_def)
next
  case False
  then have s': "s' = set_balance (lower a) (balance_of (tw_balances s) (lower a) + v) s"
    using assms(1) by (simp add: credit_def Let_def split: if_splits)
  show ?thesis
    using set_balance_effect [OF ok holder_key_lower [OF a False]] by (simp add: shifts_def s')
qed

lemma shifts_trans: "shifts i d s s' \<Longrightarrow> shifts i e s' s'' \<Longrightarrow> shifts i (\<lambda>k. d k + e k) s s''"
  by (auto simp: shifts_def distrib_right)

text \<open>A checkpoint that is taken only under a condition.\<close>

lemma maybe_checkpoint:
  assumes "(if b then checkpoint i a t s else Inr s) = Inr s'" and "state_ok i s" and "t \<le> ti_windowEnd i" and "b \<Longrightarrow> holder_key (lower a)"
  shows "state_ok i s'" and "weight_at_end i s' = weight_at_end i s"
    and "last_of i s' = (if b then (last_of i s)(lower a := t) else last_of i s)"
    and "set (keys_of (tw_accumulators s')) = (if b then insert (lower a) (set (keys_of (tw_accumulators s))) else set (keys_of (tw_accumulators s)))"
  using assms checkpoint_effect [of i a t s s'] by (auto split: if_splits)

definition history_inv :: "treasury_input \<Rightarrow> transfer_observation list \<Rightarrow> twab_state \<Rightarrow> bool" where
  "history_inv i pre s \<longleftrightarrow> state_ok i s \<and> (\<forall>k. holder_key k \<longrightarrow> weight_at_end i s k = twab_of i pre k)
     \<and> (tw_accumulators s \<noteq> [] \<longrightarrow> (\<exists>ob\<in>set pre. ti_windowStart i \<le> to_timestamp ob))"

lemma observe_step:
  assumes run: "observe V i ob s = Inr s'" and inv: "history_inv i pre s" and ob: "observation_ok V ob"
    and sorted: "\<forall>p\<in>set pre. to_timestamp p \<le> to_timestamp ob" and window: "ti_windowStart i \<le> ti_windowEnd i"
  shows "history_inv i (pre @ [ob]) s'"
proof (cases "ti_windowEnd i \<le> to_timestamp ob")
  case True
  then have "s' = s"
    using run unfolding observe_def by (simp split: if_splits)
  then show ?thesis
    using inv True by (auto simp: history_inv_def twab_of_snoc)
next
  case False
  define src where "src = to_from ob"
  define dst where "dst = to_to ob"
  define \<tau> where "\<tau> = to_timestamp ob"
  define within where "within \<longleftrightarrow> ti_windowStart i \<le> \<tau>"
  have checked: "checksummed V src" "checksummed V dst" "getAddress V (to_from ob) = src" "getAddress V (to_to ob) = dst"
    using ob by (simp_all add: observation_ok_def src_def dst_def checksummed_def)
  obtain s1 s2 s3 where c1: "(if within \<and> src \<noteq> TREASURY_ZERO then checkpoint i src \<tau> s else Inr s) = Inr s1"
    and c2: "(if within \<and> dst \<noteq> TREASURY_ZERO \<and> dst \<noteq> src then checkpoint i dst \<tau> s1 else Inr s1) = Inr s2"
    and d: "debit src (to_value ob) s2 = Inr s3" and c: "credit dst (to_value ob) s3 = Inr s'"
    using run False unfolding observe_def Let_def if_Inl_eq_Inr bindR_eq_Inr checked(3,4) within_def \<tau>_def
    by (simp only: if_False bindR_eq_Inr) blast
  have \<tau>: "\<tau> \<le> ti_windowEnd i"
    using False by (simp add: \<tau>_def)
  have s: "state_ok i s"
    using inv by (simp add: history_inv_def)
  note m1 = maybe_checkpoint [OF c1 s \<tau> holder_key_lower [OF checked(1)]]
  note m2 = maybe_checkpoint [OF c2 m1(1) \<tau> holder_key_lower [OF checked(2)]]
  note taken = debit_effect [OF d m2(1) checked(1)]
  then have "state_ok i s3" by (simp add: shifts_def)
  note shift = shifts_trans [OF taken credit_effect [OF c this checked(2)]]
  have none: "tw_accumulators s = []" if "\<not> within"
    using inv sorted that by (force simp: history_inv_def within_def \<tau>_def)
  have last: "last_of i s2 k = max (ti_windowStart i) \<tau>" if k: "holder_key k" and hit: "lower src = k \<or> lower dst = k" for k
  proof (cases within)
    case True
    then have "src \<noteq> TREASURY_ZERO \<Longrightarrow> last_of i s1 (lower src) = \<tau>" "dst \<noteq> TREASURY_ZERO \<Longrightarrow> dst \<noteq> src \<Longrightarrow> last_of i s2 (lower dst) = \<tau>"
      "src \<noteq> TREASURY_ZERO \<Longrightarrow> last_of i s2 (lower src) = \<tau>"
      by (auto simp: m1(3) m2(3))
    then show ?thesis
      using True hit k not_holder_zero by (auto simp: within_def max_def)
  next
    case False
    then show ?thesis
      using none by (simp add: m1(3) m2(3) last_of_def) (simp add: within_def)
  qed
  have "weight_at_end i s' k = twab_of i (pre @ [ob]) k" if k: "holder_key k" for k
  proof -
    have "weight_at_end i s' k = weight_at_end i s k + moved k ob * (ti_windowEnd i - last_of i s2 k)"
      using shift k m1(2) m2(2) by (simp add: shifts_def moved_def src_def dst_def)
    also have "moved k ob * (ti_windowEnd i - last_of i s2 k) = moved k ob * (ti_windowEnd i - max (ti_windowStart i) \<tau>)"
      using last [OF k] by (cases "lower src = k \<or> lower dst = k") (auto simp: moved_def src_def dst_def)
    finally show ?thesis
      using inv k False window by (simp add: twab_of_snoc history_inv_def \<tau>_def)
  qed
  moreover have "within" if "tw_accumulators s' \<noteq> []"
  proof (rule ccontr)
    assume out: "\<not> within"
    then have "set (keys_of (tw_accumulators s')) = {}"
      using shift m1(4) m2(4) none by (simp add: shifts_def)
    with that show False by simp
  qed
  ultimately show ?thesis
    using shift by (auto simp: history_inv_def shifts_def within_def \<tau>_def)
qed

lemma observe_history:
  assumes run: "foldR (observe V i) obs \<lparr>tw_balances = [], tw_accumulators = []\<rparr> = Inr s" and "list_all (observation_ok V) obs"
    and "sorted (map to_timestamp obs)" and "ti_windowStart i \<le> ti_windowEnd i"
  shows "history_inv i obs s"
  using run
proof (rule foldR_invariant)
  show "history_inv i [] \<lparr>tw_balances = [], tw_accumulators = []\<rparr>"
    by (simp add: history_inv_def state_ok_def weight_at_end_def twab_of_def balance_at_def)
next
  fix pre ob post s t
  assume obs: "obs = pre @ ob # post" and "history_inv i pre s" and "observe V i ob s = Inr t"
  moreover have "observation_ok V ob" "\<forall>p\<in>set pre. to_timestamp p \<le> to_timestamp ob"
    using assms(2,3) obs by (auto simp: sorted_append)
  ultimately show "history_inv i (pre @ [ob]) t"
    using observe_step assms(4) by blast
qed

section \<open>Closing the window\<close>

text \<open>Checkpoints at the end of the window change no weight, and only bring keys up to date.\<close>

definition closing :: "treasury_input \<Rightarrow> twab_state \<Rightarrow> twab_state \<Rightarrow> bool" where
  "closing i s0 s \<longleftrightarrow> state_ok i s \<and> tw_balances s = tw_balances s0 \<and> weight_at_end i s = weight_at_end i s0
     \<and> set (keys_of (tw_accumulators s0)) \<subseteq> set (keys_of (tw_accumulators s))
     \<and> (\<forall>k. last_of i s k = last_of i s0 k \<or> last_of i s k = ti_windowEnd i)"

lemma closing_checkpoint:
  assumes "closing i s0 s" and "checkpoint i a (ti_windowEnd i) s = Inr t" and "holder_key (lower a)"
  shows "closing i s0 t" and "last_of i t (lower a) = ti_windowEnd i" and "lower a \<in> set (keys_of (tw_accumulators t))"
    and "set (keys_of (tw_accumulators t)) = insert (lower a) (set (keys_of (tw_accumulators s)))"
  using assms(1) checkpoint_effect [OF assms(2) _ order.refl assms(3)] unfolding closing_def by auto

lemma holder_getAddress: "viem_addresses V \<Longrightarrow> holder_key k \<Longrightarrow> lower (getAddress V k) = k"
  by (simp add: holder_key_def getAddress_key)

lemma close_balances:
  assumes run: "foldR (close_balance V i) (tw_balances s0) s0 = Inr s" and ok: "state_ok i s0" and V: "viem_addresses V"
  shows "closing i s0 s \<and> (\<forall>(k, b)\<in>set (tw_balances s0). b \<noteq> 0 \<longrightarrow> k \<in> set (keys_of (tw_accumulators s)))"
  using run
proof (rule foldR_invariant)
  show "closing i s0 s0 \<and> (\<forall>(k, b)\<in>set ([] :: (string \<times> int) list). b \<noteq> 0 \<longrightarrow> k \<in> set (keys_of (tw_accumulators s0)))"
    using ok by (simp add: closing_def)
next
  fix pre kb post s t
  assume split: "tw_balances s0 = pre @ kb # post"
    and inv: "closing i s0 s \<and> (\<forall>(k, b)\<in>set pre. b \<noteq> 0 \<longrightarrow> k \<in> set (keys_of (tw_accumulators s)))"
    and step: "close_balance V i kb s = Inr t"
  obtain k b where kb: "kb = (k, b)" by (cases kb)
  have key: "holder_key k" "lower (getAddress V k) = k"
    using ok holder_getAddress [OF V] split kb by (auto simp: state_ok_def)
  show "closing i s0 t \<and> (\<forall>(k, b)\<in>set (pre @ [kb]). b \<noteq> 0 \<longrightarrow> k \<in> set (keys_of (tw_accumulators t)))"
  proof (cases "b = 0 \<and> map_of (tw_accumulators s) k = None")
    case True
    then show ?thesis using inv step kb by (auto simp: close_balance_def)
  next
    case False
    then have cp: "checkpoint i (getAddress V k) (ti_windowEnd i) s = Inr t"
      using step unfolding kb close_balance_def by (simp split: if_splits)
    show ?thesis
      using inv closing_checkpoint [OF conjunct1 [OF inv] cp] key unfolding kb by auto
  qed
qed

lemma close_accumulators:
  assumes run: "foldR (close_accumulator V i) (tw_accumulators s0) s0 = Inr s" and ok: "state_ok i s0" and V: "viem_addresses V"
  shows "closing i s0 s" and "set (keys_of (tw_accumulators s)) = set (keys_of (tw_accumulators s0))"
    and "k \<in> set (keys_of (tw_accumulators s)) \<Longrightarrow> last_of i s k = ti_windowEnd i"
proof -
  define K where "K = set (keys_of (tw_accumulators s0))"
  have "closing i s0 s \<and> set (keys_of (tw_accumulators s)) = K
      \<and> (\<forall>(k, a)\<in>set (tw_accumulators s0). last_of i s k = ti_windowEnd i)"
    using run
  proof (rule foldR_invariant)
    show "closing i s0 s0 \<and> set (keys_of (tw_accumulators s0)) = K
      \<and> (\<forall>(k, a)\<in>set ([] :: (string \<times> account_accumulator) list). last_of i s0 k = ti_windowEnd i)"
      using ok by (simp add: closing_def K_def)
  next
    fix pre ka post s t
    assume split: "tw_accumulators s0 = pre @ ka # post"
      and inv: "closing i s0 s \<and> set (keys_of (tw_accumulators s)) = K
        \<and> (\<forall>(k, a)\<in>set pre. last_of i s k = ti_windowEnd i)"
      and step: "close_accumulator V i ka s = Inr t"
    obtain k a where ka: "ka = (k, a)" by (cases ka)
    have mem: "(k, a) \<in> set (tw_accumulators s0)"
      using split ka by simp
    then have found: "map_of (tw_accumulators s0) k = Some a"
      using ok by (simp add: state_ok_def)
    have "k \<in> set (keys_of (tw_accumulators s0))"
      using mem by force
    then have key: "holder_key k" "lower (getAddress V k) = k"
      using ok holder_getAddress [OF V] by (simp_all add: state_ok_def)
    show "closing i s0 t \<and> set (keys_of (tw_accumulators t)) = K
      \<and> (\<forall>(k, a)\<in>set (pre @ [ka]). last_of i t k = ti_windowEnd i)"
    proof (cases "aa_lastTimestamp a < ti_windowEnd i")
      case True
      then have cp: "checkpoint i (getAddress V k) (ti_windowEnd i) s = Inr t"
        using step unfolding ka close_accumulator_def by simp
      note eff = closing_checkpoint [OF conjunct1 [OF inv] cp]
      have "last_of i t = (last_of i s)(k := ti_windowEnd i)"
        using checkpoint_effect(4) [OF cp] inv key by (simp add: closing_def)
      moreover have "k \<in> K"
        using mem unfolding K_def by force
      ultimately show ?thesis
        using inv eff key unfolding ka by (auto simp: insert_absorb)
    next
      case False
      then have "t = s"
        using step unfolding ka close_accumulator_def by simp
      moreover have "last_of i s0 k = ti_windowEnd i"
        using found False ok unfolding state_ok_def last_of_def by (auto simp: not_less intro: order.antisym)
      moreover have "last_of i s k = last_of i s0 k \<or> last_of i s k = ti_windowEnd i"
        using inv by (simp add: closing_def)
      ultimately show ?thesis
        using inv unfolding ka by auto
    qed
  qed
  note all = this
  show "closing i s0 s" "set (keys_of (tw_accumulators s)) = set (keys_of (tw_accumulators s0))"
    using all unfolding K_def by blast+
  show "last_of i s k = ti_windowEnd i" if k: "k \<in> set (keys_of (tw_accumulators s))"
  proof -
    obtain a where "(k, a) \<in> set (tw_accumulators s0)"
      using k all unfolding K_def by auto
    then show ?thesis using all by auto
  qed
qed

text \<open>The holders that share in the epoch.\<close>

definition eligible :: "treasury_input \<Rightarrow> string \<Rightarrow> bool" where
  "eligible i k \<longleftrightarrow> holder_key k \<and> k \<notin> lower ` set (ti_excludedAccounts i) \<and> 0 < twab_of i (ti_transfers i) k"

lemma weighted_accounts_spec:
  assumes run: "weighted_accounts V i = Inr ws" and V: "viem_addresses V" and window: "ti_windowStart i \<le> ti_windowEnd i"
  shows "set ws = (\<lambda>k. (getAddress V k, twab_of i (ti_transfers i) k)) ` {k. eligible i k}"
    and "distinct (map (\<lambda>w. parse_hex (fst w)) ws)"
    and "sorted_wrt (\<lambda>v w. parse_hex (fst v) < parse_hex (fst w)) ws"
proof -
  obtain excluded obs s1 s2 s3 where e: "normalizeAddresses V (ti_excludedAccounts i) = Inr excluded"
    and n: "normalizeObservations V (ti_transfers i) = Inr obs"
    and r1: "foldR (observe V i) obs \<lparr>tw_balances = [], tw_accumulators = []\<rparr> = Inr s1"
    and r2: "foldR (close_balance V i) (tw_balances s1) s1 = Inr s2"
    and r3: "foldR (close_accumulator V i) (tw_accumulators s2) s2 = Inr s3"
    and ws: "ws = js_sort compareWeighted (map (\<lambda>(account, a). (getAddress V account, aa_weightedBalance a))
       (filter (\<lambda>(account, a). 0 < aa_weightedBalance a \<and> account \<notin> set (map lower excluded)) (tw_accumulators s3)))"
    using run unfolding weighted_accounts_def Let_def bindR_eq_Inr sum.inject by blast
  note norm = normalizeObservations_sound [OF n V]
  have inv: "history_inv i obs s1"
    by (rule observe_history [OF r1 norm(1,2) window])
  then have ok1: "state_ok i s1" by (simp add: history_inv_def)
  note c2 = close_balances [OF r2 ok1 V]
  then have ok2: "state_ok i s2" by (simp add: closing_def)
  note c3 = close_accumulators [OF r3 ok2 V]
  have ok3: "state_ok i s3" using c3(1) by (simp add: closing_def)
  have weight: "weight_at_end i s3 k = twab_of i (ti_transfers i) k" if "holder_key k" for k
    using that c2 c3(1) inv twab_of_movements [OF norm(3)] by (simp add: closing_def history_inv_def)
  have acc: "aa_weightedBalance a = twab_of i (ti_transfers i) k \<and> holder_key k" if "(k, a) \<in> set (tw_accumulators s3)" for k a
  proof -
    have k: "k \<in> set (keys_of (tw_accumulators s3))"
      using that by force
    then have "map_of (tw_accumulators s3) k = Some a" "holder_key k"
      using that ok3 by (simp_all add: state_ok_def)
    then show ?thesis
      using k c3(3) [of k] weight [of k] by (simp add: weight_at_end_def)
  qed
  have present: "\<exists>a. (k, a) \<in> set (tw_accumulators s3)" if k: "eligible i k" for k
  proof (rule ccontr)
    assume "\<not> ?thesis"
    then have out: "k \<notin> set (keys_of (tw_accumulators s3))"
      by auto
    then have "k \<notin> set (keys_of (tw_accumulators s2))"
      using c3(2) by simp
    then have "balance_of (tw_balances s3) k = 0"
      using c2 c3(1) by (auto simp: closing_def balance_of_def split: option.split dest!: map_of_SomeD)
    moreover have "map_of (tw_accumulators s3) k = None"
      using out by (simp add: map_of_eq_None_iff)
    ultimately have "weight_at_end i s3 k = 0"
      by (simp add: weight_at_end_def)
    with k weight show False by (simp add: eligible_def)
  qed
  have exclusions: "set (map lower excluded) = lower ` set (ti_excludedAccounts i)"
    by (rule normalizeAddresses_keys [OF e V])
  show "set ws = (\<lambda>k. (getAddress V k, twab_of i (ti_transfers i) k)) ` {k. eligible i k}"
  proof (intro subset_antisym subsetI)
    fix w
    assume "w \<in> set ws"
    then obtain k a where w: "w = (getAddress V k, aa_weightedBalance a)" "(k, a) \<in> set (tw_accumulators s3)"
        "0 < aa_weightedBalance a" "k \<notin> set (map lower excluded)"
      unfolding ws set_js_sort by auto
    then have "eligible i k"
      using acc [OF w(2)] unfolding exclusions eligible_def by simp
    then show "w \<in> (\<lambda>k. (getAddress V k, twab_of i (ti_transfers i) k)) ` {k. eligible i k}"
      using acc [OF w(2)] w(1) by auto
  next
    fix w
    assume "w \<in> (\<lambda>k. (getAddress V k, twab_of i (ti_transfers i) k)) ` {k. eligible i k}"
    then obtain k where k: "eligible i k" "w = (getAddress V k, twab_of i (ti_transfers i) k)"
      by blast
    then obtain a where a: "(k, a) \<in> set (tw_accumulators s3)"
      using present by blast
    then have "(k, a) \<in> set (filter (\<lambda>(account, a). 0 < aa_weightedBalance a \<and> account \<notin> set (map lower excluded)) (tw_accumulators s3))"
      using acc [OF a] k(1) unfolding exclusions eligible_def by simp
    then have "(\<lambda>(account, a). (getAddress V account, aa_weightedBalance a)) (k, a) \<in> set ws"
      unfolding ws set_js_sort set_map by (rule imageI)
    then show "w \<in> set ws"
      using acc [OF a] k(2) by simp
  qed
  have keys: "distinct (keys_of (tw_accumulators s3))" "\<forall>k\<in>set (keys_of (tw_accumulators s3)). is_lower_hex 40 k"
    using ok3 by (auto simp: state_ok_def holder_key_def)
  have "inj_on (\<lambda>k. parse_hex (getAddress V k)) (set (keys_of (tw_accumulators s3)))"
  proof (rule inj_onI)
    fix k k'
    assume "k \<in> set (keys_of (tw_accumulators s3))" "k' \<in> set (keys_of (tw_accumulators s3))"
    then have hex: "is_lower_hex 40 k" "is_lower_hex 40 k'"
      using keys(2) by blast+
    assume "parse_hex (getAddress V k) = parse_hex (getAddress V k')"
    then show "k = k'"
      unfolding parse_hex_getAddress [OF V hex(1)] parse_hex_getAddress [OF V hex(2)] by (rule parse_hex_inj [OF hex])
  qed
  then have all: "distinct (map (\<lambda>p. parse_hex (getAddress V (fst p))) (tw_accumulators s3))"
    using comp_inj_on [of fst "set (tw_accumulators s3)" "\<lambda>k. parse_hex (getAddress V k)"] keys(1) by (simp add: distinct_map comp_def)
  have part: "distinct (map (\<lambda>p. parse_hex (getAddress V (fst p))) (filter P (tw_accumulators s3)))" for P
    using all by (simp add: distinct_map_filter)
  have unsorted: "distinct (map (\<lambda>w. parse_hex (fst w)) (map (\<lambda>(account, a). (getAddress V account, aa_weightedBalance a)) (filter P (tw_accumulators s3))))" for P
    using part [of P] by (simp add: comp_def case_prod_beta)
  show "distinct (map (\<lambda>w. parse_hex (fst w)) ws)"
    unfolding ws distinct_map_js_sort by (rule unsorted)
  show "sorted_wrt (\<lambda>v w. parse_hex (fst v) < parse_hex (fst w)) ws"
    unfolding ws by (rule weights.strictly_sorted [OF unsorted])
qed

section \<open>The published root\<close>

lemma total_twab_eq: "total_twab ws = Inr T \<Longrightarrow> T = (\<Sum>w\<leftarrow>ws. snd w)"
proof -
  have "foldR (\<lambda>w sum. if MAX_UINT256 < sum + snd w then Inl (Error e) else Inr (sum + snd w)) ws a = Inr T
    \<Longrightarrow> T = a + (\<Sum>w\<leftarrow>ws. snd w)" for e a
  proof (induction ws arbitrary: a)
    case (Cons w ws)
    then have "foldR (\<lambda>w sum. if MAX_UINT256 < sum + snd w then Inl (Error e) else Inr (sum + snd w)) ws (a + snd w) = Inr T"
      by (simp split: if_splits)
    from Cons.IH [OF this] show ?case by simp
  qed simp
  from this [of _ 0] show "total_twab ws = Inr T \<Longrightarrow> ?thesis"
    unfolding total_twab_def by simp
qed

lemma validateInput_window: "validateInput V i = Inr u \<Longrightarrow> ti_windowStart i \<le> ti_windowEnd i \<and> 0 < ti_quoteAmount i"
  unfolding validateInput_def if_Inl_eq_Inr bad_window_def bad_source_def by (simp add: not_less not_le)

text \<open>The leaves, in terms of the drafts that received something.\<close>

definition funded :: "allocation_draft list \<Rightarrow> allocation_draft list" where
  "funded ds = js_sort compareDrafts (filter (\<lambda>d. 0 < ad_amount d) ds)"

lemma publish_shape:
  assumes "publish V i T ds = Inr out"
  obtains tree leaves where "leaves = map (leaf_of V (context_of V i)) (enumerate 0 (funded ds))"
    "buildMerkleTree V (map tl_leaf leaves) = Inr tree" "tr_merkleRoot out = mt_root tree" "tr_leaves out = attach_proofs tree leaves"
    "tr_totalTwab out = T" "tr_totalAllocated out = ti_quoteAmount i" "tr_context out = context_of V i"
    "(\<Sum>l\<leftarrow>tr_leaves out. tl_amount l) = ti_quoteAmount i"
  using assms unfolding publish_def Let_def funded_def [symmetric] if_Inl_eq_Inr bindR_eq_Inr by auto

lemma generateTreasuryRoot_shape:
  assumes "generateTreasuryRoot V i = Inr out"
  obtains (empty) "validateInput V i = Inr ()" "weighted_accounts V i = Inr []" "empty_epoch V i = Inr out"
  | (funded) ws ds where "validateInput V i = Inr ()" "weighted_accounts V i = Inr ws" "ws \<noteq> []"
      "total_twab ws = Inr (\<Sum>w\<leftarrow>ws. snd w)" "allocate (ti_quoteAmount i) (\<Sum>w\<leftarrow>ws. snd w) ws = Inr ds"
      "publish V i (\<Sum>w\<leftarrow>ws. snd w) ds = Inr out"
proof -
  obtain ws where v: "validateInput V i = Inr ()" and w: "weighted_accounts V i = Inr ws"
    and rest: "(if ws = [] then empty_epoch V i else bindR (total_twab ws) (\<lambda>totalTwab.
        bindR (allocate (ti_quoteAmount i) totalTwab ws) (publish V i totalTwab))) = Inr out"
    using assms unfolding generateTreasuryRoot_def bindR_eq_Inr by auto
  show thesis
  proof (cases "ws = []")
    case False
    with rest obtain T ds where "total_twab ws = Inr T" "allocate (ti_quoteAmount i) T ws = Inr ds" "publish V i T ds = Inr out"
      by (auto simp: bindR_eq_Inr)
    then show thesis
      using funded [OF v w False] total_twab_eq by blast
  qed (use empty v w rest in simp)
qed

lemma attach_proofs_nth:
  "n < length leaves \<Longrightarrow> length (mt_proofs tree) = length leaves \<Longrightarrow>
   attach_proofs tree leaves ! n = (leaves ! n)\<lparr>tl_proof := mt_proofs tree ! n\<rparr>"
  by (simp add: attach_proofs_def nth_enumerate_eq)

lemma map_attach_proofs: "(\<And>l p. f (l\<lparr>tl_proof := p\<rparr>) = f l) \<Longrightarrow> map f (attach_proofs tree leaves) = map f leaves"
  by (rule nth_equalityI) (simp_all add: attach_proofs_def nth_enumerate_eq)

lemma length_attach_proofs [simp]: "length (attach_proofs tree leaves) = length leaves"
  by (simp add: attach_proofs_def)

lemma leaf_of_simps [simp]:
  "tl_account (leaf_of V c (n, d)) = ad_account d" "tl_twab (leaf_of V c (n, d)) = ad_twab d" "tl_amount (leaf_of V c (n, d)) = ad_amount d"
  "tl_index (leaf_of V c (n, d)) = n" "tl_leaf (leaf_of V c (n, d)) = hashTreasuryLeaf V c (int n) (ad_account d) (ad_twab d) (ad_amount d)"
  by (simp_all add: leaf_of_def)

lemma map_leaves:
  "(\<And>n d. f (leaf_of V c (n, d)) = g d) \<Longrightarrow> (\<And>l p. f (l\<lparr>tl_proof := p\<rparr>) = f l) \<Longrightarrow>
   map f (attach_proofs tree (map (leaf_of V c) (enumerate 0 ds))) = map g ds"
  by (subst map_attach_proofs) (auto intro!: nth_equalityI simp: nth_enumerate_eq)

text \<open>C30: In a published root the leaves are numbered from zero, their accounts are strictly increasing as
  numbers, every leaf is the hash of its number, account, weight and amount in the context of the epoch, and
  every leaf's proof verifies against the Merkle root.\<close>

theorem treasury_proofs_verify:
  assumes "generateTreasuryRoot V i = Inr out" and "viem_hashes V" and "viem_addresses V" and "n < length (tr_leaves out)"
  shows "tl_index (tr_leaves out ! n) = n
    \<and> tl_leaf (tr_leaves out ! n) = hashTreasuryLeaf V (tr_context out) (int n) (tl_account (tr_leaves out ! n))
        (tl_twab (tr_leaves out ! n)) (tl_amount (tr_leaves out ! n))
    \<and> verifyMerkleProof V (tl_leaf (tr_leaves out ! n)) (tl_proof (tr_leaves out ! n)) (tr_merkleRoot out)
    \<and> (\<forall>m < n. parse_hex (tl_account (tr_leaves out ! m)) < parse_hex (tl_account (tr_leaves out ! n)))"
  using assms(1)
proof (cases rule: generateTreasuryRoot_shape)
  case empty
  then show ?thesis using assms(4) by (auto simp: empty_epoch_def split: if_splits)
next
  case (funded ws ds)
  from \<open>publish V i (\<Sum>w\<leftarrow>ws. snd w) ds = Inr out\<close> obtain tree leaves where
    leaves: "leaves = map (leaf_of V (context_of V i)) (enumerate 0 (funded ds))"
    and tree: "buildMerkleTree V (map tl_leaf leaves) = Inr tree" and out: "tr_merkleRoot out = mt_root tree"
      "tr_leaves out = attach_proofs tree leaves" "tr_context out = context_of V i"
    by (rule publish_shape)
  have len: "n < length leaves" "length leaves = length (funded ds)"
    using assms(4) by (simp_all add: out leaves)
  have "nodes (map tl_leaf leaves)"
    using assms(2) by (auto simp: leaves list_all_iff hashTreasuryLeaf_def Let_def viem_hashes_def leaf_of_def)
  then obtain tree' where t: "buildMerkleTree V (map tl_leaf leaves) = Inr tree'" "length (mt_proofs tree') = length (map tl_leaf leaves)"
    "\<And>j. j < length (map tl_leaf leaves) \<Longrightarrow> verifyMerkleProof V (map tl_leaf leaves ! j) (mt_proofs tree' ! j) (mt_root tree')"
    using buildMerkleTree_verifies [OF assms(2)] len by (metis length_0_conv length_map not_less_zero)
  have tree': "tree' = tree" using t(1) tree by simp
  have proofs: "length (mt_proofs tree) = length leaves"
    using t(2) tree' by simp
  have nth: "tr_leaves out ! m = (leaf_of V (context_of V i) (m, funded ds ! m))\<lparr>tl_proof := mt_proofs tree ! m\<rparr>" if "m \<le> n" for m
    unfolding out(2) using that len attach_proofs_nth [OF _ proofs, of m] by (simp add: leaves nth_enumerate_eq)
  have "viem_addresses V" "ti_windowStart i \<le> ti_windowEnd i"
    using assms(3) validateInput_window funded(1) by blast+
  note spec = weighted_accounts_spec [OF funded(2) this]
  have pos: "0 < ti_quoteAmount i" "\<And>w. w \<in> set ws \<Longrightarrow> 0 < snd w"
    using validateInput_window [OF funded(1)] spec(1) by (auto simp: eligible_def)
  obtain ds' where "allocate (ti_quoteAmount i) (\<Sum>w\<leftarrow>ws. snd w) ws = Inr ds'" "map ad_account ds' = map fst ws"
    using allocate_fair [OF funded(3) spec(2) pos(2) pos(1) refl] by blast
  then have accounts: "map ad_account ds = map fst ws"
    using funded(5) by simp
  have "map (\<lambda>d. parse_hex (ad_account d)) ds = map parse_hex (map fst ws)"
    unfolding accounts [symmetric] by simp
  then have "distinct (map (\<lambda>d. parse_hex (ad_account d)) ds)"
    using spec(2) by (simp add: comp_def)
  then have "sorted_wrt (\<lambda>x y. parse_hex (ad_account x) < parse_hex (ad_account y)) (funded ds)"
    unfolding funded_def by (intro drafts.strictly_sorted) (simp add: distinct_map_filter)
  then have "\<forall>m < n. parse_hex (ad_account (funded ds ! m)) < parse_hex (ad_account (funded ds ! n))"
    using len by (auto simp: sorted_wrt_iff_nth_less)
  moreover have "tl_account (tr_leaves out ! m) = ad_account (funded ds ! m)" if "m \<le> n" for m
    by (simp add: nth [OF that])
  moreover have "verifyMerkleProof V (tl_leaf (leaves ! n)) (mt_proofs tree ! n) (mt_root tree)"
    using t(3) [of n] len by (simp add: tree')
  moreover have "tl_leaf (leaves ! n) = tl_leaf (tr_leaves out ! n)"
    using len by (simp add: nth [OF order.refl] leaves nth_enumerate_eq)
  ultimately show ?thesis
    by (simp add: nth [OF order.refl] out(1,3))
qed

lemma allocation_of_root:
  assumes valid: "validateInput V i = Inr ()" and w: "weighted_accounts V i = Inr ws" and "ws \<noteq> []" and V: "viem_addresses V"
  obtains ds where "allocate (ti_quoteAmount i) (\<Sum>w\<leftarrow>ws. snd w) ws = Inr ds" "map ad_account ds = map fst ws"
    "map ad_twab ds = map snd ws" "fair_split (ti_quoteAmount i) (\<Sum>w\<leftarrow>ws. snd w) ds"
    "distinct (map (\<lambda>d. parse_hex (ad_account d)) ds)"
proof -
  note window = validateInput_window [OF valid]
  note spec = weighted_accounts_spec [OF w V conjunct1 [OF window]]
  have "\<And>w. w \<in> set ws \<Longrightarrow> 0 < snd w"
    using spec(1) by (auto simp: eligible_def)
  from allocate_fair [OF assms(3) spec(2) this conjunct2 [OF window] refl]
  obtain ds where ds: "allocate (ti_quoteAmount i) (\<Sum>w\<leftarrow>ws. snd w) ws = Inr ds" "map ad_account ds = map fst ws"
    "map ad_twab ds = map snd ws" "fair_split (ti_quoteAmount i) (\<Sum>w\<leftarrow>ws. snd w) ds" by blast
  have "map (\<lambda>d. parse_hex (ad_account d)) ds = map parse_hex (map fst ws)"
    unfolding ds(2) [symmetric] by simp
  then have "distinct (map (\<lambda>d. parse_hex (ad_account d)) ds)"
    using spec(2) by (simp add: comp_def)
  then show ?thesis using that ds by blast
qed

lemma sum_funded: "(\<And>d. d \<in> set ds \<Longrightarrow> 0 \<le> ad_amount d) \<Longrightarrow> (\<Sum>d\<leftarrow>funded ds. ad_amount d) = (\<Sum>d\<leftarrow>ds. ad_amount d)"
  unfolding funded_def sum_list_mset_eq [OF mset_js_sort] by (rule sum_list_filter_positive)

lemma floor_nonneg: "0 \<le> (q::int) \<Longrightarrow> 0 \<le> x \<Longrightarrow> 0 < T \<Longrightarrow> 0 \<le> q * x div T"
  by (simp add: pos_imp_zdiv_nonneg_iff)

lemma fair_split_nonneg:
  assumes "fair_split q T ds" and "0 \<le> q" and "0 < T" and "\<And>d. d \<in> set ds \<Longrightarrow> 0 \<le> ad_twab d" and "d \<in> set ds"
  shows "0 \<le> ad_amount d"
  using assms floor_nonneg [of q "ad_twab d" T] by (force simp: fair_split_def)

definition leaves_split :: "int \<Rightarrow> int \<Rightarrow> treasury_leaf list \<Rightarrow> bool" where
  "leaves_split q T leaves \<longleftrightarrow> (\<Sum>l\<leftarrow>leaves. tl_amount l) = q
     \<and> (\<forall>l\<in>set leaves. 0 < tl_amount l \<and> tl_amount l - q * tl_twab l div T \<in> {0, 1})
     \<and> (\<forall>l\<in>set leaves. \<forall>m\<in>set leaves. tl_twab l < tl_twab m \<longrightarrow> tl_amount l \<le> tl_amount m)"

lemma leaves_split_of_drafts:
  assumes fair: "fair_split q T ds" and sum: "(\<Sum>d\<leftarrow>funded ds. ad_amount d) = q"
    and leaves: "map (\<lambda>l. (tl_amount l, tl_twab l)) leaves = map (\<lambda>d. (ad_amount d, ad_twab d)) (funded ds)"
  shows "leaves_split q T leaves"
proof -
  have leaf: "\<exists>d\<in>set ds. 0 < ad_amount d \<and> tl_amount l = ad_amount d \<and> tl_twab l = ad_twab d" if "l \<in> set leaves" for l
  proof -
    have "(tl_amount l, tl_twab l) \<in> set (map (\<lambda>d. (ad_amount d, ad_twab d)) (funded ds))"
      unfolding leaves [symmetric] using that by simp
    then show ?thesis by (auto simp: funded_def)
  qed
  have "map fst (map (\<lambda>l. (tl_amount l, tl_twab l)) leaves) = map fst (map (\<lambda>d. (ad_amount d, ad_twab d)) (funded ds))"
    by (simp only: leaves)
  then have "(\<Sum>l\<leftarrow>leaves. tl_amount l) = q"
    using sum by (simp add: comp_def)
  moreover have "\<forall>l\<in>set leaves. 0 < tl_amount l \<and> tl_amount l - q * tl_twab l div T \<in> {0, 1}"
    using leaf fair unfolding fair_split_def by fastforce
  moreover have "\<forall>l\<in>set leaves. \<forall>m\<in>set leaves. tl_twab l < tl_twab m \<longrightarrow> tl_amount l \<le> tl_amount m"
    using leaf fair unfolding fair_split_def by metis
  ultimately show ?thesis by (simp add: leaves_split_def)
qed

lemma publish_returns:
  assumes V: "viem_hashes V" and q: "0 < ti_quoteAmount i" and fair: "fair_split (ti_quoteAmount i) T ds" and "0 < T"
    and twab: "\<And>d. d \<in> set ds \<Longrightarrow> 0 \<le> ad_twab d" and few: "length ds \<le> 4294967295"
  obtains out where "publish V i T ds = Inr out" "tr_totalTwab out = T" "tr_totalAllocated out = ti_quoteAmount i"
    "leaves_split (ti_quoteAmount i) T (tr_leaves out)"
proof -
  have sum: "(\<Sum>d\<leftarrow>funded ds. ad_amount d) = ti_quoteAmount i"
    using sum_funded [of ds] fair_split_nonneg [OF fair _ assms(4) twab] fair q by (auto simp: fair_split_def)
  define leaves where "leaves = map (leaf_of V (context_of V i)) (enumerate 0 (funded ds))"
  have hashes: "nodes (map tl_leaf leaves)"
    using V by (auto simp: leaves_def list_all_iff hashTreasuryLeaf_def Let_def viem_hashes_def leaf_of_def)
  have "funded ds \<noteq> []"
    using sum q by auto
  then have nonempty: "map tl_leaf leaves \<noteq> []"
    by (cases "funded ds") (simp_all add: leaves_def)
  obtain tree where tree: "buildMerkleTree V (map tl_leaf leaves) = Inr tree"
    using buildMerkleTree_verifies [OF V hashes nonempty] by blast
  define out where "out = \<lparr>tr_context = context_of V i, tr_sourceBlockTimestamp = ti_sourceBlockTimestamp i, tr_merkleRoot = mt_root tree,
       tr_datasetHash = hashDataset V (context_of V i) (ti_sourceBlockTimestamp i) (ti_quoteAmount i) T (attach_proofs tree leaves),
       tr_leafCount = length (attach_proofs tree leaves), tr_totalTwab = T, tr_totalAllocated = ti_quoteAmount i, tr_leaves = attach_proofs tree leaves\<rparr>"
  have amounts: "map tl_amount (attach_proofs tree leaves) = map ad_amount (funded ds)"
    "map (\<lambda>l. (tl_amount l, tl_twab l)) (attach_proofs tree leaves) = map (\<lambda>d. (ad_amount d, ad_twab d)) (funded ds)"
    unfolding leaves_def by (rule map_leaves; simp)+
  have "length (filter (\<lambda>d. 0 < ad_amount d) ds) \<le> 4294967295"
    using few length_filter_le [of _ ds] by (rule order.trans [rotated])
  then have "publish V i T ds = Inr out"
    using amounts(1) sum unfolding publish_def Let_def funded_def [symmetric] leaves_def [symmetric] tree
    by (simp add: out_def)
  then show ?thesis
    by (rule that) (simp_all add: out_def leaves_split_of_drafts [OF fair sum amounts(2)])
qed

text \<open>C31: A root is published for every valid request whose history is sound and has an eligible holder, with
  a total weight that fits a word and fewer than \<open>2 ^ 32\<close> holders: none of the internal checks on the
  split fires. Its leaves share out exactly the quote amount: their amounts are positive and add up to it,
  each is the holder's exact share rounded down or that plus one unit, and a holder with more weight never
  gets less.\<close>

theorem treasury_split_exact:
  assumes "viem_addresses V" and "viem_hashes V" and "validateInput V i = Inr ()"
    and "weighted_accounts V i = Inr ws" and "ws \<noteq> []" and "total_twab ws = Inr T" and "length ws \<le> 4294967295"
  shows "\<exists>out. generateTreasuryRoot V i = Inr out \<and> tr_totalTwab out = T
      \<and> (\<Sum>l\<leftarrow>tr_leaves out. tl_amount l) = ti_quoteAmount i \<and> tr_totalAllocated out = ti_quoteAmount i
      \<and> (\<forall>l\<in>set (tr_leaves out). 0 < tl_amount l \<and> tl_amount l - ti_quoteAmount i * tl_twab l div T \<in> {0, 1})
      \<and> (\<forall>l\<in>set (tr_leaves out). \<forall>m\<in>set (tr_leaves out). tl_twab l < tl_twab m \<longrightarrow> tl_amount l \<le> tl_amount m)"
proof -
  obtain ds where ds: "allocate (ti_quoteAmount i) (\<Sum>w\<leftarrow>ws. snd w) ws = Inr ds" "map ad_account ds = map fst ws"
    "map ad_twab ds = map snd ws" "fair_split (ti_quoteAmount i) (\<Sum>w\<leftarrow>ws. snd w) ds"
    by (rule allocation_of_root [OF assms(3,4,5,1)])
  have T: "T = (\<Sum>w\<leftarrow>ws. snd w)"
    using assms(6) by (rule total_twab_eq)
  note window = validateInput_window [OF assms(3)]
  have weights: "\<And>w. w \<in> set ws \<Longrightarrow> 0 < snd w"
    using weighted_accounts_spec(1) [OF assms(4,1) conjunct1 [OF window]] by (auto simp: eligible_def)
  have twab: "0 \<le> ad_twab d" if "d \<in> set ds" for d
  proof -
    have "ad_twab d \<in> set (map snd ws)"
      using that unfolding ds(3) [symmetric] by simp
    then show ?thesis using weights by force
  qed
  have few: "length ds \<le> 4294967295"
    using assms(7) ds(2) by (metis length_map)
  obtain out where "publish V i T ds = Inr out" "tr_totalTwab out = T" "tr_totalAllocated out = ti_quoteAmount i"
    "leaves_split (ti_quoteAmount i) T (tr_leaves out)"
    by (rule publish_returns [OF assms(2) conjunct2 [OF window] ds(4) [folded T] rounding_units(1) [OF assms(5) weights T] twab few])
  moreover from this have "generateTreasuryRoot V i = Inr out"
    using assms(3-6) ds(1) by (simp add: generateTreasuryRoot_def T)
  ultimately show ?thesis
    unfolding leaves_split_def by blast
qed

text \<open>The accounts and weights of a published root are those of the eligible holders.\<close>

lemma leaves_of_drafts:
  assumes "publish V i T ds = Inr out"
  shows "map (\<lambda>l. (tl_account l, tl_twab l, tl_amount l)) (tr_leaves out) = map (\<lambda>d. (ad_account d, ad_twab d, ad_amount d)) (funded ds)"
proof -
  obtain tree leaves where "leaves = map (leaf_of V (context_of V i)) (enumerate 0 (funded ds))" "tr_leaves out = attach_proofs tree leaves"
    by (rule publish_shape [OF assms])
  then show ?thesis
    by (simp only:) (rule map_leaves; simp)
qed

lemma eligible_finite:
  assumes w: "weighted_accounts V i = Inr ws" and V: "viem_addresses V" and window: "ti_windowStart i \<le> ti_windowEnd i"
  shows "(\<Sum>w\<leftarrow>ws. snd w) = (\<Sum>k\<in>{k. eligible i k}. twab_of i (ti_transfers i) k)"
proof -
  note spec = weighted_accounts_spec [OF w V window]
  have dist: "distinct ws"
    using spec(2) by (simp add: distinct_map)
  have "inj_on (\<lambda>k. (getAddress V k, twab_of i (ti_transfers i) k)) {k. eligible i k}"
    using holder_getAddress [OF V] by (auto intro!: inj_onI simp: eligible_def) (metis)
  then have "(\<Sum>w\<in>set ws. snd w) = (\<Sum>k\<in>{k. eligible i k}. twab_of i (ti_transfers i) k)"
    unfolding spec(1) by (simp add: sum.reindex)
  then show ?thesis
    using dist by (simp add: sum.distinct_set_conv_list)
qed

lemma map_pairs: "map f ds = map fst ws \<Longrightarrow> map g ds = map snd ws \<Longrightarrow> map (\<lambda>d. (f d, g d)) ds = ws"
proof -
  assume eq: "map f ds = map fst ws" "map g ds = map snd ws"
  have "map (\<lambda>d. (f d, g d)) ds = zip (map f ds) (map g ds)"
    by (induction ds) auto
  then show ?thesis by (simp add: eq zip_map_fst_snd)
qed

text \<open>C32: A published root weighs every holder by its time-weighted balance: the account of a leaf is an
  eligible holder (not excluded, not the zero address) and its weight is the sum, over the seconds of the
  window, of the balance its transfers gave it by then; the total weight is that of all eligible holders;
  and every eligible holder whose exact share is at least one unit has a leaf.\<close>

theorem treasury_weights:
  assumes "generateTreasuryRoot V i = Inr out" and "viem_addresses V"
  shows "(\<forall>l\<in>set (tr_leaves out). eligible i (lower (tl_account l)) \<and> tl_twab l = twab_of i (ti_transfers i) (lower (tl_account l)))
    \<and> tr_totalTwab out = (\<Sum>k\<in>{k. eligible i k}. twab_of i (ti_transfers i) k)
    \<and> (\<forall>k. eligible i k \<and> tr_totalTwab out \<le> ti_quoteAmount i * twab_of i (ti_transfers i) k
        \<longrightarrow> (\<exists>l\<in>set (tr_leaves out). lower (tl_account l) = k))"
  using assms(1)
proof (cases rule: generateTreasuryRoot_shape)
  case empty
  then have window: "ti_windowStart i \<le> ti_windowEnd i" and out: "tr_leaves out = []" "tr_totalTwab out = 0"
    using validateInput_window by (auto simp: empty_epoch_def split: if_splits)
  have "{k. eligible i k} = {}"
    using weighted_accounts_spec(1) [OF empty(2) assms(2) window] by auto
  then show ?thesis by (auto simp: out)
next
  case (funded ws ds)
  note window = validateInput_window [OF funded(1)]
  note spec = weighted_accounts_spec(1) [OF funded(2) assms(2) conjunct1 [OF window]]
  obtain ds' where "allocate (ti_quoteAmount i) (\<Sum>w\<leftarrow>ws. snd w) ws = Inr ds'" "map ad_account ds' = map fst ws"
    "map ad_twab ds' = map snd ws" "fair_split (ti_quoteAmount i) (\<Sum>w\<leftarrow>ws. snd w) ds'"
    by (rule allocation_of_root [OF funded(1-3) assms(2)])
  then have ds: "map ad_account ds = map fst ws" "map ad_twab ds = map snd ws" "fair_split (ti_quoteAmount i) (\<Sum>w\<leftarrow>ws. snd w) ds"
    using funded(5) by simp_all
  have "map (\<lambda>d. (ad_account d, ad_twab d)) ds = ws"
    by (rule map_pairs [OF ds(1,2)])
  then have pairs: "(\<lambda>d. (ad_account d, ad_twab d)) ` set ds = (\<lambda>k. (getAddress V k, twab_of i (ti_transfers i) k)) ` {k. eligible i k}"
    unfolding spec [symmetric] set_map [symmetric] by simp
  have total: "tr_totalTwab out = (\<Sum>w\<leftarrow>ws. snd w)"
    using publish_shape [OF funded(6)] by blast
  have leaves: "(\<lambda>l. (tl_account l, tl_twab l, tl_amount l)) ` set (tr_leaves out)
      = (\<lambda>d. (ad_account d, ad_twab d, ad_amount d)) ` {d\<in>set ds. 0 < ad_amount d}"
    using arg_cong [OF leaves_of_drafts [OF funded(6)], of set] by (simp add: funded_def)
  have "eligible i (lower (tl_account l)) \<and> tl_twab l = twab_of i (ti_transfers i) (lower (tl_account l))"
    if l: "l \<in> set (tr_leaves out)" for l
  proof -
    have "(tl_account l, tl_twab l, tl_amount l) \<in> (\<lambda>d. (ad_account d, ad_twab d, ad_amount d)) ` {d\<in>set ds. 0 < ad_amount d}"
      unfolding leaves [symmetric] using l by blast
    then obtain d where d: "d \<in> set ds" "tl_account l = ad_account d" "tl_twab l = ad_twab d"
      by auto
    have "(ad_account d, ad_twab d) \<in> (\<lambda>k. (getAddress V k, twab_of i (ti_transfers i) k)) ` {k. eligible i k}"
      unfolding pairs [symmetric] using d(1) by blast
    then obtain k where "eligible i k" "ad_account d = getAddress V k" "ad_twab d = twab_of i (ti_transfers i) k"
      by auto
    then show ?thesis
      using d holder_getAddress [OF assms(2)] by (simp add: eligible_def)
  qed
  moreover have "\<exists>l\<in>set (tr_leaves out). lower (tl_account l) = k"
    if k: "eligible i k" "tr_totalTwab out \<le> ti_quoteAmount i * twab_of i (ti_transfers i) k" for k
  proof -
    obtain d where d: "d \<in> set ds" "ad_account d = getAddress V k" "ad_twab d = twab_of i (ti_transfers i) k"
    proof -
      have "(getAddress V k, twab_of i (ti_transfers i) k) \<in> (\<lambda>d. (ad_account d, ad_twab d)) ` set ds"
        unfolding pairs using k(1) by blast
      then show thesis using that by auto
    qed
    have "0 < tr_totalTwab out"
      unfolding total by (rule rounding_units(1) [OF funded(3) _ refl]) (auto simp: spec eligible_def)
    then have "0 < ti_quoteAmount i * ad_twab d div tr_totalTwab out"
      using k(2) d(3) by (simp add: pos_imp_zdiv_pos_iff)
    moreover have "ad_amount d = ti_quoteAmount i * ad_twab d div tr_totalTwab out
        \<or> ad_amount d = ti_quoteAmount i * ad_twab d div tr_totalTwab out + 1"
      using ds(3) d(1) total by (simp add: fair_split_def)
    ultimately have "0 < ad_amount d" by linarith
    then have "(ad_account d, ad_twab d, ad_amount d) \<in> (\<lambda>l. (tl_account l, tl_twab l, tl_amount l)) ` set (tr_leaves out)"
      unfolding leaves using d(1) by blast
    then obtain l where "l \<in> set (tr_leaves out)" "tl_account l = ad_account d"
      by auto
    then have "lower (tl_account l) = k"
      using d(2) k(1) holder_getAddress [OF assms(2)] by (simp add: eligible_def)
    with \<open>l \<in> set (tr_leaves out)\<close> show ?thesis by blast
  qed
  ultimately show ?thesis
    using eligible_finite [OF funded(2) assms(2) conjunct1 [OF window]] total by auto
qed

text \<open>The order in which the transfers are handed over does not matter: any rearrangement of the history
  gives the same root, proofs and data set.\<close>

theorem treasury_order_irrelevant:
  assumes "generateTreasuryRoot V i = Inr out" and "mset ts = mset (ti_transfers i)"
  shows "generateTreasuryRoot V (i\<lparr>ti_transfers := ts\<rparr>) = Inr out"
proof -
  let ?j = "i\<lparr>ti_transfers := ts\<rparr>"
  have fields: "ti_windowStart ?j = ti_windowStart i" "ti_windowEnd ?j = ti_windowEnd i" "ti_sourceBlockNumber ?j = ti_sourceBlockNumber i"
    "ti_quoteAmount ?j = ti_quoteAmount i" "ti_sourceBlockTimestamp ?j = ti_sourceBlockTimestamp i"
    "ti_distributor ?j = ti_distributor i" "ti_memeToken ?j = ti_memeToken i" "ti_quoteToken ?j = ti_quoteToken i" "ti_epochId ?j = ti_epochId i"
    "ti_chainId ?j = ti_chainId i" "ti_marketId ?j = ti_marketId i" "ti_excludedAccounts ?j = ti_excludedAccounts i"
    "ti_eligibilityPolicyHash ?j = ti_eligibilityPolicyHash i" "ti_transfers ?j = ts"
    "ti_emptyEpochPolicy ?j = ti_emptyEpochPolicy i" "context_of V ?j = context_of V i"
    "bad_domain ?j = bad_domain i" "bad_window ?j = bad_window i" "bad_source ?j = bad_source i"
    by (simp_all add: context_of_def bad_domain_def bad_window_def bad_source_def)
  have "publish V ?j = publish V i" "empty_epoch V ?j = empty_epoch V i"
    unfolding fun_eq_iff publish_def empty_epoch_def fields by simp_all
  moreover have "checkpoint ?j = checkpoint i"
    unfolding fun_eq_iff checkpoint_def fields by simp
  moreover have "validateInput V ?j = validateInput V i"
    unfolding validateInput_def fields by simp
  ultimately have same: "validateInput V ?j = validateInput V i" "checkpoint ?j = checkpoint i" "empty_epoch V ?j = empty_epoch V i"
    "publish V ?j = publish V i"
    by blast+
  then have steps: "observe V ?j = observe V i" "close_balance V ?j = close_balance V i" "close_accumulator V ?j = close_accumulator V i"
    unfolding fun_eq_iff observe_def close_balance_def close_accumulator_def fields same by simp_all
  have "\<exists>ws. weighted_accounts V i = Inr ws"
    using assms(1) unfolding generateTreasuryRoot_def bindR_eq_Inr by blast
  then obtain ws where ws: "weighted_accounts V i = Inr ws" ..
  then obtain obs where obs: "normalizeObservations V (ti_transfers i) = Inr obs"
    unfolding weighted_accounts_def Let_def bindR_eq_Inr by blast
  have "normalizeObservations V ts = Inr obs"
    by (rule normalizeObservations_permute [OF obs assms(2) [symmetric]])
  then have "weighted_accounts V ?j = weighted_accounts V i"
    unfolding weighted_accounts_def steps fields obs by simp
  then show ?thesis
    using assms(1) unfolding generateTreasuryRoot_def same fields by simp
qed

section \<open>A sample epoch\<close>

text \<open>A stand-in for the library with the behaviour the proofs rely on, and an epoch with two holders.\<close>

definition sample_viem :: viem where
  "sample_viem = \<lparr>keccak256 = (\<lambda>_. hex_lit 64 CHR ''a''), stringToHex = (\<lambda>s. s), concatHex = concat,
     encodePolicy = (\<lambda>_ _ _ _. []), encodeLeaf = (\<lambda>_ _ _ _ _ _ _. []), getAddress = lower, isAddress = is_hex 40\<rparr>"

definition sample_epoch :: treasury_input where
  "sample_epoch = \<lparr>ti_emptyEpochPolicy = None, ti_chainId = 4663, ti_distributor = hex_lit 40 CHR ''3'', ti_marketId = hex_lit 64 CHR ''b'',
     ti_memeToken = hex_lit 40 CHR ''4'', ti_quoteToken = hex_lit 40 CHR ''5'', ti_eligibilityPolicyHash = hex_lit 64 CHR ''a'',
     ti_excludedAccounts = [], ti_epochId = 1, ti_windowStart = 1000000, ti_windowEnd = 1604800, ti_sourceBlockNumber = 9,
     ti_sourceBlockHash = hex_lit 64 CHR ''c'', ti_sourceBlockTimestamp = 1604900, ti_quoteAmount = 101,
     ti_transfers = [\<lparr>to_blockNumber = 1, to_transactionIndex = 0, to_logIndex = 0, to_timestamp = 500000,
         to_from = hex_lit 40 CHR ''0'', to_to = hex_lit 40 CHR ''1'', to_value = 1000\<rparr>,
       \<lparr>to_blockNumber = 2, to_transactionIndex = 0, to_logIndex = 0, to_timestamp = 1302400,
         to_from = hex_lit 40 CHR ''1'', to_to = hex_lit 40 CHR ''2'', to_value = 400\<rparr>]\<rparr>"

lemma sample_viem_ok: "viem_hashes sample_viem" "viem_addresses sample_viem"
proof -
  show "viem_hashes sample_viem"
    by (simp add: viem_hashes_def sample_viem_def is_lower_hex_def hex_lit_def is_lower_hex_digit_def code_of_def list_all_iff)
  show "viem_addresses sample_viem"
    using is_lower_hex_is_hex is_hex_lower by (auto simp: viem_addresses_def sample_viem_def)
qed

lemma parse_hex_lit_less:
  assumes "hex_val c < hex_val d" and "0 < n"
  shows "parse_hex (hex_lit n c) < parse_hex (hex_lit n d)"
proof -
  have "foldl (\<lambda>acc c. 16 * acc + hex_val c) a (replicate (Suc m) c) < foldl (\<lambda>acc c. 16 * acc + hex_val c) b (replicate (Suc m) d)"
    if "a \<le> b" for a b m
    using that
  proof (induction m arbitrary: a b)
    case (Suc m)
    have "16 * a + hex_val c \<le> 16 * b + hex_val d"
      using Suc.prems assms(1) by simp
    from Suc.IH [OF this] show ?case
      by (simp only: replicate_Suc [of "Suc m"] foldl_Cons)
  qed (use assms(1) in simp)
  from this [of 0 0 "n - 1"] show ?thesis
    using assms(2) by (simp add: parse_hex_def hex_lit_def)
qed

lemma sample_accounts: "parse_hex (hex_lit 40 CHR ''1'') < parse_hex (hex_lit 40 CHR ''2'')"
  by (rule parse_hex_lit_less) (simp_all add: hex_val_def is_digit_def code_of_def)

lemma digits_lower [simp]: "lower_char CHR ''0'' = CHR ''0''" "lower_char CHR ''1'' = CHR ''1''" "lower_char CHR ''2'' = CHR ''2''"
  "lower_char CHR ''3'' = CHR ''3''" "lower_char CHR ''4'' = CHR ''4''" "lower_char CHR ''5'' = CHR ''5''"
  "lower_char CHR ''a'' = CHR ''a''" "lower_char CHR ''b'' = CHR ''b''" "lower_char CHR ''c'' = CHR ''c''"
  by (simp_all add: lower_char_def code_of_def)

lemma digits_hex [simp]: "is_hex_digit CHR ''0''" "is_hex_digit CHR ''1''" "is_hex_digit CHR ''2''"
  "is_hex_digit CHR ''3''" "is_hex_digit CHR ''4''" "is_hex_digit CHR ''5''"
  by (simp_all add: is_hex_digit_def is_digit_def code_of_def)

lemma lower_hex_samples: "is_lower_hex 64 (hex_lit 64 CHR ''a'')" "is_lower_hex 64 (hex_lit 64 CHR ''b'')" "is_lower_hex 64 (hex_lit 64 CHR ''c'')"
  by (simp_all add: is_lower_hex_def hex_lit_def is_lower_hex_digit_def code_of_def list_all_iff)

lemma sample_valid: "validateInput sample_viem sample_epoch = Inr ()"
  by (simp add: validateInput_def sample_epoch_def sample_viem_def bad_domain_def bad_window_def bad_source_def isBytes32_def isZeroBytes32_def
      lower_hex_samples MAX_UINT256_def MAX_UINT64_def MAX_SAFE_def TREASURY_ZERO_def EPOCH_DURATION_SECONDS_def
      computeEligibilityPolicyHash_def normalizeAddresses_def)

lemma sample_weighted: "weighted_accounts sample_viem sample_epoch
    = Inr [(hex_lit 40 CHR ''1'', 483840000), (hex_lit 40 CHR ''2'', 120960000)]"
  using sample_accounts
  by (simp add: weighted_accounts_def sample_epoch_def sample_viem_def normalizeAddresses_def normalizeObservations_def normalize_observation_def
      MAX_UINT256_def MAX_UINT64_def MAX_SAFE_def js_sort_def compareProvenance_def same_provenance_def observe_def TREASURY_ZERO_def
      checkpoint_def debit_def credit_def set_balance_def close_balance_def close_accumulator_def compareWeighted_def compareAddress_def
      balance_of_def Let_def)

lemma sample_total: "total_twab [(hex_lit 40 CHR ''1'', 483840000), (hex_lit 40 CHR ''2'', 120960000)] = Inr 604800000"
  by (simp add: total_twab_def MAX_UINT256_def)

lemma sample_allocated: "allocate 101 604800000 [(hex_lit 40 CHR ''1'', 483840000), (hex_lit 40 CHR ''2'', 120960000)]
  = Inr [\<lparr>ad_account = hex_lit 40 CHR ''1'', ad_twab = 483840000, ad_amount = 81, ad_remainder = 483840000\<rparr>,
         \<lparr>ad_account = hex_lit 40 CHR ''2'', ad_twab = 120960000, ad_amount = 20, ad_remainder = 120960000\<rparr>]"
  by (simp add: allocate_def draft_of_def js_sort_def compareRemainders_def add_units_def Let_def)

lemma sample_generated: "\<exists>out. generateTreasuryRoot sample_viem sample_epoch = Inr out \<and> map tl_amount (tr_leaves out) = [81, 20]"
proof -
  have "ti_quoteAmount sample_epoch = 101"
    by (simp add: sample_epoch_def)
  then show ?thesis
    using sample_accounts
    by (simp add: generateTreasuryRoot_def sample_valid sample_weighted sample_total sample_allocated publish_def Let_def js_sort_def
        compareDrafts_def compareAddress_def leaf_of_def hashTreasuryLeaf_def buildMerkleTree_def merkle_levels.simps attach_proofs_def
        hashPair_def bindR_eq_Inr) (simp add: sample_viem_def)
qed


theorem treasury_split_exact_witness:
  "\<exists>out. generateTreasuryRoot sample_viem sample_epoch = Inr out \<and> (\<Sum>l\<leftarrow>tr_leaves out. tl_amount l) = ti_quoteAmount sample_epoch"
proof -
  let ?ws = "[(hex_lit 40 CHR ''1'', 483840000), (hex_lit 40 CHR ''2'', 120960000)] :: (string \<times> int) list"
  have few: "?ws \<noteq> []" "length ?ws \<le> 4294967295"
    by simp_all
  show ?thesis
    by (rule ex_forward [OF treasury_split_exact [OF sample_viem_ok(2,1) sample_valid sample_weighted few(1) sample_total few(2)]])
      (elim conjE, intro conjI)
qed

theorem treasury_proofs_verify_witness:
  "\<exists>out. generateTreasuryRoot sample_viem sample_epoch = Inr out
    \<and> verifyMerkleProof sample_viem (tl_leaf (tr_leaves out ! 1)) (tl_proof (tr_leaves out ! 1)) (tr_merkleRoot out)"
proof -
  obtain out where out: "generateTreasuryRoot sample_viem sample_epoch = Inr out" "map tl_amount (tr_leaves out) = [81, 20]"
    using sample_generated by (elim exE conjE)
  have "1 < length (tr_leaves out)"
    using arg_cong [OF out(2), of length] by simp
  note facts = treasury_proofs_verify [OF out(1) sample_viem_ok this]
  have "verifyMerkleProof sample_viem (tl_leaf (tr_leaves out ! 1)) (tl_proof (tr_leaves out ! 1)) (tr_merkleRoot out)"
    using facts by (elim conjE)
  then show ?thesis
    using out(1) by (intro exI [of _ out] conjI)
qed

theorem treasury_weights_witness:
  "\<exists>out. generateTreasuryRoot sample_viem sample_epoch = Inr out \<and> tr_leaves out \<noteq> []
    \<and> (\<forall>l\<in>set (tr_leaves out). eligible sample_epoch (lower (tl_account l)))"
proof -
  obtain out where out: "generateTreasuryRoot sample_viem sample_epoch = Inr out" "map tl_amount (tr_leaves out) = [81, 20]"
    using sample_generated by (elim exE conjE)
  then show ?thesis
    using treasury_weights [OF out(1) sample_viem_ok(2)] by auto
qed

theorem treasury_order_irrelevant_witness:
  "\<exists>out. generateTreasuryRoot sample_viem sample_epoch = Inr out
    \<and> generateTreasuryRoot sample_viem (sample_epoch\<lparr>ti_transfers := rev (ti_transfers sample_epoch)\<rparr>) = Inr out"
proof -
  obtain out where out: "generateTreasuryRoot sample_viem sample_epoch = Inr out"
    using sample_generated by (elim exE conjE)
  then show ?thesis
    using treasury_order_irrelevant [OF out, of "rev (ti_transfers sample_epoch)"] by auto
qed

end
