(* ===== verification/Chain_Wire.thy ===== *)
theory Chain_Wire imports TG_Json Trade_Types begin

text \<open>
  The wire formats of \<open>services/backend-ts/packages/chain/src/index.ts\<close>: quantities of the JSON-RPC
  interface, blocks and logs read from an RPC answer, logs stored as JSON and read back, and the
  trigger the event relay sends. A log is the record \<open>rpc_log\<close> of the analytics with the fields that
  only ingestion and decoding use.
\<close>

section \<open>Hashes, addresses and quantities\<close>

text \<open>\<open>HASH\<close>, \<open>ADDRESS\<close>, \<open>QUANTITY\<close> and the two forms of log data the code tests for.\<close>

definition is_hash :: "string \<Rightarrow> bool" where "is_hash = is_lower_hex 64"

definition is_address :: "string \<Rightarrow> bool" where "is_address = is_lower_hex 40"

definition is_quantity :: "string \<Rightarrow> bool" where
  "is_quantity s \<longleftrightarrow> lower (take 2 s) = ''0x'' \<and> list_all is_hex_digit (drop 2 s)
     \<and> (drop 2 s = ''0'' \<or> (drop 2 s \<noteq> [] \<and> hd (drop 2 s) \<noteq> CHR ''0''))"

definition is_hex_data :: "string \<Rightarrow> bool" where
  "is_hex_data s \<longleftrightarrow> take 2 s = ''0x'' \<and> list_all is_lower_hex_digit (drop 2 s)"

definition is_byte_data :: "string \<Rightarrow> bool" where
  "is_byte_data s \<longleftrightarrow> is_hex_data s \<and> even (length s)"

definition hexQuantity :: "string \<Rightarrow> int res" where
  "hexQuantity v = (if \<not> is_quantity v then Inl (RpcError ''invalid RPC quantity'' False) else Inr (int (parse_hex v)))"

fun show_hex :: "nat \<Rightarrow> string" where
  "show_hex n = (if n < 16 then [hex_char n] else show_hex (n div 16) @ [hex_char (n mod 16)])"

declare show_hex.simps [simp del]

definition toHexQuantity :: "int \<Rightarrow> string res" where
  "toHexQuantity v = (if v < 0 then Inl (Error ''RPC quantity cannot be negative'') else Inr (''0x'' @ show_hex (nat v)))"

section \<open>Blocks and logs\<close>

record rpc_block =
  bk_number :: int
  bk_hash :: string
  bk_parentHash :: string
  bk_timestamp :: int

record chain_log = rpc_log +
  lg_data :: string
  lg_topics :: "string list"
  lg_removed :: bool

definition parseBlock :: "json \<Rightarrow> int \<Rightarrow> rpc_block res" where
  "parseBlock raw expected =
     (case (text_field (\<lambda>_. True) raw ''number'', text_field (\<lambda>_. True) raw ''hash'',
            text_field (\<lambda>_. True) raw ''parentHash'', text_field (\<lambda>_. True) raw ''timestamp'') of
        (Some number, Some h, Some parent, Some timestamp) \<Rightarrow>
          bindR (hexQuantity number) (\<lambda>n.
            if n \<noteq> expected \<or> \<not> is_hash h \<or> \<not> is_hash parent then Inl (RpcError ''RPC block identity is invalid'' False)
            else bindR (hexQuantity timestamp) (\<lambda>t.
              Inr \<lparr>bk_number = n, bk_hash = h, bk_parentHash = parent, bk_timestamp = t\<rparr>))
      | _ \<Rightarrow> Inl (RpcError ''RPC block shape is invalid'' False))"

text \<open>\<open>topics\<close> is an array of hashes.\<close>

fun hash_texts :: "json list \<Rightarrow> string list option" where
  "hash_texts [] = Some []"
| "hash_texts (x # xs) = (case x of
     JText s \<Rightarrow> if is_hash s then map_option ((#) s) (hash_texts xs) else None
   | _ \<Rightarrow> None)"

definition topics_of :: "json \<Rightarrow> string list option" where
  "topics_of raw = (case field raw ''topics'' of Some (JArray xs) \<Rightarrow> hash_texts xs | _ \<Rightarrow> None)"

definition log_of :: "json \<Rightarrow> string \<Rightarrow> string \<Rightarrow> string \<Rightarrow> string \<Rightarrow> string list \<Rightarrow> int \<Rightarrow> int \<Rightarrow> int \<Rightarrow> chain_log" where
  "log_of raw a b t d ts blockNumber transactionIndex logIndex =
     \<lparr>lg_address = a, lg_blockHash = b, lg_blockNumber = blockNumber, lg_transactionHash = t,
      lg_transactionIndex = transactionIndex, lg_logIndex = logIndex, lg_data = d, lg_topics = ts,
      lg_removed = (field raw ''removed'' = Some (JBool True))\<rparr>"

definition parseLog :: "json \<Rightarrow> chain_log res" where
  "parseLog raw = (if raw = JNull then Inl (TypeError ''Cannot read properties of null'') else
     case (text_field is_address raw ''address'', text_field is_hash raw ''blockHash'',
           text_field is_hash raw ''transactionHash'', text_field is_hex_data raw ''data'', topics_of raw) of
       (Some a, Some b, Some t, Some d, Some ts) \<Rightarrow>
         bindR (hexQuantity (string_of_field raw ''blockNumber'')) (\<lambda>bn.
         bindR (hexQuantity (string_of_field raw ''transactionIndex'')) (\<lambda>ti.
         bindR (hexQuantity (string_of_field raw ''logIndex'')) (\<lambda>li.
           Inr (log_of raw a b t d ts bn ti li))))
     | _ \<Rightarrow> Inl (RpcError ''RPC log shape is invalid'' False))"

definition deserializeRpcLog :: "json \<Rightarrow> chain_log res" where
  "deserializeRpcLog raw = (if raw = JNull then Inl (TypeError ''Cannot read properties of null'') else
     let bn = string_of_field raw ''blockNumber''; ti = string_of_field raw ''transactionIndex'';
         li = string_of_field raw ''logIndex'' in
     case (text_field is_address raw ''address'', text_field is_hash raw ''blockHash'',
           text_field is_hash raw ''transactionHash'', text_field is_byte_data raw ''data'', topics_of raw) of
       (Some a, Some b, Some t, Some d, Some ts) \<Rightarrow>
         if is_uint_literal bn \<and> is_uint_literal ti \<and> is_uint_literal li
         then Inr (log_of raw a b t d ts (int (parse_nat bn)) (int (parse_nat ti)) (int (parse_nat li)))
         else Inl (RpcError ''stored RPC log shape is invalid'' False)
     | _ \<Rightarrow> Inl (RpcError ''stored RPC log shape is invalid'' False))"

definition serializeLog :: "chain_log \<Rightarrow> json" where
  "serializeLog l = JObject [(''address'', JText (lg_address l)), (''blockHash'', JText (lg_blockHash l)),
     (''blockNumber'', JText (show_int (lg_blockNumber l))), (''transactionHash'', JText (lg_transactionHash l)),
     (''transactionIndex'', JText (show_int (lg_transactionIndex l))), (''logIndex'', JText (show_int (lg_logIndex l))),
     (''data'', JText (lg_data l)), (''topics'', JArray (map JText (lg_topics l))), (''removed'', JBool (lg_removed l))]"

definition logIdentity :: "chain_log \<Rightarrow> string" where
  "logIdentity l = lg_blockHash l @ '':'' @ lg_transactionHash l @ '':'' @ show_int (lg_logIndex l)"

section \<open>The trigger of the event relay\<close>

record deployment =
  dp_environment :: string
  dp_chainId :: int
  dp_digest :: string
  dp_activationBlock :: int

record chain_trigger =
  ct_number :: int
  ct_hash :: string
  ct_removed :: bool
  ct_eventKey :: string

text \<open>The \<open>eventKey\<close> template.\<close>

definition event_key :: "string \<Rightarrow> string \<Rightarrow> string \<Rightarrow> bool \<Rightarrow> string" where
  "event_key b t i removed = b @ '':'' @ t @ '':'' @ i @ '':'' @ (if removed then ''removed'' else ''canonical'')"

definition parseChainLogTrigger :: "json \<Rightarrow> deployment \<Rightarrow> chain_trigger res" where
  "parseChainLogTrigger v expected =
    (if \<not> is_object (Some v) then Inl (TypeError ''invalid chain log trigger'')
     else if field v ''schema'' \<noteq> Some (JText ''tickergarden.chain-log-trigger.v1'')
       \<or> field v ''environment'' \<noteq> Some (JText (dp_environment expected))
       \<or> field v ''chainId'' \<noteq> Some (JNumber (dp_chainId expected))
       \<or> field v ''releaseId'' \<noteq> Some (JText (dp_digest expected))
     then Inl (TypeError ''chain log trigger identity mismatch'')
     else if \<not> is_object (field v ''head'') \<or> \<not> is_object (field v ''log'')
     then Inl (TypeError ''invalid chain log trigger payload'')
     else let head = the (field v ''head''); log = the (field v ''log'') in
     case (text_field is_digits head ''number'', text_field is_hash head ''hash'', text_field is_address log ''address'',
           text_field is_hash log ''blockHash'', text_field is_digits log ''blockNumber'',
           text_field is_hash log ''transactionHash'', text_field is_digits log ''transactionIndex'',
           text_field is_digits log ''logIndex'', text_field is_byte_data log ''data'', topics_of log, field log ''removed'') of
       (Some headText, Some headHash, Some _, Some blockHash, Some blockText, Some transactionHash, Some _,
        Some logIndex, Some _, Some topics, Some (JBool removed)) \<Rightarrow>
         if length topics < 1 \<or> length topics > 4 then Inl (TypeError ''invalid chain log trigger fields'')
         else let headNumber = int (parse_nat headText); logNumber = int (parse_nat blockText) in
           if logNumber < dp_activationBlock expected \<or> headNumber < logNumber
             \<or> (\<not> removed \<and> (headNumber \<noteq> logNumber \<or> headHash \<noteq> blockHash))
           then Inl (TypeError ''inconsistent chain log trigger head'')
           else Inr \<lparr>ct_number = headNumber, ct_hash = headHash, ct_removed = removed,
             ct_eventKey = event_key blockHash transactionHash logIndex removed\<rparr>
     | _ \<Rightarrow> Inl (TypeError ''invalid chain log trigger fields''))"

section \<open>Round trips\<close>

lemma show_hex_digits: "list_all is_lower_hex_digit (show_hex n)"
proof (induction n rule: show_hex.induct)
  case (1 n)
  then show ?case by (subst show_hex.simps) (auto simp: hex_char_digit)
qed

lemma show_hex_not_Nil [simp]: "show_hex n \<noteq> []"
  by (subst show_hex.simps) simp

lemma hex_char_0: "d < 16 \<Longrightarrow> hex_char d = CHR ''0'' \<longleftrightarrow> d = 0"
  by (metis hex_char_digit hex_val_def bot_nat_0.extremum code_of_digit_char digit_char_0 diff_is_0_eq' is_digit_digit_char
      hex_char_code hex_val_inj is_lower_hex_digit_def zero_less_numeral le_refl add.right_neutral)

lemma hd_show_hex: "0 < n \<Longrightarrow> hd (show_hex n) \<noteq> CHR ''0''"
proof (induction n rule: show_hex.induct)
  case (1 n)
  show ?case
  proof (cases "n < 16")
    case True
    then show ?thesis using 1 by (subst show_hex.simps) (simp add: hex_char_0)
  next
    case False
    then show ?thesis using 1 by (subst show_hex.simps) (simp add: hd_append)
  qed
qed

lemma show_hex_value: "foldl (\<lambda>acc c. 16 * acc + hex_val c) 0 (show_hex n) = n"
proof (induction n rule: show_hex.induct)
  case (1 n)
  then show ?case by (subst show_hex.simps) (auto simp: hex_char_digit)
qed

lemma lower_prefix: "lower ''0x'' = ''0x''"
  by (simp add: lower_def lower_char_def code_of_def)

lemma hexQuantity_show_hex: "hexQuantity (''0x'' @ show_hex n) = Inr (int n)"
proof -
  have "list_all is_hex_digit (show_hex n)"
    using show_hex_digits [of n] by (auto simp: list_all_iff is_lower_hex_digit_hex)
  moreover have "show_hex n = ''0'' \<or> hd (show_hex n) \<noteq> CHR ''0''"
  proof (cases "n = 0")
    case True
    then have "show_hex n = [hex_char 0]" by (subst show_hex.simps) simp
    then show ?thesis by (simp add: hex_char_0)
  qed (simp add: hd_show_hex)
  ultimately have "is_quantity (''0x'' @ show_hex n)"
    using lower_prefix by (simp add: is_quantity_def)
  then show ?thesis by (simp add: hexQuantity_def parse_hex_def show_hex_value)
qed

lemma hexQuantity_nonneg: "hexQuantity s = Inr i \<Longrightarrow> 0 \<le> i"
  by (auto simp: hexQuantity_def split: if_splits)

lemma hash_texts_map: "list_all is_hash ts \<Longrightarrow> hash_texts (map JText ts) = Some ts"
  by (induction ts) auto

lemma hash_texts_Some: "hash_texts xs = Some ts \<Longrightarrow> xs = map JText ts \<and> list_all is_hash ts"
  by (induction xs arbitrary: ts) (auto split: json.splits if_splits)

text \<open>What the readers of logs guarantee, and the columns of \<open>chain_logs\<close> require.\<close>

definition log_typed :: "chain_log \<Rightarrow> bool" where
  "log_typed l \<longleftrightarrow> is_address (lg_address l) \<and> is_hash (lg_blockHash l) \<and> is_hash (lg_transactionHash l)
     \<and> is_hex_data (lg_data l) \<and> list_all is_hash (lg_topics l)
     \<and> 0 \<le> lg_blockNumber l \<and> 0 \<le> lg_transactionIndex l \<and> 0 \<le> lg_logIndex l"

definition block_typed :: "rpc_block \<Rightarrow> bool" where
  "block_typed b \<longleftrightarrow> 0 \<le> bk_number b \<and> is_hash (bk_hash b) \<and> is_hash (bk_parentHash b) \<and> 0 \<le> bk_timestamp b"

lemma parseLog_typed: "parseLog raw = Inr l \<Longrightarrow> log_typed l"
  by (auto simp: parseLog_def log_typed_def log_of_def topics_of_def text_field_Some res_simps hexQuantity_nonneg
      dest!: hash_texts_Some split: if_splits option.splits json.splits)

lemma is_byte_data_hex: "is_byte_data s \<Longrightarrow> is_hex_data s"
  by (simp add: is_byte_data_def)

lemma deserializeRpcLog_typed: "deserializeRpcLog raw = Inr l \<Longrightarrow> log_typed l"
  by (auto simp: deserializeRpcLog_def log_typed_def log_of_def topics_of_def text_field_Some res_simps Let_def
      is_byte_data_hex dest!: hash_texts_Some split: if_splits option.splits json.splits)

lemma parseBlock_typed: "parseBlock raw n = Inr b \<Longrightarrow> block_typed b \<and> bk_number b = n"
  by (auto simp: parseBlock_def block_typed_def res_simps hexQuantity_nonneg split: if_splits option.splits)

lemma is_uint_literal_show_int: "0 \<le> i \<Longrightarrow> is_uint_literal (show_int i) \<and> int (parse_nat (show_int i)) = i"
  by (simp add: show_int_nonneg)

text \<open>A stored log reads back as itself exactly when its data are whole bytes: the RPC reader also
  accepts an odd number of digits, which the reader of stored logs rejects.\<close>

lemma deserialize_serialize:
  assumes "log_typed l"
  shows "deserializeRpcLog (serializeLog l)
    = (if even (length (lg_data l)) then Inr l else Inl (RpcError ''stored RPC log shape is invalid'' False))"
proof -
  have "topics_of (serializeLog l) = Some (lg_topics l)"
    using assms by (simp add: topics_of_def serializeLog_def log_typed_def hash_texts_map)
  moreover have "text_field is_address (serializeLog l) ''address'' = Some (lg_address l)"
    "text_field is_hash (serializeLog l) ''blockHash'' = Some (lg_blockHash l)"
    "text_field is_hash (serializeLog l) ''transactionHash'' = Some (lg_transactionHash l)"
    "text_field is_byte_data (serializeLog l) ''data'' = (if even (length (lg_data l)) then Some (lg_data l) else None)"
    using assms by (simp_all add: text_field_def serializeLog_def log_typed_def is_byte_data_def)
  moreover have "string_of_field (serializeLog l) ''blockNumber'' = show_int (lg_blockNumber l)"
    "string_of_field (serializeLog l) ''transactionIndex'' = show_int (lg_transactionIndex l)"
    "string_of_field (serializeLog l) ''logIndex'' = show_int (lg_logIndex l)"
    "field (serializeLog l) ''removed'' = Some (JBool (lg_removed l))"
    by (simp_all add: string_of_field_def serializeLog_def)
  moreover have "serializeLog l \<noteq> JNull" by (simp add: serializeLog_def)
  ultimately show ?thesis
    using assms is_uint_literal_show_int
    by (simp add: deserializeRpcLog_def Let_def log_of_def log_typed_def)
qed

text \<open>C34: The wire formats of the ingestion are faithful. Every block number the code puts into a
  request reads back as itself; every log the RPC reader accepts, stored with \<open>serializeLog\<close> and
  read with \<open>deserializeRpcLog\<close>, comes back as the same record when its data are whole bytes, and is
  rejected with an error otherwise: no stored log is read back as a different one.\<close>

theorem wire_round_trip:
  assumes "parseLog raw = Inr l" and "0 \<le> n"
  shows "deserializeRpcLog (serializeLog l)
      = (if even (length (lg_data l)) then Inr l else Inl (RpcError ''stored RPC log shape is invalid'' False))
    \<and> bindR (toHexQuantity n) hexQuantity = Inr n"
  using assms hexQuantity_show_hex [of "nat n"] by (simp add: deserialize_serialize parseLog_typed toHexQuantity_def)

definition sample_raw_log :: json where
  "sample_raw_log = JObject [(''address'', JText (hex_lit 40 CHR ''1'')), (''blockHash'', JText (hex_lit 64 CHR ''b'')),
     (''blockNumber'', JText ''0x2a''), (''transactionHash'', JText (hex_lit 64 CHR ''d'')),
     (''transactionIndex'', JText ''0x0''), (''logIndex'', JText ''0x7''), (''data'', JText ''0xab''),
     (''topics'', JArray [JText (hex_lit 64 CHR ''c'')])]"

definition sample_chain_log :: chain_log where
  "sample_chain_log = log_of sample_raw_log (hex_lit 40 CHR ''1'') (hex_lit 64 CHR ''b'') (hex_lit 64 CHR ''d'') ''0xab''
     [hex_lit 64 CHR ''c''] 42 0 7"

lemma is_hash_lit [simp]: "is_lower_hex_digit c \<Longrightarrow> is_hash (hex_lit 64 c)"
  by (simp add: is_hash_def hex_lit_lower_hex)

lemma is_address_lit [simp]: "is_lower_hex_digit c \<Longrightarrow> is_address (hex_lit 40 c)"
  by (simp add: is_address_def hex_lit_lower_hex)

lemma lower_hex_digits [simp]: "is_lower_hex_digit (CHR ''0'')" "is_lower_hex_digit (CHR ''1'')" "is_lower_hex_digit (CHR ''2'')"
  "is_lower_hex_digit (CHR ''3'')" "is_lower_hex_digit (CHR ''a'')" "is_lower_hex_digit (CHR ''b'')"
  "is_lower_hex_digit (CHR ''c'')" "is_lower_hex_digit (CHR ''d'')" "is_lower_hex_digit (CHR ''e'')"
  by (simp_all add: is_lower_hex_digit_def is_digit_def code_of_def)

lemma sample_log_parses: "parseLog sample_raw_log = Inr sample_chain_log"
proof -
  have "hexQuantity ''0x2a'' = Inr 42" "hexQuantity ''0x0'' = Inr 0" "hexQuantity ''0x7'' = Inr 7"
    by code_simp+
  moreover have "is_hex_data ''0xab''" by code_simp
  ultimately show ?thesis
    by (simp add: parseLog_def sample_raw_log_def sample_chain_log_def text_field_def topics_of_def string_of_field_def)
qed

lemma wire_round_trip_witness:
  "deserializeRpcLog (serializeLog sample_chain_log) = Inr sample_chain_log \<and> bindR (toHexQuantity 42) hexQuantity = Inr 42"
  using wire_round_trip [OF sample_log_parses, of 42] by (simp add: sample_chain_log_def log_of_def)

section \<open>Typing of the readers\<close>

definition trigger_ok :: "deployment \<Rightarrow> chain_trigger \<Rightarrow> bool" where
  "trigger_ok dp t \<longleftrightarrow> dp_activationBlock dp \<le> ct_number t \<and> is_hash (ct_hash t)"

text \<open>The event a trigger names.\<close>

definition names_event :: "chain_trigger \<Rightarrow> bool" where
  "names_event t \<longleftrightarrow> (\<exists>b h i. is_hash b \<and> is_hash h \<and> is_digits i \<and> ct_eventKey t = event_key b h i (ct_removed t)
      \<and> (\<not> ct_removed t \<longrightarrow> ct_hash t = b))"

lemma names_eventI: "is_hash b \<Longrightarrow> is_hash h \<Longrightarrow> is_digits i \<Longrightarrow> (\<not> r \<longrightarrow> x = b)
    \<Longrightarrow> names_event \<lparr>ct_number = n, ct_hash = x, ct_removed = r, ct_eventKey = event_key b h i r\<rparr>"
  by (auto simp: names_event_def)

lemma case_bool_eq_Inr [res_simps]:
  "(case a of JBool b \<Rightarrow> f b | _ \<Rightarrow> Inl e) = Inr r \<longleftrightarrow> (\<exists>b. a = JBool b \<and> f b = Inr r)"
  by (cases a) auto

lemma trigger_fields:
  assumes "parseChainLogTrigger v dp = Inr t"
  shows "trigger_ok dp t" and "names_event t"
  using assms unfolding parseChainLogTrigger_def Let_def
  by (simp_all add: res_simps) (auto simp: trigger_ok_def text_field_Some intro!: names_eventI)

text \<open>The parts of an event key can be read back: hashes have one length and contain no colon.\<close>

lemma is_hash_length: "is_hash s \<Longrightarrow> length s = 66"
  by (simp add: is_hash_def is_lower_hex_def)

lemma event_key_inj:
  assumes "is_hash b" "is_hash b'" "is_hash t" "is_hash t'" "is_digits i" "is_digits i'"
    and eq: "event_key b t i r = event_key b' t' i' r'"
  shows "b = b' \<and> t = t' \<and> i = i' \<and> r = r'"
proof -
  have b: "b = b'" and "t @ '':'' @ i @ '':'' @ (if r then ''removed'' else ''canonical'')
      = t' @ '':'' @ i' @ '':'' @ (if r' then ''removed'' else ''canonical'')"
    using eq assms(1,2) by (simp_all add: event_key_def is_hash_length)
  then have t: "t = t'" and rest: "i @ '':'' @ (if r then ''removed'' else ''canonical'')
      = i' @ '':'' @ (if r' then ''removed'' else ''canonical'')"
    using assms(3,4) by (simp_all add: is_hash_length)
  let ?stem = "takeWhile (\<lambda>c. c \<noteq> CHR '':'')"
  have digits: "\<forall>c\<in>set i. c \<noteq> CHR '':''" "\<forall>c\<in>set i'. c \<noteq> CHR '':''"
    using assms(5,6) by (auto simp: is_digits_def list_all_iff is_digit_def code_of_def)
  have "?stem (i @ '':'' @ x) = i" "?stem (i' @ '':'' @ x) = i'" for x
    using digits by (simp_all add: takeWhile_append2)
  then have i: "i = i'" using rest by (metis append_Cons append_assoc)
  with rest have "r = r'" by (cases r; cases r') auto
  with b t i show ?thesis by simp
qed

text \<open>C35: The readers of untrusted JSON only let well-typed values in: an accepted log has a lowercase
  address, 32-byte hashes and topics, hexadecimal data and non-negative positions (what the columns of
  the tables require), an accepted block is the requested one, and an accepted relay trigger of the
  deployment is at or after its activation block; two accepted triggers have the same event key only if
  they name the same block hash and the same kind of event, so a removal never passes for the event.\<close>

theorem wire_readers_typed:
  assumes "parseLog raw = Inr l" and "deserializeRpcLog stored = Inr l'" and "parseBlock rawBlock n = Inr b"
    and "parseChainLogTrigger v dp = Inr t" and "parseChainLogTrigger v' dp = Inr t'"
  shows "log_typed l \<and> log_typed l' \<and> block_typed b \<and> bk_number b = n \<and> trigger_ok dp t
    \<and> (ct_eventKey t = ct_eventKey t' \<longrightarrow> ct_removed t = ct_removed t' \<and> (\<not> ct_removed t \<longrightarrow> ct_hash t = ct_hash t'))"
proof -
  obtain x h i where t: "is_hash x" "is_hash h" "is_digits i" "ct_eventKey t = event_key x h i (ct_removed t)"
      "\<not> ct_removed t \<longrightarrow> ct_hash t = x" and ok: "trigger_ok dp t"
    using trigger_fields [OF assms(4)] by (auto simp only: names_event_def)
  obtain x' h' i' where t': "is_hash x'" "is_hash h'" "is_digits i'" "ct_eventKey t' = event_key x' h' i' (ct_removed t')"
      "\<not> ct_removed t' \<longrightarrow> ct_hash t' = x'"
    using trigger_fields [OF assms(5)] by (auto simp only: names_event_def)
  have "ct_eventKey t = ct_eventKey t' \<Longrightarrow> x = x' \<and> ct_removed t = ct_removed t'"
    using event_key_inj [OF t(1) t'(1) t(2) t'(2) t(3) t'(3)] t(4) t'(4) by metis
  then show ?thesis
    using parseLog_typed [OF assms(1)] deserializeRpcLog_typed [OF assms(2)] parseBlock_typed [OF assms(3)] ok t(5) t'(5)
    by auto
qed

definition sample_deployment :: deployment where
  "sample_deployment = \<lparr>dp_environment = ''test'', dp_chainId = 46630, dp_digest = hex_lit 64 CHR ''a'', dp_activationBlock = 1\<rparr>"

definition sample_trigger :: "bool \<Rightarrow> json" where
  "sample_trigger removed = JObject [(''schema'', JText ''tickergarden.chain-log-trigger.v1''), (''environment'', JText ''test''),
     (''chainId'', JNumber 46630), (''releaseId'', JText (hex_lit 64 CHR ''a'')),
     (''head'', JObject [(''number'', JText ''42''), (''hash'', JText (hex_lit 64 CHR ''b''))]),
     (''log'', JObject [(''address'', JText (hex_lit 40 CHR ''1'')), (''blockHash'', JText (hex_lit 64 CHR ''b'')),
        (''blockNumber'', JText ''42''), (''transactionHash'', JText (hex_lit 64 CHR ''d'')), (''transactionIndex'', JText ''0''),
        (''logIndex'', JText ''7''), (''data'', JText ''0x''), (''topics'', JArray [JText (hex_lit 64 CHR ''c'')]),
        (''removed'', JBool removed)])]"

lemma sample_trigger_parses: "parseChainLogTrigger (sample_trigger r) sample_deployment
    = Inr \<lparr>ct_number = 42, ct_hash = hex_lit 64 CHR ''b'', ct_removed = r,
        ct_eventKey = event_key (hex_lit 64 CHR ''b'') (hex_lit 64 CHR ''d'') ''7'' r\<rparr>"
proof -
  have "is_digits ''42''" "is_digits ''0''" "is_digits ''7''" "is_byte_data ''0x''" "parse_nat ''42'' = 42"
    by code_simp+
  then show ?thesis
    by (simp add: parseChainLogTrigger_def sample_trigger_def sample_deployment_def is_object_def text_field_def topics_of_def
        Let_def)
qed

definition sample_raw_block :: json where
  "sample_raw_block = JObject [(''number'', JText ''0x2a''), (''hash'', JText (hex_lit 64 CHR ''b'')),
     (''parentHash'', JText (hex_lit 64 CHR ''a'')), (''timestamp'', JText ''0x7'')]"

lemma sample_block_parses: "parseBlock sample_raw_block 42
    = Inr \<lparr>bk_number = 42, bk_hash = hex_lit 64 CHR ''b'', bk_parentHash = hex_lit 64 CHR ''a'', bk_timestamp = 7\<rparr>"
proof -
  have "hexQuantity ''0x2a'' = Inr 42" "hexQuantity ''0x7'' = Inr 7" by code_simp+
  then show ?thesis by (simp add: parseBlock_def sample_raw_block_def text_field_def)
qed

lemma wire_readers_typed_witness:
  "log_typed sample_chain_log \<and> trigger_ok sample_deployment \<lparr>ct_number = 42, ct_hash = hex_lit 64 CHR ''b'', ct_removed = False,
     ct_eventKey = event_key (hex_lit 64 CHR ''b'') (hex_lit 64 CHR ''d'') ''7'' False\<rparr>"
  using wire_readers_typed [OF sample_log_parses conjunct1 [OF wire_round_trip [OF sample_log_parses, of 0], simplified sample_chain_log_def log_of_def, simplified]
      sample_block_parses sample_trigger_parses [of False] sample_trigger_parses [of True]] by simp

end
