(* ===== verification/Chain_Source.thy ===== *)
theory Chain_Source imports Chain_Wire Queue_Store begin

text \<open>
  What ingestion asks of others, from \<open>services/backend-ts/packages/chain/src/index.ts\<close>: the RPC
  transport and its checked readers, agreement of two providers on a block, finality by delay, contract
  sources and their validation, and the digests of log sets and filters.
\<close>

section \<open>The RPC transport\<close>

text \<open>One entry of the \<open>topics\<close> filter: \<open>null\<close>, a topic, or a list of alternatives.\<close>

datatype topic_filter = AnyTopic | OneTopic string | TopicIn "string list"

record log_request =
  lq_fromBlock :: string
  lq_toBlock :: string
  lq_address :: "string list"
  lq_topics :: "topic_filter list option"

text \<open>
  An endpoint answers the three read methods ingestion uses. Retries, failover, caches and the HTTP
  exchange of \<open>call\<close> lie behind these functions; \<open>rt_source\<close> stands for what \<open>sameSource\<close>
  compares.
\<close>

record transport =
  rt_source :: string
  rt_chainId :: "json res"
  rt_getBlock :: "string \<Rightarrow> json res"
  rt_getLogs :: "log_request \<Rightarrow> json res"

definition falsy :: "json \<Rightarrow> bool" where
  "falsy v \<longleftrightarrow> v = JNull \<or> v = JBool False \<or> v = JNumber 0 \<or> v = JText []"

definition transport_block :: "transport \<Rightarrow> int \<Rightarrow> rpc_block res" where
  "transport_block tr number =
     bindR (toHexQuantity number) (\<lambda>h.
     bindR (rt_getBlock tr h) (\<lambda>raw.
       if falsy raw then Inl (RpcError ''RPC block was not found'' False) else parseBlock raw number))"

definition transport_logs :: "transport \<Rightarrow> int \<Rightarrow> int \<Rightarrow> string list \<Rightarrow> topic_filter list option \<Rightarrow> chain_log list res" where
  "transport_logs tr fromBlock toBlock addresses topics =
    (if toBlock < fromBlock \<or> toBlock - fromBlock \<ge> 10000
     then Inl (Error ''RPC log range must contain 1 to 10000 blocks'')
     else if length addresses < 1 \<or> length addresses > 100 \<or> \<not> list_all is_address addresses
     then Inl (Error ''RPC log addresses are invalid'')
     else bindR (toHexQuantity fromBlock) (\<lambda>f. bindR (toHexQuantity toBlock) (\<lambda>t.
       bindR (rt_getLogs tr \<lparr>lq_fromBlock = f, lq_toBlock = t, lq_address = addresses, lq_topics = topics\<rparr>) (\<lambda>raw.
         case raw of JArray xs \<Rightarrow> mapR parseLog xs | _ \<Rightarrow> Inl (TypeError ''raw.map is not a function'')))))"

definition transport_chainId :: "transport \<Rightarrow> int res" where
  "transport_chainId tr = bindR (rt_chainId tr) (\<lambda>raw. hexQuantity (string_of raw))"

definition sameSource :: "transport \<Rightarrow> transport \<Rightarrow> bool" where
  "sameSource a b \<longleftrightarrow> rt_source a = rt_source b"

definition verifyChainIdentity :: "transport \<Rightarrow> int \<Rightarrow> string \<Rightarrow> unit res" where
  "verifyChainIdentity tr expectedChainId expectedGenesisHash =
     bindR (transport_chainId tr) (\<lambda>chainId. bindR (transport_block tr 0) (\<lambda>genesis.
       if chainId \<noteq> expectedChainId then Inl (RpcError ''RPC chain ID mismatch'' False)
       else if bk_hash genesis \<noteq> expectedGenesisHash then Inl (RpcError ''RPC genesis hash mismatch'' False)
       else Inr ()))"

definition consensusBlock :: "transport \<Rightarrow> transport option \<Rightarrow> int \<Rightarrow> rpc_block res" where
  "consensusBlock primary secondary number =
     bindR (transport_block primary number) (\<lambda>first.
       case secondary of None \<Rightarrow> Inr first
       | Some s \<Rightarrow> if sameSource primary s then Inr first else
           bindR (transport_block s number) (\<lambda>second.
             if bk_hash first \<noteq> bk_hash second \<or> bk_parentHash first \<noteq> bk_parentHash second
               \<or> bk_timestamp first \<noteq> bk_timestamp second
             then Inl (RpcError ''RPC providers disagree on block identity'' False) else Inr first))"

definition isFinalized :: "rpc_block \<Rightarrow> rpc_block \<Rightarrow> int \<Rightarrow> int \<Rightarrow> bool" where
  "isFinalized candidate head delayBlocks delaySeconds \<longleftrightarrow>
     \<not> (bk_number candidate > bk_number head \<or> delayBlocks < 0 \<or> delaySeconds < 0)
     \<and> bk_number candidate + delayBlocks \<le> bk_number head
     \<and> bk_timestamp candidate + delaySeconds \<le> bk_timestamp head"

section \<open>Contract sources\<close>

record contract_source =
  cs_module :: string
  cs_address :: string
  cs_birthBlock :: int
  cs_runtimeCodeHash :: string

definition sqlIdentifier :: "string option \<Rightarrow> unit res" where
  "sqlIdentifier schemaName = ensure (case schemaName of None \<Rightarrow> True | Some s \<Rightarrow> is_identifier s) (Error ''invalid database schema name'')"

definition validateDeployment :: "deployment \<Rightarrow> unit res" where
  "validateDeployment d = ensure (is_hash (dp_digest d) \<and> 0 \<le> dp_activationBlock d) (Error ''invalid deployment identity'')"

definition validateSource :: "contract_source \<Rightarrow> unit res" where
  "validateSource s = ensure (is_token (cs_module s) \<and> is_address (cs_address s) \<and> is_hash (cs_runtimeCodeHash s)
     \<and> 0 \<le> cs_birthBlock s) (Error ''invalid contract source'')"

type_synonym source_map = "(string \<times> contract_source) list"

definition known_sources :: "contract_source list \<Rightarrow> source_map res" where
  "known_sources sources = foldR (\<lambda>s m. bindR (validateSource s) (\<lambda>_. Inr (AList.update (cs_address s) s m))) sources []"

section \<open>Digests\<close>

text \<open>The hash and the collation of the host.\<close>

record host =
  h_sha256 :: "string \<Rightarrow> string"
  h_localeCompare :: "string \<Rightarrow> string \<Rightarrow> int"

definition digest :: "host \<Rightarrow> json \<Rightarrow> string" where
  "digest H v = ''0x'' @ h_sha256 H (json_text v)"

definition logSetDigest :: "host \<Rightarrow> chain_log list \<Rightarrow> string" where
  "logSetDigest H ls = digest H (JArray (js_sort (\<lambda>a b. h_localeCompare H (json_text a) (json_text b)) (map serializeLog ls)))"

definition source_json :: "contract_source \<Rightarrow> json" where
  "source_json s = JObject [(''address'', JText (cs_address s)), (''birthBlock'', JText (show_int (cs_birthBlock s))),
     (''runtimeCodeHash'', JText (cs_runtimeCodeHash s))]"

definition sources_json :: "host \<Rightarrow> source_map \<Rightarrow> int \<Rightarrow> json" where
  "sources_json H known toBlock = JArray (map source_json (js_sort (\<lambda>a b. h_localeCompare H (cs_address a) (cs_address b))
     (filter (\<lambda>s. cs_birthBlock s \<le> toBlock) (map snd known))))"

text \<open>\<open>chunks\<close> is called with a positive size.\<close>

function chunks :: "'a list \<Rightarrow> nat \<Rightarrow> 'a list list" where
  "chunks xs n = (if xs = [] \<or> n = 0 then [] else take n xs # chunks (drop n xs) n)"
  by pat_completeness auto
termination by (relation "measure (\<lambda>(xs, n). length xs)") auto

declare chunks.simps [simp del]

definition compareLogs :: "chain_log \<Rightarrow> chain_log \<Rightarrow> int" where
  "compareLogs l r = (if lg_blockNumber l = lg_blockNumber r then lg_logIndex l - lg_logIndex r
     else lg_blockNumber l - lg_blockNumber r)"

end
