(* ===== verification/Chain_Ingest.thy ===== *)
theory Chain_Ingest imports Chain_Source begin

text \<open>
  The ingestion store (tables \<open>chain_blocks\<close>, \<open>chain_logs\<close>, \<open>contract_sources\<close>, \<open>covered_ranges\<close>,
  \<open>ingestion_checkpoints\<close> of \<open>db/migrations/0001_core.sql\<close>) and \<open>ingestCanonicalRange\<close>: reading the blocks of a short
  range, collecting the logs of known and discovered contracts, and the transaction that stores them. A
  transaction that throws leaves the store as it was (\<open>Inl\<close>).
\<close>

section \<open>The tables\<close>

text \<open>
  The rows of one deployment (its environment, chain and digest are columns of every table and of every
  \<open>WHERE\<close>). Times the database fills in (\<open>observed_at\<close>, \<open>verified_at\<close>, \<open>updated_at\<close>) are left out.
\<close>

record block_row =
  br_number :: int
  br_hash :: string
  br_parent :: string
  br_canonical :: bool
  br_finalized :: bool
  br_timestamp :: int

record log_row =
  lr_block :: string
  lr_transaction :: string
  lr_transactionIndex :: int
  lr_logIndex :: int
  lr_address :: string
  lr_topic0 :: "string option"
  lr_payload :: json
  lr_canonical :: bool

record source_row =
  sr_source :: contract_source
  sr_active :: bool

record range_row =
  cr_from :: int
  cr_to :: int
  cr_generation :: int
  cr_filter :: string
  cr_complete :: bool

record ingestion_checkpoint =
  ck_next :: int
  ck_last :: "string option"
  ck_generation :: int

record chain_db =
  cd_blocks :: "block_row list"
  cd_logs :: "log_row list"
  cd_sources :: "source_row list"
  cd_ranges :: "range_row list"
  cd_checkpoints :: "(string \<times> ingestion_checkpoint) list"

definition empty_chain :: chain_db where
  "empty_chain = \<lparr>cd_blocks = [], cd_logs = [], cd_sources = [], cd_ranges = [], cd_checkpoints = []\<rparr>"

text \<open>A \<open>bigint\<close> column with a \<open>CHECK (... >= 0)\<close>, and the unique constraints.\<close>

definition pg_count :: "int \<Rightarrow> unit res" where
  "pg_count n = ensure (0 \<le> n \<and> n < 2 ^ 63) (Error ''value out of range for column'')"

abbreviation "duplicate_key \<equiv> Error ''duplicate key value violates unique constraint''"

definition unique_heights :: "block_row list \<Rightarrow> bool" where
  "unique_heights rows \<longleftrightarrow> distinct (map br_number (filter br_canonical rows))"

definition canonical_at :: "chain_db \<Rightarrow> int \<Rightarrow> block_row option" where
  "canonical_at db n = find (\<lambda>r. br_canonical r \<and> br_number r = n) (cd_blocks db)"

section \<open>Statements\<close>

definition insert_checkpoint :: "string \<Rightarrow> int \<Rightarrow> chain_db \<Rightarrow> chain_db res" where
  "insert_checkpoint stream fromBlock db =
     bindR (pg_count fromBlock) (\<lambda>_.
       case map_of (cd_checkpoints db) stream of
         Some _ \<Rightarrow> Inr db
       | None \<Rightarrow> Inr (db\<lparr>cd_checkpoints := cd_checkpoints db
                 @ [(stream, \<lparr>ck_next = fromBlock, ck_last = None, ck_generation = 0\<rparr>)]\<rparr>))"

definition save_checkpoint :: "string \<Rightarrow> ingestion_checkpoint \<Rightarrow> chain_db \<Rightarrow> chain_db res" where
  "save_checkpoint stream c db =
     bindR (pg_count (ck_next c)) (\<lambda>_. bindR (pg_count (ck_generation c)) (\<lambda>_.
       Inr (db\<lparr>cd_checkpoints := map (\<lambda>(s, old). if s = stream then (s, c) else (s, old)) (cd_checkpoints db)\<rparr>)))"

definition block_row_of :: "rpc_block \<Rightarrow> block_row" where
  "block_row_of b = \<lparr>br_number = bk_number b, br_hash = bk_hash b, br_parent = bk_parentHash b,
     br_canonical = True, br_finalized = True, br_timestamp = bk_timestamp b\<rparr>"

definition confirm_row :: "rpc_block \<Rightarrow> block_row \<Rightarrow> block_row" where
  "confirm_row b r = (if br_hash r = bk_hash b
     then r\<lparr>br_canonical := True, br_finalized := True, br_timestamp := bk_timestamp b\<rparr> else r)"

definition upsert_block :: "rpc_block \<Rightarrow> chain_db \<Rightarrow> chain_db res" where
  "upsert_block b db =
     bindR (pg_count (bk_number b)) (\<lambda>_.
       let rows = cd_blocks db;
           rows' = (if bk_hash b \<in> set (map br_hash rows) then map (confirm_row b) rows else rows @ [block_row_of b])
       in if unique_heights rows' then Inr (db\<lparr>cd_blocks := rows'\<rparr>) else Inl duplicate_key)"

definition conflicting :: "rpc_block \<Rightarrow> block_row \<Rightarrow> bool" where
  "conflicting b r \<longleftrightarrow> br_number r = bk_number b \<and> br_canonical r \<and> br_hash r \<noteq> bk_hash b"

definition orphan_row :: "block_row \<Rightarrow> block_row" where
  "orphan_row r = r\<lparr>br_canonical := False, br_finalized := False\<rparr>"

definition orphan_logs :: "string set \<Rightarrow> log_row list \<Rightarrow> log_row list" where
  "orphan_logs hashes = map (\<lambda>l. if lr_block l \<in> hashes then l\<lparr>lr_canonical := False\<rparr> else l)"

definition insert_source :: "contract_source \<Rightarrow> chain_db \<Rightarrow> chain_db res" where
  "insert_source s db = bindR (pg_count (cs_birthBlock s)) (\<lambda>_.
     if cs_address s \<in> set (map (cs_address \<circ> sr_source) (cd_sources db)) then Inr db
     else Inr (db\<lparr>cd_sources := cd_sources db @ [\<lparr>sr_source = s, sr_active = True\<rparr>]\<rparr>))"

definition log_row_of :: "chain_log \<Rightarrow> log_row" where
  "log_row_of l = \<lparr>lr_block = lg_blockHash l, lr_transaction = lg_transactionHash l,
     lr_transactionIndex = lg_transactionIndex l, lr_logIndex = lg_logIndex l, lr_address = lg_address l,
     lr_topic0 = (case lg_topics l of [] \<Rightarrow> None | t # _ \<Rightarrow> Some t), lr_payload = serializeLog l, lr_canonical = True\<rparr>"

definition same_log :: "chain_log \<Rightarrow> log_row \<Rightarrow> bool" where
  "same_log l r \<longleftrightarrow> lr_block r = lg_blockHash l \<and> lr_transaction r = lg_transactionHash l \<and> lr_logIndex r = lg_logIndex l"

definition upsert_log :: "chain_log \<Rightarrow> chain_db \<Rightarrow> chain_db res" where
  "upsert_log l db = bindR (pg_count (lg_transactionIndex l)) (\<lambda>_. bindR (pg_count (lg_logIndex l)) (\<lambda>_.
     if list_ex (same_log l) (cd_logs db)
     then Inr (db\<lparr>cd_logs := map (\<lambda>r. if same_log l r then r\<lparr>lr_canonical := True, lr_payload := serializeLog l\<rparr> else r) (cd_logs db)\<rparr>)
     else if lg_blockHash l \<in> set (map br_hash (cd_blocks db))
     then Inr (db\<lparr>cd_logs := cd_logs db @ [log_row_of l]\<rparr>)
     else Inl (Error ''insert or update on table violates foreign key constraint'')))"

definition same_range :: "range_row \<Rightarrow> range_row \<Rightarrow> bool" where
  "same_range a b \<longleftrightarrow> cr_from a = cr_from b \<and> cr_to a = cr_to b \<and> cr_generation a = cr_generation b"

definition range_of :: "int \<Rightarrow> int \<Rightarrow> int \<Rightarrow> string \<Rightarrow> range_row" where
  "range_of f t g d = \<lparr>cr_from = f, cr_to = t, cr_generation = g, cr_filter = d, cr_complete = True\<rparr>"

definition check_range :: "range_row \<Rightarrow> unit res" where
  "check_range r = bindR (pg_count (cr_from r)) (\<lambda>_. bindR (pg_count (cr_to r)) (\<lambda>_. bindR (pg_count (cr_generation r)) (\<lambda>_.
     ensure (cr_from r \<le> cr_to r) (Error ''violates check constraint''))))"

definition insert_range :: "range_row \<Rightarrow> chain_db \<Rightarrow> chain_db res" where
  "insert_range r db = bindR (check_range r) (\<lambda>_.
     if list_ex (same_range r) (cd_ranges db) then Inl duplicate_key
     else Inr (db\<lparr>cd_ranges := cd_ranges db @ [r]\<rparr>))"

definition insert_range_if_new :: "range_row \<Rightarrow> chain_db \<Rightarrow> chain_db res" where
  "insert_range_if_new r db = bindR (check_range r) (\<lambda>_.
     if list_ex (same_range r) (cd_ranges db) then Inr db else Inr (db\<lparr>cd_ranges := cd_ranges db @ [r]\<rparr>))"

section \<open>Reading the state\<close>

record ingestion_state =
  is_nextBlock :: int
  is_generation :: int
  is_sources :: "contract_source list"

definition compareSourceRows :: "source_row \<Rightarrow> source_row \<Rightarrow> int" where
  "compareSourceRows a b = (if cs_birthBlock (sr_source a) \<noteq> cs_birthBlock (sr_source b)
     then cs_birthBlock (sr_source a) - cs_birthBlock (sr_source b)
     else sign_cmp (cs_address (sr_source a)) (cs_address (sr_source b)))"

definition loadIngestionState :: "deployment \<Rightarrow> string \<Rightarrow> string option \<Rightarrow> int option \<Rightarrow> chain_db \<Rightarrow> ingestion_state res" where
  "loadIngestionState dp stream schemaName initialNextBlock db =
     bindR (validateDeployment dp) (\<lambda>_.
     bindR (ensure (is_token stream) (Error ''invalid ingestion stream'')) (\<lambda>_.
     bindR (sqlIdentifier schemaName) (\<lambda>_.
       Inr \<lparr>is_nextBlock = (case map_of (cd_checkpoints db) stream of Some c \<Rightarrow> ck_next c
              | None \<Rightarrow> (case initialNextBlock of Some n \<Rightarrow> n | None \<Rightarrow> dp_activationBlock dp)),
            is_generation = (case map_of (cd_checkpoints db) stream of Some c \<Rightarrow> ck_generation c | None \<Rightarrow> 0),
            is_sources = map sr_source (js_sort compareSourceRows (filter sr_active (cd_sources db)))\<rparr>)))"

section \<open>Ingesting every block of a short range\<close>

record ingest_input =
  in_deployment :: deployment
  in_stream :: string
  in_fromBlock :: int
  in_toBlock :: int
  in_observedHead :: rpc_block
  in_delayBlocks :: int
  in_delaySeconds :: int
  in_primary :: transport
  in_secondary :: "transport option"
  in_sources :: "contract_source list"
  in_discover :: "chain_log list \<Rightarrow> rpc_block \<Rightarrow> contract_source list res"
  in_schemaName :: "string option"

record ingest_result =
  ir_blocks :: nat
  ir_logs :: nat
  ir_sources :: nat
  ir_generation :: int
  ir_filterDigest :: string

type_synonym log_map = "(string \<times> chain_log) list"
type_synonym block_logs = "(int \<times> log_map) list"

definition read_block :: "ingest_input \<Rightarrow> int \<Rightarrow> rpc_block list \<Rightarrow> rpc_block list res" where
  "read_block i number blocks =
     bindR (consensusBlock (in_primary i) (in_secondary i) number) (\<lambda>block.
       if \<not> isFinalized block (in_observedHead i) (in_delayBlocks i) (in_delaySeconds i)
       then Inl (RpcError ''range includes a non-finalized block'' False)
       else if blocks \<noteq> [] \<and> bk_parentHash block \<noteq> bk_hash (last blocks)
       then Inl (ReorgDetectedError ''RPC range parent hash mismatch'')
       else Inr (blocks @ [block]))"

definition read_blocks :: "ingest_input \<Rightarrow> rpc_block list res" where
  "read_blocks i = foldR (read_block i) [in_fromBlock i..in_toBlock i] []"

definition add_log :: "chain_log \<Rightarrow> block_logs \<Rightarrow> block_logs" where
  "add_log l m = (case map_of m (lg_blockNumber l) of None \<Rightarrow> m
     | Some at \<Rightarrow> AList.update (lg_blockNumber l) (AList.update (logIdentity l) l at) m)"

definition find_block :: "rpc_block list \<Rightarrow> int \<Rightarrow> rpc_block option" where
  "find_block blocks n = find (\<lambda>b. bk_number b = n) blocks"

definition merge_log :: "rpc_block list \<Rightarrow> chain_log \<Rightarrow> block_logs \<Rightarrow> block_logs res" where
  "merge_log blocks l m = (case find_block blocks (lg_blockNumber l) of
     None \<Rightarrow> Inl (RpcError ''RPC log is not canonical for requested range'' False)
   | Some b \<Rightarrow> if lg_blockHash l \<noteq> bk_hash b \<or> lg_removed l
       then Inl (RpcError ''RPC log is not canonical for requested range'' False) else Inr (add_log l m))"

definition agreed_logs :: "host \<Rightarrow> ingest_input \<Rightarrow> int \<Rightarrow> int \<Rightarrow> string list \<Rightarrow> chain_log list res" where
  "agreed_logs H i fromBlock toBlock addresses =
     bindR (transport_logs (in_primary i) fromBlock toBlock addresses None) (\<lambda>primaryLogs.
       case in_secondary i of None \<Rightarrow> Inr primaryLogs
       | Some s \<Rightarrow> bindR (if sameSource (in_primary i) s then Inr primaryLogs
                   else transport_logs s fromBlock toBlock addresses None) (\<lambda>secondaryLogs.
           if logSetDigest H primaryLogs \<noteq> logSetDigest H secondaryLogs
           then Inl (RpcError ''RPC providers disagree on range logs'' False) else Inr primaryLogs))"

definition fetchAndMergeLogs :: "host \<Rightarrow> ingest_input \<Rightarrow> rpc_block list \<Rightarrow> int \<Rightarrow> string list \<Rightarrow> block_logs \<Rightarrow> block_logs res" where
  "fetchAndMergeLogs H i blocks fromBlock addresses m =
     foldR (\<lambda>batch m. bindR (agreed_logs H i fromBlock (in_toBlock i) batch) (\<lambda>ls. foldR (merge_log blocks) ls m))
       (chunks addresses 100) m"

text \<open>The first query groups the known addresses by the block their logs start at.\<close>

definition group_source :: "ingest_input \<Rightarrow> contract_source \<Rightarrow> (int \<times> string list) list \<Rightarrow> (int \<times> string list) list" where
  "group_source i s groups = (if cs_birthBlock s > in_toBlock i then groups else
     let start = max (cs_birthBlock s) (in_fromBlock i);
         addresses = (case map_of groups start of None \<Rightarrow> [] | Some a \<Rightarrow> a)
     in AList.update start (addresses @ [cs_address s]) groups)"

definition initial_groups :: "ingest_input \<Rightarrow> source_map \<Rightarrow> (int \<times> string list) list" where
  "initial_groups i known = fold (\<lambda>(_, s). group_source i s) known []"

record discovery =
  dv_known :: source_map
  dv_queried :: "string set"
  dv_logs :: block_logs

definition accept_source :: "rpc_block \<Rightarrow> string set \<Rightarrow> contract_source \<Rightarrow> source_map \<times> contract_source list
    \<Rightarrow> (source_map \<times> contract_source list) res" where
  "accept_source block queried s st = (case st of (known, discovered) \<Rightarrow>
     bindR (validateSource s) (\<lambda>_.
       if cs_birthBlock s \<noteq> bk_number block
       then Inl (Error ''new contract source must use its discovery block as birth block'')
       else if (case map_of known (cs_address s) of None \<Rightarrow> False
           | Some e \<Rightarrow> cs_module e \<noteq> cs_module s \<or> cs_runtimeCodeHash e \<noteq> cs_runtimeCodeHash s \<or> cs_birthBlock e \<noteq> cs_birthBlock s)
       then Inl (Error ''contract source identity conflict'')
       else Inr (AList.update (cs_address s) s known,
                 if cs_address s \<notin> queried then discovered @ [s] else discovered)))"

definition logs_at :: "block_logs \<Rightarrow> int \<Rightarrow> chain_log list" where
  "logs_at m n = (case map_of m n of None \<Rightarrow> [] | Some at \<Rightarrow> map snd at)"

fun discovery_rounds :: "host \<Rightarrow> ingest_input \<Rightarrow> rpc_block list \<Rightarrow> rpc_block \<Rightarrow> nat \<Rightarrow> discovery \<Rightarrow> discovery res" where
  "discovery_rounds H i blocks block 0 st = Inr st"
| "discovery_rounds H i blocks block (Suc rounds) st =
     bindR (in_discover i (logs_at (dv_logs st) (bk_number block)) block) (\<lambda>sources.
     bindR (foldR (accept_source block (dv_queried st)) sources (dv_known st, [])) (\<lambda>(known, discovered).
       if discovered = [] then Inr (st\<lparr>dv_known := known\<rparr>)
       else bindR (fetchAndMergeLogs H i blocks (bk_number block) (map cs_address discovered) (dv_logs st)) (\<lambda>m.
         discovery_rounds H i blocks block rounds
           \<lparr>dv_known = known, dv_queried = dv_queried st \<union> set (map cs_address discovered), dv_logs = m\<rparr>)))"

definition collect :: "host \<Rightarrow> ingest_input \<Rightarrow> rpc_block list \<Rightarrow> source_map \<Rightarrow> discovery res" where
  "collect H i blocks known =
     bindR (foldR (\<lambda>(start, addresses). fetchAndMergeLogs H i blocks start addresses)
         (initial_groups i known) (map (\<lambda>b. (bk_number b, [])) blocks)) (\<lambda>m.
       foldR (\<lambda>block. discovery_rounds H i blocks block 8) blocks
         \<lparr>dv_known = known, dv_queried = set (concat (map snd (initial_groups i known))), dv_logs = m\<rparr>)"

definition store_block :: "rpc_block \<Rightarrow> chain_db \<times> int \<Rightarrow> (chain_db \<times> int) res" where
  "store_block b st = (case st of (db, generation) \<Rightarrow>
     let orphaned = map br_hash (filter (conflicting b) (cd_blocks db));
         db' = db\<lparr>cd_blocks := map (\<lambda>r. if conflicting b r then orphan_row r else r) (cd_blocks db)\<rparr>;
         db'' = (if orphaned = [] then db' else db'\<lparr>cd_logs := orphan_logs (set orphaned) (cd_logs db')\<rparr>)
     in bindR (upsert_block b db'') (\<lambda>db3.
          Inr (db3, if orphaned = [] then generation else generation + 1)))"

definition parent_mismatch :: "ingestion_checkpoint \<Rightarrow> rpc_block option \<Rightarrow> bool" where
  "parent_mismatch c first = (case ck_last c of None \<Rightarrow> False | Some h \<Rightarrow> h \<noteq> [] \<and> map_option bk_parentHash first \<noteq> Some h)"

text \<open>The transaction of a complete range.\<close>

definition commit_blocks :: "ingest_input \<Rightarrow> rpc_block list \<Rightarrow> contract_source list \<Rightarrow> chain_log list \<Rightarrow> string
    \<Rightarrow> chain_db \<Rightarrow> (chain_db \<times> int) res" where
  "commit_blocks i blocks sources ls filterDigest db =
     bindR (insert_checkpoint (in_stream i) (in_fromBlock i) db) (\<lambda>db1.
       case map_of (cd_checkpoints db1) (in_stream i) of
         None \<Rightarrow> Inl (Error ''ingestion checkpoint does not match requested range'')
       | Some current \<Rightarrow>
         if ck_next current \<noteq> in_fromBlock i then Inl (Error ''ingestion checkpoint does not match requested range'')
         else if parent_mismatch current (case blocks of [] \<Rightarrow> None | b # _ \<Rightarrow> Some b)
         then Inl (ReorgDetectedError ''stored checkpoint parent hash mismatch'')
         else bindR (foldR store_block blocks (db1, ck_generation current)) (\<lambda>(db2, generation).
           bindR (foldR insert_source sources db2) (\<lambda>db3.
           bindR (foldR upsert_log ls db3) (\<lambda>db4.
           bindR (insert_range (range_of (in_fromBlock i) (in_toBlock i) generation filterDigest) db4) (\<lambda>db5.
           bindR (save_checkpoint (in_stream i) \<lparr>ck_next = in_toBlock i + 1,
               ck_last = (if blocks = [] then None else Some (bk_hash (last blocks))), ck_generation = generation\<rparr> db5) (\<lambda>db6.
             Inr (db6, generation)))))))"

definition ingestCanonicalRange :: "host \<Rightarrow> ingest_input \<Rightarrow> chain_db \<Rightarrow> (chain_db \<times> ingest_result) res" where
  "ingestCanonicalRange H i db =
    (if in_toBlock i < in_fromBlock i \<or> in_toBlock i - in_fromBlock i \<ge> 10
     then Inl (Error ''ingestion range must contain 1 to 10 blocks'')
     else if \<not> is_token (in_stream i) then Inl (Error ''invalid ingestion stream'')
     else bindR (validateDeployment (in_deployment i)) (\<lambda>_.
       bindR (sqlIdentifier (in_schemaName i)) (\<lambda>_.
       bindR (known_sources (in_sources i)) (\<lambda>known.
       bindR (read_blocks i) (\<lambda>blocks.
       bindR (collect H i blocks known) (\<lambda>found.
         let ls = js_sort compareLogs (concat (map (map snd \<circ> snd) (dv_logs found)));
             filterDigest = digest H (sources_json H (dv_known found) (in_toBlock i))
         in bindR (commit_blocks i blocks (map snd (dv_known found)) ls filterDigest db) (\<lambda>(db', generation).
           Inr (db', \<lparr>ir_blocks = length blocks, ir_logs = length ls, ir_sources = length (dv_known found),
             ir_generation = generation, ir_filterDigest = filterDigest\<rparr>))))))))"

end
