(* ===== verification/Chain_Sparse.thy ===== *)
theory Chain_Sparse imports Chain_Ingest begin

text \<open>
  \<open>ingestFinalizedSparseRange\<close>, which stores only the blocks with matched logs and the ends of a long
  range, \<open>rewindCanonicalChain\<close> and \<open>findCommonAncestor\<close>, the two halves of the recovery from a
  reorganization.
\<close>

section \<open>Ingesting a long finalized range\<close>

record sparse_query =
  sq_addresses :: "string list"
  sq_topics :: "topic_filter list"

record sparse_input = ingest_input +
  in_eventTopics :: "string list"
  in_excludedAddresses :: "string list"
  in_additionalQueries :: "chain_log list \<Rightarrow> sparse_query list res"

text \<open>The windows of at most 10000 blocks a query is split into.\<close>

function windows :: "int \<Rightarrow> int \<Rightarrow> (int \<times> int) list" where
  "windows cursor toBlock = (if cursor > toBlock then []
     else (cursor, if cursor + 9999 < toBlock then cursor + 9999 else toBlock) # windows (cursor + 10000) toBlock)"
  by pat_completeness auto
termination by (relation "measure (\<lambda>(cursor, toBlock). nat (toBlock - cursor + 1))") auto

declare windows.simps [simp del]

definition put_sparse_log :: "int \<times> int \<Rightarrow> chain_log \<Rightarrow> log_map \<Rightarrow> log_map res" where
  "put_sparse_log w l m = (if lg_blockNumber l < fst w \<or> lg_blockNumber l > snd w \<or> lg_removed l
     then Inl (RpcError ''RPC returned an invalid sparse range log'' False)
     else Inr (AList.update (logIdentity l) l m))"

definition fetchQuery :: "host \<Rightarrow> sparse_input \<Rightarrow> transport \<Rightarrow> int \<Rightarrow> sparse_query \<Rightarrow> log_map \<Rightarrow> log_map res" where
  "fetchQuery H i secondary fromBlock q m =
     foldR (\<lambda>w m. foldR (\<lambda>batch m.
         bindR (transport_logs (in_primary i) (fst w) (snd w) batch (Some (sq_topics q))) (\<lambda>primaryLogs.
         bindR (transport_logs secondary (fst w) (snd w) batch (Some (sq_topics q))) (\<lambda>secondaryLogs.
           if logSetDigest H primaryLogs \<noteq> logSetDigest H secondaryLogs
           then Inl (RpcError ''RPC providers disagree on sparse range logs'' False)
           else foldR (put_sparse_log w) primaryLogs m)))
         (chunks (sq_addresses q) 100) m)
       (windows fromBlock (in_toBlock i)) m"

record sparse_state =
  ss_known :: source_map
  ss_queried :: "string set"
  ss_logs :: log_map
  ss_headers :: "(int \<times> rpc_block) list"

definition group_sparse :: "sparse_input \<Rightarrow> contract_source \<Rightarrow> string set \<times> (int \<times> string list) list
    \<Rightarrow> string set \<times> (int \<times> string list) list" where
  "group_sparse i s st = (case st of (queried, groups) \<Rightarrow>
     if cs_address s \<in> set (in_excludedAddresses i) \<or> cs_birthBlock s > in_toBlock i \<or> cs_address s \<in> queried then st
     else let start = max (cs_birthBlock s) (in_fromBlock i);
              addresses = (case map_of groups start of None \<Rightarrow> [] | Some a \<Rightarrow> a)
       in (insert (cs_address s) queried, AList.update start (addresses @ [cs_address s]) groups))"

definition querySources :: "host \<Rightarrow> sparse_input \<Rightarrow> transport \<Rightarrow> contract_source list \<Rightarrow> sparse_state \<Rightarrow> sparse_state res" where
  "querySources H i secondary sources st =
     (let (queried, groups) = fold (group_sparse i) sources (ss_queried st, []) in
      bindR (foldR (\<lambda>(start, addresses). fetchQuery H i secondary start
            \<lparr>sq_addresses = addresses, sq_topics = [TopicIn (in_eventTopics i)]\<rparr>) groups (ss_logs st)) (\<lambda>m.
        Inr (st\<lparr>ss_queried := queried, ss_logs := m\<rparr>)))"

text \<open>
  \<open>new Set\<close> keeps first occurrences. The headers of one batch are requested concurrently; the blocks
  read are the same as one after another.
\<close>

definition first_occurrences :: "'a list \<Rightarrow> 'a list" where
  "first_occurrences xs = rev (remdups (rev xs))"

definition loadHeaders :: "sparse_input \<Rightarrow> int list \<Rightarrow> (int \<times> rpc_block) list \<Rightarrow> (int \<times> rpc_block) list res" where
  "loadHeaders i numbers headers =
     (let missing = filter (\<lambda>n. n \<notin> set (map fst headers)) (first_occurrences numbers) in
      foldR (\<lambda>batch h. bindR (mapR (consensusBlock (in_primary i) (in_secondary i)) batch) (\<lambda>resolved.
          Inr (fold (\<lambda>b. AList.update (bk_number b) b) resolved h)))
        (chunks missing 16) headers)"

definition compareBlocks :: "rpc_block \<Rightarrow> rpc_block \<Rightarrow> int" where
  "compareBlocks a b = (if bk_number a < bk_number b then - 1 else 1)"

definition ordered_headers :: "(int \<times> rpc_block) list \<Rightarrow> rpc_block list" where
  "ordered_headers headers = js_sort compareBlocks (map snd headers)"

definition accept_sparse_source :: "contract_source \<Rightarrow> source_map \<times> contract_source list
    \<Rightarrow> (source_map \<times> contract_source list) res" where
  "accept_sparse_source s st = (case st of (known, discovered) \<Rightarrow>
     bindR (validateSource s) (\<lambda>_.
       case map_of known (cs_address s) of
         None \<Rightarrow> Inr (AList.update (cs_address s) s known, discovered @ [s])
       | Some e \<Rightarrow> if cs_module e \<noteq> cs_module s \<or> cs_runtimeCodeHash e \<noteq> cs_runtimeCodeHash s \<or> cs_birthBlock e > cs_birthBlock s
           then Inl (Error ''contract source identity conflict'') else Inr st))"

definition discover_batch :: "sparse_input \<Rightarrow> log_map \<Rightarrow> rpc_block list \<Rightarrow> source_map \<times> contract_source list
    \<Rightarrow> (source_map \<times> contract_source list) res" where
  "discover_batch i m batch st =
     bindR (mapR (\<lambda>b. in_discover i (filter (\<lambda>l. lg_blockNumber l = bk_number b) (map snd m)) b) batch) (\<lambda>found.
       foldR accept_sparse_source (concat found) st)"

fun sparse_rounds :: "host \<Rightarrow> sparse_input \<Rightarrow> transport \<Rightarrow> nat \<Rightarrow> sparse_state \<Rightarrow> sparse_state res" where
  "sparse_rounds H i secondary 0 st = Inr st"
| "sparse_rounds H i secondary (Suc rounds) st =
     bindR (loadHeaders i (map (lg_blockNumber \<circ> snd) (ss_logs st)) (ss_headers st)) (\<lambda>headers.
     bindR (foldR (discover_batch i (ss_logs st)) (chunks (ordered_headers headers) 8) (ss_known st, [])) (\<lambda>(known, discovered).
       let st' = st\<lparr>ss_headers := headers, ss_known := known\<rparr> in
       if discovered = [] then Inr st'
       else bindR (querySources H i secondary discovered st') (sparse_rounds H i secondary rounds)))"

definition additional_logs :: "host \<Rightarrow> sparse_input \<Rightarrow> transport \<Rightarrow> sparse_query list \<Rightarrow> log_map \<Rightarrow> log_map res" where
  "additional_logs H i secondary qs m =
     foldR (\<lambda>q m. if sq_addresses q = [] then Inr m else fetchQuery H i secondary (in_fromBlock i) q m) qs m"

definition check_header :: "sparse_input \<Rightarrow> rpc_block \<Rightarrow> unit \<Rightarrow> unit res" where
  "check_header i b u = ensure (isFinalized b (in_observedHead i) (in_delayBlocks i) (in_delaySeconds i))
     (RpcError ''sparse range includes a non-finalized block'' False)"

definition check_sparse_log :: "(int \<times> rpc_block) list \<Rightarrow> chain_log \<Rightarrow> unit \<Rightarrow> unit res" where
  "check_sparse_log headers l u = ensure (map_option bk_hash (map_of headers (lg_blockNumber l)) = Some (lg_blockHash l))
     (RpcError ''RPC log is not canonical for sparse range'' False)"

fun topic_json :: "topic_filter \<Rightarrow> json" where
  "topic_json AnyTopic = JNull"
| "topic_json (OneTopic t) = JText t"
| "topic_json (TopicIn ts) = JArray (map JText ts)"

definition query_json :: "sparse_query \<Rightarrow> json" where
  "query_json q = JObject [(''addresses'', JArray (map JText (sq_addresses q))), (''topics'', JArray (map topic_json (sq_topics q)))]"

text \<open>The transaction: an existing canonical block of another hash is never replaced here.\<close>

definition store_sparse_block :: "rpc_block \<Rightarrow> chain_db \<Rightarrow> chain_db res" where
  "store_sparse_block b db = (if list_ex (conflicting b) (cd_blocks db)
     then Inl (ReorgDetectedError ''sparse range conflicts with stored canonical block'') else upsert_block b db)"

definition commit_sparse :: "sparse_input \<Rightarrow> (int \<times> rpc_block) list \<Rightarrow> contract_source list \<Rightarrow> chain_log list \<Rightarrow> string
    \<Rightarrow> chain_db \<Rightarrow> (chain_db \<times> int) res" where
  "commit_sparse i headers sources ls filterDigest db =
     bindR (insert_checkpoint (in_stream i) (in_fromBlock i) db) (\<lambda>db1.
       case map_of (cd_checkpoints db1) (in_stream i) of
         None \<Rightarrow> Inl (Error ''ingestion checkpoint does not match requested sparse range'')
       | Some current \<Rightarrow>
         if ck_next current \<noteq> in_fromBlock i then Inl (Error ''ingestion checkpoint does not match requested sparse range'')
         else if parent_mismatch current (map_of headers (in_fromBlock i))
         then Inl (ReorgDetectedError ''stored checkpoint parent hash mismatch'')
         else bindR (foldR store_sparse_block (ordered_headers headers) db1) (\<lambda>db2.
           bindR (foldR insert_source sources db2) (\<lambda>db3.
           bindR (foldR upsert_log ls db3) (\<lambda>db4.
           bindR (insert_range (range_of (in_fromBlock i) (in_toBlock i) (ck_generation current) filterDigest) db4) (\<lambda>db5.
             case map_of headers (in_toBlock i) of
               None \<Rightarrow> Inl (TypeError ''Cannot read properties of undefined'')
             | Some upper \<Rightarrow>
               bindR (save_checkpoint (in_stream i) (current\<lparr>ck_next := in_toBlock i + 1, ck_last := Some (bk_hash upper)\<rparr>) db5)
                 (\<lambda>db6. Inr (db6, ck_generation current)))))))"

definition ingestFinalizedSparseRange :: "host \<Rightarrow> sparse_input \<Rightarrow> chain_db \<Rightarrow> (chain_db \<times> ingest_result) res" where
  "ingestFinalizedSparseRange H i db =
    (if in_toBlock i < in_fromBlock i \<or> in_toBlock i - in_fromBlock i \<ge> 50000
     then Inl (Error ''sparse ingestion range must contain 1 to 50000 blocks'')
     else case in_secondary i of None \<Rightarrow> Inl (Error ''sparse ingestion requires two RPC providers'')
     | Some secondary \<Rightarrow>
       if in_eventTopics i = [] \<or> \<not> list_all is_hash (in_eventTopics i) then Inl (Error ''sparse ingestion event topics are invalid'')
       else if \<not> is_token (in_stream i) then Inl (Error ''invalid ingestion stream'')
       else bindR (validateDeployment (in_deployment i)) (\<lambda>_.
         bindR (sqlIdentifier (in_schemaName i)) (\<lambda>_.
         bindR (known_sources (in_sources i)) (\<lambda>known.
         bindR (querySources H i secondary (map snd known) \<lparr>ss_known = known, ss_queried = {}, ss_logs = [], ss_headers = []\<rparr>) (\<lambda>st0.
         bindR (sparse_rounds H i secondary 8 st0) (\<lambda>st.
         bindR (in_additionalQueries i (map snd (ss_logs st))) (\<lambda>qs.
         bindR (additional_logs H i secondary qs (ss_logs st)) (\<lambda>m.
         bindR (loadHeaders i (in_fromBlock i # in_toBlock i # map (lg_blockNumber \<circ> snd) m) (ss_headers st)) (\<lambda>headers.
         bindR (foldR (check_header i) (map snd headers) ()) (\<lambda>_.
         bindR (foldR (check_sparse_log headers) (map snd m) ()) (\<lambda>_.
           let ls = js_sort compareLogs (map snd m);
               filterDigest = digest H (JObject [(''sources'', sources_json H (ss_known st) (in_toBlock i)),
                 (''eventTopics'', JArray (map JText (sort (in_eventTopics i)))), (''additionalQueries'', JArray (map query_json qs))])
           in bindR (commit_sparse i headers (map snd (ss_known st)) ls filterDigest db) (\<lambda>(db', generation).
             Inr (db', \<lparr>ir_blocks = length headers, ir_logs = length ls, ir_sources = length (ss_known st),
               ir_generation = generation, ir_filterDigest = filterDigest\<rparr>)))))))))))))"

section \<open>Rewinding after a reorganization\<close>

text \<open>The part of the coverage that reaches the ancestor: a cursor and the filter of its last range.\<close>

fun cover_cursor :: "int \<Rightarrow> range_row list \<Rightarrow> int \<times> string option \<Rightarrow> int \<times> string option" where
  "cover_cursor ancestor [] st = st"
| "cover_cursor ancestor (r # rs) (cursor, filterDigest) =
     (let t = (if cr_to r > ancestor then ancestor else cr_to r) in
      if cr_from r > cursor then (cursor, filterDigest)
      else let st = (if t \<ge> cursor then (t + 1, Some (cr_filter r)) else (cursor, filterDigest)) in
        if fst st > ancestor then st else cover_cursor ancestor rs st)"

definition compareRanges :: "range_row \<Rightarrow> range_row \<Rightarrow> int" where
  "compareRanges a b = (if cr_from a \<noteq> cr_from b then cr_from a - cr_from b else cr_to a - cr_to b)"

definition orphan_above :: "int \<Rightarrow> chain_db \<Rightarrow> chain_db" where
  "orphan_above n db =
     (let orphaned = set (map br_hash (filter (\<lambda>r. br_number r > n \<and> br_canonical r) (cd_blocks db))) in
      db\<lparr>cd_logs := orphan_logs orphaned (cd_logs db),
         cd_blocks := map (\<lambda>r. if br_number r > n \<and> br_canonical r then orphan_row r else r) (cd_blocks db)\<rparr>)"

definition rewindCanonicalChain :: "deployment \<Rightarrow> string \<Rightarrow> string option \<Rightarrow> rpc_block \<Rightarrow> int \<Rightarrow> chain_db \<Rightarrow> (chain_db \<times> int) res" where
  "rewindCanonicalChain dp stream schemaName ancestor expectedNext db =
     bindR (validateDeployment dp) (\<lambda>_.
       if bk_number ancestor < dp_activationBlock dp then Inl (Error ''common ancestor is before deployment activation'')
       else bindR (sqlIdentifier schemaName) (\<lambda>_.
         if (case map_of (cd_checkpoints db) stream of None \<Rightarrow> - 1 | Some c \<Rightarrow> ck_next c) \<noteq> expectedNext
         then Inl (Error ''checkpoint changed before reorg rewind'')
         else if map_option br_hash (canonical_at db (bk_number ancestor)) \<noteq> Some (bk_hash ancestor)
         then Inl (Error ''common ancestor is not canonical in storage'')
         else case map_of (cd_checkpoints db) stream of
             None \<Rightarrow> Inl (TypeError ''Cannot read properties of undefined'')
           | Some c \<Rightarrow>
             let generation = ck_generation c + 1;
                 prior = js_sort compareRanges (filter (\<lambda>r. cr_generation r = ck_generation c \<and> cr_complete r
                   \<and> cr_from r \<le> bk_number ancestor) (cd_ranges db));
                 covered = cover_cursor (bk_number ancestor) prior (dp_activationBlock dp, None)
             in bindR (save_checkpoint stream \<lparr>ck_next = bk_number ancestor + 1, ck_last = Some (bk_hash ancestor),
                  ck_generation = generation\<rparr> (orphan_above (bk_number ancestor) db)) (\<lambda>db1.
                bindR (case snd covered of
                    Some f \<Rightarrow> if fst covered > bk_number ancestor \<and> f \<noteq> []
                      then insert_range_if_new (range_of (dp_activationBlock dp) (bk_number ancestor) generation f) db1
                      else Inr db1
                  | None \<Rightarrow> Inr db1) (\<lambda>db2. Inr (db2, generation)))))"

section \<open>The common ancestor\<close>

function ancestor_search :: "transport \<Rightarrow> transport option \<Rightarrow> chain_db \<Rightarrow> int \<Rightarrow> int \<Rightarrow> rpc_block res" where
  "ancestor_search primary secondary db lowest number =
    (if number < lowest then Inl (ReorgDetectedError ''common ancestor was not found within bounded depth'')
     else bindR (consensusBlock primary secondary number) (\<lambda>candidate.
       if map_option br_hash (canonical_at db number) = Some (bk_hash candidate) then Inr candidate
       else if number = 0 then Inl (ReorgDetectedError ''common ancestor was not found within bounded depth'')
       else ancestor_search primary secondary db lowest (number - 1)))"
  by pat_completeness auto
termination by (relation "measure (\<lambda>(_, _, _, lowest, number). nat (number - lowest + 1))") auto

declare ancestor_search.simps [simp del]

definition findCommonAncestor :: "deployment \<Rightarrow> transport \<Rightarrow> transport option \<Rightarrow> string option \<Rightarrow> int \<Rightarrow> int \<Rightarrow> chain_db \<Rightarrow> rpc_block res" where
  "findCommonAncestor dp primary secondary schemaName fromBlock maxDepth db =
     bindR (validateDeployment dp) (\<lambda>_.
       if fromBlock < 0 \<or> maxDepth < 0 \<or> maxDepth > 1000 then Inl (Error ''common ancestor search bounds are invalid'')
       else bindR (sqlIdentifier schemaName) (\<lambda>_.
         ancestor_search primary secondary db (if fromBlock > maxDepth then fromBlock - maxDepth else 0) fromBlock))"

end
