(* ===== verification/Chain_Ledger.thy ===== *)
theory Chain_Ledger imports Chain_Sparse begin

text \<open>
  The abstract view of the ingestion store, its set of canonical hashes, and the ledger invariant: stored
  rows match the headers their hashes commit to, canonical logs lie on canonical blocks, and the ranges of
  the current generation tile the blocks from activation to the checkpoint, each joined to the one
  before. The two ingestion transactions keep it.
\<close>

section \<open>The abstract store: hashes that are canonical\<close>

text \<open>
  A block hash commits to the header: \<open>hdr h\<close> is the number and the parent of the block whose hash is
  \<open>h\<close>. With it, a store is described by the set of its canonical hashes.
\<close>

type_synonym headers = "string \<Rightarrow> int \<times> string"

definition headers_agree :: "headers \<Rightarrow> transport \<Rightarrow> bool" where
  "headers_agree hdr tr \<longleftrightarrow> (\<forall>n b. transport_block tr n = Inr b \<longrightarrow> hdr (bk_hash b) = (bk_number b, bk_parentHash b))"

definition height :: "headers \<Rightarrow> string \<Rightarrow> int" where "height hdr h = fst (hdr h)"

definition parent :: "headers \<Rightarrow> string \<Rightarrow> string" where "parent hdr h = snd (hdr h)"

definition canon :: "chain_db \<Rightarrow> string set" where
  "canon db = br_hash ` {r \<in> set (cd_blocks db). br_canonical r}"

definition row_ok :: "headers \<Rightarrow> block_row \<Rightarrow> bool" where
  "row_ok hdr r \<longleftrightarrow> hdr (br_hash r) = (br_number r, br_parent r) \<and> is_hash (br_hash r) \<and> br_finalized r = br_canonical r"

definition rows_ok :: "headers \<Rightarrow> chain_db \<Rightarrow> bool" where
  "rows_ok hdr db \<longleftrightarrow> distinct (map br_hash (cd_blocks db)) \<and> (\<forall>r\<in>set (cd_blocks db). row_ok hdr r)
     \<and> unique_heights (cd_blocks db)"

definition logs_ok :: "chain_db \<Rightarrow> bool" where
  "logs_ok db \<longleftrightarrow> (\<forall>l\<in>set (cd_logs db). lr_canonical l \<longrightarrow> lr_block l \<in> canon db)"

definition block_ok :: "headers \<Rightarrow> rpc_block \<Rightarrow> bool" where
  "block_ok hdr b \<longleftrightarrow> hdr (bk_hash b) = (bk_number b, bk_parentHash b) \<and> is_hash (bk_hash b)"

named_theorems chain_defs \<open>the readings of the ledger's vocabulary\<close>

declare height_def [chain_defs] parent_def [chain_defs] row_ok_def [chain_defs] block_ok_def [chain_defs]

lemma consensus_block_ok:
  assumes "headers_agree hdr p" and "consensusBlock p s n = Inr b"
  shows "block_ok hdr b \<and> bk_number b = n"
proof -
  have "transport_block p n = Inr b"
    using assms(2) by (auto simp: consensusBlock_def res_simps split: option.splits if_splits)
  moreover from this have "block_typed b \<and> bk_number b = n"
    by (auto simp: transport_block_def res_simps dest: parseBlock_typed)
  ultimately show ?thesis
    using assms(1) by (simp add: headers_agree_def chain_defs block_typed_def)
qed

lemma canon_row: "h \<in> canon db \<longleftrightarrow> (\<exists>r\<in>set (cd_blocks db). br_canonical r \<and> br_hash r = h)"
  by (auto simp: canon_def)

lemma rows_ok_row: "rows_ok hdr db \<Longrightarrow> r \<in> set (cd_blocks db) \<Longrightarrow> row_ok hdr r"
  by (simp add: rows_ok_def)

lemma conflict_canon:
  "rows_ok hdr db \<Longrightarrow> block_ok hdr b \<Longrightarrow>
     (\<exists>r\<in>set (cd_blocks db). conflicting b r) \<longleftrightarrow> (\<exists>h\<in>canon db. height hdr h = bk_number b \<and> h \<noteq> bk_hash b)"
proof -
  assume ok: "rows_ok hdr db"
  have at: "br_number r = height hdr (br_hash r)" if "r \<in> set (cd_blocks db)" for r
    using rows_ok_row [OF ok that] by (simp add: chain_defs)
  then show ?thesis by (fastforce simp: conflicting_def canon_def)
qed

section \<open>Statements on the abstract store\<close>

lemma upsert_block_abs:
  assumes run: "upsert_block b db = Inr db'" and ok: "rows_ok hdr db" and b: "block_ok hdr b"
  shows "rows_ok hdr db' \<and> canon db' = insert (bk_hash b) (canon db) \<and> cd_logs db' = cd_logs db
    \<and> cd_sources db' = cd_sources db \<and> cd_ranges db' = cd_ranges db \<and> cd_checkpoints db' = cd_checkpoints db"
proof -
  define rows where "rows = (if bk_hash b \<in> set (map br_hash (cd_blocks db))
    then map (confirm_row b) (cd_blocks db) else cd_blocks db @ [block_row_of b])"
  have db': "db' = db\<lparr>cd_blocks := rows\<rparr>" and heights: "unique_heights rows"
    using run by (auto simp: upsert_block_def res_simps Let_def rows_def split: if_splits)
  have hashes: "br_hash (confirm_row b r) = br_hash r" for r by (simp add: confirm_row_def)
  have keeps: "row_ok hdr r \<Longrightarrow> row_ok hdr (confirm_row b r)" for r by (auto simp: confirm_row_def row_ok_def)
  have "row_ok hdr (block_row_of b)" using b by (simp add: chain_defs block_row_of_def)
  then have "\<forall>r\<in>set rows. row_ok hdr r" using ok keeps by (auto simp: rows_def rows_ok_def)
  moreover have "distinct (map br_hash rows)"
    using ok by (auto simp: rows_def rows_ok_def hashes block_row_of_def comp_def)
  ultimately have "rows_ok hdr db'" using heights by (simp add: rows_ok_def db')
  moreover have "br_hash ` {r \<in> set rows. br_canonical r} = insert (bk_hash b) (canon db)"
  proof (cases "bk_hash b \<in> set (map br_hash (cd_blocks db))")
    case True
    have "br_canonical (confirm_row b r) \<longleftrightarrow> br_canonical r \<or> br_hash r = bk_hash b" for r
      by (auto simp: confirm_row_def)
    with True show ?thesis by (force simp: rows_def canon_def hashes image_iff)
  next
    case False
    then have "{r \<in> set rows. br_canonical r} = insert (block_row_of b) {r \<in> set (cd_blocks db). br_canonical r}"
      by (auto simp: rows_def block_row_of_def)
    then show ?thesis by (simp add: canon_def block_row_of_def)
  qed
  ultimately show ?thesis by (simp add: db' canon_def)
qed

lemma upsert_log_abs:
  assumes run: "upsert_log l db = Inr db'" and ok: "logs_ok db" and l: "lg_blockHash l \<in> canon db"
  shows "logs_ok db' \<and> cd_blocks db' = cd_blocks db
    \<and> cd_sources db' = cd_sources db \<and> cd_ranges db' = cd_ranges db \<and> cd_checkpoints db' = cd_checkpoints db"
proof -
  have blocks: "cd_blocks db' = cd_blocks db"
    using run by (auto simp: upsert_log_def res_simps split: if_splits)
  then have same: "canon db' = canon db" by (simp add: canon_def)
  have "lr_block r \<in> canon db" if "r \<in> set (cd_logs db')" "lr_canonical r" for r
  proof (cases "list_ex (same_log l) (cd_logs db)")
    case True
    then have "r \<in> set (map (\<lambda>r. if same_log l r then r\<lparr>lr_canonical := True, lr_payload := serializeLog l\<rparr> else r) (cd_logs db))"
      using run that(1) by (auto simp: upsert_log_def res_simps)
    with that(2) ok l show ?thesis by (auto simp: logs_ok_def same_log_def split: if_splits)
  next
    case False
    then have "r \<in> set (cd_logs db) \<or> r = log_row_of l"
      using run that(1) by (auto simp: upsert_log_def res_simps split: if_splits)
    with that(2) ok l show ?thesis by (auto simp: logs_ok_def log_row_of_def)
  qed
  then have "logs_ok db'" by (auto simp: logs_ok_def same)
  moreover have "cd_sources db' = cd_sources db \<and> cd_ranges db' = cd_ranges db \<and> cd_checkpoints db' = cd_checkpoints db"
    using run by (auto simp: upsert_log_def res_simps split: if_splits)
  ultimately show ?thesis using blocks by simp
qed

lemma insert_source_abs:
  assumes "insert_source s db = Inr db'"
  shows "cd_blocks db' = cd_blocks db \<and> cd_logs db' = cd_logs db \<and> cd_ranges db' = cd_ranges db \<and> cd_checkpoints db' = cd_checkpoints db"
  using assms by (auto simp: insert_source_def res_simps split: if_splits)

lemma insert_range_abs:
  assumes "insert_range r db = Inr db'"
  shows "cd_blocks db' = cd_blocks db \<and> cd_logs db' = cd_logs db \<and> cd_checkpoints db' = cd_checkpoints db
    \<and> cd_ranges db' = cd_ranges db @ [r] \<and> cr_from r \<le> cr_to r"
  using assms by (auto simp: insert_range_def check_range_def res_simps split: if_splits)

lemma save_checkpoint_abs:
  assumes "save_checkpoint s c db = Inr db'"
  shows "cd_blocks db' = cd_blocks db \<and> cd_logs db' = cd_logs db \<and> cd_ranges db' = cd_ranges db
    \<and> map_of (cd_checkpoints db') s = (if map_of (cd_checkpoints db) s = None then None else Some c)"
proof -
  have eq: "db' = db\<lparr>cd_checkpoints := map (\<lambda>(t, old). if t = s then (t, c) else (t, old)) (cd_checkpoints db)\<rparr>"
    using assms by (auto simp: save_checkpoint_def res_simps)
  have "map_of (map (\<lambda>(t, old). if t = s then (t, c) else (t, old)) m) s = (if map_of m s = None then None else Some c)" for m
    by (induction m) auto
  then show ?thesis by (simp add: eq)
qed

lemma insert_checkpoint_abs:
  assumes "insert_checkpoint s f db = Inr db'"
  shows "cd_blocks db' = cd_blocks db \<and> cd_logs db' = cd_logs db \<and> cd_ranges db' = cd_ranges db
    \<and> map_of (cd_checkpoints db') s = Some (case map_of (cd_checkpoints db) s of Some c \<Rightarrow> c
        | None \<Rightarrow> \<lparr>ck_next = f, ck_last = None, ck_generation = 0\<rparr>)"
  using assms by (auto simp: insert_checkpoint_def res_simps map_add_def split: option.splits)

section \<open>Loops of the transactions\<close>

lemma store_block_abs:
  assumes run: "store_block b (db, g) = Inr (db', g')" and ok: "rows_ok hdr db" and b: "block_ok hdr b"
    and new: "\<forall>h\<in>canon db. height hdr h \<noteq> bk_number b"
  shows "g' = g \<and> rows_ok hdr db' \<and> canon db' = insert (bk_hash b) (canon db) \<and> cd_logs db' = cd_logs db
    \<and> cd_sources db' = cd_sources db \<and> cd_ranges db' = cd_ranges db \<and> cd_checkpoints db' = cd_checkpoints db"
proof -
  have none: "\<not> conflicting b r" if "r \<in> set (cd_blocks db)" for r
    using conflict_canon [OF ok b] new that by blast
  then have "map br_hash (filter (conflicting b) (cd_blocks db)) = []" by (simp add: filter_empty_conv)
  moreover have "map (\<lambda>r. if conflicting b r then orphan_row r else r) (cd_blocks db) = cd_blocks db"
    using none by (auto intro: map_idI)
  ultimately have "upsert_block b db = Inr db'" and "g' = g"
    using run by (auto simp: store_block_def Let_def res_simps)
  with upsert_block_abs [OF _ ok b] show ?thesis by simp
qed

lemma store_blocks_abs:
  assumes "foldR store_block blocks (db, g) = Inr (db', g')" and "rows_ok hdr db" and "\<forall>b\<in>set blocks. block_ok hdr b"
    and "distinct (map bk_number blocks)" and "\<forall>b\<in>set blocks. \<forall>h\<in>canon db. height hdr h \<noteq> bk_number b"
  shows "g' = g \<and> rows_ok hdr db' \<and> canon db' = canon db \<union> bk_hash ` set blocks \<and> cd_logs db' = cd_logs db
    \<and> cd_sources db' = cd_sources db \<and> cd_ranges db' = cd_ranges db \<and> cd_checkpoints db' = cd_checkpoints db"
  using assms
proof (induction blocks arbitrary: db g)
  case (Cons b blocks)
  from Cons.prems(1) obtain db1 g1 where one: "store_block b (db, g) = Inr (db1, g1)"
      and rest: "foldR store_block blocks (db1, g1) = Inr (db', g')"
    by (auto simp: res_simps)
  have abs1: "g1 = g" "rows_ok hdr db1" "canon db1 = insert (bk_hash b) (canon db)" "cd_logs db1 = cd_logs db"
    "cd_sources db1 = cd_sources db" "cd_ranges db1 = cd_ranges db" "cd_checkpoints db1 = cd_checkpoints db"
    using store_block_abs [OF one Cons.prems(2)] Cons.prems(3,5) by auto
  have "height hdr (bk_hash b) = bk_number b" using Cons.prems(3) by (simp add: chain_defs)
  then have "\<forall>b'\<in>set blocks. \<forall>h\<in>canon db1. height hdr h \<noteq> bk_number b'"
    using Cons.prems(4,5) unfolding abs1(3) by (metis image_eqI insert_iff list.set_intros(2) list.simps(9) list.set_map distinct.simps(2))
  moreover have "\<forall>b\<in>set blocks. block_ok hdr b" "distinct (map bk_number blocks)"
    using Cons.prems(3,4) by simp_all
  ultimately show ?case using Cons.IH [OF rest abs1(2)] abs1 by simp
qed simp

lemma store_sparse_abs:
  assumes "foldR store_sparse_block blocks db = Inr db'" and "rows_ok hdr db" and "\<forall>b\<in>set blocks. block_ok hdr b"
  shows "rows_ok hdr db' \<and> canon db' = canon db \<union> bk_hash ` set blocks \<and> cd_logs db' = cd_logs db
    \<and> cd_sources db' = cd_sources db \<and> cd_ranges db' = cd_ranges db \<and> cd_checkpoints db' = cd_checkpoints db"
  using assms
proof (induction blocks arbitrary: db)
  case (Cons b blocks)
  from Cons.prems(1) obtain db1 where one: "upsert_block b db = Inr db1" and rest: "foldR store_sparse_block blocks db1 = Inr db'"
    by (auto simp: res_simps) (auto simp: store_sparse_block_def res_simps)
  have abs1: "rows_ok hdr db1" "canon db1 = insert (bk_hash b) (canon db)" "cd_logs db1 = cd_logs db"
    "cd_sources db1 = cd_sources db" "cd_ranges db1 = cd_ranges db" "cd_checkpoints db1 = cd_checkpoints db"
    using upsert_block_abs [OF one Cons.prems(2)] Cons.prems(3) by auto
  have "\<forall>b\<in>set blocks. block_ok hdr b" using Cons.prems(3) by simp
  then show ?case using Cons.IH [OF rest abs1(1)] abs1 by simp
qed simp

lemma insert_sources_abs:
  assumes "foldR insert_source ss db = Inr db'"
  shows "cd_blocks db' = cd_blocks db \<and> cd_logs db' = cd_logs db \<and> cd_ranges db' = cd_ranges db \<and> cd_checkpoints db' = cd_checkpoints db"
  by (rule foldR_keeps [OF assms]) (auto dest: insert_source_abs)

lemma upsert_logs_abs:
  assumes "foldR upsert_log ls db = Inr db'" and "logs_ok db" and "\<forall>l\<in>set ls. lg_blockHash l \<in> canon db"
  shows "logs_ok db' \<and> cd_blocks db' = cd_blocks db \<and> cd_ranges db' = cd_ranges db \<and> cd_checkpoints db' = cd_checkpoints db"
proof (rule foldR_keeps [OF assms(1)])
  fix l s t
  assume l: "l \<in> set ls" and run: "upsert_log l s = Inr t"
    and I: "logs_ok s \<and> cd_blocks s = cd_blocks db \<and> cd_ranges s = cd_ranges db \<and> cd_checkpoints s = cd_checkpoints db"
  then have "canon s = canon db" by (simp add: canon_def)
  with upsert_log_abs [OF run] I l assms(3)
  show "logs_ok t \<and> cd_blocks t = cd_blocks db \<and> cd_ranges t = cd_ranges db \<and> cd_checkpoints t = cd_checkpoints db"
    by auto
qed (use assms(2) in simp)

section \<open>The ledger\<close>

text \<open>Coverage: the ranges of a generation, in the order they were stored, tile \<open>[cursor, next)\<close>.\<close>

fun tiles :: "int \<Rightarrow> range_row list \<Rightarrow> int \<Rightarrow> bool" where
  "tiles cursor [] next \<longleftrightarrow> cursor = next"
| "tiles cursor (r # rs) next \<longleftrightarrow> cr_from r = cursor \<and> cursor \<le> cr_to r \<and> tiles (cr_to r + 1) rs next"

definition generation_ranges :: "int \<Rightarrow> chain_db \<Rightarrow> range_row list" where
  "generation_ranges g db = filter (\<lambda>r. cr_generation r = g) (cd_ranges db)"

text \<open>A range starts on the block after the previous one: the parents of its ends meet.\<close>

definition joined :: "headers \<Rightarrow> string set \<Rightarrow> int \<Rightarrow> bool" where
  "joined hdr C n \<longleftrightarrow> (\<exists>h\<in>C. height hdr h = n \<and> parent hdr h \<in> C \<and> height hdr (parent hdr h) = n - 1)"

definition checkpoint_ok :: "headers \<Rightarrow> int \<Rightarrow> chain_db \<Rightarrow> ingestion_checkpoint \<Rightarrow> bool" where
  "checkpoint_ok hdr a db c \<longleftrightarrow> a < ck_next c \<and> 0 \<le> ck_generation c
     \<and> (\<forall>h\<in>canon db. a \<le> height hdr h \<and> height hdr h < ck_next c)
     \<and> (\<exists>h\<in>canon db. ck_last c = Some h \<and> height hdr h = ck_next c - 1 \<and> h \<noteq> [])
     \<and> (\<forall>r\<in>set (cd_ranges db). cr_complete r \<and> cr_filter r \<noteq> [] \<and> cr_generation r \<le> ck_generation c)
     \<and> tiles a (generation_ranges (ck_generation c) db) (ck_next c)
     \<and> (\<forall>r\<in>set (generation_ranges (ck_generation c) db). a < cr_from r \<longrightarrow> joined hdr (canon db) (cr_from r))"

definition ledger_ok :: "headers \<Rightarrow> int \<Rightarrow> string \<Rightarrow> chain_db \<Rightarrow> bool" where
  "ledger_ok hdr a stream db \<longleftrightarrow> rows_ok hdr db \<and> logs_ok db
     \<and> (case map_of (cd_checkpoints db) stream of
          None \<Rightarrow> canon db = {} \<and> cd_ranges db = []
        | Some c \<Rightarrow> checkpoint_ok hdr a db c)"

lemma tiles_append: "tiles a rs n \<Longrightarrow> n \<le> cr_to r \<Longrightarrow> cr_from r = n \<Longrightarrow> tiles a (rs @ [r]) (cr_to r + 1)"
  by (induction rs arbitrary: a) auto

lemma tiles_le: "tiles a rs n \<Longrightarrow> a \<le> n"
  by (induction rs arbitrary: a) force+

lemma tiles_bounds: "tiles a rs n \<Longrightarrow> r \<in> set rs \<Longrightarrow> a \<le> cr_from r \<and> cr_from r \<le> cr_to r \<and> cr_to r < n"
proof (induction rs arbitrary: a)
  case (Cons x rs)
  then show ?case using tiles_le [of "cr_to x + 1" rs n] by force
qed simp

text \<open>Ingestion only adds canonical blocks, in the generation it finds.\<close>

definition extends :: "string \<Rightarrow> chain_db \<Rightarrow> chain_db \<Rightarrow> bool" where
  "extends stream db db' \<longleftrightarrow> canon db \<subseteq> canon db' \<and> (\<exists>c'. map_of (cd_checkpoints db') stream = Some c'
     \<and> (\<forall>c. map_of (cd_checkpoints db) stream = Some c \<longrightarrow> ck_generation c' = ck_generation c))"

text \<open>What a transaction starts from: everything before block \<open>f\<close> is covered in generation \<open>g\<close>.\<close>

definition covered_to :: "headers \<Rightarrow> int \<Rightarrow> chain_db \<Rightarrow> int \<Rightarrow> int \<Rightarrow> bool" where
  "covered_to hdr a db g f \<longleftrightarrow> tiles a (generation_ranges g db) f \<and> 0 \<le> g
     \<and> (\<forall>r\<in>set (cd_ranges db). cr_complete r \<and> cr_filter r \<noteq> [] \<and> cr_generation r \<le> g)
     \<and> (\<forall>r\<in>set (generation_ranges g db). a < cr_from r \<longrightarrow> joined hdr (canon db) (cr_from r))
     \<and> (\<forall>h\<in>canon db. a \<le> height hdr h \<and> height hdr h < f)"

text \<open>Appending a range that ends a newly stored segment keeps the ledger. \<open>N\<close> is the set of new hashes.\<close>

lemma extend_checkpoint:
  assumes covered: "covered_to hdr a db g f"
    and new: "\<forall>h\<in>N. f \<le> height hdr h \<and> height hdr h \<le> t"
    and upper: "h \<in> N" "height hdr h = t" "h \<noteq> []" and digest: "d \<noteq> []"
    and start: "a < f \<longrightarrow> joined hdr (canon db \<union> N) f"
    and db': "canon db' = canon db \<union> N" "cd_ranges db' = cd_ranges db @ [range_of f t g d]"
  shows "checkpoint_ok hdr a db' \<lparr>ck_next = t + 1, ck_last = Some h, ck_generation = g\<rparr>"
proof -
  note cov = covered [unfolded covered_to_def]
  have ft: "f \<le> t" using new upper by auto
  have af: "a \<le> f" using tiles_le cov by blast
  have gen': "generation_ranges g db' = generation_ranges g db @ [range_of f t g d]"
    by (simp add: generation_ranges_def db' range_of_def)
  have "tiles a (generation_ranges g db') (t + 1)"
    using tiles_append [of a "generation_ranges g db" f "range_of f t g d"] cov ft by (simp add: gen' range_of_def)
  moreover have "joined hdr (canon db') n" if "joined hdr (canon db) n" for n
    using that by (auto simp: joined_def db'(1))
  then have "\<forall>r\<in>set (generation_ranges g db'). a < cr_from r \<longrightarrow> joined hdr (canon db') (cr_from r)"
    using cov start by (auto simp: gen' range_of_def db'(1))
  moreover have "\<forall>h\<in>canon db'. a \<le> height hdr h \<and> height hdr h < t + 1"
    using cov new ft af by (auto simp: db'(1))
  moreover have "\<forall>r\<in>set (cd_ranges db'). cr_complete r \<and> cr_filter r \<noteq> [] \<and> cr_generation r \<le> g"
    using cov digest by (auto simp: db'(2) range_of_def)
  ultimately show ?thesis
    using cov upper ft af db'(1) by (auto simp: checkpoint_ok_def)
qed

text \<open>The first statements of a transaction: the checkpoint is there, and it is at the requested block.\<close>

lemma open_checkpoint:
  assumes run: "insert_checkpoint stream f db = Inr db1" and ok: "ledger_ok hdr a stream db"
    and start: "map_of (cd_checkpoints db) stream = None \<longrightarrow> f = a"
    and c: "map_of (cd_checkpoints db1) stream = Some c" "ck_next c = f"
  shows "rows_ok hdr db1 \<and> logs_ok db1 \<and> covered_to hdr a db1 (ck_generation c) f
    \<and> (a < f \<longrightarrow> (\<exists>h\<in>canon db1. ck_last c = Some h \<and> height hdr h = f - 1 \<and> h \<noteq> []))"
proof -
  have same: "cd_blocks db1 = cd_blocks db" "cd_logs db1 = cd_logs db" "cd_ranges db1 = cd_ranges db"
    and c': "c = (case map_of (cd_checkpoints db) stream of Some c \<Rightarrow> c
        | None \<Rightarrow> \<lparr>ck_next = f, ck_last = None, ck_generation = 0\<rparr>)"
    using insert_checkpoint_abs [OF run] c(1) by simp_all
  have C: "canon db1 = canon db" by (simp add: canon_def same)
  have G: "generation_ranges g db1 = generation_ranges g db" for g by (simp add: generation_ranges_def same)
  have "rows_ok hdr db1" "logs_ok db1"
    using ok C by (auto simp: ledger_ok_def rows_ok_def logs_ok_def same)
  moreover have "covered_to hdr a db1 (ck_generation c) f
      \<and> (a < f \<longrightarrow> (\<exists>h\<in>canon db1. ck_last c = Some h \<and> height hdr h = f - 1 \<and> h \<noteq> []))"
  proof (cases "map_of (cd_checkpoints db) stream")
    case None
    then show ?thesis
      using ok start c' by (simp add: ledger_ok_def covered_to_def C G same generation_ranges_def)
  next
    case (Some x)
    then have "x = c" using c' by simp
    with Some ok c(2) show ?thesis
      by (simp add: ledger_ok_def covered_to_def checkpoint_ok_def C G same)
  qed
  ultimately show ?thesis by simp
qed

lemma open_checkpoint_same:
  assumes "insert_checkpoint stream f db = Inr db1" and "map_of (cd_checkpoints db1) stream = Some c"
  shows "canon db1 = canon db \<and> (\<forall>x. map_of (cd_checkpoints db) stream = Some x \<longrightarrow> ck_generation c = ck_generation x)"
  using insert_checkpoint_abs [OF assms(1)] assms(2) by (auto simp: canon_def)

lemma canon_cong: "cd_blocks db' = cd_blocks db \<Longrightarrow> canon db' = canon db"
  by (simp add: canon_def)

lemma logs_ok_cong: "cd_blocks db' = cd_blocks db \<Longrightarrow> cd_logs db' = cd_logs db \<Longrightarrow> logs_ok db' = logs_ok db"
  by (simp add: logs_ok_def canon_def)

text \<open>The last statements: sources, logs, the range and the checkpoint.\<close>

lemma close_checkpoint:
  assumes covered: "covered_to hdr a db g f" and rows: "rows_ok hdr db2" and logs: "logs_ok db"
    and db2: "canon db2 = canon db \<union> N" "cd_logs db2 = cd_logs db" "cd_ranges db2 = cd_ranges db"
      "map_of (cd_checkpoints db2) stream = Some c"
    and sources: "foldR insert_source ss db2 = Inr db3"
    and stored: "foldR upsert_log ls db3 = Inr db4" "\<forall>l\<in>set ls. lg_blockHash l \<in> N"
    and range: "insert_range (range_of f t g d) db4 = Inr db5"
    and saved: "save_checkpoint stream \<lparr>ck_next = t + 1, ck_last = Some h, ck_generation = g\<rparr> db5 = Inr db6"
    and new: "\<forall>h\<in>N. f \<le> height hdr h \<and> height hdr h \<le> t"
    and upper: "h \<in> N" "height hdr h = t" "h \<noteq> []" and digest: "d \<noteq> []"
    and start: "a < f \<longrightarrow> joined hdr (canon db \<union> N) f"
  shows "ledger_ok hdr a stream db6 \<and> canon db6 = canon db \<union> N
    \<and> map_of (cd_checkpoints db6) stream = Some \<lparr>ck_next = t + 1, ck_last = Some h, ck_generation = g\<rparr>"
proof -
  note s3 = insert_sources_abs [OF sources]
  have canon3: "canon db3 = canon db \<union> N" using s3 db2 by (simp add: canon_def)
  have logs3: "logs_ok db3"
    using logs canon3 s3 db2(2) by (auto simp: logs_ok_def)
  note s4 = upsert_logs_abs [OF stored(1) logs3]
  have "\<forall>l\<in>set ls. lg_blockHash l \<in> canon db3" using stored(2) canon3 by simp
  note s4 = s4 [OF this]
  note s5 = insert_range_abs [OF range]
  note s6 = save_checkpoint_abs [OF saved]
  have blocks: "cd_blocks db6 = cd_blocks db2" using s3 s4 s5 s6 by simp
  have C: "canon db6 = canon db \<union> N" using blocks db2(1) by (simp add: canon_def)
  have "logs_ok db6" using s4 s5 s6 logs_ok_cong [of db6 db4] by simp
  moreover have "rows_ok hdr db6" using rows blocks by (simp add: rows_ok_def)
  moreover have "cd_ranges db6 = cd_ranges db @ [range_of f t g d]" using s3 s4 s5 s6 db2(3) by simp
  from extend_checkpoint [OF covered new upper digest start C this]
  have "checkpoint_ok hdr a db6 \<lparr>ck_next = t + 1, ck_last = Some h, ck_generation = g\<rparr>" .
  moreover have "map_of (cd_checkpoints db6) stream = Some \<lparr>ck_next = t + 1, ck_last = Some h, ck_generation = g\<rparr>"
    using s3 s4 s5 s6 db2(4) by simp
  ultimately show ?thesis using C by (simp add: ledger_ok_def)
qed

text \<open>A segment whose first block has the checkpoint's block as parent is joined to it.\<close>

lemma joined_start:
  assumes "a < f \<longrightarrow> (\<exists>h\<in>canon db. ck_last c = Some h \<and> height hdr h = f - 1 \<and> h \<noteq> [])"
    and "\<not> parent_mismatch c (Some b)" and "block_ok hdr b" and "bk_number b = f" and "bk_hash b \<in> N"
  shows "a < f \<longrightarrow> joined hdr (canon db \<union> N) f"
proof
  assume "a < f"
  then obtain h where h: "h \<in> canon db" "ck_last c = Some h" "height hdr h = f - 1" "h \<noteq> []" using assms(1) by blast
  then have "parent hdr (bk_hash b) = h" "height hdr (bk_hash b) = f"
    using assms(2,3,4) by (simp_all add: parent_mismatch_def chain_defs)
  with h assms(5) show "joined hdr (canon db \<union> N) f" by (auto simp: joined_def)
qed

section \<open>The two transactions keep the ledger\<close>

lemma commit_blocks_parts:
  assumes "commit_blocks i blocks ss ls d db = Inr (db6, g)"
  obtains db1 c db2 db3 db4 db5 where
    "insert_checkpoint (in_stream i) (in_fromBlock i) db = Inr db1"
    "map_of (cd_checkpoints db1) (in_stream i) = Some c" "ck_next c = in_fromBlock i"
    "\<not> parent_mismatch c (case blocks of [] \<Rightarrow> None | b # _ \<Rightarrow> Some b)"
    "foldR store_block blocks (db1, ck_generation c) = Inr (db2, g)"
    "foldR insert_source ss db2 = Inr db3" "foldR upsert_log ls db3 = Inr db4"
    "insert_range (range_of (in_fromBlock i) (in_toBlock i) g d) db4 = Inr db5"
    "save_checkpoint (in_stream i) \<lparr>ck_next = in_toBlock i + 1,
       ck_last = (if blocks = [] then None else Some (bk_hash (last blocks))), ck_generation = g\<rparr> db5 = Inr db6"
  using assms unfolding commit_blocks_def by (simp only: res_simps case_prod_unfold) (auto simp: res_simps)

lemma last_number:
  assumes "map bk_number blocks = [f..t]" and "f \<le> t"
  shows "blocks \<noteq> [] \<and> bk_number (hd blocks) = f \<and> bk_number (last blocks) = t"
proof -
  have ne: "blocks \<noteq> []" using assms by auto
  have "[f..t] = f # [f + 1..t]" using assms(2) by (simp add: upto_rec1)
  moreover have "[f..t] = [f..t - 1] @ [t]" using assms(2) by (simp add: upto_rec2)
  ultimately show ?thesis
    using ne assms(1) by (metis hd_map last_map last_snoc list.sel(1))
qed

lemma commit_blocks_ledger:
  assumes run: "commit_blocks i blocks ss ls d db = Inr (db6, g)" and ok: "ledger_ok hdr a (in_stream i) db"
    and numbers: "map bk_number blocks = [in_fromBlock i..in_toBlock i]" "in_fromBlock i \<le> in_toBlock i"
    and blocks: "\<forall>b\<in>set blocks. block_ok hdr b" and logs: "\<forall>l\<in>set ls. lg_blockHash l \<in> bk_hash ` set blocks"
    and digest: "d \<noteq> []" and start: "map_of (cd_checkpoints db) (in_stream i) = None \<longrightarrow> in_fromBlock i = a"
  shows "ledger_ok hdr a (in_stream i) db6 \<and> extends (in_stream i) db db6"
proof -
  obtain db1 c db2 db3 db4 db5 where
    p: "insert_checkpoint (in_stream i) (in_fromBlock i) db = Inr db1"
    "map_of (cd_checkpoints db1) (in_stream i) = Some c" "ck_next c = in_fromBlock i"
    "\<not> parent_mismatch c (case blocks of [] \<Rightarrow> None | b # _ \<Rightarrow> Some b)"
    "foldR store_block blocks (db1, ck_generation c) = Inr (db2, g)"
    and tail: "foldR insert_source ss db2 = Inr db3" "foldR upsert_log ls db3 = Inr db4"
    "insert_range (range_of (in_fromBlock i) (in_toBlock i) g d) db4 = Inr db5"
    "save_checkpoint (in_stream i) \<lparr>ck_next = in_toBlock i + 1,
       ck_last = (if blocks = [] then None else Some (bk_hash (last blocks))), ck_generation = g\<rparr> db5 = Inr db6"
    by (rule commit_blocks_parts [OF run])
  note ends = last_number [OF numbers]
  have "rows_ok hdr db1" and logs1: "logs_ok db1" and cov: "covered_to hdr a db1 (ck_generation c) (in_fromBlock i)"
    and prev: "a < in_fromBlock i \<longrightarrow> (\<exists>h\<in>canon db1. ck_last c = Some h \<and> height hdr h = in_fromBlock i - 1 \<and> h \<noteq> [])"
    using open_checkpoint [OF p(1) ok start p(2,3)] by simp_all
  moreover have "\<forall>b\<in>set blocks. \<forall>h\<in>canon db1. height hdr h \<noteq> bk_number b"
  proof (intro ballI)
    fix b h assume "b \<in> set blocks" and h: "h \<in> canon db1"
    then have "bk_number b \<in> set [in_fromBlock i..in_toBlock i]" by (metis image_eqI numbers(1) list.set_map)
    with h cov show "height hdr h \<noteq> bk_number b" by (auto simp: covered_to_def)
  qed
  moreover have "distinct (map bk_number blocks)" by (simp add: numbers(1))
  ultimately have g: "g = ck_generation c" and db2: "rows_ok hdr db2" "canon db2 = canon db1 \<union> bk_hash ` set blocks"
    "cd_logs db2 = cd_logs db1" "cd_ranges db2 = cd_ranges db1" "cd_checkpoints db2 = cd_checkpoints db1"
    using store_blocks_abs [OF p(5) _ blocks] by simp_all
  have new: "\<forall>h\<in>bk_hash ` set blocks. in_fromBlock i \<le> height hdr h \<and> height hdr h \<le> in_toBlock i"
  proof (intro ballI)
    fix h assume "h \<in> bk_hash ` set blocks"
    then obtain b where b: "b \<in> set blocks" "h = bk_hash b" by blast
    then have "bk_number b \<in> set [in_fromBlock i..in_toBlock i]" by (metis image_eqI numbers(1) list.set_map)
    with b blocks show "in_fromBlock i \<le> height hdr h \<and> height hdr h \<le> in_toBlock i" by (simp add: chain_defs)
  qed
  have last: "last blocks \<in> set blocks" "hd blocks \<in> set blocks" using ends by simp_all
  then have upper: "bk_hash (last blocks) \<in> bk_hash ` set blocks" "height hdr (bk_hash (last blocks)) = in_toBlock i"
      "bk_hash (last blocks) \<noteq> []"
    using bspec [OF blocks last(1)] last(1) ends by (auto simp: chain_defs is_hash_def is_lower_hex_def)
  have "\<not> parent_mismatch c (Some (hd blocks))" using p(4) ends by (cases blocks) auto
  then have "a < in_fromBlock i \<longrightarrow> joined hdr (canon db1 \<union> bk_hash ` set blocks) (in_fromBlock i)"
    using joined_start [OF prev] blocks last ends by blast
  from close_checkpoint [OF cov [folded g] db2(1) logs1 db2(2-4) _ tail(1,2) logs tail(3) _ new upper digest this]
  have final: "ledger_ok hdr a (in_stream i) db6" "canon db6 = canon db1 \<union> bk_hash ` set blocks"
    "map_of (cd_checkpoints db6) (in_stream i) = Some \<lparr>ck_next = in_toBlock i + 1, ck_last = Some (bk_hash (last blocks)), ck_generation = g\<rparr>"
    using tail(4) ends p(2) db2(5) by simp_all
  from open_checkpoint_same [OF p(1,2)] final(2,3) g have "extends (in_stream i) db db6" by (simp add: extends_def)
  with final(1) show ?thesis by simp
qed

lemma commit_sparse_parts:
  assumes "commit_sparse i headers ss ls d db = Inr (db6, g)"
  obtains db1 c db2 db3 db4 db5 upper where
    "insert_checkpoint (in_stream i) (in_fromBlock i) db = Inr db1"
    "map_of (cd_checkpoints db1) (in_stream i) = Some c" "ck_next c = in_fromBlock i"
    "\<not> parent_mismatch c (map_of headers (in_fromBlock i))" "g = ck_generation c"
    "foldR store_sparse_block (ordered_headers headers) db1 = Inr db2"
    "foldR insert_source ss db2 = Inr db3" "foldR upsert_log ls db3 = Inr db4"
    "insert_range (range_of (in_fromBlock i) (in_toBlock i) g d) db4 = Inr db5"
    "map_of headers (in_toBlock i) = Some upper"
    "save_checkpoint (in_stream i) \<lparr>ck_next = in_toBlock i + 1, ck_last = Some (bk_hash upper), ck_generation = g\<rparr> db5 = Inr db6"
proof -
  have more: "c\<lparr>ck_next := n, ck_last := x\<rparr> = \<lparr>ck_next = n, ck_last = x, ck_generation = ck_generation c\<rparr>"
    for c :: ingestion_checkpoint and n x by simp
  show ?thesis
    using assms that unfolding commit_sparse_def by (simp only: res_simps more) (auto simp: res_simps)
qed

lemma commit_sparse_ledger:
  assumes run: "commit_sparse i headers ss ls d db = Inr (db6, g)" and ok: "ledger_ok hdr a (in_stream i) db"
    and keys: "in_fromBlock i \<in> set (map fst headers)" "distinct (map fst headers)"
    and headers: "\<forall>(n, b)\<in>set headers. bk_number b = n \<and> block_ok hdr b \<and> in_fromBlock i \<le> n \<and> n \<le> in_toBlock i"
    and logs: "\<forall>l\<in>set ls. lg_blockHash l \<in> bk_hash ` snd ` set headers"
    and digest: "d \<noteq> []" and start: "map_of (cd_checkpoints db) (in_stream i) = None \<longrightarrow> in_fromBlock i = a"
  shows "ledger_ok hdr a (in_stream i) db6 \<and> extends (in_stream i) db db6"
proof -
  obtain db1 c db2 db3 db4 db5 upper where
    p: "insert_checkpoint (in_stream i) (in_fromBlock i) db = Inr db1"
    "map_of (cd_checkpoints db1) (in_stream i) = Some c" "ck_next c = in_fromBlock i"
    "\<not> parent_mismatch c (map_of headers (in_fromBlock i))" "g = ck_generation c"
    "foldR store_sparse_block (ordered_headers headers) db1 = Inr db2"
    and tail: "foldR insert_source ss db2 = Inr db3" "foldR upsert_log ls db3 = Inr db4"
    "insert_range (range_of (in_fromBlock i) (in_toBlock i) g d) db4 = Inr db5"
    and u: "map_of headers (in_toBlock i) = Some upper"
    and saved: "save_checkpoint (in_stream i) \<lparr>ck_next = in_toBlock i + 1, ck_last = Some (bk_hash upper), ck_generation = g\<rparr> db5 = Inr db6"
    by (rule commit_sparse_parts [OF run])
  have set: "set (ordered_headers headers) = snd ` set headers" by (simp add: ordered_headers_def)
  have rows1: "rows_ok hdr db1" and logs1: "logs_ok db1" and cov: "covered_to hdr a db1 g (in_fromBlock i)"
    and prev: "a < in_fromBlock i \<longrightarrow> (\<exists>h\<in>canon db1. ck_last c = Some h \<and> height hdr h = in_fromBlock i - 1 \<and> h \<noteq> [])"
    using open_checkpoint [OF p(1) ok start p(2,3)] p(5) by simp_all
  have ok_headers: "\<forall>b\<in>set (ordered_headers headers). block_ok hdr b" using headers by (auto simp: set)
  note db2 = store_sparse_abs [OF p(6) rows1 ok_headers]
  have N: "bk_hash ` set (ordered_headers headers) = bk_hash ` snd ` set headers" by (simp add: set)
  have new: "\<forall>h\<in>bk_hash ` snd ` set headers. in_fromBlock i \<le> height hdr h \<and> height hdr h \<le> in_toBlock i"
    using headers by (auto simp: chain_defs)
  have "(in_toBlock i, upper) \<in> set headers" using u by (rule map_of_SomeD)
  then have upper: "bk_hash upper \<in> bk_hash ` snd ` set headers" "height hdr (bk_hash upper) = in_toBlock i" "bk_hash upper \<noteq> []"
    using headers by (force simp: chain_defs is_hash_def is_lower_hex_def)+
  obtain b where b: "(in_fromBlock i, b) \<in> set headers" using keys(1) by auto
  then have first: "map_of headers (in_fromBlock i) = Some b" using keys(2) by simp
  have joint: "a < in_fromBlock i \<longrightarrow> joined hdr (canon db1 \<union> bk_hash ` snd ` set headers) (in_fromBlock i)"
  proof (rule joined_start [OF prev])
    show "\<not> parent_mismatch c (Some b)" using p(4) unfolding first .
    show "block_ok hdr b" "bk_number b = in_fromBlock i" using b headers by auto
    show "bk_hash b \<in> bk_hash ` snd ` set headers" using b by force
  qed
  have store: "rows_ok hdr db2" "canon db2 = canon db1 \<union> bk_hash ` snd ` set headers" "cd_logs db2 = cd_logs db1"
    "cd_ranges db2 = cd_ranges db1" "map_of (cd_checkpoints db2) (in_stream i) = Some c"
    using db2 p(2) N by simp_all
  note final = close_checkpoint [OF cov store(1) logs1 store(2-5) tail(1,2) logs tail(3) saved new upper digest joint]
  from open_checkpoint_same [OF p(1,2)] final p(5) have "extends (in_stream i) db db6" by (simp add: extends_def)
  with final show ?thesis by simp
qed

end
