(* ===== verification/Chain_Reads.thy ===== *)
theory Chain_Reads imports Chain_Ledger begin

text \<open>
  What the reading phases of the two ingestions collect (blocks in sequence, logs and headers of the
  requested range only), and that the complete operations and the rewind keep the ledger invariant.
\<close>

section \<open>What the reading phase of a range collects\<close>

lemma set_update_cases: "x \<in> set (AList.update k v m) \<Longrightarrow> x = (k, v) \<or> x \<in> set m"
  by (induction m) (auto split: if_splits)

lemma read_blocks_facts:
  assumes "read_blocks i = Inr blocks" and "headers_agree hdr (in_primary i)"
  shows "map bk_number blocks = [in_fromBlock i..in_toBlock i] \<and> (\<forall>b\<in>set blocks. block_ok hdr b)"
proof -
  have "map bk_number bs = ns \<and> (\<forall>b\<in>set bs. block_ok hdr b)"
    if "foldR (read_block i) ns [] = Inr bs" for ns bs
  proof (rule foldR_invariant [OF that])
    fix pre n post s t
    assume "map bk_number s = pre \<and> (\<forall>b\<in>set s. block_ok hdr b)" and run: "read_block i n s = Inr t"
    moreover from run obtain b where "consensusBlock (in_primary i) (in_secondary i) n = Inr b" "t = s @ [b]"
      by (auto simp: read_block_def res_simps)
    moreover from this have "block_ok hdr b \<and> bk_number b = n" using consensus_block_ok assms(2) by blast
    ultimately show "map bk_number t = pre @ [n] \<and> (\<forall>b\<in>set t. block_ok hdr b)" by auto
  qed simp
  from this [OF assms(1) [unfolded read_blocks_def]] show ?thesis .
qed

definition logs_in :: "rpc_block list \<Rightarrow> block_logs \<Rightarrow> bool" where
  "logs_in blocks m \<longleftrightarrow> (\<forall>(n, at)\<in>set m. \<forall>(k, l)\<in>set at. lg_blockHash l \<in> bk_hash ` set blocks)"

lemma add_log_in:
  assumes "logs_in blocks m" and "lg_blockHash l \<in> bk_hash ` set blocks"
  shows "logs_in blocks (add_log l m)"
proof (cases "map_of m (lg_blockNumber l)")
  case (Some at)
  then have "\<forall>(k, x)\<in>set at. lg_blockHash x \<in> bk_hash ` set blocks"
    using assms(1) map_of_SomeD [OF Some] by (auto simp: logs_in_def)
  then have "\<forall>(k, x)\<in>set (AList.update (logIdentity l) l at). lg_blockHash x \<in> bk_hash ` set blocks"
    using assms(2) by (auto dest!: set_update_cases)
  then show ?thesis
    using assms(1) unfolding logs_in_def add_log_def Some option.case
    by (auto dest!: set_update_cases [of _ "lg_blockNumber l"])
qed (use assms in \<open>simp add: add_log_def\<close>)

lemma merge_log_in:
  assumes "logs_in blocks m" and "merge_log blocks l m = Inr m'"
  shows "logs_in blocks m'"
proof -
  obtain b where "find_block blocks (lg_blockNumber l) = Some b" "lg_blockHash l = bk_hash b" "m' = add_log l m"
    using assms(2) by (auto simp: merge_log_def res_simps)
  moreover from this have "b \<in> set blocks" by (auto simp: find_block_def find_Some_iff)
  ultimately show ?thesis using assms(1) by (simp add: add_log_in)
qed

lemma fetch_logs_in:
  assumes "fetchAndMergeLogs H i blocks f as m = Inr m'" and "logs_in blocks m"
  shows "logs_in blocks m'"
proof (rule foldR_keeps [OF assms(1) [unfolded fetchAndMergeLogs_def]])
  fix batch s t
  assume I: "logs_in blocks s"
    and run: "bindR (agreed_logs H i f (in_toBlock i) batch) (\<lambda>ls. foldR (merge_log blocks) ls s) = Inr t"
  obtain ls where "foldR (merge_log blocks) ls s = Inr t" using run by (auto simp: res_simps)
  then show "logs_in blocks t" by (rule foldR_keeps) (use I merge_log_in in blast)+
qed (rule assms(2))

lemma discovery_logs_in:
  "discovery_rounds H i blocks b n st = Inr st' \<Longrightarrow> logs_in blocks (dv_logs st) \<Longrightarrow> logs_in blocks (dv_logs st')"
proof (induction n arbitrary: st)
  case (Suc n)
  then show ?case by (auto simp: res_simps dest: fetch_logs_in split: if_splits)
qed simp

lemma collect_logs_in:
  assumes "collect H i blocks known = Inr found"
  shows "logs_in blocks (dv_logs found)"
proof -
  obtain m where m: "foldR (\<lambda>(start, as). fetchAndMergeLogs H i blocks start as)
      (initial_groups i known) (map (\<lambda>b. (bk_number b, [])) blocks) = Inr m"
    and rounds: "foldR (\<lambda>block. discovery_rounds H i blocks block 8) blocks
      \<lparr>dv_known = known, dv_queried = set (concat (map snd (initial_groups i known))), dv_logs = m\<rparr> = Inr found"
    using assms by (auto simp: collect_def res_simps)
  have "logs_in blocks (map (\<lambda>b. (bk_number b, [])) blocks)" by (auto simp: logs_in_def)
  from foldR_keeps [where I = "logs_in blocks", OF m this] have "logs_in blocks m" using fetch_logs_in by fastforce
  then have "logs_in blocks (dv_logs \<lparr>dv_known = known, dv_queried = set (concat (map snd (initial_groups i known))), dv_logs = m\<rparr>)"
    by simp
  from foldR_keeps [where I = "\<lambda>st. logs_in blocks (dv_logs st)", OF rounds this] show ?thesis
    using discovery_logs_in by blast
qed

lemma ingestCanonicalRange_parts:
  assumes "ingestCanonicalRange H i db = Inr (db', r)"
  obtains blocks found ss ls d where "in_fromBlock i \<le> in_toBlock i" "read_blocks i = Inr blocks"
    "\<forall>l\<in>set ls. lg_blockHash l \<in> bk_hash ` set blocks" "d \<noteq> []"
    "commit_blocks i blocks ss ls d db = Inr (db', ir_generation r)"
proof -
  obtain known blocks found g where r: "in_fromBlock i \<le> in_toBlock i" "read_blocks i = Inr blocks"
      "collect H i blocks known = Inr found"
    and run: "commit_blocks i blocks (map snd (dv_known found))
        (js_sort compareLogs (concat (map (map snd \<circ> snd) (dv_logs found))))
        (digest H (sources_json H (dv_known found) (in_toBlock i))) db = Inr (db', g)" and "ir_generation r = g"
    using assms unfolding ingestCanonicalRange_def by (auto simp: res_simps Let_def)
  moreover have "\<forall>l\<in>set (js_sort compareLogs (concat (map (map snd \<circ> snd) (dv_logs found)))). lg_blockHash l \<in> bk_hash ` set blocks"
    using collect_logs_in [OF r(3)] by (fastforce simp: logs_in_def)
  moreover have "digest H (sources_json H (dv_known found) (in_toBlock i)) \<noteq> []" by (simp add: digest_def)
  ultimately show ?thesis using that [OF r(1,2)] by blast
qed

theorem canonical_range_ledger:
  assumes run: "ingestCanonicalRange H i db = Inr (db', r)" and ok: "ledger_ok hdr a (in_stream i) db"
    and rpc: "headers_agree hdr (in_primary i)"
    and start: "map_of (cd_checkpoints db) (in_stream i) = None \<longrightarrow> in_fromBlock i = a"
  shows "ledger_ok hdr a (in_stream i) db' \<and> extends (in_stream i) db db'"
proof -
  obtain blocks ss ls d where p: "in_fromBlock i \<le> in_toBlock i" "read_blocks i = Inr blocks"
    "\<forall>l\<in>set ls. lg_blockHash l \<in> bk_hash ` set blocks" "d \<noteq> []"
    "commit_blocks i blocks ss ls d db = Inr (db', ir_generation r)"
    by (rule ingestCanonicalRange_parts [OF run])
  from read_blocks_facts [OF p(2) rpc] commit_blocks_ledger [OF p(5) ok _ p(1) _ p(3,4) start] show ?thesis by simp
qed

section \<open>What the reading phase of a long range collects\<close>

lemma windows_bounds: "w \<in> set (windows f t) \<Longrightarrow> f \<le> fst w \<and> snd w \<le> t"
proof (induction f t rule: windows.induct)
  case (1 f t)
  then show ?case by (subst (asm) windows.simps) (auto split: if_splits)
qed

definition logs_within :: "int \<Rightarrow> int \<Rightarrow> log_map \<Rightarrow> bool" where
  "logs_within f t m \<longleftrightarrow> (\<forall>(k, l)\<in>set m. f \<le> lg_blockNumber l \<and> lg_blockNumber l \<le> t)"

definition headers_within :: "headers \<Rightarrow> int \<Rightarrow> int \<Rightarrow> (int \<times> rpc_block) list \<Rightarrow> bool" where
  "headers_within hdr f t hs \<longleftrightarrow> distinct (map fst hs)
     \<and> (\<forall>(n, b)\<in>set hs. bk_number b = n \<and> block_ok hdr b \<and> f \<le> n \<and> n \<le> t)"

lemma fetchQuery_within:
  assumes run: "fetchQuery H i s start q m = Inr m'" and m: "logs_within f (in_toBlock i) m" and start: "f \<le> start"
  shows "logs_within f (in_toBlock i) m'"
proof (rule foldR_keeps [where I = "logs_within f (in_toBlock i)", OF run [unfolded fetchQuery_def] m])
  fix w x y
  assume w: "w \<in> set (windows start (in_toBlock i))" and I: "logs_within f (in_toBlock i) x"
    and "foldR (\<lambda>batch m.
         bindR (transport_logs (in_primary i) (fst w) (snd w) batch (Some (sq_topics q))) (\<lambda>primaryLogs.
         bindR (transport_logs s (fst w) (snd w) batch (Some (sq_topics q))) (\<lambda>secondaryLogs.
           if logSetDigest H primaryLogs \<noteq> logSetDigest H secondaryLogs
           then Inl (RpcError ''RPC providers disagree on sparse range logs'' False)
           else foldR (put_sparse_log w) primaryLogs m)))
         (chunks (sq_addresses q) 100) x = Inr y"
  then show "logs_within f (in_toBlock i) y"
  proof (elim foldR_keeps [where I = "logs_within f (in_toBlock i)"])
    fix batch u v
    assume u: "logs_within f (in_toBlock i) u" and "bindR (transport_logs (in_primary i) (fst w) (snd w) batch (Some (sq_topics q))) (\<lambda>primaryLogs.
         bindR (transport_logs s (fst w) (snd w) batch (Some (sq_topics q))) (\<lambda>secondaryLogs.
           if logSetDigest H primaryLogs \<noteq> logSetDigest H secondaryLogs
           then Inl (RpcError ''RPC providers disagree on sparse range logs'' False)
           else foldR (put_sparse_log w) primaryLogs u)) = Inr v"
    then obtain ls where "foldR (put_sparse_log w) ls u = Inr v" by (auto simp: res_simps)
    then show "logs_within f (in_toBlock i) v"
    proof (rule foldR_keeps [where I = "logs_within f (in_toBlock i)"])
      fix l p p'
      assume "logs_within f (in_toBlock i) p" and "put_sparse_log w l p = Inr p'"
      then show "logs_within f (in_toBlock i) p'"
        using windows_bounds [OF w] start
        by (auto simp: put_sparse_log_def logs_within_def res_simps dest!: set_update_cases)
    qed (rule u)
  qed
qed

lemma group_sparse_starts:
  "\<forall>(start, as)\<in>set (snd st). in_fromBlock i \<le> start \<Longrightarrow> \<forall>(start, as)\<in>set (snd (fold (group_sparse i) ss st)). in_fromBlock i \<le> start"
proof (induction ss arbitrary: st)
  case (Cons s ss)
  have "\<forall>(start, as)\<in>set (snd (group_sparse i s st)). in_fromBlock i \<le> start"
    using Cons.prems by (cases st) (auto simp: group_sparse_def Let_def dest!: set_update_cases)
  from Cons.IH [OF this] show ?case by simp
qed simp

lemma querySources_within:
  assumes "querySources H i s ss st = Inr st'" and "logs_within (in_fromBlock i) (in_toBlock i) (ss_logs st)"
  shows "logs_within (in_fromBlock i) (in_toBlock i) (ss_logs st') \<and> ss_headers st' = ss_headers st"
proof -
  define groups where "groups = snd (fold (group_sparse i) ss (ss_queried st, []))"
  have starts: "\<forall>(start, as)\<in>set groups. in_fromBlock i \<le> start"
    unfolding groups_def by (rule group_sparse_starts) simp
  obtain m where m: "foldR (\<lambda>(start, as). fetchQuery H i s start \<lparr>sq_addresses = as, sq_topics = [TopicIn (in_eventTopics i)]\<rparr>)
      groups (ss_logs st) = Inr m" and "ss_logs st' = m" "ss_headers st' = ss_headers st"
    using assms(1) by (auto simp: querySources_def res_simps groups_def case_prod_unfold Let_def)
  moreover have "logs_within (in_fromBlock i) (in_toBlock i) m"
    by (rule foldR_keeps [where I = "logs_within (in_fromBlock i) (in_toBlock i)", OF m assms(2)])
      (use starts fetchQuery_within in fastforce)
  ultimately show ?thesis by simp
qed

lemma chunks_concat: "0 < n \<Longrightarrow> concat (chunks xs n) = xs"
proof (induction xs n rule: chunks.induct)
  case (1 xs n)
  then show ?case by (subst chunks.simps) auto
qed

lemma chunks_subset: "b \<in> set (chunks xs n) \<Longrightarrow> set b \<subseteq> set xs"
proof (induction xs n rule: chunks.induct)
  case (1 xs n)
  then show ?case
    by (subst (asm) chunks.simps) (auto split: if_splits dest: in_set_takeD in_set_dropD)
qed

lemma set_keys_update: "set (map fst (AList.update k v m)) = insert k (set (map fst m))"
  by (induction m) auto

lemma put_headers:
  "headers_within hdr f t hs \<Longrightarrow> \<forall>b\<in>set bs. block_ok hdr b \<and> f \<le> bk_number b \<and> bk_number b \<le> t \<Longrightarrow>
     headers_within hdr f t (fold (\<lambda>b. AList.update (bk_number b) b) bs hs)
     \<and> set (map fst (fold (\<lambda>b. AList.update (bk_number b) b) bs hs)) = set (map fst hs) \<union> bk_number ` set bs"
proof (induction bs arbitrary: hs)
  case (Cons b bs)
  have "headers_within hdr f t (AList.update (bk_number b) b hs)"
    using Cons.prems by (auto simp: headers_within_def distinct_update dest!: set_update_cases)
  from Cons.IH [OF this] Cons.prems(2) show ?case
    by (simp only: fold.simps comp_def set_keys_update list.set image_insert list.set_intros) auto
qed simp

lemma loadHeaders_within:
  assumes run: "loadHeaders i ns hs = Inr hs'" and hs: "headers_within hdr f t hs" and rpc: "headers_agree hdr (in_primary i)"
    and ns: "\<forall>n\<in>set ns. f \<le> n \<and> n \<le> t"
  shows "headers_within hdr f t hs' \<and> set ns \<subseteq> set (map fst hs') \<and> set (map fst hs) \<subseteq> set (map fst hs')"
proof -
  define missing where "missing = filter (\<lambda>n. n \<notin> set (map fst hs)) (first_occurrences ns)"
  define keys where "keys x = set (map fst x)" for x :: "(int \<times> rpc_block) list"
  have missing: "set missing = set ns - keys hs"
    by (auto simp: missing_def first_occurrences_def keys_def)
  have step: "headers_within hdr f t y \<and> keys y = keys x \<union> set batch"
    if sub: "set batch \<subseteq> set ns" and x: "headers_within hdr f t x"
      and one: "bindR (mapR (consensusBlock (in_primary i) (in_secondary i)) batch)
        (\<lambda>resolved. Inr (fold (\<lambda>b. AList.update (bk_number b) b) resolved x)) = Inr y"
    for batch and x y :: "(int \<times> rpc_block) list"
  proof -
    obtain bs where bs: "mapR (consensusBlock (in_primary i) (in_secondary i)) batch = Inr bs"
        and y: "y = fold (\<lambda>b. AList.update (bk_number b) b) bs x"
      using one by (auto simp: res_simps)
    have rel: "list_all2 (\<lambda>n b. block_ok hdr b \<and> bk_number b = n) batch bs"
      using bs consensus_block_ok [OF rpc] by (auto simp: mapR_eq_Inr elim: list_all2_mono)
    then have "bk_number ` set bs = set batch"
      by (auto simp: list_all2_conv_all_nth set_conv_nth image_iff) metis+
    moreover from this rel have "\<forall>b\<in>set bs. block_ok hdr b \<and> f \<le> bk_number b \<and> bk_number b \<le> t"
      using sub ns by (auto simp: list_all2_conv_all_nth set_conv_nth)
    ultimately show ?thesis using put_headers [OF x] by (simp add: y keys_def)
  qed
  define P where "P pre x \<longleftrightarrow> headers_within hdr f t x \<and> keys x = keys hs \<union> set (concat pre)" for pre x
  have "P (chunks missing 16) hs'"
  proof (rule foldR_invariant [where P = P])
    show "foldR (\<lambda>batch h. bindR (mapR (consensusBlock (in_primary i) (in_secondary i)) batch)
      (\<lambda>resolved. Inr (fold (\<lambda>b. AList.update (bk_number b) b) resolved h))) (chunks missing 16) hs = Inr hs'"
      using run by (simp add: loadHeaders_def missing_def)
    show "P [] hs" using hs by (simp add: P_def)
  next
    fix pre batch post x y
    assume split: "chunks missing 16 = pre @ batch # post" and x: "P pre x"
      and run: "bindR (mapR (consensusBlock (in_primary i) (in_secondary i)) batch)
        (\<lambda>resolved. Inr (fold (\<lambda>b. AList.update (bk_number b) b) resolved x)) = Inr y"
    have "set batch \<subseteq> set missing" using chunks_subset [of batch missing 16] split by simp
    then have "set batch \<subseteq> set ns" using missing by blast
    from step [OF this _ run] x show "P (pre @ [batch]) y" by (auto simp: P_def)
  qed
  then have "headers_within hdr f t hs'" "keys hs' = keys hs \<union> set missing"
    using chunks_concat [of 16 missing] by (simp_all add: P_def)
  then show ?thesis using missing unfolding keys_def by auto
qed

definition sparse_ok :: "headers \<Rightarrow> sparse_input \<Rightarrow> sparse_state \<Rightarrow> bool" where
  "sparse_ok hdr i st \<longleftrightarrow> logs_within (in_fromBlock i) (in_toBlock i) (ss_logs st)
     \<and> headers_within hdr (in_fromBlock i) (in_toBlock i) (ss_headers st)"

lemma log_numbers_within: "logs_within f t m \<Longrightarrow> n \<in> set (map (lg_blockNumber \<circ> snd) m) \<Longrightarrow> f \<le> n \<and> n \<le> t"
  by (auto simp: logs_within_def)

lemma sparse_rounds_ok:
  assumes "sparse_rounds H i s n st = Inr st'" and "sparse_ok hdr i st" and rpc: "headers_agree hdr (in_primary i)"
  shows "sparse_ok hdr i st'"
  using assms(1,2)
proof (induction n arbitrary: st)
  case (Suc n)
  note st = Suc.prems(2) [unfolded sparse_ok_def]
  from Suc.prems(1) obtain headers known discovered where
    h: "loadHeaders i (map (lg_blockNumber \<circ> snd) (ss_logs st)) (ss_headers st) = Inr headers"
    and rest: "(let st2 = st\<lparr>ss_headers := headers, ss_known := known\<rparr> in
       if discovered = [] then Inr st2 else bindR (querySources H i s discovered st2) (sparse_rounds H i s n)) = Inr st'"
    unfolding sparse_rounds.simps by (auto simp: bindR_eq_Inr)
  have "headers_within hdr (in_fromBlock i) (in_toBlock i) headers"
    using loadHeaders_within [OF h _ rpc] st log_numbers_within by blast
  then have ok2: "sparse_ok hdr i (st\<lparr>ss_headers := headers, ss_known := known\<rparr>)"
    using st by (simp add: sparse_ok_def)
  show ?case
  proof (cases "discovered = []")
    case True
    then show ?thesis using rest ok2 by (simp add: Let_def)
  next
    case False
    then obtain st3 where q: "querySources H i s discovered (st\<lparr>ss_headers := headers, ss_known := known\<rparr>) = Inr st3"
        and run: "sparse_rounds H i s n st3 = Inr st'"
      using rest by (auto simp: Let_def bindR_eq_Inr)
    from querySources_within [OF q] ok2 have "sparse_ok hdr i st3" by (simp add: sparse_ok_def)
    from Suc.IH [OF run this] show ?thesis .
  qed
qed simp

lemma additional_within:
  assumes "additional_logs H i s qs m = Inr m'" and "logs_within (in_fromBlock i) (in_toBlock i) m"
  shows "logs_within (in_fromBlock i) (in_toBlock i) m'"
  by (rule foldR_keeps [where I = "logs_within (in_fromBlock i) (in_toBlock i)", OF assms(1) [unfolded additional_logs_def] assms(2)])
    (auto split: if_splits dest: fetchQuery_within)

lemma ingestFinalizedSparseRange_parts:
  assumes "ingestFinalizedSparseRange H i db = Inr (db', r)"
  obtains secondary known st0 st qs m headers ls d where
    "in_fromBlock i \<le> in_toBlock i"
    "querySources H i secondary (map snd known) \<lparr>ss_known = known, ss_queried = {}, ss_logs = [], ss_headers = []\<rparr> = Inr st0"
    "sparse_rounds H i secondary 8 st0 = Inr st" "additional_logs H i secondary qs (ss_logs st) = Inr m"
    "loadHeaders i (in_fromBlock i # in_toBlock i # map (lg_blockNumber \<circ> snd) m) (ss_headers st) = Inr headers"
    "foldR (check_sparse_log headers) (map snd m) () = Inr ()" "ls = js_sort compareLogs (map snd m)" "d \<noteq> []"
    "commit_sparse i headers (map snd (ss_known st)) ls d db = Inr (db', ir_generation r)"
proof -
  have nonempty: "digest H x \<noteq> []" for x by (simp add: digest_def)
  show ?thesis
    using assms that nonempty unfolding ingestFinalizedSparseRange_def Let_def
    by (simp only: res_simps case_prod_unfold) (force simp: res_simps)
qed

theorem sparse_range_ledger:
  assumes run: "ingestFinalizedSparseRange H i db = Inr (db', r)" and ok: "ledger_ok hdr a (in_stream i) db"
    and rpc: "headers_agree hdr (in_primary i)"
    and start: "map_of (cd_checkpoints db) (in_stream i) = None \<longrightarrow> in_fromBlock i = a"
  shows "ledger_ok hdr a (in_stream i) db' \<and> extends (in_stream i) db db'"
proof -
  obtain secondary known st0 st qs m headers ls d where
    range: "in_fromBlock i \<le> in_toBlock i"
    and p: "querySources H i secondary (map snd known) \<lparr>ss_known = known, ss_queried = {}, ss_logs = [], ss_headers = []\<rparr> = Inr st0"
    "sparse_rounds H i secondary 8 st0 = Inr st" "additional_logs H i secondary qs (ss_logs st) = Inr m"
    "loadHeaders i (in_fromBlock i # in_toBlock i # map (lg_blockNumber \<circ> snd) m) (ss_headers st) = Inr headers"
    "foldR (check_sparse_log headers) (map snd m) () = Inr ()"
    and ls: "ls = js_sort compareLogs (map snd m)" and d: "d \<noteq> []"
    and commit: "commit_sparse i headers (map snd (ss_known st)) ls d db = Inr (db', ir_generation r)"
    by (rule ingestFinalizedSparseRange_parts [OF run])
  have "sparse_ok hdr i st0"
    using querySources_within [OF p(1)] by (simp add: sparse_ok_def logs_within_def headers_within_def)
  then have st: "sparse_ok hdr i st" by (rule sparse_rounds_ok [OF p(2) _ rpc])
  then have m: "logs_within (in_fromBlock i) (in_toBlock i) m"
    using additional_within [OF p(3)] by (simp add: sparse_ok_def)
  then have "\<forall>n\<in>set (in_fromBlock i # in_toBlock i # map (lg_blockNumber \<circ> snd) m). in_fromBlock i \<le> n \<and> n \<le> in_toBlock i"
    using range log_numbers_within [OF m] by auto
  from loadHeaders_within [OF p(4) _ rpc this] st
  have h: "headers_within hdr (in_fromBlock i) (in_toBlock i) headers" "in_fromBlock i \<in> set (map fst headers)"
    by (simp_all add: sparse_ok_def)
  have "\<forall>l\<in>set (map snd m). map_option bk_hash (map_of headers (lg_blockNumber l)) = Some (lg_blockHash l)"
  proof -
    have "foldR (check_sparse_log headers) xs u = Inr v \<Longrightarrow>
        \<forall>l\<in>set xs. map_option bk_hash (map_of headers (lg_blockNumber l)) = Some (lg_blockHash l)" for xs u v
      by (induction xs arbitrary: u) (auto simp: bindR_eq_Inr check_sparse_log_def ensure_eq_Inr)
    from this [OF p(5)] show ?thesis .
  qed
  then have "\<forall>l\<in>set ls. \<exists>b. map_of headers (lg_blockNumber l) = Some b \<and> bk_hash b = lg_blockHash l"
    unfolding ls set_js_sort map_option_eq_Some by blast
  then have "\<forall>l\<in>set ls. lg_blockHash l \<in> bk_hash ` snd ` set headers"
    by (metis image_eqI map_of_SomeD snd_conv)
  then show ?thesis
    using commit_sparse_ledger [OF commit ok h(2) _ _ _ d start] h(1) by (simp add: headers_within_def)
qed

section \<open>Rewinding keeps the ledger\<close>

interpretation ranges: comparator compareRanges
  by unfold_locales (auto simp: compareRanges_def split: if_splits)

lemma tiles_sorted: "tiles c rs n \<Longrightarrow> sorted_wrt (\<lambda>x y. compareRanges x y \<le> 0) rs"
proof (induction rs arbitrary: c)
  case (Cons r rs)
  have "compareRanges r x \<le> 0" if "x \<in> set rs" for x
    using tiles_bounds [of "cr_to r + 1" rs n x] Cons.prems that by (simp add: compareRanges_def)
  with Cons show ?case by auto
qed simp

text \<open>The cursor reaches every block below the end of a tiling.\<close>

lemma cover_cursor_tiles:
  assumes "tiles c rs n" and "c \<le> x" and "x < n" and "\<forall>r\<in>set rs. cr_filter r \<noteq> []"
  shows "\<exists>d. d \<noteq> [] \<and> cover_cursor x (filter (\<lambda>r. cr_from r \<le> x) rs) (c, f) = (x + 1, Some d)"
  using assms
proof (induction rs arbitrary: c f)
  case (Cons r rs)
  show ?case
  proof (cases "cr_to r < x")
    case True
    with Cons.prems Cons.IH [of "cr_to r + 1" "Some (cr_filter r)"] show ?thesis by (auto simp: Let_def)
  next
    case False
    with Cons.prems show ?thesis by (auto simp: Let_def)
  qed
qed simp

lemma orphan_above_abs:
  assumes ok: "rows_ok hdr db" "logs_ok db"
  shows "rows_ok hdr (orphan_above n db) \<and> canon (orphan_above n db) = {h \<in> canon db. height hdr h \<le> n}
    \<and> logs_ok (orphan_above n db) \<and> cd_ranges (orphan_above n db) = cd_ranges db
    \<and> cd_checkpoints (orphan_above n db) = cd_checkpoints db"
proof -
  define f where "f r = (if br_number r > n \<and> br_canonical r then orphan_row r else r)" for r
  have blocks: "cd_blocks (orphan_above n db) = map f (cd_blocks db)"
    by (simp add: orphan_above_def Let_def f_def)
  have hash: "br_hash (f r) = br_hash r" "br_number (f r) = br_number r" "br_parent (f r) = br_parent r"
    and canonical: "br_canonical (f r) \<longleftrightarrow> br_canonical r \<and> br_number r \<le> n" for r
    by (auto simp: f_def orphan_row_def)
  have row: "row_ok hdr r \<Longrightarrow> row_ok hdr (f r)" for r by (auto simp: f_def orphan_row_def row_ok_def)
  have at: "br_number r = height hdr (br_hash r)" if "r \<in> set (cd_blocks db)" for r
    using rows_ok_row [OF ok(1) that] by (simp add: chain_defs)
  have C: "canon (orphan_above n db) = {h \<in> canon db. height hdr h \<le> n}"
    using at by (force simp: canon_def blocks hash canonical image_iff)
  have "unique_heights (map f (cd_blocks db))"
  proof -
    have "filter br_canonical (map f xs) = map f (filter (\<lambda>r. br_number r \<le> n) (filter br_canonical xs))" for xs
      by (induction xs) (auto simp: canonical)
    then have "map br_number (filter br_canonical (map f (cd_blocks db)))
        = filter (\<lambda>m. m \<le> n) (map br_number (filter br_canonical (cd_blocks db)))"
      by (simp add: comp_def hash filter_map)
    then show ?thesis using ok(1) by (simp add: rows_ok_def unique_heights_def)
  qed
  then have "rows_ok hdr (orphan_above n db)"
    using ok(1) row by (auto simp: rows_ok_def blocks comp_def hash)
  moreover have "logs_ok (orphan_above n db)"
  proof -
    have "lr_block l \<in> canon (orphan_above n db)" if l: "l \<in> set (cd_logs (orphan_above n db))" "lr_canonical l" for l
    proof -
      from l obtain l0 where "l0 \<in> set (cd_logs db)" "lr_canonical l0" "lr_block l = lr_block l0"
          and not: "lr_block l0 \<notin> br_hash ` {r \<in> set (cd_blocks db). br_number r > n \<and> br_canonical r}"
        by (auto simp: orphan_above_def Let_def orphan_logs_def split: if_splits)
      then have "lr_block l \<in> canon db" using ok(2) by (simp add: logs_ok_def)
      then obtain r where r: "r \<in> set (cd_blocks db)" "br_canonical r" "br_hash r = lr_block l" by (auto simp: canon_row)
      with not \<open>lr_block l = lr_block l0\<close> have "br_number r \<le> n" by force
      with r at show ?thesis by (auto simp: C canon_row)
    qed
    then show ?thesis by (simp add: logs_ok_def)
  qed
  ultimately show ?thesis using C by (simp add: orphan_above_def Let_def)
qed

lemma canon_hash: "rows_ok hdr db \<Longrightarrow> h \<in> canon db \<Longrightarrow> is_hash h \<and> h \<noteq> []"
proof -
  assume "rows_ok hdr db" and "h \<in> canon db"
  then have "is_hash h" by (auto simp: canon_row chain_defs dest: rows_ok_row)
  then show ?thesis by (auto simp: is_hash_def is_lower_hex_def)
qed

lemma find_member: "find P xs = Some x \<Longrightarrow> x \<in> set xs \<and> P x"
  by (auto simp: find_Some_iff)

lemma canonical_at_canon:
  assumes "rows_ok hdr db"
  shows "map_option br_hash (canonical_at db n) = Some h \<Longrightarrow> h \<in> canon db \<and> height hdr h = n"
proof -
  assume "map_option br_hash (canonical_at db n) = Some h"
  then obtain r where "r \<in> set (cd_blocks db)" "br_canonical r" "br_number r = n" "br_hash r = h"
    unfolding canonical_at_def using find_member by fastforce
  with rows_ok_row [OF assms] show ?thesis by (auto simp: canon_row chain_defs)
qed

lemma rewind_parts:
  assumes "rewindCanonicalChain dp stream sch b expected db = Inr (db2, g)"
  obtains c covered db1 where "dp_activationBlock dp \<le> bk_number b"
    "map_of (cd_checkpoints db) stream = Some c" "ck_next c = expected"
    "map_option br_hash (canonical_at db (bk_number b)) = Some (bk_hash b)" "g = ck_generation c + 1"
    "covered = cover_cursor (bk_number b) (js_sort compareRanges (filter (\<lambda>r. cr_generation r = ck_generation c \<and> cr_complete r
       \<and> cr_from r \<le> bk_number b) (cd_ranges db))) (dp_activationBlock dp, None)"
    "save_checkpoint stream \<lparr>ck_next = bk_number b + 1, ck_last = Some (bk_hash b), ck_generation = g\<rparr>
       (orphan_above (bk_number b) db) = Inr db1"
    "(case snd covered of Some f \<Rightarrow> if fst covered > bk_number b \<and> f \<noteq> []
        then insert_range_if_new (range_of (dp_activationBlock dp) (bk_number b) g f) db1 else Inr db1
      | None \<Rightarrow> Inr db1) = Inr db2"
proof -
  obtain c where c: "map_of (cd_checkpoints db) stream = Some c"
    using assms unfolding rewindCanonicalChain_def
    by (cases "map_of (cd_checkpoints db) stream") (simp_all add: res_simps)
  note run = assms [unfolded rewindCanonicalChain_def Let_def c option.case bindR_eq_Inr if_Inl_eq_Inr not_less not_not
      sum.inject prod.inject]
  from run show ?thesis
    by (elim exE conjE) (rule that [OF _ c _ _ _ refl], simp_all only:)
qed

theorem rewind_ledger:
  assumes run: "rewindCanonicalChain dp stream sch b expected db = Inr (db2, g)"
    and ok: "ledger_ok hdr (dp_activationBlock dp) stream db"
  shows "ledger_ok hdr (dp_activationBlock dp) stream db2 \<and> (\<exists>c c'. map_of (cd_checkpoints db) stream = Some c
    \<and> map_of (cd_checkpoints db2) stream = Some c' \<and> ck_generation c < ck_generation c')"
proof -
  define a where "a = dp_activationBlock dp"
  obtain c covered db1 where above: "a \<le> bk_number b" and c: "map_of (cd_checkpoints db) stream = Some c"
    and at: "map_option br_hash (canonical_at db (bk_number b)) = Some (bk_hash b)" and g: "g = ck_generation c + 1"
    and cov: "covered = cover_cursor (bk_number b) (js_sort compareRanges (filter (\<lambda>r. cr_generation r = ck_generation c \<and> cr_complete r
       \<and> cr_from r \<le> bk_number b) (cd_ranges db))) (a, None)"
    and saved: "save_checkpoint stream \<lparr>ck_next = bk_number b + 1, ck_last = Some (bk_hash b), ck_generation = g\<rparr>
       (orphan_above (bk_number b) db) = Inr db1"
    and last: "(case snd covered of Some f \<Rightarrow> if fst covered > bk_number b \<and> f \<noteq> []
        then insert_range_if_new (range_of a (bk_number b) g f) db1 else Inr db1
      | None \<Rightarrow> Inr db1) = Inr db2"
    unfolding a_def by (rule rewind_parts [OF run])
  have rows: "rows_ok hdr db" and logs: "logs_ok db" and ck: "checkpoint_ok hdr a db c"
    using ok c by (simp_all add: ledger_ok_def a_def)
  have b: "bk_hash b \<in> canon db" "height hdr (bk_hash b) = bk_number b"
    using canonical_at_canon [OF rows at] by simp_all
  have upto: "bk_number b < ck_next c" using ck b by (auto simp: checkpoint_ok_def)
  define rs where "rs = generation_ranges (ck_generation c) db"
  have tiles: "tiles a rs (ck_next c)" and complete: "\<forall>r\<in>set (cd_ranges db). cr_complete r \<and> cr_filter r \<noteq> [] \<and> cr_generation r \<le> ck_generation c"
    using ck by (simp_all add: checkpoint_ok_def rs_def)
  have "filter (\<lambda>r. cr_generation r = ck_generation c \<and> cr_complete r \<and> cr_from r \<le> bk_number b) (cd_ranges db)
      = filter (\<lambda>r. cr_from r \<le> bk_number b) rs"
    using complete by (auto simp: rs_def generation_ranges_def intro!: filter_cong)
  moreover have "js_sort compareRanges (filter (\<lambda>r. cr_from r \<le> bk_number b) rs) = filter (\<lambda>r. cr_from r \<le> bk_number b) rs"
    by (rule ranges.sorted_id) (rule sorted_wrt_filter, rule tiles_sorted, rule tiles)
  moreover have "\<forall>r\<in>set rs. cr_filter r \<noteq> []" using complete by (simp add: rs_def generation_ranges_def)
  ultimately obtain d where d: "d \<noteq> []" "covered = (bk_number b + 1, Some d)"
    using cover_cursor_tiles [OF tiles above upto, of None] cov by auto
  note s1 = save_checkpoint_abs [OF saved]
  note o1 = orphan_above_abs [OF rows logs, of "bk_number b"]
  have ranges1: "cd_ranges db1 = cd_ranges db" using s1 o1 by simp
  have "\<not> list_ex (same_range (range_of a (bk_number b) g d)) (cd_ranges db1)"
    using complete g by (auto simp: ranges1 list_ex_iff same_range_def range_of_def)
  then have db2: "db2 = db1\<lparr>cd_ranges := cd_ranges db @ [range_of a (bk_number b) g d]\<rparr>"
    using last d ranges1 by (simp add: insert_range_if_new_def bindR_eq_Inr)
  have C: "canon db2 = {h \<in> canon db. height hdr h \<le> bk_number b}"
    using s1 o1 by (simp add: db2 canon_def)
  have R: "cd_ranges db2 = cd_ranges db @ [range_of a (bk_number b) g d]" by (simp add: db2)
  have "rows_ok hdr db2" using s1 o1 by (simp add: db2 rows_ok_def)
  moreover have "logs_ok db2" using s1 o1 logs_ok_cong [of db2 "orphan_above (bk_number b) db"] by (simp add: db2)
  moreover have "generation_ranges g db2 = [range_of a (bk_number b) g d]"
    using complete g by (auto simp: db2 generation_ranges_def range_of_def filter_empty_conv)
  then have "checkpoint_ok hdr a db2 \<lparr>ck_next = bk_number b + 1, ck_last = Some (bk_hash b), ck_generation = g\<rparr>"
    using ck above b canon_hash [OF rows b(1)] complete d(1) g R
    unfolding checkpoint_ok_def C by (auto simp: range_of_def)
  moreover have "map_of (cd_checkpoints db2) stream = Some \<lparr>ck_next = bk_number b + 1, ck_last = Some (bk_hash b), ck_generation = g\<rparr>"
    using s1 o1 c by (simp add: db2)
  ultimately show ?thesis using c g by (simp add: ledger_ok_def a_def)
qed

end
