(* ===== verification/Chain_Reach.thy ===== *)
theory Chain_Reach imports Chain_Reads begin

text \<open>
  Reachable ingestion stores: a step relation over the complete operations, the ledger invariant by rule
  induction over it, and a store reached by ingesting one block.
\<close>

section \<open>Reachable stores\<close>

text \<open>
  The life of the store of one deployment and stream: the worker loads the state, ingests from the block
  it names with whatever sources, discovery and secondary provider, or rewinds to a stored ancestor. The
  primary provider may answer anything, as long as blocks with one hash have one header. A step that
  throws changes nothing.
\<close>

inductive chain_step :: "headers \<Rightarrow> deployment \<Rightarrow> string \<Rightarrow> chain_db \<Rightarrow> chain_db \<Rightarrow> bool"
  for hdr :: headers and dp :: deployment and stream :: string where
  step_range: "headers_agree hdr (in_primary i) \<Longrightarrow> in_stream i = stream
    \<Longrightarrow> loadIngestionState dp stream sch None db = Inr st \<Longrightarrow> in_fromBlock i = is_nextBlock st
    \<Longrightarrow> ingestCanonicalRange H i db = Inr (db', r) \<Longrightarrow> chain_step hdr dp stream db db'"
| step_sparse: "headers_agree hdr (in_primary s) \<Longrightarrow> in_stream s = stream
    \<Longrightarrow> loadIngestionState dp stream sch None db = Inr st \<Longrightarrow> in_fromBlock s = is_nextBlock st
    \<Longrightarrow> ingestFinalizedSparseRange H s db = Inr (db', r) \<Longrightarrow> chain_step hdr dp stream db db'"
| step_rewind: "rewindCanonicalChain dp stream sch b expected db = Inr (db', g) \<Longrightarrow> chain_step hdr dp stream db db'"

inductive chain_reach :: "headers \<Rightarrow> deployment \<Rightarrow> string \<Rightarrow> chain_db \<Rightarrow> bool"
  for hdr :: headers and dp :: deployment and stream :: string where
  reach_empty: "chain_reach hdr dp stream empty_chain"
| reach_step: "chain_reach hdr dp stream db \<Longrightarrow> chain_step hdr dp stream db db' \<Longrightarrow> chain_reach hdr dp stream db'"

lemma load_start:
  assumes "loadIngestionState dp stream sch None db = Inr st"
  shows "map_of (cd_checkpoints db) stream = None \<longrightarrow> is_nextBlock st = dp_activationBlock dp"
  using assms by (auto simp: loadIngestionState_def res_simps)

text \<open>A step keeps the ledger; it extends the store in its generation, or opens a later generation.\<close>

lemma step_ledger:
  assumes "chain_step hdr dp stream db db'" and "ledger_ok hdr (dp_activationBlock dp) stream db"
  shows "ledger_ok hdr (dp_activationBlock dp) stream db' \<and> (extends stream db db'
    \<or> (\<exists>c c'. map_of (cd_checkpoints db) stream = Some c \<and> map_of (cd_checkpoints db') stream = Some c' \<and> ck_generation c < ck_generation c'))"
  using assms
proof (induction rule: chain_step.induct)
  case (step_range i db sch st H db' r)
  then show ?case
    using canonical_range_ledger [OF step_range.hyps(5)] load_start [OF step_range.hyps(3)] by simp
next
  case (step_sparse s db sch st H db' r)
  then show ?case
    using sparse_range_ledger [OF step_sparse.hyps(5)] load_start [OF step_sparse.hyps(3)] by simp
next
  case (step_rewind sch b expected db db' g)
  then show ?case using rewind_ledger by blast
qed

theorem reach_ledger: "chain_reach hdr dp stream db \<Longrightarrow> ledger_ok hdr (dp_activationBlock dp) stream db"
proof (induction rule: chain_reach.induct)
  case reach_empty
  show ?case
    by (simp add: ledger_ok_def empty_chain_def rows_ok_def logs_ok_def unique_heights_def canon_def)
next
  case (reach_step db db')
  then show ?case using step_ledger by blast
qed

text \<open>C36: Whatever the providers answer and however often the chain is rewound, the ingestion store is
  consistent: at most one canonical block per height, canonical blocks are the finalized ones and lie
  between activation and the checkpoint, a canonical log always belongs to a canonical block, and the
  checkpoint's hash is that of the canonical block just below it. (Assumed: one hash has one header.)\<close>

theorem chain_store_consistent:
  assumes "chain_reach hdr dp stream db"
  shows "unique_heights (cd_blocks db)
    \<and> (\<forall>r\<in>set (cd_blocks db). br_finalized r = br_canonical r \<and> (br_canonical r \<longrightarrow> dp_activationBlock dp \<le> br_number r))
    \<and> (\<forall>l\<in>set (cd_logs db). lr_canonical l \<longrightarrow> (\<exists>r\<in>set (cd_blocks db). br_canonical r \<and> br_hash r = lr_block l))
    \<and> (\<forall>c. map_of (cd_checkpoints db) stream = Some c \<longrightarrow>
         (\<forall>r\<in>set (cd_blocks db). br_canonical r \<longrightarrow> br_number r < ck_next c)
       \<and> (\<exists>r\<in>set (cd_blocks db). br_canonical r \<and> br_number r = ck_next c - 1 \<and> ck_last c = Some (br_hash r)))"
proof -
  have ok: "rows_ok hdr db" "logs_ok db" and ck: "case map_of (cd_checkpoints db) stream of
      None \<Rightarrow> canon db = {} \<and> cd_ranges db = [] | Some c \<Rightarrow> checkpoint_ok hdr (dp_activationBlock dp) db c"
    using reach_ledger [OF assms] by (simp_all add: ledger_ok_def)
  have at: "br_number r = height hdr (br_hash r)" "br_finalized r = br_canonical r" if "r \<in> set (cd_blocks db)" for r
    using rows_ok_row [OF ok(1) that] by (simp_all add: chain_defs)
  have low: "dp_activationBlock dp \<le> br_number r" if "r \<in> set (cd_blocks db)" "br_canonical r" for r
    using ck at(1) [OF that(1)] that by (auto simp: checkpoint_ok_def canon_def split: option.splits)
  have upper: "br_number r < ck_next c" if "map_of (cd_checkpoints db) stream = Some c" "r \<in> set (cd_blocks db)" "br_canonical r" for c r
    using ck at(1) [OF that(2)] that by (auto simp: checkpoint_ok_def canon_def)
  have last: "\<exists>r\<in>set (cd_blocks db). br_canonical r \<and> br_number r = ck_next c - 1 \<and> ck_last c = Some (br_hash r)"
    if c: "map_of (cd_checkpoints db) stream = Some c" for c
  proof -
    obtain h where "h \<in> canon db" "ck_last c = Some h" "height hdr h = ck_next c - 1"
      using ck c by (auto simp: checkpoint_ok_def)
    then show ?thesis using at(1) by (auto simp: canon_row)
  qed
  show ?thesis
    using ok at(2) low upper last by (auto simp: rows_ok_def logs_ok_def canon_row)
qed

section \<open>A store with one ingested block\<close>

definition sample_block :: rpc_block where
  "sample_block = \<lparr>bk_number = 1, bk_hash = hex_lit 64 CHR ''b'', bk_parentHash = hex_lit 64 CHR ''a'', bk_timestamp = 7\<rparr>"

definition sample_rpc :: transport where
  "sample_rpc = \<lparr>rt_source = ''https://rpc.example'', rt_chainId = Inr (JText ''0xb626''),
     rt_getBlock = (\<lambda>h. Inr (if h = ''0x1'' then JObject [(''number'', JText ''0x1''), (''hash'', JText (hex_lit 64 CHR ''b'')),
        (''parentHash'', JText (hex_lit 64 CHR ''a'')), (''timestamp'', JText ''0x7'')] else JNull)),
     rt_getLogs = (\<lambda>_. Inr (JArray []))\<rparr>"

definition sample_host :: host where
  "sample_host = \<lparr>h_sha256 = (\<lambda>_. replicate 64 CHR ''0''), h_localeCompare = sign_cmp\<rparr>"

definition sample_range :: ingest_input where
  "sample_range = \<lparr>in_deployment = sample_deployment, in_stream = ''frontend-events'', in_fromBlock = 1, in_toBlock = 1,
     in_observedHead = sample_block\<lparr>bk_number := 5, bk_timestamp := 100\<rparr>, in_delayBlocks = 2, in_delaySeconds = 60,
     in_primary = sample_rpc, in_secondary = None, in_sources = [], in_discover = (\<lambda>_ _. Inr []), in_schemaName = None\<rparr>"

definition sample_row :: block_row where
  "sample_row = \<lparr>br_number = 1, br_hash = hex_lit 64 CHR ''b'', br_parent = hex_lit 64 CHR ''a'', br_canonical = True,
     br_finalized = True, br_timestamp = 7\<rparr>"

definition sample_store :: chain_db where
  "sample_store = \<lparr>cd_blocks = [sample_row], cd_logs = [], cd_sources = [], cd_ranges = [range_of 1 1 0 (hex_lit 64 CHR ''0'')],
     cd_checkpoints = [(''frontend-events'', \<lparr>ck_next = 2, ck_last = Some (hex_lit 64 CHR ''b''), ck_generation = 0\<rparr>)]\<rparr>"

definition sample_headers :: headers where
  "sample_headers h = (1, hex_lit 64 CHR ''a'')"

lemma show_hex_1: "show_hex n = ''1'' \<longleftrightarrow> n = 1"
proof
  assume eq: "show_hex n = ''1''"
  have "foldl (\<lambda>acc c. 16 * acc + hex_val c) 0 (show_hex n) = 1"
    unfolding eq by (simp add: hex_val_def is_digit_def code_of_def)
  then show "n = 1" by (simp add: show_hex_value)
next
  have "show_hex 1 = ''1''" by code_simp
  then show "n = 1 \<Longrightarrow> show_hex n = ''1''" by simp
qed

lemma sample_parse: "parseBlock (JObject [(''number'', JText ''0x1''), (''hash'', JText (hex_lit 64 CHR ''b'')),
        (''parentHash'', JText (hex_lit 64 CHR ''a'')), (''timestamp'', JText ''0x7'')]) 1 = Inr sample_block"
proof -
  have "hexQuantity ''0x1'' = Inr 1" "hexQuantity ''0x7'' = Inr 7" by code_simp+
  then show ?thesis by (simp add: parseBlock_def text_field_def sample_block_def)
qed

lemma sample_rpc_block: "transport_block sample_rpc n = Inr b \<longleftrightarrow> n = 1 \<and> b = sample_block"
proof (cases "n = 1")
  case True
  have "toHexQuantity 1 = Inr ''0x1''" by code_simp
  with True show ?thesis by (auto simp: transport_block_def sample_rpc_def falsy_def sample_parse)
next
  case False
  then have "toHexQuantity n = Inr h \<Longrightarrow> h \<noteq> ''0x1''" for h
    using show_hex_1 [of "nat n"] by (auto simp: toHexQuantity_def split: if_splits)
  with False show ?thesis by (auto simp: transport_block_def sample_rpc_def falsy_def bindR_eq_Inr)
qed

lemma sample_rpc_agrees: "headers_agree sample_headers sample_rpc"
  by (simp add: headers_agree_def sample_rpc_block sample_headers_def sample_block_def)

lemma sample_ingested: "ingestCanonicalRange sample_host sample_range empty_chain
    = Inr (sample_store, \<lparr>ir_blocks = 1, ir_logs = 0, ir_sources = 0, ir_generation = 0, ir_filterDigest = hex_lit 64 CHR ''0''\<rparr>)"
proof -
  have "read_blocks sample_range = Inr [sample_block]"
    by (simp add: read_blocks_def read_block_def sample_range_def consensusBlock_def sample_rpc_block [THEN iffD2]
      isFinalized_def) (simp add: sample_block_def)
  moreover have "collect sample_host sample_range [sample_block] [] = Inr \<lparr>dv_known = [], dv_queried = {}, dv_logs = [(1, [])]\<rparr>"
    by (simp add: collect_def initial_groups_def sample_range_def numeral_eq_Suc sample_block_def)
  moreover have "is_token ''frontend-events''" by code_simp
  moreover have "commit_blocks sample_range [sample_block] [] [] (hex_lit 64 CHR ''0'') empty_chain = Inr (sample_store, 0)"
    by (simp add: commit_blocks_def sample_range_def empty_chain_def insert_checkpoint_def pg_count_def parent_mismatch_def
      store_block_def upsert_block_def unique_heights_def block_row_of_def insert_range_def check_range_def range_of_def
      save_checkpoint_def sample_block_def sample_store_def sample_row_def Let_def)
  moreover have "digest sample_host (sources_json sample_host [] 1) = hex_lit 64 CHR ''0''"
    by (simp add: digest_def sample_host_def hex_lit_def)
  ultimately show ?thesis
    by (simp add: ingestCanonicalRange_def known_sources_def validateDeployment_def sqlIdentifier_def)
      (simp add: sample_range_def sample_deployment_def)
qed

lemma sample_step: "chain_step sample_headers sample_deployment ''frontend-events'' empty_chain sample_store"
proof (rule step_range [OF _ _ _ _ sample_ingested])
  have "is_token ''frontend-events''" by code_simp
  then show "loadIngestionState sample_deployment ''frontend-events'' None None empty_chain
      = Inr \<lparr>is_nextBlock = 1, is_generation = 0, is_sources = []\<rparr>"
    by (simp add: loadIngestionState_def validateDeployment_def sqlIdentifier_def sample_deployment_def empty_chain_def)
qed (simp_all add: sample_range_def sample_rpc_agrees)

lemma sample_reached: "chain_reach sample_headers sample_deployment ''frontend-events'' sample_store"
  by (rule reach_step [OF reach_empty sample_step])

lemma chain_store_consistent_witness:
  "unique_heights (cd_blocks sample_store) \<and> (\<exists>r\<in>set (cd_blocks sample_store). br_canonical r \<and> br_number r = 1)"
  using chain_store_consistent [OF sample_reached] by (simp add: sample_store_def sample_row_def)

end
