(* ===== verification/Projection_Store.thy ===== *)
theory Projection_Store imports Chain_Reach begin

text \<open>
  The database of the projections, from \<open>packages/projection/src/index.ts\<close> and the migrations
  \<open>0001_core.sql\<close>, \<open>0005_capacity.sql\<close> and \<open>0030_config_sets.sql\<close>: the canonical JSON that
  evidence is compared by, the tables with the view that readers use, the check of a publication's anchor
  against the ingestion store, and the invalidation of orphaned publications.
\<close>

section \<open>Canonical JSON\<close>

text \<open>\<open>stableStringify\<close>: the fields of an object in the order of their keys.\<close>

fun stableStringify :: "host \<Rightarrow> json \<Rightarrow> string" where
  "stableStringify H JNull = ''null''"
| "stableStringify H (JBool b) = (if b then ''true'' else ''false'')"
| "stableStringify H (JNumber n) = show_int n"
| "stableStringify H (JReal s) = s"
| "stableStringify H (JText s) = quoted s"
| "stableStringify H (JArray xs) = ''['' @ comma_separated (map (stableStringify H) xs) @ '']''"
| "stableStringify H (JObject fs) = ''{'' @ comma_separated (map (\<lambda>(k, t). quoted k @ '':'' @ t)
     (js_sort (\<lambda>a b. h_localeCompare H (fst a) (fst b)) (map (\<lambda>(k, v). (k, stableStringify H v)) fs))) @ ''}''"

definition stable_digest :: "host \<Rightarrow> json \<Rightarrow> string" where
  "stable_digest H v = ''0x'' @ h_sha256 H (stableStringify H v)"

text \<open>Equality of \<open>jsonb\<close> values does not depend on the order of fields.\<close>

fun jsonb :: "json \<Rightarrow> json" where
  "jsonb (JArray xs) = JArray (map jsonb xs)"
| "jsonb (JObject fs) = JObject (sort_key fst (map (\<lambda>(k, v). (k, jsonb v)) fs))"
| "jsonb v = v"

section \<open>Tables\<close>

record publication_row =
  pu_scope :: string
  pu_revision :: string
  pu_blockNumber :: int
  pu_blockHash :: string
  pu_generation :: int
  pu_digest :: string
  pu_payload :: json

record projection_checkpoint =
  pc_scope :: string
  pc_algorithm :: string
  pc_next :: int
  pc_generation :: int
  pc_last :: "string option"

record invalidation_row =
  iv_scope :: string
  iv_identity :: string
  iv_revision :: string
  iv_reason :: string

text \<open>What a reader gets of one record.\<close>

record saved_record =
  sv_identity :: string
  sv_sortKey :: string
  sv_digest :: string
  sv_payload :: json

record record_row = saved_record +
  rr_scope :: string
  rr_revision :: string

record version_row = saved_record +
  vr_generation :: int
  vr_from :: int
  vr_to :: "int option"

record config_content =
  cfc_id :: nat
  cfc_digest :: string
  cfc_payload :: json

record config_set =
  cfs_id :: nat
  cfs_digest :: string

record config_record =
  cfr_set :: nat
  cfr_identity :: string
  cfr_sortKey :: string
  cfr_content :: nat

record config_link =
  cfl_revision :: string
  cfl_set :: nat

text \<open>\<open>publication_pointers\<close> holds the current revision of each scope.\<close>

record projection_db =
  pd_publications :: "publication_row list"
  pd_pointers :: "(string \<times> string) list"
  pd_checkpoints :: "projection_checkpoint list"
  pd_invalidations :: "invalidation_row list"
  pd_records :: "record_row list"
  pd_versions :: "version_row list"
  pd_contents :: "config_content list"
  pd_sets :: "config_set list"
  pd_set_records :: "config_record list"
  pd_links :: "config_link list"
  pd_seq :: nat

definition empty_projection :: projection_db where
  "empty_projection = \<lparr>pd_publications = [], pd_pointers = [], pd_checkpoints = [], pd_invalidations = [], pd_records = [],
     pd_versions = [], pd_contents = [], pd_sets = [], pd_set_records = [], pd_links = [], pd_seq = 1\<rparr>"

section \<open>What a revision reads\<close>

text \<open>
  The view \<open>projection_read_records\<close> of one scope and revision, over the tables this component writes: the
  records stored for the revision, the market versions valid at its block, and the records of its config set.
\<close>

definition valid_at :: "int \<Rightarrow> int \<Rightarrow> version_row \<Rightarrow> bool" where
  "valid_at g n v \<longleftrightarrow> vr_generation v = g \<and> vr_from v \<le> n \<and> (case vr_to v of None \<Rightarrow> True | Some t \<Rightarrow> t > n)"

definition uses_versions :: "publication_row \<Rightarrow> bool" where
  "uses_versions p \<longleftrightarrow> pu_scope p = ''markets'' \<and> field (pu_payload p) ''storage'' = Some (JText ''market-versions-v1'')"

definition config_saved :: "projection_db \<Rightarrow> nat \<Rightarrow> saved_record list" where
  "config_saved pdb s = concat (map (\<lambda>r. map (\<lambda>c. \<lparr>sv_identity = cfr_identity r, sv_sortKey = cfr_sortKey r,
       sv_digest = cfc_digest c, sv_payload = cfc_payload c\<rparr>) (filter (\<lambda>c. cfc_id c = cfr_content r) (pd_contents pdb)))
     (filter (\<lambda>r. cfr_set r = s) (pd_set_records pdb)))"

definition read_records :: "projection_db \<Rightarrow> string \<Rightarrow> string \<Rightarrow> saved_record list" where
  "read_records pdb scope revision =
     map saved_record.truncate (filter (\<lambda>r. rr_scope r = scope \<and> rr_revision r = revision) (pd_records pdb))
   @ concat (map (\<lambda>p. map saved_record.truncate (filter (valid_at (pu_generation p) (pu_blockNumber p)) (pd_versions pdb)))
       (filter (\<lambda>p. uses_versions p \<and> pu_scope p = scope \<and> pu_revision p = revision) (pd_publications pdb)))
   @ concat (map (\<lambda>l. config_saved pdb (cfl_set l)) (filter (\<lambda>l. scope = ''configs'' \<and> cfl_revision l = revision) (pd_links pdb)))"

section \<open>Anchors of publications\<close>

text \<open>The rows of the join of pointers, publications and blocks: a missing block counts as orphaned.\<close>

definition anchored :: "chain_db \<Rightarrow> publication_row \<Rightarrow> bool" where
  "anchored db p \<longleftrightarrow> (case find (\<lambda>r. br_hash r = pu_blockHash p) (cd_blocks db) of
     None \<Rightarrow> False | Some r \<Rightarrow> br_canonical r \<and> br_finalized r)"

definition orphaned_pointers :: "chain_db \<Rightarrow> projection_db \<Rightarrow> (string \<times> string) list" where
  "orphaned_pointers db pdb = filter (\<lambda>(scope, revision). list_ex (\<lambda>p. pu_scope p = scope \<and> pu_revision p = revision
     \<and> \<not> anchored db p) (pd_publications pdb)) (pd_pointers pdb)"

definition invalidate_pointer :: "deployment \<Rightarrow> int \<Rightarrow> string \<times> string \<Rightarrow> projection_db \<Rightarrow> projection_db" where
  "invalidate_pointer dp generation pointer pdb = (case pointer of (scope, revision) \<Rightarrow>
     pdb\<lparr>pd_pointers := filter (\<lambda>q. q \<noteq> (scope, revision)) (pd_pointers pdb),
         pd_invalidations := pd_invalidations pdb @ [\<lparr>iv_scope = scope, iv_identity = scope, iv_revision = revision,
           iv_reason = ''anchor_orphaned''\<rparr>],
         pd_checkpoints := map (\<lambda>c. if pc_scope c = scope
           then c\<lparr>pc_next := dp_activationBlock dp, pc_generation := generation, pc_last := None\<rparr> else c) (pd_checkpoints pdb)\<rparr>)"

definition invalidateOrphanedPublications :: "deployment \<Rightarrow> int \<Rightarrow> string option \<Rightarrow> chain_db \<Rightarrow> projection_db
    \<Rightarrow> (projection_db \<times> nat) res" where
  "invalidateOrphanedPublications dp generation schemaName db pdb =
     bindR (sqlIdentifier schemaName) (\<lambda>_.
       let orphaned = orphaned_pointers db pdb in
       Inr (fold (invalidate_pointer dp generation) orphaned pdb, length orphaned))"

text \<open>The coverage check of a publication: the same cursor, up to the published block.\<close>

fun reaches :: "int \<Rightarrow> range_row list \<Rightarrow> int \<Rightarrow> bool" where
  "reaches blockNumber [] cursor = False"
| "reaches blockNumber (r # rs) cursor =
     (if cr_from r > cursor then False
      else let cursor' = (if cr_to r \<ge> cursor then cr_to r + 1 else cursor) in
        if cursor' > blockNumber then True else reaches blockNumber rs cursor')"

definition assertPublishableAnchor :: "deployment \<Rightarrow> string option \<Rightarrow> int \<Rightarrow> string \<Rightarrow> int \<Rightarrow> chain_db \<Rightarrow> unit res" where
  "assertPublishableAnchor dp stream blockNumber blockHash generation db =
     (case find (\<lambda>r. br_number r = blockNumber \<and> br_hash r = blockHash) (cd_blocks db) of
        None \<Rightarrow> Inl (Error ''publication anchor is not canonical and finalized'')
      | Some r \<Rightarrow>
        if \<not> br_canonical r \<or> \<not> br_finalized r then Inl (Error ''publication anchor is not canonical and finalized'')
        else (case map_of (cd_checkpoints db) (case stream of None \<Rightarrow> ''frontend-events'' | Some s \<Rightarrow> s) of
            None \<Rightarrow> Inl (Error ''ingestion checkpoint does not cover publication anchor and generation'')
          | Some c \<Rightarrow>
            if ck_next c \<le> blockNumber \<or> ck_generation c \<noteq> generation
            then Inl (Error ''ingestion checkpoint does not cover publication anchor and generation'')
            else if reaches blockNumber (js_sort compareRanges (filter (\<lambda>r. cr_generation r = generation \<and> cr_complete r
                \<and> cr_to r \<ge> dp_activationBlock dp \<and> cr_from r \<le> blockNumber) (cd_ranges db))) (dp_activationBlock dp)
              then Inr () else Inl (Error ''publication scope has an incomplete covered range'')))"

section \<open>Publishable anchors\<close>

lemma reaches_tiles:
  "tiles c rs n \<Longrightarrow> c \<le> x \<Longrightarrow> x < n \<Longrightarrow> reaches x (filter (\<lambda>r. cr_from r \<le> x) rs) c"
proof (induction rs arbitrary: c)
  case (Cons r rs)
  then show ?case by (cases "cr_to r < x") (auto simp: Let_def)
qed simp

lemma find_row:
  assumes "distinct (map br_hash rows)" and "r \<in> set rows" and "P r" and "\<And>x. P x \<Longrightarrow> br_hash x = br_hash r"
  shows "find P rows = Some r"
proof (cases "find P rows")
  case None
  then show ?thesis using assms(2,3) by (simp add: find_None_iff)
next
  case (Some x)
  from find_member [OF this] assms(1,2) assms(4) [of x] have "x = r" by (metis eq_key_imp_eq_value map_of_mapk_SomeI distinct_map inj_onD)
  with Some show ?thesis by simp
qed

text \<open>C37: The coverage check before a publication is exact on every reachable store: block \<open>n\<close> with hash
  \<open>h\<close> may be published in generation \<open>g\<close> exactly when it is a canonical block of the store and \<open>g\<close> is
  the current generation. Rewinds and range splits never leave a gap that would block a publication, and
  never let one of an old generation through.\<close>

theorem publishable_anchor_exact:
  assumes "chain_reach hdr dp stream db"
  shows "assertPublishableAnchor dp (Some stream) n h g db = Inr ()
    \<longleftrightarrow> (\<exists>r\<in>set (cd_blocks db). br_number r = n \<and> br_hash r = h \<and> br_canonical r)
      \<and> (\<exists>c. map_of (cd_checkpoints db) stream = Some c \<and> ck_generation c = g)"
    (is "?pub \<longleftrightarrow> ?row \<and> ?gen")
proof
  assume ?pub
  then show "?row \<and> ?gen"
    by (auto simp: assertPublishableAnchor_def res_simps dest!: find_member)
next
  define a where "a = dp_activationBlock dp"
  assume "?row \<and> ?gen"
  then obtain r c where r: "r \<in> set (cd_blocks db)" "br_number r = n" "br_hash r = h" "br_canonical r"
    and c: "map_of (cd_checkpoints db) stream = Some c" "ck_generation c = g" by blast
  have ok: "rows_ok hdr db" and ck: "checkpoint_ok hdr a db c"
    using reach_ledger [OF assms] c by (simp_all add: ledger_ok_def a_def)
  have row: "height hdr h = n" "br_finalized r"
    using rows_ok_row [OF ok r(1)] r by (simp_all add: chain_defs)
  have "h \<in> canon db" using r by (auto simp: canon_row)
  then have n: "a \<le> n" "n < ck_next c" using ck row(1) by (auto simp: checkpoint_ok_def)
  have tiles: "tiles a (generation_ranges g db) (ck_next c)" and complete: "\<forall>x\<in>set (cd_ranges db). cr_complete x"
    using ck c(2) by (auto simp: checkpoint_ok_def)
  have "filter (\<lambda>x. cr_generation x = g \<and> cr_complete x \<and> cr_to x \<ge> a \<and> cr_from x \<le> n) (cd_ranges db)
      = filter (\<lambda>x. cr_from x \<le> n) (generation_ranges g db)"
  proof -
    have "cr_to x \<ge> a" if "x \<in> set (cd_ranges db)" "cr_generation x = g" for x
      using tiles_bounds [OF tiles, of x] that by (simp add: generation_ranges_def)
    then show ?thesis using complete by (auto simp: generation_ranges_def intro!: filter_cong)
  qed
  moreover have "js_sort compareRanges (filter (\<lambda>x. cr_from x \<le> n) (generation_ranges g db))
      = filter (\<lambda>x. cr_from x \<le> n) (generation_ranges g db)"
    by (rule ranges.sorted_id) (rule sorted_wrt_filter, rule tiles_sorted, rule tiles)
  moreover have "reaches n (filter (\<lambda>x. cr_from x \<le> n) (generation_ranges g db)) a"
    by (rule reaches_tiles [OF tiles n])
  moreover have "find (\<lambda>r. br_number r = n \<and> br_hash r = h) (cd_blocks db) = Some r"
    using ok r by (intro find_row) (auto simp: rows_ok_def)
  ultimately show ?pub
    using r row c n unfolding assertPublishableAnchor_def a_def by simp
qed

lemma publishable_anchor_exact_witness:
  "assertPublishableAnchor sample_deployment (Some ''frontend-events'') 1 (hex_lit 64 CHR ''b'') 0 sample_store = Inr ()"
  using publishable_anchor_exact [OF sample_reached, of 1 "hex_lit 64 CHR ''b''" 0]
  by (simp add: sample_store_def sample_row_def)

end
