(* ===== verification/Chain_Recovery.thy ===== *)
theory Chain_Recovery imports Projection_Store Job_Queue begin

text \<open>
  \<open>recoverReorg\<close> with \<open>enqueueContinuation\<close> of \<open>packages/chain-worker/src/index.ts\<close>, which composes
  the chain store, the publications and the job queue.
\<close>

section \<open>Recovery from a reorganization\<close>

record worker_state =
  ws_chain :: chain_db
  ws_projection :: projection_db
  ws_queue :: store

abbreviation "STREAM \<equiv> ''frontend-events''"

definition continuation_message :: "rpc_block \<Rightarrow> int \<Rightarrow> int \<Rightarrow> enqueue_message" where
  "continuation_message head fromBlock generation =
     (let suffix = ''g'' @ show_int generation @ ''-'' @ show_int fromBlock @ ''-'' @ show_int (bk_number head)
            @ ''-'' @ take 12 (drop 2 (bk_hash head));
          body = json_text (JObject [(''headBlock'', JText (show_int (bk_number head))), (''headHash'', JText (bk_hash head)),
            (''fromBlock'', JText (show_int fromBlock))])
      in \<lparr>em_queue = Chain, em_externalId = ''backfill-'' @ suffix, em_operationId = ''backfill:'' @ suffix, em_kind = ''chain-backfill'',
          em_rawBody = body, em_payload = Body body, em_destinationKey = ''chain-worker'', em_maxAttempts = Some 16,
          em_generation = Some generation\<rparr>)"

definition schema_text :: "string option \<Rightarrow> string" where
  "schema_text s = (case s of None \<Rightarrow> ''tickergarden_serverless'' | Some t \<Rightarrow> t)"

definition enqueueContinuation :: "(string \<Rightarrow> string) \<Rightarrow> int \<Rightarrow> string option \<Rightarrow> rpc_block \<Rightarrow> int \<Rightarrow> int \<Rightarrow> store \<Rightarrow> store res" where
  "enqueueContinuation sha256 now schemaName head fromBlock generation q =
     bindR (enqueueReliableMessage sha256 (schema_text schemaName) now (continuation_message head fromBlock generation) q)
       (\<lambda>(_, q'). Inr q')"

text \<open>
  The recovery commits in four steps, each its own transaction: the search, the rewind, the invalidation
  of publications, and the message that continues ingestion. An error keeps what was committed before.
\<close>

definition recoverReorg :: "(string \<Rightarrow> string) \<Rightarrow> int \<Rightarrow> deployment \<Rightarrow> transport \<Rightarrow> transport \<Rightarrow> string option \<Rightarrow> int \<Rightarrow> rpc_block \<Rightarrow> int
    \<Rightarrow> worker_state \<Rightarrow> worker_state \<times> string res" where
  "recoverReorg sha256 now dp primary secondary schemaName nextBlock head leaseGeneration st =
    (let maximumDepth = (if nextBlock - 1 - dp_activationBlock dp < 1000 then nextBlock - 1 - dp_activationBlock dp else 1000) in
     case findCommonAncestor dp primary (Some secondary) schemaName (nextBlock - 1) maximumDepth (ws_chain st) of
       Inl e \<Rightarrow> (st, Inl e)
     | Inr ancestor \<Rightarrow>
       (case rewindCanonicalChain dp STREAM schemaName ancestor nextBlock (ws_chain st) of
          Inl e \<Rightarrow> (st, Inl e)
        | Inr (chain, generation) \<Rightarrow>
          let st1 = st\<lparr>ws_chain := chain\<rparr> in
          (case invalidateOrphanedPublications dp generation schemaName chain (ws_projection st1) of
             Inl e \<Rightarrow> (st1, Inl e)
           | Inr (pdb, _) \<Rightarrow>
             let st2 = st1\<lparr>ws_projection := pdb\<rparr> in
             (case enqueueContinuation sha256 now schemaName head (bk_number ancestor + 1) leaseGeneration (ws_queue st2) of
                Inl e \<Rightarrow> (st2, Inl e)
              | Inr q \<Rightarrow> (st2\<lparr>ws_queue := q\<rparr>, Inr (json_text (JObject [(''reorg'', JBool True),
                  (''ancestor'', JText (show_int (bk_number ancestor))), (''generation'', JText (show_int generation))])))))))"

section \<open>The search for a common ancestor\<close>

definition differs :: "transport \<Rightarrow> transport option \<Rightarrow> chain_db \<Rightarrow> int \<Rightarrow> bool" where
  "differs p s db n \<longleftrightarrow> (\<exists>b. consensusBlock p s n = Inr b \<and> map_option br_hash (canonical_at db n) \<noteq> Some (bk_hash b))"

lemma consensus_number: "consensusBlock p s n = Inr b \<Longrightarrow> bk_number b = n"
  by (auto simp: consensusBlock_def transport_block_def res_simps dest: parseBlock_typed split: option.splits if_splits)

definition not_found :: js_error where
  "not_found = ReorgDetectedError ''common ancestor was not found within bounded depth''"

lemma ancestor_search_result:
  assumes "0 \<le> l"
  shows "case ancestor_search p s db l n of
      Inr b \<Rightarrow> l \<le> bk_number b \<and> bk_number b \<le> n \<and> consensusBlock p s (bk_number b) = Inr b
        \<and> map_option br_hash (canonical_at db (bk_number b)) = Some (bk_hash b) \<and> (\<forall>k\<in>{bk_number b<..n}. differs p s db k)
    | Inl e \<Rightarrow> (e = not_found \<and> (\<forall>k\<in>{l..n}. differs p s db k))
        \<or> (\<exists>k\<in>{l..n}. consensusBlock p s k = Inl e \<and> (\<forall>m\<in>{k<..n}. differs p s db m))"
  using assms
proof (induction p s db l n rule: ancestor_search.induct)
  case (1 p s db l n)
  show ?case
  proof (cases "n < l")
    case True
    then show ?thesis by (subst ancestor_search.simps) (simp add: not_found_def)
  next
    case low: False
    show ?thesis
    proof (cases "consensusBlock p s n")
      case (Inl e)
      then show ?thesis using low by (subst ancestor_search.simps) auto
    next
      case (Inr b)
      note b = this
      show ?thesis
      proof (cases "map_option br_hash (canonical_at db n) = Some (bk_hash b)")
        case True
        then show ?thesis
          using low b consensus_number [OF b] by (subst ancestor_search.simps) auto
      next
        case no: False
        then have n: "differs p s db n" using b by (auto simp: differs_def)
        show ?thesis
        proof (cases "n = 0")
          case True
          then have "ancestor_search p s db l n = Inl not_found" using low b no 1(2)
            by (subst ancestor_search.simps) (simp add: not_found_def)
          moreover have "{l..n} = {n}" using True low 1(2) by auto
          ultimately show ?thesis using n by simp
        next
          case False
          have step: "ancestor_search p s db l n = ancestor_search p s db l (n - 1)"
            using low b no False by (subst ancestor_search.simps) (simp del: map_option_eq_Some)
          have up: "{l..n} = insert n {l..n - 1}" "m < n \<Longrightarrow> {m<..n} = insert n {m<..n - 1}" for m
            using low by auto
          have "case ancestor_search p s db l (n - 1) of
      Inr b \<Rightarrow> l \<le> bk_number b \<and> bk_number b \<le> n - 1 \<and> consensusBlock p s (bk_number b) = Inr b
        \<and> map_option br_hash (canonical_at db (bk_number b)) = Some (bk_hash b) \<and> (\<forall>k\<in>{bk_number b<..n - 1}. differs p s db k)
    | Inl e \<Rightarrow> (e = not_found \<and> (\<forall>k\<in>{l..n - 1}. differs p s db k))
        \<or> (\<exists>k\<in>{l..n - 1}. consensusBlock p s k = Inl e \<and> (\<forall>m\<in>{k<..n - 1}. differs p s db m))"
            using "1.IH" [OF low b no False] "1.prems" by simp
          then show ?thesis
            unfolding step using n up by (auto split: sum.splits)
        qed
      qed
    qed
  qed
qed

text \<open>C38: The search for a common ancestor always ends, within the requested depth (at most 1001 blocks
  are compared): it returns the highest block at which the store and the providers agree, all higher ones
  differing, or reports that none exists in the window, or passes on the first error of a provider; it
  never skips an agreeing block.\<close>

theorem common_ancestor_search:
  assumes "is_hash (dp_digest dp)" and "0 \<le> dp_activationBlock dp" and "0 \<le> n" and "0 \<le> d" and "d \<le> 1000"
  shows "case findCommonAncestor dp p s None n d db of
      Inr b \<Rightarrow> n - d \<le> bk_number b \<and> 0 \<le> bk_number b \<and> bk_number b \<le> n \<and> consensusBlock p s (bk_number b) = Inr b
        \<and> map_option br_hash (canonical_at db (bk_number b)) = Some (bk_hash b) \<and> (\<forall>k\<in>{bk_number b<..n}. differs p s db k)
    | Inl e \<Rightarrow> (e = not_found \<and> (\<forall>k\<in>{max 0 (n - d)..n}. differs p s db k))
        \<or> (\<exists>k\<in>{max 0 (n - d)..n}. consensusBlock p s k = Inl e \<and> (\<forall>m\<in>{k<..n}. differs p s db m))"
proof -
  define l where "l = (if n > d then n - d else 0)"
  have l: "l = max 0 (n - d)" using assms by (simp add: l_def)
  have "findCommonAncestor dp p s None n d db = ancestor_search p s db l n"
    using assms by (simp add: findCommonAncestor_def validateDeployment_def sqlIdentifier_def l_def)
  then show ?thesis using ancestor_search_result [where l = l and p = p and s = s and db = db and n = n] unfolding l
    by (auto split: sum.splits)
qed

lemma common_ancestor_search_witness:
  "findCommonAncestor sample_deployment sample_rpc None None 1 0 sample_store = Inr sample_block
   \<and> map_option br_hash (canonical_at sample_store 1) = Some (hex_lit 64 CHR ''b'')"
proof -
  have c: "consensusBlock sample_rpc None 1 = Inr sample_block" by (simp add: consensusBlock_def sample_rpc_block bindR_eq_Inr)
  have "\<not> differs sample_rpc None sample_store 1"
    by (simp add: differs_def c canonical_at_def sample_store_def sample_row_def sample_block_def)
  then show ?thesis
    using common_ancestor_search [where dp = sample_deployment and n = 1 and d = 0 and p = sample_rpc and s = None and db = sample_store] c
    by (auto simp: sample_deployment_def sample_block_def split: sum.splits)
qed

section \<open>Recovery succeeds\<close>

lemma invalidate_all:
  "pd_pointers (fold (invalidate_pointer dp g) qs pdb) = filter (\<lambda>q. q \<notin> set qs) (pd_pointers pdb)
   \<and> pd_publications (fold (invalidate_pointer dp g) qs pdb) = pd_publications pdb"
proof (induction qs arbitrary: pdb)
  case (Cons q qs)
  have "pd_pointers (invalidate_pointer dp g q pdb) = filter (\<lambda>x. x \<noteq> q) (pd_pointers pdb)
      \<and> pd_publications (invalidate_pointer dp g q pdb) = pd_publications pdb"
    by (simp add: invalidate_pointer_def case_prod_unfold)
  then show ?case using Cons.IH by (auto intro: filter_cong)
qed simp

lemma invalidated_anchored:
  assumes "invalidateOrphanedPublications dp g sch db pdb = Inr (pdb', k)" and "(scope, revision) \<in> set (pd_pointers pdb')"
    and "p \<in> set (pd_publications pdb')" and "pu_scope p = scope" and "pu_revision p = revision"
  shows "anchored db p"
proof -
  have pdb': "pdb' = fold (invalidate_pointer dp g) (orphaned_pointers db pdb) pdb"
    using assms(1) by (auto simp: invalidateOrphanedPublications_def Let_def res_simps)
  show ?thesis
    using assms(2-5) invalidate_all [of dp g "orphaned_pointers db pdb" pdb]
    by (auto simp: pdb' orphaned_pointers_def list_ex_iff)
qed

lemma rewind_canon:
  assumes "rewindCanonicalChain dp stream sch b expected db = Inr (db2, g)" and "rows_ok hdr db" and "logs_ok db"
  shows "canon db2 = {h \<in> canon db. height hdr h \<le> bk_number b}"
proof -
  obtain c covered db1 where saved: "save_checkpoint stream \<lparr>ck_next = bk_number b + 1, ck_last = Some (bk_hash b), ck_generation = g\<rparr>
       (orphan_above (bk_number b) db) = Inr db1"
    and last: "(case snd covered of Some f \<Rightarrow> if fst covered > bk_number b \<and> f \<noteq> []
        then insert_range_if_new (range_of (dp_activationBlock dp) (bk_number b) g f) db1 else Inr db1
      | None \<Rightarrow> Inr db1) = Inr db2"
    by (rule rewind_parts [OF assms(1)])
  have "cd_blocks db2 = cd_blocks db1"
    using last by (auto simp: insert_range_if_new_def res_simps split: option.splits if_splits)
  then have "canon db2 = canon (orphan_above (bk_number b) db)"
    using save_checkpoint_abs [OF saved] by (intro canon_cong) simp
  then show ?thesis using orphan_above_abs [OF assms(2,3)] by simp
qed

lemma rewind_progress:
  assumes dp: "is_hash (dp_digest dp)" "0 \<le> dp_activationBlock dp" and c: "map_of (cd_checkpoints db) stream = Some c"
    and b: "dp_activationBlock dp \<le> bk_number b" "bk_number b < ck_next c" "map_option br_hash (canonical_at db (bk_number b)) = Some (bk_hash b)"
    and bounds: "ck_next c < 2 ^ 63" "0 \<le> ck_generation c" "ck_generation c + 1 < 2 ^ 63"
  shows "\<exists>db2. rewindCanonicalChain dp stream None b (ck_next c) db = Inr (db2, ck_generation c + 1)
    \<and> map_of (cd_checkpoints db2) stream = Some \<lparr>ck_next = bk_number b + 1, ck_last = Some (bk_hash b), ck_generation = ck_generation c + 1\<rparr>"
proof -
  define g where "g = ck_generation c + 1"
  define new where "new = \<lparr>ck_next = bk_number b + 1, ck_last = Some (bk_hash b), ck_generation = g\<rparr>"
  define covered where "covered = cover_cursor (bk_number b) (js_sort compareRanges (filter (\<lambda>r. cr_generation r = ck_generation c
    \<and> cr_complete r \<and> cr_from r \<le> bk_number b) (cd_ranges db))) (dp_activationBlock dp, None)"
  obtain db1 where db1: "save_checkpoint stream new (orphan_above (bk_number b) db) = Inr db1"
    using b bounds dp(2) by (simp add: save_checkpoint_def new_def g_def pg_count_def)
  have "map_of (cd_checkpoints (orphan_above (bk_number b) db)) stream = Some c"
    using c by (simp add: orphan_above_def Let_def)
  then have ck1: "map_of (cd_checkpoints db1) stream = Some new" using save_checkpoint_abs [OF db1] by simp
  have check: "check_range (range_of (dp_activationBlock dp) (bk_number b) g f) = Inr ()" for f
    using b bounds dp(2) by (simp add: check_range_def range_of_def pg_count_def g_def)
  define last where "last = (case snd covered of Some f \<Rightarrow> if fst covered > bk_number b \<and> f \<noteq> []
        then insert_range_if_new (range_of (dp_activationBlock dp) (bk_number b) g f) db1 else Inr db1
      | None \<Rightarrow> Inr db1)"
  have "\<exists>db2. last = Inr db2 \<and> cd_checkpoints db2 = cd_checkpoints db1"
    by (auto simp: last_def insert_range_if_new_def check split: option.splits)
  then obtain db2 where db2: "last = Inr db2" "cd_checkpoints db2 = cd_checkpoints db1" by blast
  have "rewindCanonicalChain dp stream None b (ck_next c) db = Inr (db2, g)"
    unfolding rewindCanonicalChain_def Let_def c
    using dp b db1 [unfolded new_def g_def] db2(1) [unfolded last_def covered_def g_def]
    by (simp add: validateDeployment_def sqlIdentifier_def g_def del: map_option_eq_Some)
  with ck1 db2 show ?thesis by (simp add: new_def g_def)
qed

text \<open>C39: Recovery from a reorganization succeeds and is safe. When the store of a reachable state agrees with
  the providers somewhere among the blocks it may search (at most 1000 below the checkpoint, not below
  activation) and the providers answer there, \<open>recoverReorg\<close> rewinds to the highest agreeing block: the
  store stays reachable, the checkpoint continues right after it in the next generation, exactly the canonical
  blocks up to it are kept, and no scope points any more at a publication of an orphaned block, whether
  or not the message that continues ingestion can be queued.\<close>

theorem reorg_recovery:
  assumes reach: "chain_reach hdr dp STREAM (ws_chain st)" and dp: "is_hash (dp_digest dp)" "0 \<le> dp_activationBlock dp"
    and c: "map_of (cd_checkpoints (ws_chain st)) STREAM = Some c" and bounds: "ck_next c < 2 ^ 63" "ck_generation c + 1 < 2 ^ 63"
    and answers: "\<forall>k\<in>{max (dp_activationBlock dp) (ck_next c - 1001)..ck_next c - 1}. \<exists>b. consensusBlock p (Some s) k = Inr b"
    and agree: "\<exists>k\<in>{max (dp_activationBlock dp) (ck_next c - 1001)..ck_next c - 1}. \<not> differs p (Some s) (ws_chain st) k"
    and run: "recoverReorg sha256 now dp p s None (ck_next c) head leaseGeneration st = (st', result)"
  shows "chain_reach hdr dp STREAM (ws_chain st')
    \<and> (\<exists>b. consensusBlock p (Some s) (bk_number b) = Inr b \<and> (\<forall>k\<in>{bk_number b<..ck_next c - 1}. differs p (Some s) (ws_chain st) k)
        \<and> map_of (cd_checkpoints (ws_chain st')) STREAM
          = Some \<lparr>ck_next = bk_number b + 1, ck_last = Some (bk_hash b), ck_generation = ck_generation c + 1\<rparr>
        \<and> canon (ws_chain st') = {h \<in> canon (ws_chain st). height hdr h \<le> bk_number b})
    \<and> (\<forall>(scope, revision)\<in>set (pd_pointers (ws_projection st')). \<forall>x\<in>set (pd_publications (ws_projection st')).
          pu_scope x = scope \<and> pu_revision x = revision \<longrightarrow> anchored (ws_chain st') x)"
proof -
  define db where "db = ws_chain st"
  define a where "a = dp_activationBlock dp"
  define d where "d = (if ck_next c - 1 - a < 1000 then ck_next c - 1 - a else 1000)"
  have ck: "checkpoint_ok hdr a db c" and rows: "rows_ok hdr db" "logs_ok db"
    using reach_ledger [OF reach] c by (simp_all add: ledger_ok_def a_def db_def)
  then have nx: "a < ck_next c" "0 \<le> ck_generation c" by (simp_all add: checkpoint_ok_def)
  have d: "0 \<le> d" "d \<le> 1000" "max 0 (ck_next c - 1 - d) = max a (ck_next c - 1001)"
    using nx dp(2) by (auto simp: d_def a_def)
  have "0 \<le> ck_next c - 1" using nx dp(2) by (simp add: a_def)
  note search = common_ancestor_search [OF dp this d(1,2), of p "Some s" db, unfolded d(3)]
  obtain b where b: "findCommonAncestor dp p (Some s) None (ck_next c - 1) d db = Inr b"
    using search answers agree by (auto simp: db_def a_def split: sum.splits)
  then have at: "a \<le> bk_number b" "bk_number b \<le> ck_next c - 1" "consensusBlock p (Some s) (bk_number b) = Inr b"
    "map_option br_hash (canonical_at db (bk_number b)) = Some (bk_hash b)"
    "\<forall>k\<in>{bk_number b<..ck_next c - 1}. differs p (Some s) db k"
    using search d(3) by (auto simp del: map_option_eq_Some)
  obtain db2 where rw: "rewindCanonicalChain dp STREAM None b (ck_next c) db = Inr (db2, ck_generation c + 1)"
    and ck2: "map_of (cd_checkpoints db2) STREAM = Some \<lparr>ck_next = bk_number b + 1, ck_last = Some (bk_hash b), ck_generation = ck_generation c + 1\<rparr>"
    using rewind_progress [OF dp c [folded db_def] at(1) [unfolded a_def] _ at(4) bounds(1) nx(2) bounds(2)] at(2) by auto
  have C: "canon db2 = {h \<in> canon db. height hdr h \<le> bk_number b}"
    by (rule rewind_canon [OF rw rows])
  obtain pdb k where inv: "invalidateOrphanedPublications dp (ck_generation c + 1) None db2 (ws_projection st) = Inr (pdb, k)"
    by (simp add: invalidateOrphanedPublications_def sqlIdentifier_def Let_def)
  have st': "ws_chain st' = db2 \<and> ws_projection st' = pdb"
    using run b rw inv unfolding recoverReorg_def Let_def d_def a_def db_def
    by (auto split: sum.splits)
  have "chain_reach hdr dp STREAM db2" by (rule reach_step [OF reach [folded db_def] step_rewind [OF rw]])
  moreover have "\<forall>(scope, revision)\<in>set (pd_pointers pdb). \<forall>x\<in>set (pd_publications pdb).
          pu_scope x = scope \<and> pu_revision x = revision \<longrightarrow> anchored db2 x"
    using invalidated_anchored [OF inv] by blast
  ultimately show ?thesis using at(3,5) ck2 C st' unfolding db_def by blast
qed

definition sample_worker :: worker_state where
  "sample_worker = \<lparr>ws_chain = sample_store, ws_projection = empty_projection\<lparr>pd_publications := [\<lparr>pu_scope = ''markets'',
       pu_revision = ''1:orphaned'', pu_blockNumber = 1, pu_blockHash = hex_lit 64 CHR ''e'', pu_generation = 0,
       pu_digest = hex_lit 64 CHR ''d'', pu_payload = JNull\<rparr>], pd_pointers := [(''markets'', ''1:orphaned'')]\<rparr>, ws_queue = initial_store\<rparr>"

lemma reorg_recovery_witness:
  "map_option ck_generation (map_of (cd_checkpoints (ws_chain (fst (recoverReorg (\<lambda>s. s) 0 sample_deployment sample_rpc sample_rpc None 2
     sample_block 0 sample_worker)))) STREAM) = Some 1"
proof -
  have c: "consensusBlock sample_rpc (Some sample_rpc) 1 = Inr sample_block"
    by (simp add: consensusBlock_def sample_rpc_block bindR_eq_Inr sameSource_def)
  have agree: "\<not> differs sample_rpc (Some sample_rpc) sample_store 1"
    by (simp add: differs_def c canonical_at_def sample_store_def sample_row_def sample_block_def)
  have chain: "ws_chain sample_worker = sample_store" by (simp add: sample_worker_def)
  define c0 where "c0 = \<lparr>ck_next = 2, ck_last = Some (hex_lit 64 CHR ''b''), ck_generation = 0\<rparr>"
  obtain st' result where run: "recoverReorg (\<lambda>s. s) 0 sample_deployment sample_rpc sample_rpc None (ck_next c0) sample_block 0 sample_worker = (st', result)"
    by (cases "recoverReorg (\<lambda>s. s) 0 sample_deployment sample_rpc sample_rpc None (ck_next c0) sample_block 0 sample_worker") auto
  have ck: "map_of (cd_checkpoints (ws_chain sample_worker)) STREAM = Some c0"
    by (simp add: chain sample_store_def c0_def)
  have reach: "chain_reach sample_headers sample_deployment STREAM (ws_chain sample_worker)"
    unfolding chain by (rule sample_reached)
  have window: "{max (dp_activationBlock sample_deployment) (ck_next c0 - 1001)..ck_next c0 - 1} = {1}"
    by (auto simp: c0_def sample_deployment_def)
  from reorg_recovery [OF reach _ _ ck _ _ _ _ run, unfolded window] c agree
  have "\<exists>k h. map_of (cd_checkpoints (ws_chain st')) STREAM = Some \<lparr>ck_next = k, ck_last = Some h, ck_generation = 1\<rparr>"
    by (auto simp: chain) (auto simp: c0_def sample_deployment_def)
  then show ?thesis using run by (auto simp: c0_def)
qed

end
