(* ===== verification/Projection_Publish.thy ===== *)
theory Projection_Publish imports Projection_Store begin

text \<open>
  The writers of \<open>packages/projection/src/index.ts\<close>: \<open>publishProjection\<close> with its config sets and its
  incremental market versions, \<open>publishMarketDelta\<close> and \<open>acknowledgeMarketPublication\<close>. Each is one
  transaction over the state of \<open>Projection_Store\<close>: it returns the new state, or throws and changes
  nothing. Loops over batches of 250 rows are loops over \<open>chunks\<close>. The order of \<open>ORDER BY\<close> on text
  is the collation of the database, a parameter; one counter stands for the sequences of the config tables.
\<close>

section \<open>Inputs\<close>

record projection_record =
  pr_identity :: string
  pr_sortKey :: string
  pr_payload :: json

record publish_input =
  pi_deployment :: deployment
  pi_scope :: string
  pi_algorithmVersion :: string
  pi_blockNumber :: int
  pi_blockHash :: string
  pi_generation :: int
  pi_stream :: "string option"
  pi_records :: "projection_record list"
  pi_incremental :: bool
  pi_schemaName :: "string option"

record delta_input = publish_input +
  di_baseRevision :: string
  di_removed :: "string list"
  di_expectedPopulation :: int

text \<open>A published revision, whether it was there before, and its number of records.\<close>

type_synonym publish_result = "string \<times> bool \<times> int"

definition revision_text :: "int \<Rightarrow> string \<Rightarrow> string" where
  "revision_text n h = show_int n @ '':'' @ h"

definition revision_of :: "'a publish_input_scheme \<Rightarrow> string" where
  "revision_of i = revision_text (pi_blockNumber i) (pi_blockHash i)"

definition validateRecord :: "host \<Rightarrow> projection_record \<Rightarrow> string set \<Rightarrow> string set res" where
  "validateRecord H r identities =
     (if pr_identity r = [] \<or> length (pr_identity r) > 512 \<or> pr_sortKey r = [] \<or> length (pr_sortKey r) > 512
         \<or> pr_identity r \<in> identities
      then Inl (Error ''projection record identity is invalid or duplicated'')
      else if length (stableStringify H (pr_payload r)) > 262144 then Inl (Error ''projection record payload is too large'')
      else Inr (insert (pr_identity r) identities))"

definition validateInput :: "host \<Rightarrow> 'a publish_input_scheme \<Rightarrow> unit res" where
  "validateInput H i =
    (if pi_incremental i \<and> pi_scope i \<noteq> ''markets'' then Inl (Error ''incremental storage is market-only'')
     else if \<not> is_token (pi_scope i) \<or> \<not> is_token (pi_algorithmVersion i)
     then Inl (Error ''projection scope or algorithm version is invalid'')
     else if pi_blockNumber i < dp_activationBlock (pi_deployment i) \<or> pi_generation i < 0
     then Inl (Error ''projection bounds are invalid'')
     else bindR (foldR (validateRecord H) (pi_records i) {}) (\<lambda>_. Inr ()))"

definition assertAnchor :: "'a publish_input_scheme \<Rightarrow> chain_db \<Rightarrow> unit res" where
  "assertAnchor i db = assertPublishableAnchor (pi_deployment i) (pi_stream i) (pi_blockNumber i) (pi_blockHash i) (pi_generation i) db"

text \<open>Sorting by one collation, and by a second key among equals.\<close>

definition compare_records :: "host \<Rightarrow> projection_record \<Rightarrow> projection_record \<Rightarrow> int" where
  "compare_records H l r = (let c = h_localeCompare H (pr_sortKey l) (pr_sortKey r) in
     if c \<noteq> 0 then c else h_localeCompare H (pr_identity l) (pr_identity r))"

definition record_json :: "projection_record \<Rightarrow> json" where
  "record_json r = JObject [(''identity'', JText (pr_identity r)), (''sortKey'', JText (pr_sortKey r)), (''payload'', pr_payload r)]"

definition expected_row :: "host \<Rightarrow> projection_record \<Rightarrow> saved_record" where
  "expected_row H r = \<lparr>sv_identity = pr_identity r, sv_sortKey = pr_sortKey r, sv_digest = stable_digest H (pr_payload r),
     sv_payload = pr_payload r\<rparr>"

definition row_json :: "'a saved_record_scheme \<Rightarrow> json" where
  "row_json r = JObject [(''identity'', JText (sv_identity r)), (''sort_key'', JText (sv_sortKey r)),
     (''payload_digest'', JText (sv_digest r)), (''payload'', sv_payload r)]"

definition coverage_json :: "'a publish_input_scheme \<Rightarrow> json" where
  "coverage_json i = JObject [(''fromBlock'', JText (show_int (dp_activationBlock (pi_deployment i)))),
     (''toBlock'', JText (show_int (pi_blockNumber i)))]"

definition publication_payload :: "'a publish_input_scheme \<Rightarrow> json" where
  "publication_payload i = JObject ([(''algorithmVersion'', JText (pi_algorithmVersion i)), (''coverage'', coverage_json i),
     (''recordCount'', JNumber (int (length (pi_records i))))]
     @ (if pi_incremental i then [(''storage'', JText ''market-versions-v1'')] else []))"

section \<open>Publications and their pointer\<close>

definition is_publication :: "string \<Rightarrow> string \<Rightarrow> publication_row \<Rightarrow> bool" where
  "is_publication scope revision p \<longleftrightarrow> pu_scope p = scope \<and> pu_revision p = revision"

definition publication_of :: "'a publish_input_scheme \<Rightarrow> string \<Rightarrow> json \<Rightarrow> publication_row" where
  "publication_of i d payload = \<lparr>pu_scope = pi_scope i, pu_revision = revision_of i, pu_blockNumber = pi_blockNumber i,
     pu_blockHash = pi_blockHash i, pu_generation = pi_generation i, pu_digest = d, pu_payload = payload\<rparr>"

text \<open>The insertion of a publication: one that is already there must have the same evidence.\<close>

definition enter_publication :: "host \<Rightarrow> publish_input \<Rightarrow> string \<Rightarrow> projection_db \<Rightarrow> (projection_db \<times> bool) res" where
  "enter_publication H i payloadDigest pdb =
     (case find (is_publication (pi_scope i) (revision_of i)) (pd_publications pdb) of
        None \<Rightarrow> Inr (pdb\<lparr>pd_publications := pd_publications pdb @ [publication_of i payloadDigest (publication_payload i)]\<rparr>, False)
      | Some p \<Rightarrow>
          if pu_digest p \<noteq> payloadDigest \<or> pu_generation p \<noteq> pi_generation i
             \<or> stableStringify H (pu_payload p) \<noteq> stableStringify H (publication_payload i)
          then Inl (Error ''publication revision already exists with different evidence'') else Inr (pdb, True))"

definition set_pointer :: "string \<Rightarrow> string \<Rightarrow> projection_db \<Rightarrow> projection_db" where
  "set_pointer scope revision pdb = pdb\<lparr>pd_pointers := AList.update scope revision (pd_pointers pdb)\<rparr>"

definition current_publication :: "string \<Rightarrow> projection_db \<Rightarrow> publication_row option" where
  "current_publication scope pdb = (case map_of (pd_pointers pdb) scope of None \<Rightarrow> None
     | Some revision \<Rightarrow> find (is_publication scope revision) (pd_publications pdb))"

definition move_pointer :: "'a publish_input_scheme \<Rightarrow> projection_db \<Rightarrow> projection_db res" where
  "move_pointer i pdb =
    (let stop = (case current_publication (pi_scope i) pdb of None \<Rightarrow> False
       | Some p \<Rightarrow> pu_blockNumber p > pi_blockNumber i \<or> pu_blockNumber p = pi_blockNumber i \<and> pu_revision p \<noteq> revision_of i)
     in if stop then Inl (Error ''publication pointer cannot move backwards or across a same-height fork'')
        else Inr (set_pointer (pi_scope i) (revision_of i) pdb))"

definition checkpoint_of :: "'a publish_input_scheme \<Rightarrow> projection_checkpoint" where
  "checkpoint_of i = \<lparr>pc_scope = pi_scope i, pc_algorithm = pi_algorithmVersion i, pc_next = pi_blockNumber i + 1,
     pc_generation = pi_generation i, pc_last = Some (revision_of i)\<rparr>"

definition update_checkpoint :: "projection_checkpoint \<Rightarrow> projection_db \<Rightarrow> projection_db" where
  "update_checkpoint c pdb = pdb\<lparr>pd_checkpoints := map (\<lambda>x. if pc_scope x = pc_scope c then c else x) (pd_checkpoints pdb)\<rparr>"

definition upsert_checkpoint :: "projection_checkpoint \<Rightarrow> projection_db \<Rightarrow> projection_db" where
  "upsert_checkpoint c pdb = (if pc_scope c \<in> set (map pc_scope (pd_checkpoints pdb)) then update_checkpoint c pdb
     else pdb\<lparr>pd_checkpoints := pd_checkpoints pdb @ [c]\<rparr>)"

section \<open>Records of a revision\<close>

definition same_row :: "'a saved_record_scheme \<Rightarrow> 'b saved_record_scheme \<Rightarrow> bool" where
  "same_row r s \<longleftrightarrow> sv_identity s = sv_identity r \<and> sv_sortKey s = sv_sortKey r \<and> sv_digest s = sv_digest r
     \<and> jsonb (sv_payload s) = jsonb (sv_payload r)"

definition record_of :: "string \<Rightarrow> string \<Rightarrow> saved_record \<Rightarrow> record_row" where
  "record_of scope revision r = \<lparr>sv_identity = sv_identity r, sv_sortKey = sv_sortKey r, sv_digest = sv_digest r,
     sv_payload = sv_payload r, rr_scope = scope, rr_revision = revision\<rparr>"

definition record_exists :: "string \<Rightarrow> string \<Rightarrow> projection_db \<Rightarrow> string \<Rightarrow> bool" where
  "record_exists scope revision pdb identity \<longleftrightarrow>
     list_ex (\<lambda>x. rr_scope x = scope \<and> rr_revision x = revision \<and> sv_identity x = identity) (pd_records pdb)"

definition write_records :: "string \<Rightarrow> string \<Rightarrow> saved_record list \<Rightarrow> projection_db \<Rightarrow> projection_db res" where
  "write_records scope revision batch pdb =
    (let pdb' = pdb\<lparr>pd_records := pd_records pdb
           @ map (record_of scope revision) (filter (\<lambda>r. \<not> record_exists scope revision pdb (sv_identity r)) batch)\<rparr>;
         verified = concat (map (\<lambda>r. filter (same_row r) (read_records pdb' scope revision)) batch)
     in if length verified \<noteq> length batch then Inl (Error ''projection record identity conflict'') else Inr pdb')"

section \<open>Config sets\<close>

text \<open>Contents are shared by digest; a set's record refers to the content with its digest and payload.\<close>

definition insert_content :: "saved_record \<Rightarrow> projection_db \<Rightarrow> projection_db" where
  "insert_content r pdb = (if sv_digest r \<in> set (map cfc_digest (pd_contents pdb)) then pdb
     else pdb\<lparr>pd_contents := pd_contents pdb @ [\<lparr>cfc_id = pd_seq pdb, cfc_digest = sv_digest r, cfc_payload = sv_payload r\<rparr>],
              pd_seq := pd_seq pdb + 1\<rparr>)"

definition set_records_of :: "nat \<Rightarrow> config_content list \<Rightarrow> saved_record \<Rightarrow> config_record list" where
  "set_records_of sid contents r = map (\<lambda>c. \<lparr>cfr_set = sid, cfr_identity = sv_identity r, cfr_sortKey = sv_sortKey r, cfr_content = cfc_id c\<rparr>)
     (filter (\<lambda>c. cfc_digest c = sv_digest r \<and> jsonb (cfc_payload c) = jsonb (sv_payload r)) contents)"

definition insert_config_batch :: "nat \<Rightarrow> saved_record list \<Rightarrow> projection_db \<Rightarrow> projection_db" where
  "insert_config_batch sid batch pdb =
    (let pdb' = fold insert_content batch pdb
     in pdb'\<lparr>pd_set_records := pd_set_records pdb' @ concat (map (set_records_of sid (pd_contents pdb')) batch)\<rparr>)"

definition find_config_set :: "string \<Rightarrow> saved_record list \<Rightarrow> projection_db \<Rightarrow> projection_db \<times> nat" where
  "find_config_set payloadDigest records pdb = (case find (\<lambda>s. cfs_digest s = payloadDigest) (pd_sets pdb) of
     Some s \<Rightarrow> (pdb, cfs_id s)
   | None \<Rightarrow>
       let sid = pd_seq pdb;
           pdb1 = pdb\<lparr>pd_sets := pd_sets pdb @ [\<lparr>cfs_id = sid, cfs_digest = payloadDigest\<rparr>], pd_seq := sid + 1\<rparr>
       in (fold (insert_config_batch sid) (chunks records 250) pdb1, sid))"

definition compare_saved :: "(string \<Rightarrow> string \<Rightarrow> int) \<Rightarrow> saved_record \<Rightarrow> saved_record \<Rightarrow> int" where
  "compare_saved collate l r = (let c = collate (sv_sortKey l) (sv_sortKey r) in
     if c \<noteq> 0 then c else collate (sv_identity l) (sv_identity r))"

definition evidence_text :: "host \<Rightarrow> saved_record list \<Rightarrow> string" where
  "evidence_text H rows = stableStringify H (JArray (map row_json rows))"

definition publishConfigSet :: "host \<Rightarrow> (string \<Rightarrow> string \<Rightarrow> int) \<Rightarrow> string \<Rightarrow> string \<Rightarrow> saved_record list
    \<Rightarrow> projection_db \<Rightarrow> projection_db res" where
  "publishConfigSet H collate revision payloadDigest records pdb =
    (case find_config_set payloadDigest records pdb of (pdb1, sid) \<Rightarrow>
       if evidence_text H (js_sort (compare_saved collate) (config_saved pdb1 sid)) \<noteq> evidence_text H records
       then Inl (Error ''config set evidence conflict'')
       else let pdb2 = (if revision \<in> set (map cfl_revision (pd_links pdb1)) then pdb1
                        else pdb1\<lparr>pd_links := pd_links pdb1 @ [\<lparr>cfl_revision = revision, cfl_set = sid\<rparr>]\<rparr>)
         in if map_option cfl_set (find (\<lambda>l. cfl_revision l = revision) (pd_links pdb2)) \<noteq> Some sid
            then Inl (Error ''config publication set conflict'') else Inr pdb2)"

section \<open>Market versions\<close>

definition close_version :: "int \<Rightarrow> version_row \<Rightarrow> version_row" where
  "close_version n v = v\<lparr>vr_to := Some n\<rparr>"

definition is_open :: "int \<Rightarrow> version_row \<Rightarrow> bool" where
  "is_open g v \<longleftrightarrow> vr_generation v = g \<and> vr_to v = None"

text \<open>An \<open>UPDATE\<close> that ends the open versions of a generation that satisfy a test.\<close>

definition close_where :: "int \<Rightarrow> int \<Rightarrow> (version_row \<Rightarrow> bool) \<Rightarrow> version_row list \<Rightarrow> version_row list" where
  "close_where g n P vs = map (\<lambda>v. if is_open g v \<and> P v then close_version n v else v) vs"

definition version_of :: "int \<Rightarrow> int \<Rightarrow> saved_record \<Rightarrow> version_row" where
  "version_of g n r = \<lparr>sv_identity = sv_identity r, sv_sortKey = sv_sortKey r, sv_digest = sv_digest r, sv_payload = sv_payload r,
     vr_generation = g, vr_from = n, vr_to = None\<rparr>"

text \<open>The primary key, and the unique index on open versions.\<close>

definition version_clash :: "int \<Rightarrow> int \<Rightarrow> string \<Rightarrow> version_row \<Rightarrow> bool" where
  "version_clash g n identity v \<longleftrightarrow> vr_generation v = g \<and> sv_identity v = identity \<and> (vr_from v = n \<or> vr_to v = None)"

definition insert_version :: "int \<Rightarrow> int \<Rightarrow> saved_record \<Rightarrow> version_row list \<Rightarrow> version_row list res" where
  "insert_version g n r vs = (if list_ex (version_clash g n (sv_identity r)) vs then Inl duplicate_key
     else Inr (vs @ [version_of g n r]))"

definition has_valid :: "int \<Rightarrow> int \<Rightarrow> version_row list \<Rightarrow> string \<Rightarrow> bool" where
  "has_valid g n vs identity \<longleftrightarrow> list_ex (\<lambda>v. sv_identity v = identity \<and> valid_at g n v) vs"

definition superseded :: "int \<Rightarrow> saved_record list \<Rightarrow> version_row \<Rightarrow> bool" where
  "superseded n batch v \<longleftrightarrow> vr_from v < n \<and> list_ex (\<lambda>r. sv_identity v = sv_identity r
     \<and> (sv_sortKey v \<noteq> sv_sortKey r \<or> sv_digest v \<noteq> sv_digest r \<or> jsonb (sv_payload v) \<noteq> jsonb (sv_payload r))) batch"

definition write_versions :: "int \<Rightarrow> int \<Rightarrow> saved_record list \<Rightarrow> version_row list \<Rightarrow> version_row list res" where
  "write_versions g n batch vs =
    (let closed = close_where g n (superseded n batch) vs
     in foldR (insert_version g n) (filter (\<lambda>r. \<not> has_valid g n closed (sv_identity r)) batch) closed)"

text \<open>\<open>new Map(rows.map(row => [row.identity, row]))\<close>: the last row of an identity wins.\<close>

definition by_identity :: "'a saved_record_scheme list \<Rightarrow> string \<Rightarrow> 'a saved_record_scheme option" where
  "by_identity rows = map_of (rev (map (\<lambda>r. (sv_identity r, r)) rows))"

definition changed_rows :: "int \<Rightarrow> int \<Rightarrow> version_row list \<Rightarrow> saved_record list \<Rightarrow> saved_record list" where
  "changed_rows g n vs rows = filter (\<lambda>r. case by_identity (filter (valid_at g n) vs) (sv_identity r) of
       None \<Rightarrow> True | Some prior \<Rightarrow> sv_sortKey prior \<noteq> sv_sortKey r \<or> sv_digest prior \<noteq> sv_digest r) rows"

definition verify_row :: "host \<Rightarrow> version_row list \<Rightarrow> saved_record \<Rightarrow> unit res" where
  "verify_row H verified r = (case by_identity verified (sv_identity r) of
     None \<Rightarrow> Inl (Error ''projection record identity conflict'')
   | Some saved \<Rightarrow> ensure (sv_sortKey saved = sv_sortKey r \<and> sv_digest saved = sv_digest r
       \<and> stableStringify H (sv_payload saved) = stableStringify H (sv_payload r)) (Error ''projection record identity conflict''))"

definition verify_batch :: "host \<Rightarrow> int \<Rightarrow> int \<Rightarrow> version_row list \<Rightarrow> saved_record list \<Rightarrow> unit res" where
  "verify_batch H g n vs batch =
    (let verified = filter (\<lambda>v. valid_at g n v \<and> sv_identity v \<in> set (map sv_identity batch)) vs
     in if length verified \<noteq> length batch \<or> card (set (map sv_identity verified)) \<noteq> length batch
        then Inl (Error ''projection record population conflict'')
        else foldR (\<lambda>r _. verify_row H verified r) batch ())"

definition verify_population :: "host \<Rightarrow> int \<Rightarrow> int \<Rightarrow> version_row list \<Rightarrow> saved_record list \<Rightarrow> unit res" where
  "verify_population H g n vs rows =
    (if length (filter (valid_at g n) vs) \<noteq> length rows then Inl (Error ''projection record population conflict'')
     else foldR (\<lambda>batch _. verify_batch H g n vs batch) (chunks rows 250) ())"

section \<open>A complete publication\<close>

definition write_batch :: "publish_input \<Rightarrow> saved_record list \<Rightarrow> projection_db \<Rightarrow> projection_db res" where
  "write_batch i batch pdb =
    (if pi_incremental i
     then bindR (write_versions (pi_generation i) (pi_blockNumber i) batch (pd_versions pdb)) (\<lambda>vs. Inr (pdb\<lparr>pd_versions := vs\<rparr>))
     else write_records (pi_scope i) (revision_of i) batch pdb)"

definition close_absent :: "publish_input \<Rightarrow> projection_db \<Rightarrow> projection_db" where
  "close_absent i pdb = pdb\<lparr>pd_versions := close_where (pi_generation i) (pi_blockNumber i)
     (\<lambda>v. vr_from v < pi_blockNumber i \<and> sv_identity v \<notin> set (map pr_identity (pi_records i))) (pd_versions pdb)\<rparr>"

definition write_all :: "host \<Rightarrow> (string \<Rightarrow> string \<Rightarrow> int) \<Rightarrow> publish_input \<Rightarrow> string \<Rightarrow> saved_record list
    \<Rightarrow> projection_db \<Rightarrow> projection_db res" where
  "write_all H collate i payloadDigest expected pdb =
     bindR (if pi_scope i = ''configs'' then publishConfigSet H collate (revision_of i) payloadDigest expected pdb else Inr pdb) (\<lambda>pdb1.
       let writes = (if pi_incremental i then changed_rows (pi_generation i) (pi_blockNumber i) (pd_versions pdb1) expected
                     else if pi_scope i = ''configs'' then [] else expected)
       in bindR (foldR (write_batch i) (chunks writes 250) pdb1) (\<lambda>pdb2.
         if pi_incremental i then
           let pdb3 = close_absent i pdb2
           in bindR (verify_population H (pi_generation i) (pi_blockNumber i) (pd_versions pdb3) expected) (\<lambda>_. Inr pdb3)
         else Inr pdb2))"

definition publishProjection :: "host \<Rightarrow> (string \<Rightarrow> string \<Rightarrow> int) \<Rightarrow> publish_input \<Rightarrow> chain_db \<Rightarrow> projection_db
    \<Rightarrow> (projection_db \<times> publish_result) res" where
  "publishProjection H collate i db pdb =
     bindR (validateInput H i) (\<lambda>_. bindR (sqlIdentifier (pi_schemaName i)) (\<lambda>_.
       let normalized = js_sort (compare_records H) (pi_records i);
           payloadDigest = stable_digest H (JArray (map record_json normalized))
       in bindR (assertAnchor i db) (\<lambda>_.
          bindR (enter_publication H i payloadDigest pdb) (\<lambda>(pdb1, duplicate).
          bindR (write_all H collate i payloadDigest (map (expected_row H) normalized) pdb1) (\<lambda>pdb2.
          bindR (move_pointer i pdb2) (\<lambda>pdb3.
            Inr (upsert_checkpoint (checkpoint_of i) pdb3, (revision_of i, duplicate, int (length normalized)))))))))"

text \<open>\<open>Number.isSafeInteger\<close> of a number, and of a field of JSON.\<close>

definition is_safe :: "int \<Rightarrow> bool" where
  "is_safe n \<longleftrightarrow> \<bar>n\<bar> \<le> MAX_SAFE"

definition safe_integer :: "json \<Rightarrow> string \<Rightarrow> int option" where
  "safe_integer v k = (case field v k of Some (JNumber n) \<Rightarrow> if is_safe n then Some n else None | _ \<Rightarrow> None)"

definition acknowledgeMarketPublication :: "publish_input \<Rightarrow> chain_db \<Rightarrow> projection_db \<Rightarrow> publish_result res" where
  "acknowledgeMarketPublication i db pdb =
     bindR (sqlIdentifier (pi_schemaName i)) (\<lambda>_. bindR (assertAnchor i db) (\<lambda>_.
       case (if map_of (pd_pointers pdb) ''markets'' = Some (revision_of i)
             then find (is_publication ''markets'' (revision_of i)) (pd_publications pdb) else None) of
         None \<Rightarrow> Inl (Error ''market retry publication unavailable'')
       | Some p \<Rightarrow> (case safe_integer (pu_payload p) ''recordCount'' of
           None \<Rightarrow> Inl (Error ''market retry publication unavailable'')
         | Some n \<Rightarrow> if pu_generation p \<noteq> pi_generation i
               \<or> field (pu_payload p) ''algorithmVersion'' \<noteq> Some (JText (pi_algorithmVersion i))
             then Inl (Error ''market retry publication unavailable'') else Inr (revision_of i, True, n))))"

end
