(* ===== verification/Projection_Delta.thy ===== *)
theory Projection_Delta imports Projection_Publish begin

text \<open>
  \<open>publishMarketDelta\<close> of \<open>packages/projection/src/index.ts\<close>: a publication of the markets scope that
  states only what changed since a published base revision, and writes only the changed versions.
\<close>

section \<open>Entries\<close>

datatype delta_entry =
    ChangedEntry (entry_identity: string) (entry_sortKey: string) (entry_digest: string)
  | RemovedEntry (entry_identity: string)

definition compare_identities :: "host \<Rightarrow> ('a \<Rightarrow> string) \<Rightarrow> 'a \<Rightarrow> 'a \<Rightarrow> int" where
  "compare_identities H f l r = h_localeCompare H (f l) (f r)"

definition entry_of :: "host \<Rightarrow> projection_record \<Rightarrow> delta_entry" where
  "entry_of H r = ChangedEntry (pr_identity r) (pr_sortKey r) (stable_digest H (pr_payload r))"

definition delta_records :: "host \<Rightarrow> delta_input \<Rightarrow> projection_record list" where
  "delta_records H i = js_sort (compare_identities H pr_identity) (pi_records i)"

definition delta_entries :: "host \<Rightarrow> delta_input \<Rightarrow> delta_entry list" where
  "delta_entries H i = js_sort (compare_identities H entry_identity)
     (map (entry_of H) (delta_records H i) @ map RemovedEntry (js_sort sign_cmp (di_removed i)))"

fun entry_json :: "delta_entry \<Rightarrow> json" where
  "entry_json (ChangedEntry identity sortKey d) =
     JObject [(''identity'', JText identity), (''sortKey'', JText sortKey), (''payloadDigest'', JText d)]"
| "entry_json (RemovedEntry identity) = JObject [(''identity'', JText identity), (''removed'', JBool True)]"

definition validateDelta :: "host \<Rightarrow> delta_input \<Rightarrow> unit res" where
  "validateDelta H i = bindR (validateInput H i) (\<lambda>_.
     if pi_scope i \<noteq> ''markets'' \<or> \<not> pi_incremental i \<or> \<not> is_safe (di_expectedPopulation i) \<or> di_expectedPopulation i < 0
     then Inl (Error ''invalid market delta'')
     else if \<not> distinct (di_removed i) \<or> list_ex (\<lambda>id. list_ex (\<lambda>r. pr_identity r = id) (pi_records i)) (di_removed i)
     then Inl (Error ''overlapping market delta'') else Inr ())"

section \<open>The base\<close>

text \<open>\<open>payload.deltaDepth ?? 0\<close>, a number where it is present.\<close>

definition delta_depth :: "json \<Rightarrow> int" where
  "delta_depth v = (case field v ''deltaDepth'' of Some (JNumber n) \<Rightarrow> n | _ \<Rightarrow> 0)"

definition delta_base :: "delta_input \<Rightarrow> chain_db \<Rightarrow> projection_db \<Rightarrow> (publication_row \<times> int) res" where
  "delta_base i db pdb =
     (case find (\<lambda>p. is_publication ''markets'' (di_baseRevision i) p \<and> anchored db p) (pd_publications pdb) of
        None \<Rightarrow> Inl (Error ''market delta base is unavailable'')
      | Some base \<Rightarrow> (case safe_integer (pu_payload base) ''recordCount'' of
          None \<Rightarrow> Inl (Error ''market delta base is unavailable'')
        | Some recordCount \<Rightarrow>
            if field (pu_payload base) ''storage'' \<noteq> Some (JText ''market-versions-v1'') \<or> pu_generation base \<noteq> pi_generation i
               \<or> pu_blockNumber base \<ge> pi_blockNumber i
            then Inl (Error ''market delta base is unavailable'')
            else if delta_depth (pu_payload base) \<ge> 256 then Inl (Error ''market delta requires a full checkpoint'')
            else Inr (base, recordCount)))"

definition delta_payload :: "host \<Rightarrow> delta_input \<Rightarrow> publication_row \<Rightarrow> json" where
  "delta_payload H i base = JObject [(''deltaDepth'', JNumber (delta_depth (pu_payload base) + 1)),
     (''algorithmVersion'', JText (pi_algorithmVersion i)), (''coverage'', coverage_json i),
     (''storage'', JText ''market-versions-v1''), (''recordCount'', JNumber (di_expectedPopulation i)),
     (''commitment'', JText ''base-delta-v1''), (''baseRevision'', JText (di_baseRevision i)),
     (''baseDigest'', JText (pu_digest base)), (''entries'', JArray (map entry_json (delta_entries H i)))]"

section \<open>Writing a batch of entries\<close>

text \<open>The population so far, the records to write and the identities to close.\<close>

type_synonym delta_plan = "int \<times> projection_record list \<times> string list"

definition plan_entry :: "host \<Rightarrow> projection_record list \<Rightarrow> (string \<Rightarrow> version_row option) \<Rightarrow> delta_entry \<Rightarrow> delta_plan \<Rightarrow> delta_plan res" where
  "plan_entry H records prior e = (\<lambda>(population, changed, closing).
     case e of
       RemovedEntry identity \<Rightarrow>
         (case prior identity of None \<Rightarrow> Inl (Error ''removed market is absent from base'')
          | Some _ \<Rightarrow> Inr (population - 1, changed, closing @ [identity]))
     | ChangedEntry identity sortKey d \<Rightarrow>
         (case find (\<lambda>r. pr_identity r = identity) records of
            None \<Rightarrow> Inl (TypeError ''Cannot read properties of undefined'')
          | Some v \<Rightarrow>
             (case prior identity of
                None \<Rightarrow> Inr (population + 1, changed @ [v], closing)
              | Some old \<Rightarrow>
                  if sv_digest old \<noteq> d \<or> sv_sortKey old \<noteq> sortKey
                     \<or> stableStringify H (sv_payload old) \<noteq> stableStringify H (pr_payload v)
                  then Inr (population, changed @ [v], closing @ [identity]) else Inr (population, changed, closing))))"

definition close_identities :: "int \<Rightarrow> int \<Rightarrow> int \<Rightarrow> string list \<Rightarrow> version_row list \<Rightarrow> version_row list res" where
  "close_identities g n baseBlock closing vs =
    (if closing = [] then Inr vs
     else if length (filter (\<lambda>v. is_open g v \<and> sv_identity v \<in> set closing \<and> vr_from v \<le> baseBlock) vs) \<noteq> length closing
     then Inl (Error ''market delta closing conflict'')
     else Inr (close_where g n (\<lambda>v. sv_identity v \<in> set closing \<and> vr_from v \<le> baseBlock) vs))"

definition insert_changed :: "host \<Rightarrow> int \<Rightarrow> int \<Rightarrow> saved_record list \<Rightarrow> version_row list \<Rightarrow> version_row list res" where
  "insert_changed H g n rows vs =
    (if rows = [] then Inr vs
     else bindR (foldR (insert_version g n) rows vs) (\<lambda>vs'.
       let written = map saved_record.truncate (drop (length vs) vs')
       in if evidence_text H (js_sort (compare_identities H sv_identity) written)
             \<noteq> evidence_text H (js_sort (compare_identities H sv_identity) rows)
          then Inl (Error ''market delta write verification failed'') else Inr vs'))"

definition write_delta_batch :: "host \<Rightarrow> delta_input \<Rightarrow> int \<Rightarrow> delta_entry list \<Rightarrow> int \<times> version_row list
    \<Rightarrow> (int \<times> version_row list) res" where
  "write_delta_batch H i baseBlock batch = (\<lambda>(population, vs).
     let g = pi_generation i;
         old = filter (\<lambda>v. sv_identity v \<in> set (map entry_identity batch) \<and> valid_at g baseBlock v) vs
     in bindR (foldR (plan_entry H (delta_records H i) (by_identity old)) batch (population, [], [])) (\<lambda>(population', changed, closing).
        bindR (close_identities g (pi_blockNumber i) baseBlock closing vs) (\<lambda>vs1.
        bindR (insert_changed H g (pi_blockNumber i) (map (expected_row H) changed) vs1) (\<lambda>vs2.
          Inr (population', vs2)))))"

section \<open>The publication\<close>

definition publishMarketDelta :: "host \<Rightarrow> delta_input \<Rightarrow> chain_db \<Rightarrow> projection_db \<Rightarrow> (projection_db \<times> publish_result) res" where
  "publishMarketDelta H i db pdb =
     bindR (validateDelta H i) (\<lambda>_. bindR (sqlIdentifier (pi_schemaName i)) (\<lambda>_.
     bindR (assertAnchor i db) (\<lambda>_. bindR (delta_base i db pdb) (\<lambda>(base, recordCount).
       let revision = revision_of i; payload = delta_payload H i base; root = stable_digest H payload
       in case find (is_publication ''markets'' revision) (pd_publications pdb) of
            Some existing \<Rightarrow>
              if pu_digest existing \<noteq> root \<or> stableStringify H (pu_payload existing) \<noteq> stableStringify H payload
              then Inl (Error ''publication revision already exists with different evidence'')
              else Inr (pdb, (revision, True, di_expectedPopulation i))
          | None \<Rightarrow>
              if map_of (pd_pointers pdb) ''markets'' \<noteq> Some (di_baseRevision i)
              then Inl (Error ''market delta base was superseded'')
              else bindR (foldR (write_delta_batch H i (pu_blockNumber base)) (chunks (delta_entries H i) 250)
                     (recordCount, pd_versions pdb)) (\<lambda>(population, vs).
                if population \<noteq> di_expectedPopulation i then Inl (Error ''market delta population mismatch'')
                else if int (length (filter (valid_at (pi_generation i) (pi_blockNumber i)) vs)) \<noteq> population
                then Inl (Error ''market delta stored population conflict'')
                else
                  let pdb1 = pdb\<lparr>pd_versions := vs, pd_publications := pd_publications pdb @ [publication_of i root payload]\<rparr>
                  in Inr (update_checkpoint (checkpoint_of i) (set_pointer ''markets'' revision pdb1),
                          (revision, False, population)))))))"

end
