(* ===== verification/Projection_Frames.thy ===== *)
theory Projection_Frames imports Projection_Delta begin

text \<open>
  What the writers of the projection tables leave alone: the versions that hold before the published block,
  the config sets that exist, and the records and links of other revisions. A writer's effect is described by
  \<open>publication_step\<close>, which its batches and loops compose.
\<close>

section \<open>Versions valid at a block\<close>

text \<open>What every publication of another generation, or of an earlier block, reads of the versions.\<close>

definition same_versions_before :: "int \<Rightarrow> int \<Rightarrow> version_row list \<Rightarrow> version_row list \<Rightarrow> bool" where
  "same_versions_before g n vs vs' \<longleftrightarrow> (\<forall>g' n'. g' \<noteq> g \<or> n' < n \<longrightarrow>
     map saved_record.truncate (filter (valid_at g' n') vs') = map saved_record.truncate (filter (valid_at g' n') vs))"

text \<open>The versions of generation \<open>g\<close> lie up to block \<open>n\<close>, with one open version per identity.\<close>

definition versions_upto :: "int \<Rightarrow> int \<Rightarrow> version_row list \<Rightarrow> bool" where
  "versions_upto g n vs \<longleftrightarrow> (\<forall>v\<in>set vs. vr_generation v = g \<longrightarrow> vr_from v \<le> n \<and> (\<forall>t. vr_to v = Some t \<longrightarrow> t \<le> n))"

definition one_open :: "int \<Rightarrow> version_row list \<Rightarrow> bool" where
  "one_open g vs \<longleftrightarrow> distinct (map sv_identity (filter (is_open g) vs))"

text \<open>What an update of the versions of generation \<open>g\<close> at block \<open>n\<close> keeps.\<close>

definition versions_step :: "int \<Rightarrow> int \<Rightarrow> version_row list \<Rightarrow> version_row list \<Rightarrow> bool" where
  "versions_step g n vs vs' \<longleftrightarrow> same_versions_before g n vs vs' \<and> (one_open g vs \<longrightarrow> one_open g vs')
     \<and> (\<forall>m\<le>n. versions_upto g m vs \<longrightarrow> versions_upto g n vs')
     \<and> (\<forall>g'. g' \<noteq> g \<longrightarrow> filter (\<lambda>v. vr_generation v = g') vs' = filter (\<lambda>v. vr_generation v = g') vs)"

lemma versions_upto_mono: "versions_upto g m vs \<Longrightarrow> m \<le> n \<Longrightarrow> versions_upto g n vs"
  by (auto simp: versions_upto_def dest: bspec order_trans)

lemma versions_step_refl [simp]: "versions_step g n vs vs"
  by (auto simp: versions_step_def same_versions_before_def intro: versions_upto_mono)

lemma versions_step_trans:
  assumes "versions_step g n vs vs1" and "versions_step g n vs1 vs2" shows "versions_step g n vs vs2"
  using assms unfolding versions_step_def same_versions_before_def by auto

lemma valid_at_open: "versions_upto g n vs \<Longrightarrow> filter (valid_at g n) vs = filter (is_open g) vs"
  by (rule filter_cong) (auto simp: versions_upto_def valid_at_def is_open_def split: option.splits)

lemma map_filter_map:
  "(\<And>x. x \<in> set xs \<Longrightarrow> Q (f x) = Q x \<and> (Q x \<longrightarrow> h (f x) = h x)) \<Longrightarrow> map h (filter Q (map f xs)) = map h (filter Q xs)"
  by (induction xs) auto

lemma close_step: "versions_step g n vs (close_where g n P vs)"
proof -
  define f where "f v = (if is_open g v \<and> P v then close_version n v else v)" for v
  have c: "close_where g n P vs = map f vs" by (simp add: close_where_def f_def)
  have valid: "valid_at g' n' (f v) = valid_at g' n' v" if "g' \<noteq> g \<or> n' < n" for g' n' v
    using that by (auto simp: f_def valid_at_def is_open_def close_version_def)
  have keep: "saved_record.truncate (f v) = saved_record.truncate v" "vr_generation (f v) = vr_generation v"
      "vr_from (f v) = vr_from v" "sv_identity (f v) = sv_identity v" for v
    by (simp_all add: f_def close_version_def saved_record.truncate_def)
  have "same_versions_before g n vs (map f vs)"
    unfolding same_versions_before_def using valid keep(1) by (blast intro: map_filter_map)
  moreover have "one_open g (map f vs)" if "one_open g vs"
  proof -
    have "is_open g (f v) \<Longrightarrow> is_open g v \<and> f v = v" for v by (auto simp: f_def is_open_def close_version_def split: if_splits)
    then have "filter (is_open g) (map f vs) = filter (\<lambda>v. is_open g (f v)) vs" by (induction vs) auto
    moreover have "filter (\<lambda>v. is_open g (f v)) vs = filter (\<lambda>v. is_open g (f v)) (filter (is_open g) vs)"
      using \<open>\<And>v. is_open g (f v) \<Longrightarrow> is_open g v \<and> f v = v\<close> by (auto intro: filter_cong)
    ultimately show ?thesis
      using distinct_map_filter [OF that [unfolded one_open_def], of "\<lambda>v. is_open g (f v)"] by (simp add: one_open_def)
  qed
  moreover have "versions_upto g n (map f vs)" if "m \<le> n" "versions_upto g m vs" for m
  proof -
    have "t \<le> n" if "vr_to (f v) = Some t" "v \<in> set vs" "vr_generation v = g" for v t
    proof (cases "f v = v")
      case True
      with that versions_upto_mono [OF \<open>versions_upto g m vs\<close> \<open>m \<le> n\<close>] show ?thesis by (auto simp: versions_upto_def)
    next
      case False
      with that show ?thesis by (auto simp: f_def close_version_def split: if_splits)
    qed
    then show ?thesis using versions_upto_mono [OF that(2,1)] by (simp add: versions_upto_def keep)
  qed
  moreover have "filter (\<lambda>v. vr_generation v = g') (map f vs) = filter (\<lambda>v. vr_generation v = g') vs" if "g' \<noteq> g" for g'
  proof -
    have "vr_generation v = g' \<Longrightarrow> f v = v" for v using that by (auto simp: f_def is_open_def)
    then show ?thesis using map_filter_map [of vs "\<lambda>v. vr_generation v = g'" f "\<lambda>v. v"] keep(2) by simp
  qed
  ultimately show ?thesis by (simp add: versions_step_def c)
qed

lemma insert_version_step:
  assumes "insert_version g n r vs = Inr vs'"
  shows "versions_step g n vs vs' \<and> vs' = vs @ [version_of g n r]"
proof -
  have vs': "vs' = vs @ [version_of g n r]" and new: "\<not> list_ex (version_clash g n (sv_identity r)) vs"
    using assms by (auto simp: insert_version_def split: if_splits)
  have "same_versions_before g n vs vs'"
    by (auto simp: same_versions_before_def vs' valid_at_def version_of_def)
  moreover have "one_open g vs \<longrightarrow> one_open g vs'"
    using new by (auto simp: one_open_def vs' is_open_def version_of_def list_ex_iff version_clash_def)
  moreover have "\<forall>m\<le>n. versions_upto g m vs \<longrightarrow> versions_upto g n vs'"
    by (auto simp: vs' versions_upto_def version_of_def dest: bspec order_trans)
  ultimately show ?thesis by (simp add: versions_step_def vs' version_of_def)
qed

lemma insert_versions_step:
  "foldR (insert_version g n) rows vs = Inr vs' \<Longrightarrow> versions_step g n vs vs' \<and> vs' = vs @ map (version_of g n) rows"
proof (induction rows arbitrary: vs)
  case (Cons r rows)
  then obtain vs1 where "insert_version g n r vs = Inr vs1" "foldR (insert_version g n) rows vs1 = Inr vs'" by (auto simp: res_simps)
  then show ?case using Cons.IH [of vs1] insert_version_step [of g n r vs vs1] versions_step_trans by auto
qed simp

lemma write_versions_step: "write_versions g n batch vs = Inr vs' \<Longrightarrow> versions_step g n vs vs'"
  unfolding write_versions_def Let_def using insert_versions_step close_step versions_step_trans by blast

section \<open>What a publication leaves alone\<close>

text \<open>Identifiers of the config tables are below the counter.\<close>

definition config_ids_ok :: "projection_db \<Rightarrow> bool" where
  "config_ids_ok pdb \<longleftrightarrow> (\<forall>c\<in>set (pd_contents pdb). cfc_id c < pd_seq pdb) \<and> (\<forall>s\<in>set (pd_sets pdb). cfs_id s < pd_seq pdb)
     \<and> (\<forall>r\<in>set (pd_set_records pdb). cfr_set r < pd_seq pdb \<and> cfr_content r < pd_seq pdb)
     \<and> (\<forall>l\<in>set (pd_links pdb). cfl_set l < pd_seq pdb)"

text \<open>A change to the config tables that leaves the sets below \<open>b\<close> as they are.\<close>

definition config_step :: "nat \<Rightarrow> projection_db \<Rightarrow> projection_db \<Rightarrow> bool" where
  "config_step b pdb pdb' \<longleftrightarrow> b \<le> pd_seq pdb \<and> pd_seq pdb \<le> pd_seq pdb' \<and> (config_ids_ok pdb \<longrightarrow> config_ids_ok pdb'
     \<and> (\<forall>s<b. config_saved pdb' s = config_saved pdb s))
     \<and> pd_publications pdb' = pd_publications pdb \<and> pd_pointers pdb' = pd_pointers pdb \<and> pd_records pdb' = pd_records pdb
     \<and> pd_versions pdb' = pd_versions pdb \<and> pd_links pdb' = pd_links pdb"

lemma config_step_trans: "config_step b pdb pdb1 \<Longrightarrow> config_step b pdb1 pdb2 \<Longrightarrow> config_step b pdb pdb2"
  by (auto simp: config_step_def)

lemma config_step_fold:
  "b \<le> pd_seq pdb \<Longrightarrow> (\<And>x pdb. b \<le> pd_seq pdb \<Longrightarrow> config_step b pdb (f x pdb)) \<Longrightarrow> config_step b pdb (fold f xs pdb)"
proof (induction xs arbitrary: pdb)
  case Nil
  then show ?case by (simp add: config_step_def)
next
  case (Cons x xs)
  then have "config_step b pdb (f x pdb)" by simp
  moreover from this have "b \<le> pd_seq (f x pdb)" by (simp add: config_step_def)
  ultimately show ?case using config_step_trans [OF _ Cons.IH [of "f x pdb"]] Cons.prems by simp
qed

lemma config_saved_append:
  assumes "\<forall>r\<in>set (pd_set_records pdb). cfr_set r = s \<longrightarrow> (\<forall>c\<in>set cs. cfc_id c \<noteq> cfr_content r)" and "\<forall>r\<in>set rs. cfr_set r \<noteq> s"
    and "pd_contents pdb' = pd_contents pdb @ cs" and "pd_set_records pdb' = pd_set_records pdb @ rs"
  shows "config_saved pdb' s = config_saved pdb s"
proof -
  have "filter (\<lambda>r. cfr_set r = s) (pd_set_records pdb') = filter (\<lambda>r. cfr_set r = s) (pd_set_records pdb)"
    using assms(2) by (simp add: assms(4) filter_empty_conv)
  moreover have "filter (\<lambda>c. cfc_id c = cfr_content r) (pd_contents pdb') = filter (\<lambda>c. cfc_id c = cfr_content r) (pd_contents pdb)"
    if "r \<in> set (filter (\<lambda>r. cfr_set r = s) (pd_set_records pdb))" for r
    using assms(1) that by (simp add: assms(3) filter_empty_conv)
  ultimately show ?thesis unfolding config_saved_def by (intro arg_cong [where f = concat]) (simp cong: map_cong)
qed

lemma insert_content_step: "b \<le> pd_seq pdb \<Longrightarrow> config_step b pdb (insert_content r pdb)"
proof (cases "sv_digest r \<in> set (map cfc_digest (pd_contents pdb))")
  case True
  moreover assume "b \<le> pd_seq pdb"
  ultimately show ?thesis by (auto simp: insert_content_def config_step_def)
next
  case False
  assume b: "b \<le> pd_seq pdb"
  define c where "c = \<lparr>cfc_id = pd_seq pdb, cfc_digest = sv_digest r, cfc_payload = sv_payload r\<rparr>"
  have eq: "insert_content r pdb = pdb\<lparr>pd_contents := pd_contents pdb @ [c], pd_seq := pd_seq pdb + 1\<rparr>"
    using False by (simp add: insert_content_def c_def)
  have "config_saved (insert_content r pdb) s = config_saved pdb s" if "config_ids_ok pdb" for s
    using that by (intro config_saved_append [where cs = "[c]" and rs = "[]"]) (auto simp: eq c_def config_ids_ok_def)
  moreover have "config_ids_ok (insert_content r pdb)" if "config_ids_ok pdb"
    using that by (auto simp: eq c_def config_ids_ok_def less_Suc_eq)
  ultimately show ?thesis using b by (simp add: config_step_def eq)
qed

lemma insert_config_batch_step:
  assumes "b \<le> sid" and "sid < pd_seq pdb" shows "config_step b pdb (insert_config_batch sid batch pdb)"
proof -
  define pdb' where "pdb' = fold insert_content batch pdb"
  define rs where "rs = concat (map (set_records_of sid (pd_contents pdb')) batch)"
  have eq: "insert_config_batch sid batch pdb = pdb'\<lparr>pd_set_records := pd_set_records pdb' @ rs\<rparr>"
    by (simp add: insert_config_batch_def pdb'_def rs_def Let_def)
  have one: "config_step b pdb pdb'" unfolding pdb'_def
    by (rule config_step_fold) (use assms insert_content_step in auto)
  have rs: "cfr_set r = sid \<and> cfr_content r \<in> cfc_id ` set (pd_contents pdb')" if "r \<in> set rs" for r
    using that by (auto simp: rs_def set_records_of_def)
  have "sid < pd_seq pdb'" using one assms by (simp add: config_step_def)
  have "config_ids_ok (insert_config_batch sid batch pdb)" if ok: "config_ids_ok pdb'"
  proof -
    have "\<forall>r\<in>set rs. cfr_set r < pd_seq pdb' \<and> cfr_content r < pd_seq pdb'"
      using ok rs \<open>sid < pd_seq pdb'\<close> by (force simp: config_ids_ok_def)
    with ok show ?thesis by (simp add: eq config_ids_ok_def ball_Un)
  qed
  moreover have "config_saved (insert_config_batch sid batch pdb) s = config_saved pdb' s" if "s < b" for s
    using rs that assms(1) by (intro config_saved_append [where cs = "[]" and rs = rs]) (auto simp: eq)
  ultimately show ?thesis using one by (auto simp: config_step_def eq)
qed

lemma find_config_set_step:
  assumes "find_config_set d records pdb = (pdb', sid)"
  shows "config_step (pd_seq pdb) pdb pdb' \<and> (config_ids_ok pdb \<longrightarrow> sid < pd_seq pdb')"
proof (cases "find (\<lambda>s. cfs_digest s = d) (pd_sets pdb)")
  case (Some s)
  then show ?thesis using assms find_member [OF Some]
    by (auto simp: find_config_set_def config_step_def config_ids_ok_def)
next
  case None
  define pdb1 where "pdb1 = pdb\<lparr>pd_sets := pd_sets pdb @ [\<lparr>cfs_id = pd_seq pdb, cfs_digest = d\<rparr>], pd_seq := pd_seq pdb + 1\<rparr>"
  have run: "pdb' = fold (insert_config_batch (pd_seq pdb)) (chunks records 250) pdb1" "sid = pd_seq pdb"
    using assms None by (auto simp: find_config_set_def pdb1_def Let_def)
  have one: "config_step (pd_seq pdb) pdb pdb1"
    by (auto simp: config_step_def pdb1_def config_ids_ok_def less_Suc_eq config_saved_def)
  have two: "b = pd_seq pdb \<Longrightarrow> config_step (pd_seq pdb) pdb1 pdb' \<and> pd_seq pdb1 \<le> pd_seq pdb'" for b
  proof -
    have "config_step (pd_seq pdb1 - 1) pdb1 pdb' \<and> pd_seq pdb1 \<le> pd_seq pdb'" if "pd_seq pdb1 = Suc m" for m
    proof -
      have "config_step m x (fold (insert_config_batch m) bs x)" if "m < pd_seq x" for bs x
        using that
      proof (induction bs arbitrary: x)
        case (Cons c bs)
        have s: "config_step m x (insert_config_batch m c x)" using Cons.prems by (simp add: insert_config_batch_step)
        then have "m < pd_seq (insert_config_batch m c x)" using Cons.prems by (simp add: config_step_def)
        with s Cons.IH config_step_trans show ?case by simp
      qed (auto simp: config_step_def)
      from this [of pdb1 "chunks records 250"] that run show ?thesis by (simp add: pdb1_def config_step_def)
    qed
    then show ?thesis by (simp add: pdb1_def)
  qed
  from config_step_trans [OF one] two show ?thesis using run by (auto simp: pdb1_def)
qed

text \<open>The frame of a publication of \<open>revision\<close> in \<open>scope\<close>, at block \<open>n\<close> of generation \<open>g\<close>.\<close>

definition publication_step :: "string \<Rightarrow> string \<Rightarrow> int \<Rightarrow> int \<Rightarrow> projection_db \<Rightarrow> projection_db \<Rightarrow> bool" where
  "publication_step scope revision g n pdb pdb' \<longleftrightarrow>
     (\<exists>rs. pd_records pdb' = pd_records pdb @ rs \<and> (\<forall>r\<in>set rs. rr_scope r = scope \<and> rr_revision r = revision))
     \<and> versions_step g n (pd_versions pdb) (pd_versions pdb') \<and> (scope \<noteq> ''markets'' \<longrightarrow> pd_versions pdb' = pd_versions pdb)
     \<and> (\<exists>ls. pd_links pdb' = pd_links pdb @ ls \<and> (\<forall>l\<in>set ls. scope = ''configs'' \<and> cfl_revision l = revision))
     \<and> (config_ids_ok pdb \<longrightarrow> config_ids_ok pdb' \<and> (\<forall>s<pd_seq pdb. config_saved pdb' s = config_saved pdb s))
     \<and> pd_seq pdb \<le> pd_seq pdb' \<and> pd_publications pdb' = pd_publications pdb \<and> pd_pointers pdb' = pd_pointers pdb"

lemma publication_step_refl [simp]: "publication_step scope revision g n pdb pdb"
  by (simp add: publication_step_def)

lemma publication_step_trans:
  assumes "publication_step scope revision g n pdb pdb1" and "publication_step scope revision g n pdb1 pdb2"
  shows "publication_step scope revision g n pdb pdb2"
proof -
  obtain rs ls where 1: "pd_records pdb1 = pd_records pdb @ rs" "\<forall>r\<in>set rs. rr_scope r = scope \<and> rr_revision r = revision"
    "pd_links pdb1 = pd_links pdb @ ls" "\<forall>l\<in>set ls. scope = ''configs'' \<and> cfl_revision l = revision"
    using assms(1) unfolding publication_step_def by blast
  obtain rs' ls' where 2: "pd_records pdb2 = pd_records pdb1 @ rs'" "\<forall>r\<in>set rs'. rr_scope r = scope \<and> rr_revision r = revision"
    "pd_links pdb2 = pd_links pdb1 @ ls'" "\<forall>l\<in>set ls'. scope = ''configs'' \<and> cfl_revision l = revision"
    using assms(2) unfolding publication_step_def by blast
  have "pd_records pdb2 = pd_records pdb @ (rs @ rs')" "\<forall>r\<in>set (rs @ rs'). rr_scope r = scope \<and> rr_revision r = revision"
    "pd_links pdb2 = pd_links pdb @ (ls @ ls')" "\<forall>l\<in>set (ls @ ls'). scope = ''configs'' \<and> cfl_revision l = revision"
    using 1 2 by auto
  moreover have "versions_step g n (pd_versions pdb) (pd_versions pdb2)"
    using assms versions_step_trans unfolding publication_step_def by blast
  moreover have "config_ids_ok pdb \<longrightarrow> config_ids_ok pdb2 \<and> (\<forall>s<pd_seq pdb. config_saved pdb2 s = config_saved pdb s)"
    "pd_seq pdb \<le> pd_seq pdb2" "scope \<noteq> ''markets'' \<longrightarrow> pd_versions pdb2 = pd_versions pdb"
    "pd_publications pdb2 = pd_publications pdb" "pd_pointers pdb2 = pd_pointers pdb"
    using assms unfolding publication_step_def by auto
  ultimately show ?thesis unfolding publication_step_def by blast
qed

lemma publication_step_foldR:
  assumes "foldR f xs pdb = Inr pdb'" and "\<And>x pdb pdb'. f x pdb = Inr pdb' \<Longrightarrow> publication_step scope revision g n pdb pdb'"
  shows "publication_step scope revision g n pdb pdb'"
  by (rule foldR_keeps [where I = "publication_step scope revision g n pdb", OF assms(1)])
    (use assms(2) publication_step_trans in \<open>auto\<close>)

lemma write_records_step:
  assumes "write_records scope revision batch pdb = Inr pdb'" shows "publication_step scope revision g n pdb pdb'"
  using assms by (auto simp: write_records_def Let_def publication_step_def record_of_def config_saved_def config_ids_ok_def split: if_splits)

lemma publishConfigSet_step:
  assumes "publishConfigSet H collate revision d records pdb = Inr pdb'"
  shows "publication_step ''configs'' revision g n pdb pdb'"
proof -
  obtain pdb1 sid where found: "find_config_set d records pdb = (pdb1, sid)" by (cases "find_config_set d records pdb") auto
  define pdb2 where "pdb2 = (if revision \<in> set (map cfl_revision (pd_links pdb1)) then pdb1
                        else pdb1\<lparr>pd_links := pd_links pdb1 @ [\<lparr>cfl_revision = revision, cfl_set = sid\<rparr>]\<rparr>)"
  have pdb': "pdb' = pdb2" using assms unfolding publishConfigSet_def found by (auto simp: pdb2_def Let_def res_simps split: if_splits)
  note s = find_config_set_step [OF found]
  have ids: "config_ids_ok pdb2" "\<forall>s<pd_seq pdb. config_saved pdb2 s = config_saved pdb s" if "config_ids_ok pdb"
    using s that by (auto simp: config_step_def pdb2_def config_ids_ok_def config_saved_def)
  have "\<exists>ls. pd_links pdb2 = pd_links pdb @ ls \<and> (\<forall>l\<in>set ls. ''configs'' = ''configs'' \<and> cfl_revision l = revision)"
    using s by (auto simp: config_step_def pdb2_def)
  then show ?thesis
    using s ids unfolding publication_step_def pdb' by (auto simp: config_step_def pdb2_def)
qed

lemma write_batch_step:
  assumes "write_batch i batch pdb = Inr pdb'" and "pi_incremental i \<longrightarrow> pi_scope i = ''markets''"
  shows "publication_step (pi_scope i) (revision_of i) (pi_generation i) (pi_blockNumber i) pdb pdb'"
proof (cases "pi_incremental i")
  case True
  then obtain vs where "write_versions (pi_generation i) (pi_blockNumber i) batch (pd_versions pdb) = Inr vs" "pdb' = pdb\<lparr>pd_versions := vs\<rparr>"
    using assms(1) by (auto simp: write_batch_def res_simps)
  then show ?thesis using True assms(2) write_versions_step
    by (auto simp: publication_step_def config_ids_ok_def config_saved_def)
next
  case False
  then show ?thesis using assms(1) write_records_step by (simp add: write_batch_def)
qed

lemma close_absent_step:
  "pi_scope i = ''markets'' \<Longrightarrow> publication_step ''markets'' (revision_of i) (pi_generation i) (pi_blockNumber i) pdb (close_absent i pdb)"
  by (simp add: publication_step_def close_absent_def close_step config_ids_ok_def config_saved_def)

lemma write_all_step:
  assumes run: "write_all H collate i d expected pdb = Inr pdb'" and scope: "pi_incremental i \<longrightarrow> pi_scope i = ''markets''"
  shows "publication_step (pi_scope i) (revision_of i) (pi_generation i) (pi_blockNumber i) pdb pdb'"
proof -
  define step where "step = publication_step (pi_scope i) (revision_of i) (pi_generation i) (pi_blockNumber i)"
  obtain pdb1 pdb2 writes where
    1: "(if pi_scope i = ''configs'' then publishConfigSet H collate (revision_of i) d expected pdb else Inr pdb) = Inr pdb1"
    and 2: "foldR (write_batch i) (chunks writes 250) pdb1 = Inr pdb2"
    and 3: "pdb' = pdb2 \<or> pi_incremental i \<and> pdb' = close_absent i pdb2"
    using run unfolding write_all_def Let_def by (auto simp: bindR_eq_Inr split: if_splits)
  have "step pdb pdb1" using 1 publishConfigSet_step by (auto simp: step_def split: if_splits)
  moreover have "step pdb1 pdb2" unfolding step_def
    by (rule publication_step_foldR [OF 2]) (use write_batch_step scope in blast)
  moreover have "step pdb2 pdb'" using 3 scope close_absent_step [of i pdb2] by (auto simp: step_def)
  ultimately show ?thesis unfolding step_def using publication_step_trans by blast
qed

end
