(* ===== verification/Projection_Invariant.thy ===== *)
theory Projection_Invariant imports Projection_Frames begin

text \<open>
  What a committed publication does to the other revisions, and the invariant of the projection tables: keys, and
  within the current generation of the stream, publications that are canonical and not above the one their
  scope points at. Every commit keeps it.
\<close>

section \<open>What a commit does to other revisions\<close>

lemma read_records_step:
  assumes step: "publication_step scope revision g n pdb pdb'" and ids: "config_ids_ok pdb" and other: "(s, r) \<noteq> (scope, revision)"
    and earlier: "\<forall>p\<in>set (pd_publications pdb). is_publication s r p \<and> uses_versions p \<and> scope = ''markets''
      \<longrightarrow> pu_generation p \<noteq> g \<or> pu_blockNumber p < n"
  shows "read_records pdb' s r = read_records pdb s r"
proof -
  obtain rs ls where p: "pd_records pdb' = pd_records pdb @ rs" "\<forall>x\<in>set rs. rr_scope x = scope \<and> rr_revision x = revision"
    "pd_links pdb' = pd_links pdb @ ls" "\<forall>l\<in>set ls. scope = ''configs'' \<and> cfl_revision l = revision"
    using step unfolding publication_step_def by blast
  have q: "versions_step g n (pd_versions pdb) (pd_versions pdb')" "scope \<noteq> ''markets'' \<Longrightarrow> pd_versions pdb' = pd_versions pdb"
    "\<forall>x<pd_seq pdb. config_saved pdb' x = config_saved pdb x" "pd_publications pdb' = pd_publications pdb"
    using step ids unfolding publication_step_def by auto
  have records: "filter (\<lambda>x. rr_scope x = s \<and> rr_revision x = r) (pd_records pdb')
      = filter (\<lambda>x. rr_scope x = s \<and> rr_revision x = r) (pd_records pdb)"
    using p(2) other by (auto simp: p(1) filter_empty_conv)
  have links: "filter (\<lambda>l. s = ''configs'' \<and> cfl_revision l = r) (pd_links pdb')
      = filter (\<lambda>l. s = ''configs'' \<and> cfl_revision l = r) (pd_links pdb)"
    using p(4) other by (auto simp: p(3) filter_empty_conv)
  have configs: "config_saved pdb' (cfl_set l) = config_saved pdb (cfl_set l)" if "l \<in> set (pd_links pdb)" for l
    using q(3) ids that by (auto simp: config_ids_ok_def)
  have versions: "map saved_record.truncate (filter (valid_at (pu_generation p) (pu_blockNumber p)) (pd_versions pdb'))
      = map saved_record.truncate (filter (valid_at (pu_generation p) (pu_blockNumber p)) (pd_versions pdb))"
    if "p \<in> set (filter (\<lambda>p. uses_versions p \<and> pu_scope p = s \<and> pu_revision p = r) (pd_publications pdb))" for p
  proof (cases "scope = ''markets''")
    case True
    then have "pu_generation p \<noteq> g \<or> pu_blockNumber p < n" using earlier that by (auto simp: is_publication_def)
    then show ?thesis using q(1) by (simp add: versions_step_def same_versions_before_def)
  qed (simp add: q(2))
  note versions = map_cong [OF refl versions]
  have "map (\<lambda>l. config_saved pdb' (cfl_set l)) (filter (\<lambda>l. s = ''configs'' \<and> cfl_revision l = r) (pd_links pdb))
      = map (\<lambda>l. config_saved pdb (cfl_set l)) (filter (\<lambda>l. s = ''configs'' \<and> cfl_revision l = r) (pd_links pdb))"
    by (rule map_cong [OF refl]) (use configs in simp)
  then show ?thesis unfolding read_records_def records links q(4) by (simp only: versions)
qed

text \<open>
  What \<open>publishProjection\<close> and \<open>publishMarketDelta\<close> have in common once they commit: the anchor was checked,
  the publication is entered or was there in the same generation, its records are written within the frame,
  and the pointer moves from a publication that is not later.
\<close>

definition committed :: "publish_input \<Rightarrow> chain_db \<Rightarrow> projection_db \<Rightarrow> projection_db \<Rightarrow> bool" where
  "committed i db pdb pdb' \<longleftrightarrow> assertAnchor i db = Inr () \<and> (\<exists>d payload pdb1 pdb2 cs.
     (if \<exists>p\<in>set (pd_publications pdb). is_publication (pi_scope i) (revision_of i) p
      then pdb1 = pdb \<and> (\<forall>p\<in>set (pd_publications pdb). is_publication (pi_scope i) (revision_of i) p \<longrightarrow> pu_generation p = pi_generation i)
      else pdb1 = pdb\<lparr>pd_publications := pd_publications pdb @ [publication_of i d payload]\<rparr>)
     \<and> publication_step (pi_scope i) (revision_of i) (pi_generation i) (pi_blockNumber i) pdb1 pdb2
     \<and> (\<forall>p. current_publication (pi_scope i) pdb2 = Some p \<longrightarrow> pu_blockNumber p \<le> pi_blockNumber i
          \<and> (pu_blockNumber p = pi_blockNumber i \<longrightarrow> pu_revision p = revision_of i))
     \<and> pdb' = (set_pointer (pi_scope i) (revision_of i) pdb2)\<lparr>pd_checkpoints := cs\<rparr>)"

section \<open>The invariant of the projection tables\<close>

definition publication_keys :: "projection_db \<Rightarrow> (string \<times> string) set" where
  "publication_keys pdb = (\<lambda>p. (pu_scope p, pu_revision p)) ` set (pd_publications pdb)"

text \<open>Primary and foreign keys.\<close>

definition tables_ok :: "projection_db \<Rightarrow> bool" where
  "tables_ok pdb \<longleftrightarrow> distinct (map (\<lambda>p. (pu_scope p, pu_revision p)) (pd_publications pdb))
     \<and> (\<forall>p\<in>set (pd_publications pdb). pu_revision p = revision_text (pu_blockNumber p) (pu_blockHash p))
     \<and> distinct (map fst (pd_pointers pdb)) \<and> set (pd_pointers pdb) \<subseteq> publication_keys pdb
     \<and> (\<forall>r\<in>set (pd_records pdb). (rr_scope r, rr_revision r) \<in> publication_keys pdb)
     \<and> (\<forall>l\<in>set (pd_links pdb). (''configs'', cfl_revision l) \<in> publication_keys pdb) \<and> config_ids_ok pdb"

text \<open>
  Within the current generation of the stream, publications are anchored in the canonical chain at their
  height, and no publication or version lies above the one its scope points at. Nothing is of a later generation.
\<close>

definition pointed_above :: "int \<Rightarrow> string \<Rightarrow> projection_db \<Rightarrow> int \<Rightarrow> bool" where
  "pointed_above g scope pdb n \<longleftrightarrow> (\<exists>q. current_publication scope pdb = Some q \<and> pu_generation q = g \<and> n \<le> pu_blockNumber q)"

definition publication_ok :: "headers \<Rightarrow> chain_db \<Rightarrow> int \<Rightarrow> projection_db \<Rightarrow> publication_row \<Rightarrow> bool" where
  "publication_ok hdr db g pdb p \<longleftrightarrow> pu_generation p \<le> g \<and> height hdr (pu_blockHash p) = pu_blockNumber p
     \<and> (pu_generation p = g \<longrightarrow> pu_blockHash p \<in> canon db \<and> pointed_above g (pu_scope p) pdb (pu_blockNumber p))"

definition version_ok :: "int \<Rightarrow> projection_db \<Rightarrow> version_row \<Rightarrow> bool" where
  "version_ok g pdb v \<longleftrightarrow> vr_generation v \<le> g \<and> (vr_generation v = g \<longrightarrow> pointed_above g ''markets'' pdb (vr_from v)
     \<and> (\<forall>t. vr_to v = Some t \<longrightarrow> pointed_above g ''markets'' pdb t))"

definition generations_ok :: "headers \<Rightarrow> string \<Rightarrow> chain_db \<Rightarrow> projection_db \<Rightarrow> bool" where
  "generations_ok hdr stream db pdb \<longleftrightarrow> (case map_of (cd_checkpoints db) stream of
       None \<Rightarrow> pd_publications pdb = [] \<and> pd_versions pdb = []
     | Some c \<Rightarrow> (\<forall>p\<in>set (pd_publications pdb). publication_ok hdr db (ck_generation c) pdb p)
         \<and> (\<forall>v\<in>set (pd_versions pdb). version_ok (ck_generation c) pdb v) \<and> one_open (ck_generation c) (pd_versions pdb))"

definition projection_ok :: "headers \<Rightarrow> string \<Rightarrow> chain_db \<Rightarrow> projection_db \<Rightarrow> bool" where
  "projection_ok hdr stream db pdb \<longleftrightarrow> tables_ok pdb \<and> generations_ok hdr stream db pdb"

lemma find_publication:
  assumes "distinct (map (\<lambda>p. (pu_scope p, pu_revision p)) ps)" and "p \<in> set ps"
  shows "find (is_publication (pu_scope p) (pu_revision p)) ps = Some p"
  using assms
proof (induction ps)
  case (Cons x ps)
  then show ?case by (cases "x = p") (auto simp: is_publication_def image_iff)
qed simp

lemma current_publication_Some:
  assumes "current_publication scope pdb = Some q"
  shows "q \<in> set (pd_publications pdb) \<and> pu_scope q = scope \<and> map_of (pd_pointers pdb) scope = Some (pu_revision q)"
  using assms find_member by (fastforce simp: current_publication_def is_publication_def split: option.splits)

lemma current_publicationI:
  assumes "tables_ok pdb" and "p \<in> set (pd_publications pdb)" and "map_of (pd_pointers pdb) (pu_scope p) = Some (pu_revision p)"
  shows "current_publication (pu_scope p) pdb = Some p"
proof -
  have "distinct (map (\<lambda>p. (pu_scope p, pu_revision p)) (pd_publications pdb))" using assms(1) by (simp add: tables_ok_def)
  from find_publication [OF this assms(2)] assms(3) show ?thesis by (simp add: current_publication_def)
qed

lemma keys_row: "tables_ok pdb \<Longrightarrow> p \<in> set (pd_publications pdb) \<Longrightarrow> q \<in> set (pd_publications pdb)
    \<Longrightarrow> pu_scope p = pu_scope q \<Longrightarrow> pu_revision p = pu_revision q \<Longrightarrow> p = q"
  by (auto simp: tables_ok_def distinct_map inj_on_def)

lemma pointed_above_mono: "pointed_above g scope pdb n \<Longrightarrow> m \<le> n \<Longrightarrow> pointed_above g scope pdb m"
  by (auto simp: pointed_above_def)

section \<open>A commit keeps the invariant and the other revisions\<close>

definition stream_of :: "'a publish_input_scheme \<Rightarrow> string" where
  "stream_of i = (case pi_stream i of None \<Rightarrow> ''frontend-events'' | Some s \<Rightarrow> s)"

lemma show_int_no_colon: "CHR '':'' \<notin> set (show_int n)"
proof -
  have "CHR '':'' \<notin> set (show_nat k)" for k
    using digits_show_nat [of k] by (auto simp: list_all_iff is_digit_def code_of_def)
  then show ?thesis by (simp add: show_int_def)
qed

lemma revision_text_inj: "revision_text n h = revision_text m k \<longleftrightarrow> n = m \<and> h = k"
proof -
  have "takeWhile (\<lambda>c. c \<noteq> CHR '':'') (show_int n @ '':'' @ h) = show_int n" for n h
    using show_int_no_colon [of n] by (subst takeWhile_append2) auto
  then show ?thesis unfolding revision_text_def by (metis append_same_eq append.simps(1) list.sel(3) append_Cons same_append_eq parse_show_int)
qed

lemma canon_height_inj:
  assumes "rows_ok hdr db" and "h \<in> canon db" and "k \<in> canon db" and "height hdr h = height hdr k" shows "h = k"
proof -
  obtain r s where r: "r \<in> set (cd_blocks db)" "br_canonical r" "br_hash r = h" and s: "s \<in> set (cd_blocks db)" "br_canonical s" "br_hash s = k"
    using assms(2,3) by (auto simp: canon_row)
  have "br_number r = br_number s" using rows_ok_row [OF assms(1) r(1)] rows_ok_row [OF assms(1) s(1)] r(3) s(3) assms(4) by (simp add: chain_defs)
  with r s assms(1) have "r = s" by (auto simp: rows_ok_def unique_heights_def distinct_map inj_on_def)
  with r s show ?thesis by simp
qed

lemma anchor_facts:
  assumes "assertAnchor i db = Inr ()" and ok: "ledger_ok hdr a stream db" and "stream_of i = stream"
  obtains c where "map_of (cd_checkpoints db) stream = Some c" "ck_generation c = pi_generation i" "pi_blockHash i \<in> canon db"
    "height hdr (pi_blockHash i) = pi_blockNumber i"
proof -
  obtain r c where r: "find (\<lambda>r. br_number r = pi_blockNumber i \<and> br_hash r = pi_blockHash i) (cd_blocks db) = Some r" "br_canonical r"
    and c: "map_of (cd_checkpoints db) stream = Some c" "ck_generation c = pi_generation i"
    using assms(1,3) by (auto simp: assertAnchor_def assertPublishableAnchor_def stream_of_def res_simps split: option.splits if_splits)
  have "rows_ok hdr db" using ok by (simp add: ledger_ok_def)
  then have "height hdr (pi_blockHash i) = pi_blockNumber i" "pi_blockHash i \<in> canon db"
    using find_member [OF r(1)] rows_ok_row [of hdr db r] r(2) by (auto simp: canon_row chain_defs)
  with c that show ?thesis by blast
qed

lemma find_append: "find P (xs @ ys) = (case find P xs of None \<Rightarrow> find P ys | Some x \<Rightarrow> Some x)"
  by (induction xs) auto

text \<open>The pointed publications do not depend on the tables a writer fills.\<close>

lemma current_publication_cong:
  assumes "tables_ok pdb" and "pd_pointers pdb' = pd_pointers pdb" and "pd_publications pdb' = pd_publications pdb @ ps"
  shows "current_publication scope pdb' = current_publication scope pdb"
proof (cases "map_of (pd_pointers pdb) scope")
  case (Some revision)
  then have "(scope, revision) \<in> publication_keys pdb" using assms(1) by (auto simp: tables_ok_def dest: map_of_SomeD)
  then obtain p where p: "p \<in> set (pd_publications pdb)" "pu_scope p = scope" "pu_revision p = revision" by (auto simp: publication_keys_def)
  have "find (is_publication scope revision) (pd_publications pdb) = Some p"
    using find_publication [OF _ p(1)] assms(1) p(2,3) by (simp add: tables_ok_def)
  then show ?thesis by (simp add: current_publication_def assms Some find_append)
qed (simp add: current_publication_def assms)

lemma read_records_enter:
  assumes "(s, r) \<noteq> (pu_scope p, pu_revision p)"
  shows "read_records (pdb\<lparr>pd_publications := pd_publications pdb @ [p]\<rparr>) s r = read_records pdb s r"
  using assms by (auto simp: read_records_def config_saved_def)

lemma read_records_pointer [simp]:
  "read_records (pdb\<lparr>pd_checkpoints := cs\<rparr>) s r = read_records pdb s r"
  "read_records (set_pointer scope revision pdb) s r = read_records pdb s r"
  by (simp_all add: read_records_def config_saved_def set_pointer_def)

text \<open>The parts of a commit, named.\<close>

lemma committed_parts:
  assumes "committed i db pdb pdb'" and "tables_ok pdb"
  obtains p0 ps pdb1 pdb2 cs where "assertAnchor i db = Inr ()" "pdb1 = pdb\<lparr>pd_publications := pd_publications pdb @ ps\<rparr>"
    "\<forall>p\<in>set ps. p = p0" "length ps \<le> 1" "p0 \<in> set (pd_publications pdb1)" "pu_scope p0 = pi_scope i" "pu_revision p0 = revision_of i"
    "pu_generation p0 = pi_generation i" "pu_blockNumber p0 = pi_blockNumber i" "pu_blockHash p0 = pi_blockHash i" "tables_ok pdb1"
    "publication_step (pi_scope i) (revision_of i) (pi_generation i) (pi_blockNumber i) pdb1 pdb2"
    "\<forall>p. current_publication (pi_scope i) pdb = Some p \<longrightarrow> pu_blockNumber p \<le> pi_blockNumber i
          \<and> (pu_blockNumber p = pi_blockNumber i \<longrightarrow> pu_revision p = revision_of i)"
    "pdb' = (set_pointer (pi_scope i) (revision_of i) pdb2)\<lparr>pd_checkpoints := cs\<rparr>"
proof -
  obtain d payload pdb1 pdb2 cs where c: "assertAnchor i db = Inr ()"
    "if \<exists>p\<in>set (pd_publications pdb). is_publication (pi_scope i) (revision_of i) p
      then pdb1 = pdb \<and> (\<forall>p\<in>set (pd_publications pdb). is_publication (pi_scope i) (revision_of i) p \<longrightarrow> pu_generation p = pi_generation i)
      else pdb1 = pdb\<lparr>pd_publications := pd_publications pdb @ [publication_of i d payload]\<rparr>"
    "publication_step (pi_scope i) (revision_of i) (pi_generation i) (pi_blockNumber i) pdb1 pdb2"
    "\<forall>p. current_publication (pi_scope i) pdb2 = Some p \<longrightarrow> pu_blockNumber p \<le> pi_blockNumber i
          \<and> (pu_blockNumber p = pi_blockNumber i \<longrightarrow> pu_revision p = revision_of i)"
    "pdb' = (set_pointer (pi_scope i) (revision_of i) pdb2)\<lparr>pd_checkpoints := cs\<rparr>"
    using assms(1) unfolding committed_def by blast
  have same: "pd_publications pdb2 = pd_publications pdb1" "pd_pointers pdb2 = pd_pointers pdb1"
    using c(3) by (simp_all add: publication_step_def)
  show ?thesis
  proof (cases "\<exists>p\<in>set (pd_publications pdb). is_publication (pi_scope i) (revision_of i) p")
    case True
    then obtain p0 where p0: "p0 \<in> set (pd_publications pdb)" "pu_scope p0 = pi_scope i" "pu_revision p0 = revision_of i"
      "pu_generation p0 = pi_generation i" "pdb1 = pdb"
      using c(2) by (auto simp: is_publication_def)
    then have "pu_blockNumber p0 = pi_blockNumber i \<and> pu_blockHash p0 = pi_blockHash i"
      using assms(2) by (simp add: tables_ok_def revision_of_def revision_text_inj)
    moreover have "current_publication s pdb2 = current_publication s pdb" for s
      using same p0(5) by (simp add: current_publication_def split: option.split)
    ultimately show ?thesis using that [of pdb1 "[]" p0 pdb2 cs] p0 c assms(2) by simp
  next
    case False
    define p0 where "p0 = publication_of i d payload"
    have pdb1: "pdb1 = pdb\<lparr>pd_publications := pd_publications pdb @ [p0]\<rparr>" using c(2) False by (simp add: p0_def)
    have "tables_ok pdb1"
      using assms(2) False unfolding tables_ok_def pdb1 publication_keys_def
      by (auto simp: p0_def publication_of_def revision_of_def is_publication_def config_ids_ok_def)
    moreover have "current_publication s pdb2 = current_publication s pdb" for s
      using current_publication_cong [OF assms(2), of pdb2 "[p0]"] same by (simp add: pdb1)
    ultimately show ?thesis using that [of pdb1 "[p0]" p0 pdb2 cs] pdb1 c by (simp add: p0_def publication_of_def)
  qed
qed

lemma versions_bounded:
  assumes "generations_ok hdr stream db pdb" and "map_of (cd_checkpoints db) stream = Some c"
    and "\<forall>q. current_publication ''markets'' pdb = Some q \<longrightarrow> pu_blockNumber q \<le> n"
  shows "versions_upto (ck_generation c) n (pd_versions pdb)"
proof -
  have "m \<le> n" if "pointed_above (ck_generation c) ''markets'' pdb m" for m using that assms(3) by (auto simp: pointed_above_def)
  then show ?thesis using assms(1,2) by (auto simp: generations_ok_def version_ok_def versions_upto_def)
qed

lemma committed_projection_ok:
  assumes run: "committed i db pdb pdb'" and ok: "projection_ok hdr stream db pdb" and ledger: "ledger_ok hdr a stream db"
    and stream: "stream_of i = stream"
  shows "projection_ok hdr stream db pdb'"
proof -
  have tables: "tables_ok pdb" and gens: "generations_ok hdr stream db pdb" using ok by (simp_all add: projection_ok_def)
  obtain p0 ps pdb1 pdb2 cs where anchor: "assertAnchor i db = Inr ()"
    and pdb1: "pdb1 = pdb\<lparr>pd_publications := pd_publications pdb @ ps\<rparr>" "\<forall>p\<in>set ps. p = p0"
    and p0: "p0 \<in> set (pd_publications pdb1)" "pu_scope p0 = pi_scope i" "pu_revision p0 = revision_of i"
      "pu_generation p0 = pi_generation i" "pu_blockNumber p0 = pi_blockNumber i" "pu_blockHash p0 = pi_blockHash i"
    and tables1: "tables_ok pdb1"
    and step: "publication_step (pi_scope i) (revision_of i) (pi_generation i) (pi_blockNumber i) pdb1 pdb2"
    and below: "\<forall>p. current_publication (pi_scope i) pdb = Some p \<longrightarrow> pu_blockNumber p \<le> pi_blockNumber i
          \<and> (pu_blockNumber p = pi_blockNumber i \<longrightarrow> pu_revision p = revision_of i)"
    and pdb': "pdb' = (set_pointer (pi_scope i) (revision_of i) pdb2)\<lparr>pd_checkpoints := cs\<rparr>"
    by (rule committed_parts [OF run tables]) blast
  obtain c where c: "map_of (cd_checkpoints db) stream = Some c" "ck_generation c = pi_generation i"
      and hash: "pi_blockHash i \<in> canon db" "height hdr (pi_blockHash i) = pi_blockNumber i"
    by (rule anchor_facts [OF anchor ledger stream])
  have frame: "pd_publications pdb' = pd_publications pdb1" "pd_pointers pdb' = AList.update (pi_scope i) (revision_of i) (pd_pointers pdb1)"
    "pd_versions pdb' = pd_versions pdb2" "pd_records pdb' = pd_records pdb2" "pd_links pdb' = pd_links pdb2" "config_ids_ok pdb2"
    using step tables1 by (auto simp: publication_step_def pdb' set_pointer_def tables_ok_def)
  have keys: "publication_keys pdb' = publication_keys pdb1" by (simp add: publication_keys_def frame)
  have key0: "(pi_scope i, revision_of i) \<in> publication_keys pdb1" using p0 by (force simp: publication_keys_def)
  have tables': "tables_ok pdb'"
  proof -
    have "set (pd_pointers pdb') \<subseteq> publication_keys pdb1"
      using tables1 key0 by (auto simp: frame tables_ok_def dest!: set_update_cases)
    moreover have "distinct (map fst (pd_pointers pdb'))" using tables1 by (simp add: frame tables_ok_def distinct_update)
    moreover have "\<forall>r\<in>set (pd_records pdb'). (rr_scope r, rr_revision r) \<in> publication_keys pdb1"
      "\<forall>l\<in>set (pd_links pdb'). (''configs'', cfl_revision l) \<in> publication_keys pdb1"
      using step tables1 key0 by (auto simp: frame publication_step_def tables_ok_def)
    moreover have "config_ids_ok pdb'" using frame(6) by (simp add: config_ids_ok_def pdb' set_pointer_def)
    ultimately show ?thesis using tables1 keys by (simp add: tables_ok_def frame(1))
  qed
  have current: "current_publication (pi_scope i) pdb' = Some p0"
    using current_publicationI [OF tables', of p0] p0 by (simp add: frame update_conv)
  have other: "current_publication s pdb' = current_publication s pdb" if "s \<noteq> pi_scope i" for s
  proof -
    have "current_publication s pdb' = current_publication s pdb1"
      using that by (simp add: current_publication_def frame update_conv split: option.split)
    then show ?thesis using current_publication_cong [OF tables, of pdb1 ps] by (simp add: pdb1)
  qed
  define g where "g = pi_generation i"
  have rises: "pointed_above g s pdb' n" if "pointed_above g s pdb n" for s n
    using that below current other [of s] p0 by (cases "s = pi_scope i") (auto simp: pointed_above_def g_def)
  have here: "pointed_above g (pi_scope i) pdb' n" if "n \<le> pi_blockNumber i" for n
    using that current p0 by (simp add: pointed_above_def g_def)
  have g: "ck_generation c = g" using c(2) by (simp add: g_def)
  have pubs: "\<forall>p\<in>set (pd_publications pdb). publication_ok hdr db g pdb p"
    and vers: "\<forall>v\<in>set (pd_versions pdb). version_ok g pdb v" "one_open g (pd_versions pdb)"
    using gens c(1) g by (auto simp: generations_ok_def)
  have "publication_ok hdr db g pdb' p" if "p \<in> set (pd_publications pdb')" for p
  proof -
    have "p = p0 \<or> p \<in> set (pd_publications pdb)" using that pdb1 by (auto simp: frame)
    then show ?thesis
    proof
      assume "p = p0"
      then show ?thesis using p0 hash here by (simp add: publication_ok_def g_def)
    next
      assume "p \<in> set (pd_publications pdb)"
      then show ?thesis using pubs rises by (auto simp: publication_ok_def)
    qed
  qed
  moreover have "version_ok g pdb' v" if v: "v \<in> set (pd_versions pdb')" for v
  proof (cases "pi_scope i = ''markets''")
    case False
    then have "v \<in> set (pd_versions pdb)" using v step by (simp add: frame publication_step_def pdb1)
    then show ?thesis using vers(1) rises by (auto simp: version_ok_def)
  next
    case True
    have vstep: "versions_step g (pi_blockNumber i) (pd_versions pdb) (pd_versions pdb')"
      using step by (simp add: publication_step_def frame pdb1 g_def)
    show ?thesis
    proof (cases "vr_generation v = g")
      case True
      have "versions_upto g (pi_blockNumber i) (pd_versions pdb)"
        using versions_bounded [OF gens c(1)] below \<open>pi_scope i = ''markets''\<close> g by simp
      then have "versions_upto g (pi_blockNumber i) (pd_versions pdb')" using vstep by (auto simp: versions_step_def)
      then show ?thesis using v True here \<open>pi_scope i = ''markets''\<close> by (auto simp: versions_upto_def version_ok_def)
    next
      case False
      have "filter (\<lambda>x. vr_generation x = vr_generation v) (pd_versions pdb') = filter (\<lambda>x. vr_generation x = vr_generation v) (pd_versions pdb)"
        using vstep False by (simp add: versions_step_def)
      moreover have "v \<in> set (filter (\<lambda>x. vr_generation x = vr_generation v) (pd_versions pdb'))" using v by simp
      ultimately have "v \<in> set (filter (\<lambda>x. vr_generation x = vr_generation v) (pd_versions pdb))" by simp
      then show ?thesis using vers(1) False by (auto simp: version_ok_def)
    qed
  qed
  moreover have "one_open g (pd_versions pdb')"
    using step vers(2) by (simp add: publication_step_def frame pdb1 g_def versions_step_def)
  ultimately show ?thesis using tables' c(1) g by (simp add: projection_ok_def generations_ok_def)
qed

lemma committed_other_revisions:
  assumes run: "committed i db pdb pdb'" and ok: "projection_ok hdr stream db pdb" and ledger: "ledger_ok hdr a stream db"
    and stream: "stream_of i = stream" and q: "q \<in> set (pd_publications pdb)" and other: "(pu_scope q, pu_revision q) \<noteq> (pi_scope i, revision_of i)"
  shows "q \<in> set (pd_publications pdb') \<and> read_records pdb' (pu_scope q) (pu_revision q) = read_records pdb (pu_scope q) (pu_revision q)"
proof -
  have tables: "tables_ok pdb" and gens: "generations_ok hdr stream db pdb" using ok by (simp_all add: projection_ok_def)
  obtain p0 ps pdb1 pdb2 cs where anchor: "assertAnchor i db = Inr ()"
    and pdb1: "pdb1 = pdb\<lparr>pd_publications := pd_publications pdb @ ps\<rparr>" "\<forall>p\<in>set ps. p = p0" "length ps \<le> 1"
    and p0: "p0 \<in> set (pd_publications pdb1)" "pu_scope p0 = pi_scope i" "pu_revision p0 = revision_of i"
    and tables1: "tables_ok pdb1"
    and step: "publication_step (pi_scope i) (revision_of i) (pi_generation i) (pi_blockNumber i) pdb1 pdb2"
    and below: "\<forall>p. current_publication (pi_scope i) pdb = Some p \<longrightarrow> pu_blockNumber p \<le> pi_blockNumber i
          \<and> (pu_blockNumber p = pi_blockNumber i \<longrightarrow> pu_revision p = revision_of i)"
    and pdb': "pdb' = (set_pointer (pi_scope i) (revision_of i) pdb2)\<lparr>pd_checkpoints := cs\<rparr>"
    by (rule committed_parts [OF run tables]) blast
  obtain c where c: "map_of (cd_checkpoints db) stream = Some c" "ck_generation c = pi_generation i"
      and hash: "pi_blockHash i \<in> canon db" "height hdr (pi_blockHash i) = pi_blockNumber i"
    by (rule anchor_facts [OF anchor ledger stream])
  have q1: "q \<in> set (pd_publications pdb1)" using q by (simp add: pdb1)
  have "pu_generation q \<noteq> pi_generation i \<or> pu_blockNumber q < pi_blockNumber i" if scope: "pi_scope i = pu_scope q"
  proof (rule ccontr)
    assume "\<not> ?thesis"
    then have g: "pu_generation q = ck_generation c" and n: "pi_blockNumber i \<le> pu_blockNumber q" using c(2) by auto
    then have "publication_ok hdr db (ck_generation c) pdb q" using gens c(1) q by (simp add: generations_ok_def)
    then have at: "height hdr (pu_blockHash q) = pu_blockNumber q" "pu_blockHash q \<in> canon db"
      and "pointed_above (ck_generation c) (pu_scope q) pdb (pu_blockNumber q)" using g by (auto simp: publication_ok_def)
    then have "pu_blockNumber q = pi_blockNumber i" using below scope n by (auto simp: pointed_above_def)
    then have "pu_blockHash q = pi_blockHash i"
      using at hash ledger canon_height_inj [of hdr db "pu_blockHash q" "pi_blockHash i"] by (simp add: ledger_ok_def)
    then have "pu_revision q = revision_of i"
      using tables q \<open>pu_blockNumber q = pi_blockNumber i\<close> by (simp add: tables_ok_def revision_of_def)
    with other scope show False by simp
  qed
  then have "\<forall>p\<in>set (pd_publications pdb1). is_publication (pu_scope q) (pu_revision q) p \<and> uses_versions p \<and> pi_scope i = ''markets''
      \<longrightarrow> pu_generation p \<noteq> pi_generation i \<or> pu_blockNumber p < pi_blockNumber i"
    using keys_row [OF tables1 _ q1] by (metis is_publication_def uses_versions_def)
  then have "read_records pdb2 (pu_scope q) (pu_revision q) = read_records pdb1 (pu_scope q) (pu_revision q)"
    using read_records_step [OF step _ other] tables1 by (simp add: tables_ok_def)
  moreover have "read_records pdb1 (pu_scope q) (pu_revision q) = read_records pdb (pu_scope q) (pu_revision q)"
  proof (cases ps)
    case (Cons p rest)
    then have "ps = [p0]" using pdb1 by (cases rest) auto
    then show ?thesis using read_records_enter [of "pu_scope q" "pu_revision q" p0 pdb] other p0 pdb1(1) by simp
  qed (simp add: pdb1)
  moreover have "pd_publications pdb2 = pd_publications pdb1" using step by (simp add: publication_step_def)
  ultimately show ?thesis using q1 by (simp add: pdb' set_pointer_def [symmetric]) (simp add: set_pointer_def)
qed

end
