(* ===== verification/Projection_Stable.thy ===== *)
theory Projection_Stable imports Projection_Invariant begin

text \<open>
  Both writers satisfy the contract of \<open>projection_writer\<close>; rewinds, ingestion and invalidation keep the
  invariant; and the immutability of published revisions in every run of these.
\<close>

section \<open>Both writers commit this way\<close>

lemma validateInput_scope: "validateInput H i = Inr () \<Longrightarrow> pi_incremental i \<longrightarrow> pi_scope i = ''markets''"
  by (auto simp: validateInput_def split: if_splits)

lemma publishProjection_parts:
  assumes "publishProjection H collate i db pdb = Inr (pdb', result)"
  obtains pdb1 pdb2 duplicate where "validateInput H i = Inr ()" "assertAnchor i db = Inr ()"
    "enter_publication H i (stable_digest H (JArray (map record_json (js_sort (compare_records H) (pi_records i))))) pdb = Inr (pdb1, duplicate)"
    "write_all H collate i (stable_digest H (JArray (map record_json (js_sort (compare_records H) (pi_records i)))))
       (map (expected_row H) (js_sort (compare_records H) (pi_records i))) pdb1 = Inr pdb2"
    "move_pointer i pdb2 = Inr (set_pointer (pi_scope i) (revision_of i) pdb2)"
    "pdb' = upsert_checkpoint (checkpoint_of i) (set_pointer (pi_scope i) (revision_of i) pdb2)"
    "result = (revision_of i, duplicate, int (length (pi_records i)))"
  using assms unfolding publishProjection_def Let_def by (fastforce simp: bindR_eq_Inr move_pointer_def Let_def split: if_splits)

lemma upsert_checkpoint_only: "\<exists>cs. upsert_checkpoint c pdb = pdb\<lparr>pd_checkpoints := cs\<rparr>"
  by (auto simp: upsert_checkpoint_def update_checkpoint_def)

lemma publishProjection_committed:
  assumes "publishProjection H collate i db pdb = Inr (pdb', result)" and "tables_ok pdb"
  shows "committed i db pdb pdb'"
proof -
  define d where "d = stable_digest H (JArray (map record_json (js_sort (compare_records H) (pi_records i))))"
  obtain pdb1 pdb2 duplicate where p: "validateInput H i = Inr ()" "assertAnchor i db = Inr ()"
    "enter_publication H i d pdb = Inr (pdb1, duplicate)"
    "write_all H collate i d (map (expected_row H) (js_sort (compare_records H) (pi_records i))) pdb1 = Inr pdb2"
    "move_pointer i pdb2 = Inr (set_pointer (pi_scope i) (revision_of i) pdb2)"
    "pdb' = upsert_checkpoint (checkpoint_of i) (set_pointer (pi_scope i) (revision_of i) pdb2)"
    unfolding d_def by (rule publishProjection_parts [OF assms(1)]) blast
  have step: "publication_step (pi_scope i) (revision_of i) (pi_generation i) (pi_blockNumber i) pdb1 pdb2"
    by (rule write_all_step [OF p(4) validateInput_scope [OF p(1)]])
  have entered: "if \<exists>x\<in>set (pd_publications pdb). is_publication (pi_scope i) (revision_of i) x
      then pdb1 = pdb \<and> (\<forall>x\<in>set (pd_publications pdb). is_publication (pi_scope i) (revision_of i) x \<longrightarrow> pu_generation x = pi_generation i)
      else pdb1 = pdb\<lparr>pd_publications := pd_publications pdb @ [publication_of i d (publication_payload i)]\<rparr>"
  proof (cases "find (is_publication (pi_scope i) (revision_of i)) (pd_publications pdb)")
    case None
    then have "\<not> (\<exists>x\<in>set (pd_publications pdb). is_publication (pi_scope i) (revision_of i) x)" by (auto simp: find_None_iff)
    then show ?thesis using p(3) None by (simp add: enter_publication_def)
  next
    case (Some x)
    have "x = y" if "y \<in> set (pd_publications pdb)" "is_publication (pi_scope i) (revision_of i) y" for y
      using keys_row [OF assms(2) _ that(1), of x] find_member [OF Some] that(2) by (simp add: is_publication_def)
    moreover have "pdb1 = pdb" "pu_generation x = pi_generation i" using p(3) Some by (simp_all add: enter_publication_def split: if_splits)
    ultimately show ?thesis using find_member [OF Some] by metis
  qed
  have below: "\<forall>x. current_publication (pi_scope i) pdb2 = Some x \<longrightarrow> pu_blockNumber x \<le> pi_blockNumber i
      \<and> (pu_blockNumber x = pi_blockNumber i \<longrightarrow> pu_revision x = revision_of i)"
    using p(5) by (auto simp: move_pointer_def split: if_splits)
  obtain cs where "pdb' = (set_pointer (pi_scope i) (revision_of i) pdb2)\<lparr>pd_checkpoints := cs\<rparr>"
    using p(6) upsert_checkpoint_only by metis
  then show ?thesis unfolding committed_def
    using p(2) entered step below by (intro conjI exI [of _ d] exI [of _ "publication_payload i"] exI [of _ pdb1] exI [of _ pdb2] exI [of _ cs])
qed

definition input_of :: "delta_input \<Rightarrow> publish_input" where
  "input_of i = publish_input.truncate i"

lemma input_of_simps [simp]:
  "pi_deployment (input_of i) = pi_deployment i" "pi_scope (input_of i) = pi_scope i" "pi_blockNumber (input_of i) = pi_blockNumber i"
  "pi_blockHash (input_of i) = pi_blockHash i" "pi_generation (input_of i) = pi_generation i" "pi_stream (input_of i) = pi_stream i"
  "pi_records (input_of i) = pi_records i" "revision_of (input_of i) = revision_of i" "stream_of (input_of i) = stream_of i"
  "assertAnchor (input_of i) db = assertAnchor i db" "publication_of (input_of i) d payload = publication_of i d payload"
  by (simp_all add: input_of_def publish_input.truncate_def revision_of_def stream_of_def assertAnchor_def publication_of_def)

lemma delta_batch_step:
  assumes "write_delta_batch H i b batch (n, vs) = Inr (n', vs')" and "b < pi_blockNumber i"
  shows "versions_step (pi_generation i) (pi_blockNumber i) vs vs'"
proof -
  obtain changed closing vs1 where "close_identities (pi_generation i) (pi_blockNumber i) b closing vs = Inr vs1"
    "insert_changed H (pi_generation i) (pi_blockNumber i) (map (expected_row H) changed) vs1 = Inr vs'"
    using assms(1) by (auto simp: write_delta_batch_def Let_def bindR_eq_Inr)
  moreover have "versions_step g n vs vs1" if "close_identities g n b closing vs = Inr vs1" for g n
    using that close_step by (auto simp: close_identities_def split: if_splits)
  moreover have "versions_step g n vs1 vs'" if "insert_changed H g n rows vs1 = Inr vs'" for g n rows
    using that insert_versions_step by (auto simp: insert_changed_def Let_def bindR_eq_Inr split: if_splits)
  ultimately show ?thesis using versions_step_trans by blast
qed

lemma delta_batches_step:
  assumes "foldR (write_delta_batch H i b) batches (n, vs) = Inr (n', vs')" and "b < pi_blockNumber i"
  shows "versions_step (pi_generation i) (pi_blockNumber i) vs vs'"
proof -
  have "versions_step (pi_generation i) (pi_blockNumber i) vs (snd (n', vs'))"
    by (rule foldR_keeps [where I = "\<lambda>s. versions_step (pi_generation i) (pi_blockNumber i) vs (snd s)", OF assms(1)])
      (use delta_batch_step [OF _ assms(2)] versions_step_trans in \<open>auto\<close>)
  then show ?thesis by simp
qed

lemma publishMarketDelta_parts:
  assumes "publishMarketDelta H i db pdb = Inr (pdb', result)" and "pdb' \<noteq> pdb \<or> \<not> fst (snd result)"
  obtains base recordCount population vs where "validateDelta H i = Inr ()" "assertAnchor i db = Inr ()"
    "delta_base i db pdb = Inr (base, recordCount)" "find (is_publication ''markets'' (revision_of i)) (pd_publications pdb) = None"
    "map_of (pd_pointers pdb) ''markets'' = Some (di_baseRevision i)"
    "foldR (write_delta_batch H i (pu_blockNumber base)) (chunks (delta_entries H i) 250) (recordCount, pd_versions pdb) = Inr (population, vs)"
    "pdb' = update_checkpoint (checkpoint_of i) (set_pointer ''markets'' (revision_of i) (pdb\<lparr>pd_versions := vs, pd_publications :=
       pd_publications pdb @ [publication_of i (stable_digest H (delta_payload H i base)) (delta_payload H i base)]\<rparr>))"
    "int (length (filter (valid_at (pi_generation i) (pi_blockNumber i)) vs)) = population" "result = (revision_of i, False, population)"
  using assms unfolding publishMarketDelta_def Let_def
  by (fastforce simp: bindR_eq_Inr split: if_splits option.splits)

lemma delta_base_facts:
  assumes "delta_base i db pdb = Inr (base, n)"
  shows "base \<in> set (pd_publications pdb) \<and> is_publication ''markets'' (di_baseRevision i) base \<and> anchored db base
    \<and> uses_versions base \<and> pu_generation base = pi_generation i \<and> pu_blockNumber base < pi_blockNumber i"
proof -
  obtain f: "find (\<lambda>p. is_publication ''markets'' (di_baseRevision i) p \<and> anchored db p) (pd_publications pdb) = Some base"
    and rest: "field (pu_payload base) ''storage'' = Some (JText ''market-versions-v1'')" "pu_generation base = pi_generation i"
      "pu_blockNumber base < pi_blockNumber i"
    using assms unfolding delta_base_def by (auto simp: res_simps split: option.splits if_splits)
  show ?thesis using find_member [OF f] rest by (simp add: uses_versions_def is_publication_def)
qed

lemma update_checkpoint_only: "\<exists>cs. update_checkpoint c pdb = pdb\<lparr>pd_checkpoints := cs\<rparr>"
  by (auto simp: update_checkpoint_def)

lemma publishMarketDelta_committed:
  assumes run: "publishMarketDelta H i db pdb = Inr (pdb', result)" and tables: "tables_ok pdb" and new: "pdb' \<noteq> pdb"
  shows "committed (input_of i) db pdb pdb'"
proof -
  obtain base n population vs where p: "validateDelta H i = Inr ()" "assertAnchor i db = Inr ()" "delta_base i db pdb = Inr (base, n)"
    "find (is_publication ''markets'' (revision_of i)) (pd_publications pdb) = None"
    "map_of (pd_pointers pdb) ''markets'' = Some (di_baseRevision i)"
    "foldR (write_delta_batch H i (pu_blockNumber base)) (chunks (delta_entries H i) 250) (n, pd_versions pdb) = Inr (population, vs)"
    "pdb' = update_checkpoint (checkpoint_of i) (set_pointer ''markets'' (revision_of i) (pdb\<lparr>pd_versions := vs, pd_publications :=
       pd_publications pdb @ [publication_of i (stable_digest H (delta_payload H i base)) (delta_payload H i base)]\<rparr>))"
    by (rule publishMarketDelta_parts [OF run disjI1 [OF new]]) blast
  have scope: "pi_scope i = ''markets''" using p(1) by (auto simp: validateDelta_def res_simps)
  note base = delta_base_facts [OF p(3)]
  define d where "d = stable_digest H (delta_payload H i base)"
  define payload where "payload = delta_payload H i base"
  define pdb1 where "pdb1 = pdb\<lparr>pd_publications := pd_publications pdb @ [publication_of i d payload]\<rparr>"
  define pdb2 where "pdb2 = pdb1\<lparr>pd_versions := vs\<rparr>"
  have "versions_step (pi_generation i) (pi_blockNumber i) (pd_versions pdb) vs"
    by (rule delta_batches_step [OF p(6)]) (use base in simp)
  then have step: "publication_step ''markets'' (revision_of i) (pi_generation i) (pi_blockNumber i) pdb1 pdb2"
    by (simp add: publication_step_def pdb1_def pdb2_def config_ids_ok_def config_saved_def)
  have "current_publication ''markets'' pdb = Some base"
    using current_publicationI [OF tables, of base] base p(5) by (simp add: is_publication_def)
  then have "current_publication ''markets'' pdb2 = Some base"
    using current_publication_cong [OF tables, of pdb2] by (simp add: pdb2_def pdb1_def)
  then have below: "\<forall>x. current_publication ''markets'' pdb2 = Some x \<longrightarrow> pu_blockNumber x \<le> pi_blockNumber i
      \<and> (pu_blockNumber x = pi_blockNumber i \<longrightarrow> pu_revision x = revision_of i)"
    using base by simp
  obtain cs where "pdb' = (set_pointer ''markets'' (revision_of i) pdb2)\<lparr>pd_checkpoints := cs\<rparr>"
  proof -
    have "pdb2 = pdb\<lparr>pd_versions := vs, pd_publications := pd_publications pdb @ [publication_of i d payload]\<rparr>"
      by (simp add: pdb2_def pdb1_def)
    then have "pdb' = update_checkpoint (checkpoint_of i) (set_pointer ''markets'' (revision_of i) pdb2)"
      using p(7) by (simp only: d_def payload_def)
    then show ?thesis using that update_checkpoint_only [of "checkpoint_of i" "set_pointer ''markets'' (revision_of i) pdb2"] by auto
  qed
  moreover have "\<not> (\<exists>x\<in>set (pd_publications pdb). is_publication ''markets'' (revision_of i) x)"
    using p(4) by (auto simp: find_None_iff)
  ultimately show ?thesis unfolding committed_def input_of_simps scope
    using p(2) step below
    by (intro conjI exI [of _ d] exI [of _ payload] exI [of _ pdb1] exI [of _ pdb2] exI [of _ cs]) (simp_all add: pdb1_def)
qed

section \<open>The other events\<close>

lemma invalidate_frame: "\<exists>ivs cs. fold (invalidate_pointer dp g) qs pdb
    = pdb\<lparr>pd_pointers := filter (\<lambda>q. q \<notin> set qs) (pd_pointers pdb), pd_invalidations := ivs, pd_checkpoints := cs\<rparr>"
proof (induction qs arbitrary: pdb)
  case Nil
  show ?case by (intro exI [of _ "pd_invalidations pdb"] exI [of _ "pd_checkpoints pdb"]) simp
next
  case (Cons q qs)
  obtain iv1 cs1 where one: "invalidate_pointer dp g q pdb
      = pdb\<lparr>pd_pointers := filter (\<lambda>x. x \<noteq> q) (pd_pointers pdb), pd_invalidations := iv1, pd_checkpoints := cs1\<rparr>"
    by (simp add: invalidate_pointer_def case_prod_unfold)
  from Cons.IH [of "invalidate_pointer dp g q pdb"] show ?case by (auto simp: one intro!: exI filter_cong)
qed

lemma anchored_canonical:
  assumes "rows_ok hdr db" and "pu_blockHash p \<in> canon db" shows "anchored db p"
proof -
  obtain r where r: "r \<in> set (cd_blocks db)" "br_canonical r" "br_hash r = pu_blockHash p" using assms(2) by (auto simp: canon_row)
  then have "find (\<lambda>r. br_hash r = pu_blockHash p) (cd_blocks db) = Some r"
    using assms(1) by (intro find_row) (auto simp: rows_ok_def)
  then show ?thesis using r rows_ok_row [OF assms(1) r(1)] by (simp add: anchored_def chain_defs)
qed

lemma map_of_filter_keep:
  "distinct (map fst m) \<Longrightarrow> map_of m k = Some v \<Longrightarrow> P (k, v) \<Longrightarrow> map_of (filter P m) k = Some v"
  by (induction m) (auto simp: image_iff split: if_splits dest: map_of_SomeD)

lemma invalidate_projection_ok:
  assumes run: "invalidateOrphanedPublications dp g sch db pdb = Inr (pdb', k)" and ok: "projection_ok hdr stream db pdb"
    and ledger: "ledger_ok hdr a stream db"
  shows "projection_ok hdr stream db pdb' \<and> pd_publications pdb' = pd_publications pdb \<and> read_records pdb' s r = read_records pdb s r"
proof -
  have tables: "tables_ok pdb" and gens: "generations_ok hdr stream db pdb" using ok by (simp_all add: projection_ok_def)
  have "pdb' = fold (invalidate_pointer dp g) (orphaned_pointers db pdb) pdb"
    using run by (auto simp: invalidateOrphanedPublications_def Let_def res_simps)
  then obtain ivs cs where pdb': "pdb' = pdb\<lparr>pd_pointers := filter (\<lambda>q. q \<notin> set (orphaned_pointers db pdb)) (pd_pointers pdb),
      pd_invalidations := ivs, pd_checkpoints := cs\<rparr>"
    using invalidate_frame by metis
  have "tables_ok pdb'" using tables by (auto simp: tables_ok_def pdb' publication_keys_def config_ids_ok_def distinct_map_filter)
  moreover have "generations_ok hdr stream db pdb'"
  proof (cases "map_of (cd_checkpoints db) stream")
    case (Some c)
    have keep: "pointed_above (ck_generation c) scope pdb' n" if above: "pointed_above (ck_generation c) scope pdb n" for scope n
    proof -
      obtain q where q: "current_publication scope pdb = Some q" "pu_generation q = ck_generation c" "n \<le> pu_blockNumber q"
        using above by (auto simp: pointed_above_def)
      note at = current_publication_Some [OF q(1)]
      have "publication_ok hdr db (ck_generation c) pdb q" using gens at Some by (simp add: generations_ok_def)
      then have "anchored db q" using q(2) ledger by (intro anchored_canonical) (auto simp: publication_ok_def ledger_ok_def)
      then have "(scope, pu_revision q) \<notin> set (orphaned_pointers db pdb)"
        using keys_row [OF tables] at by (auto simp: orphaned_pointers_def list_ex_iff)
      moreover have "distinct (map fst (pd_pointers pdb))" using tables by (simp add: tables_ok_def)
      ultimately have "map_of (filter (\<lambda>q. q \<notin> set (orphaned_pointers db pdb)) (pd_pointers pdb)) scope = Some (pu_revision q)"
        using at by (intro map_of_filter_keep) simp_all
      then have "map_of (pd_pointers pdb') scope = Some (pu_revision q)" by (simp add: pdb')
      then have "current_publication scope pdb' = Some q" using q(1) at by (simp add: current_publication_def pdb')
      with q show ?thesis by (simp add: pointed_above_def)
    qed
    then show ?thesis using gens Some by (auto simp: generations_ok_def pdb' publication_ok_def version_ok_def)
  qed (use gens in \<open>simp add: generations_ok_def pdb'\<close>)
  moreover have "read_records pdb' s r = read_records pdb s r" by (simp add: pdb' read_records_def config_saved_def)
  ultimately show ?thesis by (simp add: projection_ok_def pdb')
qed

lemma chain_step_projection_ok:
  assumes step: "chain_step hdr dp stream db db'" and ledger: "ledger_ok hdr (dp_activationBlock dp) stream db"
    and ok: "projection_ok hdr stream db pdb"
  shows "projection_ok hdr stream db' pdb"
proof -
  have gens: "generations_ok hdr stream db pdb" using ok by (simp add: projection_ok_def)
  from step_ledger [OF step ledger] have "extends stream db db' \<or> (\<exists>c c'. map_of (cd_checkpoints db) stream = Some c
      \<and> map_of (cd_checkpoints db') stream = Some c' \<and> ck_generation c < ck_generation c')" by blast
  then have "generations_ok hdr stream db' pdb"
  proof (elim disjE exE conjE)
    assume "extends stream db db'"
    then obtain c' where c': "map_of (cd_checkpoints db') stream = Some c'" "canon db \<subseteq> canon db'"
        "\<forall>c. map_of (cd_checkpoints db) stream = Some c \<longrightarrow> ck_generation c' = ck_generation c"
      by (auto simp: extends_def)
    show ?thesis
    proof (cases "map_of (cd_checkpoints db) stream")
      case None
      then show ?thesis using gens c' by (simp add: generations_ok_def one_open_def)
    next
      case (Some c)
      then show ?thesis using gens c' by (auto simp: generations_ok_def publication_ok_def)
    qed
  next
    fix c c' assume c: "map_of (cd_checkpoints db) stream = Some c" "map_of (cd_checkpoints db') stream = Some c'"
      "ck_generation c < ck_generation c'"
    then have "\<forall>v\<in>set (pd_versions pdb). vr_generation v < ck_generation c'" "\<forall>p\<in>set (pd_publications pdb). pu_generation p < ck_generation c'
        \<and> height hdr (pu_blockHash p) = pu_blockNumber p"
      using gens by (fastforce simp: generations_ok_def version_ok_def publication_ok_def)+
    moreover from this have "filter (is_open (ck_generation c')) (pd_versions pdb) = []"
      by (auto simp: filter_empty_conv is_open_def)
    ultimately show ?thesis using c(2) by (fastforce simp: generations_ok_def version_ok_def publication_ok_def one_open_def)
  qed
  then show ?thesis using ok by (simp add: projection_ok_def)
qed

section \<open>The contract of a writer\<close>

locale projection_writer =
  fixes run :: "'i \<Rightarrow> chain_db \<Rightarrow> projection_db \<Rightarrow> (projection_db \<times> publish_result) res" and input :: "'i \<Rightarrow> publish_input"
  assumes commits: "tables_ok pdb \<Longrightarrow> run i db pdb = Inr (pdb', result) \<Longrightarrow> pdb' = pdb \<or> committed (input i) db pdb pdb'"
begin

lemma keeps_ok:
  assumes "run i db pdb = Inr (pdb', result)" and "projection_ok hdr stream db pdb" and "ledger_ok hdr a stream db" and "stream_of (input i) = stream"
  shows "projection_ok hdr stream db pdb'"
  using commits [OF _ assms(1)] committed_projection_ok [OF _ assms(2-4)] assms(2) by (auto simp: projection_ok_def)

lemma keeps_others:
  assumes "run i db pdb = Inr (pdb', result)" and "projection_ok hdr stream db pdb" and "ledger_ok hdr a stream db" and "stream_of (input i) = stream"
    and "q \<in> set (pd_publications pdb)" and "(pu_scope q, pu_revision q) \<noteq> (pi_scope (input i), revision_of (input i))"
  shows "q \<in> set (pd_publications pdb') \<and> read_records pdb' (pu_scope q) (pu_revision q) = read_records pdb (pu_scope q) (pu_revision q)"
proof -
  have "tables_ok pdb" using assms(2) by (simp add: projection_ok_def)
  from commits [OF this assms(1)] show ?thesis
    using committed_other_revisions [OF _ assms(2-6)] assms(5) by blast
qed

end

interpretation full: projection_writer "publishProjection H collate" "\<lambda>i. i" for H collate
  by unfold_locales (use publishProjection_committed in blast)

interpretation delta: projection_writer "publishMarketDelta H" input_of for H
  by unfold_locales (use publishMarketDelta_committed in blast)

section \<open>Runs of the projections over the chain\<close>

datatype projection_event = FullPublication publish_input | DeltaPublication delta_input | Invalidation | ChainStep

text \<open>The scope and revision an event publishes.\<close>

fun target :: "projection_event \<Rightarrow> (string \<times> string) option" where
  "target (FullPublication i) = Some (pi_scope i, revision_of i)"
| "target (DeltaPublication i) = Some (pi_scope i, revision_of i)"
| "target Invalidation = None"
| "target ChainStep = None"

text \<open>
  The store of one deployment and stream and its projections: the chain is ingested and rewound, publications
  are made for the stream, and orphaned ones are invalidated, in any order. A transaction that throws changes nothing.
\<close>

inductive projection_step :: "headers \<Rightarrow> deployment \<Rightarrow> string \<Rightarrow> host \<Rightarrow> (string \<Rightarrow> string \<Rightarrow> int) \<Rightarrow> projection_event
    \<Rightarrow> chain_db \<times> projection_db \<Rightarrow> chain_db \<times> projection_db \<Rightarrow> bool"
  for hdr dp stream H collate where
  step_chain: "chain_step hdr dp stream db db' \<Longrightarrow> projection_step hdr dp stream H collate ChainStep (db, pdb) (db', pdb)"
| step_full: "pi_deployment i = dp \<Longrightarrow> stream_of i = stream \<Longrightarrow> publishProjection H collate i db pdb = Inr (pdb', result)
    \<Longrightarrow> projection_step hdr dp stream H collate (FullPublication i) (db, pdb) (db, pdb')"
| step_delta: "pi_deployment i = dp \<Longrightarrow> stream_of i = stream \<Longrightarrow> publishMarketDelta H i db pdb = Inr (pdb', result)
    \<Longrightarrow> projection_step hdr dp stream H collate (DeltaPublication i) (db, pdb) (db, pdb')"
| step_invalidate: "invalidateOrphanedPublications dp g sch db pdb = Inr (pdb', k)
    \<Longrightarrow> projection_step hdr dp stream H collate Invalidation (db, pdb) (db, pdb')"

inductive projection_run :: "headers \<Rightarrow> deployment \<Rightarrow> string \<Rightarrow> host \<Rightarrow> (string \<Rightarrow> string \<Rightarrow> int) \<Rightarrow> projection_event list
    \<Rightarrow> chain_db \<times> projection_db \<Rightarrow> chain_db \<times> projection_db \<Rightarrow> bool"
  for hdr dp stream H collate where
  run_nil: "projection_run hdr dp stream H collate [] s s"
| run_step: "projection_run hdr dp stream H collate es s t \<Longrightarrow> projection_step hdr dp stream H collate e t u
    \<Longrightarrow> projection_run hdr dp stream H collate (es @ [e]) s u"

definition state_ok :: "headers \<Rightarrow> deployment \<Rightarrow> string \<Rightarrow> chain_db \<times> projection_db \<Rightarrow> bool" where
  "state_ok hdr dp stream s \<longleftrightarrow> ledger_ok hdr (dp_activationBlock dp) stream (fst s) \<and> projection_ok hdr stream (fst s) (snd s)"

lemma projection_step_ok:
  assumes "projection_step hdr dp stream H collate e s t" and "state_ok hdr dp stream s"
  shows "state_ok hdr dp stream t"
  using assms
proof (induction rule: projection_step.induct)
  case (step_chain db db' pdb)
  then show ?case using step_ledger chain_step_projection_ok by (fastforce simp: state_ok_def)
next
  case (step_full i db pdb pdb' result)
  then show ?case using full.keeps_ok [of H collate i db pdb pdb' result] by (auto simp: state_ok_def)
next
  case (step_delta i db pdb pdb' result)
  then show ?case using delta.keeps_ok [of H i db pdb pdb' result] by (auto simp: state_ok_def)
next
  case (step_invalidate g sch db pdb pdb' k)
  then show ?case using invalidate_projection_ok by (fastforce simp: state_ok_def)
qed

lemma step_others:
  assumes "projection_step hdr dp stream H collate e s t" and "state_ok hdr dp stream s" and "q \<in> set (pd_publications (snd s))"
    and "target e \<noteq> Some (pu_scope q, pu_revision q)"
  shows "q \<in> set (pd_publications (snd t)) \<and> read_records (snd t) (pu_scope q) (pu_revision q) = read_records (snd s) (pu_scope q) (pu_revision q)"
  using assms
proof (induction rule: projection_step.induct)
  case (step_full i db pdb pdb' result)
  then show ?case using full.keeps_others [of H collate i db pdb pdb' result hdr stream "dp_activationBlock dp" q] by (auto simp: state_ok_def)
next
  case (step_delta i db pdb pdb' result)
  then show ?case using delta.keeps_others [of H i db pdb pdb' result hdr stream "dp_activationBlock dp" q] by (auto simp: state_ok_def)
next
  case (step_invalidate g sch db pdb pdb' k)
  then have "projection_ok hdr stream db pdb" "ledger_ok hdr (dp_activationBlock dp) stream db" by (simp_all add: state_ok_def)
  from invalidate_projection_ok [OF step_invalidate.hyps this] step_invalidate.prems show ?case by simp
qed simp

lemma start_ok: "state_ok hdr dp stream (empty_chain, empty_projection)"
  by (simp add: state_ok_def ledger_ok_def projection_ok_def tables_ok_def generations_ok_def empty_chain_def empty_projection_def
    rows_ok_def logs_ok_def unique_heights_def canon_def config_ids_ok_def)

lemma run_ok: "projection_run hdr dp stream H collate es s t \<Longrightarrow> state_ok hdr dp stream s \<Longrightarrow> state_ok hdr dp stream t"
  by (induction rule: projection_run.induct) (auto intro: projection_step_ok)

lemma run_others:
  "projection_run hdr dp stream H collate es s t \<Longrightarrow> state_ok hdr dp stream s \<Longrightarrow> q \<in> set (pd_publications (snd s))
    \<Longrightarrow> \<forall>e\<in>set es. target e \<noteq> Some (pu_scope q, pu_revision q)
    \<Longrightarrow> q \<in> set (pd_publications (snd t)) \<and> read_records (snd t) (pu_scope q) (pu_revision q) = read_records (snd s) (pu_scope q) (pu_revision q)"
proof (induction rule: projection_run.induct)
  case (run_step es s t e u)
  have "state_ok hdr dp stream t" by (rule run_ok [OF run_step.hyps(1) run_step.prems(1)])
  with run_step step_others [OF run_step.hyps(2), of q] show ?case by auto
qed simp

text \<open>C40: Published revisions are immutable. In every run of ingestion, reorganizations, publications, market
  deltas and invalidations, a publication that was made stays, and what the readers' view returns for it stays
  exactly the same, as long as the same revision is not itself submitted again: later publications close
  and add market versions and share config contents, and never change what an earlier revision, or one
  of another scope or generation, reads.\<close>

theorem published_revisions_immutable:
  assumes "projection_run hdr dp stream H collate es0 (empty_chain, empty_projection) (db, pdb)"
    and "projection_run hdr dp stream H collate es (db, pdb) (db', pdb')"
    and "p \<in> set (pd_publications pdb)" and "\<forall>e\<in>set es. target e \<noteq> Some (pu_scope p, pu_revision p)"
  shows "p \<in> set (pd_publications pdb')
    \<and> read_records pdb' (pu_scope p) (pu_revision p) = read_records pdb (pu_scope p) (pu_revision p)"
  using run_others [OF assms(2) run_ok [OF assms(1) start_ok], of p] assms(3,4) by simp

definition sample_record :: projection_record where
  "sample_record = \<lparr>pr_identity = ''m1'', pr_sortKey = ''1'', pr_payload = JNumber 7\<rparr>"

definition sample_publication :: "string \<Rightarrow> publish_input" where
  "sample_publication scope = \<lparr>pi_deployment = sample_deployment, pi_scope = scope, pi_algorithmVersion = ''v1'', pi_blockNumber = 1,
     pi_blockHash = hex_lit 64 CHR ''b'', pi_generation = 0, pi_stream = None, pi_records = [sample_record],
     pi_incremental = (scope = ''markets''), pi_schemaName = None\<rparr>"

abbreviation "sample_revision \<equiv> revision_text 1 (hex_lit 64 CHR ''b'')"

lemma sample_publication_simps [simp]:
  "pi_scope (sample_publication scope) = scope" "pi_incremental (sample_publication scope) \<longleftrightarrow> scope = ''markets''"
  "pi_blockNumber (sample_publication scope) = 1" "pi_generation (sample_publication scope) = 0"
  "pi_records (sample_publication scope) = [sample_record]" "pi_schemaName (sample_publication scope) = None"
  "pi_deployment (sample_publication scope) = sample_deployment" "stream_of (sample_publication scope) = ''frontend-events''"
  "revision_of (sample_publication scope) = sample_revision" "pi_blockHash (sample_publication scope) = hex_lit 64 CHR ''b''"
  by (simp_all add: sample_publication_def stream_of_def revision_of_def)

definition sample_published :: projection_db where
  "sample_published = empty_projection\<lparr>pd_publications := [publication_of (sample_publication ''markets'') (hex_lit 64 CHR ''0'')
       (publication_payload (sample_publication ''markets''))],
     pd_pointers := [(''markets'', sample_revision)],
     pd_checkpoints := [checkpoint_of (sample_publication ''markets'')],
     pd_versions := [version_of 0 1 (expected_row sample_host sample_record)]\<rparr>"

lemma publication_sample_digest [simp]: "stable_digest sample_host v = hex_lit 64 CHR ''0''"
  by (simp add: stable_digest_def sample_host_def hex_lit_def)

lemma publication_sample_valid: "is_token scope \<Longrightarrow> validateInput sample_host (sample_publication scope) = Inr ()"
proof -
  have "length (show_int 7) = 1" "is_token ''v1''" by code_simp+
  then show "is_token scope \<Longrightarrow> ?thesis"
    by (simp add: validateInput_def validateRecord_def sample_publication_def sample_record_def sample_deployment_def)
qed

lemma sample_anchor: "assertAnchor (sample_publication scope) sample_store = Inr ()"
  by (simp add: assertAnchor_def assertPublishableAnchor_def sample_publication_def sample_store_def sample_row_def sample_deployment_def
    range_of_def js_sort_Cons)

lemma sample_publish_markets:
  "publishProjection sample_host sign_cmp (sample_publication ''markets'') sample_store empty_projection
    = Inr (sample_published, (sample_revision, False, 1))"
proof -
  have "is_token ''markets''" by code_simp
  then have "validateInput sample_host (sample_publication ''markets'') = Inr ()" by (rule publication_sample_valid)
  moreover have "write_all sample_host sign_cmp (sample_publication ''markets'') d [expected_row sample_host sample_record] pdb
      = Inr (pdb\<lparr>pd_versions := [version_of 0 1 (expected_row sample_host sample_record)]\<rparr>)" if "pd_versions pdb = []" for d pdb
    by (simp add: write_all_def changed_rows_def by_identity_def chunks.simps write_batch_def write_versions_def close_where_def that
      insert_version_def has_valid_def close_absent_def verify_population_def verify_batch_def verify_row_def version_of_def valid_at_def
      expected_row_def is_open_def Let_def)
  ultimately show ?thesis
    using sample_anchor [of "''markets''"]
    by (simp add: publishProjection_def sqlIdentifier_def js_sort_Cons enter_publication_def move_pointer_def current_publication_def
      empty_projection_def set_pointer_def upsert_checkpoint_def sample_published_def Let_def)
qed

definition sample_later :: projection_db where
  "sample_later = sample_published\<lparr>pd_publications := pd_publications sample_published
       @ [publication_of (sample_publication ''curves'') (hex_lit 64 CHR ''0'') (publication_payload (sample_publication ''curves''))],
     pd_pointers := pd_pointers sample_published @ [(''curves'', sample_revision)],
     pd_checkpoints := pd_checkpoints sample_published @ [checkpoint_of (sample_publication ''curves'')],
     pd_records := [record_of ''curves'' sample_revision (expected_row sample_host sample_record)]\<rparr>"

lemma sample_publish_curves:
  "publishProjection sample_host sign_cmp (sample_publication ''curves'') sample_store sample_published
    = Inr (sample_later, (sample_revision, False, 1))"
proof -
  have "is_token ''curves''" by code_simp
  then have "validateInput sample_host (sample_publication ''curves'') = Inr ()" by (rule publication_sample_valid)
  moreover have "write_all sample_host sign_cmp (sample_publication ''curves'') d [expected_row sample_host sample_record] pdb
      = Inr (pdb\<lparr>pd_records := [record_of ''curves'' sample_revision (expected_row sample_host sample_record)]\<rparr>)"
    if "pd_records pdb = []" "\<forall>p\<in>set (pd_publications pdb). uses_versions p \<longrightarrow> pu_scope p = ''markets''" for d pdb
  proof -
    have "filter (\<lambda>p. uses_versions p \<and> pu_scope p = ''curves'' \<and> pu_revision p = sample_revision) (pd_publications pdb) = []"
      using that(2) by (auto simp: filter_empty_conv)
    then show ?thesis
      by (simp add: write_all_def chunks.simps write_batch_def write_records_def record_exists_def that(1) read_records_def record_of_def
        expected_row_def same_row_def saved_record.truncate_def Let_def)
  qed
  ultimately show ?thesis
    using sample_anchor [of "''curves''"]
    by (simp add: publishProjection_def sqlIdentifier_def js_sort_Cons enter_publication_def move_pointer_def current_publication_def
      empty_projection_def set_pointer_def upsert_checkpoint_def sample_published_def sample_later_def is_publication_def publication_of_def
      checkpoint_of_def uses_versions_def Let_def)
qed

lemma sample_run:
  "projection_run sample_headers sample_deployment ''frontend-events'' sample_host sign_cmp
     [ChainStep, FullPublication (sample_publication ''markets'')] (empty_chain, empty_projection) (sample_store, sample_published)"
proof -
  note chain = step_chain [OF sample_step, where H = sample_host and collate = sign_cmp and pdb = empty_projection]
  note publish = step_full [where stream = "''frontend-events''", OF _ _ sample_publish_markets, where hdr = sample_headers and dp = sample_deployment]
  from run_step [OF run_step [OF run_nil chain] publish] show ?thesis by simp
qed

lemma published_revisions_immutable_witness:
  "read_records sample_later ''markets'' sample_revision = [expected_row sample_host sample_record]"
proof -
  define p where "p = publication_of (sample_publication ''markets'') (hex_lit 64 CHR ''0'') (publication_payload (sample_publication ''markets''))"
  note publish = step_full [where stream = "''frontend-events''", OF _ _ sample_publish_curves, where hdr = sample_headers and dp = sample_deployment]
  have later: "projection_run sample_headers sample_deployment ''frontend-events'' sample_host sign_cmp
      [FullPublication (sample_publication ''curves'')] (sample_store, sample_published) (sample_store, sample_later)"
    using run_step [OF run_nil publish] by simp
  have "p \<in> set (pd_publications sample_published)" by (simp add: sample_published_def p_def)
  from published_revisions_immutable [OF sample_run later this]
  have "read_records sample_later ''markets'' sample_revision = read_records sample_published ''markets'' sample_revision"
    by (simp add: p_def publication_of_def)
  also have "\<dots> = [expected_row sample_host sample_record]"
    by (simp add: read_records_def sample_published_def empty_projection_def uses_versions_def publication_of_def publication_payload_def
      valid_at_def version_of_def expected_row_def saved_record.truncate_def)
  finally show ?thesis .
qed

end
