(* ===== verification/Projection_Evidence.thy ===== *)
theory Projection_Evidence imports Projection_Stable begin

text \<open>
  What readers get of a new publication: the evidence of a record, the rows that carry the submitted
  records, and \<open>full_reads\<close>, which follows \<open>publishProjection\<close> through its three kinds of storage.
\<close>

section \<open>Evidence\<close>

text \<open>What identifies a record to a reader: its keys, its digest and its canonical JSON.\<close>

definition evidence :: "host \<Rightarrow> 'a saved_record_scheme \<Rightarrow> string \<times> string \<times> string \<times> string" where
  "evidence H r = (sv_identity r, sv_sortKey r, sv_digest r, stableStringify H (sv_payload r))"

definition input_evidence :: "host \<Rightarrow> projection_record \<Rightarrow> string \<times> string \<times> string \<times> string" where
  "input_evidence H r = evidence H (expected_row H r)"

text \<open>The rows are one per identity, and exactly those of the given evidence.\<close>

definition carries :: "host \<Rightarrow> 'a saved_record_scheme list \<Rightarrow> (string \<times> string \<times> string \<times> string) set \<Rightarrow> bool" where
  "carries H rows E \<longleftrightarrow> distinct (map sv_identity rows) \<and> evidence H ` set rows = E"

lemma evidence_truncate [simp]: "evidence H (saved_record.truncate r) = evidence H r"
  by (simp add: evidence_def saved_record.truncate_def)

lemma identity_truncate [simp]: "sv_identity (saved_record.truncate r) = sv_identity r"
  by (simp add: saved_record.truncate_def)

lemma carries_truncate [simp]: "carries H (map saved_record.truncate rows) E \<longleftrightarrow> carries H rows E"
  by (simp add: carries_def image_image comp_def)

lemma input_identity [simp]: "fst (input_evidence H r) = pr_identity r" "sv_identity (expected_row H r) = pr_identity r"
  by (simp_all add: input_evidence_def evidence_def expected_row_def)

lemma validateRecords_distinct:
  "foldR (validateRecord H) rs seen = Inr seen' \<Longrightarrow> distinct (map pr_identity rs) \<and> set (map pr_identity rs) \<inter> seen = {}"
proof (induction rs arbitrary: seen)
  case (Cons r rs)
  then obtain s where s: "validateRecord H r seen = Inr s" "foldR (validateRecord H) rs s = Inr seen'" by (auto simp: res_simps)
  then have "s = insert (pr_identity r) seen" "pr_identity r \<notin> seen" by (auto simp: validateRecord_def split: if_splits)
  with Cons.IH [OF s(2)] show ?case by auto
qed simp

lemma validateInput_distinct: "validateInput H i = Inr () \<Longrightarrow> distinct (map pr_identity (pi_records i))"
  by (auto simp: validateInput_def res_simps split: if_splits dest: validateRecords_distinct)

lemma by_identity_Some: "by_identity rows k = Some v \<Longrightarrow> v \<in> set rows \<and> sv_identity v = k"
  unfolding by_identity_def by (drule map_of_SomeD) auto

section \<open>Complete publications\<close>

lemma write_batches_records:
  assumes "foldR (write_batch i) bs pdb = Inr pdb'" and "\<not> pi_incremental i" and "distinct (map sv_identity (concat bs))"
    and "\<forall>r\<in>set (concat bs). \<not> record_exists (pi_scope i) (revision_of i) pdb (sv_identity r)"
  shows "pd_records pdb' = pd_records pdb @ map (record_of (pi_scope i) (revision_of i)) (concat bs)
    \<and> pd_publications pdb' = pd_publications pdb \<and> pd_versions pdb' = pd_versions pdb \<and> pd_links pdb' = pd_links pdb"
  using assms(1,3,4)
proof (induction bs arbitrary: pdb)
  case (Cons b bs)
  from Cons.prems(1) obtain pdb1 where first: "write_batch i b pdb = Inr pdb1" and rest: "foldR (write_batch i) bs pdb1 = Inr pdb'"
    by (auto simp: bindR_eq_Inr)
  have one: "write_records (pi_scope i) (revision_of i) b pdb = Inr pdb1" using first assms(2) by (simp add: write_batch_def)
  have "filter (\<lambda>r. \<not> record_exists (pi_scope i) (revision_of i) pdb (sv_identity r)) b = b"
    using Cons.prems(3) by (intro filter_True) auto
  then have pdb1: "pdb1 = pdb\<lparr>pd_records := pd_records pdb @ map (record_of (pi_scope i) (revision_of i)) b\<rparr>"
    using one by (auto simp: write_records_def Let_def split: if_splits)
  have "\<not> record_exists (pi_scope i) (revision_of i) pdb1 (sv_identity r)" if r: "r \<in> set (concat bs)" for r
  proof -
    have "distinct (map sv_identity b @ map sv_identity (concat bs))" using Cons.prems(2) by simp
    moreover have "sv_identity r \<in> set (map sv_identity (concat bs))" using r by (metis image_eqI list.set_map)
    ultimately have "sv_identity r \<notin> set (map sv_identity b)" unfolding distinct_append by blast
    moreover have "\<not> record_exists (pi_scope i) (revision_of i) pdb (sv_identity r)" using Cons.prems(3) r by auto
    ultimately show ?thesis unfolding record_exists_def list_ex_iff pdb1 by (auto simp: record_of_def image_iff)
  qed
  then show ?case using Cons.IH [OF rest] Cons.prems(2) by (auto simp: pdb1)
qed simp

lemma foldR_check: "foldR (\<lambda>x _. f x) xs u = Inr v \<Longrightarrow> x \<in> set xs \<Longrightarrow> f x = Inr ()"
  by (induction xs arbitrary: u) (auto simp: bindR_eq_Inr)

lemma verify_population_carries:
  assumes run: "verify_population H g n vs rows = Inr ()" and d: "distinct (map sv_identity rows)"
  shows "carries H (filter (valid_at g n) vs) (evidence H ` set rows)"
proof -
  define V where "V = filter (valid_at g n) vs"
  have len: "length V = length rows" and batches: "foldR (\<lambda>batch _. verify_batch H g n vs batch) (chunks rows 250) () = Inr ()"
    using run by (auto simp: verify_population_def V_def split: if_splits)
  have rows_in: "\<exists>v\<in>set V. sv_identity v = sv_identity r \<and> evidence H v = evidence H r" if r: "r \<in> set rows" for r
  proof -
    have "set (concat (chunks rows 250)) = set rows" by (subst chunks_concat) simp_all
    then obtain b where b: "b \<in> set (chunks rows 250)" "r \<in> set b" using r by auto
    define verified where "verified = filter (\<lambda>v. valid_at g n v \<and> sv_identity v \<in> set (map sv_identity b)) vs"
    have "foldR (\<lambda>r _. verify_row H verified r) b () = Inr ()"
      using foldR_check [OF batches b(1)] unfolding verify_batch_def Let_def verified_def by (simp only: if_Inl_eq_Inr)
    then have "verify_row H verified r = Inr ()" by (rule foldR_check [OF _ b(2)])
    then obtain v where v: "by_identity verified (sv_identity r) = Some v" "evidence H v = evidence H r"
      by (auto simp: verify_row_def res_simps evidence_def dest: by_identity_Some split: option.splits)
    then have "v \<in> set V" "sv_identity v = sv_identity r" using by_identity_Some [OF v(1)] by (auto simp: verified_def V_def)
    with v(2) show ?thesis by blast
  qed
  have "set (map sv_identity rows) \<subseteq> set (map sv_identity V)"
  proof
    fix k assume "k \<in> set (map sv_identity rows)"
    then obtain r where "r \<in> set rows" "k = sv_identity r" by auto
    with rows_in [of r] show "k \<in> set (map sv_identity V)" by (metis image_eqI list.set_map)
  qed
  moreover have "card (set (map sv_identity rows)) = length rows" using d distinct_card by fastforce
  moreover have "card (set (map sv_identity V)) \<le> length V" by (metis card_length length_map)
  ultimately have ids: "set (map sv_identity rows) = set (map sv_identity V)" "card (set (map sv_identity V)) = length V"
    using len by (simp_all add: card_seteq card_mono order.antisym) (metis List.finite_set card_mono finite_imageI order.antisym)+
  then have dV: "distinct (map sv_identity V)" by (metis card_distinct length_map)
  have "evidence H v \<in> evidence H ` set rows" if v: "v \<in> set V" for v
  proof -
    have "sv_identity v \<in> set (map sv_identity rows)" using v ids(1) by (metis image_eqI list.set_map)
    then obtain r where r: "r \<in> set rows" "sv_identity r = sv_identity v" by auto
    then obtain w where w: "w \<in> set V" "sv_identity w = sv_identity v" "evidence H w = evidence H r" using rows_in by metis
    then have "w = v" using dV v by (auto simp: distinct_map inj_on_def)
    with w r show ?thesis by auto
  qed
  moreover have "evidence H r \<in> evidence H ` set V" if "r \<in> set rows" for r using rows_in [OF that] by (metis image_eqI)
  ultimately show ?thesis using dV unfolding carries_def V_def [symmetric] by auto
qed

text \<open>What a new publication reads, by the kind of its storage.\<close>

definition published_rows :: "host \<Rightarrow> (string \<Rightarrow> string \<Rightarrow> int) \<Rightarrow> publish_input \<Rightarrow> saved_record list \<Rightarrow> bool" where
  "published_rows H collate i rows \<longleftrightarrow> (if pi_scope i = ''configs''
     then evidence_text H (js_sort (compare_saved collate) rows) = evidence_text H (map (expected_row H) (js_sort (compare_records H) (pi_records i)))
     else carries H rows (input_evidence H ` set (pi_records i)))"

lemma carries_expected:
  assumes "distinct (map pr_identity rs)" shows "carries H (map (expected_row H) rs) (input_evidence H ` set rs)"
  using assms by (auto simp: carries_def input_evidence_def comp_def image_image)

lemma uses_versions_full: "uses_versions (publication_of i d (publication_payload i)) \<longleftrightarrow> pi_scope i = ''markets'' \<and> pi_incremental i"
  by (auto simp: uses_versions_def publication_of_def publication_payload_def)

lemma record_of_simps [simp]:
  "rr_scope (record_of s r x) = s" "rr_revision (record_of s r x) = r" "saved_record.truncate (record_of s r x) = x"
  by (cases x, simp add: record_of_def saved_record.truncate_def)+

lemma write_versions_batches:
  "foldR (write_batch i) bs pdb = Inr pdb' \<Longrightarrow> pi_incremental i \<Longrightarrow> pd_records pdb' = pd_records pdb"
  by (erule foldR_keeps [where I = "\<lambda>x. pd_records x = pd_records pdb"]) (auto simp: write_batch_def bindR_eq_Inr)

lemma full_reads:
  assumes run: "publishProjection H collate i db pdb = Inr (pdb', result)" and tables: "tables_ok pdb" and new: "\<not> fst (snd result)"
  shows "published_rows H collate i (read_records pdb' (pi_scope i) (revision_of i))"
proof -
  define d where "d = stable_digest H (JArray (map record_json (js_sort (compare_records H) (pi_records i))))"
  define expected where "expected = map (expected_row H) (js_sort (compare_records H) (pi_records i))"
  define p0 where "p0 = publication_of i d (publication_payload i)"
  obtain pdb1 pdb2 duplicate where p: "validateInput H i = Inr ()" "enter_publication H i d pdb = Inr (pdb1, duplicate)"
    "write_all H collate i d expected pdb1 = Inr pdb2"
    "pdb' = upsert_checkpoint (checkpoint_of i) (set_pointer (pi_scope i) (revision_of i) pdb2)"
    "result = (revision_of i, duplicate, int (length (pi_records i)))"
    unfolding d_def expected_def by (rule publishProjection_parts [OF run]) blast
  have fresh: "find (is_publication (pi_scope i) (revision_of i)) (pd_publications pdb) = None"
    and pdb1: "pdb1 = pdb\<lparr>pd_publications := pd_publications pdb @ [p0]\<rparr>"
    using p(2,5) new by (auto simp: enter_publication_def p0_def split: option.splits if_splits)
  have unpublished: "(pi_scope i, revision_of i) \<notin> publication_keys pdb"
    using fresh by (auto simp: publication_keys_def find_None_iff is_publication_def)
  have no_records: "\<forall>r\<in>set (pd_records pdb). \<not> (rr_scope r = pi_scope i \<and> rr_revision r = revision_of i)"
    using unpublished tables unfolding tables_ok_def by metis
  have no_links: "\<forall>l\<in>set (pd_links pdb). \<not> (pi_scope i = ''configs'' \<and> cfl_revision l = revision_of i)"
    using unpublished tables unfolding tables_ok_def by metis
  have pubs: "filter (\<lambda>p. uses_versions p \<and> pu_scope p = pi_scope i \<and> pu_revision p = revision_of i) (pd_publications pdb1)
      = (if uses_versions p0 then [p0] else [])"
  proof -
    have "filter (\<lambda>p. uses_versions p \<and> pu_scope p = pi_scope i \<and> pu_revision p = revision_of i) (pd_publications pdb) = []"
      using unpublished by (force simp: publication_keys_def filter_empty_conv)
    then show ?thesis by (simp add: pdb1 p0_def publication_of_def)
  qed
  have ids: "distinct (map pr_identity (pi_records i))" using p(1) by (rule validateInput_distinct)
  have ids': "distinct (map sv_identity expected)" using ids by (simp add: expected_def comp_def)
  have E: "evidence H ` set expected = input_evidence H ` set (pi_records i)" by (simp add: expected_def image_image input_evidence_def)
  have reads: "read_records pdb' s r = read_records pdb2 s r" for s r
    using upsert_checkpoint_only [of "checkpoint_of i" "set_pointer (pi_scope i) (revision_of i) pdb2"] p(4) by auto
  note step = write_all_step [OF p(3) validateInput_scope [OF p(1)]]
  have pubs2: "pd_publications pdb2 = pd_publications pdb1" using step by (simp add: publication_step_def)
  show ?thesis
  proof (cases "pi_scope i = ''configs''")
    case True
    then have plain: "\<not> pi_incremental i" using validateInput_scope [OF p(1)] by auto
    then have conf: "publishConfigSet H collate (revision_of i) d expected pdb1 = Inr pdb2"
      using p(3) True by (auto simp: write_all_def chunks.simps bindR_eq_Inr)
    obtain pdb3 sid where found: "find_config_set d expected pdb1 = (pdb3, sid)" by (cases "find_config_set d expected pdb1") auto
    have s3: "pd_records pdb3 = pd_records pdb" "pd_links pdb3 = pd_links pdb"
      using find_config_set_step [OF found] by (simp_all add: config_step_def pdb1)
    have "revision_of i \<notin> set (map cfl_revision (pd_links pdb3))" using no_links True s3 by auto
    then have eq: "evidence_text H (js_sort (compare_saved collate) (config_saved pdb3 sid)) = evidence_text H expected"
      and pdb2: "pdb2 = pdb3\<lparr>pd_links := pd_links pdb3 @ [\<lparr>cfl_revision = revision_of i, cfl_set = sid\<rparr>]\<rparr>"
      using conf unfolding publishConfigSet_def found by (auto simp: Let_def split: if_splits)
    have "read_records pdb2 ''configs'' (revision_of i) = config_saved pdb2 sid"
      using no_records no_links pubs s3 True
      by (simp add: read_records_def pubs2 p0_def uses_versions_full filter_empty_conv) (simp add: pdb2 filter_empty_conv)
    moreover have "config_saved pdb2 sid = config_saved pdb3 sid" by (simp add: pdb2 config_saved_def)
    ultimately show ?thesis using eq True by (simp add: published_rows_def reads expected_def)
  next
    case False
    have links2: "filter (\<lambda>l. pi_scope i = ''configs'' \<and> cfl_revision l = revision_of i) (pd_links pdb2) = []"
      using False by simp
    have "carries H (read_records pdb2 (pi_scope i) (revision_of i)) (input_evidence H ` set (pi_records i))"
    proof (cases "pi_incremental i")
      case False
      then have batches: "foldR (write_batch i) (chunks expected 250) pdb1 = Inr pdb2"
        using p(3) \<open>pi_scope i \<noteq> ''configs''\<close> by (auto simp: write_all_def Let_def bindR_eq_Inr)
      have concat: "concat (chunks expected 250) = expected" by (rule chunks_concat) simp
      have "\<forall>r\<in>set expected. \<not> record_exists (pi_scope i) (revision_of i) pdb1 (sv_identity r)"
        using no_records by (auto simp: record_exists_def list_ex_iff pdb1)
      from write_batches_records [OF batches False, unfolded concat, OF ids' this]
      have w: "pd_records pdb2 = pd_records pdb @ map (record_of (pi_scope i) (revision_of i)) expected" by (simp add: pdb1)
      have "map saved_record.truncate (filter (\<lambda>r. rr_scope r = pi_scope i \<and> rr_revision r = revision_of i) (pd_records pdb2)) = expected"
        using no_records by (simp add: w filter_empty_conv filter_map comp_def)
      then have "read_records pdb2 (pi_scope i) (revision_of i) = expected"
        using False pubs by (simp add: read_records_def links2 pubs2 p0_def uses_versions_full)
      then show ?thesis using ids' E by (simp add: carries_def)
    next
      case True
      then have markets: "pi_scope i = ''markets''" using validateInput_scope [OF p(1)] by simp
      have "verify_population H (pi_generation i) (pi_blockNumber i) (pd_versions pdb2) expected = Inr ()"
        using p(3) True \<open>pi_scope i \<noteq> ''configs''\<close> by (auto simp: write_all_def Let_def bindR_eq_Inr)
      from verify_population_carries [OF this ids']
      have "carries H (filter (valid_at (pi_generation i) (pi_blockNumber i)) (pd_versions pdb2)) (evidence H ` set expected)" .
      moreover have "pd_records pdb2 = pd_records pdb"
        using p(3) True \<open>pi_scope i \<noteq> ''configs''\<close> by (auto simp: write_all_def Let_def bindR_eq_Inr pdb1 close_absent_def dest: write_versions_batches)
      then have "read_records pdb2 (pi_scope i) (revision_of i)
          = map saved_record.truncate (filter (valid_at (pi_generation i) (pi_blockNumber i)) (pd_versions pdb2))"
        using no_records pubs markets True links2
        by (simp add: read_records_def pubs2 p0_def uses_versions_full filter_empty_conv) (simp add: publication_of_def)
      ultimately show ?thesis by (simp add: E)
    qed
    then show ?thesis using False by (simp add: published_rows_def reads)
  qed
qed

end
