(* ===== verification/Projection_Overlay.thy ===== *)
theory Projection_Overlay imports Projection_Evidence begin

text \<open>
  What \<open>publishMarketDelta\<close> does to the open versions, identity by identity: the plan of a batch, its
  writes, the batches one after the other, and \<open>delta_overlay\<close>: the versions after a delta carry the
  overlay of the base's evidence.
\<close>

section \<open>A batch of a delta, identity by identity\<close>

definition rows_of :: "string \<Rightarrow> version_row list \<Rightarrow> version_row list" where
  "rows_of k vs = filter (\<lambda>v. sv_identity v = k) vs"

definition opened :: "host \<Rightarrow> int \<Rightarrow> string \<Rightarrow> version_row list \<Rightarrow> (string \<times> string \<times> string \<times> string) set" where
  "opened H g k vs = evidence H ` set (filter (is_open g) (rows_of k vs))"

definition changes :: "host \<Rightarrow> version_row \<Rightarrow> projection_record \<Rightarrow> bool" where
  "changes H old r \<longleftrightarrow> evidence H old \<noteq> (sv_identity old, pr_sortKey r, stable_digest H (pr_payload r), stableStringify H (pr_payload r))"

definition entry_closes :: "host \<Rightarrow> projection_record list \<Rightarrow> (string \<Rightarrow> version_row option) \<Rightarrow> delta_entry \<Rightarrow> bool" where
  "entry_closes H records prior e \<longleftrightarrow> (case e of RemovedEntry _ \<Rightarrow> True
     | ChangedEntry k _ _ \<Rightarrow> \<exists>old r. prior k = Some old \<and> r \<in> set records \<and> pr_identity r = k \<and> changes H old r)"

definition entry_writes :: "host \<Rightarrow> projection_record list \<Rightarrow> (string \<Rightarrow> version_row option) \<Rightarrow> delta_entry \<Rightarrow> bool" where
  "entry_writes H records prior e \<longleftrightarrow> (case e of RemovedEntry _ \<Rightarrow> False
     | ChangedEntry k _ _ \<Rightarrow> prior k = None \<or> entry_closes H records prior e)"

text \<open>The entries a delta is made of, and the evidence they leave for their identity.\<close>

definition entries_from :: "host \<Rightarrow> projection_record list \<Rightarrow> delta_entry list \<Rightarrow> bool" where
  "entries_from H records es \<longleftrightarrow> distinct (map pr_identity records) \<and> distinct (map entry_identity es)
     \<and> (\<forall>e\<in>set es. (\<exists>k. e = RemovedEntry k) \<or> (\<exists>r\<in>set records. e = entry_of H r))"

definition entry_leaves :: "host \<Rightarrow> projection_record list \<Rightarrow> delta_entry \<Rightarrow> (string \<times> string \<times> string \<times> string) set" where
  "entry_leaves H records e = (case e of RemovedEntry _ \<Rightarrow> {} | ChangedEntry k _ _ \<Rightarrow> input_evidence H ` {r \<in> set records. pr_identity r = k})"

lemma find_identity:
  "distinct (map pr_identity rs) \<Longrightarrow> r \<in> set rs \<Longrightarrow> find (\<lambda>x. pr_identity x = pr_identity r) rs = Some r"
  by (induction rs) (auto simp: image_iff)

lemma plan_batch:
  assumes "foldR (plan_entry H records prior) batch (m, ch, cl) = Inr (m', ch', cl')" and "entries_from H records batch"
  shows "cl' = cl @ map entry_identity (filter (entry_closes H records prior) batch)
    \<and> (\<exists>xs. ch' = ch @ xs \<and> set xs = {r \<in> set records. \<exists>e\<in>set batch. e = entry_of H r \<and> entry_writes H records prior e})
    \<and> (\<forall>k. RemovedEntry k \<in> set batch \<longrightarrow> prior k \<noteq> None)"
  using assms
proof (induction batch arbitrary: m ch cl)
  case (Cons e batch)
  from Cons.prems(1) obtain m1 ch1 cl1 where one: "plan_entry H records prior e (m, ch, cl) = Inr (m1, ch1, cl1)"
    and rest: "foldR (plan_entry H records prior) batch (m1, ch1, cl1) = Inr (m', ch', cl')"
    by (auto simp: bindR_eq_Inr)
  have ef: "entries_from H records batch" "distinct (map pr_identity records)" using Cons.prems(2) by (auto simp: entries_from_def)
  note IH = Cons.IH [OF rest ef(1)]
  have "(\<exists>k. e = RemovedEntry k) \<or> (\<exists>r\<in>set records. e = entry_of H r)" using Cons.prems(2) by (simp add: entries_from_def)
  then show ?case
  proof
    assume "\<exists>k. e = RemovedEntry k"
    then obtain k where e: "e = RemovedEntry k" by blast
    then have "cl1 = cl @ [k]" "ch1 = ch" "prior k \<noteq> None" using one by (auto simp: plan_entry_def split: option.splits)
    then show ?thesis using IH e by (auto simp: entry_closes_def entry_writes_def entry_of_def)
  next
    assume "\<exists>r\<in>set records. e = entry_of H r"
    then obtain r where r: "r \<in> set records" "e = entry_of H r" by blast
    have other: "x = r" if "x \<in> set records" "entry_of H x = entry_of H r" for x
      using that r(1) ef(2) by (auto simp: entry_of_def distinct_map inj_on_def)
    have found: "find (\<lambda>x. pr_identity x = pr_identity r) records = Some r" by (rule find_identity [OF ef(2) r(1)])
    have closes: "entry_closes H records prior e \<longleftrightarrow> (\<exists>old. prior (pr_identity r) = Some old \<and> changes H old r)"
    proof -
      have "x = r" if "x \<in> set records" "pr_identity x = pr_identity r" for x
        using that r(1) ef(2) by (auto simp: distinct_map inj_on_def)
      then show ?thesis using r by (auto simp: entry_closes_def entry_of_def)
    qed
    have writes: "entry_writes H records prior e \<longleftrightarrow> prior (pr_identity r) = None \<or> entry_closes H records prior e"
      using r by (simp add: entry_writes_def entry_of_def)
    have "cl1 = cl @ (if entry_closes H records prior e then [pr_identity r] else []) \<and> ch1 = ch @ (if entry_writes H records prior e then [r] else [])"
    proof (cases "prior (pr_identity r)")
      case None
      then show ?thesis using one found by (simp add: writes closes) (simp add: plan_entry_def r(2) entry_of_def)
    next
      case (Some old)
      then show ?thesis using one found
        by (simp add: writes closes) (auto simp: plan_entry_def r(2) entry_of_def changes_def evidence_def split: if_splits)
    qed
    then show ?thesis using IH r other by (auto simp: entry_of_def)
  qed
qed simp

lemma by_identity_None: "by_identity rows k = None \<longleftrightarrow> k \<notin> sv_identity ` set rows"
  by (auto simp: by_identity_def map_of_eq_None_iff image_image)

lemma close_identities_eq:
  "close_identities g n b cl vs = Inr vs' \<Longrightarrow> vs' = close_where g n (\<lambda>v. sv_identity v \<in> set cl \<and> vr_from v \<le> b) vs"
  by (auto simp: close_identities_def close_where_def intro!: map_idI [symmetric] split: if_splits)

lemma insert_changed_eq: "insert_changed H g n rows vs = Inr vs' \<Longrightarrow> vs' = vs @ map (version_of g n) rows"
  using insert_versions_step by (auto simp: insert_changed_def Let_def bindR_eq_Inr split: if_splits)

lemma rows_of_batch:
  "rows_of k (close_where g n (\<lambda>v. sv_identity v \<in> C \<and> vr_from v \<le> b) vs @ map (version_of g n \<circ> expected_row H) ch)
    = (if k \<in> C then close_where g n (\<lambda>v. vr_from v \<le> b) (rows_of k vs) else rows_of k vs)
      @ map (version_of g n \<circ> expected_row H) (filter (\<lambda>r. pr_identity r = k) ch)"
proof -
  have "rows_of k (close_where g n (\<lambda>v. sv_identity v \<in> C \<and> vr_from v \<le> b) vs)
      = (if k \<in> C then close_where g n (\<lambda>v. vr_from v \<le> b) (rows_of k vs) else rows_of k vs)"
    by (induction vs) (auto simp: rows_of_def close_where_def close_version_def)
  moreover have "rows_of k (map (version_of g n \<circ> expected_row H) ch) = map (version_of g n \<circ> expected_row H) (filter (\<lambda>r. pr_identity r = k) ch)"
    by (induction ch) (auto simp: rows_of_def version_of_def)
  ultimately show ?thesis by (simp add: rows_of_def)
qed

lemma one_open_row:
  "one_open g vs \<Longrightarrow> v \<in> set vs \<Longrightarrow> w \<in> set vs \<Longrightarrow> is_open g v \<Longrightarrow> is_open g w \<Longrightarrow> sv_identity v = sv_identity w \<Longrightarrow> v = w"
  by (auto simp: one_open_def distinct_map inj_on_def)

lemma version_of_simps [simp]: "is_open g (version_of g n r)" "evidence H (version_of g n r) = evidence H r"
  by (simp_all add: version_of_def is_open_def evidence_def)

text \<open>The rows of an identity that no batch has touched yet: they end at the base block.\<close>

definition untouched :: "int \<Rightarrow> int \<Rightarrow> string set \<Rightarrow> version_row list \<Rightarrow> bool" where
  "untouched g b K vs \<longleftrightarrow> (\<forall>v\<in>set vs. sv_identity v \<in> K \<and> vr_generation v = g \<longrightarrow> vr_from v \<le> b \<and> (\<forall>t. vr_to v = Some t \<longrightarrow> t \<le> b))"

lemma untouched_open: "untouched g b K vs \<Longrightarrow> v \<in> set vs \<Longrightarrow> sv_identity v \<in> K \<Longrightarrow> valid_at g b v \<longleftrightarrow> is_open g v"
  by (auto simp: untouched_def valid_at_def is_open_def split: option.splits)

lemma delta_batch_effect:
  fixes H i batch
  defines "g \<equiv> pi_generation i" and "n \<equiv> pi_blockNumber i" and "K \<equiv> set (map entry_identity batch)"
  assumes run: "write_delta_batch H i b batch (m, vs) = Inr (m', vs')" and entries: "entries_from H (delta_records H i) batch"
    and fresh: "untouched g b K vs" and open1: "one_open g vs"
  shows "(\<forall>k. k \<notin> K \<longrightarrow> rows_of k vs' = rows_of k vs)
    \<and> (\<forall>e\<in>set batch. opened H g (entry_identity e) vs' = entry_leaves H (delta_records H i) e)
    \<and> (\<forall>k. RemovedEntry k \<in> set batch \<longrightarrow> opened H g k vs \<noteq> {})"
proof -
  define rs where "rs = delta_records H i"
  define old where "old = filter (\<lambda>v. sv_identity v \<in> K \<and> valid_at g b v) vs"
  define prior where "prior = by_identity old"
  obtain m1 ch cl vs1 where plan: "foldR (plan_entry H rs prior) batch (m, [], []) = Inr (m1, ch, cl)"
    and closed: "close_identities g n b cl vs = Inr vs1" and inserted: "insert_changed H g n (map (expected_row H) ch) vs1 = Inr vs'"
    using run unfolding write_delta_batch_def rs_def prior_def old_def K_def g_def n_def by (auto simp: Let_def bindR_eq_Inr)
  have ef: "entries_from H rs batch" using entries by (simp add: rs_def)
  from plan_batch [OF plan ef] have cl: "set cl = entry_identity ` {e \<in> set batch. entry_closes H rs prior e}"
    and ch: "set ch = {r \<in> set rs. \<exists>e\<in>set batch. e = entry_of H r \<and> entry_writes H rs prior e}"
    and removed: "\<forall>k. RemovedEntry k \<in> set batch \<longrightarrow> prior k \<noteq> None" by auto
  have vs': "vs' = close_where g n (\<lambda>v. sv_identity v \<in> set cl \<and> vr_from v \<le> b) vs @ map (version_of g n \<circ> expected_row H) ch"
    using insert_changed_eq [OF inserted] close_identities_eq [OF closed] by simp
  note rows = rows_of_batch [of _ g n "set cl" b vs H ch, folded vs']
  have same_entry: "e = e'" if "e \<in> set batch" "e' \<in> set batch" "entry_identity e = entry_identity e'" for e e'
    using ef that by (auto simp: entries_from_def distinct_map inj_on_def)
  have same_record: "r = r'" if "r \<in> set rs" "r' \<in> set rs" "pr_identity r = pr_identity r'" for r r'
    using ef that by (auto simp: entries_from_def distinct_map inj_on_def)
  have "rows_of k vs' = rows_of k vs" if "k \<notin> K" for k
  proof -
    have "k \<notin> set cl" using that by (auto simp: cl K_def)
    moreover have "filter (\<lambda>r. pr_identity r = k) ch = []" using that ch by (auto simp: filter_empty_conv K_def entry_of_def image_iff)
    ultimately show ?thesis by (simp add: rows)
  qed
  moreover have prior: "prior k = Some v \<longleftrightarrow> v \<in> set vs \<and> is_open g v \<and> sv_identity v = k" if k: "k \<in> K" for k v
  proof
    assume "prior k = Some v"
    from by_identity_Some [OF this [unfolded prior_def]] show "v \<in> set vs \<and> is_open g v \<and> sv_identity v = k"
      using untouched_open [OF fresh] by (auto simp: old_def)
  next
    assume v: "v \<in> set vs \<and> is_open g v \<and> sv_identity v = k"
    then have "v \<in> set old" using k untouched_open [OF fresh, of v] by (simp add: old_def)
    then obtain w where w: "prior k = Some w" using v by_identity_None [of old k] by (auto simp: prior_def)
    from by_identity_Some [OF this [unfolded prior_def]] have "w \<in> set vs" "is_open g w" "sv_identity w = k"
      using untouched_open [OF fresh] by (auto simp: old_def)
    then have "w = v" using one_open_row [OF open1] v by blast
    with w show "prior k = Some v" by simp
  qed
  moreover have "opened H g k vs \<noteq> {}" if "RemovedEntry k \<in> set batch" for k
  proof -
    have "k \<in> K" using that by (force simp: K_def)
    moreover have "prior k \<noteq> None" using removed that by blast
    then obtain v where "prior k = Some v" by blast
    ultimately show ?thesis using prior by (auto simp: opened_def rows_of_def)
  qed
  moreover have "opened H g (entry_identity e) vs' = entry_leaves H rs e" if e: "e \<in> set batch" for e
  proof -
    define k where "k = entry_identity e"
    have k: "k \<in> K" using e by (simp add: k_def K_def)
    have in_cl: "k \<in> set cl \<longleftrightarrow> entry_closes H rs prior e" using same_entry e by (auto simp: cl k_def)
    have closes_all: "filter (is_open g) (close_where g n (\<lambda>v. vr_from v \<le> b) (rows_of k vs)) = []"
    proof -
      have "vr_from v \<le> b" if "v \<in> set (rows_of k vs)" "is_open g v" for v
        using fresh k that by (simp add: untouched_def rows_of_def is_open_def)
      then have "\<not> is_open g (if is_open g v \<and> vr_from v \<le> b then close_version n v else v)" if "v \<in> set (rows_of k vs)" for v
        using that by (cases "is_open g v") (simp_all add: is_open_def close_version_def)
      then show ?thesis unfolding filter_empty_conv close_where_def set_map by blast
    qed
    have new: "set (filter (\<lambda>r. pr_identity r = k) ch) = {r \<in> set rs. pr_identity r = k \<and> e = entry_of H r \<and> entry_writes H rs prior e}"
    proof -
      have of_k: "entry_of H r = e" if "entry_of H r \<in> set batch" "pr_identity r = k" for r
        using same_entry [OF that(1) e] that(2) by (simp add: k_def entry_of_def)
      show ?thesis unfolding set_filter ch using of_k e by blast
    qed
    have inserted: "evidence H ` set (filter (is_open g) (map (version_of g n \<circ> expected_row H) xs)) = input_evidence H ` set xs" for xs
      by (simp add: filter_map comp_def image_image input_evidence_def)
    have vs'_k: "opened H g k vs' = (if entry_closes H rs prior e then {} else opened H g k vs)
        \<union> input_evidence H ` {r \<in> set rs. pr_identity r = k \<and> e = entry_of H r \<and> entry_writes H rs prior e}"
      unfolding opened_def rows in_cl filter_append set_append image_Un inserted new
      by (cases "entry_closes H rs prior e") (simp_all only: if_True if_False closes_all list.set image_empty)
    consider (removal) "e = RemovedEntry k" | (change) r where "r \<in> set rs" "e = entry_of H r" "pr_identity r = k"
      using ef e by (auto simp: entries_from_def k_def entry_of_def)
    then have "opened H g k vs' = entry_leaves H rs e"
    proof cases
      case removal
      then show ?thesis by (simp add: vs'_k entry_closes_def entry_writes_def entry_leaves_def)
    next
      case (change r)
      note c = change
      have me: "{x \<in> set rs. pr_identity x = k} = {r}" "{x \<in> set rs. pr_identity x = k \<and> e = entry_of H x \<and> entry_writes H rs prior e}
          = (if entry_writes H rs prior e then {r} else {})"
        using c same_record by auto
      have leaves: "entry_leaves H rs e = {input_evidence H r}" using c me(1) by (simp add: entry_leaves_def entry_of_def)
      show ?thesis
      proof (cases "entry_writes H rs prior e")
        case True
        have "opened H g k vs = {}" if "\<not> entry_closes H rs prior e"
        proof -
          have "prior k = None" using True that c by (simp add: entry_writes_def entry_of_def)
          then show ?thesis using prior [OF k] by (auto simp: opened_def rows_of_def filter_empty_conv)
        qed
        then show ?thesis using True unfolding vs'_k me(2) leaves by simp
      next
        case False
        then have "\<not> entry_closes H rs prior e" "prior k \<noteq> None" using c by (auto simp: entry_writes_def entry_of_def)
        then obtain v where v: "prior k = Some v" "\<not> changes H v r" using c by (auto simp: entry_closes_def entry_of_def)
        then have v': "v \<in> set vs" "is_open g v" "sv_identity v = k" using prior [OF k] by auto
        have "opened H g k vs = {evidence H v}"
          using v' one_open_row [OF open1] by (auto simp: opened_def rows_of_def)
        also have "evidence H v = input_evidence H r"
          using v(2) v'(3) c(3) by (simp add: changes_def input_evidence_def evidence_def expected_row_def)
        finally show ?thesis using False \<open>\<not> entry_closes H rs prior e\<close> unfolding vs'_k me(2) leaves by simp
      qed
    qed
    then show ?thesis by (simp add: k_def)
  qed
  ultimately show ?thesis by (simp add: rs_def)
qed

lemma opened_cong: "rows_of k vs' = rows_of k vs \<Longrightarrow> opened H g k vs' = opened H g k vs"
  by (simp add: opened_def)

lemma untouched_cong:
  assumes "untouched g b L vs" and "\<forall>k\<in>L. rows_of k vs' = rows_of k vs" shows "untouched g b L vs'"
proof -
  have "v \<in> set vs" if "v \<in> set vs'" "sv_identity v \<in> L" for v
  proof -
    have "v \<in> set (rows_of (sv_identity v) vs')" using that by (simp add: rows_of_def)
    moreover have "rows_of (sv_identity v) vs' = rows_of (sv_identity v) vs" using assms(2) that(2) by blast
    ultimately have "v \<in> set (rows_of (sv_identity v) vs)" by simp
    then show ?thesis by (simp add: rows_of_def)
  qed
  then show ?thesis using assms(1) unfolding untouched_def by blast
qed

lemma entries_from_append:
  "entries_from H rs (xs @ ys) \<Longrightarrow> entries_from H rs xs \<and> entries_from H rs ys \<and> entry_identity ` set xs \<inter> entry_identity ` set ys = {}"
  by (auto simp: entries_from_def)

lemma delta_batches_effect:
  assumes "foldR (write_delta_batch H i b) bs (m, vs) = Inr (m', vs')" and "entries_from H (delta_records H i) (concat bs)"
    and "untouched (pi_generation i) b (entry_identity ` set (concat bs)) vs" and "one_open (pi_generation i) vs" and "b < pi_blockNumber i"
  shows "(\<forall>k. k \<notin> entry_identity ` set (concat bs) \<longrightarrow> rows_of k vs' = rows_of k vs)
    \<and> (\<forall>e\<in>set (concat bs). opened H (pi_generation i) (entry_identity e) vs' = entry_leaves H (delta_records H i) e)
    \<and> (\<forall>k. RemovedEntry k \<in> set (concat bs) \<longrightarrow> opened H (pi_generation i) k vs \<noteq> {})"
  using assms
proof (induction bs arbitrary: m vs)
  case (Cons x bs)
  from Cons.prems(1) obtain m1 vs1 where one: "write_delta_batch H i b x (m, vs) = Inr (m1, vs1)"
    and rest: "foldR (write_delta_batch H i b) bs (m1, vs1) = Inr (m', vs')" by (auto simp: bindR_eq_Inr)
  have ef: "entries_from H (delta_records H i) x" "entries_from H (delta_records H i) (concat bs)"
    "entry_identity ` set x \<inter> entry_identity ` set (concat bs) = {}"
    using entries_from_append [of H "delta_records H i" x "concat bs"] Cons.prems(2) by simp_all
  have u: "untouched (pi_generation i) b (set (map entry_identity x)) vs" using Cons.prems(3) by (auto simp: untouched_def)
  note first = delta_batch_effect [OF one ef(1) u Cons.prems(4)]
  have others: "rows_of k vs1 = rows_of k vs" if "k \<in> entry_identity ` set (concat bs)" for k
  proof -
    have "k \<notin> set (map entry_identity x)" using ef(3) that unfolding set_map by blast
    then show ?thesis using first by blast
  qed
  have "untouched (pi_generation i) b (entry_identity ` set (concat bs)) vs"
    using Cons.prems(3) by (auto simp: untouched_def)
  then have u1: "untouched (pi_generation i) b (entry_identity ` set (concat bs)) vs1"
    by (rule untouched_cong) (use others in blast)
  have o1: "one_open (pi_generation i) vs1"
    using delta_batch_step [OF one Cons.prems(5)] Cons.prems(4) by (simp add: versions_step_def)
  note later = Cons.IH [OF rest ef(2) u1 o1 Cons.prems(5)]
  show ?case
  proof (intro conjI allI ballI impI)
    fix k assume "k \<notin> entry_identity ` set (concat (x # bs))"
    then have "k \<notin> set (map entry_identity x)" "k \<notin> entry_identity ` set (concat bs)"
      unfolding concat.simps set_append image_Un set_map by blast+
    then show "rows_of k vs' = rows_of k vs" using first later by metis
  next
    fix e assume "e \<in> set (concat (x # bs))"
    then consider "e \<in> set x" | "e \<in> set (concat bs)" by auto
    then show "opened H (pi_generation i) (entry_identity e) vs' = entry_leaves H (delta_records H i) e"
    proof cases
      case 1
      then have "entry_identity e \<notin> entry_identity ` set (concat bs)" using ef(3) by blast
      then show ?thesis using later first 1 opened_cong by metis
    qed (use later in blast)
  next
    fix k assume "RemovedEntry k \<in> set (concat (x # bs))"
    then consider "RemovedEntry k \<in> set x" | "RemovedEntry k \<in> set (concat bs)" by auto
    then show "opened H (pi_generation i) k vs \<noteq> {}"
    proof cases
      case 2
      then have "k \<in> entry_identity ` set (concat bs)" by force
      then show ?thesis using 2 later others opened_cong by metis
    qed (use first in blast)
  qed
qed (simp add: entries_from_def)

section \<open>A new delta overlays its base\<close>

definition overlay :: "host \<Rightarrow> delta_input \<Rightarrow> (string \<times> string \<times> string \<times> string) set \<Rightarrow> (string \<times> string \<times> string \<times> string) set" where
  "overlay H i E = {e \<in> E. fst e \<notin> set (di_removed i) \<union> pr_identity ` set (pi_records i)} \<union> input_evidence H ` set (pi_records i)"

lemma delta_entries_from:
  assumes "validateDelta H i = Inr ()"
  shows "entries_from H (delta_records H i) (delta_entries H i)
    \<and> set (delta_entries H i) = entry_of H ` set (pi_records i) \<union> RemovedEntry ` set (di_removed i)"
proof -
  have records: "distinct (map pr_identity (pi_records i))"
    using assms validateInput_distinct by (auto simp: validateDelta_def bindR_eq_Inr)
  have removed: "distinct (di_removed i)" "set (di_removed i) \<inter> pr_identity ` set (pi_records i) = {}"
    using assms by (auto simp: validateDelta_def bindR_eq_Inr list_ex_iff split: if_splits)
  have set: "set (delta_entries H i) = entry_of H ` set (pi_records i) \<union> RemovedEntry ` set (di_removed i)"
    by (simp add: delta_entries_def delta_records_def)
  have ids: "map entry_identity (map (entry_of H) xs) = map pr_identity xs" "map entry_identity (map RemovedEntry ys) = ys" for xs ys
    by (simp_all add: entry_of_def comp_def)
  have "distinct (map entry_identity (delta_entries H i))"
    unfolding delta_entries_def delta_records_def distinct_map_js_sort map_append ids distinct_append
    using records removed by auto
  then show ?thesis using set records by (auto simp: entries_from_def delta_records_def)
qed

lemma evidence_fst [simp]: "fst (evidence H v) = sv_identity v"
  by (simp add: evidence_def)

lemma opened_union: "evidence H ` set (filter (is_open g) vs) = (\<Union>k. opened H g k vs)"
  by (auto simp: opened_def rows_of_def)

lemma opened_identity: "e \<in> opened H g k vs \<Longrightarrow> fst e = k"
  by (auto simp: opened_def rows_of_def)

lemma opened_member: "e \<in> evidence H ` set (filter (is_open g) vs) \<longleftrightarrow> e \<in> opened H g (fst e) vs"
  unfolding opened_union using opened_identity by blast

lemma delta_overlay:
  assumes run: "foldR (write_delta_batch H i b) (chunks (delta_entries H i) 250) (m, vs) = Inr (m', vs')"
    and valid: "validateDelta H i = Inr ()" and upto: "versions_upto (pi_generation i) b vs"
    and open1: "one_open (pi_generation i) vs" and b: "b < pi_blockNumber i"
  shows "carries H (filter (valid_at (pi_generation i) (pi_blockNumber i)) vs')
      (overlay H i (evidence H ` set (filter (valid_at (pi_generation i) b) vs)))
    \<and> set (di_removed i) \<subseteq> fst ` evidence H ` set (filter (valid_at (pi_generation i) b) vs)"
proof -
  define g where "g = pi_generation i"
  have concat: "concat (chunks (delta_entries H i) 250) = delta_entries H i" by (rule chunks_concat) simp
  note es = delta_entries_from [OF valid]
  have "untouched g b (entry_identity ` set (delta_entries H i)) vs" using upto by (auto simp: untouched_def versions_upto_def g_def)
  note effect = delta_batches_effect [OF run, unfolded concat, OF conjunct1 [OF es] this [unfolded g_def] open1 b, folded g_def]
  have step: "versions_step g (pi_blockNumber i) vs vs'" using delta_batches_step [OF run b] by (simp add: g_def)
  have upto': "versions_upto g (pi_blockNumber i) vs'"
  proof -
    have "\<forall>m\<le>pi_blockNumber i. versions_upto g m vs \<longrightarrow> versions_upto g (pi_blockNumber i) vs'" using step by (simp add: versions_step_def)
    then show ?thesis using upto b unfolding g_def by (meson less_imp_le)
  qed
  have now: "filter (valid_at g (pi_blockNumber i)) vs' = filter (is_open g) vs'" by (rule valid_at_open [OF upto'])
  have base: "filter (valid_at g b) vs = filter (is_open g) vs" by (rule valid_at_open) (use upto g_def in simp)
  define D where "D = set (di_removed i) \<union> pr_identity ` set (pi_records i)"
  have D: "entry_identity ` set (delta_entries H i) = D" using es by (auto simp: D_def entry_of_def image_Un image_image)
  have records: "pr_identity r = pr_identity r' \<Longrightarrow> r \<in> set (pi_records i) \<Longrightarrow> r' \<in> set (pi_records i) \<Longrightarrow> r = r'" for r r'
    using es by (auto simp: entries_from_def delta_records_def distinct_map inj_on_def)
  have changed: "opened H g (pr_identity r) vs' = {input_evidence H r}" if r: "r \<in> set (pi_records i)" for r
  proof -
    have "entry_of H r \<in> set (delta_entries H i)" using es r by blast
    then have "opened H g (entry_identity (entry_of H r)) vs' = entry_leaves H (delta_records H i) (entry_of H r)" using effect by blast
    moreover have "{x \<in> set (delta_records H i). pr_identity x = pr_identity r} = {r}" using records r by (auto simp: delta_records_def)
    ultimately show ?thesis by (simp add: entry_of_def entry_leaves_def)
  qed
  have gone: "opened H g k vs' = {}" if "k \<in> set (di_removed i)" for k
  proof -
    have "RemovedEntry k \<in> set (delta_entries H i)" using es that by blast
    then show ?thesis using effect by (force simp: entry_leaves_def)
  qed
  have kept: "opened H g k vs' = opened H g k vs" if "k \<notin> D" for k
  proof -
    have "rows_of k vs' = rows_of k vs" using effect that unfolding D by blast
    then show ?thesis by (rule opened_cong)
  qed
  have "evidence H ` set (filter (is_open g) vs') = overlay H i (evidence H ` set (filter (is_open g) vs))"
  proof (rule set_eqI)
    fix e
    have "e \<in> opened H g (fst e) vs' \<longleftrightarrow> e \<in> overlay H i (evidence H ` set (filter (is_open g) vs))"
    proof (cases "fst e \<in> D")
      case False
      then have "e \<notin> input_evidence H ` set (pi_records i)" by (auto simp: D_def)
      then show ?thesis using False kept [of "fst e"] unfolding overlay_def D_def [symmetric] by (simp add: opened_member del: set_filter image_iff)
    next
      case True
      then show ?thesis
      proof (cases "fst e \<in> set (di_removed i)")
        case gone': True
        have "\<not> (\<exists>r\<in>set (pi_records i). pr_identity r = fst e)"
          using valid gone' by (auto simp: validateDelta_def bindR_eq_Inr list_ex_iff split: if_splits)
        then show ?thesis using gone [OF gone'] True by (auto simp: overlay_def D_def)
      next
        case False
        then obtain r where r: "r \<in> set (pi_records i)" "fst e = pr_identity r" using True by (auto simp: D_def)
        have "e = input_evidence H r' \<longleftrightarrow> r' = r \<and> e = input_evidence H r" if "r' \<in> set (pi_records i)" for r'
          using records [of r' r] that r by auto
        then have "e \<in> input_evidence H ` set (pi_records i) \<longleftrightarrow> e = input_evidence H r" using r(1) by blast
        then show ?thesis using changed [OF r(1)] r True by (auto simp: overlay_def D_def)
      qed
    qed
    then show "e \<in> evidence H ` set (filter (is_open g) vs') \<longleftrightarrow> e \<in> overlay H i (evidence H ` set (filter (is_open g) vs))"
      by (simp only: opened_member)
  qed
  moreover have "one_open g vs'" using step open1 by (simp add: versions_step_def g_def)
  moreover have "set (di_removed i) \<subseteq> fst ` evidence H ` set (filter (is_open g) vs)"
  proof
    fix k assume "k \<in> set (di_removed i)"
    then have "RemovedEntry k \<in> set (delta_entries H i)" using es by blast
    then have "opened H g k vs \<noteq> {}" using effect by blast
    then obtain e where "e \<in> opened H g k vs" by blast
    then show "k \<in> fst ` evidence H ` set (filter (is_open g) vs)"
      unfolding opened_union using opened_identity by (metis UN_I UNIV_I image_eqI)
  qed
  ultimately show ?thesis unfolding carries_def g_def [symmetric] now base one_open_def by simp
qed

end
