(* ===== verification/Projection_Storage.thy ===== *)
theory Projection_Storage imports Projection_Overlay begin

text \<open>
  An invariant of the projections: a revision kept as market versions has no stored records. A publication
  of records that meets it fails, because the canonical texts of the two payloads differ: they have different
  numbers of quotes.
\<close>

section \<open>Stored records and versions never mix\<close>

text \<open>Payloads with and without \<open>storage\<close> differ in their canonical text: it has more quotes.\<close>

definition quotes :: "string \<Rightarrow> nat" where
  "quotes s = length (filter (\<lambda>c. c = CHR 0x22) s)"

lemma quotes_append [simp]: "quotes (s @ t) = quotes s + quotes t"
  by (simp add: quotes_def)

lemma quotes_literals [simp]: "quotes [] = 0" "quotes (c # s) = (if c = CHR 0x22 then 1 else 0) + quotes s"
  by (simp_all add: quotes_def)

lemma quotes_quoted: "2 \<le> quotes (quoted s)"
  by (simp add: quoted_def)

lemma plain_char: "45 \<le> code_of c \<Longrightarrow> code_of c \<noteq> 92 \<Longrightarrow> escape_char c = [c] \<and> c \<noteq> CHR 0x22"
proof -
  assume c: "45 \<le> code_of c" "code_of c \<noteq> 92"
  have codes: "code_of (CHR 0x22) = 34" "code_of (CHR 0x5C) = 92" "code_of (CHR 0x08) = 8" "code_of (CHR 0x0C) = 12"
    "code_of (CHR 0x0A) = 10" "code_of (CHR 0x0D) = 13" "code_of (CHR 0x09) = 9"
    by (simp_all add: code_of_def)
  have "c \<noteq> CHR 0x22" "c \<noteq> CHR 0x5C" "c \<noteq> CHR 0x08" "c \<noteq> CHR 0x0C" "c \<noteq> CHR 0x0A" "c \<noteq> CHR 0x0D" "c \<noteq> CHR 0x09"
    using c codes by auto
  with c show ?thesis by (simp add: escape_char_def)
qed

definition plain :: "char \<Rightarrow> bool" where
  "plain c \<longleftrightarrow> 45 \<le> code_of c \<and> code_of c \<noteq> 92"

lemma token_plain: "is_token_char c \<Longrightarrow> plain c"
  unfolding is_token_char_def
  by (elim disjE) (auto simp: plain_def is_lower_alpha_def is_digit_def code_of_def)

lemma quotes_token: "list_all plain s \<Longrightarrow> quotes (quoted s) = 2"
proof -
  have "list_all plain s \<Longrightarrow> quotes (concat (map escape_char s)) = 0"
  proof (induction s)
    case (Cons c s)
    then show ?case using plain_char [of c] by (simp add: plain_def)
  qed simp
  then show "list_all plain s \<Longrightarrow> ?thesis" by (simp add: quoted_def)
qed

lemma quotes_show_int: "quotes (quoted (show_int n)) = 2"
proof (rule quotes_token)
  have "list_all plain (show_nat k)" for k
    using digits_show_nat [of k] by (auto simp: list_all_iff is_digit_def plain_def code_of_def)
  then show "list_all plain (show_int n)" by (simp add: show_int_def) (simp add: plain_def code_of_def)
qed

lemma quotes_comma: "quotes (comma_separated xs) = (\<Sum>x\<leftarrow>xs. quotes x)"
  by (induction xs rule: comma_separated.induct) simp_all

lemma quotes_object: "quotes (stableStringify H (JObject fs)) = (\<Sum>(k, v)\<leftarrow>fs. quotes (quoted k) + quotes (stableStringify H v))"
proof -
  define ts where "ts = map (\<lambda>(k, v). (k, stableStringify H v)) fs"
  define sorted where "sorted = js_sort (\<lambda>a b. h_localeCompare H (fst a) (fst b)) ts"
  have "quotes (stableStringify H (JObject fs)) = (\<Sum>(k, t)\<leftarrow>sorted. quotes (quoted k) + quotes t)"
    by (simp only: stableStringify.simps quotes_append quotes_literals quotes_comma sorted_def [symmetric] ts_def [symmetric])
      (simp add: comp_def case_prod_unfold)
  also have "\<dots> = (\<Sum>(k, t)\<leftarrow>ts. quotes (quoted k) + quotes t)"
    unfolding sum_mset_sum_list [symmetric] mset_map sorted_def mset_js_sort ..
  finally show ?thesis by (simp add: ts_def comp_def case_prod_unfold)
qed

lemma quotes_coverage: "quotes (stableStringify H (coverage_json i)) = 8"
  unfolding coverage_json_def quotes_object
  by (simp add: quotes_show_int) (simp add: quotes_token plain_def code_of_def)

lemma quotes_keys:
  "quotes (quoted ''algorithmVersion'') = 2" "quotes (quoted ''coverage'') = 2" "quotes (quoted ''recordCount'') = 2"
  by (rule quotes_token, simp add: plain_def code_of_def)+

lemma quotes_number: "quotes (stableStringify H (JNumber n)) = 0"
proof -
  have "quotes (show_nat k) = 0" for k
    using digits_show_nat [of k] by (auto simp: list_all_iff quotes_def filter_empty_conv is_digit_def code_of_def)
  then show ?thesis by (simp add: show_int_def)
qed

lemma quotes_plain:
  assumes "\<not> pi_incremental i" and "is_token (pi_algorithmVersion i)"
  shows "quotes (stableStringify H (publication_payload i)) = 16"
proof -
  have "quotes (quoted (pi_algorithmVersion i)) = 2" using assms(2) by (intro quotes_token) (auto simp: is_token_def list_all_iff token_plain)
  then show ?thesis
    using assms(1) quotes_number [of H "int (length (pi_records i))"]
    by (simp add: publication_payload_def quotes_object quotes_coverage quotes_keys del: stableStringify.simps(3,7))
qed

lemma quotes_incremental: "pi_incremental i \<Longrightarrow> 20 \<le> quotes (stableStringify H (publication_payload i))"
  using quotes_quoted [of "''algorithmVersion''"] quotes_quoted [of "''coverage''"] quotes_quoted [of "''recordCount''"]
    quotes_quoted [of "''storage''"] quotes_quoted [of "pi_algorithmVersion i"] quotes_quoted [of "''market-versions-v1''"]
  by (simp add: publication_payload_def quotes_object quotes_coverage del: stableStringify.simps(3,7))

lemma quotes_delta: "20 \<le> quotes (stableStringify H (delta_payload H i base))"
  using quotes_quoted [of "''deltaDepth''"] quotes_quoted [of "''algorithmVersion''"] quotes_quoted [of "''coverage''"]
    quotes_quoted [of "''storage''"] quotes_quoted [of "''recordCount''"] quotes_quoted [of "''commitment''"]
    quotes_quoted [of "''baseRevision''"] quotes_quoted [of "''baseDigest''"]
  by (simp add: delta_payload_def quotes_object quotes_coverage del: stableStringify.simps(3,6,7))

definition storage_ok :: "host \<Rightarrow> projection_db \<Rightarrow> bool" where
  "storage_ok H pdb \<longleftrightarrow> (\<forall>p\<in>set (pd_publications pdb). uses_versions p \<longrightarrow> 20 \<le> quotes (stableStringify H (pu_payload p))
     \<and> (\<forall>r\<in>set (pd_records pdb). \<not> (rr_scope r = pu_scope p \<and> rr_revision r = pu_revision p)))"

lemma fresh_records:
  assumes "tables_ok pdb" and "find (is_publication scope revision) (pd_publications pdb) = None" and "r \<in> set (pd_records pdb)"
  shows "\<not> (rr_scope r = scope \<and> rr_revision r = revision)"
proof -
  have "(rr_scope r, rr_revision r) \<in> publication_keys pdb" using assms(1,3) unfolding tables_ok_def by blast
  then show ?thesis using assms(2) by (auto simp: publication_keys_def find_None_iff is_publication_def)
qed

lemma full_storage_ok:
  assumes run: "publishProjection H collate i db pdb = Inr (pdb', result)" and tables: "tables_ok pdb" and ok: "storage_ok H pdb"
  shows "storage_ok H pdb'"
proof -
  define d where "d = stable_digest H (JArray (map record_json (js_sort (compare_records H) (pi_records i))))"
  define p0 where "p0 = publication_of i d (publication_payload i)"
  obtain pdb1 pdb2 duplicate where p: "validateInput H i = Inr ()" "enter_publication H i d pdb = Inr (pdb1, duplicate)"
    "write_all H collate i d (map (expected_row H) (js_sort (compare_records H) (pi_records i))) pdb1 = Inr pdb2"
    "pdb' = upsert_checkpoint (checkpoint_of i) (set_pointer (pi_scope i) (revision_of i) pdb2)"
    unfolding d_def by (rule publishProjection_parts [OF run]) blast
  have same: "pd_publications pdb' = pd_publications pdb2" "pd_records pdb' = pd_records pdb2"
    using upsert_checkpoint_only [of "checkpoint_of i" "set_pointer (pi_scope i) (revision_of i) pdb2"] p(4) by (auto simp: set_pointer_def)
  note step = write_all_step [OF p(3) validateInput_scope [OF p(1)]]
  have pubs2: "pd_publications pdb2 = pd_publications pdb1" using step by (simp add: publication_step_def)
  obtain rs where rs: "pd_records pdb2 = pd_records pdb1 @ rs" "\<forall>r\<in>set rs. rr_scope r = pi_scope i \<and> rr_revision r = revision_of i"
    using step unfolding publication_step_def by blast
  have incremental: "rs = []" if "pi_incremental i"
  proof -
    have "pi_scope i \<noteq> ''configs''" using that validateInput_scope [OF p(1)] by simp
    then have "pd_records pdb2 = pd_records pdb1"
      using p(3) that by (auto simp: write_all_def Let_def bindR_eq_Inr close_absent_def dest: write_versions_batches)
    then show ?thesis using rs(1) by simp
  qed
  have token: "is_token (pi_algorithmVersion i)" using p(1) by (auto simp: validateInput_def split: if_splits)
  show ?thesis
  proof (cases "find (is_publication (pi_scope i) (revision_of i)) (pd_publications pdb)")
    case None
    then have pdb1: "pdb1 = pdb\<lparr>pd_publications := pd_publications pdb @ [p0]\<rparr>" using p(2) by (simp add: enter_publication_def p0_def)
    have new: "20 \<le> quotes (stableStringify H (pu_payload p0)) \<and> (\<forall>r\<in>set (pd_records pdb2). \<not> (rr_scope r = pu_scope p0 \<and> rr_revision r = pu_revision p0))"
      if "uses_versions p0"
    proof -
      have inc: "pi_incremental i" using that unfolding p0_def uses_versions_full by simp
      have "pu_scope p0 = pi_scope i" "pu_revision p0 = revision_of i" "pu_payload p0 = publication_payload i"
        by (simp_all add: p0_def publication_of_def)
      then show ?thesis using quotes_incremental [OF inc] fresh_records [OF tables None] rs(1) incremental [OF inc] by (simp add: pdb1)
    qed
    have before: "20 \<le> quotes (stableStringify H (pu_payload p)) \<and> (\<forall>r\<in>set (pd_records pdb2). \<not> (rr_scope r = pu_scope p \<and> rr_revision r = pu_revision p))"
      if "p \<in> set (pd_publications pdb)" "uses_versions p" for p
    proof -
      have "\<not> (pi_scope i = pu_scope p \<and> revision_of i = pu_revision p)" using None that(1) by (auto simp: find_None_iff is_publication_def)
      then show ?thesis using ok that rs by (auto simp: storage_ok_def pdb1)
    qed
    have "pd_publications pdb2 = pd_publications pdb @ [p0]" by (simp add: pubs2 pdb1)
    then show ?thesis unfolding storage_ok_def same using before new by auto
  next
    case (Some x)
    then have pdb1: "pdb1 = pdb" and same_text: "stableStringify H (pu_payload x) = stableStringify H (publication_payload i)"
      using p(2) by (auto simp: enter_publication_def split: if_splits)
    have x: "x \<in> set (pd_publications pdb)" "pu_scope x = pi_scope i" "pu_revision x = revision_of i"
      using find_member [OF Some] by (simp_all add: is_publication_def)
    have "\<not> (rr_scope r = pu_scope p \<and> rr_revision r = pu_revision p)"
      if p: "p \<in> set (pd_publications pdb)" "uses_versions p" and r: "r \<in> set rs" for p r
    proof
      assume key: "rr_scope r = pu_scope p \<and> rr_revision r = pu_revision p"
      have "rr_scope r = pi_scope i \<and> rr_revision r = revision_of i" using rs(2) r by blast
      then have "pu_scope p = pu_scope x" "pu_revision p = pu_revision x" using key x by metis+
      then have "p = x" by (rule keys_row [OF tables p(1) x(1)])
      moreover have "20 \<le> quotes (stableStringify H (pu_payload p))" using ok p by (simp add: storage_ok_def)
      ultimately have "20 \<le> quotes (stableStringify H (publication_payload i))" using same_text by metis
      moreover have "\<not> pi_incremental i" using incremental r by auto
      then have "quotes (stableStringify H (publication_payload i)) = 16" using token by (rule quotes_plain)
      ultimately show False by simp
    qed
    moreover have "pd_publications pdb' = pd_publications pdb" "pd_records pdb' = pd_records pdb @ rs"
      by (simp_all add: same pubs2 pdb1 rs(1))
    ultimately show ?thesis using ok unfolding storage_ok_def by (simp add: ball_Un)
  qed
qed

lemma delta_storage_ok:
  assumes run: "publishMarketDelta H i db pdb = Inr (pdb', result)" and tables: "tables_ok pdb" and ok: "storage_ok H pdb"
  shows "storage_ok H pdb'"
proof (cases "pdb' = pdb")
  case False
  obtain base n population vs where p: "find (is_publication ''markets'' (revision_of i)) (pd_publications pdb) = None"
    "validateDelta H i = Inr ()"
    "pdb' = update_checkpoint (checkpoint_of i) (set_pointer ''markets'' (revision_of i) (pdb\<lparr>pd_versions := vs, pd_publications :=
       pd_publications pdb @ [publication_of i (stable_digest H (delta_payload H i base)) (delta_payload H i base)]\<rparr>))"
    by (rule publishMarketDelta_parts [OF run disjI1 [OF False]]) blast
  define p0 where "p0 = publication_of i (stable_digest H (delta_payload H i base)) (delta_payload H i base)"
  have "pi_scope i = ''markets''" using p(2) by (auto simp: validateDelta_def res_simps)
  then have p0: "pu_scope p0 = ''markets''" "pu_revision p0 = revision_of i" "pu_payload p0 = delta_payload H i base"
    by (simp_all add: p0_def publication_of_def)
  have same: "pd_publications pdb' = pd_publications pdb @ [p0]" "pd_records pdb' = pd_records pdb"
    by (simp_all add: p(3) update_checkpoint_def set_pointer_def p0_def)
  show ?thesis using ok fresh_records [OF tables p(1)] quotes_delta [of H i base] p0 unfolding storage_ok_def same by auto
qed (use ok in simp)

lemma invalidate_storage_ok:
  assumes "invalidateOrphanedPublications dp g sch db pdb = Inr (pdb', k)" and "storage_ok H pdb" shows "storage_ok H pdb'"
proof -
  have "pdb' = fold (invalidate_pointer dp g) (orphaned_pointers db pdb) pdb"
    using assms(1) by (auto simp: invalidateOrphanedPublications_def Let_def res_simps)
  then obtain ps ivs cs where "pdb' = pdb\<lparr>pd_pointers := ps, pd_invalidations := ivs, pd_checkpoints := cs\<rparr>"
    using invalidate_frame by metis
  then show ?thesis using assms(2) by (simp add: storage_ok_def)
qed

lemma step_storage_ok:
  assumes "projection_step hdr dp stream H collate e s t" and "state_ok hdr dp stream s" and "storage_ok H (snd s)"
  shows "storage_ok H (snd t)"
  using assms
  by (induction rule: projection_step.induct)
    (auto simp: state_ok_def projection_ok_def dest: full_storage_ok delta_storage_ok invalidate_storage_ok)

lemma run_storage_ok: "projection_run hdr dp stream H collate es s t \<Longrightarrow> state_ok hdr dp stream s \<Longrightarrow> storage_ok H (snd s) \<Longrightarrow> storage_ok H (snd t)"
proof (induction rule: projection_run.induct)
  case (run_step es s t e u)
  then show ?case using step_storage_ok [OF run_step.hyps(2)] run_ok [OF run_step.hyps(1)] by blast
qed simp

lemma filter_single: "distinct xs \<Longrightarrow> x \<in> set xs \<Longrightarrow> filter (\<lambda>y. y = x) xs = [x]"
  by (induction xs) (auto simp: filter_empty_conv)

lemma market_rows:
  assumes tables: "tables_ok pdb" and "storage_ok H pdb" and q: "q \<in> set (pd_publications pdb)" "uses_versions q"
  shows "read_records pdb ''markets'' (pu_revision q)
    = map saved_record.truncate (filter (valid_at (pu_generation q) (pu_blockNumber q)) (pd_versions pdb))"
proof -
  have scope: "pu_scope q = ''markets''" using q(2) by (simp add: uses_versions_def)
  have "filter (\<lambda>r. rr_scope r = ''markets'' \<and> rr_revision r = pu_revision q) (pd_records pdb) = []"
    using assms(2) q scope by (auto simp: storage_ok_def filter_empty_conv)
  moreover have "filter (\<lambda>p. uses_versions p \<and> pu_scope p = ''markets'' \<and> pu_revision p = pu_revision q) (pd_publications pdb) = [q]"
  proof -
    have "filter (\<lambda>p. uses_versions p \<and> pu_scope p = ''markets'' \<and> pu_revision p = pu_revision q) (pd_publications pdb)
        = filter (\<lambda>p. p = q) (pd_publications pdb)"
      by (rule filter_cong [OF refl]) (use keys_row [OF tables _ q(1)] q(2) scope in auto)
    moreover have "distinct (pd_publications pdb)" using tables by (auto simp: tables_ok_def distinct_map)
    then have "filter (\<lambda>p. p = q) (pd_publications pdb) = [q]" using q(1) by (rule filter_single)
    ultimately show ?thesis by simp
  qed
  ultimately show ?thesis by (simp add: read_records_def)
qed

end
