(* ===== verification/Projection_Readback.thy ===== *)
theory Projection_Readback imports Projection_Storage begin

text \<open>
  What is published can be read back: for complete publications, and for market deltas over their base, in
  every reachable state of the store and its projections.
\<close>

lemma start_storage_ok: "storage_ok H (snd (empty_chain, empty_projection))"
  by (simp add: storage_ok_def empty_projection_def)

lemma run_start:
  assumes "projection_run hdr dp stream H collate es (empty_chain, empty_projection) (db, pdb)"
  shows "ledger_ok hdr (dp_activationBlock dp) stream db \<and> tables_ok pdb \<and> generations_ok hdr stream db pdb \<and> storage_ok H pdb"
  using run_ok [OF assms start_ok] run_storage_ok [OF assms start_ok start_storage_ok]
  by (simp add: state_ok_def projection_ok_def)

text \<open>C22: What is published can be read back. In every reachable state, a new publication moves the pointer
  of its scope to its revision, and what the readers' view returns for that revision is exactly the
  submitted records, whichever way they are stored: one row per identity with the record's sort key, digest
  and canonical payload for rows and incremental versions, and the same evidence text for config sets.
  The count it returns is the number of records.\<close>

theorem publication_reads_back:
  assumes "projection_run hdr dp stream H collate es (empty_chain, empty_projection) (db, pdb)"
    and "publishProjection H collate i db pdb = Inr (pdb', (revision, False, n))"
  shows "revision = revision_of i \<and> n = int (length (pi_records i)) \<and> map_of (pd_pointers pdb') (pi_scope i) = Some revision
    \<and> published_rows H collate i (read_records pdb' (pi_scope i) revision)"
proof -
  obtain pdb2 where p: "pdb' = upsert_checkpoint (checkpoint_of i) (set_pointer (pi_scope i) (revision_of i) pdb2)"
    "(revision, False, n) = (revision_of i, False, int (length (pi_records i)))"
    by (rule publishProjection_parts [OF assms(2)]) blast
  have "pd_pointers pdb' = AList.update (pi_scope i) (revision_of i) (pd_pointers pdb2)"
    using upsert_checkpoint_only [of "checkpoint_of i" "set_pointer (pi_scope i) (revision_of i) pdb2"] p(1) by (auto simp: set_pointer_def)
  then show ?thesis using full_reads [OF assms(2)] run_start [OF assms(1)] p(2) by (simp add: update_conv)
qed

text \<open>C33: A market delta is its base overlaid with the change. In every reachable state, the revision that a
  new delta publishes reads the records of its base revision, less the removed and the changed identities,
  plus the submitted records, one row per identity; every removed identity was in the base; and the
  count it returns is the number of rows. So a reader of the delta gets what a complete publication of the same
  population would have stored, although only the changes were sent and written.\<close>

theorem delta_overlays_base:
  assumes "projection_run hdr dp stream H collate es (empty_chain, empty_projection) (db, pdb)" and "stream_of i = stream"
    and "publishMarketDelta H i db pdb = Inr (pdb', (revision, False, n))"
  shows "carries H (read_records pdb' ''markets'' revision)
      (overlay H i (evidence H ` set (read_records pdb ''markets'' (di_baseRevision i))))
    \<and> set (di_removed i) \<subseteq> sv_identity ` set (read_records pdb ''markets'' (di_baseRevision i))
    \<and> int (length (read_records pdb' ''markets'' revision)) = n \<and> map_of (pd_pointers pdb') ''markets'' = Some revision"
proof -
  have ledger: "ledger_ok hdr (dp_activationBlock dp) stream db" and tables: "tables_ok pdb"
    and gens: "generations_ok hdr stream db pdb" and storage: "storage_ok H pdb" using run_start [OF assms(1)] by simp_all
  obtain base m population vs where p: "validateDelta H i = Inr ()" "assertAnchor i db = Inr ()" "delta_base i db pdb = Inr (base, m)"
    "find (is_publication ''markets'' (revision_of i)) (pd_publications pdb) = None"
    "map_of (pd_pointers pdb) ''markets'' = Some (di_baseRevision i)"
    "foldR (write_delta_batch H i (pu_blockNumber base)) (chunks (delta_entries H i) 250) (m, pd_versions pdb) = Inr (population, vs)"
    "pdb' = update_checkpoint (checkpoint_of i) (set_pointer ''markets'' (revision_of i) (pdb\<lparr>pd_versions := vs, pd_publications :=
       pd_publications pdb @ [publication_of i (stable_digest H (delta_payload H i base)) (delta_payload H i base)]\<rparr>))"
    "int (length (filter (valid_at (pi_generation i) (pi_blockNumber i)) vs)) = population"
    "(revision, False, n) = (revision_of i, False, population)"
    by (rule publishMarketDelta_parts [OF assms(3)]) simp_all
  have scope: "pi_scope i = ''markets''" using p(1) by (auto simp: validateDelta_def res_simps)
  note base = delta_base_facts [OF p(3)]
  have current: "current_publication ''markets'' pdb = Some base"
    using current_publicationI [OF tables, of base] base p(5) by (simp add: is_publication_def)
  obtain c where c: "map_of (cd_checkpoints db) stream = Some c" "ck_generation c = pi_generation i"
    using anchor_facts [of "input_of i" db hdr "dp_activationBlock dp" stream] p(2) ledger assms(2) by (auto simp: input_of_simps)
  have upto: "versions_upto (pi_generation i) (pu_blockNumber base) (pd_versions pdb)"
    using versions_bounded [OF gens c(1)] current c(2) by simp
  have open1: "one_open (pi_generation i) (pd_versions pdb)" using gens c by (simp add: generations_ok_def)
  note effect = delta_overlay [OF p(6,1) upto open1]
  have old: "read_records pdb ''markets'' (di_baseRevision i)
      = map saved_record.truncate (filter (valid_at (pi_generation i) (pu_blockNumber base)) (pd_versions pdb))"
    using market_rows [OF tables storage, of base] base by (simp add: is_publication_def)
  define p0 where "p0 = publication_of i (stable_digest H (delta_payload H i base)) (delta_payload H i base)"
  have p0: "pu_scope p0 = ''markets''" "pu_revision p0 = revision_of i" "pu_generation p0 = pi_generation i"
    "pu_blockNumber p0 = pi_blockNumber i" "uses_versions p0"
    using scope by (simp_all add: p0_def publication_of_def uses_versions_def delta_payload_def)
  have same: "pd_publications pdb' = pd_publications pdb @ [p0]" "pd_records pdb' = pd_records pdb" "pd_versions pdb' = vs"
    "pd_pointers pdb' = AList.update ''markets'' (revision_of i) (pd_pointers pdb)"
    by (simp_all add: p(7) update_checkpoint_def set_pointer_def p0_def)
  have "read_records pdb' ''markets'' (revision_of i) = map saved_record.truncate (filter (valid_at (pi_generation i) (pi_blockNumber i)) vs)"
  proof -
    have "filter (\<lambda>r. rr_scope r = ''markets'' \<and> rr_revision r = revision_of i) (pd_records pdb) = []"
      using fresh_records [OF tables p(4)] by (auto simp: filter_empty_conv)
    moreover have "filter (\<lambda>p. uses_versions p \<and> pu_scope p = ''markets'' \<and> pu_revision p = revision_of i) (pd_publications pdb) = []"
      using p(4) by (auto simp: filter_empty_conv find_None_iff is_publication_def)
    ultimately show ?thesis using p0 by (simp add: read_records_def same)
  qed
  moreover have "revision = revision_of i" "n = population" using p(9) by simp_all
  moreover have "fst ` evidence H ` A = sv_identity ` A" for A :: "version_row set" by (simp add: image_image)
  ultimately show ?thesis
    using effect base p(8) unfolding old by (simp add: same image_image update_conv)
qed

section \<open>A delta over two blocks\<close>

lemma publication_reads_back_witness:
  "published_rows sample_host sign_cmp (sample_publication ''markets'') (read_records sample_published ''markets'' sample_revision)"
proof -
  have "projection_run sample_headers sample_deployment ''frontend-events'' sample_host sign_cmp [ChainStep]
      (empty_chain, empty_projection) (sample_store, empty_projection)"
    using run_step [OF run_nil step_chain [OF sample_step]] by simp
  from publication_reads_back [OF this sample_publish_markets] show ?thesis by simp
qed

definition pair_block :: rpc_block where
  "pair_block = \<lparr>bk_number = 2, bk_hash = hex_lit 64 CHR ''c'', bk_parentHash = hex_lit 64 CHR ''b'', bk_timestamp = 7\<rparr>"

definition pair_rpc :: transport where
  "pair_rpc = \<lparr>rt_source = ''https://rpc.example'', rt_chainId = Inr (JText ''0xb626''),
     rt_getBlock = (\<lambda>h. if h = ''0x2'' then Inr (JObject [(''number'', JText ''0x2''), (''hash'', JText (hex_lit 64 CHR ''c'')),
        (''parentHash'', JText (hex_lit 64 CHR ''b'')), (''timestamp'', JText ''0x7'')]) else rt_getBlock sample_rpc h),
     rt_getLogs = (\<lambda>_. Inr (JArray []))\<rparr>"

definition pair_range :: ingest_input where
  "pair_range = sample_range\<lparr>in_toBlock := 2, in_primary := pair_rpc\<rparr>"

definition pair_store :: chain_db where
  "pair_store = \<lparr>cd_blocks = [sample_row, \<lparr>br_number = 2, br_hash = hex_lit 64 CHR ''c'', br_parent = hex_lit 64 CHR ''b'',
       br_canonical = True, br_finalized = True, br_timestamp = 7\<rparr>], cd_logs = [], cd_sources = [],
     cd_ranges = [range_of 1 2 0 (hex_lit 64 CHR ''0'')],
     cd_checkpoints = [(''frontend-events'', \<lparr>ck_next = 3, ck_last = Some (hex_lit 64 CHR ''c''), ck_generation = 0\<rparr>)]\<rparr>"

definition pair_headers :: headers where
  "pair_headers h = (if h = hex_lit 64 CHR ''c'' then (2, hex_lit 64 CHR ''b'') else (1, hex_lit 64 CHR ''a''))"

lemma show_hex_2: "show_hex n = ''2'' \<longleftrightarrow> n = 2"
proof
  assume eq: "show_hex n = ''2''"
  have "foldl (\<lambda>acc c. 16 * acc + hex_val c) 0 (show_hex n) = 2"
    unfolding eq by (simp add: hex_val_def is_digit_def code_of_def)
  then show "n = 2" by (simp add: show_hex_value)
next
  have "show_hex 2 = ''2''" by code_simp
  then show "n = 2 \<Longrightarrow> show_hex n = ''2''" by simp
qed

lemma pair_parse: "parseBlock (JObject [(''number'', JText ''0x2''), (''hash'', JText (hex_lit 64 CHR ''c'')),
        (''parentHash'', JText (hex_lit 64 CHR ''b'')), (''timestamp'', JText ''0x7'')]) 2 = Inr pair_block"
proof -
  have "hexQuantity ''0x2'' = Inr 2" "hexQuantity ''0x7'' = Inr 7" by code_simp+
  then show ?thesis by (simp add: parseBlock_def text_field_def pair_block_def)
qed

lemma pair_rpc_block: "transport_block pair_rpc n = Inr b \<longleftrightarrow> n = 1 \<and> b = sample_block \<or> n = 2 \<and> b = pair_block"
proof (cases "n = 2")
  case True
  have "toHexQuantity 2 = Inr ''0x2''" by code_simp
  with True show ?thesis by (auto simp: transport_block_def pair_rpc_def falsy_def pair_parse)
next
  case False
  have "transport_block pair_rpc n = transport_block sample_rpc n"
  proof (cases "toHexQuantity n")
    case (Inr h)
    then have "h \<noteq> ''0x2''" using False show_hex_2 [of "nat n"] by (auto simp: toHexQuantity_def split: if_splits)
    then have "rt_getBlock pair_rpc h = rt_getBlock sample_rpc h" unfolding pair_rpc_def by (simp only: if_False transport.simps)
    then show ?thesis unfolding transport_block_def Inr by (simp only: bindR_simps)
  qed (simp add: transport_block_def)
  with False show ?thesis by (simp add: sample_rpc_block)
qed

lemma pair_rpc_agrees: "headers_agree pair_headers pair_rpc"
  by (auto simp: headers_agree_def pair_rpc_block pair_headers_def sample_block_def pair_block_def hex_lit_def)

lemma pair_ingested: "ingestCanonicalRange sample_host pair_range empty_chain
    = Inr (pair_store, \<lparr>ir_blocks = 2, ir_logs = 0, ir_sources = 0, ir_generation = 0, ir_filterDigest = hex_lit 64 CHR ''0''\<rparr>)"
proof -
  have range: "[1..2] = [1, 2::int]" by code_simp
  have first: "read_block pair_range 1 [] = Inr [sample_block]"
    by (simp add: read_block_def pair_range_def sample_range_def consensusBlock_def pair_rpc_block [THEN iffD2] isFinalized_def)
      (simp add: sample_block_def)
  have second: "read_block pair_range 2 [sample_block] = Inr [sample_block, pair_block]"
    by (simp add: read_block_def pair_range_def sample_range_def consensusBlock_def pair_rpc_block [THEN iffD2] isFinalized_def)
      (simp add: sample_block_def pair_block_def)
  have "read_blocks pair_range = Inr [sample_block, pair_block]"
    using first second by (simp add: read_blocks_def) (simp add: pair_range_def sample_range_def range)
  moreover have "collect sample_host pair_range [sample_block, pair_block] [] = Inr \<lparr>dv_known = [], dv_queried = {}, dv_logs = [(1, []), (2, [])]\<rparr>"
    by (simp add: collect_def initial_groups_def pair_range_def sample_range_def numeral_eq_Suc sample_block_def pair_block_def)
  moreover have "is_token ''frontend-events''" by code_simp
  moreover have "commit_blocks pair_range [sample_block, pair_block] [] [] (hex_lit 64 CHR ''0'') empty_chain = Inr (pair_store, 0)"
    by (simp add: commit_blocks_def pair_range_def sample_range_def empty_chain_def insert_checkpoint_def pg_count_def parent_mismatch_def
      store_block_def upsert_block_def unique_heights_def block_row_of_def insert_range_def check_range_def range_of_def
      save_checkpoint_def conflicting_def image_iff sample_block_def pair_block_def pair_store_def sample_row_def Let_def)
  moreover have "digest sample_host (sources_json sample_host [] 2) = hex_lit 64 CHR ''0''"
    by (simp add: digest_def sample_host_def hex_lit_def)
  ultimately show ?thesis
    by (simp add: ingestCanonicalRange_def known_sources_def validateDeployment_def sqlIdentifier_def)
      (simp add: pair_range_def sample_range_def sample_deployment_def)
qed

lemma pair_step: "chain_step pair_headers sample_deployment ''frontend-events'' empty_chain pair_store"
proof (rule step_range [OF _ _ _ _ pair_ingested])
  have "is_token ''frontend-events''" by code_simp
  then show "loadIngestionState sample_deployment ''frontend-events'' None None empty_chain
      = Inr \<lparr>is_nextBlock = 1, is_generation = 0, is_sources = []\<rparr>"
    by (simp add: loadIngestionState_def validateDeployment_def sqlIdentifier_def sample_deployment_def empty_chain_def)
qed (simp_all add: pair_range_def sample_range_def pair_rpc_agrees)

text \<open>Two blocks; \<open>m1\<close> is published at the first, and a delta at the second replaces it by \<open>m2\<close>.\<close>

definition sample_delta :: delta_input where
  "sample_delta = \<lparr>pi_deployment = sample_deployment, pi_scope = ''markets'', pi_algorithmVersion = ''v1'', pi_blockNumber = 2,
     pi_blockHash = hex_lit 64 CHR ''c'', pi_generation = 0, pi_stream = None,
     pi_records = [\<lparr>pr_identity = ''m2'', pr_sortKey = ''2'', pr_payload = JNumber 9\<rparr>],
     pi_incremental = True, pi_schemaName = None, di_baseRevision = sample_revision, di_removed = [''m1''], di_expectedPopulation = 1\<rparr>"

definition delta_versions :: "version_row list" where
  "delta_versions = [close_version 2 (version_of 0 1 (expected_row sample_host sample_record)),
     version_of 0 2 (expected_row sample_host \<lparr>pr_identity = ''m2'', pr_sortKey = ''2'', pr_payload = JNumber 9\<rparr>)]"

lemma sample_delta_simps [simp]:
  "pi_scope sample_delta = ''markets''" "pi_generation sample_delta = 0" "pi_blockNumber sample_delta = 2"
  "pi_records sample_delta = [\<lparr>pr_identity = ''m2'', pr_sortKey = ''2'', pr_payload = JNumber 9\<rparr>]" "pi_incremental sample_delta"
  "pi_schemaName sample_delta = None" "di_baseRevision sample_delta = sample_revision" "di_removed sample_delta = [''m1'']"
  "di_expectedPopulation sample_delta = 1" "pi_deployment sample_delta = sample_deployment" "stream_of sample_delta = ''frontend-events''"
  by (simp_all add: sample_delta_def stream_of_def)

lemma sample_delta_valid: "validateDelta sample_host sample_delta = Inr ()"
proof -
  have "length (show_int 9) = 1" "is_token ''v1''" "is_token ''markets''" by code_simp+
  then show ?thesis
    by (simp add: validateDelta_def validateInput_def validateRecord_def sample_delta_def sample_deployment_def is_safe_def MAX_SAFE_def)
qed

lemma pair_anchor: "assertAnchor sample_delta pair_store = Inr ()" "assertAnchor (sample_publication scope) pair_store = Inr ()"
  by (simp_all add: assertAnchor_def assertPublishableAnchor_def sample_publication_def sample_delta_def pair_store_def sample_row_def
    sample_deployment_def range_of_def js_sort_Cons)

lemma sample_delta_entries: "delta_entries sample_host sample_delta = [RemovedEntry ''m1'', ChangedEntry ''m2'' ''2'' (hex_lit 64 CHR ''0'')]"
  by (simp add: delta_entries_def delta_records_def js_sort_Cons entry_of_def compare_identities_def sample_host_def sign_cmp_def
    stable_digest_def hex_lit_def)

lemma pair_publish:
  "publishProjection sample_host sign_cmp (sample_publication ''markets'') pair_store empty_projection
    = Inr (sample_published, (sample_revision, False, 1))"
proof -
  have "publishProjection sample_host sign_cmp (sample_publication ''markets'') pair_store empty_projection
      = publishProjection sample_host sign_cmp (sample_publication ''markets'') sample_store empty_projection"
    unfolding publishProjection_def pair_anchor sample_anchor ..
  then show ?thesis by (simp only: sample_publish_markets)
qed

lemma pair_run:
  "projection_run pair_headers sample_deployment ''frontend-events'' sample_host sign_cmp
     [ChainStep, FullPublication (sample_publication ''markets'')] (empty_chain, empty_projection) (pair_store, sample_published)"
proof -
  note chain = step_chain [OF pair_step, where H = sample_host and collate = sign_cmp and pdb = empty_projection]
  note publish = step_full [where stream = "''frontend-events''", OF _ _ pair_publish, where hdr = pair_headers and dp = sample_deployment]
  from run_step [OF run_step [OF run_nil chain] publish] show ?thesis by simp
qed

definition base_row :: publication_row where
  "base_row = publication_of (sample_publication ''markets'') (hex_lit 64 CHR ''0'') (publication_payload (sample_publication ''markets''))"

lemma sample_delta_base: "delta_base sample_delta pair_store sample_published = Inr (base_row, 1)"
  by (simp add: delta_base_def sample_published_def is_publication_def publication_of_def anchored_def pair_store_def sample_row_def
    publication_payload_def safe_integer_def is_safe_def MAX_SAFE_def delta_depth_def base_row_def)

lemma sample_delta_batch:
  "write_delta_batch sample_host sample_delta 1 [RemovedEntry ''m1'', ChangedEntry ''m2'' ''2'' (hex_lit 64 CHR ''0'')]
     (1, [version_of 0 1 (expected_row sample_host sample_record)]) = Inr (1, delta_versions)"
  by (simp add: write_delta_batch_def version_of_def valid_at_def expected_row_def sample_record_def by_identity_def plan_entry_def
    delta_records_def js_sort_Cons close_identities_def is_open_def close_where_def close_version_def insert_changed_def insert_version_def
    version_clash_def delta_versions_def evidence_text_def row_json_def saved_record.truncate_def Let_def)

lemma sample_delta_publish:
  obtains pdb' where "publishMarketDelta sample_host sample_delta pair_store sample_published = Inr (pdb', (revision_of sample_delta, False, 1))"
proof -
  have fresh: "find (is_publication ''markets'' (revision_of sample_delta)) (pd_publications sample_published) = None"
    by (simp add: sample_published_def is_publication_def publication_of_def revision_of_def revision_text_inj sample_delta_def)
  have tables: "pd_versions sample_published = [version_of 0 1 (expected_row sample_host sample_record)]"
    "map_of (pd_pointers sample_published) ''markets'' = Some sample_revision" "pu_blockNumber base_row = 1"
    by (simp_all add: sample_published_def base_row_def publication_of_def)
  have now: "length (filter (valid_at 0 2) delta_versions) = 1"
    by (simp add: delta_versions_def valid_at_def close_version_def version_of_def)
  show ?thesis
    by (rule that) (simp add: publishMarketDelta_def sample_delta_valid sqlIdentifier_def pair_anchor sample_delta_base fresh tables
      sample_delta_entries chunks.simps sample_delta_batch now Let_def)
qed

lemma delta_overlays_base_witness:
  "\<exists>pdb'. publishMarketDelta sample_host sample_delta pair_store sample_published = Inr (pdb', (revision_of sample_delta, False, 1))
     \<and> carries sample_host (read_records pdb' ''markets'' (revision_of sample_delta)) {(''m2'', ''2'', hex_lit 64 CHR ''0'', ''9'')}"
proof -
  obtain pdb' where run: "publishMarketDelta sample_host sample_delta pair_store sample_published = Inr (pdb', (revision_of sample_delta, False, 1))"
    by (rule sample_delta_publish)
  have "show_int 9 = ''9''" by code_simp
  moreover have "read_records sample_published ''markets'' sample_revision = [expected_row sample_host sample_record]"
    by (simp add: read_records_def sample_published_def empty_projection_def uses_versions_def publication_of_def publication_payload_def
      valid_at_def version_of_def expected_row_def saved_record.truncate_def)
  ultimately have "overlay sample_host sample_delta (evidence sample_host ` set (read_records sample_published ''markets'' (di_baseRevision sample_delta)))
      = {(''m2'', ''2'', hex_lit 64 CHR ''0'', ''9'')}"
    by (auto simp: overlay_def evidence_def input_evidence_def expected_row_def sample_record_def)
  with delta_overlays_base [OF pair_run _ run] run show ?thesis by auto
qed

end
