(* ===== verification/Principal_Ledger.thy ===== *)
theory Principal_Ledger imports Trade_Types TG_Json begin

text \<open>
  The vault's principal ledger: how deposits, withdrawals, locks and releases change the accounts and
  allocations (packages/principal-projector/src/index.ts), and that a replay conserves principal.
\<close>

section \<open>Accounts and allocations\<close>

record source_block =
  sb_chainId :: int
  sb_blockNumber :: string
  sb_blockHash :: string
  sb_transactionHash :: string
  sb_transactionIndex :: int
  sb_logIndex :: int

record principal_account =
  pa_user :: string
  pa_assetUid :: string
  pa_vault :: string
  pa_deposited :: int
  pa_allocated :: int
  pa_source :: source_block

record principal_allocation =
  pl_user :: string
  pl_assetUid :: string
  pl_marketId :: string
  pl_amount :: int
  pl_source :: source_block

text \<open>The readers of event arguments: \<open>bigint\<close>, \<open>address\<close>, \<open>hash\<close>, \<open>safeNumber\<close>, \<open>sourceBlock\<close>.\<close>

definition principal_uint :: "js_value \<Rightarrow> string \<Rightarrow> int res" where
  "principal_uint v label =
    (let result = (case v of JBig i \<Rightarrow> i | JStr s \<Rightarrow> if is_uint_literal s then int (parse_nat s) else - 1 | _ \<Rightarrow> - 1)
     in if result < 0 \<or> result \<ge> 2 ^ 256 then Inl (Error (label @ '' is invalid'')) else Inr result)"

definition principal_address :: "js_value \<Rightarrow> string \<Rightarrow> string res" where
  "principal_address v label = (case v of
     JStr s \<Rightarrow> if is_hex 40 s then Inr (lower s) else Inl (Error (label @ '' is invalid''))
   | _ \<Rightarrow> Inl (Error (label @ '' is invalid'')))"

definition principal_hash :: "js_value \<Rightarrow> string \<Rightarrow> string res" where
  "principal_hash v label = (case v of
     JStr s \<Rightarrow> if is_lower_hex 64 s then Inr s else Inl (Error (label @ '' is invalid''))
   | _ \<Rightarrow> Inl (Error (label @ '' is invalid'')))"

definition principal_safe :: "int \<Rightarrow> string \<Rightarrow> int res" where
  "principal_safe v label = (if MAX_SAFE < \<bar>v\<bar> \<or> v < 0 then Inl (Error (label @ '' exceeds safe range'')) else Inr v)"

definition principal_source :: "rpc_log \<Rightarrow> int \<Rightarrow> source_block res" where
  "principal_source l chainId =
     bindR (principal_safe (lg_transactionIndex l) ''transaction index'') (\<lambda>ti.
     bindR (principal_safe (lg_logIndex l) ''log index'') (\<lambda>li.
       Inr \<lparr>sb_chainId = chainId, sb_blockNumber = show_int (lg_blockNumber l), sb_blockHash = lg_blockHash l,
         sb_transactionHash = lg_transactionHash l, sb_transactionIndex = ti, sb_logIndex = li\<rparr>))"

section \<open>Replaying the events of the vault\<close>

text \<open>The two maps: accounts by asset and user, allocations by asset, user and market.\<close>

type_synonym principal_maps = "(string \<times> principal_account) list \<times> (string \<times> principal_allocation) list"

definition account_key :: "string \<Rightarrow> string \<Rightarrow> string" where
  "account_key asset user = asset @ '':'' @ user"

definition allocation_key :: "string \<Rightarrow> string \<Rightarrow> string \<Rightarrow> string" where
  "allocation_key asset user market = asset @ '':'' @ user @ '':'' @ market"

definition is_principal :: "decoded_event \<Rightarrow> bool" where
  "is_principal e \<longleftrightarrow> ev_module e = ''UserStockVault''
     \<and> ev_name e \<in> {''StockDeposited'', ''StockWithdrawn'', ''AllocationLocked'', ''AllocationReleased''}"

definition checkpoint_mismatch :: js_error where
  "checkpoint_mismatch = Error ''principal event checkpoint mismatch''"

definition old_allocation :: "(string \<times> principal_allocation) list \<Rightarrow> string \<Rightarrow> string \<Rightarrow> string \<Rightarrow> source_block \<Rightarrow> principal_allocation" where
  "old_allocation allocations asset user market source = (case map_of allocations (allocation_key asset user market) of
     None \<Rightarrow> \<lparr>pl_user = user, pl_assetUid = asset, pl_marketId = market, pl_amount = 0, pl_source = source\<rparr>
   | Some x \<Rightarrow> x)"

definition allocate :: "js_args \<Rightarrow> bool \<Rightarrow> int \<Rightarrow> source_block \<Rightarrow> string \<Rightarrow> string \<Rightarrow> principal_account
    \<Rightarrow> (string \<times> principal_allocation) list \<Rightarrow> (principal_account \<times> (string \<times> principal_allocation) list) res" where
  "allocate a locked amount source asset user account allocations =
     bindR (principal_hash (arg a ''marketId'') ''marketId'') (\<lambda>market.
       let old = old_allocation allocations asset user market source;
           delta = (if locked then amount else - amount);
           allocation = old\<lparr>pl_amount := pl_amount old + delta\<rparr>;
           account' = account\<lparr>pa_allocated := pa_allocated account + delta\<rparr>
       in if pl_amount allocation < 0 then Inl checkpoint_mismatch
          else bindR (principal_uint (arg a ''userMarketAllocation'') ''market allocation'') (\<lambda>m.
            if pl_amount allocation \<noteq> m then Inl checkpoint_mismatch
            else bindR (principal_uint (arg a ''userTotalAllocated'') ''total allocation'') (\<lambda>t.
              if pa_allocated account' \<noteq> t then Inl checkpoint_mismatch
              else Inr (account', AList.update (allocation_key asset user market) (allocation\<lparr>pl_source := source\<rparr>) allocations))))"

text \<open>What an event is checked for first: its asset, user, vault, amount and source.\<close>

definition principal_fields :: "int \<Rightarrow> (string \<Rightarrow> string option) \<Rightarrow> decoded_event \<Rightarrow> (string \<times> string \<times> string \<times> int \<times> source_block) res" where
  "principal_fields chainId vaults e =
     bindR (principal_hash (arg (ev_args e) ''assetUid'') ''assetUid'') (\<lambda>asset.
     bindR (principal_address (arg (ev_args e) ''user'') ''user'') (\<lambda>user.
     if user = ZERO_ADDRESS then Inl (Error ''zero principal user'')
     else (case vaults asset of
         None \<Rightarrow> Inl (Error ''principal event asset/Vault binding mismatch'')
       | Some vault \<Rightarrow>
         if lg_address (ev_log e) \<noteq> vault then Inl (Error ''principal event asset/Vault binding mismatch'')
         else bindR (principal_uint (arg (ev_args e) ''amount'') ''principal amount'') (\<lambda>amount.
           if amount = 0 then Inl (Error ''zero principal event amount'')
           else bindR (principal_source (ev_log e) chainId) (\<lambda>source. Inr (asset, user, vault, amount, source))))))"

definition old_account :: "(string \<times> principal_account) list \<Rightarrow> string \<Rightarrow> string \<Rightarrow> string \<Rightarrow> source_block \<Rightarrow> principal_account" where
  "old_account accounts asset user vault source = (case map_of accounts (account_key asset user) of
     None \<Rightarrow> \<lparr>pa_user = user, pa_assetUid = asset, pa_vault = vault, pa_deposited = 0, pa_allocated = 0, pa_source = source\<rparr>
   | Some x \<Rightarrow> x)"

definition replay_event :: "int \<Rightarrow> (string \<Rightarrow> string option) \<Rightarrow> decoded_event \<Rightarrow> principal_maps \<Rightarrow> principal_maps res" where
  "replay_event chainId vaults e = (\<lambda>(accounts, allocations).
    if \<not> is_principal e then Inr (accounts, allocations)
    else bindR (principal_fields chainId vaults e) (\<lambda>(asset, user, vault, amount, source).
      let account = old_account accounts asset user vault source
      in bindR (if ev_name e = ''StockDeposited'' then Inr (account\<lparr>pa_deposited := pa_deposited account + amount\<rparr>, allocations)
                else if ev_name e = ''StockWithdrawn'' then Inr (account\<lparr>pa_deposited := pa_deposited account - amount\<rparr>, allocations)
                else allocate (ev_args e) (ev_name e = ''AllocationLocked'') amount source asset user account allocations)
         (\<lambda>(account', allocations').
           if pa_deposited account' < 0 \<or> pa_allocated account' < 0 \<or> pa_allocated account' > pa_deposited account'
           then Inl (Error ''principal conservation violation'')
           else Inr (AList.update (account_key asset user) (account'\<lparr>pa_source := source\<rparr>) accounts, allocations'))))"

text \<open>The sums of the allocations by account, compared with the accounts of a full replay.\<close>

definition add_sum :: "string \<times> principal_allocation \<Rightarrow> (string \<times> int) list \<Rightarrow> (string \<times> int) list" where
  "add_sum = (\<lambda>(_, l) sums. let key = account_key (pl_assetUid l) (pl_user l) in AList.update key (balance_of sums key + pl_amount l) sums)"

definition replayPrincipal :: "decoded_event list \<Rightarrow> int \<Rightarrow> (string \<Rightarrow> string option) \<Rightarrow> principal_maps option \<Rightarrow> principal_maps res" where
  "replayPrincipal events chainId vaults seed =
     bindR (foldR (replay_event chainId vaults) events (case seed of None \<Rightarrow> ([], []) | Some s \<Rightarrow> s)) (\<lambda>(accounts, allocations).
       let sums = fold add_sum allocations []
       in if seed = None \<and> list_ex (\<lambda>(key, a). balance_of sums key \<noteq> pa_allocated a) accounts
          then Inl (Error ''allocation components do not equal account allocated total'') else Inr (accounts, allocations))"

section \<open>What the events of an account add up to\<close>

definition event_text :: "decoded_event \<Rightarrow> string \<Rightarrow> string" where
  "event_text e k = (case arg (ev_args e) k of JStr s \<Rightarrow> s | _ \<Rightarrow> [])"

text \<open>
  The events that count, and the amount an event carries, are specified from the events alone, without the
  readers and the filter of the replay.
\<close>

definition event_amount :: "decoded_event \<Rightarrow> int" where
  "event_amount e = (case arg (ev_args e) ''amount'' of JBig i \<Rightarrow> i | JStr s \<Rightarrow> int (parse_nat s) | _ \<Rightarrow> 0)"

definition principal_event :: "decoded_event \<Rightarrow> bool" where
  "principal_event e \<longleftrightarrow> ev_module e = ''UserStockVault''
     \<and> (ev_name e = ''StockDeposited'' \<or> ev_name e = ''StockWithdrawn'' \<or> ev_name e = ''AllocationLocked'' \<or> ev_name e = ''AllocationReleased'')"

lemma principal_event_eq: "principal_event e \<longleftrightarrow> is_principal e"
  by (auto simp: principal_event_def is_principal_def)

definition of_account :: "string \<Rightarrow> string \<Rightarrow> decoded_event \<Rightarrow> bool" where
  "of_account asset user e \<longleftrightarrow> principal_event e \<and> event_text e ''assetUid'' = asset \<and> lower (event_text e ''user'') = user"

definition of_allocation :: "string \<Rightarrow> string \<Rightarrow> string \<Rightarrow> decoded_event \<Rightarrow> bool" where
  "of_allocation asset user market e \<longleftrightarrow> of_account asset user e \<and> event_text e ''marketId'' = market"

text \<open>The accounts and the allocations the events speak of.\<close>

definition event_accounts :: "decoded_event list \<Rightarrow> (string \<times> string) set" where
  "event_accounts es = (\<lambda>e. (event_text e ''assetUid'', lower (event_text e ''user''))) ` {e \<in> set es. principal_event e}"

definition event_allocations :: "decoded_event list \<Rightarrow> (string \<times> string \<times> string) set" where
  "event_allocations es = (\<lambda>e. (event_text e ''assetUid'', lower (event_text e ''user''), event_text e ''marketId''))
     ` {e \<in> set es. principal_event e \<and> (ev_name e = ''AllocationLocked'' \<or> ev_name e = ''AllocationReleased'')}"

lemma event_accounts_append:
  "event_accounts [] = {}"
  "event_accounts (es @ [e]) = (if principal_event e then insert (event_text e ''assetUid'', lower (event_text e ''user'')) (event_accounts es) else event_accounts es)"
  by (auto simp: event_accounts_def)

lemma event_allocations_append:
  "event_allocations [] = {}"
  "event_allocations (es @ [e]) = (if principal_event e \<and> (ev_name e = ''AllocationLocked'' \<or> ev_name e = ''AllocationReleased'')
     then insert (event_text e ''assetUid'', lower (event_text e ''user''), event_text e ''marketId'') (event_allocations es) else event_allocations es)"
  by (auto simp: event_allocations_def)

text \<open>Increases less decreases, by the names of the events.\<close>

definition signed_amount :: "string \<Rightarrow> string \<Rightarrow> decoded_event \<Rightarrow> int" where
  "signed_amount up down e = (if ev_name e = up then event_amount e else if ev_name e = down then - event_amount e else 0)"

definition net :: "string \<Rightarrow> string \<Rightarrow> (decoded_event \<Rightarrow> bool) \<Rightarrow> decoded_event list \<Rightarrow> int" where
  "net up down P es = (\<Sum>e\<leftarrow>filter P es. signed_amount up down e)"

abbreviation "deposit_of \<equiv> signed_amount ''StockDeposited'' ''StockWithdrawn''"
abbreviation "lock_of \<equiv> signed_amount ''AllocationLocked'' ''AllocationReleased''"
abbreviation "net_deposits \<equiv> net ''StockDeposited'' ''StockWithdrawn''"
abbreviation "net_locks \<equiv> net ''AllocationLocked'' ''AllocationReleased''"

lemma net_append [simp]: "net up down P (es @ fs) = net up down P es + net up down P fs"
  by (simp add: net_def)

lemma net_single [simp]: "net up down P [e] = (if P e then signed_amount up down e else 0)" "net up down P [] = 0"
  by (simp_all add: net_def)

text \<open>An amount of the entry of a key, zero when there is none.\<close>

definition amount_at :: "('v \<Rightarrow> int) \<Rightarrow> (string \<times> 'v) list \<Rightarrow> string \<Rightarrow> int" where
  "amount_at f m k = (case map_of m k of None \<Rightarrow> 0 | Some v \<Rightarrow> f v)"

lemma amount_at_update [simp]: "amount_at f (AList.update k v m) k' = (if k' = k then f v else amount_at f m k')"
  by (simp add: amount_at_def update_conv')

lemma sum_amount_update:
  "distinct (keys_of m) \<Longrightarrow> (\<Sum>p\<leftarrow>AList.update k v m. f (snd p)) = (\<Sum>p\<leftarrow>m. f (snd p)) - amount_at f m k + f v"
proof (induction m)
  case (Cons p m)
  then show ?case by (cases "fst p = k") (auto simp: amount_at_def split: option.splits)
qed (simp add: amount_at_def)

section \<open>The effect of one event\<close>

definition moves_allocation :: "decoded_event \<Rightarrow> bool" where
  "moves_allocation e \<longleftrightarrow> ev_name e \<in> {''AllocationLocked'', ''AllocationReleased''}"

lemma principal_hash_Inr: "principal_hash v l = Inr h \<longleftrightarrow> v = JStr h \<and> is_lower_hex 64 h"
  by (auto simp: principal_hash_def split: js_value.splits)

lemma principal_address_Inr: "principal_address v l = Inr a \<longleftrightarrow> (\<exists>s. v = JStr s \<and> is_hex 40 s \<and> a = lower s)"
  by (auto simp: principal_address_def split: js_value.splits)

lemma principal_uint_nonneg: "principal_uint v l = Inr n \<Longrightarrow> 0 \<le> n \<and> n < 2 ^ 256"
  by (auto simp: principal_uint_def Let_def split: if_splits)

lemma principal_uint_pos: "principal_uint v l = Inr n \<Longrightarrow> n \<noteq> 0 \<Longrightarrow> 0 < n"
  using principal_uint_nonneg by fastforce

lemma allocate_Inr:
  assumes "allocate a locked n s asset user account L = Inr (account', L')"
  obtains market where "arg a ''marketId'' = JStr market" "is_lower_hex 64 market"
    "account' = account\<lparr>pa_allocated := pa_allocated account + (if locked then n else - n)\<rparr>"
    "L' = AList.update (allocation_key asset user market) ((old_allocation L asset user market s)
        \<lparr>pl_amount := pl_amount (old_allocation L asset user market s) + (if locked then n else - n), pl_source := s\<rparr>) L"
    "0 \<le> pl_amount (old_allocation L asset user market s) + (if locked then n else - n)"
  using assms unfolding allocate_def Let_def
  by (auto simp: bindR_eq_Inr principal_hash_Inr split: if_splits)

lemma principal_uint_amount: "principal_uint v l = Inr n \<Longrightarrow> (case v of JBig i \<Rightarrow> i | JStr s \<Rightarrow> int (parse_nat s) | _ \<Rightarrow> 0) = n"
  by (auto simp: principal_uint_def Let_def split: js_value.splits if_splits)

lemma principal_fields_Inr:
  assumes "principal_fields chainId vaults e = Inr (asset, user, vault, n, s)"
  shows "event_text e ''assetUid'' = asset \<and> lower (event_text e ''user'') = user \<and> is_lower_hex 64 asset \<and> is_lower_hex 40 user
    \<and> vaults asset = Some vault \<and> lg_address (ev_log e) = vault \<and> event_amount e = n \<and> 0 < n \<and> user \<noteq> ZERO_ADDRESS"
  using assms unfolding principal_fields_def
  by (auto simp: bindR_eq_Inr principal_hash_Inr principal_address_Inr event_text_def event_amount_def is_hex_lower
    dest: principal_uint_pos principal_uint_amount split: if_splits option.splits)

lemma replay_event_Inr:
  assumes run: "replay_event chainId vaults e (A, L) = Inr (A', L')" and e: "is_principal e"
  obtains asset user vault n s where "principal_fields chainId vaults e = Inr (asset, user, vault, n, s)"
    "A' = AList.update (account_key asset user) ((old_account A asset user vault s)
       \<lparr>pa_deposited := pa_deposited (old_account A asset user vault s) + deposit_of e,
        pa_allocated := pa_allocated (old_account A asset user vault s) + lock_of e, pa_source := s\<rparr>) A"
    "0 \<le> pa_allocated (old_account A asset user vault s) + lock_of e"
    "pa_allocated (old_account A asset user vault s) + lock_of e \<le> pa_deposited (old_account A asset user vault s) + deposit_of e"
    "moves_allocation e \<longrightarrow> (let market = event_text e ''marketId'' in is_lower_hex 64 market
       \<and> L' = AList.update (allocation_key asset user market) ((old_allocation L asset user market s)
          \<lparr>pl_amount := pl_amount (old_allocation L asset user market s) + lock_of e, pl_source := s\<rparr>) L
       \<and> 0 \<le> pl_amount (old_allocation L asset user market s) + lock_of e)"
    "\<not> moves_allocation e \<longrightarrow> L' = L \<and> lock_of e = 0"
proof -
  from run e obtain asset user vault n s where f: "principal_fields chainId vaults e = Inr (asset, user, vault, n, s)"
    by (auto simp: replay_event_def bindR_eq_Inr)
  define old where "old = old_account A asset user vault s"
  obtain account' where
    body: "(if ev_name e = ''StockDeposited'' then Inr (old\<lparr>pa_deposited := pa_deposited old + n\<rparr>, L)
                 else if ev_name e = ''StockWithdrawn'' then Inr (old\<lparr>pa_deposited := pa_deposited old - n\<rparr>, L)
                 else allocate (ev_args e) (ev_name e = ''AllocationLocked'') n s asset user old L) = Inr (account', L')"
    and ok: "0 \<le> pa_allocated account'" "pa_allocated account' \<le> pa_deposited account'"
    and A': "A' = AList.update (account_key asset user) (account'\<lparr>pa_source := s\<rparr>) A"
    using run e unfolding replay_event_def prod.case f bindR_simps Let_def old_def
    by (simp only: if_False not_True_eq_False) (simp only: bindR_eq_Inr, elim exE conjE, auto split: if_splits)
  have amount: "event_amount e = n" using principal_fields_Inr [OF f] by simp
  have name: "ev_name e \<in> {''StockDeposited'', ''StockWithdrawn'', ''AllocationLocked'', ''AllocationReleased''}"
    using e by (simp add: is_principal_def)
  show ?thesis
  proof (cases "moves_allocation e")
    case False
    then have "account' = old\<lparr>pa_deposited := pa_deposited old + deposit_of e\<rparr>" "L' = L" "lock_of e = 0"
      using body name by (auto simp: moves_allocation_def signed_amount_def amount split: if_splits)
    then show ?thesis using that [OF f] ok A' False by (simp add: old_def)
  next
    case True
    then have run': "allocate (ev_args e) (ev_name e = ''AllocationLocked'') n s asset user old L = Inr (account', L')"
      using body by (auto simp: moves_allocation_def)
    have d: "deposit_of e = 0" "lock_of e = (if ev_name e = ''AllocationLocked'' then n else - n)"
      using True by (auto simp: moves_allocation_def signed_amount_def amount)
    obtain market where k: "arg (ev_args e) ''marketId'' = JStr market" "is_lower_hex 64 market"
      "account' = old\<lparr>pa_allocated := pa_allocated old + lock_of e\<rparr>"
      "L' = AList.update (allocation_key asset user market) ((old_allocation L asset user market s)
          \<lparr>pl_amount := pl_amount (old_allocation L asset user market s) + lock_of e, pl_source := s\<rparr>) L"
      "0 \<le> pl_amount (old_allocation L asset user market s) + lock_of e"
      unfolding d(2) by (rule allocate_Inr [OF run']) blast
    then have "event_text e ''marketId'' = market" by (simp add: event_text_def)
    then show ?thesis using that [OF f] ok A' True k d(1) by (simp add: Let_def old_def)
  qed
qed

section \<open>The ledger invariant\<close>

definition amount_for :: "string \<Rightarrow> string \<Rightarrow> principal_allocation \<Rightarrow> int" where
  "amount_for asset user l = (if pl_assetUid l = asset \<and> pl_user l = user then pl_amount l else 0)"

definition allocated_for :: "string \<Rightarrow> string \<Rightarrow> (string \<times> principal_allocation) list \<Rightarrow> int" where
  "allocated_for asset user L = (\<Sum>p\<leftarrow>L. amount_for asset user (snd p))"

definition account_ok :: "string \<times> principal_account \<Rightarrow> bool" where
  "account_ok = (\<lambda>(k, a). k = account_key (pa_assetUid a) (pa_user a) \<and> is_lower_hex 64 (pa_assetUid a) \<and> is_lower_hex 40 (pa_user a)
     \<and> 0 \<le> pa_allocated a \<and> pa_allocated a \<le> pa_deposited a)"

definition allocation_ok :: "string \<times> principal_allocation \<Rightarrow> bool" where
  "allocation_ok = (\<lambda>(k, l). k = allocation_key (pl_assetUid l) (pl_user l) (pl_marketId l) \<and> is_lower_hex 64 (pl_assetUid l)
     \<and> is_lower_hex 40 (pl_user l) \<and> is_lower_hex 64 (pl_marketId l) \<and> 0 \<le> pl_amount l)"

text \<open>The maps hold what the events add up to.\<close>

definition principal_ok :: "decoded_event list \<Rightarrow> principal_maps \<Rightarrow> bool" where
  "principal_ok es = (\<lambda>(A, L). distinct (keys_of A) \<and> distinct (keys_of L) \<and> list_all account_ok A \<and> list_all allocation_ok L
     \<and> (\<forall>asset user. is_lower_hex 64 asset \<longrightarrow> is_lower_hex 40 user \<longrightarrow>
          amount_at pa_deposited A (account_key asset user) = net_deposits (of_account asset user) es
        \<and> amount_at pa_allocated A (account_key asset user) = net_locks (of_account asset user) es
        \<and> allocated_for asset user L = net_locks (of_account asset user) es
        \<and> (\<forall>market. is_lower_hex 64 market \<longrightarrow>
            amount_at pl_amount L (allocation_key asset user market) = net_locks (of_allocation asset user market) es)))"

lemma account_key_eq: "is_lower_hex 64 a \<Longrightarrow> is_lower_hex 64 a' \<Longrightarrow> account_key a u = account_key a' u' \<longleftrightarrow> a = a' \<and> u = u'"
  by (simp add: account_key_def is_lower_hex_def)

lemma allocation_key_eq: "is_lower_hex 64 a \<Longrightarrow> is_lower_hex 64 a' \<Longrightarrow> is_lower_hex 40 u \<Longrightarrow> is_lower_hex 40 u'
    \<Longrightarrow> allocation_key a u m = allocation_key a' u' m' \<longleftrightarrow> a = a' \<and> u = u' \<and> m = m'"
  by (simp add: allocation_key_def is_lower_hex_def)

lemma old_account_amounts [simp]:
  "pa_deposited (old_account A asset user vault s) = amount_at pa_deposited A (account_key asset user)"
  "pa_allocated (old_account A asset user vault s) = amount_at pa_allocated A (account_key asset user)"
  by (simp_all add: old_account_def amount_at_def split: option.splits)

lemma old_allocation_amount [simp]:
  "pl_amount (old_allocation L asset user market s) = amount_at pl_amount L (allocation_key asset user market)"
  by (simp add: old_allocation_def amount_at_def split: option.splits)

lemma old_account_identity:
  assumes "list_all account_ok A" and "is_lower_hex 64 asset"
  shows "pa_assetUid (old_account A asset user vault s) = asset \<and> pa_user (old_account A asset user vault s) = user"
proof (cases "map_of A (account_key asset user)")
  case (Some a)
  then have "account_ok (account_key asset user, a)" using assms(1) by (auto simp: list_all_iff dest: map_of_SomeD)
  then show ?thesis using Some assms(2) account_key_eq [of asset "pa_assetUid a"] by (auto simp: account_ok_def old_account_def)
qed (simp add: old_account_def)

lemma old_allocation_identity:
  assumes "list_all allocation_ok L" and "is_lower_hex 64 asset" and "is_lower_hex 40 user"
  shows "pl_assetUid (old_allocation L asset user market s) = asset \<and> pl_user (old_allocation L asset user market s) = user
    \<and> pl_marketId (old_allocation L asset user market s) = market"
proof (cases "map_of L (allocation_key asset user market)")
  case (Some l)
  then have "allocation_ok (allocation_key asset user market, l)" using assms(1) by (auto simp: list_all_iff dest: map_of_SomeD)
  then show ?thesis using Some assms(2,3) allocation_key_eq [of asset "pl_assetUid l" user "pl_user l"]
    by (auto simp: allocation_ok_def old_allocation_def)
qed (simp add: old_allocation_def)

lemma list_all_update: "list_all P m \<Longrightarrow> P (k, v) \<Longrightarrow> list_all P (AList.update k v m)"
  by (induction m) (auto split: if_splits)

lemma update_keys_distinct: "distinct (keys_of m) \<Longrightarrow> distinct (keys_of (AList.update k v m))"
  by (auto simp: keys_of_update)

lemma allocated_for_update:
  assumes "distinct (keys_of L)" and "list_all allocation_ok L" and "is_lower_hex 64 asset" and "is_lower_hex 40 user"
  shows "allocated_for a u (AList.update (allocation_key asset user market) ((old_allocation L asset user market s)
      \<lparr>pl_amount := amount_at pl_amount L (allocation_key asset user market) + d, pl_source := s\<rparr>) L)
    = allocated_for a u L + (if a = asset \<and> u = user then d else 0)"
proof -
  define key where "key = allocation_key asset user market"
  note same = old_allocation_identity [OF assms(2-4), of market s]
  have "amount_at (amount_for a u) L key = (if a = asset \<and> u = user then amount_at pl_amount L key else 0)"
  proof (cases "map_of L key")
    case (Some l)
    then have "old_allocation L asset user market s = l" by (simp add: old_allocation_def key_def)
    then show ?thesis using same Some by (auto simp: amount_at_def amount_for_def)
  qed (simp add: amount_at_def)
  then show ?thesis
    unfolding allocated_for_def key_def [symmetric] sum_amount_update [OF assms(1)] using same by (auto simp: amount_for_def)
qed

lemma principal_ok_step:
  assumes ok: "principal_ok es m" and run: "replay_event chainId vaults e m = Inr m'"
  shows "principal_ok (es @ [e]) m'"
proof (cases "is_principal e")
  case False
  then have "m' = m" using run by (cases m) (simp add: replay_event_def)
  then show ?thesis using ok False by (simp add: principal_ok_def of_account_def of_allocation_def principal_event_eq)
next
  case True
  obtain A L A' L' where m: "m = (A, L)" "m' = (A', L')" by (cases m, cases m')
  obtain asset user vault n s where f: "principal_fields chainId vaults e = Inr (asset, user, vault, n, s)"
    and A': "A' = AList.update (account_key asset user) ((old_account A asset user vault s)
       \<lparr>pa_deposited := amount_at pa_deposited A (account_key asset user) + deposit_of e,
        pa_allocated := amount_at pa_allocated A (account_key asset user) + lock_of e, pa_source := s\<rparr>) A"
    and bounds: "0 \<le> amount_at pa_allocated A (account_key asset user) + lock_of e"
      "amount_at pa_allocated A (account_key asset user) + lock_of e \<le> amount_at pa_deposited A (account_key asset user) + deposit_of e"
    and moves: "moves_allocation e \<longrightarrow> (let market = event_text e ''marketId'' in is_lower_hex 64 market
       \<and> L' = AList.update (allocation_key asset user market) ((old_allocation L asset user market s)
          \<lparr>pl_amount := amount_at pl_amount L (allocation_key asset user market) + lock_of e, pl_source := s\<rparr>) L
       \<and> 0 \<le> amount_at pl_amount L (allocation_key asset user market) + lock_of e)"
    and stays: "\<not> moves_allocation e \<longrightarrow> L' = L \<and> lock_of e = 0"
    by (rule replay_event_Inr [OF run [unfolded m] True, unfolded old_account_amounts old_allocation_amount])
  have at: "event_text e ''assetUid'' = asset" "lower (event_text e ''user'') = user" "is_lower_hex 64 asset" "is_lower_hex 40 user"
    using principal_fields_Inr [OF f] by simp_all
  have of_e: "of_account a u e \<longleftrightarrow> a = asset \<and> u = user" for a u using True at by (auto simp: of_account_def principal_event_eq)
  have old: "distinct (keys_of A)" "distinct (keys_of L)" "list_all account_ok A" "list_all allocation_ok L"
    and sums: "is_lower_hex 64 a \<Longrightarrow> is_lower_hex 40 u \<Longrightarrow> amount_at pa_deposited A (account_key a u) = net_deposits (of_account a u) es
        \<and> amount_at pa_allocated A (account_key a u) = net_locks (of_account a u) es
        \<and> allocated_for a u L = net_locks (of_account a u) es
        \<and> (\<forall>market. is_lower_hex 64 market \<longrightarrow>
            amount_at pl_amount L (allocation_key a u market) = net_locks (of_allocation a u market) es)" for a u
    using ok by (simp_all add: principal_ok_def m)
  have "account_ok (account_key asset user, (old_account A asset user vault s)
       \<lparr>pa_deposited := amount_at pa_deposited A (account_key asset user) + deposit_of e,
        pa_allocated := amount_at pa_allocated A (account_key asset user) + lock_of e, pa_source := s\<rparr>)"
    using old_account_identity [OF old(3) at(3)] at bounds by (simp add: account_ok_def)
  then have accounts: "distinct (keys_of A')" "list_all account_ok A'"
    unfolding A' using old by (auto intro: list_all_update update_keys_distinct)
  have allocations: "distinct (keys_of L') \<and> list_all allocation_ok L'
      \<and> allocated_for a u L' = allocated_for a u L + (if of_account a u e then lock_of e else 0)" for a u
  proof (cases "moves_allocation e")
    case moving: True
    define market where "market = event_text e ''marketId''"
    have mv: "is_lower_hex 64 market" "L' = AList.update (allocation_key asset user market) ((old_allocation L asset user market s)
          \<lparr>pl_amount := amount_at pl_amount L (allocation_key asset user market) + lock_of e, pl_source := s\<rparr>) L"
        "0 \<le> amount_at pl_amount L (allocation_key asset user market) + lock_of e"
      using moves moving by (simp_all add: market_def Let_def)
    have "allocation_ok (allocation_key asset user market, (old_allocation L asset user market s)
          \<lparr>pl_amount := amount_at pl_amount L (allocation_key asset user market) + lock_of e, pl_source := s\<rparr>)"
      using old_allocation_identity [OF old(4) at(3,4)] at mv by (simp add: allocation_ok_def)
    then show ?thesis using old allocated_for_update [OF old(2,4) at(3,4)] unfolding mv(2) of_e
      by (auto intro: list_all_update update_keys_distinct)
  qed (use stays old in \<open>simp add: of_e\<close>)
  have "amount_at pl_amount L' (allocation_key a u k) = amount_at pl_amount L (allocation_key a u k) + (if of_allocation a u k e then lock_of e else 0)"
    if "is_lower_hex 64 a" "is_lower_hex 40 u" for a u k
  proof (cases "moves_allocation e")
    case moving: True
    then show ?thesis using moves at that allocation_key_eq [of a asset u user k "event_text e ''marketId''"]
      by (auto simp: Let_def of_allocation_def of_e)
  qed (use stays in simp)
  moreover have "amount_at pa_deposited A' (account_key a u) = amount_at pa_deposited A (account_key a u) + (if of_account a u e then deposit_of e else 0)
      \<and> amount_at pa_allocated A' (account_key a u) = amount_at pa_allocated A (account_key a u) + (if of_account a u e then lock_of e else 0)"
    if "is_lower_hex 64 a" for a u
    using account_key_eq [OF that at(3)] by (auto simp: A' of_e)
  ultimately show ?thesis
    using accounts allocations sums unfolding principal_ok_def m prod.case net_append net_single by (simp del: of_account_def of_allocation_def)
qed

section \<open>Which accounts and allocations a replay holds\<close>

definition account_id :: "string \<times> principal_account \<Rightarrow> string \<times> string" where
  "account_id p = (pa_assetUid (snd p), pa_user (snd p))"

definition allocation_id :: "string \<times> principal_allocation \<Rightarrow> string \<times> string \<times> string" where
  "allocation_id p = (pl_assetUid (snd p), pl_user (snd p), pl_marketId (snd p))"

lemma image_update:
  "(\<forall>p\<in>set m. fst p = k \<longrightarrow> f p = f (k, v)) \<Longrightarrow> f ` set (AList.update k v m) = insert (f (k, v)) (f ` set m)"
proof (induction m)
  case (Cons p m)
  then show ?case by (cases p) (auto simp: insert_commute)
qed simp

text \<open>The maps hold exactly the accounts and the allocations the events speak of.\<close>

definition principal_complete :: "decoded_event list \<Rightarrow> principal_maps \<Rightarrow> bool" where
  "principal_complete es m \<longleftrightarrow> account_id ` set (fst m) = event_accounts es \<and> allocation_id ` set (snd m) = event_allocations es"

lemma account_image_update:
  assumes "list_all account_ok A" and "is_lower_hex 64 asset" and "pa_assetUid a = asset" and "pa_user a = user"
  shows "account_id ` set (AList.update (account_key asset user) a A) = insert (asset, user) (account_id ` set A)"
proof -
  have "account_id p = account_id (account_key asset user, a)" if "p \<in> set A" "fst p = account_key asset user" for p
  proof -
    have "account_ok p" using assms(1) that by (simp add: list_all_iff)
    then have "fst p = account_key (pa_assetUid (snd p)) (pa_user (snd p))" "is_lower_hex 64 (pa_assetUid (snd p))"
      by (simp_all add: account_ok_def case_prod_unfold)
    then show ?thesis using that(2) assms(2-4) account_key_eq [of asset "pa_assetUid (snd p)"] by (simp add: account_id_def)
  qed
  then have "account_id ` set (AList.update (account_key asset user) a A)
      = insert (account_id (account_key asset user, a)) (account_id ` set A)" by (intro image_update) blast
  then show ?thesis using assms(3,4) by (simp add: account_id_def)
qed

lemma allocation_image_update:
  assumes "list_all allocation_ok L" and "is_lower_hex 64 asset" and "is_lower_hex 40 user"
    and "pl_assetUid l = asset" and "pl_user l = user" and "pl_marketId l = market"
  shows "allocation_id ` set (AList.update (allocation_key asset user market) l L) = insert (asset, user, market) (allocation_id ` set L)"
proof -
  have "allocation_id p = allocation_id (allocation_key asset user market, l)" if "p \<in> set L" "fst p = allocation_key asset user market" for p
  proof -
    have "allocation_ok p" using assms(1) that by (simp add: list_all_iff)
    then have "fst p = allocation_key (pl_assetUid (snd p)) (pl_user (snd p)) (pl_marketId (snd p))"
      "is_lower_hex 64 (pl_assetUid (snd p))" "is_lower_hex 40 (pl_user (snd p))"
      by (simp_all add: allocation_ok_def case_prod_unfold)
    then show ?thesis using that(2) assms(2-6) allocation_key_eq [of asset "pl_assetUid (snd p)" user "pl_user (snd p)"]
      by (simp add: allocation_id_def)
  qed
  then have "allocation_id ` set (AList.update (allocation_key asset user market) l L)
      = insert (allocation_id (allocation_key asset user market, l)) (allocation_id ` set L)" by (intro image_update) blast
  then show ?thesis using assms(4-6) by (simp add: allocation_id_def)
qed

lemma principal_complete_step:
  assumes ok: "principal_ok es m" and complete: "principal_complete es m" and run: "replay_event chainId vaults e m = Inr m'"
  shows "principal_complete (es @ [e]) m'"
proof (cases "is_principal e")
  case False
  then have "m' = m" using run by (cases m) (simp add: replay_event_def)
  then show ?thesis
    using complete False by (simp add: principal_complete_def event_accounts_append event_allocations_append principal_event_eq)
next
  case True
  obtain A L A' L' where m: "m = (A, L)" "m' = (A', L')" by (cases m, cases m')
  have old: "list_all account_ok A" "list_all allocation_ok L" using ok by (simp_all add: principal_ok_def m)
  obtain asset user vault n s where f: "principal_fields chainId vaults e = Inr (asset, user, vault, n, s)"
    and A': "A' = AList.update (account_key asset user) ((old_account A asset user vault s)
       \<lparr>pa_deposited := pa_deposited (old_account A asset user vault s) + deposit_of e,
        pa_allocated := pa_allocated (old_account A asset user vault s) + lock_of e, pa_source := s\<rparr>) A"
    and moves: "moves_allocation e \<longrightarrow> (let market = event_text e ''marketId'' in is_lower_hex 64 market
       \<and> L' = AList.update (allocation_key asset user market) ((old_allocation L asset user market s)
          \<lparr>pl_amount := pl_amount (old_allocation L asset user market s) + lock_of e, pl_source := s\<rparr>) L
       \<and> 0 \<le> pl_amount (old_allocation L asset user market s) + lock_of e)"
    and stays: "\<not> moves_allocation e \<longrightarrow> L' = L \<and> lock_of e = 0"
    by (rule replay_event_Inr [OF run [unfolded m] True])
  have at: "event_text e ''assetUid'' = asset" "lower (event_text e ''user'') = user" "is_lower_hex 64 asset" "is_lower_hex 40 user"
    using principal_fields_Inr [OF f] by simp_all
  have accounts: "account_id ` set A' = insert (asset, user) (account_id ` set A)"
    unfolding A' by (rule account_image_update [OF old(1) at(3)]) (simp_all add: old_account_identity [OF old(1) at(3)])
  have mv: "moves_allocation e \<longleftrightarrow> ev_name e = ''AllocationLocked'' \<or> ev_name e = ''AllocationReleased''"
    by (simp add: moves_allocation_def)
  have allocations: "allocation_id ` set L' = (if moves_allocation e
      then insert (asset, user, event_text e ''marketId'') (allocation_id ` set L) else allocation_id ` set L)"
  proof (cases "moves_allocation e")
    case moving: True
    then have L': "L' = AList.update (allocation_key asset user (event_text e ''marketId''))
        ((old_allocation L asset user (event_text e ''marketId'') s)
          \<lparr>pl_amount := pl_amount (old_allocation L asset user (event_text e ''marketId'') s) + lock_of e, pl_source := s\<rparr>) L"
      using moves by (simp add: Let_def)
    show ?thesis unfolding L' using moving
      by (simp add: allocation_image_update [OF old(2) at(3,4)] old_allocation_identity [OF old(2) at(3,4)] del: old_allocation_amount)
  qed (use stays in simp)
  show ?thesis
    using complete accounts allocations True at(1,2) mv
    by (simp add: principal_complete_def m event_accounts_append event_allocations_append principal_event_eq)
qed

section \<open>A full replay\<close>

lemma balance_of_sums:
  "list_all allocation_ok L \<Longrightarrow> is_lower_hex 64 a
    \<Longrightarrow> balance_of (fold add_sum L S) (account_key a u) = balance_of S (account_key a u) + allocated_for a u L"
proof (induction L arbitrary: S)
  case (Cons p L)
  have "account_key a u = account_key (pl_assetUid (snd p)) (pl_user (snd p)) \<longleftrightarrow> pl_assetUid (snd p) = a \<and> pl_user (snd p) = u"
    using Cons.prems account_key_eq [of a "pl_assetUid (snd p)" u] by (auto simp: allocation_ok_def case_prod_unfold)
  then show ?case
    using Cons.IH [of "add_sum p S"] Cons.prems by (simp add: add_sum_def case_prod_unfold Let_def allocated_for_def amount_for_def)
qed (simp add: allocated_for_def)

lemma principal_ok_start: "principal_ok [] ([], [])"
  by (simp add: principal_ok_def amount_at_def allocated_for_def)

lemma replay_ok: "foldR (replay_event chainId vaults) es ([], []) = Inr m \<Longrightarrow> principal_ok es m"
  by (rule foldR_invariant [where P = principal_ok, OF _ principal_ok_start]) (auto intro: principal_ok_step)

lemma principal_complete_start: "principal_complete [] ([], [])"
  by (simp add: principal_complete_def event_accounts_append event_allocations_append)

lemma replay_complete:
  assumes "foldR (replay_event chainId vaults) es ([], []) = Inr m"
  shows "principal_complete es m"
proof -
  have "principal_ok es m \<and> principal_complete es m"
    by (rule foldR_invariant [where P = "\<lambda>es m. principal_ok es m \<and> principal_complete es m", OF assms])
      (auto intro: principal_ok_start principal_complete_start principal_ok_step principal_complete_step)
  then show ?thesis ..
qed

lemma entry_amount:
  "distinct (keys_of A) \<Longrightarrow> (k, a) \<in> set A \<Longrightarrow> amount_at f A k = f a"
  by (simp add: amount_at_def)

lemma account_sums:
  assumes "principal_ok es (A, L)" and "(k, a) \<in> set A"
  shows "k = account_key (pa_assetUid a) (pa_user a)"
    and "is_lower_hex 64 (pa_assetUid a)" and "is_lower_hex 40 (pa_user a)" and "0 \<le> pa_allocated a" and "pa_allocated a \<le> pa_deposited a"
    and "pa_deposited a = net_deposits (of_account (pa_assetUid a) (pa_user a)) es"
    and "pa_allocated a = allocated_for (pa_assetUid a) (pa_user a) L"
proof -
  have "account_ok (k, a)" using assms by (auto simp: principal_ok_def list_all_iff)
  then show shape: "k = account_key (pa_assetUid a) (pa_user a)" "is_lower_hex 64 (pa_assetUid a)" "is_lower_hex 40 (pa_user a)"
    "0 \<le> pa_allocated a" "pa_allocated a \<le> pa_deposited a" by (simp_all add: account_ok_def)
  have "distinct (keys_of A)" using assms(1) by (simp add: principal_ok_def)
  from entry_amount [OF this assms(2)] shape assms(1)
  show "pa_deposited a = net_deposits (of_account (pa_assetUid a) (pa_user a)) es"
    "pa_allocated a = allocated_for (pa_assetUid a) (pa_user a) L"
    by (simp_all add: principal_ok_def) (metis+)
qed

text \<open>The final check of a full replay never fails.\<close>

lemma full_replay: "replayPrincipal es chainId vaults None = foldR (replay_event chainId vaults) es ([], [])"
proof (cases "foldR (replay_event chainId vaults) es ([], [])")
  case (Inr m)
  obtain A L where m: "m = (A, L)" by (cases m)
  note ok = replay_ok [OF Inr, unfolded m]
  have "balance_of (fold add_sum L []) k = pa_allocated a" if "(k, a) \<in> set A" for k a
    using balance_of_sums [of L "pa_assetUid a" "[]" "pa_user a"] account_sums [OF ok that] ok by (simp add: principal_ok_def)
  then have "\<not> list_ex (\<lambda>(k, a). balance_of (fold add_sum L []) k \<noteq> pa_allocated a) A" by (auto simp: list_ex_iff)
  then show ?thesis by (simp add: replayPrincipal_def Inr m Let_def)
qed (simp add: replayPrincipal_def)

lemma allocation_sums:
  assumes "principal_ok es (A, L)" and "(k, l) \<in> set L"
  shows "0 \<le> pl_amount l" and "pl_amount l = net_locks (of_allocation (pl_assetUid l) (pl_user l) (pl_marketId l)) es"
proof -
  have ok: "allocation_ok (k, l)" using assms by (auto simp: principal_ok_def list_all_iff)
  then show "0 \<le> pl_amount l" by (simp add: allocation_ok_def)
  have "distinct (keys_of L)" using assms(1) by (simp add: principal_ok_def)
  from entry_amount [OF this assms(2), of pl_amount] ok assms(1)
  show "pl_amount l = net_locks (of_allocation (pl_assetUid l) (pl_user l) (pl_marketId l)) es"
    by (simp add: principal_ok_def allocation_ok_def)
qed

lemma account_ids_distinct:
  assumes "principal_ok es (A, L)"
  shows "distinct (map account_id A)"
proof -
  have "list_all account_ok A" "distinct (keys_of A)" using assms by (simp_all add: principal_ok_def)
  then have "map fst A = map (\<lambda>i. account_key (fst i) (snd i)) (map account_id A)"
    by (auto simp: list_all_iff account_ok_def account_id_def)
  with \<open>distinct (keys_of A)\<close> have "distinct (map (\<lambda>i. account_key (fst i) (snd i)) (map account_id A))" by simp
  then show ?thesis by (simp only: distinct_map)
qed

lemma allocation_ids_distinct:
  assumes "principal_ok es (A, L)"
  shows "distinct (map allocation_id L)"
proof -
  have "list_all allocation_ok L" "distinct (keys_of L)" using assms by (simp_all add: principal_ok_def)
  then have "map fst L = map (\<lambda>i. allocation_key (fst i) (fst (snd i)) (snd (snd i))) (map allocation_id L)"
    by (auto simp: list_all_iff allocation_ok_def allocation_id_def)
  with \<open>distinct (keys_of L)\<close> have "distinct (map (\<lambda>i. allocation_key (fst i) (fst (snd i)) (snd (snd i))) (map allocation_id L))" by simp
  then show ?thesis by (simp only: distinct_map)
qed

text \<open>C5: Principal is conserved, and no account is left out. A replay of the vault's events that succeeds returns
  one account for every asset and user that a deposit, withdrawal, lock or release of the vault names, and one
  allocation for every asset, user and market that a lock or release names, each once, and no others. An account
  holds its deposits less its withdrawals, of which between none and all are allocated, namely the sum of its
  allocations; and every allocation is what was locked less what was released in its market, never negative.
  The final comparison of the sums with the accounts cannot fail: the replay fails exactly when an event does.\<close>

theorem principal_conserved:
  assumes "replayPrincipal es chainId vaults None = Inr (A, L)"
  shows "distinct (map account_id A) \<and> set (map account_id A) = event_accounts es
    \<and> distinct (map allocation_id L) \<and> set (map allocation_id L) = event_allocations es
    \<and> (\<forall>a\<in>snd ` set A. 0 \<le> pa_allocated a \<and> pa_allocated a \<le> pa_deposited a
        \<and> pa_deposited a = net_deposits (of_account (pa_assetUid a) (pa_user a)) es
        \<and> pa_allocated a = (\<Sum>p\<leftarrow>L. if pl_assetUid (snd p) = pa_assetUid a \<and> pl_user (snd p) = pa_user a then pl_amount (snd p) else 0))
    \<and> (\<forall>l\<in>snd ` set L. 0 \<le> pl_amount l \<and> pl_amount l = net_locks (of_allocation (pl_assetUid l) (pl_user l) (pl_marketId l)) es)
    \<and> (\<forall>es'. replayPrincipal es' chainId vaults None = foldR (replay_event chainId vaults) es' ([], []))"
proof -
  have run: "foldR (replay_event chainId vaults) es ([], []) = Inr (A, L)" using assms full_replay by metis
  note ok = replay_ok [OF run]
  have ids: "set (map account_id A) = event_accounts es" "set (map allocation_id L) = event_allocations es"
    using replay_complete [OF run] by (simp_all add: principal_complete_def)
  have accounts: "\<forall>a\<in>snd ` set A. 0 \<le> pa_allocated a \<and> pa_allocated a \<le> pa_deposited a
        \<and> pa_deposited a = net_deposits (of_account (pa_assetUid a) (pa_user a)) es
        \<and> pa_allocated a = (\<Sum>p\<leftarrow>L. if pl_assetUid (snd p) = pa_assetUid a \<and> pl_user (snd p) = pa_user a then pl_amount (snd p) else 0)"
    using account_sums [OF ok] by (auto simp: allocated_for_def amount_for_def)
  have allocations: "\<forall>l\<in>snd ` set L. 0 \<le> pl_amount l \<and> pl_amount l = net_locks (of_allocation (pl_assetUid l) (pl_user l) (pl_marketId l)) es"
    using allocation_sums [OF ok] by auto
  show ?thesis
    using ids accounts allocations account_ids_distinct [OF ok] allocation_ids_distinct [OF ok] full_replay by blast
qed

text \<open>A deposit of five, three of which are then locked in a market.\<close>

definition sample_vault :: string where "sample_vault = hex_lit 40 CHR ''2''"

definition sample_deposit :: decoded_event where
  "sample_deposit = \<lparr>ev_module = ''UserStockVault'', ev_name = ''StockDeposited'',
     ev_args = [(''assetUid'', JStr (hex_lit 64 CHR ''c'')), (''user'', JStr (hex_lit 40 CHR ''A'')), (''amount'', JBig 5)],
     ev_log = \<lparr>lg_address = sample_vault, lg_blockHash = hex_lit 64 CHR ''b'', lg_blockNumber = 1, lg_transactionHash = hex_lit 64 CHR ''d'',
       lg_transactionIndex = 0, lg_logIndex = 0\<rparr>\<rparr>"

definition sample_vaults :: "string \<Rightarrow> string option" where
  "sample_vaults = (\<lambda>asset. if asset = hex_lit 64 CHR ''c'' then Some sample_vault else None)"

definition sample_lock :: decoded_event where
  "sample_lock = \<lparr>ev_module = ''UserStockVault'', ev_name = ''AllocationLocked'',
     ev_args = [(''assetUid'', JStr (hex_lit 64 CHR ''c'')), (''user'', JStr (hex_lit 40 CHR ''A'')), (''amount'', JBig 3),
       (''marketId'', JStr (hex_lit 64 CHR ''e'')), (''userMarketAllocation'', JBig 3), (''userTotalAllocated'', JBig 3)],
     ev_log = (ev_log sample_deposit)\<lparr>lg_logIndex := 1\<rparr>\<rparr>"

lemma principal_conserved_witness:
  "\<exists>A L. replayPrincipal [sample_deposit, sample_lock] 1 sample_vaults None = Inr (A, L) \<and> length A = 1 \<and> length L = 1
     \<and> (\<forall>a\<in>snd ` set A. pa_deposited a = net_deposits (of_account (pa_assetUid a) (pa_user a)) [sample_deposit, sample_lock])
     \<and> (\<forall>l\<in>snd ` set L. pl_amount l = net_locks (of_allocation (pl_assetUid l) (pl_user l) (pl_marketId l)) [sample_deposit, sample_lock])"
proof -
  have "case replayPrincipal [sample_deposit, sample_lock] 1 sample_vaults None of Inl _ \<Rightarrow> False | Inr (A, L) \<Rightarrow> length A = 1 \<and> length L = 1" by code_simp
  then obtain A L where run: "replayPrincipal [sample_deposit, sample_lock] 1 sample_vaults None = Inr (A, L)" "length A = 1" "length L = 1"
    by (auto split: sum.splits prod.splits)
  note total = principal_conserved [OF run(1)]
  show ?thesis by (rule exI [of _ A], rule exI [of _ L], intro conjI run) (use total in simp_all)
qed

end
