(* ===== verification/Principal_Store.thy ===== *)
theory Principal_Store imports Principal_Ledger begin

text \<open>
  The stored ledger of packages/principal-projector/src/incremental.ts: rows keyed by identity, the work they
  leave for verification, one transaction per event; and that it is the replay of the events.
\<close>

section \<open>The stored ledger\<close>

text \<open>
  The rows of \<open>principal_ledger\<close> and of \<open>principal_work\<close> of one generation and candidate. The payload is the
  entry itself; its constructor is the column \<open>kind\<close>.
\<close>

datatype ledger_payload = AccountPayload principal_account | PositionPayload principal_allocation

datatype ledger_kind = Accounts | Positions

record ledger_row =
  ld_kind :: ledger_kind
  ld_identity :: string
  ld_user :: string
  ld_asset :: string
  ld_market :: "string option"
  ld_payload :: ledger_payload

record work_row =
  wk_kind :: ledger_kind
  wk_identity :: string
  wk_done :: bool

record principal_store =
  ps_ledger :: "ledger_row list"
  ps_work :: "work_row list"

definition accountId :: "string \<Rightarrow> string \<Rightarrow> string" where
  "accountId user asset = user @ '':'' @ asset"

definition positionId :: "string \<Rightarrow> string \<Rightarrow> string \<Rightarrow> string" where
  "positionId user asset market = user @ '':'' @ asset @ '':'' @ market"

definition account_row :: "principal_account \<Rightarrow> ledger_row" where
  "account_row a = \<lparr>ld_kind = Accounts, ld_identity = accountId (pa_user a) (pa_assetUid a), ld_user = pa_user a, ld_asset = pa_assetUid a,
     ld_market = None, ld_payload = AccountPayload a\<rparr>"

definition position_row :: "principal_allocation \<Rightarrow> ledger_row" where
  "position_row l = \<lparr>ld_kind = Positions, ld_identity = positionId (pl_user l) (pl_assetUid l) (pl_marketId l), ld_user = pl_user l,
     ld_asset = pl_assetUid l, ld_market = Some (pl_marketId l), ld_payload = PositionPayload l\<rparr>"

text \<open>\<open>INSERT ... ON CONFLICT ... DO UPDATE\<close> on the primary key, and \<open>DO NOTHING\<close> for work.\<close>

definition same_key :: "ledger_row \<Rightarrow> ledger_row \<Rightarrow> bool" where
  "same_key r s \<longleftrightarrow> ld_kind s = ld_kind r \<and> ld_identity s = ld_identity r"

definition upsert_row :: "ledger_row \<Rightarrow> ledger_row list \<Rightarrow> ledger_row list" where
  "upsert_row r rows = (if list_ex (same_key r) rows
     then map (\<lambda>s. if same_key r s then s\<lparr>ld_payload := ld_payload r\<rparr> else s) rows else rows @ [r])"

definition insert_work :: "ledger_row \<Rightarrow> work_row list \<Rightarrow> work_row list" where
  "insert_work r work = (if list_ex (\<lambda>w. wk_kind w = ld_kind r \<and> wk_identity w = ld_identity r) work then work
     else work @ [\<lparr>wk_kind = ld_kind r, wk_identity = ld_identity r, wk_done = False\<rparr>])"

definition write_row :: "ledger_row \<Rightarrow> principal_store \<Rightarrow> principal_store" where
  "write_row r st = \<lparr>ps_ledger = upsert_row r (ps_ledger st), ps_work = insert_work r (ps_work st)\<rparr>"

text \<open>\<open>String(value)\<close> of an event argument, \<open>undefined\<close> when it is missing; \<open>value ? String(value) : null\<close>.\<close>

definition string_arg :: "js_value \<Rightarrow> string" where
  "string_arg v = (case v of JStr s \<Rightarrow> s | JBig i \<Rightarrow> show_int i | JNum i \<Rightarrow> show_int i | JOther \<Rightarrow> ''undefined'')"

definition truthy_arg :: "js_value \<Rightarrow> string option" where
  "truthy_arg v = (case v of JStr s \<Rightarrow> if s = [] then None else Some s
     | JBig i \<Rightarrow> if i = 0 then None else Some (show_int i) | JNum i \<Rightarrow> if i = 0 then None else Some (show_int i) | JOther \<Rightarrow> None)"

definition null_text :: "string option \<Rightarrow> string" where
  "null_text v = (case v of None \<Rightarrow> ''null'' | Some s \<Rightarrow> s)"

text \<open>The entries an event concerns, read from the rows of their identities.\<close>

fun seed_row :: "string \<Rightarrow> string \<Rightarrow> string option \<Rightarrow> ledger_row \<Rightarrow> principal_maps \<Rightarrow> principal_maps" where
  "seed_row asset user market r (accounts, allocations) = (case ld_payload r of
     AccountPayload a \<Rightarrow> (AList.update (account_key asset user) a accounts, allocations)
   | PositionPayload l \<Rightarrow> (accounts, AList.update (allocation_key asset user (null_text market)) l allocations))"

definition position_amount :: "ledger_row \<Rightarrow> int" where
  "position_amount r = (case ld_payload r of AccountPayload _ \<Rightarrow> 0 | PositionPayload l \<Rightarrow> pl_amount l)"

definition positions_of :: "string \<Rightarrow> string \<Rightarrow> ledger_row list \<Rightarrow> ledger_row list" where
  "positions_of user asset = filter (\<lambda>r. ld_kind r = Positions \<and> ld_user r = user \<and> ld_asset r = asset)"

definition applyEvent :: "int \<Rightarrow> (string \<Rightarrow> string option) \<Rightarrow> decoded_event \<Rightarrow> principal_store \<Rightarrow> principal_store res" where
  "applyEvent chainId vaults e st =
    (let user = lower (string_arg (arg (ev_args e) ''user''));
         asset = string_arg (arg (ev_args e) ''assetUid'');
         market = truthy_arg (arg (ev_args e) ''marketId'');
         keys = accountId user asset # (case market of None \<Rightarrow> [] | Some k \<Rightarrow> [positionId user asset k]);
         seed = fold (seed_row asset user market) (filter (\<lambda>r. ld_identity r \<in> set keys) (ps_ledger st)) ([], [])
     in bindR (replayPrincipal [e] chainId vaults (Some seed)) (\<lambda>(accounts, allocations).
          let st' = fold write_row (map (account_row \<circ> snd) accounts @ map (position_row \<circ> snd) allocations) st;
              total = (\<Sum>r\<leftarrow>positions_of user asset (ps_ledger st'). position_amount r)
          in case map_of accounts (account_key asset user) of
               None \<Rightarrow> Inl (TypeError ''Cannot read properties of undefined'')
             | Some a \<Rightarrow>
               if total \<noteq> pa_allocated a then Inl (Error ''allocation components do not equal account allocated total'')
               else Inr (st'\<lparr>ps_work := fold insert_work (positions_of user asset (ps_ledger st')) (ps_work st')\<rparr>)))"

section \<open>One event needs only its own entries\<close>

definition own_account :: "decoded_event \<Rightarrow> string" where
  "own_account e = account_key (event_text e ''assetUid'') (lower (event_text e ''user''))"

definition own_allocation :: "decoded_event \<Rightarrow> string" where
  "own_allocation e = allocation_key (event_text e ''assetUid'') (lower (event_text e ''user'')) (event_text e ''marketId'')"

text \<open>Two runs of an event fail alike, or make the same changes.\<close>

definition same_change :: "decoded_event \<Rightarrow> principal_maps \<Rightarrow> principal_maps \<Rightarrow> principal_maps res \<Rightarrow> principal_maps res \<Rightarrow> bool" where
  "same_change e m m' r r' \<longleftrightarrow> (case r of Inl x \<Rightarrow> r' = Inl x
     | Inr n \<Rightarrow> \<exists>a l. n = (AList.update (own_account e) a (fst m), if moves_allocation e then AList.update (own_allocation e) l (snd m) else snd m)
         \<and> r' = Inr (AList.update (own_account e) a (fst m'), if moves_allocation e then AList.update (own_allocation e) l (snd m') else snd m'))"

lemma allocate_local:
  assumes "map_of L (allocation_key asset user (case arg a ''marketId'' of JStr k \<Rightarrow> k | _ \<Rightarrow> []))
      = map_of L' (allocation_key asset user (case arg a ''marketId'' of JStr k \<Rightarrow> k | _ \<Rightarrow> []))"
  shows "(\<exists>x. allocate a locked n s asset user account L = Inl x \<and> allocate a locked n s asset user account L' = Inl x)
    \<or> (\<exists>y l k. arg a ''marketId'' = JStr k \<and> allocate a locked n s asset user account L = Inr (y, AList.update (allocation_key asset user k) l L)
        \<and> allocate a locked n s asset user account L' = Inr (y, AList.update (allocation_key asset user k) l L'))"
proof (cases "principal_hash (arg a ''marketId'') ''marketId''")
  case (Inr k)
  then have k: "arg a ''marketId'' = JStr k" by (simp add: principal_hash_Inr)
  then have old: "old_allocation L' asset user k s = old_allocation L asset user k s" using assms by (simp add: old_allocation_def)
  show ?thesis
  proof (cases "principal_uint (arg a ''userMarketAllocation'') ''market allocation''")
    case (Inl x)
    then show ?thesis unfolding allocate_def Inr bindR_simps Let_def old by simp
  next
    case um: (Inr u)
    show ?thesis
    proof (cases "principal_uint (arg a ''userTotalAllocated'') ''total allocation''")
      case (Inl x)
      then show ?thesis unfolding allocate_def Inr bindR_simps Let_def old um by simp
    next
      case ut: (Inr t)
      then show ?thesis unfolding allocate_def Inr bindR_simps Let_def old um ut by (auto simp: k)
    qed
  qed
qed (simp add: allocate_def)

lemma replay_event_local:
  assumes e: "is_principal e" and "map_of (fst m) (own_account e) = map_of (fst m') (own_account e)"
    and "moves_allocation e \<Longrightarrow> map_of (snd m) (own_allocation e) = map_of (snd m') (own_allocation e)"
  shows "same_change e m m' (replay_event chainId vaults e m) (replay_event chainId vaults e m')"
proof (cases "principal_fields chainId vaults e")
  case (Inl x)
  then show ?thesis using e by (simp add: replay_event_def case_prod_unfold same_change_def)
next
  case (Inr f)
  obtain asset user vault n s where f: "f = (asset, user, vault, n, s)" by (cases f)
  note fields = Inr [unfolded f]
  have at: "event_text e ''assetUid'' = asset" "lower (event_text e ''user'') = user" using principal_fields_Inr [OF fields] by simp_all
  have own: "own_account e = account_key asset user" "own_allocation e = allocation_key asset user (event_text e ''marketId'')"
    by (simp_all add: own_account_def own_allocation_def at)
  have old: "old_account (fst m') asset user vault s = old_account (fst m) asset user vault s"
    using assms(2) by (simp add: old_account_def own)
  define b where "b = old_account (fst m) asset user vault s"
  have unfold: "replay_event chainId vaults e q = bindR (if ev_name e = ''StockDeposited'' then Inr (b\<lparr>pa_deposited := pa_deposited b + n\<rparr>, snd q)
                else if ev_name e = ''StockWithdrawn'' then Inr (b\<lparr>pa_deposited := pa_deposited b - n\<rparr>, snd q)
                else allocate (ev_args e) (ev_name e = ''AllocationLocked'') n s asset user b (snd q))
         (\<lambda>(account', allocations').
           if pa_deposited account' < 0 \<or> pa_allocated account' < 0 \<or> pa_allocated account' > pa_deposited account'
           then Inl (Error ''principal conservation violation'')
           else Inr (AList.update (own_account e) (account'\<lparr>pa_source := s\<rparr>) (fst q), allocations'))"
    if "old_account (fst q) asset user vault s = b" for q
  proof -
    obtain A L where q: "q = (A, L)" by (cases q)
    have b: "old_account A asset user vault s = b" using that by (simp add: q)
    have "\<not> is_principal e \<longleftrightarrow> False" using e by simp
    then show ?thesis unfolding q replay_event_def prod.case fields bindR_simps Let_def b own fst_conv snd_conv by (simp only: if_False)
  qed
  note run = unfold [of m, OF b_def [symmetric]] and run' = unfold [of m', OF old [folded b_def]]
  show ?thesis
  proof (cases "moves_allocation e")
    case False
    then have names: "ev_name e = ''StockDeposited'' \<or> ev_name e = ''StockWithdrawn''" using e by (auto simp: moves_allocation_def is_principal_def)
    show ?thesis unfolding run run' same_change_def using False names by (elim disjE) (simp_all split: if_splits, auto)
  next
    case True
    then have names: "ev_name e \<noteq> ''StockDeposited''" "ev_name e \<noteq> ''StockWithdrawn''" by (auto simp: moves_allocation_def)
    have look: "map_of (snd m) (allocation_key asset user (event_text e ''marketId'')) = map_of (snd m') (allocation_key asset user (event_text e ''marketId''))"
      using assms(3) [OF True] by (simp add: own)
    from allocate_local [OF look [unfolded event_text_def], of "ev_name e = ''AllocationLocked''" n s b] show ?thesis
    proof (elim disjE exE conjE, goal_cases)
      case (1 x)
      then show ?case unfolding run run' same_change_def using names by simp
    next
      case (2 y l k)
      have "own_allocation e = allocation_key asset user k" using 2(1) by (simp add: own event_text_def)
      then show ?case unfolding run run' same_change_def using names True 2 by auto
    qed
  qed
qed

section \<open>The stored ledger represents the replay\<close>

definition represents :: "ledger_row list \<Rightarrow> principal_maps \<Rightarrow> bool" where
  "represents rows = (\<lambda>(A, L). distinct (map (\<lambda>r. (ld_kind r, ld_identity r)) rows)
     \<and> set rows = account_row ` snd ` set A \<union> position_row ` snd ` set L)"

lemma accountId_eq: "is_lower_hex 40 u \<Longrightarrow> is_lower_hex 40 u' \<Longrightarrow> accountId u a = accountId u' a' \<longleftrightarrow> u = u' \<and> a = a'"
  by (simp add: accountId_def is_lower_hex_def)

lemma positionId_eq: "is_lower_hex 40 u \<Longrightarrow> is_lower_hex 40 u' \<Longrightarrow> is_lower_hex 64 a \<Longrightarrow> is_lower_hex 64 a'
    \<Longrightarrow> positionId u a k = positionId u' a' k' \<longleftrightarrow> u = u' \<and> a = a' \<and> k = k'"
  by (simp add: positionId_def is_lower_hex_def)

lemma account_not_position: "is_lower_hex 40 u \<Longrightarrow> is_lower_hex 40 u' \<Longrightarrow> is_lower_hex 64 a \<Longrightarrow> is_lower_hex 64 a'
    \<Longrightarrow> accountId u a \<noteq> positionId u' a' k"
proof
  assume "is_lower_hex 40 u" "is_lower_hex 40 u'" "is_lower_hex 64 a" "is_lower_hex 64 a'" "accountId u a = positionId u' a' k"
  then have "length (accountId u a) = 109" "length (positionId u' a' k) > 109"
    by (simp_all add: accountId_def positionId_def is_lower_hex_def)
  with \<open>accountId u a = positionId u' a' k\<close> show False by simp
qed

lemma row_simps [simp]:
  "ld_kind (account_row a) = Accounts" "ld_identity (account_row a) = accountId (pa_user a) (pa_assetUid a)"
  "ld_kind (position_row l) = Positions" "ld_identity (position_row l) = positionId (pl_user l) (pl_assetUid l) (pl_marketId l)"
  "ld_payload (account_row a) = AccountPayload a" "ld_payload (position_row l) = PositionPayload l"
  "ld_user (position_row l) = pl_user l" "ld_asset (position_row l) = pl_assetUid l"
  by (simp_all add: account_row_def position_row_def)

lemma row_inject [simp]:
  "account_row a = account_row b \<longleftrightarrow> a = b" "position_row l = position_row k \<longleftrightarrow> l = k" "account_row a \<noteq> position_row l" "position_row l \<noteq> account_row a"
  by (auto simp: account_row_def position_row_def)

lemma set_update: "distinct (keys_of m) \<Longrightarrow> snd ` set (AList.update k v m) = insert v (snd ` {p \<in> set m. fst p \<noteq> k})"
proof -
  assume d: "distinct (keys_of m)"
  have "set (AList.update k v m) = insert (k, v) {p \<in> set m. fst p \<noteq> k}"
    using d by (induction m) (auto simp: image_iff)
  then show ?thesis by auto
qed

lemma upsert_keys: "distinct (map (\<lambda>r. (ld_kind r, ld_identity r)) rows) \<Longrightarrow> distinct (map (\<lambda>r. (ld_kind r, ld_identity r)) (upsert_row r rows))"
proof (cases "list_ex (same_key r) rows")
  case True
  have "map (\<lambda>x. (ld_kind x, ld_identity x)) (map (\<lambda>s. if same_key r s then s\<lparr>ld_payload := ld_payload r\<rparr> else s) rows)
      = map (\<lambda>x. (ld_kind x, ld_identity x)) rows"
    by (simp add: comp_def)
  then show "distinct (map (\<lambda>r. (ld_kind r, ld_identity r)) rows) \<Longrightarrow> ?thesis" using True by (simp only: upsert_row_def if_True)
next
  case False
  then show "distinct (map (\<lambda>r. (ld_kind r, ld_identity r)) rows) \<Longrightarrow> ?thesis"
    by (auto simp: upsert_row_def list_ex_iff same_key_def)
qed

lemma upsert_set:
  assumes "\<forall>s\<in>set rows. same_key r s \<longrightarrow> s\<lparr>ld_payload := ld_payload r\<rparr> = r"
  shows "set (upsert_row r rows) = insert r {s \<in> set rows. \<not> same_key r s}"
proof (cases "list_ex (same_key r) rows")
  case True
  then show ?thesis using assms by (auto simp: upsert_row_def list_ex_iff image_iff)
next
  case False
  then show ?thesis by (auto simp: upsert_row_def list_ex_iff)
qed

lemma upsert_account:
  assumes rep: "represents rows (A, L)" and ok: "list_all account_ok A" "distinct (keys_of A)"
    and a: "account_ok (account_key asset user, a)" "pa_assetUid a = asset" "pa_user a = user"
  shows "represents (upsert_row (account_row a) rows) (AList.update (account_key asset user) a A, L)"
proof -
  have rows: "set rows = account_row ` snd ` set A \<union> position_row ` snd ` set L" using rep by (simp add: represents_def)
  have key: "same_key (account_row a) (account_row (snd p)) \<longleftrightarrow> fst p = account_key asset user" if "p \<in> set A" for p
  proof -
    have "account_ok p" using ok(1) that by (simp add: list_all_iff)
    then show ?thesis using a accountId_eq [of "pa_user (snd p)" user] account_key_eq [of "pa_assetUid (snd p)" asset]
      by (auto simp: same_key_def account_ok_def case_prod_unfold)
  qed
  have pos: "\<not> same_key (account_row a) (position_row l)" for l by (simp add: same_key_def)
  have "s\<lparr>ld_payload := ld_payload (account_row a)\<rparr> = account_row a" if s: "s \<in> set rows" "same_key (account_row a) s" for s
  proof -
    obtain p where p: "p \<in> set A" "s = account_row (snd p)" using s rows pos by auto
    have "account_ok p" using ok(1) p(1) by (simp add: list_all_iff)
    then have "pa_user (snd p) = user \<and> pa_assetUid (snd p) = asset"
      using s(2) a accountId_eq [of "pa_user (snd p)" user] by (auto simp: p(2) same_key_def account_ok_def case_prod_unfold)
    then show ?thesis using a by (simp add: p(2) account_row_def)
  qed
  then have "set (upsert_row (account_row a) rows) = insert (account_row a) {s \<in> set rows. \<not> same_key (account_row a) s}"
    by (intro upsert_set) blast
  also have "{s \<in> set rows. \<not> same_key (account_row a) s} = account_row ` snd ` {p \<in> set A. fst p \<noteq> account_key asset user} \<union> position_row ` snd ` set L"
    unfolding rows using key pos by blast
  finally show ?thesis
    using rep upsert_keys by (auto simp: represents_def set_update [OF ok(2)])
qed

lemma upsert_position:
  assumes rep: "represents rows (A, L)" and ok: "list_all allocation_ok L" "distinct (keys_of L)"
    and l: "allocation_ok (allocation_key asset user k, l)" "pl_assetUid l = asset" "pl_user l = user" "pl_marketId l = k"
  shows "represents (upsert_row (position_row l) rows) (A, AList.update (allocation_key asset user k) l L)"
proof -
  have rows: "set rows = account_row ` snd ` set A \<union> position_row ` snd ` set L" using rep by (simp add: represents_def)
  have key: "same_key (position_row l) (position_row (snd p)) \<longleftrightarrow> fst p = allocation_key asset user k" if "p \<in> set L" for p
  proof -
    have "allocation_ok p" using ok(1) that by (simp add: list_all_iff)
    then show ?thesis using l positionId_eq [of "pl_user (snd p)" user "pl_assetUid (snd p)" asset]
        allocation_key_eq [of "pl_assetUid (snd p)" asset "pl_user (snd p)" user]
      by (auto simp: same_key_def allocation_ok_def case_prod_unfold)
  qed
  have acc: "\<not> same_key (position_row l) (account_row a)" for a by (simp add: same_key_def)
  have "s\<lparr>ld_payload := ld_payload (position_row l)\<rparr> = position_row l" if s: "s \<in> set rows" "same_key (position_row l) s" for s
  proof -
    obtain p where p: "p \<in> set L" "s = position_row (snd p)" using s rows acc by auto
    have "allocation_ok p" using ok(1) p(1) by (simp add: list_all_iff)
    then have "pl_user (snd p) = user \<and> pl_assetUid (snd p) = asset \<and> pl_marketId (snd p) = k"
      using s(2) l positionId_eq [of "pl_user (snd p)" user "pl_assetUid (snd p)" asset] by (auto simp: p(2) same_key_def allocation_ok_def case_prod_unfold)
    then show ?thesis using l by (simp add: p(2) position_row_def)
  qed
  then have "set (upsert_row (position_row l) rows) = insert (position_row l) {s \<in> set rows. \<not> same_key (position_row l) s}"
    by (intro upsert_set) blast
  also have "{s \<in> set rows. \<not> same_key (position_row l) s} = account_row ` snd ` set A \<union> position_row ` snd ` {p \<in> set L. fst p \<noteq> allocation_key asset user k}"
    unfolding rows using key acc by blast
  finally show ?thesis
    using rep upsert_keys by (auto simp: represents_def set_update [OF ok(2)])
qed

section \<open>The seed of an event\<close>

lemma filter_only: "distinct xs \<Longrightarrow> (\<And>x. x \<in> set xs \<Longrightarrow> P x \<longleftrightarrow> x = y) \<Longrightarrow> filter P xs = (if y \<in> set xs then [y] else [])"
  by (induction xs) (auto simp: filter_empty_conv)

lemma seed_rows:
  "fold (seed_row asset user market) rs m
    = (fold (\<lambda>r A. case ld_payload r of AccountPayload a \<Rightarrow> AList.update (account_key asset user) a A | _ \<Rightarrow> A) rs (fst m),
       fold (\<lambda>r L. case ld_payload r of PositionPayload l \<Rightarrow> AList.update (allocation_key asset user (null_text market)) l L | _ \<Rightarrow> L) rs (snd m))"
proof (induction rs arbitrary: m)
  case (Cons r rs)
  then show ?case by (cases m) (simp split: ledger_payload.split)
qed simp

lemma fold_filter: "(\<And>x s. x \<in> set xs \<Longrightarrow> \<not> P x \<Longrightarrow> f x s = s) \<Longrightarrow> fold f xs s = fold f (filter P xs) s"
  by (induction xs arbitrary: s) auto

text \<open>The rows of one account, and of one allocation, among those of the ledger.\<close>

lemma account_rows:
  assumes rep: "represents rows (A, L)" and ok: "list_all account_ok A" "distinct (keys_of A)" "list_all allocation_ok L"
    and hex: "is_lower_hex 64 asset" "is_lower_hex 40 user" and keys: "accountId user asset \<in> K" "\<forall>k\<in>K. k = accountId user asset \<or> (\<exists>m. k = positionId user asset m)"
  shows "filter (\<lambda>r. ld_kind r = Accounts \<and> ld_identity r \<in> K) rows
    = (case map_of A (account_key asset user) of None \<Rightarrow> [] | Some a \<Rightarrow> [account_row a])"
proof -
  have d: "distinct rows" using rep by (auto simp: represents_def distinct_map)
  have rows: "set rows = account_row ` snd ` set A \<union> position_row ` snd ` set L" using rep by (simp add: represents_def)
  have mine: "ld_identity (account_row (snd p)) \<in> K \<longleftrightarrow> fst p = account_key asset user" if "p \<in> set A" for p
  proof -
    have p: "account_ok p" using ok(1) that by (simp add: list_all_iff)
    then have "ld_identity (account_row (snd p)) \<in> K \<longleftrightarrow> accountId (pa_user (snd p)) (pa_assetUid (snd p)) = accountId user asset"
      using keys hex account_not_position [of "pa_user (snd p)" user "pa_assetUid (snd p)" asset] by (auto simp: account_ok_def case_prod_unfold)
    then show ?thesis using p hex accountId_eq [of "pa_user (snd p)" user] account_key_eq [of "pa_assetUid (snd p)" asset]
      by (auto simp: account_ok_def case_prod_unfold)
  qed
  show ?thesis
  proof (cases "map_of A (account_key asset user)")
    case None
    then have "\<forall>p\<in>set A. fst p \<noteq> account_key asset user" by (metis map_of_eq_None_iff image_eqI)
    then have "filter (\<lambda>r. ld_kind r = Accounts \<and> ld_identity r \<in> K) rows = []"
      using mine rows by (auto simp: filter_empty_conv)
    with None show ?thesis by simp
  next
    case (Some a)
    then have a: "(account_key asset user, a) \<in> set A" by (rule map_of_SomeD)
    have only: "ld_kind r = Accounts \<and> ld_identity r \<in> K \<longleftrightarrow> r = account_row a" if r: "r \<in> set rows" for r
    proof (cases "\<exists>p\<in>set A. r = account_row (snd p)")
      case True
      then obtain p where p: "p \<in> set A" "r = account_row (snd p)" by blast
      have "fst p = account_key asset user \<longleftrightarrow> snd p = a"
      proof
        assume "fst p = account_key asset user"
        then show "snd p = a" using p(1) a ok(2) Some by (metis prod.collapse map_of_eq_Some_iff option.inject)
      next
        assume "snd p = a"
        moreover have "account_ok p" "account_ok (account_key asset user, a)" using ok(1) p(1) a by (simp_all add: list_all_iff)
        ultimately show "fst p = account_key asset user" by (auto simp: account_ok_def case_prod_unfold)
      qed
      then show ?thesis using mine [OF p(1)] by (simp add: p(2))
    next
      case False
      then obtain l where "r = position_row l" using r rows by auto
      then show ?thesis by simp
    qed
    have "snd (account_key asset user, a) \<in> snd ` set A" using a by (rule imageI)
    then have there: "account_row a \<in> set rows" unfolding rows by simp
    have "filter (\<lambda>r. ld_kind r = Accounts \<and> ld_identity r \<in> K) rows = (if account_row a \<in> set rows then [account_row a] else [])"
      by (rule filter_only [OF d]) (rule only)
    then show ?thesis unfolding Some using there by simp
  qed
qed

lemma position_rows:
  assumes rep: "represents rows (A, L)" and ok: "list_all account_ok A" "distinct (keys_of L)" "list_all allocation_ok L"
    and hex: "is_lower_hex 64 asset" "is_lower_hex 40 user" and keys: "K = {accountId user asset, positionId user asset k}"
  shows "filter (\<lambda>r. ld_kind r = Positions \<and> ld_identity r \<in> K) rows
    = (case map_of L (allocation_key asset user k) of None \<Rightarrow> [] | Some l \<Rightarrow> [position_row l])"
proof -
  have d: "distinct rows" using rep by (auto simp: represents_def distinct_map)
  have rows: "set rows = account_row ` snd ` set A \<union> position_row ` snd ` set L" using rep by (simp add: represents_def)
  have mine: "ld_identity (position_row (snd p)) \<in> K \<longleftrightarrow> fst p = allocation_key asset user k" if "p \<in> set L" for p
  proof -
    have p: "allocation_ok p" using ok(3) that by (simp add: list_all_iff)
    then have "accountId user asset \<noteq> ld_identity (position_row (snd p))"
      using hex account_not_position [of user "pl_user (snd p)" asset "pl_assetUid (snd p)"] by (simp add: allocation_ok_def case_prod_unfold)
    then show ?thesis using p hex keys positionId_eq [of "pl_user (snd p)" user "pl_assetUid (snd p)" asset]
        allocation_key_eq [of "pl_assetUid (snd p)" asset "pl_user (snd p)" user]
      by (auto simp: allocation_ok_def case_prod_unfold)
  qed
  show ?thesis
  proof (cases "map_of L (allocation_key asset user k)")
    case None
    then have "\<forall>p\<in>set L. fst p \<noteq> allocation_key asset user k" by (metis map_of_eq_None_iff image_eqI)
    then have "filter (\<lambda>r. ld_kind r = Positions \<and> ld_identity r \<in> K) rows = []"
      using mine rows by (auto simp: filter_empty_conv)
    with None show ?thesis by simp
  next
    case (Some l)
    then have l: "(allocation_key asset user k, l) \<in> set L" by (rule map_of_SomeD)
    have only: "ld_kind r = Positions \<and> ld_identity r \<in> K \<longleftrightarrow> r = position_row l" if r: "r \<in> set rows" for r
    proof (cases "\<exists>p\<in>set L. r = position_row (snd p)")
      case True
      then obtain p where p: "p \<in> set L" "r = position_row (snd p)" by blast
      have "fst p = allocation_key asset user k \<longleftrightarrow> snd p = l"
      proof
        assume "fst p = allocation_key asset user k"
        then show "snd p = l" using p(1) l ok(2) Some by (metis prod.collapse map_of_eq_Some_iff option.inject)
      next
        assume "snd p = l"
        moreover have "allocation_ok p" "allocation_ok (allocation_key asset user k, l)" using ok(3) p(1) l by (simp_all add: list_all_iff)
        ultimately show "fst p = allocation_key asset user k" by (auto simp: allocation_ok_def case_prod_unfold)
      qed
      then show ?thesis using mine [OF p(1)] by (simp add: p(2))
    next
      case False
      then obtain a where "r = account_row a" using r rows by auto
      then show ?thesis by simp
    qed
    have "snd (allocation_key asset user k, l) \<in> snd ` set L" using l by (rule imageI)
    then have there: "position_row l \<in> set rows" unfolding rows by simp
    have "filter (\<lambda>r. ld_kind r = Positions \<and> ld_identity r \<in> K) rows = (if position_row l \<in> set rows then [position_row l] else [])"
      by (rule filter_only [OF d]) (rule only)
    then show ?thesis unfolding Some using there by simp
  qed
qed

lemma kinds:
  assumes "represents rows (A, L)" and "r \<in> set rows"
  shows "(\<exists>a. ld_payload r = AccountPayload a) \<longleftrightarrow> ld_kind r = Accounts" and "(\<exists>l. ld_payload r = PositionPayload l) \<longleftrightarrow> ld_kind r = Positions"
proof -
  have "set rows = account_row ` snd ` set A \<union> position_row ` snd ` set L" using assms(1) by (simp add: represents_def)
  then have "r \<in> account_row ` snd ` set A \<union> position_row ` snd ` set L" using assms(2) by simp
  then show "(\<exists>a. ld_payload r = AccountPayload a) \<longleftrightarrow> ld_kind r = Accounts" "(\<exists>l. ld_payload r = PositionPayload l) \<longleftrightarrow> ld_kind r = Positions"
    by auto
qed

text \<open>The total of the positions of an account is what the replay has allocated.\<close>

lemma total_allocated:
  assumes rep: "represents rows (A, L)" and ok: "distinct (keys_of L)" "list_all allocation_ok L"
  shows "(\<Sum>r\<leftarrow>positions_of user asset rows. position_amount r) = allocated_for asset user L"
proof -
  define Q where "Q = {p \<in> set L. pl_user (snd p) = user \<and> pl_assetUid (snd p) = asset}"
  have rows: "set rows = account_row ` snd ` set A \<union> position_row ` snd ` set L" and d: "distinct rows"
    using rep by (auto simp: represents_def distinct_map)
  have "inj_on (position_row \<circ> snd) Q"
  proof (rule inj_onI)
    fix p q assume "p \<in> Q" "q \<in> Q" "(position_row \<circ> snd) p = (position_row \<circ> snd) q"
    then have "snd p = snd q" "allocation_ok p" "allocation_ok q" using ok(2) by (simp_all add: Q_def list_all_iff)
    then show "p = q" by (auto simp: allocation_ok_def case_prod_unfold prod_eq_iff)
  qed
  moreover have "set (positions_of user asset rows) = (position_row \<circ> snd) ` Q"
    unfolding positions_of_def set_filter rows Q_def by auto
  moreover have "distinct (positions_of user asset rows)" using d by (simp add: positions_of_def)
  ultimately have "(\<Sum>r\<leftarrow>positions_of user asset rows. position_amount r) = (\<Sum>p\<in>Q. position_amount (position_row (snd p)))"
    using sum.reindex [of "position_row \<circ> snd" Q position_amount] by (simp add: sum.distinct_set_conv_list [symmetric] comp_def)
  also have "\<dots> = (\<Sum>p\<in>set L. amount_for asset user (snd p))"
    unfolding Q_def by (rule sum.mono_neutral_cong_left) (auto simp: amount_for_def position_amount_def)
  also have "\<dots> = allocated_for asset user L"
    unfolding allocated_for_def using ok(1) by (simp add: sum.distinct_set_conv_list distinct_map)
  finally show ?thesis .
qed

section \<open>One event, applied to the store\<close>

lemma replay_one: "replayPrincipal [e] chainId vaults (Some m) = replay_event chainId vaults e m"
  by (cases "replay_event chainId vaults e m") (auto simp: replayPrincipal_def Let_def)

definition one_entry :: "'k \<Rightarrow> ('k \<times> 'v) list \<Rightarrow> ('k \<times> 'v) list" where
  "one_entry k m = (case map_of m k of None \<Rightarrow> [] | Some v \<Rightarrow> [(k, v)])"

lemma one_entry_simps [simp]: "AList.update k v (one_entry k m) = [(k, v)]" "map_of (one_entry k m) k' = (if k' = k then map_of m k else None)"
  by (simp_all add: one_entry_def split: option.split)

definition event_seed :: "decoded_event \<Rightarrow> ledger_row list \<Rightarrow> principal_maps" where
  "event_seed e rows = (let user = lower (string_arg (arg (ev_args e) ''user'')); asset = string_arg (arg (ev_args e) ''assetUid'');
       market = truthy_arg (arg (ev_args e) ''marketId'');
       keys = accountId user asset # (case market of None \<Rightarrow> [] | Some k \<Rightarrow> [positionId user asset k])
     in fold (seed_row asset user market) (filter (\<lambda>r. ld_identity r \<in> set keys) rows) ([], []))"

lemma event_seed_is:
  assumes rep: "represents rows (A, L)" and ok: "principal_ok es (A, L)" and args: "arg (ev_args e) ''user'' = JStr ua" "arg (ev_args e) ''assetUid'' = JStr asset"
    and hex: "is_lower_hex 64 asset" "is_lower_hex 40 (lower ua)"
  shows "event_seed e rows = (one_entry (account_key asset (lower ua)) A,
    case truthy_arg (arg (ev_args e) ''marketId'') of None \<Rightarrow> [] | Some k \<Rightarrow> one_entry (allocation_key asset (lower ua) k) L)"
proof -
  define user where "user = lower ua"
  define market where "market = truthy_arg (arg (ev_args e) ''marketId'')"
  define K where "K = set (accountId user asset # (case market of None \<Rightarrow> [] | Some k \<Rightarrow> [positionId user asset k]))"
  define rs where "rs = filter (\<lambda>r. ld_identity r \<in> K) rows"
  have parts: "list_all account_ok A" "distinct (keys_of A)" "list_all allocation_ok L" "distinct (keys_of L)"
    using ok by (simp_all add: principal_ok_def)
  have seed: "event_seed e rows = fold (seed_row asset user market) rs ([], [])"
    by (simp add: event_seed_def args string_arg_def user_def market_def K_def rs_def Let_def)
  have acc: "filter (\<lambda>r. ld_kind r = Accounts) rs = (case map_of A (account_key asset user) of None \<Rightarrow> [] | Some a \<Rightarrow> [account_row a])"
  proof -
    have "filter (\<lambda>r. ld_kind r = Accounts) rs = filter (\<lambda>r. ld_kind r = Accounts \<and> ld_identity r \<in> K) rows"
      unfolding rs_def filter_filter by (rule filter_cong) auto
    moreover have "\<forall>k\<in>K. k = accountId user asset \<or> (\<exists>m. k = positionId user asset m)" by (auto simp: K_def split: option.splits)
    moreover have "accountId user asset \<in> K" by (simp add: K_def)
    ultimately show ?thesis using account_rows [OF rep parts(1-3) hex(1), of user K] hex(2) by (simp add: user_def)
  qed
  have pos: "filter (\<lambda>r. ld_kind r = Positions) rs = (case market of None \<Rightarrow> []
      | Some k \<Rightarrow> (case map_of L (allocation_key asset user k) of None \<Rightarrow> [] | Some l \<Rightarrow> [position_row l]))"
  proof (cases market)
    case None
    have "ld_identity (position_row (snd p)) \<noteq> accountId user asset" if "p \<in> set L" for p
    proof -
      have "allocation_ok p" using parts(3) that by (simp add: list_all_iff)
      then show ?thesis using hex account_not_position [of user "pl_user (snd p)" asset "pl_assetUid (snd p)" "pl_marketId (snd p)"]
        by (auto simp: allocation_ok_def case_prod_unfold user_def)
    qed
    then have "\<forall>r\<in>set rows. ld_kind r = Positions \<longrightarrow> ld_identity r \<noteq> accountId user asset" using rep by (auto simp: represents_def)
    then show ?thesis using None by (auto simp: rs_def K_def filter_empty_conv)
  next
    case (Some k)
    have "filter (\<lambda>r. ld_kind r = Positions) rs = filter (\<lambda>r. ld_kind r = Positions \<and> ld_identity r \<in> K) rows"
      unfolding rs_def filter_filter by (rule filter_cong) auto
    moreover have "K = {accountId user asset, positionId user asset k}" by (simp add: K_def Some)
    ultimately show ?thesis using position_rows [OF rep parts(1,4,3) hex(1), of user K k] hex(2) Some by (simp add: user_def)
  qed
  have kind: "r \<in> set rs \<Longrightarrow> r \<in> set rows" for r by (simp add: rs_def)
  have "fold (\<lambda>r A. case ld_payload r of AccountPayload a \<Rightarrow> AList.update (account_key asset user) a A | _ \<Rightarrow> A) rs []
      = one_entry (account_key asset user) A"
  proof -
    have "fold (\<lambda>r A. case ld_payload r of AccountPayload a \<Rightarrow> AList.update (account_key asset user) a A | _ \<Rightarrow> A) rs []
        = fold (\<lambda>r A. case ld_payload r of AccountPayload a \<Rightarrow> AList.update (account_key asset user) a A | _ \<Rightarrow> A) (filter (\<lambda>r. ld_kind r = Accounts) rs) []"
      by (rule fold_filter) (use kinds(1) [OF rep kind] in \<open>auto split: ledger_payload.splits\<close>)
    then show ?thesis by (simp add: acc one_entry_def split: option.split)
  qed
  moreover have "fold (\<lambda>r L. case ld_payload r of PositionPayload l \<Rightarrow> AList.update (allocation_key asset user (null_text market)) l L | _ \<Rightarrow> L) rs []
      = (case market of None \<Rightarrow> [] | Some k \<Rightarrow> one_entry (allocation_key asset user k) L)"
  proof -
    have "fold (\<lambda>r L. case ld_payload r of PositionPayload l \<Rightarrow> AList.update (allocation_key asset user (null_text market)) l L | _ \<Rightarrow> L) rs []
        = fold (\<lambda>r L. case ld_payload r of PositionPayload l \<Rightarrow> AList.update (allocation_key asset user (null_text market)) l L | _ \<Rightarrow> L) (filter (\<lambda>r. ld_kind r = Positions) rs) []"
      by (rule fold_filter) (use kinds(2) [OF rep kind] in \<open>auto split: ledger_payload.splits\<close>)
    then show ?thesis by (simp add: pos one_entry_def null_text_def split: option.split)
  qed
  ultimately show ?thesis unfolding seed seed_rows user_def [symmetric] market_def [symmetric] by simp
qed

lemma applyEvent_seed:
  "applyEvent chainId vaults e st = bindR (replay_event chainId vaults e (event_seed e (ps_ledger st))) (\<lambda>(accounts, allocations).
     let user = lower (string_arg (arg (ev_args e) ''user'')); asset = string_arg (arg (ev_args e) ''assetUid'');
         st' = fold write_row (map (account_row \<circ> snd) accounts @ map (position_row \<circ> snd) allocations) st
     in case map_of accounts (account_key asset user) of
               None \<Rightarrow> Inl (TypeError ''Cannot read properties of undefined'')
             | Some a \<Rightarrow>
               if (\<Sum>r\<leftarrow>positions_of user asset (ps_ledger st'). position_amount r) \<noteq> pa_allocated a
               then Inl (Error ''allocation components do not equal account allocated total'')
               else Inr (st'\<lparr>ps_work := fold insert_work (positions_of user asset (ps_ledger st')) (ps_work st')\<rparr>))"
  unfolding applyEvent_def event_seed_def Let_def replay_one ..

lemma write_rows_ledger: "ps_ledger (fold write_row rs st) = fold upsert_row rs (ps_ledger st)"
  by (induction rs arbitrary: st) (simp_all add: write_row_def)

definition work_keys :: "work_row list \<Rightarrow> (ledger_kind \<times> string) set" where
  "work_keys ws = (\<lambda>w. (wk_kind w, wk_identity w)) ` set ws"

lemma insert_work_keys: "work_keys (insert_work r ws) = insert (ld_kind r, ld_identity r) (work_keys ws)"
  by (auto simp: insert_work_def work_keys_def list_ex_iff image_iff) metis

lemma fold_insert_keys: "work_keys (fold insert_work rs ws) = work_keys ws \<union> (\<lambda>r. (ld_kind r, ld_identity r)) ` set rs"
  by (induction rs arbitrary: ws) (auto simp: insert_work_keys)

lemma fold_write_keys: "work_keys (ps_work (fold write_row rs st)) = work_keys (ps_work st) \<union> (\<lambda>r. (ld_kind r, ld_identity r)) ` set rs"
  by (induction rs arbitrary: st) (auto simp: write_row_def insert_work_keys)

lemma applyEvent_full:
  assumes ok: "principal_ok es (A, L)" and rep: "represents (ps_ledger st) (A, L)" and e: "is_principal e"
  shows "case replay_event chainId vaults e (A, L) of Inl x \<Rightarrow> applyEvent chainId vaults e st = Inl x
    | Inr m \<Rightarrow> \<exists>st'. applyEvent chainId vaults e st = Inr st' \<and> represents (ps_ledger st') m
        \<and> (Accounts, accountId (lower (event_text e ''user'')) (event_text e ''assetUid'')) \<in> work_keys (ps_work st')"
proof (cases "principal_fields chainId vaults e")
  case (Inl x)
  then have "replay_event chainId vaults e m = Inl x" for m using e by (simp add: replay_event_def case_prod_unfold)
  then show ?thesis by (simp add: applyEvent_seed)
next
  case (Inr f)
  obtain asset user vault n s where f: "f = (asset, user, vault, n, s)" by (cases f)
  note fields = principal_fields_Inr [OF Inr [unfolded f]]
  obtain ua where ua: "arg (ev_args e) ''user'' = JStr ua" "lower ua = user" and asset: "arg (ev_args e) ''assetUid'' = JStr asset"
    using Inr unfolding f principal_fields_def by (auto simp: bindR_eq_Inr principal_hash_Inr principal_address_Inr split: if_splits option.splits)
  have hex: "is_lower_hex 64 asset" "is_lower_hex 40 user" using fields by simp_all
  have parts: "list_all account_ok A" "distinct (keys_of A)" "list_all allocation_ok L" "distinct (keys_of L)"
    using ok by (simp_all add: principal_ok_def)
  define key where "key = account_key asset user"
  define market where "market = truthy_arg (arg (ev_args e) ''marketId'')"
  define SL where "SL = (case market of None \<Rightarrow> [] | Some k \<Rightarrow> one_entry (allocation_key asset user k) L)"
  have seed: "event_seed e (ps_ledger st) = (one_entry key A, SL)"
    using event_seed_is [OF rep ok ua(1) asset, unfolded ua(2)] hex by (simp add: key_def SL_def market_def)
  have text_of: "event_text e ''assetUid'' = asset" "lower (event_text e ''user'') = user" using fields by simp_all
  have own: "own_account e = key" "own_allocation e = allocation_key asset user (event_text e ''marketId'')"
    by (simp_all add: own_account_def own_allocation_def text_of key_def)
  have market_text: "market = Some (event_text e ''marketId'')" if "event_text e ''marketId'' \<noteq> []"
    using that by (auto simp: market_def truthy_arg_def event_text_def split: js_value.splits)
  have shape: "is_lower_hex 64 k" if found: "map_of L (allocation_key asset user k) \<noteq> None" for k
  proof -
    obtain l where "(allocation_key asset user k, l) \<in> set L" using found map_of_SomeD by fastforce
    then have "allocation_ok (allocation_key asset user k, l)" using parts(3) by (auto simp: list_all_iff)
    then show ?thesis using hex allocation_key_eq [of asset "pl_assetUid l" user "pl_user l" k "pl_marketId l"] by (auto simp: allocation_ok_def)
  qed
  have look: "map_of L (own_allocation e) = map_of SL (own_allocation e)"
  proof (cases "event_text e ''marketId'' = []")
    case True
    have "\<not> is_lower_hex 64 []" by (simp add: is_lower_hex_def)
    then have none: "map_of L (own_allocation e) = None" using shape [of "[]"] True own(2) by (metis option.exhaust option.distinct(1))
    have "map_of SL (own_allocation e) = None"
    proof (cases market)
      case (Some k)
      then show ?thesis using none True hex shape [of k] allocation_key_eq [of asset asset user user "[]" k] by (auto simp: SL_def own)
    qed (simp add: SL_def)
    with none show ?thesis by simp
  next
    case False
    then show ?thesis using market_text by (simp add: SL_def own)
  qed
  have same: "same_change e (A, L) (one_entry key A, SL) (replay_event chainId vaults e (A, L)) (replay_event chainId vaults e (one_entry key A, SL))"
    by (rule replay_event_local [OF e]) (simp_all add: own(1) look)
  show ?thesis
  proof (cases "replay_event chainId vaults e (A, L)")
    case (Inl x)
    then show ?thesis using same by (simp add: same_change_def applyEvent_seed seed)
  next
    case run: (Inr m)
    then obtain a l where m: "m = (AList.update key a A, if moves_allocation e then AList.update (own_allocation e) l L else L)"
      and run': "replay_event chainId vaults e (one_entry key A, SL) = Inr ([(key, a)], if moves_allocation e then AList.update (own_allocation e) l SL else SL)"
      using same [unfolded same_change_def run sum.case fst_conv snd_conv own(1) one_entry_simps] by blast
    define A' L' where "A' = AList.update key a A" and "L' = (if moves_allocation e then AList.update (own_allocation e) l L else L)"
    have ok': "principal_ok (es @ [e]) (A', L')" using principal_ok_step [OF ok run] by (simp add: m A'_def L'_def)
    have parts': "list_all account_ok A'" "distinct (keys_of A')" "list_all allocation_ok L'" "distinct (keys_of L')"
      using ok' by (simp_all add: principal_ok_def)
    have "map_of A' key = Some a" by (simp add: A'_def update_conv')
    then have a: "(key, a) \<in> set A'" by (rule map_of_SomeD)
    then have "account_ok (key, a)" using parts'(1) unfolding list_all_iff by blast
    then have a_ok: "account_ok (account_key asset user, a)" by (simp only: key_def)
    then have "account_key asset user = account_key (pa_assetUid a) (pa_user a)" "is_lower_hex 64 (pa_assetUid a)" by (simp_all add: account_ok_def)
    then have a_id: "pa_assetUid a = asset" "pa_user a = user" using hex account_key_eq [of asset "pa_assetUid a" user "pa_user a"] by simp_all
    have rep1: "represents (upsert_row (account_row a) (ps_ledger st)) (A', L)"
      unfolding A'_def key_def by (rule upsert_account [OF rep parts(1,2) a_ok a_id])
    define q where "q = (if moves_allocation e then AList.update (own_allocation e) l SL else SL)"
    have alloc: "represents (fold upsert_row (map (position_row \<circ> snd) q) (upsert_row (account_row a) (ps_ledger st))) (A', L')"
    proof (cases "moves_allocation e")
      case moves: True
      have "map_of L' (own_allocation e) = Some l" using moves by (simp add: L'_def update_conv')
      then have "(own_allocation e, l) \<in> set L'" by (rule map_of_SomeD)
      then have l_ok: "allocation_ok (allocation_key asset user (event_text e ''marketId''), l)" using parts'(3) unfolding list_all_iff own by blast
      then have l_id: "pl_assetUid l = asset" "pl_user l = user" "pl_marketId l = event_text e ''marketId''" and mhex: "is_lower_hex 64 (event_text e ''marketId'')"
        using hex allocation_key_eq [of asset "pl_assetUid l" user "pl_user l"] by (auto simp: allocation_ok_def)
      have "event_text e ''marketId'' \<noteq> []" using mhex by (auto simp: is_lower_hex_def)
      then have "AList.update (own_allocation e) l SL = [(own_allocation e, l)]" using market_text by (simp add: SL_def own)
      then show ?thesis
        using upsert_position [OF rep1 parts(3,4) l_ok l_id] moves by (simp add: L'_def own q_def)
    next
      case False
      have "represents (fold upsert_row (map (position_row \<circ> snd) SL) (upsert_row (account_row a) (ps_ledger st))) (A', L)"
      proof (cases "SL = []")
        case True
        then show ?thesis using rep1 by simp
      next
        case False
        then obtain k l0 where k: "SL = [(allocation_key asset user k, l0)]" "map_of L (allocation_key asset user k) = Some l0"
          by (auto simp: SL_def one_entry_def split: option.splits)
        have l0: "allocation_ok (allocation_key asset user k, l0)" using parts(3) map_of_SomeD [OF k(2)] by (auto simp: list_all_iff)
        then have "pl_assetUid l0 = asset" "pl_user l0 = user" "pl_marketId l0 = k"
          using hex allocation_key_eq [of asset "pl_assetUid l0" user "pl_user l0"] by (auto simp: allocation_ok_def)
        from upsert_position [OF rep1 parts(3,4) l0 this] show ?thesis using k by (simp add: update_triv)
      qed
      then show ?thesis using False by (simp add: L'_def q_def)
    qed
    define st' where "st' = fold write_row (map (account_row \<circ> snd) [(key, a)] @ map (position_row \<circ> snd) q) st"
    have rep': "represents (ps_ledger st') (A', L')" using alloc by (simp add: st'_def write_rows_ledger write_row_def)
    have "pa_allocated a = allocated_for asset user L'" using account_sums(7) [OF ok' a] by (simp add: a_id)
    then have total: "(\<Sum>r\<leftarrow>positions_of user asset (ps_ledger st'). position_amount r) = pa_allocated a"
      using total_allocated [OF rep' parts'(4,3)] by simp
    have "applyEvent chainId vaults e st = Inr (st'\<lparr>ps_work := fold insert_work (positions_of user asset (ps_ledger st')) (ps_work st')\<rparr>)"
      unfolding applyEvent_seed seed run' q_def [symmetric] bindR_simps prod.case Let_def st'_def [symmetric]
      using total by (simp add: ua asset string_arg_def key_def)
    moreover have "(Accounts, accountId user asset) \<in> work_keys (fold insert_work (positions_of user asset (ps_ledger st')) (ps_work st'))"
      by (simp add: st'_def fold_write_keys fold_insert_keys write_row_def insert_work_keys a_id)
    ultimately show ?thesis using rep' run by (auto simp: m A'_def L'_def text_of)
  qed
qed


lemma applyEvent_step:
  assumes "principal_ok es (A, L)" and "represents (ps_ledger st) (A, L)" and "is_principal e"
  shows "case replay_event chainId vaults e (A, L) of Inl x \<Rightarrow> applyEvent chainId vaults e st = Inl x
    | Inr m \<Rightarrow> \<exists>st'. applyEvent chainId vaults e st = Inr st' \<and> represents (ps_ledger st') m"
  using applyEvent_full [OF assms, of chainId vaults] by (auto split: sum.splits)

section \<open>The incremental ledger is the replay\<close>

lemma apply_events:
  "principal_ok es0 (A, L) \<Longrightarrow> represents (ps_ledger st) (A, L) \<Longrightarrow>
    case foldR (replay_event chainId vaults) es (A, L) of Inl x \<Rightarrow> foldR (applyEvent chainId vaults) (filter is_principal es) st = Inl x
    | Inr m \<Rightarrow> \<exists>st'. foldR (applyEvent chainId vaults) (filter is_principal es) st = Inr st' \<and> represents (ps_ledger st') m"
proof (induction es arbitrary: es0 A L st)
  case (Cons e es)
  show ?case
  proof (cases "is_principal e")
    case False
    then have "replay_event chainId vaults e (A, L) = Inr (A, L)" by (simp add: replay_event_def)
    then have "foldR (replay_event chainId vaults) (e # es) (A, L) = foldR (replay_event chainId vaults) es (A, L)"
      "filter is_principal (e # es) = filter is_principal es" using False by simp_all
    then show ?thesis using Cons.IH [OF Cons.prems] by (simp only:)
  next
    case True
    note one = applyEvent_step [OF Cons.prems True, of chainId vaults]
    show ?thesis
    proof (cases "replay_event chainId vaults e (A, L)")
      case (Inl x)
      then show ?thesis using one True by simp
    next
      case (Inr m)
      obtain A' L' where m: "m = (A', L')" by (cases m)
      obtain st' where st': "applyEvent chainId vaults e st = Inr st'" "represents (ps_ledger st') (A', L')"
        using one Inr m by auto
      have "principal_ok (es0 @ [e]) (A', L')" using principal_ok_step [OF Cons.prems(1) Inr] by (simp add: m)
      note later = Cons.IH [OF this st'(2)]
      have "foldR (replay_event chainId vaults) (e # es) (A, L) = foldR (replay_event chainId vaults) es (A', L')"
        "foldR (applyEvent chainId vaults) (filter is_principal (e # es)) st = foldR (applyEvent chainId vaults) (filter is_principal es) st'"
        using True st'(1) Inr m by simp_all
      then show ?thesis using later by (simp only:)
    qed
  qed
qed simp

text \<open>C9: The incremental ledger is the replay. Applying the events of the vault one at a time to the stored
  ledger, each transaction reading only the rows of the account and market it concerns, fails with the same error as a
  replay of the whole history, or succeeds and leaves exactly one row for each account and allocation that the
  replay yields, with the same amounts and sources. In particular the sum over the stored positions, which every
  transaction compares, always agrees.\<close>

theorem incremental_ledger_is_replay:
  "case replayPrincipal es chainId vaults None of
     Inl x \<Rightarrow> foldR (applyEvent chainId vaults) (filter is_principal es) \<lparr>ps_ledger = [], ps_work = w\<rparr> = Inl x
   | Inr (A, L) \<Rightarrow> \<exists>st. foldR (applyEvent chainId vaults) (filter is_principal es) \<lparr>ps_ledger = [], ps_work = w\<rparr> = Inr st
       \<and> distinct (map (\<lambda>r. (ld_kind r, ld_identity r)) (ps_ledger st))
       \<and> set (ps_ledger st) = account_row ` snd ` set A \<union> position_row ` snd ` set L"
proof -
  have "represents (ps_ledger \<lparr>ps_ledger = [], ps_work = w\<rparr>) ([], [])" by (simp add: represents_def)
  from apply_events [OF principal_ok_start this, of chainId vaults es] show ?thesis
    by (simp add: full_replay represents_def split: sum.splits prod.splits)
qed

end
