(* ===== verification/Principal_Verify.thy ===== *)
theory Principal_Verify imports Principal_Store Projection_Publish begin

text \<open>
  How a ledger entry is verified against the contracts: every getter read from two providers, the market record,
  and the position with its settlement (packages/principal-projector/src/index.ts).
\<close>

section \<open>Reading contracts by agreement of two providers\<close>

text \<open>
  What viem decodes the result of a getter to. The ABI encoding is a parameter, and so are the two providers,
  which answer a call at a block with bytes in hexadecimal or throw.
\<close>

datatype getter_value = GScalar js_value | GBool bool | GTuple "getter_value list" | GObject "(string \<times> getter_value) list" | GOther

record contract_abi =
  ab_encode :: "string \<Rightarrow> string list \<Rightarrow> string"
  ab_decode :: "string \<Rightarrow> string \<Rightarrow> getter_value res"

record principal_input =
  pn_abi :: contract_abi
  pn_primary :: "string \<Rightarrow> string \<Rightarrow> int \<Rightarrow> string res"
  pn_secondary :: "string \<Rightarrow> string \<Rightarrow> int \<Rightarrow> string res"
  pn_block :: int
  pn_manager :: string

definition consensusRead :: "principal_input \<Rightarrow> string \<Rightarrow> string \<Rightarrow> string list \<Rightarrow> getter_value res" where
  "consensusRead i target functionName args =
    (let data = ab_encode (pn_abi i) functionName args
     in bindR (pn_primary i target data (pn_block i)) (\<lambda>left.
        bindR (pn_secondary i target data (pn_block i)) (\<lambda>right.
          if left \<noteq> right then Inl (Error (''RPC providers disagree on '' @ functionName))
          else ab_decode (pn_abi i) functionName left)))"

definition getter_uint :: "getter_value \<Rightarrow> string \<Rightarrow> int res" where
  "getter_uint v = principal_uint (case v of GScalar x \<Rightarrow> x | _ \<Rightarrow> JOther)"

definition getter_bool :: "getter_value \<Rightarrow> string \<Rightarrow> bool res" where
  "getter_bool v label = (case v of GBool b \<Rightarrow> Inr b | _ \<Rightarrow> Inl (Error (label @ '' is invalid'')))"

definition getter_object :: "getter_value \<Rightarrow> string \<Rightarrow> (string \<times> getter_value) list res" where
  "getter_object v label = (case v of GObject fs \<Rightarrow> Inr fs | _ \<Rightarrow> Inl (Error (label @ '' is invalid'')))"

definition getter_tuple :: "getter_value \<Rightarrow> string \<Rightarrow> getter_value list res" where
  "getter_tuple v label = (case v of GTuple vs \<Rightarrow> Inr vs | _ \<Rightarrow> Inl (Error (label @ '' is invalid'')))"

text \<open>A missing field, or an index beyond the end, is \<open>undefined\<close>.\<close>

definition getter_field :: "(string \<times> getter_value) list \<Rightarrow> string \<Rightarrow> getter_value" where
  "getter_field fs k = (case map_of fs k of None \<Rightarrow> GOther | Some v \<Rightarrow> v)"

definition getter_item :: "getter_value list \<Rightarrow> nat \<Rightarrow> getter_value" where
  "getter_item vs n = (if n < length vs then vs ! n else GOther)"

definition principal_scalar :: "getter_value \<Rightarrow> int res" where
  "principal_scalar v = getter_uint v ''contract scalar''"

section \<open>Verifying an account\<close>

definition principal_source_json :: "source_block \<Rightarrow> json" where
  "principal_source_json s = JObject [(''chainId'', JNumber (sb_chainId s)), (''blockNumber'', JText (sb_blockNumber s)),
     (''blockHash'', JText (sb_blockHash s)), (''transactionHash'', JText (sb_transactionHash s)),
     (''transactionIndex'', JNumber (sb_transactionIndex s)), (''logIndex'', JNumber (sb_logIndex s))]"

definition account_payload :: "principal_account \<Rightarrow> json" where
  "account_payload a = JObject [(''user'', JText (pa_user a)), (''assetUid'', JText (pa_assetUid a)), (''vault'', JText (pa_vault a)),
     (''deposited'', JText (show_int (pa_deposited a))), (''allocated'', JText (show_int (pa_allocated a))),
     (''free'', JText (show_int (pa_deposited a - pa_allocated a))), (''source'', principal_source_json (pa_source a))]"

definition verifyAccount :: "principal_input \<Rightarrow> principal_account \<Rightarrow> projection_record res" where
  "verifyAccount i a =
     bindR (consensusRead i (pa_vault a) ''deposited'' [pa_assetUid a, pa_user a]) (\<lambda>deposited.
     bindR (consensusRead i (pa_vault a) ''allocated'' [pa_assetUid a, pa_user a]) (\<lambda>allocated.
     bindR (consensusRead i (pa_vault a) ''freeBalanceOf'' [pa_assetUid a, pa_user a]) (\<lambda>free.
     bindR (principal_scalar deposited) (\<lambda>d.
     if d \<noteq> pa_deposited a then Inl (Error ''Vault getter and principal ledger disagree'')
     else bindR (principal_scalar allocated) (\<lambda>l.
       if l \<noteq> pa_allocated a then Inl (Error ''Vault getter and principal ledger disagree'')
       else bindR (principal_scalar free) (\<lambda>f.
         if f \<noteq> pa_deposited a - pa_allocated a then Inl (Error ''Vault getter and principal ledger disagree'')
         else Inr \<lparr>pr_identity = accountId (pa_user a) (pa_assetUid a), pr_sortKey = accountId (pa_user a) (pa_assetUid a),
                pr_payload = account_payload a\<rparr>))))))"

section \<open>Principal of a gauge position\<close>

text \<open>
  \<open>normalizeGaugePrincipal\<close>: principal whose activation was processed counts as active. The snapshot is an
  object whose fields have any type, \<open>None\<close> standing for \<open>null\<close>.
\<close>

record gauge_principal =
  gp_active :: string
  gp_pending :: string
  gp_activationAt :: "string option"
  gp_unlockAt :: "string option"

definition normalizeGaugePrincipal :: "int \<Rightarrow> int \<Rightarrow> int \<Rightarrow> int \<Rightarrow> (string \<times> getter_value) list option \<Rightarrow> gauge_principal res" where
  "normalizeGaugePrincipal activeValue pendingValue generation unlock snapshot =
     bindR (principal_uint (JBig activeValue) ''active amount'') (\<lambda>active.
     bindR (principal_uint (JBig pendingValue) ''pending amount'') (\<lambda>pending.
     bindR (principal_uint (JBig generation) ''pending generation'') (\<lambda>_.
     bindR (principal_uint (JBig unlock) ''unlock timestamp'') (\<lambda>_.
     let result = (\<lambda>active pending activationAt. \<lparr>gp_active = show_int active, gp_pending = show_int pending,
           gp_activationAt = activationAt, gp_unlockAt = (if unlock = 0 then None else Some (show_int unlock))\<rparr>)
     in if active + pending > 0 \<and> unlock = 0 then Inl (Error ''allocated Gauge position has no unlock timestamp'')
        else if pending > 0 then
          (case (if generation = 0 then None else snapshot) of
             None \<Rightarrow> Inl (Error ''pending Gauge principal has no activation snapshot'')
           | Some s \<Rightarrow>
             bindR (getter_bool (getter_field s ''processed'') ''activation processed'') (\<lambda>processed.
             bindR (getter_uint (getter_field s ''refs'') ''activation refs'') (\<lambda>refs.
             bindR (getter_uint (getter_field s ''quoteAccumulator'') ''quote accumulator'') (\<lambda>_.
             bindR (getter_uint (getter_field s ''memeAccumulator'') ''meme accumulator'') (\<lambda>_.
               if processed then
                 (if refs = 0 then Inl (Error ''processed activation has no references'')
                  else Inr (result (active + pending) 0 None))
               else Inr (result active pending (Some (show_int generation))))))))
        else if generation \<noteq> 0 then Inl (Error ''empty pending position retains a generation'')
        else Inr (result active pending None)))))"

section \<open>Verifying a position\<close>

record principal_market =
  pm_marketId :: string
  pm_assetUid :: string
  pm_gauge :: string
  pm_quoteAsset :: string
  pm_memeToken :: string
  pm_stakingEnabled :: bool

definition json_text_of :: "json \<Rightarrow> string \<Rightarrow> js_value" where
  "json_text_of v k = (case field v k of Some (JText s) \<Rightarrow> JStr s | _ \<Rightarrow> JOther)"

definition nonzeroAddress :: "js_value \<Rightarrow> string \<Rightarrow> string res" where
  "nonzeroAddress v label = bindR (principal_address v label) (\<lambda>a.
     if a = ZERO_ADDRESS then Inl (Error (label @ '' is zero'')) else Inr a)"

definition validatePrincipalMarket :: "json \<Rightarrow> principal_market res" where
  "validatePrincipalMarket v =
    (case field v ''stakingEnabled'' of
       Some (JBool stakingEnabled) \<Rightarrow>
         bindR (principal_address (json_text_of v ''gauge'') ''gauge'') (\<lambda>gauge.
         if stakingEnabled \<and> gauge = ZERO_ADDRESS then Inl (Error ''gauge is zero'')
         else bindR (principal_hash (json_text_of v ''marketId'') ''marketId'') (\<lambda>marketId.
           bindR (principal_hash (json_text_of v ''assetUid'') ''assetUid'') (\<lambda>assetUid.
           bindR (principal_address (json_text_of v ''quoteAsset'') ''quoteAsset'') (\<lambda>quoteAsset.
           bindR (nonzeroAddress (json_text_of v ''memeToken'') ''memeToken'') (\<lambda>memeToken.
             Inr \<lparr>pm_marketId = marketId, pm_assetUid = assetUid, pm_gauge = gauge, pm_quoteAsset = quoteAsset,
               pm_memeToken = memeToken, pm_stakingEnabled = stakingEnabled\<rparr>)))))
     | _ \<Rightarrow> Inl (Error ''stakingEnabled is invalid''))"

text \<open>What the code reads of a position before it decides: the vault's allocation, the gauge's position and the settlement.\<close>

definition position_reads :: "principal_input \<Rightarrow> principal_account \<Rightarrow> principal_market \<Rightarrow> principal_allocation
    \<Rightarrow> (getter_value \<times> getter_value \<times> getter_value) res" where
  "position_reads i a m l =
     bindR (consensusRead i (pa_vault a) ''allocation'' [pl_assetUid l, pl_user l, pl_marketId l]) (\<lambda>vaultAmount.
     bindR (consensusRead i (pm_gauge m) ''positionOf'' [pl_user l]) (\<lambda>rawPosition.
     bindR (consensusRead i (pn_manager i) ''rageQuitSettlementPending'' [pl_marketId l, pl_user l]) (\<lambda>rawSettlement.
       Inr (vaultAmount, rawPosition, rawSettlement))))"

definition position_payload :: "principal_account \<Rightarrow> principal_market \<Rightarrow> principal_allocation \<Rightarrow> gauge_principal \<Rightarrow> int \<Rightarrow> int \<Rightarrow> json" where
  "position_payload a m l p quoteClaimable memeClaimable = JObject [(''user'', JText (pl_user l)), (''assetUid'', JText (pl_assetUid l)),
     (''marketId'', JText (pl_marketId l)), (''free'', JText (show_int (pa_deposited a - pa_allocated a))),
     (''allocated'', JText (show_int (pl_amount l))), (''pending'', JText (gp_pending p)), (''active'', JText (gp_active p)),
     (''activationAt'', (case gp_activationAt p of None \<Rightarrow> JNull | Some t \<Rightarrow> JText t)),
     (''unlockAt'', (case gp_unlockAt p of None \<Rightarrow> JNull | Some t \<Rightarrow> JText t)),
     (''claimable'', JArray [
        JObject [(''kind'', JText ''quote''), (''asset'', JText (pm_quoteAsset m)), (''amount'', JText (show_int quoteClaimable))],
        JObject [(''kind'', JText ''meme''), (''asset'', JText (pm_memeToken m)), (''amount'', JText (show_int memeClaimable))]]),
     (''source'', principal_source_json (pl_source l))]"

text \<open>A position whose principal is settled: the record, or none when nothing is allocated or claimable.\<close>

definition settled_position :: "principal_input \<Rightarrow> principal_account \<Rightarrow> principal_market \<Rightarrow> principal_allocation \<Rightarrow> (string \<times> getter_value) list
    \<Rightarrow> projection_record option res" where
  "settled_position i a m l position =
     bindR (getter_uint (getter_field position ''activeAmount'') ''active amount'') (\<lambda>rawActive.
     bindR (getter_uint (getter_field position ''pendingAmount'') ''pending amount'') (\<lambda>rawPending.
     bindR (getter_uint (getter_field position ''pendingGeneration'') ''pending generation'') (\<lambda>generation.
     bindR (getter_uint (getter_field position ''unlockAt'') ''unlock timestamp'') (\<lambda>unlock.
     bindR (getter_uint (getter_field position ''quoteClaimable'') ''quote claimable'') (\<lambda>quoteClaimable.
     bindR (getter_uint (getter_field position ''memeClaimable'') ''meme claimable'') (\<lambda>memeClaimable.
     if rawActive + rawPending \<noteq> pl_amount l then Inl (Error ''Vault and Gauge allocation ledgers disagree'')
     else bindR (if rawPending > 0 then
                   (if generation = 0 then Inl (Error ''pending Gauge principal has no generation'')
                    else bindR (consensusRead i (pm_gauge m) ''activationSnapshot'' [show_int generation]) (\<lambda>raw.
                         bindR (getter_object raw ''activation snapshot'') (\<lambda>s. Inr (Some s))))
                 else Inr None) (\<lambda>snapshot.
       bindR (normalizeGaugePrincipal rawActive rawPending generation unlock snapshot) (\<lambda>normalized.
         if pl_amount l = 0 \<and> quoteClaimable = 0 \<and> memeClaimable = 0 then Inr None
         else if pl_amount l > 0 \<and> unlock = 0 then Inl (Error ''allocated Gauge position has no unlock timestamp'')
         else Inr (Some \<lparr>pr_identity = positionId (pl_user l) (pl_assetUid l) (pl_marketId l),
                pr_sortKey = positionId (pl_user l) (pl_assetUid l) (pl_marketId l),
                pr_payload = position_payload a m l normalized quoteClaimable memeClaimable\<rparr>)))))))))"

text \<open>The record of a position, and the principal that a settlement still holds when it was observed.\<close>

definition settle_position :: "principal_input \<Rightarrow> principal_account \<Rightarrow> principal_market \<Rightarrow> principal_allocation \<Rightarrow> (string \<times> getter_value) list
    \<Rightarrow> bool \<Rightarrow> int \<Rightarrow> (projection_record option \<times> int option) res" where
  "settle_position i a m l position settlementPending settlementPrincipal =
    (if settlementPending then
       bindR (getter_uint (getter_field position ''activeAmount'') ''active amount'') (\<lambda>active.
       bindR (getter_uint (getter_field position ''pendingAmount'') ''pending amount'') (\<lambda>pending.
         if settlementPrincipal \<le> 0 \<or> pl_amount l \<noteq> 0
            \<or> (active + pending \<noteq> 0 \<and> active + pending \<noteq> settlementPrincipal)
         then Inl (Error ''invalid deferred settlement principal'') else Inr (None, Some settlementPrincipal)))
     else if settlementPrincipal \<noteq> 0 then Inl (Error ''completed position retains rage quit settlement principal'')
     else bindR (settled_position i a m l position) (\<lambda>r. Inr (r, Some 0)))"

definition staked_position :: "principal_input \<Rightarrow> principal_account \<Rightarrow> principal_market \<Rightarrow> principal_allocation
    \<Rightarrow> (projection_record option \<times> int option) res" where
  "staked_position i a m l =
     bindR (position_reads i a m l) (\<lambda>(vaultAmount, rawPosition, rawSettlement).
     bindR (principal_scalar vaultAmount) (\<lambda>v.
     if v \<noteq> pl_amount l then Inl (Error ''Vault allocation getter and ledger disagree'')
     else bindR (getter_object rawPosition ''Gauge position'') (\<lambda>position.
       bindR (getter_tuple rawSettlement ''rage quit settlement'') (\<lambda>settlement.
       bindR (getter_bool (getter_item settlement 0) ''rage quit pending'') (\<lambda>settlementPending.
       bindR (getter_uint (getter_item settlement 1) ''rage quit principal'') (\<lambda>settlementPrincipal.
         settle_position i a m l position settlementPending settlementPrincipal))))))"

definition verifyPosition :: "principal_input \<Rightarrow> principal_allocation \<Rightarrow> (string \<Rightarrow> principal_market option res)
    \<Rightarrow> (string \<Rightarrow> string \<Rightarrow> principal_account option) \<Rightarrow> (projection_record option \<times> int option) res" where
  "verifyPosition i l loadMarket loadAccount =
     bindR (loadMarket (pl_marketId l)) (\<lambda>market.
     case (market, loadAccount (pl_user l) (pl_assetUid l)) of
       (Some m, Some a) \<Rightarrow>
         if pm_assetUid m \<noteq> pl_assetUid l then Inl (Error ''allocation has no canonical market or account'')
         else if \<not> pm_stakingEnabled m then
           (if pl_amount l \<noteq> 0 then Inl (Error ''staking-disabled market retains an allocation'') else Inr (None, None))
         else staked_position i a m l
     | _ \<Rightarrow> Inl (Error ''allocation has no canonical market or account''))"

section \<open>What a verified position says\<close>

text \<open>A getter at a contract, as both providers answered it.\<close>

definition agreed :: "principal_input \<Rightarrow> string \<Rightarrow> string \<Rightarrow> string list \<Rightarrow> getter_value \<Rightarrow> bool" where
  "agreed i target functionName args v \<longleftrightarrow> (\<exists>raw. pn_primary i target (ab_encode (pn_abi i) functionName args) (pn_block i) = Inr raw
     \<and> pn_secondary i target (ab_encode (pn_abi i) functionName args) (pn_block i) = Inr raw \<and> ab_decode (pn_abi i) functionName raw = Inr v)"

lemma consensusRead_agreed: "consensusRead i target f args = Inr v \<longleftrightarrow> agreed i target f args v"
  by (auto simp: consensusRead_def agreed_def Let_def bindR_eq_Inr)

lemma principal_uint_big: "principal_uint (JBig n) l = Inr k \<longleftrightarrow> k = n \<and> 0 \<le> n \<and> n < 2 ^ 256"
  by (auto simp: principal_uint_def Let_def)

text \<open>Normalizing moves principal between pending and active, and loses none of it.\<close>

lemma normalize_total:
  assumes "normalizeGaugePrincipal active pending generation unlock snapshot = Inr p"
  obtains a q where "gp_active p = show_int a" "gp_pending p = show_int q" "a + q = active + pending" "active \<le> a" "0 \<le> q" "0 \<le> active"
    "gp_activationAt p = (if q > 0 then Some (show_int generation) else None)" "q > 0 \<longrightarrow> generation > 0"
    "gp_unlockAt p = (if unlock = 0 then None else Some (show_int unlock))" "active + pending > 0 \<longrightarrow> unlock > 0"
proof -
  have range: "0 \<le> active" "0 \<le> pending" "0 \<le> generation" "0 \<le> unlock"
    using assms unfolding normalizeGaugePrincipal_def by (auto simp: bindR_eq_Inr principal_uint_big)
  note rest = assms [unfolded normalizeGaugePrincipal_def Let_def]
  show ?thesis
  proof (cases "pending > 0")
    case False
    then show ?thesis using rest range that [of active pending] by (auto simp: bindR_eq_Inr principal_uint_big split: if_splits)
  next
    case True
    then obtain s processed refs where s: "generation \<noteq> 0" "snapshot = Some s" "active + pending > 0 \<longrightarrow> unlock \<noteq> 0"
      "p = (if processed then \<lparr>gp_active = show_int (active + pending), gp_pending = show_int 0, gp_activationAt = None,
              gp_unlockAt = (if unlock = 0 then None else Some (show_int unlock))\<rparr>
            else \<lparr>gp_active = show_int active, gp_pending = show_int pending, gp_activationAt = Some (show_int generation),
              gp_unlockAt = (if unlock = 0 then None else Some (show_int unlock))\<rparr>)"
      using rest by (auto simp: bindR_eq_Inr principal_uint_big split: if_splits option.splits)
    show ?thesis
    proof (cases processed)
      case True
      then show ?thesis using s range \<open>pending > 0\<close> by (intro that [of "active + pending" 0]) auto
    next
      case False
      then show ?thesis using s range \<open>pending > 0\<close> by (intro that [of active pending]) auto
    qed
  qed
qed

lemma settled_position_Some:
  assumes "settled_position i a m l position = Inr (Some r)"
  obtains x y g u p q c where "getter_uint (getter_field position ''activeAmount'') ''active amount'' = Inr x"
    "getter_uint (getter_field position ''pendingAmount'') ''pending amount'' = Inr y" "x + y = pl_amount l"
    "normalizeGaugePrincipal x y g u c = Inr p" "pr_identity r = positionId (pl_user l) (pl_assetUid l) (pl_marketId l)"
    "pr_payload r = position_payload a m l p (fst q) (snd q)" "pl_amount l > 0 \<or> fst q \<noteq> 0 \<or> snd q \<noteq> 0"
proof -
  obtain x y g u qc mc where r: "getter_uint (getter_field position ''activeAmount'') ''active amount'' = Inr x"
    "getter_uint (getter_field position ''pendingAmount'') ''pending amount'' = Inr y" "x + y = pl_amount l"
    and rest: "\<exists>c p. normalizeGaugePrincipal x y g u c = Inr p \<and> (if pl_amount l = 0 \<and> qc = 0 \<and> mc = 0 then Inr None
         else if pl_amount l > 0 \<and> u = 0 then Inl (Error ''allocated Gauge position has no unlock timestamp'')
         else Inr (Some \<lparr>pr_identity = positionId (pl_user l) (pl_assetUid l) (pl_marketId l),
                pr_sortKey = positionId (pl_user l) (pl_assetUid l) (pl_marketId l),
                pr_payload = position_payload a m l p qc mc\<rparr>)) = Inr (Some r)"
    using assms unfolding settled_position_def by (simp only: bindR_eq_Inr if_Inl_eq_Inr) blast
  from rest obtain c p where p: "normalizeGaugePrincipal x y g u c = Inr p" "\<not> (pl_amount l = 0 \<and> qc = 0 \<and> mc = 0)"
    "r = \<lparr>pr_identity = positionId (pl_user l) (pl_assetUid l) (pl_marketId l),
                pr_sortKey = positionId (pl_user l) (pl_assetUid l) (pl_marketId l), pr_payload = position_payload a m l p qc mc\<rparr>"
    by (auto split: if_splits)
  have "0 \<le> x" "0 \<le> y" using r(1,2) by (auto simp: getter_uint_def dest: principal_uint_nonneg)
  then have "pl_amount l > 0 \<or> qc \<noteq> 0 \<or> mc \<noteq> 0" using p(2) r(3) by auto
  then show ?thesis using that [OF r p(1), of "(qc, mc)"] p(3) by simp
qed

lemma settle_position_Some:
  "settle_position i a m l position p n = Inr (Some r, s) \<Longrightarrow> s = Some 0 \<and> settled_position i a m l position = Inr (Some r)"
  by (auto simp: settle_position_def bindR_eq_Inr split: if_splits)

lemma staked_position_Some:
  assumes "staked_position i a m l = Inr (Some r, s)"
  obtains v position where "consensusRead i (pa_vault a) ''allocation'' [pl_assetUid l, pl_user l, pl_marketId l] = Inr v"
    "principal_scalar v = Inr (pl_amount l)" "consensusRead i (pm_gauge m) ''positionOf'' [pl_user l] = Inr (GObject position)"
    "s = Some 0" "settled_position i a m l position = Inr (Some r)"
proof -
  obtain v raw st position p n where "consensusRead i (pa_vault a) ''allocation'' [pl_assetUid l, pl_user l, pl_marketId l] = Inr v"
    "consensusRead i (pm_gauge m) ''positionOf'' [pl_user l] = Inr raw" "principal_scalar v = Inr (pl_amount l)"
    "getter_object raw ''Gauge position'' = Inr position" and tail: "settle_position i a m l position p n = Inr (Some r, s)"
    using assms unfolding staked_position_def position_reads_def by (auto simp: bindR_eq_Inr if_Inl_eq_Inr)
  moreover have "raw = GObject position" using \<open>getter_object raw _ = _\<close> by (auto simp: getter_object_def split: getter_value.splits)
  ultimately show ?thesis using that settle_position_Some [OF tail] by blast
qed

lemma verifyPosition_Some:
  assumes "verifyPosition i l loadMarket loadAccount = Inr (Some r, s)"
  obtains m a where "loadMarket (pl_marketId l) = Inr (Some m)" "loadAccount (pl_user l) (pl_assetUid l) = Some a"
    "pm_assetUid m = pl_assetUid l" "pm_stakingEnabled m" "staked_position i a m l = Inr (Some r, s)"
  using assms unfolding verifyPosition_def
  by (auto simp: bindR_eq_Inr split: option.splits if_splits)

text \<open>
  A position is published only as the chain has it. When a record is made, both providers gave the same answers, by
  which the vault's allocation is the one of the ledger and the gauge's active and pending principal add up to it;
  the record's active and pending principal add up to the allocation too, activated principal only moving
  from pending to active, and its free balance is the account's deposits less all its allocations.
\<close>

lemma verified_position_agrees:
  assumes "verifyPosition i l loadMarket loadAccount = Inr (Some r, s)"
  shows "\<exists>m a v position x y active pending. loadMarket (pl_marketId l) = Inr (Some m) \<and> loadAccount (pl_user l) (pl_assetUid l) = Some a
    \<and> agreed i (pa_vault a) ''allocation'' [pl_assetUid l, pl_user l, pl_marketId l] v \<and> principal_scalar v = Inr (pl_amount l)
    \<and> agreed i (pm_gauge m) ''positionOf'' [pl_user l] (GObject position)
    \<and> getter_uint (getter_field position ''activeAmount'') ''active amount'' = Inr x
    \<and> getter_uint (getter_field position ''pendingAmount'') ''pending amount'' = Inr y \<and> x + y = pl_amount l
    \<and> field (pr_payload r) ''active'' = Some (JText (show_int active)) \<and> field (pr_payload r) ''pending'' = Some (JText (show_int pending))
    \<and> active + pending = pl_amount l \<and> x \<le> active \<and> 0 \<le> pending
    \<and> field (pr_payload r) ''allocated'' = Some (JText (show_int (pl_amount l)))
    \<and> field (pr_payload r) ''free'' = Some (JText (show_int (pa_deposited a - pa_allocated a)))
    \<and> pr_identity r = positionId (pl_user l) (pl_assetUid l) (pl_marketId l)"
proof -
  obtain m a where ma: "loadMarket (pl_marketId l) = Inr (Some m)" "loadAccount (pl_user l) (pl_assetUid l) = Some a"
    "staked_position i a m l = Inr (Some r, s)"
    by (rule verifyPosition_Some [OF assms]) blast
  obtain v position where v: "agreed i (pa_vault a) ''allocation'' [pl_assetUid l, pl_user l, pl_marketId l] v"
    "principal_scalar v = Inr (pl_amount l)" "agreed i (pm_gauge m) ''positionOf'' [pl_user l] (GObject position)"
    "settled_position i a m l position = Inr (Some r)"
    by (rule staked_position_Some [OF ma(3), unfolded consensusRead_agreed]) blast
  obtain x y g u p q c where xy: "getter_uint (getter_field position ''activeAmount'') ''active amount'' = Inr x"
    "getter_uint (getter_field position ''pendingAmount'') ''pending amount'' = Inr y" "x + y = pl_amount l"
    and n: "normalizeGaugePrincipal x y g u c = Inr p" and r: "pr_identity r = positionId (pl_user l) (pl_assetUid l) (pl_marketId l)"
    "pr_payload r = position_payload a m l p (fst q) (snd q)"
    by (rule settled_position_Some [OF v(4)]) blast
  obtain active pending where "gp_active p = show_int active" "gp_pending p = show_int pending" "active + pending = x + y" "x \<le> active" "0 \<le> pending"
    by (rule normalize_total [OF n]) blast
  then show ?thesis using ma(1,2) v(1-3) xy r
    by (intro exI [of _ m] exI [of _ a] exI [of _ v] exI [of _ position] exI [of _ x] exI [of _ y] exI [of _ active] exI [of _ pending])
      (simp add: position_payload_def)
qed

section \<open>What the contracts must have said\<close>

text \<open>
  The specification of a verified entry, in terms of the providers' answers alone: an amount is the number, as a
  bigint or in decimal.
\<close>

definition getter_amount :: "getter_value \<Rightarrow> int \<Rightarrow> bool" where
  "getter_amount v n \<longleftrightarrow> 0 \<le> n \<and> (v = GScalar (JBig n) \<or> v = GScalar (JStr (show_nat (nat n))))"

lemma getter_uint_reads: "getter_uint v l = Inr n \<Longrightarrow> getter_amount v n"
  by (auto simp: getter_uint_def principal_uint_def getter_amount_def Let_def show_parse_nat split: getter_value.splits js_value.splits if_splits)

lemma principal_scalar_reads: "principal_scalar v = Inr n \<Longrightarrow> getter_amount v n"
  by (simp add: principal_scalar_def getter_uint_reads)

definition account_checked :: "principal_input \<Rightarrow> principal_account \<Rightarrow> bool" where
  "account_checked i a \<longleftrightarrow> (\<exists>d l f. agreed i (pa_vault a) ''deposited'' [pa_assetUid a, pa_user a] d \<and> getter_amount d (pa_deposited a)
     \<and> agreed i (pa_vault a) ''allocated'' [pa_assetUid a, pa_user a] l \<and> getter_amount l (pa_allocated a)
     \<and> agreed i (pa_vault a) ''freeBalanceOf'' [pa_assetUid a, pa_user a] f \<and> getter_amount f (pa_deposited a - pa_allocated a))"

lemma verifyAccount_checked:
  assumes "verifyAccount i a = Inr r"
  shows "account_checked i a \<and> pr_payload r = account_payload a"
proof -
  from assms obtain d l f where "consensusRead i (pa_vault a) ''deposited'' [pa_assetUid a, pa_user a] = Inr d"
    "consensusRead i (pa_vault a) ''allocated'' [pa_assetUid a, pa_user a] = Inr l"
    "consensusRead i (pa_vault a) ''freeBalanceOf'' [pa_assetUid a, pa_user a] = Inr f"
    "principal_scalar d = Inr (pa_deposited a)" "principal_scalar l = Inr (pa_allocated a)"
    "principal_scalar f = Inr (pa_deposited a - pa_allocated a)" and r: "pr_payload r = account_payload a"
    by (auto simp: verifyAccount_def bindR_eq_Inr if_Inl_eq_Inr)
  then have "account_checked i a"
    unfolding account_checked_def consensusRead_agreed using principal_scalar_reads by blast
  then show ?thesis using r by simp
qed

text \<open>
  A position of a market where staking is enabled. Without a record nothing is allocated, and either a settlement is
  pending with its principal, or there is nothing left to claim. With one, no settlement is pending, the gauge's active
  and pending principal make up the allocation, and so do those of the record.
\<close>

definition position_cleared :: "principal_allocation \<Rightarrow> (string \<times> getter_value) list \<Rightarrow> int \<Rightarrow> bool \<Rightarrow> int \<Rightarrow> bool" where
  "position_cleared l position staked pending settled \<longleftrightarrow> pl_amount l = 0
     \<and> (if pending then 0 < settled \<and> (staked = 0 \<or> staked = settled)
        else settled = 0 \<and> staked = 0 \<and> getter_amount (getter_field position ''quoteClaimable'') 0 \<and> getter_amount (getter_field position ''memeClaimable'') 0)"

definition position_shown :: "principal_account \<Rightarrow> principal_market \<Rightarrow> principal_allocation \<Rightarrow> (string \<times> getter_value) list \<Rightarrow> int \<Rightarrow> json \<Rightarrow> bool" where
  "position_shown a m l position contractActive payload \<longleftrightarrow> (\<exists>g active pending quote meme.
     payload = position_payload a m l g quote meme \<and> gp_active g = show_int active \<and> gp_pending g = show_int pending
     \<and> active + pending = pl_amount l \<and> contractActive \<le> active \<and> 0 \<le> pending
     \<and> getter_amount (getter_field position ''quoteClaimable'') quote \<and> getter_amount (getter_field position ''memeClaimable'') meme)"

definition position_checked :: "principal_input \<Rightarrow> principal_account \<Rightarrow> principal_market \<Rightarrow> principal_allocation \<Rightarrow> projection_record option \<Rightarrow> bool" where
  "position_checked i a m l entry \<longleftrightarrow> (\<exists>v position settlement x y pending settled.
     agreed i (pa_vault a) ''allocation'' [pl_assetUid l, pl_user l, pl_marketId l] v \<and> getter_amount v (pl_amount l)
     \<and> agreed i (pm_gauge m) ''positionOf'' [pl_user l] (GObject position)
     \<and> getter_amount (getter_field position ''activeAmount'') x \<and> getter_amount (getter_field position ''pendingAmount'') y
     \<and> agreed i (pn_manager i) ''rageQuitSettlementPending'' [pl_marketId l, pl_user l] (GTuple settlement)
     \<and> getter_item settlement 0 = GBool pending \<and> getter_amount (getter_item settlement 1) settled
     \<and> (case entry of None \<Rightarrow> position_cleared l position (x + y) pending settled
        | Some r \<Rightarrow> \<not> pending \<and> settled = 0 \<and> x + y = pl_amount l \<and> position_shown a m l position x (pr_payload r)))"

lemma settled_position_checked:
  assumes "settled_position i a m l position = Inr entry"
  shows "\<exists>x y. getter_amount (getter_field position ''activeAmount'') x \<and> getter_amount (getter_field position ''pendingAmount'') y
    \<and> (case entry of None \<Rightarrow> position_cleared l position (x + y) False 0
       | Some r \<Rightarrow> x + y = pl_amount l \<and> position_shown a m l position x (pr_payload r))"
proof -
  obtain x y g u qc mc where r: "getter_uint (getter_field position ''activeAmount'') ''active amount'' = Inr x"
    "getter_uint (getter_field position ''pendingAmount'') ''pending amount'' = Inr y"
    "getter_uint (getter_field position ''quoteClaimable'') ''quote claimable'' = Inr qc"
    "getter_uint (getter_field position ''memeClaimable'') ''meme claimable'' = Inr mc" "x + y = pl_amount l"
    and rest: "\<exists>c p. normalizeGaugePrincipal x y g u c = Inr p \<and> (if pl_amount l = 0 \<and> qc = 0 \<and> mc = 0 then Inr None
         else if pl_amount l > 0 \<and> u = 0 then Inl (Error ''allocated Gauge position has no unlock timestamp'')
         else Inr (Some \<lparr>pr_identity = positionId (pl_user l) (pl_assetUid l) (pl_marketId l),
                pr_sortKey = positionId (pl_user l) (pl_assetUid l) (pl_marketId l),
                pr_payload = position_payload a m l p qc mc\<rparr>)) = Inr entry"
    using assms unfolding settled_position_def by (simp only: bindR_eq_Inr if_Inl_eq_Inr) blast
  note amounts = r(1-4) [THEN getter_uint_reads]
  from rest obtain c p where n: "normalizeGaugePrincipal x y g u c = Inr p"
    and out: "pl_amount l = 0 \<and> qc = 0 \<and> mc = 0 \<and> entry = None \<or> (\<exists>r. entry = Some r \<and> pr_payload r = position_payload a m l p qc mc)"
    by (auto split: if_splits)
  obtain active pending where "gp_active p = show_int active" "gp_pending p = show_int pending" "active + pending = x + y" "x \<le> active" "0 \<le> pending"
    by (rule normalize_total [OF n]) blast
  then have "position_shown a m l position x (position_payload a m l p qc mc)"
    using amounts(3,4) r(5) unfolding position_shown_def by metis
  with amounts r(5) out show ?thesis
    by (intro exI [of _ x] exI [of _ y]) (auto simp: position_cleared_def)
qed

lemma staked_position_checked:
  assumes "staked_position i a m l = Inr (entry, s)"
  shows "position_checked i a m l entry"
proof -
  obtain v raw st vs position pending n where v: "agreed i (pa_vault a) ''allocation'' [pl_assetUid l, pl_user l, pl_marketId l] v"
    "agreed i (pm_gauge m) ''positionOf'' [pl_user l] raw" "agreed i (pn_manager i) ''rageQuitSettlementPending'' [pl_marketId l, pl_user l] st"
    "principal_scalar v = Inr (pl_amount l)" "getter_object raw ''Gauge position'' = Inr position"
    "getter_tuple st ''rage quit settlement'' = Inr vs" "getter_bool (getter_item vs 0) ''rage quit pending'' = Inr pending"
    "getter_uint (getter_item vs 1) ''rage quit principal'' = Inr n"
    and tail: "settle_position i a m l position pending n = Inr (entry, s)"
    using assms unfolding staked_position_def position_reads_def
    by (auto simp: bindR_eq_Inr if_Inl_eq_Inr consensusRead_agreed)
  have shapes: "raw = GObject position" "st = GTuple vs" "getter_item vs 0 = GBool pending"
    using v(5-7) by (auto simp: getter_object_def getter_tuple_def getter_bool_def split: getter_value.splits)
  note amounts = principal_scalar_reads [OF v(4)] getter_uint_reads [OF v(8)]
  have "\<exists>x y. getter_amount (getter_field position ''activeAmount'') x \<and> getter_amount (getter_field position ''pendingAmount'') y
    \<and> (case entry of None \<Rightarrow> position_cleared l position (x + y) pending n
       | Some r \<Rightarrow> \<not> pending \<and> n = 0 \<and> x + y = pl_amount l \<and> position_shown a m l position x (pr_payload r))"
  proof (cases pending)
    case True
    then obtain x y where "getter_uint (getter_field position ''activeAmount'') ''active amount'' = Inr x"
      "getter_uint (getter_field position ''pendingAmount'') ''pending amount'' = Inr y"
      "entry = None" "pl_amount l = 0" "0 < n" "x + y = 0 \<or> x + y = n"
      using tail by (auto simp: settle_position_def bindR_eq_Inr if_Inl_eq_Inr)
    with True show ?thesis using getter_uint_reads by (intro exI [of _ x] exI [of _ y]) (auto simp: position_cleared_def)
  next
    case False
    then have n: "n = 0" and e: "settled_position i a m l position = Inr entry"
      using tail by (auto simp: settle_position_def bindR_eq_Inr if_Inl_eq_Inr)
    show ?thesis using settled_position_checked [OF e] False n by (cases entry) simp_all
  qed
  with v(1-3) shapes amounts show ?thesis unfolding position_checked_def by blast
qed

lemma verifyPosition_checked:
  assumes "verifyPosition i l loadMarket loadAccount = Inr (entry, s)"
  shows "\<exists>m a. loadMarket (pl_marketId l) = Inr (Some m) \<and> loadAccount (pl_user l) (pl_assetUid l) = Some a \<and> pm_assetUid m = pl_assetUid l
    \<and> (if pm_stakingEnabled m then position_checked i a m l entry else pl_amount l = 0 \<and> entry = None)"
proof -
  from assms obtain market where market: "loadMarket (pl_marketId l) = Inr market" by (auto simp: verifyPosition_def bindR_eq_Inr)
  note run = assms [unfolded verifyPosition_def market bindR_simps]
  from run obtain m a where ma: "market = Some m" "loadAccount (pl_user l) (pl_assetUid l) = Some a" by (auto split: option.splits)
  note body = run [unfolded ma prod.case option.case]
  have asset: "pm_assetUid m = pl_assetUid l" using body by (auto split: if_splits)
  have "if pm_stakingEnabled m then position_checked i a m l entry else pl_amount l = 0 \<and> entry = None"
    using body asset by (auto intro: staked_position_checked split: if_splits)
  then show ?thesis using market ma asset by blast
qed

end
