(* ===== verification/Principal_Work.thy ===== *)
theory Principal_Work imports Principal_Verify Projection_Stable begin

text \<open>
  The bounded continuation of packages/principal-projector/src/incremental.ts: a candidate per anchor that reads the
  events, verifies the entries they touched and publishes accounts and positions.
\<close>

section \<open>State\<close>

datatype phase = EventsPhase | AccountsPhase | PositionsPhase | PublishedPhase

record candidate =
  cn_number :: int
  cn_hash :: string
  cn_from :: int
  cn_base :: "string option"
  cn_cursor :: "int \<times> int \<times> int"
  cn_phase :: phase
  cn_progress :: int
  cn_audit :: bool
  cn_lastAudit :: int
  cn_evidence :: string

record principal_version =
  pv_scope :: ledger_kind
  pv_identity :: string
  pv_from :: int
  pv_to :: "int option"
  pv_sortKey :: string
  pv_digest :: string
  pv_payload :: json

text \<open>
  The tables of one generation. There is at most one candidate that is not published, and the work is that
  candidate's: it is deleted when the candidate is published.
\<close>

record principal_state =
  ss_store :: principal_store
  ss_versions :: "principal_version list"
  ss_candidates :: "candidate list"
  ss_cleanup :: "((string \<times> string \<times> string) \<times> int \<times> string \<times> int) list"
  ss_projection :: projection_db

text \<open>A row of the query for the logs of the vault, the gauges and the manager, with what the decoder makes of it.\<close>

record vault_log =
  vl_at :: "int \<times> int \<times> int"
  vl_module :: string
  vl_event :: "decoded_event option"

record principal_run = principal_input +
  pn_deployment :: deployment
  pn_hash :: string
  pn_generation :: int
  pn_vaults :: "string \<Rightarrow> string option"
  pn_pageSize :: nat
  pn_maxPages :: nat
  pn_auditInterval :: int

definition run_revision :: "'a principal_run_scheme \<Rightarrow> string" where
  "run_revision i = revision_text (pn_block i) (pn_hash i)"

definition position_less :: "int \<times> int \<times> int \<Rightarrow> int \<times> int \<times> int \<Rightarrow> bool" where
  "position_less = (\<lambda>(a, b, c) (x, y, z). a < x \<or> a = x \<and> (b < y \<or> b = y \<and> c < z))"

definition scope_text :: "ledger_kind \<Rightarrow> string" where
  "scope_text k = (case k of Accounts \<Rightarrow> ''accounts'' | Positions \<Rightarrow> ''positions'')"

section \<open>The candidate\<close>

definition find_candidate :: "'a principal_run_scheme \<Rightarrow> principal_state \<Rightarrow> candidate option" where
  "find_candidate i st = find (\<lambda>c. cn_hash c = pn_hash i) (ss_candidates st)"

definition set_candidate :: "candidate \<Rightarrow> principal_state \<Rightarrow> principal_state" where
  "set_candidate c st = st\<lparr>ss_candidates := map (\<lambda>x. if cn_hash x = cn_hash c then c else x) (ss_candidates st)\<rparr>"

text \<open>\<open>locked\<close>: the anchor must be publishable, and the candidate the one that was read.\<close>

definition locked_anchor :: "'a principal_run_scheme \<Rightarrow> chain_db \<Rightarrow> unit res" where
  "locked_anchor i db = assertPublishableAnchor (pn_deployment i) None (pn_block i) (pn_hash i) (pn_generation i) db"

definition locked :: "'a principal_run_scheme \<Rightarrow> chain_db \<Rightarrow> candidate \<Rightarrow> principal_state \<Rightarrow> unit res" where
  "locked i db expected st = bindR (locked_anchor i db) (\<lambda>_. case find_candidate i st of
       None \<Rightarrow> Inl (Error ''principal continuation superseded'')
     | Some current \<Rightarrow> ensure (cn_phase current = cn_phase expected \<and> cn_progress current = cn_progress expected)
         (Error ''principal continuation superseded''))"

definition published_candidates :: "principal_state \<Rightarrow> candidate list" where
  "published_candidates st = filter (\<lambda>c. cn_phase c = PublishedPhase) (ss_candidates st)"

definition latest_base :: "principal_state \<Rightarrow> candidate option" where
  "latest_base st = (case rev (sort_key cn_number (published_candidates st)) of [] \<Rightarrow> None | c # _ \<Rightarrow> Some c)"

definition optional_text :: "string option \<Rightarrow> json" where
  "optional_text v = (case v of None \<Rightarrow> JNull | Some s \<Rightarrow> JText s)"

definition start_evidence :: "host \<Rightarrow> 'a principal_run_scheme \<Rightarrow> candidate option \<Rightarrow> bool \<Rightarrow> string" where
  "start_evidence H i base fullAudit = digest H (JObject [(''algorithm'', JText ''f72-principal-v2''), (''revision'', JText (run_revision i)),
     (''base'', optional_text (map_option cn_evidence base)), (''fullAudit'', JBool fullAudit)])"

definition new_candidate :: "host \<Rightarrow> 'a principal_run_scheme \<Rightarrow> candidate option \<Rightarrow> candidate" where
  "new_candidate H i base =
    (let fullAudit = (case base of None \<Rightarrow> True | Some b \<Rightarrow> pn_block i - cn_lastAudit b \<ge> pn_auditInterval i);
         from = (case base of None \<Rightarrow> dp_activationBlock (pn_deployment i) | Some b \<Rightarrow> cn_number b + 1)
     in \<lparr>cn_number = pn_block i, cn_hash = pn_hash i, cn_from = from,
          cn_base = map_option (\<lambda>b. revision_text (cn_number b) (cn_hash b)) base, cn_cursor = (from, - 1, - 1),
          cn_phase = EventsPhase, cn_progress = 0, cn_audit = fullAudit,
          cn_lastAudit = (case base of None \<Rightarrow> pn_block i | Some b \<Rightarrow> if fullAudit then pn_block i else cn_lastAudit b),
          cn_evidence = start_evidence H i base fullAudit\<rparr>)"

definition start_candidate :: "host \<Rightarrow> 'a principal_run_scheme \<Rightarrow> chain_db \<Rightarrow> principal_state \<Rightarrow> principal_state res" where
  "start_candidate H i db st =
     bindR (locked_anchor i db) (\<lambda>_. case find_candidate i st of
       Some _ \<Rightarrow> Inr st
     | None \<Rightarrow>
         let base = latest_base st
         in if (case base of None \<Rightarrow> False | Some b \<Rightarrow> cn_number b \<ge> pn_block i)
            then Inl (Error ''principal anchor cannot move backwards'')
            else if list_ex (\<lambda>c. cn_phase c \<noteq> PublishedPhase) (ss_candidates st) then Inl duplicate_key
            else Inr (st\<lparr>ss_candidates := ss_candidates st @ [new_candidate H i base]\<rparr>))"

section \<open>Reading events\<close>

definition principal_modules :: "string set" where
  "principal_modules = {''UserStockVault'', ''MemeStockGauge'', ''AllocationManager''}"

definition event_page :: "'a principal_run_scheme \<Rightarrow> candidate \<Rightarrow> vault_log list \<Rightarrow> vault_log list" where
  "event_page i c logs = take (pn_pageSize i) (filter (\<lambda>l. vl_module l \<in> principal_modules \<and> fst (vl_at l) \<le> pn_block i
     \<and> fst (cn_cursor c) \<le> fst (vl_at l) \<and> position_less (cn_cursor c) (vl_at l)) logs)"

text \<open>Gauge and manager events mark the positions they may change.\<close>

definition market_gauge_is :: "projection_db \<Rightarrow> string \<Rightarrow> string \<Rightarrow> string \<Rightarrow> bool" where
  "market_gauge_is pdb revision gauge market \<longleftrightarrow> list_ex (\<lambda>r. sv_identity r = market
     \<and> field (sv_payload r) ''gauge'' = Some (JText gauge)) (read_records pdb ''markets'' revision)"

definition affected_position :: "'a principal_run_scheme \<Rightarrow> projection_db \<Rightarrow> decoded_event \<Rightarrow> ledger_row \<Rightarrow> bool" where
  "affected_position i pdb e r \<longleftrightarrow> ld_kind r = Positions
     \<and> (case arg (ev_args e) ''marketId'' of JStr m \<Rightarrow> ld_market r = Some m | _ \<Rightarrow> True)
     \<and> (case arg (ev_args e) ''user'' of JStr u \<Rightarrow> ld_user r = lower u | _ \<Rightarrow> True)
     \<and> (ev_module e \<noteq> ''MemeStockGauge'' \<or> (case ld_market r of None \<Rightarrow> False
         | Some m \<Rightarrow> market_gauge_is pdb (run_revision i) (lg_address (ev_log e)) m))"

definition add_work :: "(ledger_row \<Rightarrow> bool) \<Rightarrow> principal_store \<Rightarrow> principal_store" where
  "add_work P s = s\<lparr>ps_work := fold insert_work (filter P (ps_ledger s)) (ps_work s)\<rparr>"

definition consume_log :: "'a principal_run_scheme \<Rightarrow> projection_db \<Rightarrow> vault_log \<Rightarrow> principal_store \<Rightarrow> principal_store res" where
  "consume_log i pdb l s = (case vl_event l of
     None \<Rightarrow> Inl (Error ''principal event cannot be decoded'')
   | Some e \<Rightarrow> if is_principal e then applyEvent (dp_chainId (pn_deployment i)) (pn_vaults i) e s
       else Inr (add_work (affected_position i pdb e) s))"

text \<open>\<open>(payload->>'k')::numeric\<close> of a decimal text, and the timestamp of a stored block.\<close>

definition numeric_field :: "json \<Rightarrow> string \<Rightarrow> int option" where
  "numeric_field v k = (case field v k of Some (JText s) \<Rightarrow> if is_uint_literal s then Some (int (parse_nat s)) else None
     | Some (JNumber n) \<Rightarrow> Some n | _ \<Rightarrow> None)"

definition block_time :: "chain_db \<Rightarrow> string \<Rightarrow> int option" where
  "block_time db h = map_option br_timestamp (find (\<lambda>r. br_hash r = h) (cd_blocks db))"

definition unlocks_between :: "int option \<Rightarrow> int option \<Rightarrow> int \<Rightarrow> bool" where
  "unlocks_between before now unlock \<longleftrightarrow> unlock > 0 \<and> (case now of None \<Rightarrow> False | Some t \<Rightarrow> unlock \<le> t)
     \<and> unlock > (case before of None \<Rightarrow> 0 | Some t \<Rightarrow> t)"

text \<open>\<open>split_part(base, ':', 2)\<close>.\<close>

definition revision_hash :: "string \<Rightarrow> string" where
  "revision_hash r = takeWhile (\<lambda>c. c \<noteq> CHR '':'') (drop 1 (dropWhile (\<lambda>c. c \<noteq> CHR '':'') r))"

definition due_version :: "'a principal_run_scheme \<Rightarrow> chain_db \<Rightarrow> candidate \<Rightarrow> principal_version \<Rightarrow> bool" where
  "due_version i db c v \<longleftrightarrow> pv_to v = None
     \<and> ((case numeric_field (pv_payload v) ''pending'' of None \<Rightarrow> False | Some n \<Rightarrow> n > 0)
       \<or> (case numeric_field (pv_payload v) ''unlockAt'' of None \<Rightarrow> False
          | Some u \<Rightarrow> unlocks_between (case cn_base c of None \<Rightarrow> None | Some b \<Rightarrow> block_time db (revision_hash b)) (block_time db (pn_hash i)) u))"

definition due_row :: "'a principal_run_scheme \<Rightarrow> chain_db \<Rightarrow> candidate \<Rightarrow> principal_version list \<Rightarrow> ledger_row \<Rightarrow> bool" where
  "due_row i db c vs r \<longleftrightarrow> cn_audit c \<or> list_ex (\<lambda>v. pv_scope v = ld_kind r \<and> pv_identity v = ld_identity r \<and> due_version i db c v) vs"

definition events_step :: "'a principal_run_scheme \<Rightarrow> chain_db \<Rightarrow> vault_log list \<Rightarrow> candidate \<Rightarrow> principal_state \<Rightarrow> principal_state res" where
  "events_step i db logs c st =
    (let rows = event_page i c logs in
     bindR (locked i db c st) (\<lambda>_.
     bindR (foldR (consume_log i (ss_projection st)) rows (ss_store st)) (\<lambda>store.
       Inr (if rows = [] then set_candidate (c\<lparr>cn_phase := AccountsPhase, cn_progress := cn_progress c + 1\<rparr>)
                (st\<lparr>ss_store := add_work (due_row i db c (ss_versions st)) store\<rparr>)
            else set_candidate (c\<lparr>cn_cursor := vl_at (last rows), cn_progress := cn_progress c + int (length rows)\<rparr>)
                (st\<lparr>ss_store := store\<rparr>)))))"

section \<open>Verifying the changed entries\<close>

definition work_kind :: "phase \<Rightarrow> ledger_kind" where
  "work_kind p = (if p = AccountsPhase then Accounts else Positions)"

definition undone :: "ledger_kind \<Rightarrow> work_row list \<Rightarrow> work_row list" where
  "undone k = filter (\<lambda>w. wk_kind w = k \<and> \<not> wk_done w)"

definition work_page :: "(string \<Rightarrow> string \<Rightarrow> int) \<Rightarrow> 'a principal_run_scheme \<Rightarrow> candidate \<Rightarrow> principal_store \<Rightarrow> ledger_row list" where
  "work_page collate i c s = take (pn_pageSize i) (concat (map (\<lambda>w. filter (\<lambda>r. ld_kind r = wk_kind w \<and> ld_identity r = wk_identity w) (ps_ledger s))
     (js_sort (\<lambda>w x. collate (wk_identity w) (wk_identity x)) (undone (work_kind (cn_phase c)) (ps_work s)))))"

definition load_account :: "principal_store \<Rightarrow> string \<Rightarrow> string \<Rightarrow> principal_account option" where
  "load_account s user asset = (case find (\<lambda>r. ld_kind r = Accounts \<and> ld_identity r = accountId user asset) (ps_ledger s) of
     None \<Rightarrow> None | Some r \<Rightarrow> (case ld_payload r of AccountPayload a \<Rightarrow> Some a | PositionPayload _ \<Rightarrow> None))"

definition load_market :: "'a principal_run_scheme \<Rightarrow> projection_db \<Rightarrow> string \<Rightarrow> principal_market option res" where
  "load_market i pdb market = (case find (\<lambda>r. sv_identity r = market) (read_records pdb ''markets'' (run_revision i)) of
     None \<Rightarrow> Inr None | Some r \<Rightarrow> bindR (validatePrincipalMarket (sv_payload r)) (\<lambda>m. Inr (Some m)))"

definition input_of_run :: "'a principal_run_scheme \<Rightarrow> principal_input" where
  "input_of_run i = principal_input.truncate i"

definition verify_entry :: "'a principal_run_scheme \<Rightarrow> principal_state \<Rightarrow> ledger_row \<Rightarrow> (projection_record option \<times> int option) res" where
  "verify_entry i st r = (case ld_payload r of
     AccountPayload a \<Rightarrow> bindR (verifyAccount (input_of_run i) a) (\<lambda>p. Inr (Some p, None))
   | PositionPayload l \<Rightarrow> verifyPosition (input_of_run i) l (load_market i (ss_projection st)) (load_account (ss_store st)))"

definition open_version :: "ledger_row \<Rightarrow> principal_version \<Rightarrow> bool" where
  "open_version r v \<longleftrightarrow> pv_scope v = ld_kind r \<and> pv_identity v = ld_identity r \<and> pv_to v = None"

definition version_of_record :: "host \<Rightarrow> 'a principal_run_scheme \<Rightarrow> ledger_row \<Rightarrow> projection_record \<Rightarrow> principal_version" where
  "version_of_record H i r p = \<lparr>pv_scope = ld_kind r, pv_identity = ld_identity r, pv_from = pn_block i, pv_to = None,
     pv_sortKey = ld_identity r, pv_digest = digest H (pr_payload p), pv_payload = pr_payload p\<rparr>"

definition write_version :: "host \<Rightarrow> 'a principal_run_scheme \<Rightarrow> ledger_row \<Rightarrow> projection_record option \<Rightarrow> principal_version list \<Rightarrow> principal_version list" where
  "write_version H i r record vs =
    (let old = map_option pv_digest (find (open_version r) vs); new = map_option (digest H \<circ> pr_payload) record
     in if old = new then vs
        else map (\<lambda>v. if open_version r v then v\<lparr>pv_to := Some (pn_block i)\<rparr> else v) vs
           @ (case record of None \<Rightarrow> [] | Some p \<Rightarrow> [version_of_record H i r p]))"

definition mark_done :: "ledger_row \<Rightarrow> work_row list \<Rightarrow> work_row list" where
  "mark_done r = map (\<lambda>w. if wk_kind w = ld_kind r \<and> wk_identity w = ld_identity r then w\<lparr>wk_done := True\<rparr> else w)"

definition write_verified :: "host \<Rightarrow> 'a principal_run_scheme \<Rightarrow> ledger_row \<times> projection_record option \<times> int option \<Rightarrow> principal_state \<Rightarrow> principal_state" where
  "write_verified H i = (\<lambda>(r, record, settlement) st. st
     \<lparr>ss_cleanup := (case (settlement, ld_market r) of
          (Some p, Some m) \<Rightarrow> AList.update (ld_asset r, ld_user r, m) (pn_block i, pn_hash i, p) (ss_cleanup st) | _ \<Rightarrow> ss_cleanup st),
      ss_versions := write_version H i r record (ss_versions st),
      ss_store := (ss_store st)\<lparr>ps_work := mark_done r (ps_work (ss_store st))\<rparr>\<rparr>)"

definition page_evidence :: "host \<Rightarrow> candidate \<Rightarrow> (ledger_row \<times> projection_record option \<times> int option) list \<Rightarrow> string" where
  "page_evidence H c verified = digest H (JObject [(''prior'', JText (cn_evidence c)),
     (''scope'', JText (scope_text (work_kind (cn_phase c)))),
     (''verified'', JArray (map (\<lambda>(r, record, _). JObject [(''identity'', JText (ld_identity r)),
        (''payload'', case record of None \<Rightarrow> JNull | Some p \<Rightarrow> pr_payload p)]) verified))])"

definition verify_step :: "host \<Rightarrow> 'a principal_run_scheme \<Rightarrow> chain_db \<Rightarrow> ledger_row list \<Rightarrow> candidate \<Rightarrow> principal_state \<Rightarrow> principal_state res" where
  "verify_step H i db work c st =
     bindR (mapR (\<lambda>r. bindR (verify_entry i st r) (\<lambda>v. Inr (r, v))) work) (\<lambda>verified.
     bindR (locked i db c st) (\<lambda>_.
       Inr (set_candidate (c\<lparr>cn_progress := cn_progress c + int (length work), cn_evidence := page_evidence H c verified\<rparr>)
         (fold (write_verified H i) verified st))))"

section \<open>Publishing\<close>

definition count_valid :: "ledger_kind \<Rightarrow> int \<Rightarrow> principal_version list \<Rightarrow> int" where
  "count_valid k n vs = int (length (filter (\<lambda>v. pv_scope v = k \<and> pv_from v \<le> n
     \<and> (case pv_to v of None \<Rightarrow> True | Some t \<Rightarrow> t > n)) vs))"

definition run_counts :: "'a principal_run_scheme \<Rightarrow> principal_state \<Rightarrow> int \<times> int" where
  "run_counts i st = (count_valid Accounts (pn_block i) (ss_versions st), count_valid Positions (pn_block i) (ss_versions st))"

text \<open>\<open>BigInt(revision.split(':')[0])\<close>.\<close>

definition revision_block :: "string \<Rightarrow> int" where
  "revision_block r = parse_int (takeWhile (\<lambda>c. c \<noteq> CHR '':'') r)"

definition principal_payload :: "'a principal_run_scheme \<Rightarrow> candidate \<Rightarrow> principal_state \<Rightarrow> ledger_kind \<Rightarrow> json" where
  "principal_payload i c st k = JObject [(''algorithmVersion'', JText ''f72-principal-v2''), (''storage'', JText ''principal-versions-v1''),
     (''recordCount'', JNumber (count_valid k (pn_block i) (ss_versions st))),
     (''verifiedRecordCount'', JNumber (int (length (filter (\<lambda>w. wk_kind w = k \<and> wk_done w) (ps_work (ss_store st)))))),
     (''coverage'', JObject [(''fromBlock'', JText (show_int (dp_activationBlock (pn_deployment i)))), (''toBlock'', JText (show_int (pn_block i)))]),
     (''baseRevision'', optional_text (cn_base c)), (''fullAudit'', JBool (cn_audit c)), (''evidenceDigest'', JText (cn_evidence c))]"

definition publish_scope :: "host \<Rightarrow> 'a principal_run_scheme \<Rightarrow> candidate \<Rightarrow> principal_state \<Rightarrow> ledger_kind \<Rightarrow> projection_db \<Rightarrow> projection_db res" where
  "publish_scope H i c st k pdb =
    (let scope = scope_text k; revision = run_revision i; payload = principal_payload i c st k
     in if (case map_of (pd_pointers pdb) scope of None \<Rightarrow> False | Some r \<Rightarrow> revision_block r \<ge> pn_block i)
        then Inl (Error ''principal publication revision must advance'')
        else if list_ex (is_publication scope revision) (pd_publications pdb) then Inl duplicate_key
        else Inr (upsert_checkpoint \<lparr>pc_scope = scope, pc_algorithm = ''f72-principal-v2'', pc_next = pn_block i + 1,
             pc_generation = pn_generation i, pc_last = Some revision\<rparr>
           (set_pointer scope revision (pdb\<lparr>pd_publications := pd_publications pdb @ [\<lparr>pu_scope = scope, pu_revision = revision,
             pu_blockNumber = pn_block i, pu_blockHash = pn_hash i, pu_generation = pn_generation i, pu_digest = digest H payload,
             pu_payload = payload\<rparr>]\<rparr>))))"

definition finish :: "host \<Rightarrow> 'a principal_run_scheme \<Rightarrow> chain_db \<Rightarrow> candidate \<Rightarrow> principal_state \<Rightarrow> principal_state res" where
  "finish H i db c st =
     bindR (locked i db c st) (\<lambda>_.
     if list_ex (\<lambda>w. \<not> wk_done w) (ps_work (ss_store st)) then Inl (Error ''principal work remains'')
     else if map_of (pd_pointers (ss_projection st)) ''markets'' \<noteq> Some (run_revision i)
     then Inl (Error ''principal market anchor unavailable'')
     else bindR (foldR (publish_scope H i c st) [Accounts, Positions] (ss_projection st)) (\<lambda>pdb.
       Inr (set_candidate (c\<lparr>cn_phase := PublishedPhase\<rparr>)
         (st\<lparr>ss_projection := pdb, ss_store := (ss_store st)\<lparr>ps_work := []\<rparr>\<rparr>))))"

section \<open>The loop\<close>

text \<open>One iteration; a result is what \<open>projectF72Principal\<close> returns.\<close>

definition principal_pass :: "host \<Rightarrow> (string \<Rightarrow> string \<Rightarrow> int) \<Rightarrow> 'a principal_run_scheme \<Rightarrow> chain_db \<Rightarrow> vault_log list \<Rightarrow> principal_state
    \<Rightarrow> (principal_state \<times> (int \<times> int) option) res" where
  "principal_pass H collate i db logs st = (case find_candidate i st of
     None \<Rightarrow> Inl (TypeError ''Cannot read properties of undefined'')
   | Some c \<Rightarrow> (case cn_phase c of
       PublishedPhase \<Rightarrow> Inr (st, Some (run_counts i st))
     | EventsPhase \<Rightarrow> bindR (events_step i db logs c st) (\<lambda>st'. Inr (st', None))
     | AccountsPhase \<Rightarrow> (case work_page collate i c (ss_store st) of
         [] \<Rightarrow> bindR (locked i db c st) (\<lambda>_. Inr (set_candidate (c\<lparr>cn_phase := PositionsPhase, cn_progress := cn_progress c + 1\<rparr>) st, None))
       | work \<Rightarrow> bindR (verify_step H i db work c st) (\<lambda>st'. Inr (st', None)))
     | PositionsPhase \<Rightarrow> (case work_page collate i c (ss_store st) of
         [] \<Rightarrow> bindR (finish H i db c st) (\<lambda>st'. Inr (st', Some (run_counts i st')))
       | work \<Rightarrow> bindR (verify_step H i db work c st) (\<lambda>st'. Inr (st', None)))))"

text \<open>
  Pages are committed one by one, so an error keeps those before it. \<open>within\<close> is the clock: whether the budget
  still lasts at the start of a page.
\<close>

fun principal_pages :: "host \<Rightarrow> (string \<Rightarrow> string \<Rightarrow> int) \<Rightarrow> 'a principal_run_scheme \<Rightarrow> chain_db \<Rightarrow> vault_log list \<Rightarrow> (nat \<Rightarrow> bool)
    \<Rightarrow> nat \<Rightarrow> principal_state \<Rightarrow> principal_state \<times> (int \<times> int) res" where
  "principal_pages H collate i db logs within 0 st = (st, Inl (Error ''principal projection continuation required''))"
| "principal_pages H collate i db logs within (Suc n) st =
    (if \<not> within n then (st, Inl (Error ''principal projection continuation required''))
     else case principal_pass H collate i db logs st of
       Inl e \<Rightarrow> (st, Inl e)
     | Inr (st', Some r) \<Rightarrow> (st', Inr r)
     | Inr (st', None) \<Rightarrow> principal_pages H collate i db logs within n st')"

definition projectF72Principal :: "host \<Rightarrow> (string \<Rightarrow> string \<Rightarrow> int) \<Rightarrow> 'a principal_run_scheme \<Rightarrow> chain_db \<Rightarrow> vault_log list \<Rightarrow> (nat \<Rightarrow> bool)
    \<Rightarrow> principal_state \<Rightarrow> principal_state \<times> (int \<times> int) res" where
  "projectF72Principal H collate i db logs within st =
    (if pn_pageSize i < 1 \<or> pn_pageSize i > 250 \<or> pn_maxPages i < 1 \<or> pn_maxPages i > 1000
     then (st, Inl (Error ''invalid principal work budget''))
     else if pn_auditInterval i < 1 then (st, Inl (Error ''invalid audit interval''))
     else case start_candidate H i db st of
       Inl e \<Rightarrow> (st, Inl e)
     | Inr st' \<Rightarrow> principal_pages H collate i db logs within (pn_maxPages i) st')"

section \<open>Pages of the log\<close>

lemma position_less_trans: "position_less a b \<Longrightarrow> position_less b c \<Longrightarrow> position_less a c"
  by (auto simp: position_less_def)

lemma position_less_irrefl [simp]: "\<not> position_less a a"
  by (auto simp: position_less_def)

lemma position_less_linear: "\<not> position_less a b \<Longrightarrow> a = b \<or> position_less b a"
  by (auto simp: position_less_def)

lemma position_less_block: "position_less a b \<Longrightarrow> fst a \<le> fst b"
  by (auto simp: position_less_def)

text \<open>The logs of one generation, in the order of the query.\<close>

definition logs_ordered :: "int \<Rightarrow> vault_log list \<Rightarrow> bool" where
  "logs_ordered activation logs \<longleftrightarrow> sorted_wrt position_less (map vl_at logs)
     \<and> (\<forall>l\<in>set logs. activation \<le> fst (vl_at l) \<and> 0 \<le> fst (snd (vl_at l)) \<and> vl_module l \<in> principal_modules
         \<and> (\<forall>e. vl_event l = Some e \<longrightarrow> ev_module e = vl_module l))"

definition upto_position :: "int \<times> int \<times> int \<Rightarrow> vault_log list \<Rightarrow> vault_log list" where
  "upto_position p = filter (\<lambda>l. \<not> position_less p (vl_at l))"

definition upto_block :: "int \<Rightarrow> vault_log list \<Rightarrow> vault_log list" where
  "upto_block n = filter (\<lambda>l. fst (vl_at l) \<le> n)"

text \<open>A list in order is what lies up to a position, and what follows.\<close>

lemma split_at_position:
  "sorted_wrt position_less (map vl_at logs) \<Longrightarrow> logs = upto_position p logs @ filter (\<lambda>l. position_less p (vl_at l)) logs"
proof (induction logs)
  case (Cons l logs)
  show ?case
  proof (cases "position_less p (vl_at l)")
    case True
    then have "\<forall>x\<in>set logs. position_less p (vl_at x)" using Cons.prems position_less_trans by auto
    then show ?thesis using True by (simp add: upto_position_def filter_id_conv)
  next
    case False
    then show ?thesis using Cons by (simp add: upto_position_def)
  qed
qed (simp add: upto_position_def)

lemma upto_last:
  assumes s: "sorted_wrt position_less (map vl_at (xs @ ys))" and "xs \<noteq> []"
  shows "upto_position (vl_at (last xs)) (xs @ ys) = xs"
proof -
  obtain b l where xs: "xs = b @ [l]" using assms(2) by (metis append_butlast_last_id)
  have "\<forall>x\<in>set b. position_less (vl_at x) (vl_at l)" "\<forall>y\<in>set ys. position_less (vl_at l) (vl_at y)"
    using s by (simp_all add: xs sorted_wrt_append)
  moreover from this(1) have "\<forall>x\<in>set b. \<not> position_less (vl_at l) (vl_at x)"
    using position_less_trans position_less_irrefl by blast
  ultimately show ?thesis by (simp add: xs upto_position_def filter_id_conv filter_empty_conv)
qed

lemma event_page_is:
  assumes ord: "logs_ordered a logs"
  shows "event_page i c logs = take (pn_pageSize i) (filter (\<lambda>l. position_less (cn_cursor c) (vl_at l)) (upto_block (pn_block i) logs))"
proof -
  have "filter (\<lambda>l. vl_module l \<in> principal_modules \<and> fst (vl_at l) \<le> pn_block i
     \<and> fst (cn_cursor c) \<le> fst (vl_at l) \<and> position_less (cn_cursor c) (vl_at l)) logs
    = filter (\<lambda>l. position_less (cn_cursor c) (vl_at l)) (upto_block (pn_block i) logs)"
    unfolding upto_block_def filter_filter
    by (rule filter_cong [OF refl]) (use ord in \<open>auto simp: logs_ordered_def dest: position_less_block\<close>)
  then show ?thesis by (simp add: event_page_def)
qed

lemma upto_block_sorted: "logs_ordered a logs \<Longrightarrow> sorted_wrt position_less (map vl_at (upto_block n logs))"
  by (simp add: logs_ordered_def upto_block_def sorted_wrt_map sorted_wrt_filter)

text \<open>A page follows what was consumed, up to its last row.\<close>

lemma page_consumed:
  assumes ord: "logs_ordered a logs" and page: "event_page i c logs \<noteq> []" and cursor: "fst (cn_cursor c) \<le> pn_block i"
  shows "upto_position (vl_at (last (event_page i c logs))) logs = upto_position (cn_cursor c) logs @ event_page i c logs
    \<and> fst (vl_at (last (event_page i c logs))) \<le> pn_block i"
proof -
  define B where "B = upto_block (pn_block i) logs"
  define rest where "rest = filter (\<lambda>l. position_less (cn_cursor c) (vl_at l)) B"
  define page where "page = event_page i c logs"
  have pg: "page = take (pn_pageSize i) rest" by (simp add: page_def event_page_is [OF ord] rest_def B_def)
  have B: "B = upto_position (cn_cursor c) B @ rest" unfolding rest_def
    by (rule split_at_position) (simp add: B_def upto_block_sorted [OF ord])
  also have "\<dots> = (upto_position (cn_cursor c) B @ page) @ drop (pn_pageSize i) rest" by (simp add: pg)
  finally have split: "B = (upto_position (cn_cursor c) B @ page) @ drop (pn_pageSize i) rest" .
  have ne: "page \<noteq> []" using page by (simp add: page_def)
  have "upto_position (vl_at (last (upto_position (cn_cursor c) B @ page))) ((upto_position (cn_cursor c) B @ page) @ drop (pn_pageSize i) rest)
      = upto_position (cn_cursor c) B @ page"
    by (rule upto_last) (use upto_block_sorted [OF ord, of "pn_block i", folded B_def] split ne in auto)
  then have up: "upto_position (vl_at (last page)) B = upto_position (cn_cursor c) B @ page" using ne split by simp
  have last: "fst (vl_at (last page)) \<le> pn_block i"
  proof -
    have "last page \<in> set B" using split ne by (metis Un_iff last_in_set set_append)
    then show ?thesis by (simp add: B_def upto_block_def)
  qed
  have below: "upto_position p logs = upto_position p B" if "fst p \<le> pn_block i" for p
    unfolding B_def upto_block_def upto_position_def filter_filter
    by (rule filter_cong [OF refl]) (use that in \<open>auto simp: position_less_def case_prod_unfold\<close>)
  show ?thesis using up last below [OF cursor] below [OF last] by (simp add: page_def)
qed

lemma page_empty:
  assumes ord: "logs_ordered a logs" and page: "event_page i c logs = []" and size: "1 \<le> pn_pageSize i" and cursor: "fst (cn_cursor c) \<le> pn_block i"
  shows "upto_position (cn_cursor c) logs = upto_block (pn_block i) logs"
proof -
  have none: "\<forall>l\<in>set (upto_block (pn_block i) logs). \<not> position_less (cn_cursor c) (vl_at l)"
    using page size by (auto simp: event_page_is [OF ord] filter_empty_conv)
  show ?thesis unfolding upto_position_def upto_block_def
    by (rule filter_cong [OF refl]) (use none cursor in \<open>auto simp: upto_block_def position_less_def case_prod_unfold\<close>)
qed

lemma upto_start:
  assumes "logs_ordered a logs" shows "upto_position (n + 1, - 1, - 1) logs = upto_block n logs"
  unfolding upto_position_def upto_block_def
  by (rule filter_cong [OF refl]) (use assms in \<open>auto simp: logs_ordered_def position_less_def case_prod_unfold\<close>)

lemma upto_activation:
  assumes "logs_ordered a logs" shows "upto_position (a, - 1, - 1) logs = []"
  using assms by (auto simp: upto_position_def filter_empty_conv logs_ordered_def position_less_def case_prod_unfold)

end
