(* ===== verification/Principal_Exact.thy ===== *)
theory Principal_Exact imports Principal_Work begin

text \<open>
  The candidates of reachable principal tables, and that the stored ledger holds each event of the vault exactly
  once: what the cursor has passed while events are read, and all up to the anchor afterwards.
\<close>

section \<open>The candidates\<close>

definition unpublished :: "candidate \<Rightarrow> bool" where
  "unpublished c \<longleftrightarrow> cn_phase c \<noteq> PublishedPhase"

definition candidates_ok :: "headers \<Rightarrow> candidate list \<Rightarrow> bool" where
  "candidates_ok hdr cs \<longleftrightarrow> distinct (map cn_hash cs) \<and> (\<forall>c\<in>set cs. height hdr (cn_hash c) = cn_number c)
     \<and> (\<forall>c\<in>set cs. unpublished c \<longrightarrow> (\<forall>x\<in>set cs. x = c \<or> \<not> unpublished x \<and> cn_number x < cn_number c)
          \<and> (cn_phase c = EventsPhase \<longrightarrow> fst (cn_cursor c) \<le> cn_number c))"

definition working :: "principal_state \<Rightarrow> candidate option" where
  "working st = find unpublished (ss_candidates st)"

lemma working_is: "candidates_ok hdr (ss_candidates st) \<Longrightarrow> c \<in> set (ss_candidates st) \<Longrightarrow> unpublished c \<Longrightarrow> working st = Some c"
proof -
  assume ok: "candidates_ok hdr (ss_candidates st)" and c: "c \<in> set (ss_candidates st)" "unpublished c"
  show ?thesis
  proof (cases "working st")
    case None
    then show ?thesis using c by (simp add: working_def find_None_iff)
  next
    case (Some x)
    then have "x \<in> set (ss_candidates st)" "unpublished x" unfolding working_def by (auto dest: find_member)
    then have "x = c" using ok c unfolding candidates_ok_def by blast
    then show ?thesis using Some by simp
  qed
qed

lemma working_none: "working st = None \<longleftrightarrow> (\<forall>c\<in>set (ss_candidates st). \<not> unpublished c)"
  by (auto simp: working_def find_None_iff)

lemma set_candidate_set:
  assumes "distinct (map cn_hash cs)" and "c \<in> set cs" and "cn_hash c' = cn_hash c"
  shows "set (map (\<lambda>x. if cn_hash x = cn_hash c' then c' else x) cs) = insert c' (set cs - {c})"
  using assms by (auto simp: image_iff dest: eq_key_imp_eq_value) (metis distinct_map inj_onD)+

lemma set_candidate_hashes: "map cn_hash (map (\<lambda>x. if cn_hash x = cn_hash c' then c' else x) cs) = map cn_hash cs"
  by (induction cs) auto

text \<open>Replacing the working candidate by its next state.\<close>

lemma candidates_step:
  assumes ok: "candidates_ok hdr cs" and c: "c \<in> set cs" "unpublished c"
    and c': "cn_hash c' = cn_hash c" "cn_number c' = cn_number c" "cn_phase c' = EventsPhase \<longrightarrow> fst (cn_cursor c') \<le> cn_number c"
  shows "candidates_ok hdr (map (\<lambda>x. if cn_hash x = cn_hash c' then c' else x) cs)"
proof -
  have d: "distinct (map cn_hash cs)" using ok by (simp add: candidates_ok_def)
  have others: "\<not> unpublished x \<and> cn_number x < cn_number c" if "x \<in> set cs - {c}" for x
    using ok c that unfolding candidates_ok_def by blast
  have h: "height hdr (cn_hash x) = cn_number x" if "x \<in> insert c' (set cs - {c})" for x
    using ok c c' that unfolding candidates_ok_def by auto
  show ?thesis unfolding candidates_ok_def set_candidate_hashes set_candidate_set [OF d c(1) c'(1)]
    using d h others c'(2,3) by auto
qed

text \<open>The latest published candidate has the greatest number.\<close>

lemma latest_base_Some:
  assumes "latest_base st = Some b"
  shows "b \<in> set (ss_candidates st) \<and> \<not> unpublished b \<and> (\<forall>x\<in>set (ss_candidates st). \<not> unpublished x \<longrightarrow> cn_number x \<le> cn_number b)"
proof -
  define p where "p = sort_key cn_number (published_candidates st)"
  obtain r where r: "rev p = b # r" using assms by (auto simp: latest_base_def p_def split: list.splits)
  then have p: "p = rev r @ [b]" by (metis rev.simps(2) rev_rev_ident)
  have "sorted (map cn_number p)" by (simp add: p_def)
  then have "\<forall>x\<in>set p. cn_number x \<le> cn_number b" by (auto simp: p sorted_append)
  moreover have "set p = {x \<in> set (ss_candidates st). \<not> unpublished x}" by (auto simp: p_def published_candidates_def unpublished_def)
  moreover have "b \<in> set p" by (simp add: p)
  ultimately show ?thesis by blast
qed

lemma latest_base_None: "latest_base st = None \<longleftrightarrow> (\<forall>c\<in>set (ss_candidates st). unpublished c)"
proof -
  have "latest_base st = None \<longleftrightarrow> sort_key cn_number (published_candidates st) = []"
    by (simp add: latest_base_def split: list.split)
  also have "\<dots> \<longleftrightarrow> published_candidates st = []" by (metis set_empty set_sort)
  finally show ?thesis by (simp add: published_candidates_def unpublished_def filter_empty_conv)
qed

section \<open>The events a state has consumed\<close>

definition log_events :: "vault_log list \<Rightarrow> decoded_event list" where
  "log_events = List.map_filter vl_event"

lemma log_events_append [simp]: "log_events (xs @ ys) = log_events xs @ log_events ys"
  by (simp add: log_events_def List.map_filter_def)

lemma log_events_one [simp]: "log_events [l] = (case vl_event l of None \<Rightarrow> [] | Some e \<Rightarrow> [e])"
  by (simp add: log_events_def List.map_filter_def split: option.split)

text \<open>
  The logs whose effect the ledger must contain: up to the cursor while events are read, up to the anchor
  afterwards, and up to the last published anchor between two candidates.
\<close>

definition consumed :: "vault_log list \<Rightarrow> principal_state \<Rightarrow> vault_log list" where
  "consumed logs st = (case working st of
     Some c \<Rightarrow> if cn_phase c = EventsPhase then upto_position (cn_cursor c) logs else upto_block (cn_number c) logs
   | None \<Rightarrow> (case latest_base st of None \<Rightarrow> [] | Some b \<Rightarrow> upto_block (cn_number b) logs))"

definition holds_replay :: "int \<Rightarrow> (string \<Rightarrow> string option) \<Rightarrow> vault_log list \<Rightarrow> ledger_row list \<Rightarrow> bool" where
  "holds_replay chainId vaults logs rows \<longleftrightarrow> (\<forall>l\<in>set logs. vl_event l \<noteq> None)
     \<and> (\<exists>m. replayPrincipal (log_events logs) chainId vaults None = Inr m \<and> represents rows m)"

lemma holds_replay_empty: "holds_replay chainId vaults [] []"
  by (simp add: holds_replay_def full_replay log_events_def represents_def map_filter_simps)

lemma consume_holds:
  assumes "foldR (consume_log i pdb) rows s = Inr s'" and "holds_replay (dp_chainId (pn_deployment i)) (pn_vaults i) pre (ps_ledger s)"
  shows "holds_replay (dp_chainId (pn_deployment i)) (pn_vaults i) (pre @ rows) (ps_ledger s')"
  using assms
proof (induction rows arbitrary: pre s)
  case (Cons l rows)
  let ?id = "dp_chainId (pn_deployment i)" and ?v = "pn_vaults i"
  obtain s1 where s1: "consume_log i pdb l s = Inr s1" "foldR (consume_log i pdb) rows s1 = Inr s'"
    using Cons.prems(1) by (auto simp: bindR_eq_Inr)
  obtain e where e: "vl_event l = Some e" using s1(1) by (auto simp: consume_log_def split: option.splits)
  obtain A L where m: "foldR (replay_event ?id ?v) (log_events pre) ([], []) = Inr (A, L)" "represents (ps_ledger s) (A, L)"
    using Cons.prems(2) by (auto simp: holds_replay_def full_replay)
  have "\<exists>m. replay_event ?id ?v e (A, L) = Inr m \<and> represents (ps_ledger s1) m"
  proof (cases "is_principal e")
    case True
    then have run: "applyEvent ?id ?v e s = Inr s1" using s1(1) e by (simp add: consume_log_def)
    show ?thesis using applyEvent_step [OF replay_ok [OF m(1)] m(2) True, of ?id ?v] run by (auto split: sum.splits)
  next
    case False
    then have "s1 = add_work (affected_position i pdb e) s" using s1(1) e by (simp add: consume_log_def)
    then have "ps_ledger s1 = ps_ledger s" by (simp add: add_work_def)
    moreover have "replay_event ?id ?v e (A, L) = Inr (A, L)" using False by (simp add: replay_event_def)
    ultimately show ?thesis using m(2) by simp
  qed
  then have "holds_replay ?id ?v (pre @ [l]) (ps_ledger s1)"
    using m(1) Cons.prems(2) e by (auto simp: holds_replay_def full_replay foldR_append)
  from Cons.IH [OF s1(2) this] show ?case by simp
qed simp

section \<open>Every event exactly once\<close>

text \<open>
  The life of the principal tables of one generation: a run starts a candidate, makes one pass of its loop, or the
  other projections are published. The store of the chain is any that ingestion reaches; the finalized logs
  up to the anchor of a run are the same in every run.
\<close>

inductive principal_step :: "headers \<Rightarrow> deployment \<Rightarrow> (string \<Rightarrow> string option) \<Rightarrow> host \<Rightarrow> (string \<Rightarrow> string \<Rightarrow> int) \<Rightarrow> vault_log list
    \<Rightarrow> principal_state \<Rightarrow> principal_state \<Rightarrow> bool"
  for hdr dp vaults H collate logs where
  step_open: "chain_reach hdr dp ''frontend-events'' db \<Longrightarrow> pn_deployment i = dp \<Longrightarrow> start_candidate H (i :: principal_run) db st = Inr st'
    \<Longrightarrow> principal_step hdr dp vaults H collate logs st st'"
| step_pass: "chain_reach hdr dp ''frontend-events'' db \<Longrightarrow> pn_deployment i = dp \<Longrightarrow> pn_vaults i = vaults \<Longrightarrow> 1 \<le> pn_pageSize i
    \<Longrightarrow> upto_block (pn_block i) seen = upto_block (pn_block i) logs
    \<Longrightarrow> principal_pass H collate (i :: principal_run) db seen st = Inr (st', r) \<Longrightarrow> principal_step hdr dp vaults H collate logs st st'"
| step_others: "principal_step hdr dp vaults H collate logs st (st\<lparr>ss_projection := pdb\<rparr>)"

inductive principal_reach :: "headers \<Rightarrow> deployment \<Rightarrow> (string \<Rightarrow> string option) \<Rightarrow> host \<Rightarrow> (string \<Rightarrow> string \<Rightarrow> int) \<Rightarrow> vault_log list
    \<Rightarrow> principal_state \<Rightarrow> bool"
  for hdr dp vaults H collate logs where
  reach_new: "principal_reach hdr dp vaults H collate logs
    \<lparr>ss_store = \<lparr>ps_ledger = [], ps_work = []\<rparr>, ss_versions = [], ss_candidates = [], ss_cleanup = cleanup, ss_projection = pdb\<rparr>"
| reach_next: "principal_reach hdr dp vaults H collate logs st \<Longrightarrow> principal_step hdr dp vaults H collate logs st st'
    \<Longrightarrow> principal_reach hdr dp vaults H collate logs st'"

definition ledger_exact :: "headers \<Rightarrow> deployment \<Rightarrow> (string \<Rightarrow> string option) \<Rightarrow> vault_log list \<Rightarrow> principal_state \<Rightarrow> bool" where
  "ledger_exact hdr dp vaults logs st \<longleftrightarrow> candidates_ok hdr (ss_candidates st)
     \<and> holds_replay (dp_chainId dp) vaults (consumed logs st) (ps_ledger (ss_store st))"

lemma anchor_height:
  assumes reach: "chain_reach hdr dp ''frontend-events'' db" and "locked_anchor i db = Inr ()" and "pn_deployment i = dp"
  shows "height hdr (pn_hash i) = pn_block i \<and> dp_activationBlock dp \<le> pn_block i"
proof -
  define a where "a = dp_activationBlock dp"
  obtain r c where r: "r \<in> set (cd_blocks db)" "br_number r = pn_block i" "br_hash r = pn_hash i" "br_canonical r"
    and c: "map_of (cd_checkpoints db) ''frontend-events'' = Some c"
    using assms(2) by (auto simp: locked_anchor_def assertPublishableAnchor_def res_simps dest!: find_member)
  have ok: "rows_ok hdr db" and ck: "checkpoint_ok hdr a db c"
    using reach_ledger [OF reach] c by (simp_all add: ledger_ok_def a_def)
  have "height hdr (pn_hash i) = pn_block i" using rows_ok_row [OF ok r(1)] r by (simp add: chain_defs)
  moreover have "pn_hash i \<in> canon db" using r by (auto simp: canon_row)
  ultimately show ?thesis using ck by (auto simp: checkpoint_ok_def a_def)
qed

lemma found_candidate: "find_candidate i st = Some c \<Longrightarrow> c \<in> set (ss_candidates st) \<and> cn_hash c = pn_hash i"
  unfolding find_candidate_def by (auto dest: find_member)

lemma locked_ok: "locked i db c st = Inr () \<Longrightarrow> locked_anchor i db = Inr ()"
  by (auto simp: locked_def bindR_eq_Inr)

lemma set_candidate_ledger [simp]: "ss_store (set_candidate c st) = ss_store st"
  by (simp add: set_candidate_def)

lemma replace_working:
  assumes ok: "candidates_ok hdr (ss_candidates st)" and c: "c \<in> set (ss_candidates st)" "unpublished c"
    and c': "cn_hash c' = cn_hash c" "cn_number c' = cn_number c" "cn_phase c' = EventsPhase \<longrightarrow> fst (cn_cursor c') \<le> cn_number c"
    and st': "ss_candidates st' = ss_candidates st"
  shows "candidates_ok hdr (ss_candidates (set_candidate c' st'))"
    and "unpublished c' \<Longrightarrow> working (set_candidate c' st') = Some c'"
    and "\<not> unpublished c' \<Longrightarrow> working (set_candidate c' st') = None
      \<and> (\<exists>b. latest_base (set_candidate c' st') = Some b \<and> cn_number b = cn_number c)"
proof -
  show ok': "candidates_ok hdr (ss_candidates (set_candidate c' st'))"
    using candidates_step [OF ok c c'] by (simp add: set_candidate_def st')
  have d: "distinct (map cn_hash (ss_candidates st))" using ok by (simp add: candidates_ok_def)
  have all: "set (ss_candidates (set_candidate c' st')) = insert c' (set (ss_candidates st) - {c})"
    using set_candidate_set [OF d c(1) c'(1)] by (simp add: set_candidate_def st')
  show "working (set_candidate c' st') = Some c'" if "unpublished c'"
    by (rule working_is [OF ok' _ that]) (simp add: all)
  have others: "\<not> unpublished x \<and> cn_number x < cn_number c" if "x \<in> set (ss_candidates st) - {c}" for x
    using ok c that unfolding candidates_ok_def by blast
  assume pub: "\<not> unpublished c'"
  have none: "working (set_candidate c' st') = None" unfolding working_none all using pub others by blast
  obtain b where b: "latest_base (set_candidate c' st') = Some b"
    using latest_base_None [of "set_candidate c' st'"] pub all by (cases "latest_base (set_candidate c' st')") auto
  have "b \<in> insert c' (set (ss_candidates st) - {c})" "cn_number c' \<le> cn_number b"
    using latest_base_Some [OF b] pub all by auto
  then have "cn_number b = cn_number c" using others [of b] c'(2) by fastforce
  with none b show "working (set_candidate c' st') = None
      \<and> (\<exists>b. latest_base (set_candidate c' st') = Some b \<and> cn_number b = cn_number c)" by blast
qed

lemma start_parts:
  assumes reach: "chain_reach hdr dp ''frontend-events'' db" and dp: "pn_deployment i = dp" and ord: "logs_ordered (dp_activationBlock dp) logs"
    and run: "start_candidate H i db st = Inr st'" and cs: "candidates_ok hdr (ss_candidates st)"
  obtains (same) "st' = st"
  | (new) c where "st' = st\<lparr>ss_candidates := ss_candidates st @ [c]\<rparr>" "candidates_ok hdr (ss_candidates st')" "working st = None" "working st' = Some c"
      "cn_phase c = EventsPhase" "consumed logs st' = consumed logs st" "\<forall>l\<in>set (consumed logs st'). fst (vl_at l) < cn_from c"
proof (cases "find_candidate i st")
  case (Some c)
  then show thesis using run same by (auto simp: start_candidate_def bindR_eq_Inr)
next
  case None
  define c where "c = new_candidate H i (latest_base st)"
  have anchor: "locked_anchor i db = Inr ()" using run by (auto simp: start_candidate_def bindR_eq_Inr)
  note at = anchor_height [OF reach anchor dp]
  have st': "st' = st\<lparr>ss_candidates := ss_candidates st @ [c]\<rparr>" and none: "\<forall>x\<in>set (ss_candidates st). \<not> unpublished x"
    and above: "\<forall>b. latest_base st = Some b \<longrightarrow> cn_number b < pn_block i"
    using run None anchor
    by (auto simp: start_candidate_def bindR_eq_Inr Let_def c_def list_ex_iff unpublished_def not_le if_Inl_eq_Inr split: if_splits option.splits)
  have c: "cn_number c = pn_block i" "cn_hash c = pn_hash i" "cn_phase c = EventsPhase" "cn_cursor c = (cn_from c, - 1, - 1)"
    "cn_from c = (case latest_base st of None \<Rightarrow> dp_activationBlock dp | Some b \<Rightarrow> cn_number b + 1)"
    by (simp_all add: c_def new_candidate_def Let_def dp split: option.split)
  have low: "cn_from c \<le> pn_block i" using c(5) above at by (auto split: option.split)
  have less: "cn_number x < pn_block i" if "x \<in> set (ss_candidates st)" for x
  proof (cases "latest_base st")
    case None
    then show ?thesis using latest_base_None [of st] none that by blast
  next
    case (Some b)
    then show ?thesis using latest_base_Some [OF Some] none that above by fastforce
  qed
  have fresh: "\<forall>x\<in>set (ss_candidates st). cn_hash x \<noteq> pn_hash i" using None by (auto simp: find_candidate_def find_None_iff)
  have ok': "candidates_ok hdr (ss_candidates st')"
    using cs fresh less none at low c unfolding candidates_ok_def st' by (auto simp: unpublished_def)
  have w: "working st' = Some c" by (rule working_is [OF ok']) (simp_all add: st' unpublished_def c)
  then have after: "consumed logs st' = upto_position (cn_from c, - 1, - 1) logs" by (simp add: consumed_def c(3,4))
  have w0: "working st = None" unfolding working_none using none by blast
  then have "consumed logs st' = consumed logs st"
    unfolding after c(5) using upto_start [OF ord] upto_activation [OF ord] by (simp add: consumed_def split: option.split)
  moreover have "\<forall>l\<in>set (consumed logs st'). fst (vl_at l) < cn_from c"
    using ord by (auto simp: after upto_position_def position_less_def logs_ordered_def case_prod_unfold)
  ultimately show thesis by (intro new [of c] st' ok' w0 w c(3))
qed

lemma start_exact:
  assumes reach: "chain_reach hdr dp ''frontend-events'' db" and dp: "pn_deployment i = dp" and ord: "logs_ordered (dp_activationBlock dp) logs"
    and run: "start_candidate H i db st = Inr st'" and ok: "ledger_exact hdr dp vaults logs st"
  shows "ledger_exact hdr dp vaults logs st'"
proof -
  have cs: "candidates_ok hdr (ss_candidates st)" using ok by (simp add: ledger_exact_def)
  from start_parts [OF reach dp ord run cs] show ?thesis using ok by cases (simp_all add: ledger_exact_def)
qed

lemma page_seen:
  assumes "upto_block (pn_block i) seen = upto_block (pn_block i) logs"
  shows "event_page i c seen = event_page i c logs"
proof -
  define P :: "vault_log \<Rightarrow> bool" where "P l \<longleftrightarrow> vl_module l \<in> principal_modules \<and> fst (vl_at l) \<le> pn_block i
     \<and> fst (cn_cursor c) \<le> fst (vl_at l) \<and> position_less (cn_cursor c) (vl_at l)" for l
  have "filter P ls = filter P (upto_block (pn_block i) ls)" for ls
    unfolding upto_block_def filter_filter by (rule filter_cong [OF refl]) (auto simp: P_def)
  then have "filter P seen = filter P logs" using assms by metis
  then show ?thesis by (simp add: event_page_def P_def [abs_def])
qed

lemma write_verified_keeps [simp]:
  "ss_candidates (write_verified H i v st) = ss_candidates st" "ps_ledger (ss_store (write_verified H i v st)) = ps_ledger (ss_store st)"
  "ss_projection (write_verified H i v st) = ss_projection st"
  by (simp_all add: write_verified_def case_prod_unfold)

lemma fold_verified_keeps [simp]:
  "ss_candidates (fold (write_verified H i) vs st) = ss_candidates st"
  "ps_ledger (ss_store (fold (write_verified H i) vs st)) = ps_ledger (ss_store st)"
  "ss_projection (fold (write_verified H i) vs st) = ss_projection st"
  by (induction vs arbitrary: st) simp_all

text \<open>The candidate moves on, and neither the ledger nor the logs that count change.\<close>

lemma move_parts:
  assumes cs: "candidates_ok hdr (ss_candidates st)" and c: "c \<in> set (ss_candidates st)" "unpublished c" "cn_phase c \<noteq> EventsPhase"
    and c': "cn_hash c' = cn_hash c" "cn_number c' = cn_number c" "cn_phase c' \<noteq> EventsPhase" and st': "ss_candidates st' = ss_candidates st"
  shows "working st = Some c" and "working (set_candidate c' st') = (if unpublished c' then Some c' else None)"
    and "consumed logs st = upto_block (cn_number c) logs" and "consumed logs (set_candidate c' st') = upto_block (cn_number c) logs"
    and "candidates_ok hdr (ss_candidates (set_candidate c' st'))"
proof -
  have later: "cn_phase c' = EventsPhase \<longrightarrow> fst (cn_cursor c') \<le> cn_number c" using c'(3) by simp
  note step = replace_working [OF cs c(1,2) c'(1,2) later st']
  show w: "working st = Some c" by (rule working_is [OF cs c(1,2)])
  then show "consumed logs st = upto_block (cn_number c) logs" using c(3) by (simp add: consumed_def)
  show w': "working (set_candidate c' st') = (if unpublished c' then Some c' else None)" using step(2,3) by simp
  show "consumed logs (set_candidate c' st') = upto_block (cn_number c) logs"
    using w' step(3) c' by (cases "unpublished c'") (auto simp: consumed_def)
  show "candidates_ok hdr (ss_candidates (set_candidate c' st'))" by (rule step(1))
qed

lemma move_exact:
  assumes ok: "ledger_exact hdr dp vaults logs st" and c: "c \<in> set (ss_candidates st)" "unpublished c" "cn_phase c \<noteq> EventsPhase"
    and c': "cn_hash c' = cn_hash c" "cn_number c' = cn_number c" "cn_phase c' \<noteq> EventsPhase"
    and st': "ss_candidates st' = ss_candidates st" "ps_ledger (ss_store st') = ps_ledger (ss_store st)"
  shows "ledger_exact hdr dp vaults logs (set_candidate c' st')"
proof -
  have cs: "candidates_ok hdr (ss_candidates st)" using ok by (simp add: ledger_exact_def)
  note move = move_parts [OF cs c c' st'(1)]
  show ?thesis using ok move(3,4,5) by (simp add: ledger_exact_def st'(2))
qed

text \<open>A page of events: the ledger takes the rows of the page, and the candidate moves behind them.\<close>

definition after_events :: "principal_run \<Rightarrow> chain_db \<Rightarrow> candidate \<Rightarrow> vault_log list \<Rightarrow> candidate" where
  "after_events i db c rows = (if rows = [] then c\<lparr>cn_phase := AccountsPhase, cn_progress := cn_progress c + 1\<rparr>
     else c\<lparr>cn_cursor := vl_at (last rows), cn_progress := cn_progress c + int (length rows)\<rparr>)"

lemma after_events_simps [simp]: "cn_hash (after_events i db c rows) = cn_hash c" "cn_number (after_events i db c rows) = cn_number c"
  "cn_from (after_events i db c rows) = cn_from c" "cn_audit (after_events i db c rows) = cn_audit c"
  "cn_phase (after_events i db c rows) = (if rows = [] then AccountsPhase else cn_phase c)"
  by (simp_all add: after_events_def)

lemma events_parts:
  assumes size: "1 \<le> pn_pageSize i" and ord: "logs_ordered a logs" and seen: "upto_block (pn_block i) seen = upto_block (pn_block i) logs"
    and run: "events_step i db seen c st = Inr st'" and cs: "candidates_ok hdr (ss_candidates st)"
    and c: "c \<in> set (ss_candidates st)" "cn_phase c = EventsPhase" "cn_number c = pn_block i"
  obtains store where "foldR (consume_log i (ss_projection st)) (event_page i c logs) (ss_store st) = Inr store"
    "ss_store st' = (if event_page i c logs = [] then add_work (due_row i db c (ss_versions st)) store else store)"
    "ss_versions st' = ss_versions st" "candidates_ok hdr (ss_candidates st')"
    "working st = Some c" "working st' = Some (after_events i db c (event_page i c logs))"
    "consumed logs st' = consumed logs st @ event_page i c logs"
proof -
  let ?rows = "event_page i c logs" and ?c = "after_events i db c (event_page i c logs)"
  have u: "unpublished c" "unpublished ?c" using c(2) by (auto simp: unpublished_def)
  have cursor: "fst (cn_cursor c) \<le> cn_number c" using cs c(1,2) u by (auto simp: candidates_ok_def)
  obtain store where store: "foldR (consume_log i (ss_projection st)) ?rows (ss_store st) = Inr store"
    and st': "st' = set_candidate ?c (st\<lparr>ss_store := if ?rows = [] then add_work (due_row i db c (ss_versions st)) store else store\<rparr>)"
    using run unfolding events_step_def Let_def page_seen [OF seen] after_events_def by (auto simp: bindR_eq_Inr)
  have later: "cn_phase ?c = EventsPhase \<longrightarrow> fst (cn_cursor ?c) \<le> cn_number c"
    using page_consumed [OF ord, of i c] cursor c(3) by (simp add: after_events_def)
  have w: "working st = Some c" by (rule working_is [OF cs c(1) u(1)])
  have step: "candidates_ok hdr (ss_candidates st')" "working st' = Some ?c"
    using replace_working [OF cs c(1) u(1), of ?c, OF _ _ later] u(2) by (simp_all add: st')
  have "consumed logs st' = consumed logs st @ ?rows"
  proof (cases "?rows = []")
    case True
    then show ?thesis using page_empty [OF ord True size] cursor step(2) w c by (simp add: consumed_def)
  next
    case False
    then show ?thesis using page_consumed [OF ord False] cursor step(2) w c by (simp add: consumed_def) (simp add: after_events_def)
  qed
  then show thesis using that [OF store] step w by (simp add: st' set_candidate_def)
qed

lemma events_exact:
  assumes dp: "pn_deployment (i :: principal_run) = dp" "pn_vaults i = vaults" "1 \<le> pn_pageSize i"
    and ord: "logs_ordered (dp_activationBlock dp) logs" and seen: "upto_block (pn_block i) seen = upto_block (pn_block i) logs"
    and run: "events_step i db seen c st = Inr st'" and ok: "ledger_exact hdr dp vaults logs st"
    and c: "c \<in> set (ss_candidates st)" "cn_phase c = EventsPhase" "cn_number c = pn_block i"
  shows "ledger_exact hdr dp vaults logs st'"
proof -
  have cs: "candidates_ok hdr (ss_candidates st)" and holds: "holds_replay (dp_chainId dp) vaults (consumed logs st) (ps_ledger (ss_store st))"
    using ok by (simp_all add: ledger_exact_def)
  from dp(3) ord seen run cs c show ?thesis
  proof (rule events_parts)
    fix store
    assume store: "foldR (consume_log i (ss_projection st)) (event_page i c logs) (ss_store st) = Inr store"
      and st': "ss_store st' = (if event_page i c logs = [] then add_work (due_row i db c (ss_versions st)) store else store)"
        "candidates_ok hdr (ss_candidates st')" "consumed logs st' = consumed logs st @ event_page i c logs"
    have "ps_ledger (ss_store st') = ps_ledger store" by (simp add: st'(1) add_work_def)
    then show ?thesis using consume_holds [OF store] holds st'(2,3) by (simp add: ledger_exact_def dp)
  qed
qed

lemma finish_parts:
  assumes "finish H i db c st = Inr st'"
  obtains pdb where "locked i db c st = Inr ()" "\<forall>w\<in>set (ps_work (ss_store st)). wk_done w"
    "map_of (pd_pointers (ss_projection st)) ''markets'' = Some (run_revision i)"
    "foldR (publish_scope H i c st) [Accounts, Positions] (ss_projection st) = Inr pdb"
    "st' = set_candidate (c\<lparr>cn_phase := PublishedPhase\<rparr>) (st\<lparr>ss_projection := pdb, ss_store := (ss_store st)\<lparr>ps_work := []\<rparr>\<rparr>)"
  using assms unfolding finish_def
  by (auto simp: bindR_eq_Inr if_Inl_eq_Inr list_ex_iff split: if_splits simp del: foldR.simps)

lemma verify_parts:
  assumes "verify_step H i db work c st = Inr st'"
  obtains vs where "mapR (\<lambda>r. bindR (verify_entry i st r) (\<lambda>v. Inr (r, v))) work = Inr vs" "locked i db c st = Inr ()"
    "st' = set_candidate (c\<lparr>cn_progress := cn_progress c + int (length work), cn_evidence := page_evidence H c vs\<rparr>) (fold (write_verified H i) vs st)"
proof -
  from assms obtain vs u where "mapR (\<lambda>r. bindR (verify_entry i st r) (\<lambda>v. Inr (r, v))) work = Inr vs" "locked i db c st = Inr u"
    "set_candidate (c\<lparr>cn_progress := cn_progress c + int (length work), cn_evidence := page_evidence H c vs\<rparr>) (fold (write_verified H i) vs st) = st'"
    unfolding verify_step_def bindR_eq_Inr sum.inject by blast
  then show thesis using that [of vs] by simp
qed

lemma verify_exact:
  assumes run: "verify_step H i db work c st = Inr st'" and ok: "ledger_exact hdr dp vaults logs st"
    and c: "c \<in> set (ss_candidates st)" "unpublished c" "cn_phase c \<noteq> EventsPhase"
  shows "ledger_exact hdr dp vaults logs st'"
proof -
  obtain vs where "st' = set_candidate (c\<lparr>cn_progress := cn_progress c + int (length work), cn_evidence := page_evidence H c vs\<rparr>) (fold (write_verified H i) vs st)"
    using run by (rule verify_parts) blast
  then show ?thesis
    using move_exact [OF ok c, of "c\<lparr>cn_progress := cn_progress c + int (length work), cn_evidence := page_evidence H c vs\<rparr>"
        "fold (write_verified H i) vs st"] c by simp
qed

text \<open>The cases of a pass, by the phase of its candidate.\<close>

lemma pass_cases:
  assumes "principal_pass H collate i db seen st = Inr (st', r)"
  obtains (events) c where "find_candidate i st = Some c" "cn_phase c = EventsPhase" "events_step i db seen c st = Inr st'" "r = None"
  | (advance) c where "find_candidate i st = Some c" "cn_phase c = AccountsPhase" "locked i db c st = Inr ()"
      "st' = set_candidate (c\<lparr>cn_phase := PositionsPhase, cn_progress := cn_progress c + 1\<rparr>) st" "r = None"
  | (verify) c work where "find_candidate i st = Some c" "cn_phase c = AccountsPhase \<or> cn_phase c = PositionsPhase"
      "work = work_page collate i c (ss_store st)" "verify_step H i db work c st = Inr st'" "r = None"
  | (publish) c where "find_candidate i st = Some c" "cn_phase c = PositionsPhase" "work_page collate i c (ss_store st) = []"
      "finish H i db c st = Inr st'" "r = Some (run_counts i st')"
  | (already) c where "find_candidate i st = Some c" "cn_phase c = PublishedPhase" "st' = st" "r = Some (run_counts i st)"
proof -
  obtain c where c: "find_candidate i st = Some c" using assms by (auto simp: principal_pass_def split: option.splits)
  consider "cn_phase c = EventsPhase" | "cn_phase c = AccountsPhase" | "cn_phase c = PositionsPhase" | "cn_phase c = PublishedPhase"
    by (cases "cn_phase c") auto
  then show thesis
  proof cases
    case 1
    then show thesis using assms c by (intro events [OF c]) (auto simp: principal_pass_def bindR_eq_Inr)
  next
    case 2
    show thesis
    proof (cases "work_page collate i c (ss_store st)")
      case Nil
      then show thesis using assms c 2 by (intro advance [OF c]) (auto simp: principal_pass_def bindR_eq_Inr)
    next
      case (Cons w ws)
      then show thesis using assms c 2 by (intro verify [OF c, of "w # ws"]) (auto simp: principal_pass_def bindR_eq_Inr)
    qed
  next
    case 3
    show thesis
    proof (cases "work_page collate i c (ss_store st)")
      case Nil
      then show thesis using assms c 3 by (intro publish [OF c]) (auto simp: principal_pass_def bindR_eq_Inr)
    next
      case (Cons w ws)
      then show thesis using assms c 3 by (intro verify [OF c, of "w # ws"]) (auto simp: principal_pass_def bindR_eq_Inr)
    qed
  next
    case 4
    then show thesis using assms c by (intro already [OF c]) (auto simp: principal_pass_def)
  qed
qed

lemma pass_exact:
  assumes reach: "chain_reach hdr dp ''frontend-events'' db" and dp: "pn_deployment (i :: principal_run) = dp" "pn_vaults i = vaults" "1 \<le> pn_pageSize i"
    and ord: "logs_ordered (dp_activationBlock dp) logs" and seen: "upto_block (pn_block i) seen = upto_block (pn_block i) logs"
    and run: "principal_pass H collate i db seen st = Inr (st', r)" and ok: "ledger_exact hdr dp vaults logs st"
  shows "ledger_exact hdr dp vaults logs st'"
  using run
proof (cases rule: pass_cases)
  case (events c)
  have cs: "candidates_ok hdr (ss_candidates st)" using ok by (simp add: ledger_exact_def)
  have "locked i db c st = Inr ()" using events(3) by (auto simp: events_step_def Let_def bindR_eq_Inr)
  then have "cn_number c = pn_block i"
    using anchor_height [OF reach locked_ok dp(1)] cs found_candidate [OF events(1)] by (auto simp: candidates_ok_def)
  then show ?thesis using events_exact [OF dp ord seen events(3) ok _ events(2)] found_candidate [OF events(1)] by blast
next
  case (advance c)
  then show ?thesis
    using move_exact [OF ok, of c "c\<lparr>cn_phase := PositionsPhase, cn_progress := cn_progress c + 1\<rparr>" st] found_candidate [OF advance(1)]
    by (simp add: unpublished_def)
next
  case (verify c work)
  then show ?thesis using verify_exact [OF verify(4) ok] found_candidate [OF verify(1)] by (auto simp: unpublished_def)
next
  case (publish c)
  obtain pdb where "st' = set_candidate (c\<lparr>cn_phase := PublishedPhase\<rparr>) (st\<lparr>ss_projection := pdb, ss_store := (ss_store st)\<lparr>ps_work := []\<rparr>\<rparr>)"
    using publish(4) by (rule finish_parts) blast
  then show ?thesis
    using move_exact [OF ok, of c "c\<lparr>cn_phase := PublishedPhase\<rparr>" "st\<lparr>ss_projection := pdb, ss_store := (ss_store st)\<lparr>ps_work := []\<rparr>\<rparr>"]
      found_candidate [OF publish(1)] publish(2) by (simp add: unpublished_def)
next
  case (already c)
  then show ?thesis using ok by simp
qed

lemma reach_exact:
  "principal_reach hdr dp vaults H collate logs st \<Longrightarrow> logs_ordered (dp_activationBlock dp) logs \<Longrightarrow> ledger_exact hdr dp vaults logs st"
proof (induction rule: principal_reach.induct)
  case (reach_new cleanup pdb)
  show ?case by (simp add: ledger_exact_def candidates_ok_def consumed_def working_def latest_base_def published_candidates_def holds_replay_empty)
next
  case (reach_next st st')
  from reach_next.hyps(2) reach_next.IH [OF reach_next.prems] show ?case
  proof (induction rule: principal_step.induct)
    case (step_open db i st st')
    then show ?case using start_exact reach_next.prems by blast
  next
    case (step_pass db i seen st st' r)
    then show ?case using pass_exact [OF step_pass.hyps(1-4) reach_next.prems step_pass.hyps(5,6)] by blast
  next
    case (step_others st pdb)
    have "latest_base (st\<lparr>ss_projection := pdb\<rparr>) = latest_base st" by (simp add: latest_base_def published_candidates_def)
    then have "consumed logs (st\<lparr>ss_projection := pdb\<rparr>) = consumed logs st"
      unfolding consumed_def working_def by (simp only:) simp
    then show ?case using step_others by (simp add: ledger_exact_def)
  qed
qed

end
