(* ===== verification/Principal_Checked.thy ===== *)
theory Principal_Checked imports Principal_Exact begin

text \<open>
  What a publication of accounts and positions was verified for: the entries that changed since the base, or all of
  them in an audit; with one deposit followed from its log to the publication.
\<close>

section \<open>What an event touches\<close>


text \<open>An event of the vault changes what is shown of every entry of its user and asset.\<close>

definition touches :: "decoded_event \<Rightarrow> ledger_row \<Rightarrow> bool" where
  "touches e r \<longleftrightarrow> is_principal e \<and> ld_user r = lower (event_text e ''user'') \<and> ld_asset r = event_text e ''assetUid''"

definition changed_by :: "vault_log list \<Rightarrow> ledger_row \<Rightarrow> bool" where
  "changed_by logs r \<longleftrightarrow> (\<exists>l\<in>set logs. \<exists>e. vl_event l = Some e \<and> touches e r)"







section \<open>What was verified\<close>

text \<open>
  The passes made so far, the latest first: each with the run that made it and the tables it found.
\<close>

type_synonym pass_history = "(principal_run \<times> principal_state) list"












lemma changed_append: "changed_by (xs @ ys) r \<longleftrightarrow> changed_by xs r \<or> changed_by ys r"
  by (auto simp: changed_by_def)




lemma add_work_ledger [simp]: "ps_ledger (add_work P s) = ps_ledger s"
  by (simp add: add_work_def)









section \<open>Everything that changed is verified\<close>










section \<open>The principal tables in every reachable state\<close>

text \<open>
  The life of the principal tables again, with the passes that were made: every state reached has a history, and every
  history ends in a state that is reached.
\<close>

inductive principal_history :: "headers \<Rightarrow> deployment \<Rightarrow> (string \<Rightarrow> string option) \<Rightarrow> host \<Rightarrow> (string \<Rightarrow> string \<Rightarrow> int) \<Rightarrow> vault_log list
    \<Rightarrow> pass_history \<Rightarrow> principal_state \<Rightarrow> bool"
  for hdr dp vaults H collate logs where
  history_new: "principal_history hdr dp vaults H collate logs []
    \<lparr>ss_store = \<lparr>ps_ledger = [], ps_work = []\<rparr>, ss_versions = [], ss_candidates = [], ss_cleanup = cleanup, ss_projection = pdb\<rparr>"
| history_open: "principal_history hdr dp vaults H collate logs hist st \<Longrightarrow> chain_reach hdr dp ''frontend-events'' db \<Longrightarrow> pn_deployment i = dp
    \<Longrightarrow> start_candidate H (i :: principal_run) db st = Inr st' \<Longrightarrow> principal_history hdr dp vaults H collate logs hist st'"
| history_pass: "principal_history hdr dp vaults H collate logs hist st \<Longrightarrow> chain_reach hdr dp ''frontend-events'' db \<Longrightarrow> pn_deployment i = dp
    \<Longrightarrow> pn_vaults i = vaults \<Longrightarrow> 1 \<le> pn_pageSize i \<Longrightarrow> upto_block (pn_block i) seen = upto_block (pn_block i) logs
    \<Longrightarrow> principal_pass H collate (i :: principal_run) db seen st = Inr (st', r) \<Longrightarrow> principal_history hdr dp vaults H collate logs ((i, st) # hist) st'"
| history_others: "principal_history hdr dp vaults H collate logs hist st
    \<Longrightarrow> principal_history hdr dp vaults H collate logs hist (st\<lparr>ss_projection := pdb\<rparr>)"


lemma reach_history: "principal_reach hdr dp vaults H collate logs st \<Longrightarrow> \<exists>hist. principal_history hdr dp vaults H collate logs hist st"
proof (induction rule: principal_reach.induct)
  case (reach_new cleanup pdb)
  show ?case using history_new by blast
next
  case (reach_next st st')
  then obtain hist where "principal_history hdr dp vaults H collate logs hist st" by blast
  with reach_next.hyps(2) show ?case
    by (induction rule: principal_step.induct) (blast intro: history_open history_pass history_others)+
qed


text \<open>C8: Every event of the vault is applied exactly once. However runs at successive anchors start, read pages, verify,
  publish, stop and are taken up again, and whatever other projections publish in between, the stored ledger is in
  every state the replay of precisely the events the candidate has passed: those up to its cursor while it reads
  events, all up to its anchor afterwards, all up to the last published anchor when none is at work. No event is
  skipped at a page or between two anchors, none counts twice, and each could be decoded. (The finalized logs up
  to an anchor are taken to be the same in every run.)\<close>

theorem ledger_exactly_once:
  assumes "logs_ordered (dp_activationBlock dp) logs" and "principal_reach hdr dp vaults H collate logs st"
  shows "(\<forall>l\<in>set (consumed logs st). vl_event l \<noteq> None)
    \<and> (\<exists>A L. replayPrincipal (log_events (consumed logs st)) (dp_chainId dp) vaults None = Inr (A, L)
       \<and> distinct (map (\<lambda>r. (ld_kind r, ld_identity r)) (ps_ledger (ss_store st)))
       \<and> set (ps_ledger (ss_store st)) = account_row ` snd ` set A \<union> position_row ` snd ` set L)"
  using reach_exact [OF assms(2,1)] by (auto simp: ledger_exact_def holds_replay_def represents_def split: prod.splits)




section \<open>A deposit, from the log to the publication\<close>

definition sample_logs :: "vault_log list" where
  "sample_logs = [\<lparr>vl_at = (1, 0, 0), vl_module = ''UserStockVault'', vl_event = Some sample_deposit\<rparr>]"

text \<open>Two providers that know the balance, as decimal text, of a contract whose calls are named by their function.\<close>

definition sample_call :: "string \<Rightarrow> string \<Rightarrow> int \<Rightarrow> string res" where
  "sample_call = (\<lambda>target data block. Inr (if data = ''allocated'' then ''0'' else ''5''))"

definition sample_run :: principal_run where
  "sample_run = \<lparr>pn_abi = \<lparr>ab_encode = (\<lambda>f args. f), ab_decode = (\<lambda>f bytes. Inr (GScalar (JStr bytes)))\<rparr>,
     pn_primary = sample_call, pn_secondary = sample_call, pn_block = 1, pn_manager = hex_lit 40 CHR ''3'',
     pn_deployment = sample_deployment, pn_hash = hex_lit 64 CHR ''b'', pn_generation = 0, pn_vaults = sample_vaults,
     pn_pageSize = 8, pn_maxPages = 20, pn_auditInterval = 10000\<rparr>"

definition sample_markets :: projection_db where
  "sample_markets = \<lparr>pd_publications = [], pd_pointers = [(''markets'', run_revision sample_run)], pd_checkpoints = [], pd_invalidations = [],
     pd_records = [], pd_versions = [], pd_contents = [], pd_sets = [], pd_set_records = [], pd_links = [], pd_seq = 0\<rparr>"

definition sample_principal :: principal_state where
  "sample_principal = \<lparr>ss_store = \<lparr>ps_ledger = [], ps_work = []\<rparr>, ss_versions = [], ss_candidates = [], ss_cleanup = [], ss_projection = sample_markets\<rparr>"

text \<open>The state before a pass, and after \<open>n\<close> passes of the run.\<close>

definition pass_state :: "principal_state res \<Rightarrow> principal_state res" where
  "pass_state r = bindR r (\<lambda>st. bindR (principal_pass sample_host sign_cmp sample_run sample_store sample_logs st) (\<lambda>(st', _). Inr st'))"

definition sample_started :: "principal_state res" where
  "sample_started = start_candidate sample_host sample_run sample_store sample_principal"

definition passes :: "nat \<Rightarrow> principal_state res" where
  "passes n = (pass_state ^^ n) sample_started"

lemma sample_principal_reached:
  "passes n = Inr st \<Longrightarrow> principal_reach sample_headers sample_deployment sample_vaults sample_host sign_cmp sample_logs st"
proof (induction n arbitrary: st)
  case 0
  have "principal_reach sample_headers sample_deployment sample_vaults sample_host sign_cmp sample_logs sample_principal"
    unfolding sample_principal_def by (rule reach_new)
  moreover have "principal_step sample_headers sample_deployment sample_vaults sample_host sign_cmp sample_logs sample_principal st"
    using 0 by (intro step_open [OF sample_reached, of sample_run]) (simp_all add: passes_def sample_started_def sample_run_def)
  ultimately show ?case by (rule principal_reach.reach_next)
next
  case (Suc n)
  then obtain s r where s: "passes n = Inr s" "principal_pass sample_host sign_cmp sample_run sample_store sample_logs s = Inr (st, r)"
    by (auto simp: passes_def pass_state_def bindR_eq_Inr)
  have "principal_step sample_headers sample_deployment sample_vaults sample_host sign_cmp sample_logs s st"
    by (rule step_pass [OF sample_reached _ _ _ _ s(2)]) (simp_all add: sample_run_def)
  with Suc.IH [OF s(1)] show ?case by (rule principal_reach.reach_next)
qed


lemma sample_logs_ordered: "logs_ordered (dp_activationBlock sample_deployment) sample_logs"
  by (simp add: logs_ordered_def sample_logs_def sample_deployment_def principal_modules_def sample_deposit_def)

lemma ledger_exactly_once_witness:
  "\<exists>st A L. passes 1 = Inr st \<and> length (ps_ledger (ss_store st)) = 1
     \<and> replayPrincipal (log_events (consumed sample_logs st)) (dp_chainId sample_deployment) sample_vaults None = Inr (A, L)
     \<and> set (ps_ledger (ss_store st)) = account_row ` snd ` set A \<union> position_row ` snd ` set L"
proof -
  have "passes 1 = pass_state sample_started" by (simp add: passes_def)
  moreover have "case pass_state sample_started of Inl _ \<Rightarrow> False | Inr st \<Rightarrow> length (ps_ledger (ss_store st)) = 1" by code_simp
  ultimately obtain st where st: "passes 1 = Inr st" "length (ps_ledger (ss_store st)) = 1" by (auto split: sum.splits)
  from conjunct2 [OF ledger_exactly_once [OF sample_logs_ordered sample_principal_reached [OF st(1)]]]
  obtain A L where once: "replayPrincipal (log_events (consumed sample_logs st)) (dp_chainId sample_deployment) sample_vaults None = Inr (A, L)"
    "set (ps_ledger (ss_store st)) = account_row ` snd ` set A \<union> position_row ` snd ` set L" by (elim exE conjE) (rule that)
  show ?thesis by (rule exI [of _ st], rule exI [of _ A], rule exI [of _ L], intro conjI) (rule st once)+
qed


















end
