(* ===== verification/Tx_Journal.thy ===== *)
theory Tx_Journal imports Trade_Types TG_Json begin

text \<open>
  The journal of pending transactions in the browser's storage (apps/web/src/v1/transaction.ts and
  recoveryStorage.ts): scopes of operations, records, their validation, and that reading gives what was written.
\<close>

section \<open>Storage that may refuse to write\<close>

text \<open>\<open>V1TransactionError\<close>: its code and message.\<close>

datatype tx_error = TxError (te_code: string) (te_message: string)

type_synonym 'a tx_res = "tx_error + 'a"

text \<open>
  A stored string, by what \<open>JSON.parse\<close> makes of it, and the storage: the items of \<open>localStorage\<close> and the values kept
  in memory for the keys whose last write threw (\<open>None\<close> is a removal). \<open>ok\<close> says whether a write succeeds.
\<close>

datatype stored_text = EmptyText | BadText | JsonText json

record tx_storage =
  tg_items :: "(string \<times> stored_text) list"
  tg_fallback :: "(string \<times> stored_text option) list"

definition recoveryRead :: "tx_storage \<Rightarrow> string \<Rightarrow> stored_text option" where
  "recoveryRead s key = (case map_of (tg_fallback s) key of Some v \<Rightarrow> v | None \<Rightarrow> map_of (tg_items s) key)"

definition recoveryWrite :: "bool \<Rightarrow> string \<Rightarrow> stored_text \<Rightarrow> tx_storage \<Rightarrow> tx_storage" where
  "recoveryWrite ok key value s = (if ok then s\<lparr>tg_items := AList.update key value (tg_items s), tg_fallback := AList.delete key (tg_fallback s)\<rparr>
     else s\<lparr>tg_fallback := AList.update key (Some value) (tg_fallback s)\<rparr>)"

definition recoveryRemove :: "bool \<Rightarrow> string \<Rightarrow> tx_storage \<Rightarrow> tx_storage" where
  "recoveryRemove ok key s = (if ok then s\<lparr>tg_items := AList.delete key (tg_items s), tg_fallback := AList.delete key (tg_fallback s)\<rparr>
     else s\<lparr>tg_fallback := AList.update key None (tg_fallback s)\<rparr>)"

text \<open>With its fallback the storage is a map, whether writes succeed or not.\<close>

lemma recovery_map [simp]:
  "recoveryRead (recoveryWrite ok k v s) k' = (if k' = k then Some v else recoveryRead s k')"
  "recoveryRead (recoveryRemove ok k s) k' = (if k' = k then None else recoveryRead s k')"
  by (simp_all add: recoveryRead_def recoveryWrite_def recoveryRemove_def update_conv' delete_conv' split: option.split)

text \<open>
  Loading the page again: the values in memory are gone (the fallback is a \<open>WeakMap\<close> of the module), so that what the browser
  refused is lost.
\<close>

definition reloaded :: "tx_storage \<Rightarrow> tx_storage" where
  "reloaded s = s\<lparr>tg_fallback := []\<rparr>"

lemma reloaded_recovery:
  "reloaded (recoveryWrite ok k v s) = (if ok then recoveryWrite True k v (reloaded s) else reloaded s)"
  "reloaded (recoveryRemove ok k s) = (if ok then recoveryRemove True k (reloaded s) else reloaded s)"
  "reloaded (reloaded s) = reloaded s"
  by (simp_all add: reloaded_def recoveryWrite_def recoveryRemove_def)

section \<open>The scope of an operation\<close>

record tx_scope =
  sc_businessType :: string
  sc_marketId :: "string option"
  sc_conflictKey :: string

fun split_colons :: "string \<Rightarrow> string list" where
  "split_colons [] = [[]]"
| "split_colons (c # s) = (if c = CHR '':'' then [] # split_colons s
     else (case split_colons s of [] \<Rightarrow> [[c]] | p # ps \<Rightarrow> (c # p) # ps))"

definition part :: "string list \<Rightarrow> nat \<Rightarrow> string option" where
  "part ps n = (if n < length ps then Some (ps ! n) else None)"

definition truthy_part :: "string list \<Rightarrow> nat \<Rightarrow> string option" where
  "truthy_part ps n = (case part ps n of None \<Rightarrow> None | Some p \<Rightarrow> if p = [] then None else Some p)"

definition part_or :: "string list \<Rightarrow> nat \<Rightarrow> string \<Rightarrow> string" where
  "part_or ps n d = (case part ps n of None \<Rightarrow> d | Some p \<Rightarrow> p)"

definition interpolated :: "string option \<Rightarrow> string" where
  "interpolated v = (case v of None \<Rightarrow> ''undefined'' | Some s \<Rightarrow> s)"

definition stake_actions :: "string set" where
  "stake_actions = {''stake'', ''unstake'', ''unstakeAndWithdraw'', ''rageQuit'', ''rage-quit'', ''direct-vault-rage-quit''}"

definition other_scope :: "string \<Rightarrow> tx_scope" where
  "other_scope op = \<lparr>sc_businessType = ''other'', sc_marketId = None, sc_conflictKey = op\<rparr>"

definition reward_scope :: "string \<Rightarrow> string list \<Rightarrow> tx_scope" where
  "reward_scope op ps =
    (let action = part_or ps 1 ''other''; market = truthy_part ps 2;
         keyed = (\<lambda>business. \<lparr>sc_businessType = business, sc_marketId = market,
            sc_conflictKey = business @ '':'' @ (case market of None \<Rightarrow> op | Some m \<Rightarrow> m)\<rparr>)
     in if action = ''snapshot'' then \<lparr>sc_businessType = ''claim'', sc_marketId = market,
            sc_conflictKey = ''claim:'' @ interpolated market @ '':'' @ part_or ps 3 [] @ '':'' @ part_or ps 4 []\<rparr>
        else if action = ''user-claim'' then \<lparr>sc_businessType = ''claim'', sc_marketId = market,
            sc_conflictKey = ''claim:'' @ interpolated market @ '':'' @ part_or ps 3 [] @ '':'' @ part_or ps 4 [] @ '':'' @ part_or ps 5 []\<rparr>
        else if action \<in> stake_actions then keyed ''stake''
        else if action = ''settle'' then keyed ''settlement''
        else if action = ''creator-handoff'' then keyed ''handoff''
        else if action = ''treasury'' then \<lparr>sc_businessType = ''treasury'', sc_marketId = truthy_part ps 3, sc_conflictKey = op\<rparr>
        else other_scope op)"

definition transactionScopeForOperation :: "string \<Rightarrow> tx_scope" where
  "transactionScopeForOperation op =
    (let ps = split_colons op; kind = part_or ps 0 [];
         pool = (if kind = ''pool-trade'' then truthy_part ps 2 else truthy_part ps 1)
     in if kind = ''trade'' \<and> truthy_part ps 2 \<noteq> None
        then \<lparr>sc_businessType = ''trade'', sc_marketId = truthy_part ps 2, sc_conflictKey = ''trade:'' @ interpolated (truthy_part ps 2)\<rparr>
        else if (kind = ''pool-trade'' \<or> kind = ''pool-approval'') \<and> pool \<noteq> None
        then \<lparr>sc_businessType = (if kind = ''pool-trade'' then ''trade'' else ''approval''), sc_marketId = pool, sc_conflictKey = ''trade:'' @ interpolated pool\<rparr>
        else if kind = ''launch'' \<and> truthy_part ps 2 \<noteq> None
        then \<lparr>sc_businessType = ''launch'', sc_marketId = truthy_part ps 2, sc_conflictKey = ''launch:'' @ interpolated (truthy_part ps 2)\<rparr>
        else if kind = ''approval'' then \<lparr>sc_businessType = ''approval'', sc_marketId = None, sc_conflictKey = op\<rparr>
        else if kind = ''reward'' then reward_scope op ps
        else other_scope op)"

definition business_types :: "string list" where
  "business_types = [''trade'', ''claim'', ''stake'', ''launch'', ''approval'', ''settlement'', ''handoff'', ''treasury'', ''other'']"

definition validScope :: "tx_scope \<Rightarrow> bool" where
  "validScope s \<longleftrightarrow> sc_businessType s \<in> set business_types \<and> sc_conflictKey s \<noteq> [] \<and> length (sc_conflictKey s) \<le> 512
     \<and> (case sc_marketId s of None \<Rightarrow> True | Some m \<Rightarrow> m \<noteq> [] \<and> length m \<le> 256)"

section \<open>Pending transactions\<close>

text \<open>The times are JSON numbers; the code only compares and stores them.\<close>

record pending_tx =
  pt_intent :: string
  pt_hash :: string
  pt_approval :: bool
  pt_operationKey :: string
  pt_scope :: tx_scope
  pt_createdAt :: json
  pt_updatedAt :: json
  pt_nonce :: "int option"
  pt_previousHashes :: "string list option"
  pt_stage :: "string option"
  pt_replacementReason :: "string option"
  pt_cancelled :: "bool option"

abbreviation pt_conflict :: "pending_tx \<Rightarrow> string" where
  "pt_conflict r \<equiv> sc_conflictKey (pt_scope r)"

definition tx_stages :: "string list" where
  "tx_stages = [''pending'', ''replaced'', ''unknown'']"

definition replacement_reasons :: "string list" where
  "replacement_reasons = [''repriced'', ''replaced'', ''cancelled'']"

definition is_number :: "json \<Rightarrow> bool" where
  "is_number v = (case v of JNumber _ \<Rightarrow> True | JReal _ \<Rightarrow> True | _ \<Rightarrow> False)"

definition invalid_record :: tx_error where
  "invalid_record = TxError ''pending_transaction'' ''Saved transaction record is invalid; check wallet history before continuing''"

definition invalid_journal :: tx_error where
  "invalid_journal = TxError ''pending_transaction'' ''Pending transaction journal is invalid; reconcile wallet history before continuing''"

definition unreadable :: tx_error where
  "unreadable = TxError ''pending_transaction'' ''Saved transaction record cannot be read; check wallet history before continuing''"

definition duplicate_operations :: tx_error where
  "duplicate_operations = TxError ''pending_transaction'' ''Pending transaction journal contains duplicate operations; reconcile wallet history before continuing''"

text \<open>Reading one field: \<open>None\<close> when the test fails. An optional field is \<open>Some None\<close> when it is missing.\<close>

definition required :: "(json \<Rightarrow> 'a option) \<Rightarrow> json \<Rightarrow> string \<Rightarrow> 'a option" where
  "required f v k = (case field v k of None \<Rightarrow> None | Some x \<Rightarrow> f x)"

definition optional :: "(json \<Rightarrow> 'a option) \<Rightarrow> json \<Rightarrow> string \<Rightarrow> 'a option option" where
  "optional f v k = (case field v k of None \<Rightarrow> Some None | Some x \<Rightarrow> map_option Some (f x))"

definition as_text :: "json \<Rightarrow> string option" where
  "as_text v = (case v of JText s \<Rightarrow> Some s | _ \<Rightarrow> None)"

definition as_bool :: "json \<Rightarrow> bool option" where
  "as_bool v = (case v of JBool b \<Rightarrow> Some b | _ \<Rightarrow> None)"

definition as_int :: "json \<Rightarrow> int option" where
  "as_int v = (case v of JNumber n \<Rightarrow> Some n | _ \<Rightarrow> None)"

definition as_texts :: "json \<Rightarrow> string list option" where
  "as_texts v = (case v of JArray xs \<Rightarrow> Some (map string_of xs) | _ \<Rightarrow> None)"

text \<open>The tests of a record; \<open>TEST.test(hash)\<close> converts its argument to a string.\<close>

definition tx_ok :: "pending_tx \<Rightarrow> bool" where
  "tx_ok r \<longleftrightarrow> is_hex 64 (pt_hash r) \<and> pt_operationKey r \<noteq> [] \<and> length (pt_operationKey r) \<le> 512 \<and> validScope (pt_scope r)
     \<and> is_number (pt_createdAt r) \<and> is_number (pt_updatedAt r)
     \<and> (case pt_previousHashes r of None \<Rightarrow> True | Some hs \<Rightarrow> list_all (is_hex 64) hs)
     \<and> (case pt_nonce r of None \<Rightarrow> True | Some n \<Rightarrow> 0 \<le> n \<and> n \<le> MAX_SAFE)
     \<and> (case pt_stage r of None \<Rightarrow> True | Some t \<Rightarrow> t \<in> set tx_stages)
     \<and> (case pt_replacementReason r of None \<Rightarrow> True | Some t \<Rightarrow> t \<in> set replacement_reasons)"

definition read_scope :: "json \<Rightarrow> tx_scope option" where
  "read_scope v =
     Option.bind (required as_text v ''businessType'') (\<lambda>business.
     Option.bind (optional as_text v ''marketId'') (\<lambda>market.
     Option.bind (required as_text v ''conflictKey'') (\<lambda>conflict.
       Some \<lparr>sc_businessType = business, sc_marketId = market, sc_conflictKey = conflict\<rparr>)))"

definition read_details :: "json \<Rightarrow> pending_tx \<Rightarrow> pending_tx option" where
  "read_details v r =
     Option.bind (optional as_int v ''nonce'') (\<lambda>nonce.
     Option.bind (optional as_texts v ''previousHashes'') (\<lambda>previous.
     Option.bind (optional as_text v ''stage'') (\<lambda>stage.
     Option.bind (optional as_text v ''replacementReason'') (\<lambda>reason.
     Option.bind (optional as_bool v ''cancelled'') (\<lambda>cancelled.
       Some (r\<lparr>pt_nonce := nonce, pt_previousHashes := previous, pt_stage := stage, pt_replacementReason := reason, pt_cancelled := cancelled\<rparr>))))))"

definition read_record :: "json \<Rightarrow> pending_tx option" where
  "read_record v =
     Option.bind (required as_text v ''intent'') (\<lambda>intent.
     Option.bind (required (\<lambda>x. Some (string_of x)) v ''hash'') (\<lambda>hash.
     Option.bind (required as_bool v ''approval'') (\<lambda>approval.
     Option.bind (required as_text v ''operationKey'') (\<lambda>operation.
     Option.bind (read_scope v) (\<lambda>scope.
     Option.bind (required Some v ''createdAt'') (\<lambda>createdAt.
     Option.bind (required Some v ''updatedAt'') (\<lambda>updatedAt.
       read_details v \<lparr>pt_intent = intent, pt_hash = hash, pt_approval = approval, pt_operationKey = operation, pt_scope = scope,
         pt_createdAt = createdAt, pt_updatedAt = updatedAt, pt_nonce = None, pt_previousHashes = None, pt_stage = None,
         pt_replacementReason = None, pt_cancelled = None\<rparr>)))))))"

definition validatePending :: "json \<Rightarrow> pending_tx tx_res" where
  "validatePending v = (case v of
     JObject _ \<Rightarrow> (case read_record v of None \<Rightarrow> Inl invalid_journal | Some r \<Rightarrow> if tx_ok r then Inr r else Inl invalid_journal)
   | _ \<Rightarrow> Inl invalid_record)"

section \<open>The journal\<close>

definition optional_field :: "string \<Rightarrow> ('a \<Rightarrow> json) \<Rightarrow> 'a option \<Rightarrow> (string \<times> json) list" where
  "optional_field k f v = (case v of None \<Rightarrow> [] | Some x \<Rightarrow> [(k, f x)])"

definition tx_json :: "pending_tx \<Rightarrow> json" where
  "tx_json r = JObject ([(''intent'', JText (pt_intent r)), (''hash'', JText (pt_hash r)), (''approval'', JBool (pt_approval r)),
       (''operationKey'', JText (pt_operationKey r)), (''businessType'', JText (sc_businessType (pt_scope r))),
       (''conflictKey'', JText (sc_conflictKey (pt_scope r))), (''createdAt'', pt_createdAt r), (''updatedAt'', pt_updatedAt r)]
     @ optional_field ''marketId'' JText (sc_marketId (pt_scope r)) @ optional_field ''nonce'' JNumber (pt_nonce r)
     @ optional_field ''previousHashes'' (\<lambda>hs. JArray (map JText hs)) (pt_previousHashes r) @ optional_field ''stage'' JText (pt_stage r)
     @ optional_field ''replacementReason'' JText (pt_replacementReason r) @ optional_field ''cancelled'' JBool (pt_cancelled r))"

definition chain_text :: "int option \<Rightarrow> string" where
  "chain_text chain = (case chain of None \<Rightarrow> ''undefined'' | Some n \<Rightarrow> show_int n)"

definition journalKey :: "int option \<Rightarrow> string \<Rightarrow> string" where
  "journalKey chain account = ''tickergarden:pending:v2:'' @ chain_text chain @ '':'' @ lower account"

definition legacyJournalKey :: "int option \<Rightarrow> string \<Rightarrow> string" where
  "legacyJournalKey chain account = ''tickergarden:pending:'' @ chain_text chain @ '':'' @ lower account"

definition writePending :: "bool \<Rightarrow> int option \<Rightarrow> string \<Rightarrow> pending_tx list \<Rightarrow> tx_storage \<Rightarrow> tx_storage" where
  "writePending ok chain account records s = (if records = [] then recoveryRemove ok (journalKey chain account) s
     else recoveryWrite ok (journalKey chain account)
       (JsonText (JObject [(''version'', JNumber 2), (''records'', JArray (map tx_json records))])) s)"

text \<open>A missing string and an empty one are both falsy.\<close>

definition read_text :: "tx_storage \<Rightarrow> string \<Rightarrow> stored_text option" where
  "read_text s key = (case recoveryRead s key of Some EmptyText \<Rightarrow> None | v \<Rightarrow> v)"

definition json_put :: "string \<Rightarrow> json \<Rightarrow> json \<Rightarrow> json" where
  "json_put k x v = (case v of JObject fs \<Rightarrow> JObject (AList.update k x fs) | _ \<Rightarrow> v)"

definition json_drop :: "string \<Rightarrow> json \<Rightarrow> json" where
  "json_drop k v = (case v of JObject fs \<Rightarrow> JObject (AList.delete k fs) | _ \<Rightarrow> v)"

text \<open>
  \<open>{...legacy, ...scope, ...}\<close>: a scope of type \<open>other\<close>, or of an approval by itself, has no key \<open>marketId\<close>; the
  others have one, which may be \<open>undefined\<close>.
\<close>

definition put_market :: "tx_scope \<Rightarrow> json \<Rightarrow> json" where
  "put_market scope v = (case sc_marketId scope of Some m \<Rightarrow> json_put ''marketId'' (JText m) v
     | None \<Rightarrow> if sc_businessType scope \<in> {''other'', ''approval''} then v else json_drop ''marketId'' v)"

definition migrated :: "json \<Rightarrow> string \<Rightarrow> json \<Rightarrow> json" where
  "migrated legacy op now = (let scope = transactionScopeForOperation op in
     json_put ''stage'' (JText ''unknown'') (json_put ''updatedAt'' now (json_put ''createdAt'' now (json_put ''operationKey'' (JText op)
       (json_put ''conflictKey'' (JText (sc_conflictKey scope)) (put_market scope
         (json_put ''businessType'' (JText (sc_businessType scope)) legacy)))))))"

definition migrate_legacy :: "bool \<Rightarrow> int \<Rightarrow> int option \<Rightarrow> string \<Rightarrow> stored_text \<Rightarrow> tx_storage \<Rightarrow> (tx_storage \<times> pending_tx list) tx_res" where
  "migrate_legacy ok now chain account raw s = (case raw of
     JsonText legacy \<Rightarrow> (case required as_text legacy ''operationKey'' of
         None \<Rightarrow> Inl invalid_record
       | Some op \<Rightarrow> if op = [] then Inl invalid_record
           else bindR (validatePending (migrated legacy op (JNumber now))) (\<lambda>r.
             Inr (recoveryRemove ok (legacyJournalKey chain account) (writePending ok chain account [r] s), [r])))
   | _ \<Rightarrow> Inl unreadable)"

definition read_journal :: "stored_text \<Rightarrow> pending_tx list tx_res" where
  "read_journal raw = (case raw of
     JsonText v \<Rightarrow> (case (field v ''version'', field v ''records'') of
         (Some (JNumber n), Some (JArray rs)) \<Rightarrow> if n = 2 then bindR (mapR validatePending rs) (\<lambda>records.
             if distinct (map pt_operationKey records) then Inr records else Inl duplicate_operations)
           else Inl invalid_record
       | _ \<Rightarrow> Inl invalid_record)
   | _ \<Rightarrow> Inl unreadable)"

text \<open>Reading may move a record of the old format; this is why it returns the storage.\<close>

definition pendingTransactions :: "bool \<Rightarrow> int \<Rightarrow> int option \<Rightarrow> string \<Rightarrow> tx_storage \<Rightarrow> (tx_storage \<times> pending_tx list) tx_res" where
  "pendingTransactions ok now chain account s = (case read_text s (journalKey chain account) of
     None \<Rightarrow> (case read_text s (legacyJournalKey chain account) of
         None \<Rightarrow> Inr (s, []) | Some raw \<Rightarrow> migrate_legacy ok now chain account raw s)
   | Some raw \<Rightarrow> bindR (read_journal raw) (\<lambda>records. Inr (s, records)))"

section \<open>The journal keeps what is written\<close>

lemma map_of_optional [simp]: "map_of (optional_field k f v) k' = (if k' = k then map_option f v else None)"
  by (simp add: optional_field_def split: option.split)

lemma validate_written: "tx_ok r \<Longrightarrow> validatePending (tx_json r) = Inr r"
proof -
  assume ok: "tx_ok r"
  have fields: "field (tx_json r) k = (map_of (optional_field ''marketId'' JText (sc_marketId (pt_scope r)) @ optional_field ''nonce'' JNumber (pt_nonce r)
     @ optional_field ''previousHashes'' (\<lambda>hs. JArray (map JText hs)) (pt_previousHashes r) @ optional_field ''stage'' JText (pt_stage r)
     @ optional_field ''replacementReason'' JText (pt_replacementReason r) @ optional_field ''cancelled'' JBool (pt_cancelled r))
     ++ [''intent'' \<mapsto> JText (pt_intent r), ''hash'' \<mapsto> JText (pt_hash r), ''approval'' \<mapsto> JBool (pt_approval r),
       ''operationKey'' \<mapsto> JText (pt_operationKey r), ''businessType'' \<mapsto> JText (sc_businessType (pt_scope r)),
       ''conflictKey'' \<mapsto> JText (sc_conflictKey (pt_scope r)), ''createdAt'' \<mapsto> pt_createdAt r, ''updatedAt'' \<mapsto> pt_updatedAt r]) k" for k
    by (simp add: tx_json_def field_def map_add_def fun_upd_def split: option.split)
  have scope: "read_scope (tx_json r) = Some (pt_scope r)"
    by (simp add: read_scope_def required_def optional_def fields as_text_def map_add_def split: option.split)
  have details: "read_details (tx_json r) x = Some (x\<lparr>pt_nonce := pt_nonce r, pt_previousHashes := pt_previousHashes r, pt_stage := pt_stage r,
      pt_replacementReason := pt_replacementReason r, pt_cancelled := pt_cancelled r\<rparr>)" for x
    by (simp add: read_details_def optional_def fields as_text_def as_int_def as_bool_def as_texts_def map_add_def comp_def split: option.split)
  have "read_record (tx_json r) = Some r"
    by (simp add: read_record_def required_def fields as_text_def as_bool_def map_add_def scope details)
  then show ?thesis using ok by (simp add: validatePending_def tx_json_def)
qed

lemma mapR_written: "list_all tx_ok rs \<Longrightarrow> mapR validatePending (map tx_json rs) = Inr rs"
  by (induction rs) (simp_all add: validate_written)

lemma read_journal_written:
  assumes "list_all tx_ok rs" and "distinct (map pt_operationKey rs)"
  shows "read_journal (JsonText (JObject [(''version'', JNumber 2), (''records'', JArray (map tx_json rs))])) = Inr rs"
  using assms by (simp add: read_journal_def field_def mapR_written)

lemma journal_keys_differ: "journalKey chain a \<noteq> legacyJournalKey chain' b"
proof
  assume eq: "journalKey chain a = legacyJournalKey chain' b"
  have digit: "hd (show_nat n) \<noteq> CHR ''v''" for n
  proof
    assume "hd (show_nat n) = CHR ''v''"
    then have "is_digit CHR ''v''" using show_nat_hd_digit [of n] by simp
    then show False by (simp add: is_digit_def code_of_def)
  qed
  have start: "chain_text c \<noteq> [] \<and> hd (chain_text c) \<noteq> CHR ''v''" for c
    using digit by (auto simp: chain_text_def show_int_def split: option.split)
  have "''v2:'' @ chain_text chain @ '':'' @ lower a = chain_text chain' @ '':'' @ lower b"
    using eq by (simp add: journalKey_def legacyJournalKey_def)
  then have "hd (''v2:'' @ chain_text chain @ '':'' @ lower a) = hd (chain_text chain' @ '':'' @ lower b)" by (rule arg_cong)
  then show False using start [of chain'] by simp
qed

lemma written_journal:
  assumes "list_all tx_ok rs" and "distinct (map pt_operationKey rs)" and "read_text s (legacyJournalKey chain account) = None"
  shows "pendingTransactions ok' now chain account (writePending ok chain account rs s) = Inr (writePending ok chain account rs s, rs)"
    and "key \<noteq> journalKey chain account \<Longrightarrow> recoveryRead (writePending ok chain account rs s) key = recoveryRead s key"
  using assms journal_keys_differ [of chain account chain account]
  by (cases "rs = []", auto simp: pendingTransactions_def writePending_def read_text_def read_journal_written split: option.split)+

text \<open>C4: The journal of pending transactions keeps what is written to it, even when the browser's storage refuses: reading it again returns
  exactly the records that were written, with all their fields, whether or not the write succeeded and at whatever
  time it is read, as long as the page is not loaded again; and the write changes nothing under any other key, so neither the journals of other accounts and chains
  nor the archive.\<close>

theorem journal_round_trip:
  assumes "list_all tx_ok rs" and "distinct (map pt_operationKey rs)" and "read_text s (legacyJournalKey chain account) = None"
  shows "pendingTransactions ok' now chain account (writePending ok chain account rs s) = Inr (writePending ok chain account rs s, rs)
    \<and> (\<forall>key. key \<noteq> journalKey chain account \<longrightarrow> recoveryRead (writePending ok chain account rs s) key = recoveryRead s key)"
  using written_journal [OF assms] by blast

definition sample_pending :: pending_tx where
  "sample_pending = \<lparr>pt_intent = ''[]'', pt_hash = hex_lit 64 CHR ''a'', pt_approval = False, pt_operationKey = ''trade:buy:m:1'',
     pt_scope = transactionScopeForOperation ''trade:buy:m:1'', pt_createdAt = JNumber 1, pt_updatedAt = JNumber 2, pt_nonce = Some 7,
     pt_previousHashes = Some [hex_lit 64 CHR ''b''], pt_stage = Some ''replaced'', pt_replacementReason = Some ''repriced'', pt_cancelled = Some False\<rparr>"

lemma sample_pending_ok: "tx_ok sample_pending"
  by code_simp

lemma journal_round_trip_witness:
  "pendingTransactions True 5 (Some 4663) ''0x1'' (writePending False (Some 4663) ''0x1'' [sample_pending] \<lparr>tg_items = [], tg_fallback = []\<rparr>)
    = Inr (writePending False (Some 4663) ''0x1'' [sample_pending] \<lparr>tg_items = [], tg_fallback = []\<rparr>, [sample_pending])"
  using journal_round_trip [of "[sample_pending]" "\<lparr>tg_items = [], tg_fallback = []\<rparr>" "Some 4663" "''0x1''" True 5 False]
  by (simp add: sample_pending_ok read_text_def recoveryRead_def)

end
