(* ===== verification/Tx_Executor.thy ===== *)
theory Tx_Executor imports Tx_Journal begin

text \<open>
  The transaction executor of apps/web/src/v1/transaction.ts: its checks before signing, one transaction from
  await to await, and the runs of all transactions of an account.
\<close>

section \<open>The executor\<close>

text \<open>The connected wallet with the two constants of the build, and what \<open>execute\<close> is given.\<close>

record tx_wallet =
  tw_chain :: "int option"
  tw_account :: "string option"
  tw_chainId :: int
  tw_specId :: string

record tx_input =
  ti_operationKey :: string
  ti_scope :: "tx_scope option"
  ti_account :: string
  ti_specId :: string
  ti_revision :: string
  ti_syncStatus :: string
  ti_direct :: bool
  ti_intent :: string
  ti_approval :: bool
  ti_quoteExpiresAt :: "int option"
  ti_hasContext :: bool
  ti_hasRevision :: bool

definition scope_of :: "tx_input \<Rightarrow> tx_scope" where
  "scope_of i = (case ti_scope i of Some s \<Rightarrow> s | None \<Rightarrow> transactionScopeForOperation (ti_operationKey i))"

abbreviation ti_conflict :: "tx_input \<Rightarrow> string" where
  "ti_conflict i \<equiv> sc_conflictKey (scope_of i)"

definition sameAddress :: "string \<Rightarrow> string \<Rightarrow> bool" where
  "sameAddress a b \<longleftrightarrow> lower a = lower b"

definition connected :: "tx_wallet \<Rightarrow> string \<Rightarrow> bool" where
  "connected W account \<longleftrightarrow> (case tw_account W of None \<Rightarrow> False | Some a \<Rightarrow> a \<noteq> [] \<and> sameAddress a account)"

definition assertPreflight :: "tx_wallet \<Rightarrow> int \<Rightarrow> tx_input \<Rightarrow> unit tx_res" where
  "assertPreflight W now i =
    (if tw_chain W \<noteq> Some (tw_chainId W) then Inl (TxError ''unsupported_chain'' (''wallet must use chain '' @ show_int (tw_chainId W)))
     else if \<not> connected W (ti_account i) then Inl (TxError ''wrong_account'' ''connected wallet does not match the expected account'')
     else if ti_specId i \<noteq> tw_specId W then Inl (TxError ''stale_snapshot'' ''snapshot execution spec does not match the generated ABI'')
     else if ti_direct i \<and> (\<not> ti_hasRevision i \<or> \<not> ti_hasContext i) then Inl (TxError ''stale_snapshot'' ''Direct transactions require live state and wallet checks'')
     else if \<not> ti_direct i \<and> ti_syncStatus i = ''lagging'' then Inl (TxError ''indexer_lagging'' ''Indexer snapshot is lagging'')
     else if \<not> ti_direct i \<and> ti_syncStatus i = ''unavailable'' then Inl (TxError ''indexer_unavailable'' ''Indexer snapshot is unavailable'')
     else if ti_revision i = [] then Inl (TxError ''stale_snapshot'' ''snapshot revision is required'')
     else if (case ti_quoteExpiresAt i of None \<Rightarrow> False | Some t \<Rightarrow> now \<ge> t) then Inl (TxError ''stale_quote'' ''quote expired before simulation'')
     else Inr ())"

text \<open>What an awaited call throws: one of the typed errors, or anything else.\<close>

datatype thrown = ThrownTyped tx_error | ThrownOther

definition workflow_failed :: tx_error where
  "workflow_failed = TxError ''submission_failed'' ''transaction workflow failed''"

definition verifyWalletContext :: "tx_input \<Rightarrow> thrown + unit \<Rightarrow> unit tx_res" where
  "verifyWalletContext i answer = (if \<not> ti_hasContext i then Inr () else case answer of
     Inr _ \<Rightarrow> Inr () | Inl (ThrownTyped e) \<Rightarrow> Inl e
   | Inl ThrownOther \<Rightarrow> Inl (TxError ''wrong_account'' ''live wallet context no longer matches this transaction''))"

text \<open>The clock, the connected wallet and the answers that one \<open>assertFresh\<close> sees; any of them may change while it awaits.\<close>

record fresh_view =
  fv_now :: int
  fv_wallet :: tx_wallet
  fv_context :: "thrown + unit"
  fv_revision :: "thrown + string"
  fv_later :: int
  fv_later_wallet :: tx_wallet
  fv_again :: "thrown + unit"

definition check_revision :: "tx_input \<Rightarrow> string \<Rightarrow> thrown + string \<Rightarrow> unit tx_res" where
  "check_revision i phase answer = (if \<not> ti_hasRevision i then Inr () else case answer of
     Inl (ThrownTyped e) \<Rightarrow> Inl e | Inl ThrownOther \<Rightarrow> Inl workflow_failed
   | Inr r \<Rightarrow> if r \<noteq> ti_revision i then Inl (TxError ''stale_snapshot'' (''the reconciled read snapshot changed '' @ phase)) else Inr ())"

definition assertFresh :: "tx_input \<Rightarrow> string \<Rightarrow> fresh_view \<Rightarrow> unit tx_res" where
  "assertFresh i phase v =
     bindR (assertPreflight (fv_wallet v) (fv_now v) i) (\<lambda>_.
     bindR (verifyWalletContext i (fv_context v)) (\<lambda>_.
     bindR (check_revision i phase (fv_revision v)) (\<lambda>_.
     bindR (assertPreflight (fv_later_wallet v) (fv_later v) i) (\<lambda>_.
       verifyWalletContext i (fv_again v)))))"

section \<open>The journal of an account\<close>

definition pending_of :: "tx_wallet \<Rightarrow> bool \<Rightarrow> int \<Rightarrow> string \<Rightarrow> tx_storage \<Rightarrow> (tx_storage \<times> pending_tx list) tx_res" where
  "pending_of W ok now account = pendingTransactions ok now (tw_chain W) account"

definition write_pending :: "tx_wallet \<Rightarrow> bool \<Rightarrow> string \<Rightarrow> pending_tx list \<Rightarrow> tx_storage \<Rightarrow> tx_storage" where
  "write_pending W ok account = writePending ok (tw_chain W) account"

definition replacePending :: "tx_wallet \<Rightarrow> bool \<Rightarrow> int \<Rightarrow> string \<Rightarrow> pending_tx \<Rightarrow> tx_storage \<Rightarrow> tx_storage tx_res" where
  "replacePending W ok now account r s = bindR (pending_of W ok now account s) (\<lambda>(s', rs).
     Inr (write_pending W ok account (filter (\<lambda>x. pt_operationKey x \<noteq> pt_operationKey r) rs @ [r]) s'))"

definition removePending :: "tx_wallet \<Rightarrow> bool \<Rightarrow> int \<Rightarrow> string \<Rightarrow> string \<Rightarrow> tx_storage \<Rightarrow> tx_storage tx_res" where
  "removePending W ok now account op s = bindR (pending_of W ok now account s) (\<lambda>(s', rs).
     Inr (write_pending W ok account (filter (\<lambda>x. pt_operationKey x \<noteq> op) rs) s'))"

section \<open>One transaction\<close>

text \<open>
  Where \<open>execute\<close> waits. \<open>Waiting\<close> holds whether it is the approval, the operation of the journal record, the hash and whether it was
  cancelled.
\<close>

datatype tx_pc = Preflight | Recovering | Simulating bool | Signing bool | Waiting bool string string bool | AfterApproval | Confirming

record tx_task =
  tt_input :: tx_input
  tt_unresolved :: "(string \<times> bool) option"
  tt_pc :: tx_pc

datatype outcome = Continue tx_pc | Finish "tx_error option"

definition pending_error :: "string \<Rightarrow> string \<Rightarrow> tx_error" where
  "pending_error message hash = TxError ''pending_transaction'' (message @ hash)"

definition begin_task :: "tx_wallet \<Rightarrow> tx_input \<Rightarrow> pending_tx list \<Rightarrow> tx_task tx_res" where
  "begin_task W i records =
    (let exact = find (\<lambda>r. pt_operationKey r = ti_operationKey i) records;
         unresolved = (case exact of Some r \<Rightarrow> Some r | None \<Rightarrow> find (\<lambda>r. pt_intent r = ti_intent i) records)
     in if (case exact of None \<Rightarrow> False | Some r \<Rightarrow> pt_intent r \<noteq> ti_intent i)
        then Inl (pending_error ''The saved operation does not match this transaction request: '' (case exact of None \<Rightarrow> [] | Some r \<Rightarrow> pt_hash r))
        else (case find (\<lambda>r. pt_conflict r = ti_conflict i \<and> Some (pt_operationKey r) \<noteq> map_option pt_operationKey unresolved) records of
            Some r \<Rightarrow> Inl (pending_error ''A dependent transaction for this market is still pending: '' (pt_hash r))
          | None \<Rightarrow> (case unresolved of
              Some r \<Rightarrow> if connected W (ti_account i)
                 then Inr \<lparr>tt_input = i, tt_unresolved = Some (pt_operationKey r, pt_approval r), tt_pc = Recovering\<rparr>
                 else Inl (TxError ''wrong_account'' ''Reconnect the original account to recover its transaction'')
            | None \<Rightarrow> Inr \<lparr>tt_input = i, tt_unresolved = None, tt_pc = Preflight\<rparr>)))"

definition find_pending :: "tx_input \<Rightarrow> pending_tx list \<Rightarrow> pending_tx option" where
  "find_pending i records = (case find (\<lambda>r. pt_operationKey r = ti_operationKey i) records of
     Some r \<Rightarrow> Some r | None \<Rightarrow> find (\<lambda>r. pt_intent r = ti_intent i) records)"

text \<open>The start of \<open>sendAndConfirm\<close>: take up a recorded transaction, or probe the storage and simulate.\<close>

definition begin_send :: "tx_wallet \<Rightarrow> bool \<Rightarrow> int \<Rightarrow> tx_input \<Rightarrow> bool \<Rightarrow> tx_storage \<Rightarrow> tx_storage \<times> outcome" where
  "begin_send W ok now i approval s = (case pending_of W ok now (ti_account i) s of
     Inl e \<Rightarrow> (s, Finish (Some e))
   | Inr (s', rs) \<Rightarrow> (case find_pending i rs of
       Some r \<Rightarrow> (s', Continue (Waiting approval (pt_operationKey r) (pt_hash r) (pt_cancelled r = Some True)))
     | None \<Rightarrow> (s', if ok then Continue (Simulating approval) else Finish (Some workflow_failed))))"

definition checked :: "unit tx_res \<Rightarrow> tx_storage \<Rightarrow> tx_storage \<times> outcome \<Rightarrow> tx_storage \<times> outcome" where
  "checked r s k = (case r of Inl e \<Rightarrow> (s, Finish (Some e)) | Inr _ \<Rightarrow> k)"

datatype wallet_answer = Signed string | WalletTimeout | Rejected | SubmitFailed

definition new_pending :: "tx_input \<Rightarrow> bool \<Rightarrow> string \<Rightarrow> int \<Rightarrow> int \<Rightarrow> pending_tx" where
  "new_pending i approval hash created now = \<lparr>pt_intent = ti_intent i, pt_hash = hash, pt_approval = approval,
     pt_operationKey = ti_operationKey i, pt_scope = scope_of i, pt_createdAt = JNumber created, pt_updatedAt = JNumber now, pt_nonce = None,
     pt_previousHashes = None, pt_stage = Some ''pending'', pt_replacementReason = None, pt_cancelled = None\<rparr>"

definition stored_or :: "tx_storage \<Rightarrow> tx_storage tx_res \<Rightarrow> outcome \<Rightarrow> tx_storage \<times> outcome" where
  "stored_or s r k = (case r of Inl e \<Rightarrow> (s, Finish (Some e)) | Inr s' \<Rightarrow> (s', k))"

definition answered :: "tx_wallet \<Rightarrow> bool \<Rightarrow> int \<Rightarrow> tx_input \<Rightarrow> bool \<Rightarrow> int \<Rightarrow> wallet_answer \<Rightarrow> tx_storage \<Rightarrow> tx_storage \<times> outcome" where
  "answered W ok now i approval created a s = (case a of
     Signed h \<Rightarrow> stored_or s (replacePending W ok now (ti_account i) (new_pending i approval h created now) s)
       (Continue (Waiting approval (ti_operationKey i) h False))
   | WalletTimeout \<Rightarrow> (s, Finish (Some (TxError ''wallet_response_timeout'' ''Wallet did not return a transaction hash'')))
   | Rejected \<Rightarrow> (s, Finish (Some (TxError ''user_rejected'' ''wallet signature was rejected'')))
   | SubmitFailed \<Rightarrow> (s, Finish (Some (TxError ''submission_failed'' (if approval then ''approval submission failed'' else ''transaction submission failed'')))))"

text \<open>A replacement seen while waiting: the record, if it is still there, gets the new hash.\<close>

definition replaced_record :: "string \<Rightarrow> string \<Rightarrow> int \<Rightarrow> pending_tx \<Rightarrow> pending_tx" where
  "replaced_record hash reason now r = r\<lparr>pt_hash := hash,
     pt_previousHashes := Some ((case pt_previousHashes r of None \<Rightarrow> [] | Some hs \<Rightarrow> hs) @ [pt_hash r]),
     pt_cancelled := Some (reason = ''cancelled''), pt_stage := Some ''replaced'', pt_replacementReason := Some reason, pt_updatedAt := JNumber now\<rparr>"

text \<open>Rewriting the first record that passes a test, unless \<open>f\<close> leaves it.\<close>

definition update_record :: "tx_wallet \<Rightarrow> bool \<Rightarrow> int \<Rightarrow> string \<Rightarrow> (pending_tx \<Rightarrow> bool) \<Rightarrow> (pending_tx \<Rightarrow> pending_tx option) \<Rightarrow> tx_storage \<Rightarrow> tx_storage tx_res" where
  "update_record W ok now account P f s = bindR (pending_of W ok now account s) (\<lambda>(s', rs).
     case Option.bind (find P rs) f of None \<Rightarrow> Inr s' | Some r \<Rightarrow> replacePending W ok now account r s')"

definition replaced :: "tx_wallet \<Rightarrow> bool \<Rightarrow> int \<Rightarrow> tx_input \<Rightarrow> bool \<Rightarrow> string \<Rightarrow> string \<Rightarrow> string \<Rightarrow> tx_storage \<Rightarrow> tx_storage \<times> outcome" where
  "replaced W ok now i approval op hash reason s =
    ((case update_record W ok now (ti_account i) (\<lambda>r. pt_operationKey r = op) (\<lambda>r. Some (replaced_record hash reason now r)) s of Inl _ \<Rightarrow> s | Inr s' \<Rightarrow> s'),
     Continue (Waiting approval op hash (reason = ''cancelled'')))"

definition receipt_error :: "tx_wallet \<Rightarrow> bool \<Rightarrow> int \<Rightarrow> tx_input \<Rightarrow> string \<Rightarrow> string \<Rightarrow> bool \<Rightarrow> tx_storage \<Rightarrow> tx_storage \<times> outcome" where
  "receipt_error W ok now i op hash timeout s =
     stored_or s (update_record W ok now (ti_account i) (\<lambda>r. pt_operationKey r = op)
        (\<lambda>r. if pt_stage r = Some ''replaced'' then None else Some (r\<lparr>pt_stage := Some ''unknown'', pt_updatedAt := JNumber now\<rparr>)) s)
      (Finish (Some (if timeout then TxError ''receipt_timeout'' ''timed out waiting for a canonical receipt''
        else TxError ''pending_transaction'' (''Transaction outcome is unknown; check '' @ hash @ '' before retrying''))))"

definition receipt_received :: "tx_wallet \<Rightarrow> bool \<Rightarrow> int \<Rightarrow> tx_input \<Rightarrow> bool \<Rightarrow> string \<Rightarrow> bool \<Rightarrow> bool \<Rightarrow> tx_storage \<Rightarrow> tx_storage \<times> outcome" where
  "receipt_received W ok now i approval op cancelled success s =
     stored_or s (if cancelled \<or> \<not> success \<or> approval then removePending W ok now (ti_account i) op s else Inr s)
      (if cancelled then Finish (Some (TxError ''replacement_cancelled'' ''transaction was replaced by a cancellation''))
       else if \<not> success then Finish (Some (if approval then TxError ''approval_reverted'' ''approval reverted'' else TxError ''transaction_reverted'' ''transaction reverted''))
       else Continue (if approval then AfterApproval else Confirming))"

definition confirmed :: "tx_wallet \<Rightarrow> bool \<Rightarrow> int \<Rightarrow> tx_input \<Rightarrow> (string \<times> bool) option \<Rightarrow> bool \<Rightarrow> tx_storage \<Rightarrow> tx_storage \<times> outcome" where
  "confirmed W ok now i unresolved success s =
    (let failed = Finish (Some (TxError ''confirmation_failed'' ''transaction receipt could not be reconciled with fresh chain facts''))
     in if \<not> success then (s, failed)
        else (case removePending W ok now (ti_account i) (case unresolved of None \<Rightarrow> ti_operationKey i | Some (op, _) \<Rightarrow> op) s of
            Inl _ \<Rightarrow> (s, failed) | Inr s' \<Rightarrow> (s', Finish None)))"

section \<open>All transactions of an executor\<close>

text \<open>
  What an awaited call answers. \<open>advance\<close> runs a transaction from one \<open>await\<close> to the next; an answer that its wait does not
  expect is no step. \<open>assertFresh\<close> awaits several times, but touches nothing that is shared.
\<close>

datatype tx_answer = ContextAnswer "thrown + unit" | FreshAnswer fresh_view | SimulationAnswer bool fresh_view | SignatureAnswer wallet_answer int
  | ReplacedAnswer string string | ReceiptAnswer bool | ReceiptError bool | ConfirmAnswer bool

definition advance :: "tx_wallet \<Rightarrow> bool \<Rightarrow> int \<Rightarrow> tx_task \<Rightarrow> tx_answer \<Rightarrow> tx_storage \<Rightarrow> (tx_storage \<times> outcome) option" where
  "advance W ok now t a s = (let i = tt_input t in case (tt_pc t, a) of
     (Recovering, ContextAnswer x) \<Rightarrow> Some (checked (verifyWalletContext i x) s
        (begin_send W ok now i (case tt_unresolved t of None \<Rightarrow> False | Some (_, approval) \<Rightarrow> approval) s))
   | (Preflight, FreshAnswer v) \<Rightarrow> Some (checked (assertFresh i ''before simulation'' v) s (begin_send W ok now i (ti_approval i) s))
   | (Simulating approval, SimulationAnswer success v) \<Rightarrow> Some (
        if \<not> success then (s, Finish (Some (TxError ''simulation_failed'' (if approval then ''approval simulation failed'' else ''transaction simulation failed''))))
        else checked (assertFresh i (if approval then ''after approval simulation'' else ''after transaction simulation'') v) s (s, Continue (Signing approval)))
   | (Signing approval, SignatureAnswer x created) \<Rightarrow> Some (answered W ok now i approval created x s)
   | (Waiting approval op hash cancelled, ReplacedAnswer hash' reason) \<Rightarrow> Some (replaced W ok now i approval op hash' reason s)
   | (Waiting approval op hash cancelled, ReceiptAnswer success) \<Rightarrow> Some (receipt_received W ok now i approval op cancelled success s)
   | (Waiting approval op hash cancelled, ReceiptError timeout) \<Rightarrow> Some (receipt_error W ok now i op hash timeout s)
   | (AfterApproval, FreshAnswer v) \<Rightarrow> Some (checked (assertFresh i ''after approval'' v) s (begin_send W ok now i False s))
   | (Confirming, ConfirmAnswer success) \<Rightarrow> Some (confirmed W ok now i (tt_unresolved t) success s)
   | _ \<Rightarrow> None)"

record tx_state =
  xs_storage :: tx_storage
  xs_inflight :: "(string \<times> tx_task) list"

text \<open>\<open>execute\<close>: the running promise is returned, a running conflict rejects, otherwise the transaction starts.\<close>

definition execute :: "tx_wallet \<Rightarrow> bool \<Rightarrow> int \<Rightarrow> tx_input \<Rightarrow> tx_state \<Rightarrow> tx_state" where
  "execute W ok now i st =
    (if ti_operationKey i \<in> fst ` set (xs_inflight st) then st
     else if list_ex (\<lambda>(_, t). ti_conflict (tt_input t) = ti_conflict i) (xs_inflight st) then st
     else (case pending_of W ok now (ti_account i) (xs_storage st) of
         Inl _ \<Rightarrow> st
       | Inr (s', records) \<Rightarrow> (case begin_task W i records of
           Inl _ \<Rightarrow> st\<lparr>xs_storage := s'\<rparr>
         | Inr t \<Rightarrow> st\<lparr>xs_storage := s', xs_inflight := xs_inflight st @ [(ti_operationKey i, t)]\<rparr>)))"

definition settle :: "string \<Rightarrow> tx_task \<Rightarrow> tx_storage \<times> outcome \<Rightarrow> tx_state \<Rightarrow> tx_state" where
  "settle op t r st = (case r of
     (s', Continue pc) \<Rightarrow> \<lparr>xs_storage = s', xs_inflight = map (\<lambda>p. if fst p = op then (op, t\<lparr>tt_pc := pc\<rparr>) else p) (xs_inflight st)\<rparr>
   | (s', Finish _) \<Rightarrow> \<lparr>xs_storage = s', xs_inflight = filter (\<lambda>p. fst p \<noteq> op) (xs_inflight st)\<rparr>)"

text \<open>The operations beside \<open>execute\<close>. \<open>settled\<close> are the operations and hashes whose receipts were found and verified.\<close>

definition rememberPendingNonce :: "tx_wallet \<Rightarrow> bool \<Rightarrow> int \<Rightarrow> string \<Rightarrow> string \<Rightarrow> string \<Rightarrow> int \<Rightarrow> tx_storage \<Rightarrow> tx_storage tx_res" where
  "rememberPendingNonce W ok now account op hash nonce s =
     update_record W ok now account (\<lambda>r. pt_operationKey r = op \<and> pt_hash r = hash)
       (\<lambda>r. if 0 \<le> nonce \<and> nonce \<le> MAX_SAFE \<and> (pt_nonce r = None \<or> pt_nonce r = Some nonce) then Some (r\<lparr>pt_nonce := Some nonce\<rparr>) else None) s"

definition retirePending :: "tx_wallet \<Rightarrow> bool \<Rightarrow> int \<Rightarrow> string \<Rightarrow> string \<Rightarrow> string \<Rightarrow> tx_state \<Rightarrow> tx_state tx_res" where
  "retirePending W ok now account op hash st = bindR (pending_of W ok now account (xs_storage st)) (\<lambda>(s', rs).
     case find (\<lambda>r. pt_operationKey r = op \<and> pt_hash r = hash) rs of
       None \<Rightarrow> Inr (st\<lparr>xs_storage := s'\<rparr>)
     | Some r \<Rightarrow> if op \<in> fst ` set (xs_inflight st) then Inr (st\<lparr>xs_storage := s'\<rparr>)
         else if \<not> ok then Inl workflow_failed
         else bindR (removePending W ok now account op s') (\<lambda>s''. Inr (st\<lparr>xs_storage := s''\<rparr>)))"

definition reconcileSettled :: "tx_wallet \<Rightarrow> bool \<Rightarrow> int \<Rightarrow> string \<Rightarrow> (string \<times> string) list \<Rightarrow> tx_storage \<Rightarrow> tx_storage tx_res" where
  "reconcileSettled W ok now account settled s = (if settled = [] then Inr s
     else bindR (pending_of W ok now account s) (\<lambda>(s', rs).
       Inr (write_pending W ok account (filter (\<lambda>r. (pt_operationKey r, pt_hash r) \<notin> set settled) rs) s')))"

definition input_ok :: "string \<Rightarrow> tx_input \<Rightarrow> bool" where
  "input_ok account i \<longleftrightarrow> ti_account i = account \<and> ti_operationKey i \<noteq> [] \<and> length (ti_operationKey i) \<le> 512 \<and> validScope (scope_of i)"

definition answer_ok :: "tx_answer \<Rightarrow> bool" where
  "answer_ok a \<longleftrightarrow> (case a of SignatureAnswer (Signed h) _ \<Rightarrow> is_hex 64 h
     | ReplacedAnswer h reason \<Rightarrow> is_hex 64 h \<and> reason \<in> set replacement_reasons | _ \<Rightarrow> True)"

text \<open>
  The life of one account's journal in one tab: transactions start, their awaited calls answer in any order, records learn their nonce or, even after
  their transaction gave up waiting, their replacement, are
  retired or reconciled, and the page may be loaded again, which forgets the running transactions and the writes that the browser had refused, so that the
  journal is again the one last stored. The connected account may change
  at any time, and writes may fail at any time (\<open>ok\<close>); the chain stays, since each chain has its own journal. Operations have scopes as the application gives them, and hashes are hashes.
\<close>

inductive tx_step :: "int option \<Rightarrow> string \<Rightarrow> tx_state \<Rightarrow> tx_state \<Rightarrow> bool" for chain account where
  tx_execute: "tw_chain W = chain \<Longrightarrow> input_ok account i \<Longrightarrow> tx_step chain account st (execute W ok now i st)"
| tx_answer: "tw_chain W = chain \<Longrightarrow> map_of (xs_inflight st) op = Some t \<Longrightarrow> answer_ok a \<Longrightarrow> advance W ok now t a (xs_storage st) = Some r
    \<Longrightarrow> tx_step chain account st (settle op t r st)"
| tx_nonce: "tw_chain W = chain \<Longrightarrow> rememberPendingNonce W ok now account op hash nonce (xs_storage st) = Inr s'
    \<Longrightarrow> tx_step chain account st (st\<lparr>xs_storage := s'\<rparr>)"
| tx_late: "tw_chain W = chain \<Longrightarrow> answer_ok (ReplacedAnswer hash reason)
    \<Longrightarrow> update_record W ok now account (\<lambda>r. pt_operationKey r = op) (\<lambda>r. Some (replaced_record hash reason now r)) (xs_storage st) = Inr s'
    \<Longrightarrow> tx_step chain account st (st\<lparr>xs_storage := s'\<rparr>)"
| tx_retire: "tw_chain W = chain \<Longrightarrow> retirePending W ok now account op hash st = Inr st' \<Longrightarrow> tx_step chain account st st'"
| tx_reconcile: "tw_chain W = chain \<Longrightarrow> reconcileSettled W ok now account settled (xs_storage st) = Inr s'
    \<Longrightarrow> tx_step chain account st (st\<lparr>xs_storage := s'\<rparr>)"
| tx_reload: "tx_step chain account st (st\<lparr>xs_storage := reloaded (xs_storage st), xs_inflight := []\<rparr>)"

definition journal_is :: "tx_wallet \<Rightarrow> string \<Rightarrow> tx_storage \<Rightarrow> pending_tx list \<Rightarrow> bool" where
  "journal_is W account s rs \<longleftrightarrow> read_text s (legacyJournalKey (tw_chain W) account) = None
     \<and> list_all tx_ok rs \<and> distinct (map pt_operationKey rs) \<and> (\<forall>ok now. pending_of W ok now account s = Inr (s, rs))"

inductive tx_reach :: "int option \<Rightarrow> string \<Rightarrow> tx_state \<Rightarrow> bool" for chain account where
  tx_open: "tw_chain W = chain \<Longrightarrow> tg_fallback s = [] \<Longrightarrow> journal_is W account s rs \<Longrightarrow> distinct (map pt_conflict rs)
    \<Longrightarrow> tx_reach chain account \<lparr>xs_storage = s, xs_inflight = []\<rparr>"
| tx_next: "tx_reach chain account st \<Longrightarrow> tx_step chain account st st' \<Longrightarrow> tx_reach chain account st'"

end
