(* ===== verification/Tx_Exclusive.thy ===== *)
theory Tx_Exclusive imports Tx_Executor begin

text \<open>
  The invariant of the executor: every step of every transaction keeps the journal well formed and leaves the
  records of other transactions alone.
\<close>

section \<open>Reading and writing the journal\<close>

lemma pending_is: "journal_is W account s rs \<Longrightarrow> pending_of W ok now account s = Inr (s, rs)"
  by (simp add: journal_is_def)

lemma write_is:
  assumes "journal_is W account s rs0" and "list_all tx_ok rs" and "distinct (map pt_operationKey rs)"
  shows "journal_is W account (write_pending W ok account rs s) rs"
proof -
  have legacy: "read_text s (legacyJournalKey (tw_chain W) account) = None" using assms(1) by (simp add: journal_is_def)
  have "legacyJournalKey (tw_chain W) account \<noteq> journalKey (tw_chain W) account" using journal_keys_differ by metis
  then have "read_text (write_pending W ok account rs s) (legacyJournalKey (tw_chain W) account) = None"
    using legacy written_journal(2) [OF assms(2,3) legacy] by (simp add: read_text_def write_pending_def)
  then show ?thesis
    using written_journal(1) [OF assms(2,3) legacy] assms(2,3) by (simp add: journal_is_def pending_of_def write_pending_def)
qed

text \<open>What the browser itself has stored is a journal too: the one before, where it refused the write.\<close>

lemma reloaded_write: "reloaded (write_pending W ok account rs s) = (if ok then write_pending W True account rs (reloaded s) else reloaded s)"
  by (simp add: write_pending_def writePending_def reloaded_recovery)

text \<open>What a change of the journal keeps: operation, conflict key and intent of each record, besides those of one operation.\<close>

definition same_claim :: "pending_tx \<Rightarrow> pending_tx \<Rightarrow> bool" where
  "same_claim r x \<longleftrightarrow> pt_operationKey x = pt_operationKey r \<and> pt_conflict x = pt_conflict r \<and> pt_intent x = pt_intent r"

definition grows :: "tx_input option \<Rightarrow> pending_tx list \<Rightarrow> pending_tx list \<Rightarrow> bool" where
  "grows i rs rs' \<longleftrightarrow> (\<forall>x\<in>set rs'. (\<exists>r\<in>set rs. same_claim r x)
     \<or> (\<exists>j. i = Some j \<and> pt_operationKey x = ti_operationKey j \<and> pt_conflict x = ti_conflict j \<and> pt_intent x = ti_intent j))"

text \<open>The journal as the page sees it, and as it will be when the page is loaded again.\<close>

definition journal_ok :: "tx_wallet \<Rightarrow> string \<Rightarrow> tx_storage \<Rightarrow> pending_tx list \<Rightarrow> bool" where
  "journal_ok W account s rs \<longleftrightarrow> journal_is W account s rs \<and> distinct (map pt_conflict rs)
     \<and> (\<exists>rs0. journal_is W account (reloaded s) rs0 \<and> distinct (map pt_conflict rs0))"

lemma write_ok:
  assumes "journal_ok W account s rs0" and "list_all tx_ok rs" and "distinct (map pt_operationKey rs)" and "distinct (map pt_conflict rs)"
  shows "journal_ok W account (write_pending W ok account rs s) rs"
proof -
  obtain kept where kept: "journal_is W account (reloaded s) kept" "distinct (map pt_conflict kept)"
    using assms(1) by (auto simp: journal_ok_def)
  have "journal_is W account s rs0" using assms(1) by (simp add: journal_ok_def)
  then have "journal_is W account (write_pending W ok account rs s) rs" by (rule write_is [OF _ assms(2,3)])
  moreover have "\<exists>rs0. journal_is W account (reloaded (write_pending W ok account rs s)) rs0 \<and> distinct (map pt_conflict rs0)"
    using kept assms(4) write_is [OF kept(1) assms(2,3), of True] by (cases ok) (auto simp: reloaded_write)
  ultimately show ?thesis using assms(4) by (simp add: journal_ok_def)
qed

lemma reload_ok: "journal_ok W account s rs \<Longrightarrow> \<exists>rs0. journal_ok W account (reloaded s) rs0"
  by (auto simp: journal_ok_def reloaded_recovery)

lemma grows_refl: "grows i rs rs"
  by (auto simp: grows_def same_claim_def)

lemma journal_okD: "journal_ok W account s rs \<Longrightarrow> journal_is W account s rs \<and> list_all tx_ok rs \<and> distinct (map pt_operationKey rs) \<and> distinct (map pt_conflict rs)"
  by (simp add: journal_ok_def journal_is_def)

lemma pending_ok: "journal_ok W account s rs \<Longrightarrow> pending_of W ok now account s = Inr (s, rs)"
  by (simp add: journal_ok_def journal_is_def)

lemma filter_ok:
  assumes "journal_ok W account s rs"
  shows "journal_ok W account (write_pending W ok account (filter P rs) s) (filter P rs) \<and> grows i rs (filter P rs)"
proof -
  note ok = journal_okD [OF assms]
  have "journal_ok W account (write_pending W ok account (filter P rs) s) (filter P rs)"
    using ok by (intro write_ok [OF assms]) (auto simp: list_all_iff distinct_map_filter)
  then show ?thesis by (auto simp: grows_def same_claim_def)
qed

lemma remove_ok:
  assumes "journal_ok W account s rs"
  obtains s' where "removePending W ok now account op s = Inr s'" "journal_ok W account s' (filter (\<lambda>x. pt_operationKey x \<noteq> op) rs)"
    "grows i rs (filter (\<lambda>x. pt_operationKey x \<noteq> op) rs)"
  using filter_ok [OF assms, of ok "\<lambda>x. pt_operationKey x \<noteq> op" i] by (simp add: removePending_def pending_ok [OF assms])

text \<open>Putting a record in the place of those of its operation.\<close>

lemma put_ok:
  assumes ok: "journal_ok W account s rs" and r: "tx_ok r"
    and free: "\<forall>x\<in>set rs. pt_operationKey x \<noteq> pt_operationKey r \<longrightarrow> pt_conflict x \<noteq> pt_conflict r"
  obtains s' where "replacePending W ok' now account r s = Inr s'"
    "journal_ok W account s' (filter (\<lambda>x. pt_operationKey x \<noteq> pt_operationKey r) rs @ [r])"
proof -
  let ?rs = "filter (\<lambda>x. pt_operationKey x \<noteq> pt_operationKey r) rs @ [r]"
  note j = journal_okD [OF ok]
  have "distinct (map pt_conflict ?rs)" using j free by (auto simp: distinct_map_filter)
  then have "journal_ok W account (write_pending W ok' account ?rs s) ?rs"
    using j r by (intro write_ok [OF ok]) (auto simp: list_all_iff distinct_map_filter)
  then show thesis
    using that [of "write_pending W ok' account ?rs s"] by (simp add: replacePending_def pending_ok [OF ok])
qed

text \<open>A record that the browser refused to store is followed until the page is loaded again, and unknown afterwards.\<close>

lemma refused_write_lost:
  assumes "journal_ok W account s rs" and "replacePending W False now account r s = Inr s'"
  shows "reloaded s' = reloaded s"
  using assms by (simp add: replacePending_def pending_ok [OF assms(1)] reloaded_write)
    (metis reloaded_write)

lemma update_ok:
  assumes ok: "journal_ok W account s rs" and f: "\<And>r x. r \<in> set rs \<Longrightarrow> f r = Some x \<Longrightarrow> tx_ok r \<Longrightarrow> tx_ok x \<and> same_claim r x"
  obtains s' rs' where "update_record W ok' now account P f s = Inr s'" "journal_ok W account s' rs'" "grows i rs rs'"
proof (cases "Option.bind (find P rs) f")
  case None
  then have "update_record W ok' now account P f s = Inr s" by (simp add: update_record_def pending_ok [OF ok])
  then show thesis using that ok grows_refl by blast
next
  case (Some x)
  then obtain r where r: "find P rs = Some r" "f r = Some x" by (auto simp: bind_eq_Some_conv)
  have j: "list_all tx_ok rs" "distinct (map pt_operationKey rs)" "distinct (map pt_conflict rs)" "journal_is W account s rs"
    using journal_okD [OF ok] by simp_all
  have mem: "r \<in> set rs" using r(1) by (auto simp: find_Some_iff)
  then have "tx_ok r" using j(1) unfolding list_all_iff by blast
  then have x: "tx_ok x" "same_claim r x" using f [OF mem r(2)] by simp_all
  have "\<forall>y\<in>set rs. pt_operationKey y \<noteq> pt_operationKey x \<longrightarrow> pt_conflict y \<noteq> pt_conflict x"
    using x(2) mem j(3) by (auto simp: same_claim_def distinct_map inj_on_def)
  then obtain s' where s': "replacePending W ok' now account x s = Inr s'"
    "journal_ok W account s' (filter (\<lambda>y. pt_operationKey y \<noteq> pt_operationKey x) rs @ [x])"
    using put_ok [OF ok x(1)] by blast
  moreover have "grows i rs (filter (\<lambda>y. pt_operationKey y \<noteq> pt_operationKey x) rs @ [x])"
    using mem x(2) by (auto simp: grows_def same_claim_def)
  ultimately show thesis using that r by (simp add: update_record_def pending_ok [OF ok])
qed

section \<open>One outstanding transaction per conflict key\<close>

text \<open>No record stands in the way of an input, or only records of the same transaction.\<close>

definition clear :: "tx_input \<Rightarrow> pending_tx list \<Rightarrow> bool" where
  "clear i rs \<longleftrightarrow> (\<forall>r\<in>set rs. pt_conflict r \<noteq> ti_conflict i \<and> pt_operationKey r \<noteq> ti_operationKey i)"

definition owned :: "tx_input \<Rightarrow> pending_tx list \<Rightarrow> bool" where
  "owned i rs \<longleftrightarrow> (\<forall>r\<in>set rs. pt_conflict r = ti_conflict i \<or> pt_operationKey r = ti_operationKey i
     \<longrightarrow> pt_intent r = ti_intent i \<or> pt_operationKey r = ti_operationKey i)"

fun pc_ok :: "tx_input \<Rightarrow> tx_pc \<Rightarrow> pending_tx list \<Rightarrow> bool" where
  "pc_ok i (Simulating approval) rs = clear i rs"
| "pc_ok i (Signing approval) rs = clear i rs"
| "pc_ok i Confirming rs = True"
| "pc_ok i _ rs = owned i rs"

definition tasks_ok :: "string \<Rightarrow> pending_tx list \<Rightarrow> (string \<times> tx_task) list \<Rightarrow> bool" where
  "tasks_ok account rs ts \<longleftrightarrow> distinct (map fst ts) \<and> distinct (map (\<lambda>p. ti_conflict (tt_input (snd p))) ts)
     \<and> (\<forall>(op, t)\<in>set ts. op = ti_operationKey (tt_input t) \<and> input_ok account (tt_input t) \<and> pc_ok (tt_input t) (tt_pc t) rs)"

definition tx_inv :: "int option \<Rightarrow> string \<Rightarrow> tx_state \<Rightarrow> bool" where
  "tx_inv chain account st \<longleftrightarrow> (\<exists>rs. (\<forall>W. tw_chain W = chain \<longrightarrow> journal_ok W account (xs_storage st) rs) \<and> tasks_ok account rs (xs_inflight st))"

lemma journal_ok_chain: "tw_chain W = tw_chain W' \<Longrightarrow> journal_ok W account s rs \<Longrightarrow> journal_ok W' account s rs"
  by (simp add: journal_ok_def journal_is_def pending_of_def)

lemma tx_invI: "journal_ok W account (xs_storage st) rs \<Longrightarrow> tasks_ok account rs (xs_inflight st) \<Longrightarrow> tx_inv (tw_chain W) account st"
  unfolding tx_inv_def using journal_ok_chain by metis

lemma tx_invD: "tx_inv (tw_chain W) account st \<Longrightarrow> \<exists>rs. journal_ok W account (xs_storage st) rs \<and> tasks_ok account rs (xs_inflight st)"
  unfolding tx_inv_def by blast

lemma clear_owned: "clear i rs \<Longrightarrow> owned i rs"
  by (auto simp: clear_def owned_def)

lemma grows_clear:
  assumes "grows j rs rs'" and "\<forall>k. j = Some k \<longrightarrow> ti_operationKey k \<noteq> ti_operationKey i \<and> ti_conflict k \<noteq> ti_conflict i"
  shows "clear i rs \<Longrightarrow> clear i rs'" and "owned i rs \<Longrightarrow> owned i rs'"
  using assms unfolding grows_def clear_def owned_def same_claim_def by (metis (no_types, lifting))+

lemma grows_pc:
  assumes "grows j rs rs'" and "\<forall>k. j = Some k \<longrightarrow> ti_operationKey k \<noteq> ti_operationKey i \<and> ti_conflict k \<noteq> ti_conflict i"
    and "pc_ok i pc rs"
  shows "pc_ok i pc rs'"
  using assms(3) grows_clear [OF assms(1,2)] by (cases pc) auto

lemma grows_owned: "grows (Some i) rs rs' \<Longrightarrow> owned i rs \<Longrightarrow> owned i rs'"
  unfolding grows_def owned_def same_claim_def by (metis (no_types, lifting) option.inject)

text \<open>Changes outside the transactions.\<close>

lemma tasks_grow:
  assumes "tasks_ok account rs ts" and "grows None rs rs'"
  shows "tasks_ok account rs' ts"
  using assms grows_pc [OF assms(2)] by (fastforce simp: tasks_ok_def)

text \<open>What a transaction finds when it starts.\<close>

lemma begin_ok:
  assumes "begin_task W i rs = Inr t" and unique: "distinct (map pt_operationKey rs)" shows "tt_input t = i \<and> pc_ok i (tt_pc t) rs"
proof -
  define exact where "exact = find (\<lambda>r. pt_operationKey r = ti_operationKey i) rs"
  define unresolved where "unresolved = (case exact of Some r \<Rightarrow> Some r | None \<Rightarrow> find (\<lambda>r. pt_intent r = ti_intent i) rs)"
  have t: "t = \<lparr>tt_input = i, tt_unresolved = map_option (\<lambda>r. (pt_operationKey r, pt_approval r)) unresolved,
      tt_pc = (if unresolved = None then Preflight else Recovering)\<rparr>"
    and none: "find (\<lambda>r. pt_conflict r = ti_conflict i \<and> Some (pt_operationKey r) \<noteq> map_option pt_operationKey unresolved) rs = None"
    using assms unfolding begin_task_def Let_def exact_def [symmetric] unresolved_def [symmetric]
    by (auto split: if_splits option.splits)
  have "owned i rs" unfolding owned_def
  proof (intro ballI impI)
    fix r
    assume r: "r \<in> set rs" "pt_conflict r = ti_conflict i \<or> pt_operationKey r = ti_operationKey i"
    show "pt_intent r = ti_intent i \<or> pt_operationKey r = ti_operationKey i"
    proof (cases "pt_operationKey r = ti_operationKey i")
      case False
      then have "Some (pt_operationKey r) = map_option pt_operationKey unresolved" using r none by (auto simp: find_None_iff)
      then obtain u where u: "unresolved = Some u" "pt_operationKey u = pt_operationKey r" by (cases unresolved) auto
      show ?thesis
      proof (cases exact)
        case None
        then have "find (\<lambda>r. pt_intent r = ti_intent i) rs = Some u" using u(1) by (simp add: unresolved_def)
        then have "u \<in> set rs" "pt_intent u = ti_intent i" by (auto simp: find_Some_iff)
        then show ?thesis using r(1) u(2) unique by (auto simp: distinct_map inj_on_def)
      next
        case (Some e)
        then have "pt_operationKey e = ti_operationKey i" by (auto simp: exact_def find_Some_iff)
        then show ?thesis using Some u False by (simp add: unresolved_def)
      qed
    qed simp
  qed
  then show ?thesis by (simp add: t)
qed

text \<open>Sending takes up the record of the transaction, or there is none and nothing is in its way.\<close>

lemma find_pending_clear: "owned i rs \<Longrightarrow> find_pending i rs = None \<Longrightarrow> clear i rs"
  by (auto simp: find_pending_def owned_def clear_def find_None_iff split: option.splits)

text \<open>What a step of a transaction gives: a well-formed journal in which only this transaction may have a new record.\<close>

definition good_step :: "tx_wallet \<Rightarrow> string \<Rightarrow> tx_input \<Rightarrow> pending_tx list \<Rightarrow> tx_storage \<times> outcome \<Rightarrow> bool" where
  "good_step W account i rs r \<longleftrightarrow> (\<exists>rs'. journal_ok W account (fst r) rs' \<and> grows (Some i) rs rs'
     \<and> (case snd r of Continue pc \<Rightarrow> pc_ok i pc rs' | Finish _ \<Rightarrow> True))"

lemma good_same: "journal_ok W account s rs \<Longrightarrow> (case out of Continue pc \<Rightarrow> pc_ok i pc rs | Finish _ \<Rightarrow> True) \<Longrightarrow> good_step W account i rs (s, out)"
  unfolding good_step_def using grows_refl by fastforce

lemma good_checked: "journal_ok W account s rs \<Longrightarrow> good_step W account i rs k \<Longrightarrow> good_step W account i rs (checked r s k)"
  by (cases r) (auto simp: checked_def intro: good_same)

lemma good_grown: "journal_ok W account s' rs' \<Longrightarrow> grows (Some i) rs rs' \<Longrightarrow> (case out of Continue pc \<Rightarrow> pc_ok i pc rs' | Finish _ \<Rightarrow> True)
  \<Longrightarrow> good_step W account i rs (s', out)"
  unfolding good_step_def by fastforce

lemma good_begin:
  assumes "journal_ok W account s rs" and "owned i rs" and "ti_account i = account"
  shows "good_step W account i rs (begin_send W ok now i approval s)"
  using assms by (cases "find_pending i rs") (auto simp: begin_send_def pending_ok find_pending_clear intro!: good_same)

lemma new_pending_ok: "input_ok account i \<Longrightarrow> is_hex 64 h \<Longrightarrow> tx_ok (new_pending i approval h created now)"
  by (simp add: input_ok_def new_pending_def tx_ok_def is_number_def tx_stages_def)

lemma good_answered:
  assumes "journal_ok W account s rs" and "clear i rs" and "input_ok account i" and "answer_ok (SignatureAnswer a created)"
  shows "good_step W account i rs (answered W ok now i approval created a s)"
proof (cases a)
  case (Signed h)
  let ?r = "new_pending i approval h created now"
  have r: "pt_operationKey ?r = ti_operationKey i" "pt_conflict ?r = ti_conflict i" "pt_intent ?r = ti_intent i" by (simp_all add: new_pending_def)
  have free: "\<forall>x\<in>set rs. pt_operationKey x \<noteq> pt_operationKey ?r \<longrightarrow> pt_conflict x \<noteq> pt_conflict ?r" using assms(2) r by (simp add: clear_def)
  have "tx_ok ?r" using assms(3,4) Signed by (intro new_pending_ok) (simp_all add: answer_ok_def)
  then obtain s' where s': "replacePending W ok now account ?r s = Inr s'"
    "journal_ok W account s' (filter (\<lambda>x. pt_operationKey x \<noteq> pt_operationKey ?r) rs @ [?r])"
    using put_ok [OF assms(1) _ free] by blast
  have g: "grows (Some i) rs (filter (\<lambda>x. pt_operationKey x \<noteq> pt_operationKey ?r) rs @ [?r])"
    using r by (auto simp: grows_def same_claim_def)
  have "owned i (filter (\<lambda>x. pt_operationKey x \<noteq> pt_operationKey ?r) rs @ [?r])"
    using assms(2) r by (auto simp: clear_def owned_def)
  then show ?thesis using s' g assms(3) Signed by (simp add: answered_def stored_or_def input_ok_def good_grown)
qed (auto simp: answered_def intro!: good_same assms(1))

lemma replaced_ok: "answer_ok (ReplacedAnswer h reason) \<Longrightarrow> tx_ok r \<Longrightarrow> tx_ok (replaced_record h reason now r) \<and> same_claim r (replaced_record h reason now r)"
  by (auto simp: tx_ok_def same_claim_def replaced_record_def answer_ok_def is_number_def tx_stages_def split: option.splits)

lemma replace_ok:
  assumes "journal_ok W account s rs" and "answer_ok (ReplacedAnswer h reason)"
  obtains s' rs' where "update_record W ok now account P (\<lambda>r. Some (replaced_record h reason now r)) s = Inr s'"
    "journal_ok W account s' rs'" "grows i rs rs'"
proof (rule update_ok [OF assms(1)])
  show "tx_ok x \<and> same_claim r x" if "Some (replaced_record h reason now r) = Some x" "tx_ok r" for r x
    using that replaced_ok [OF assms(2)] by blast
qed (rule that)

lemma good_replaced:
  assumes "journal_ok W account s rs" and "owned i rs" and "ti_account i = account" and "answer_ok (ReplacedAnswer h reason)"
  shows "good_step W account i rs (replaced W ok now i approval op h reason s)"
proof -
  obtain s' rs' where "update_record W ok now account (\<lambda>r. pt_operationKey r = op) (\<lambda>r. Some (replaced_record h reason now r)) s = Inr s'"
    "journal_ok W account s' rs'" "grows (Some i) rs rs'" by (rule replace_ok [OF assms(1,4)])
  then show ?thesis using assms(2,3) by (simp add: replaced_def good_grown grows_owned)
qed

lemma unknown_ok:
  assumes "(if pt_stage r = Some ''replaced'' then None else Some (r\<lparr>pt_stage := Some ''unknown'', pt_updatedAt := JNumber now\<rparr>)) = Some x" and "tx_ok r"
  shows "tx_ok x \<and> same_claim r x"
  using assms by (auto simp: tx_ok_def same_claim_def is_number_def tx_stages_def split: if_splits)

lemma good_receipt_error:
  assumes "journal_ok W account s rs" and "ti_account i = account"
  shows "good_step W account i rs (receipt_error W ok now i op h timeout s)"
proof -
  obtain s' rs' where "update_record W ok now account (\<lambda>r. pt_operationKey r = op) (\<lambda>r. if pt_stage r = Some ''replaced'' then None
      else Some (r\<lparr>pt_stage := Some ''unknown'', pt_updatedAt := JNumber now\<rparr>)) s = Inr s'"
    "journal_ok W account s' rs'" "grows (Some i) rs rs'" by (rule update_ok [OF assms(1)]) (rule unknown_ok)
  then show ?thesis using assms(2) by (simp add: receipt_error_def stored_or_def good_grown)
qed

lemma good_received:
  assumes "journal_ok W account s rs" and "owned i rs" and "ti_account i = account"
  shows "good_step W account i rs (receipt_received W ok now i approval op cancelled success s)"
proof -
  obtain s' where s': "removePending W ok now account op s = Inr s'" "journal_ok W account s' (filter (\<lambda>x. pt_operationKey x \<noteq> op) rs)"
    "grows (Some i) rs (filter (\<lambda>x. pt_operationKey x \<noteq> op) rs)" by (rule remove_ok [OF assms(1)])
  have o: "owned i (filter (\<lambda>x. pt_operationKey x \<noteq> op) rs)" using assms(2) by (auto simp: owned_def)
  show ?thesis
  proof (cases "cancelled \<or> \<not> success \<or> approval")
    case True
    then show ?thesis using s'(1) assms(3) o good_grown [OF s'(2,3)] by (simp add: receipt_received_def stored_or_def)
  next
    case False
    then show ?thesis using good_same [OF assms(1)] by (simp add: receipt_received_def stored_or_def)
  qed
qed

lemma good_confirmed:
  assumes "journal_ok W account s rs" and "ti_account i = account"
  shows "good_step W account i rs (confirmed W ok now i unresolved success s)"
proof -
  define op where "op = (case unresolved of None \<Rightarrow> ti_operationKey i | Some (op, _) \<Rightarrow> op)"
  obtain s' where s': "removePending W ok now account op s = Inr s'" "journal_ok W account s' (filter (\<lambda>x. pt_operationKey x \<noteq> op) rs)"
    "grows (Some i) rs (filter (\<lambda>x. pt_operationKey x \<noteq> op) rs)" by (rule remove_ok [OF assms(1)])
  show ?thesis
  proof (cases success)
    case True
    then show ?thesis using s'(1) assms(2) good_grown [OF s'(2,3)] by (simp add: confirmed_def Let_def flip: op_def)
  qed (simp add: confirmed_def Let_def good_same [OF assms(1)])
qed

lemma good_advance:
  assumes ok: "journal_ok W account s rs" and i: "input_ok account (tt_input t)" and pc: "pc_ok (tt_input t) (tt_pc t) rs"
    and a: "answer_ok a" and step: "advance W ok' now t a s = Some r"
  shows "good_step W account (tt_input t) rs r"
proof -
  have account: "ti_account (tt_input t) = account" using i by (simp add: input_ok_def)
  show ?thesis
  proof (cases "tt_pc t")
    case Preflight
    then show ?thesis using step pc account ok by (cases a) (auto simp: advance_def Let_def intro!: good_checked good_begin)
  next
    case Recovering
    then show ?thesis using step pc account ok by (cases a) (auto simp: advance_def Let_def intro!: good_checked good_begin)
  next
    case (Simulating approval)
    then show ?thesis using step pc ok by (cases a) (auto simp: advance_def Let_def intro!: good_checked good_same split: if_splits)
  next
    case (Signing approval)
    then show ?thesis using step pc i a ok by (cases a) (auto simp: advance_def Let_def intro!: good_answered)
  next
    case (Waiting approval op h cancelled)
    then show ?thesis using step pc account a ok
      by (cases a) (auto simp: advance_def Let_def intro!: good_replaced good_receipt_error good_received)
  next
    case AfterApproval
    then show ?thesis using step pc account ok by (cases a) (auto simp: advance_def Let_def intro!: good_checked good_begin)
  next
    case Confirming
    then show ?thesis using step account ok by (cases a) (auto simp: advance_def Let_def intro!: good_confirmed)
  qed
qed

text \<open>The other transactions are not disturbed, since they have other operations and other conflict keys.\<close>

lemma others_ok:
  assumes tasks: "tasks_ok account rs ts" and t: "(op, t) \<in> set ts" and g: "grows (Some (tt_input t)) rs rs'"
    and t': "(o', t') \<in> set ts" "o' \<noteq> op"
  shows "o' = ti_operationKey (tt_input t') \<and> input_ok account (tt_input t') \<and> pc_ok (tt_input t') (tt_pc t') rs'"
proof -
  have keys: "distinct (map (\<lambda>p. ti_conflict (tt_input (snd p))) ts)" using tasks by (simp add: tasks_ok_def)
  have o: "op = ti_operationKey (tt_input t)" "o' = ti_operationKey (tt_input t')" "input_ok account (tt_input t')" "pc_ok (tt_input t') (tt_pc t') rs"
    using tasks t t'(1) by (auto simp: tasks_ok_def)
  have "ti_conflict (tt_input t') \<noteq> ti_conflict (tt_input t)" using keys t t' by (force simp: distinct_map inj_on_def)
  then have "\<forall>k. Some (tt_input t) = Some k \<longrightarrow> ti_operationKey k \<noteq> ti_operationKey (tt_input t') \<and> ti_conflict k \<noteq> ti_conflict (tt_input t')"
    using o t'(2) by simp
  then show ?thesis using o(2,3) grows_pc [OF g _ o(4)] by blast
qed

lemma tasks_continue:
  assumes tasks: "tasks_ok account rs ts" and t: "(op, t) \<in> set ts" and g: "grows (Some (tt_input t)) rs rs'" and pc: "pc_ok (tt_input t) pc rs'"
  shows "tasks_ok account rs' (map (\<lambda>p. if fst p = op then (op, t\<lparr>tt_pc := pc\<rparr>) else p) ts)"
proof -
  let ?f = "\<lambda>p. if fst p = op then (op, t\<lparr>tt_pc := pc\<rparr>) else p"
  have fsts: "distinct (map fst ts)" and keys: "distinct (map (\<lambda>p. ti_conflict (tt_input (snd p))) ts)" using tasks by (simp_all add: tasks_ok_def)
  have same: "p = (op, t)" if "p \<in> set ts" "fst p = op" for p using that t fsts by (auto simp: distinct_map inj_on_def)
  have "map (fst \<circ> ?f) ts = map fst ts" by (rule map_cong) auto
  then have "distinct (map (fst \<circ> ?f) ts)" using fsts by (simp only:)
  moreover have "map ((\<lambda>p. ti_conflict (tt_input (snd p))) \<circ> ?f) ts = map (\<lambda>p. ti_conflict (tt_input (snd p))) ts"
    by (rule map_cong) (auto dest: same)
  then have "distinct (map ((\<lambda>p. ti_conflict (tt_input (snd p))) \<circ> ?f) ts)" using keys by (simp only:)
  moreover have "o' = ti_operationKey (tt_input t') \<and> input_ok account (tt_input t') \<and> pc_ok (tt_input t') (tt_pc t') rs'"
    if "(o', t') \<in> set (map ?f ts)" for o' t'
  proof (cases "o' = op")
    case True
    then have "t' = t\<lparr>tt_pc := pc\<rparr>" using that by (auto split: if_splits)
    then show ?thesis using True tasks t pc by (auto simp: tasks_ok_def)
  next
    case False
    then have "(o', t') \<in> set ts" using that by (auto split: if_splits)
    then show ?thesis using others_ok [OF tasks t g _ False] by blast
  qed
  ultimately show ?thesis unfolding tasks_ok_def map_map by blast
qed

lemma tasks_finish:
  assumes tasks: "tasks_ok account rs ts" and t: "(op, t) \<in> set ts" and g: "grows (Some (tt_input t)) rs rs'"
  shows "tasks_ok account rs' (filter (\<lambda>p. fst p \<noteq> op) ts)"
  using tasks others_ok [OF tasks t g] by (auto simp: tasks_ok_def distinct_map_filter)

lemma settle_ok:
  assumes tasks: "tasks_ok account rs (xs_inflight st)" and t: "map_of (xs_inflight st) op = Some t"
    and good: "good_step W account (tt_input t) rs r"
  shows "tx_inv (tw_chain W) account (settle op t r st)"
proof -
  obtain rs' where rs': "journal_ok W account (fst r) rs'" "grows (Some (tt_input t)) rs rs'"
    "case snd r of Continue pc \<Rightarrow> pc_ok (tt_input t) pc rs' | Finish _ \<Rightarrow> True" using good unfolding good_step_def by blast
  have mem: "(op, t) \<in> set (xs_inflight st)" using t by (rule map_of_SomeD)
  show ?thesis
  proof (cases "snd r")
    case (Continue pc)
    then show ?thesis using rs' tasks_continue [OF tasks mem rs'(2)] by (cases r) (auto simp: settle_def intro!: tx_invI)
  next
    case (Finish e)
    then show ?thesis using rs' tasks_finish [OF tasks mem rs'(2)] by (cases r) (auto simp: settle_def intro!: tx_invI)
  qed
qed

lemma execute_ok:
  assumes inv: "tx_inv (tw_chain W) account st" and i: "input_ok account i"
  shows "tx_inv (tw_chain W) account (execute W ok now i st)"
proof -
  obtain rs where rs: "journal_ok W account (xs_storage st) rs" "tasks_ok account rs (xs_inflight st)" using tx_invD [OF inv] by blast
  have p: "pending_of W ok now (ti_account i) (xs_storage st) = Inr (xs_storage st, rs)" using pending_ok [OF rs(1)] i by (simp add: input_ok_def)
  show ?thesis
  proof (cases "ti_operationKey i \<in> fst ` set (xs_inflight st) \<or> list_ex (\<lambda>(_, t). ti_conflict (tt_input t) = ti_conflict i) (xs_inflight st)")
    case True
    then show ?thesis using inv by (auto simp: execute_def)
  next
    case False
    show ?thesis
    proof (cases "begin_task W i rs")
      case (Inl e)
      then have "execute W ok now i st = st" using False p by (simp add: execute_def)
      then show ?thesis using inv by simp
    next
      case (Inr t)
      then have t: "tt_input t = i" "pc_ok i (tt_pc t) rs" using begin_ok [OF Inr] journal_okD [OF rs(1)] by simp_all
      have "tasks_ok account rs (xs_inflight st @ [(ti_operationKey i, t)])"
        using rs(2) False i t by (auto simp: tasks_ok_def list_ex_iff image_iff)
      then show ?thesis using Inr False p rs(1) by (auto simp: execute_def intro!: tx_invI)
    qed
  qed
qed

text \<open>Every step keeps the invariant.\<close>

lemma outside_ok:
  assumes "tasks_ok account rs (xs_inflight st)" and "journal_ok W account s' rs'" and "grows None rs rs'"
  shows "tx_inv (tw_chain W) account (st\<lparr>xs_storage := s'\<rparr>)"
  using tasks_grow [OF assms(1,3)] assms(2) by (auto intro!: tx_invI)

lemma nonce_ok:
  assumes "(if 0 \<le> nonce \<and> nonce \<le> MAX_SAFE \<and> (pt_nonce r = None \<or> pt_nonce r = Some nonce) then Some (r\<lparr>pt_nonce := Some nonce\<rparr>) else None) = Some x"
    and "tx_ok r"
  shows "tx_ok x \<and> same_claim r x"
  using assms by (auto simp: tx_ok_def same_claim_def split: if_splits)

lemma tx_step_ok:
  assumes "tx_step chain account st st'" and "tx_inv chain account st"
  shows "tx_inv chain account st'"
  using assms
proof (induction rule: tx_step.induct)
  case (tx_execute W i st ok now)
  then show ?case using execute_ok by blast
next
  case (tx_answer W st op t a ok now r)
  then obtain rs where rs: "journal_ok W account (xs_storage st) rs" "tasks_ok account rs (xs_inflight st)" using tx_invD by blast
  then have "input_ok account (tt_input t)" "pc_ok (tt_input t) (tt_pc t) rs"
    using map_of_SomeD [OF tx_answer(2)] by (auto simp: tasks_ok_def)
  then have "good_step W account (tt_input t) rs r" using good_advance [OF rs(1) _ _ tx_answer(3,4)] by blast
  then show ?case using settle_ok [OF rs(2) tx_answer(2)] tx_answer(1) by blast
next
  case (tx_nonce W ok now op hash nonce st s')
  then obtain rs where rs: "journal_ok W account (xs_storage st) rs" "tasks_ok account rs (xs_inflight st)" using tx_invD by blast
  obtain s'' rs' where u: "rememberPendingNonce W ok now account op hash nonce (xs_storage st) = Inr s''" "journal_ok W account s'' rs'" "grows None rs rs'"
    unfolding rememberPendingNonce_def by (rule update_ok [OF rs(1)]) (rule nonce_ok)
  then show ?case using outside_ok [OF rs(2) u(2,3)] tx_nonce(1,2) by auto
next
  case (tx_late W hash reason ok now op st s')
  then obtain rs where rs: "journal_ok W account (xs_storage st) rs" "tasks_ok account rs (xs_inflight st)" using tx_invD by blast
  obtain s'' rs' where u: "update_record W ok now account (\<lambda>r. pt_operationKey r = op) (\<lambda>r. Some (replaced_record hash reason now r)) (xs_storage st) = Inr s''"
    "journal_ok W account s'' rs'" "grows None rs rs'" by (rule replace_ok [OF rs(1) tx_late(2)])
  then show ?case using outside_ok [OF rs(2) u(2,3)] tx_late(1,3) by auto
next
  case (tx_retire W ok now op hash st st')
  then obtain rs where rs: "journal_ok W account (xs_storage st) rs" "tasks_ok account rs (xs_inflight st)" using tx_invD by blast
  obtain s'' where u: "removePending W ok now account op (xs_storage st) = Inr s''" "journal_ok W account s'' (filter (\<lambda>x. pt_operationKey x \<noteq> op) rs)"
    "grows None rs (filter (\<lambda>x. pt_operationKey x \<noteq> op) rs)" by (rule remove_ok [OF rs(1)])
  have "st' = st \<or> st' = st\<lparr>xs_storage := s''\<rparr>"
    using tx_retire(2) u(1) by (auto simp: retirePending_def pending_ok [OF rs(1)] split: option.splits if_splits)
  then show ?case using outside_ok [OF rs(2) u(2,3)] tx_retire(1,3) by auto
next
  case (tx_reconcile W ok now settled st s')
  then obtain rs where rs: "journal_ok W account (xs_storage st) rs" "tasks_ok account rs (xs_inflight st)" using tx_invD by blast
  show ?case
  proof (cases "settled = []")
    case True
    then have "st\<lparr>xs_storage := s'\<rparr> = st" using tx_reconcile(2) by (simp add: reconcileSettled_def)
    then show ?thesis using tx_reconcile(3) by simp
  next
    case False
    let ?rs = "filter (\<lambda>r. (pt_operationKey r, pt_hash r) \<notin> set settled) rs"
    have "s' = write_pending W ok account ?rs (xs_storage st)"
      using tx_reconcile(2) False by (simp add: reconcileSettled_def pending_ok [OF rs(1)])
    moreover have "journal_ok W account (write_pending W ok account ?rs (xs_storage st)) ?rs" "grows None rs ?rs" using filter_ok [OF rs(1)] by blast+
    ultimately show ?thesis using outside_ok [OF rs(2)] tx_reconcile(1) by blast
  qed
next
  case (tx_reload st)
  define W where "W = \<lparr>tw_chain = chain, tw_account = None, tw_chainId = 0, tw_specId = []\<rparr>"
  then have W: "tw_chain W = chain" by simp
  with tx_reload obtain rs0 where "journal_ok W account (reloaded (xs_storage st)) rs0"
    using tx_invD [of W account st] reload_ok by blast
  then have "tx_inv (tw_chain W) account (st\<lparr>xs_storage := reloaded (xs_storage st), xs_inflight := []\<rparr>)"
    by (intro tx_invI) (simp_all add: tasks_ok_def)
  then show ?case by (simp only: W)
qed

lemma tx_reach_inv: "tx_reach chain account st \<Longrightarrow> tx_inv chain account st"
proof (induction rule: tx_reach.induct)
  case (tx_open W s rs)
  have "reloaded s = s" using tx_open(2) by (simp add: reloaded_def)
  then have "journal_ok W account s rs" using tx_open by (auto simp: journal_ok_def)
  then show ?case using tx_open(1) tx_invI [of W account "\<lparr>xs_storage = s, xs_inflight = []\<rparr>" rs] by (simp add: tasks_ok_def)
qed (rule tx_step_ok)

end
