(* ===== verification/Tx_Signing.thy ===== *)
theory Tx_Signing imports Tx_Exclusive begin

text \<open>
  What holds when a transaction is signed: nothing else is outstanding for its market, and everything it rests on
  was just checked.
\<close>

text \<open>C20: In every state that an account's journal and its running transactions reach, whatever order answers, failures, reloads and retirements
  come in, and whether or not the browser's storage accepts writes (a refused write is kept in memory, and lost when the page is loaded
  again, so that the journal then is the one the browser last stored): the journal reads without an error, no two of its records have the same
  operation or the same conflict key, no two running transactions have the same conflict key, and while a transaction waits
  for the wallet's signature the journal has no record of its operation or its conflict key: a second transaction of a market
  is not signed while the journal still follows one.\<close>

theorem one_outstanding_transaction:
  assumes "tx_reach chain account st" and "tw_chain W = chain"
  shows "\<exists>rs. pending_of W ok now account (xs_storage st) = Inr (xs_storage st, rs)
    \<and> distinct (map pt_operationKey rs) \<and> distinct (map pt_conflict rs)
    \<and> distinct (map (\<lambda>(op, t). ti_conflict (tt_input t)) (xs_inflight st))
    \<and> (\<forall>op t approval. (op, t) \<in> set (xs_inflight st) \<and> tt_pc t = Signing approval
        \<longrightarrow> (\<forall>r\<in>set rs. pt_operationKey r \<noteq> op \<and> pt_conflict r \<noteq> ti_conflict (tt_input t)))"
proof -
  obtain rs where rs: "journal_ok W account (xs_storage st) rs" "tasks_ok account rs (xs_inflight st)"
    using tx_reach_inv [OF assms(1)] assms(2) tx_invD by blast
  have "pt_operationKey r \<noteq> op \<and> pt_conflict r \<noteq> ti_conflict (tt_input t)"
    if "(op, t) \<in> set (xs_inflight st)" "tt_pc t = Signing approval" "r \<in> set rs" for op t approval r
  proof -
    have "op = ti_operationKey (tt_input t)" "pc_ok (tt_input t) (tt_pc t) rs" using rs(2) that(1) by (auto simp: tasks_ok_def)
    then show ?thesis using that(2,3) by (simp add: clear_def)
  qed
  moreover have "distinct (map (\<lambda>(op, t). ti_conflict (tt_input t)) (xs_inflight st))"
    using rs(2) by (simp add: tasks_ok_def case_prod_unfold)
  ultimately show ?thesis using pending_ok [OF rs(1)] journal_okD [OF rs(1)] by blast
qed

definition sample_wallet :: tx_wallet where
  "sample_wallet = \<lparr>tw_chain = Some 4663, tw_account = Some ''0xA'', tw_chainId = 4663, tw_specId = ''spec''\<rparr>"

definition sample_input :: tx_input where
  "sample_input = \<lparr>ti_operationKey = ''trade:buy:m:1'', ti_scope = None, ti_account = ''0xa'', ti_specId = ''spec'', ti_revision = ''r1'',
     ti_syncStatus = ''live'', ti_direct = True, ti_intent = ''[]'', ti_approval = False, ti_quoteExpiresAt = Some 100,
     ti_hasContext = True, ti_hasRevision = True\<rparr>"

definition sample_fresh :: fresh_view where
  "sample_fresh = \<lparr>fv_now = 1, fv_wallet = sample_wallet, fv_context = Inr (), fv_revision = Inr ''r1'', fv_later = 2,
     fv_later_wallet = sample_wallet, fv_again = Inr ()\<rparr>"

abbreviation no_items :: tx_storage where
  "no_items \<equiv> \<lparr>tg_items = [], tg_fallback = []\<rparr>"

definition sample_task :: "tx_pc \<Rightarrow> tx_task" where
  "sample_task pc = \<lparr>tt_input = sample_input, tt_unresolved = None, tt_pc = pc\<rparr>"

definition sample_at :: "tx_pc \<Rightarrow> tx_state" where
  "sample_at pc = \<lparr>xs_storage = no_items, xs_inflight = [(''trade:buy:m:1'', sample_task pc)]\<rparr>"

lemma no_items_journal: "journal_is W account no_items []"
  by (simp add: journal_is_def pending_of_def pendingTransactions_def read_text_def recoveryRead_def)

lemma sample_starts: "execute sample_wallet True 1 sample_input \<lparr>xs_storage = no_items, xs_inflight = []\<rparr> = sample_at Preflight"
proof -
  have "pending_of sample_wallet True 1 (ti_account sample_input) no_items = Inr (no_items, [])" by (rule pending_is [OF no_items_journal])
  then show ?thesis
    by (simp add: execute_def begin_task_def Let_def) (simp add: sample_at_def sample_task_def sample_input_def)
qed

lemma sample_fresh_ok: "assertFresh sample_input phase sample_fresh = Inr ()"
proof -
  have "lower ''0xA'' = lower ''0xa''" by code_simp
  then have "connected sample_wallet (ti_account sample_input)" by (simp add: connected_def sameAddress_def sample_wallet_def sample_input_def)
  then have "assertPreflight sample_wallet now sample_input = Inr ()" if "now < 100" for now
    using that by (simp add: assertPreflight_def) (simp add: sample_wallet_def sample_input_def)
  then show ?thesis
    by (simp add: assertFresh_def sample_fresh_def check_revision_def verifyWalletContext_def) (simp add: sample_input_def)
qed

lemma sample_sends: "advance sample_wallet True 1 (sample_task Preflight) (FreshAnswer sample_fresh) no_items = Some (no_items, Continue (Simulating False))"
proof -
  have "begin_send sample_wallet True 1 sample_input (ti_approval sample_input) no_items = (no_items, Continue (Simulating False))"
    using no_items_journal [THEN pending_is] by (simp add: begin_send_def find_pending_def) (simp add: sample_input_def)
  then show ?thesis by (simp add: advance_def Let_def sample_task_def checked_def sample_fresh_ok)
qed

lemma sample_signs: "advance sample_wallet True 1 (sample_task (Simulating False)) (SimulationAnswer True sample_fresh) no_items
    = Some (no_items, Continue (Signing False))"
  by (simp add: advance_def Let_def sample_task_def checked_def sample_fresh_ok)

lemma sample_reach: "tx_reach (Some 4663) ''0xa'' (sample_at (Signing False))"
proof -
  have W: "tw_chain sample_wallet = Some 4663" by (simp add: sample_wallet_def)
  have "tx_reach (Some 4663) ''0xa'' \<lparr>xs_storage = no_items, xs_inflight = []\<rparr>"
    by (rule tx_open [OF W _ no_items_journal]) simp_all
  moreover have "input_ok ''0xa'' sample_input" by code_simp
  ultimately have one: "tx_reach (Some 4663) ''0xa'' (sample_at Preflight)" using tx_next tx_execute [OF W] sample_starts by metis
  have t: "map_of (xs_inflight (sample_at pc)) ''trade:buy:m:1'' = Some (sample_task pc)" "xs_storage (sample_at pc) = no_items" for pc
    by (simp_all add: sample_at_def)
  have s: "settle ''trade:buy:m:1'' (sample_task pc) (no_items, Continue pc') (sample_at pc) = sample_at pc'" for pc pc'
    by (simp add: settle_def sample_at_def sample_task_def)
  have a: "answer_ok (FreshAnswer sample_fresh)" "answer_ok (SimulationAnswer True sample_fresh)" by (simp_all add: answer_ok_def)
  have two: "tx_reach (Some 4663) ''0xa'' (sample_at (Simulating False))"
    using tx_next [OF one tx_answer [OF W t(1) a(1), unfolded t(2), OF sample_sends]] by (simp only: s)
  show ?thesis using tx_next [OF two tx_answer [OF W t(1) a(2), unfolded t(2), OF sample_signs]] by (simp only: s)
qed

lemma one_outstanding_transaction_witness:
  "tx_reach (Some 4663) ''0xa'' (sample_at (Signing False)) \<and> (\<exists>rs. pending_of sample_wallet True 1 ''0xa'' no_items = Inr (no_items, rs)
    \<and> distinct (map pt_conflict rs))"
  using one_outstanding_transaction [OF sample_reach, of sample_wallet True 1] sample_reach by (auto simp: sample_at_def sample_wallet_def)

text \<open>Only the end of a simulation leads to the signature.\<close>

lemma not_signing:
  "begin_send W ok now i approval s \<noteq> (s', Continue (Signing b))" "answered W ok now i approval created x s \<noteq> (s', Continue (Signing b))"
  "replaced W ok now i approval op hash reason s \<noteq> (s', Continue (Signing b))" "receipt_error W ok now i op hash timeout s \<noteq> (s', Continue (Signing b))"
  "receipt_received W ok now i approval op cancelled success s \<noteq> (s', Continue (Signing b))" "confirmed W ok now i u success s \<noteq> (s', Continue (Signing b))"
  by (auto simp: begin_send_def answered_def replaced_def receipt_error_def receipt_received_def confirmed_def stored_or_def Let_def
      split: sum.splits option.splits wallet_answer.splits prod.splits if_splits)

lemma checked_Continue: "checked r s k = (s', Continue pc) \<longleftrightarrow> r = Inr () \<and> k = (s', Continue pc)"
  by (cases r) (auto simp: checked_def)

lemma advance_signing:
  assumes "advance W ok now t a s = Some (s', Continue (Signing approval))"
  shows "\<exists>v phase. s' = s \<and> tt_pc t = Simulating approval \<and> a = SimulationAnswer True v \<and> assertFresh (tt_input t) phase v = Inr ()"
  using assms
  by (cases "tt_pc t"; cases a) (auto simp: advance_def Let_def not_signing checked_Continue split: if_splits)

text \<open>What \<open>assertPreflight\<close> looks at that may change: the wallet and the clock.\<close>

definition fresh_at :: "tx_wallet \<Rightarrow> int \<Rightarrow> tx_input \<Rightarrow> bool" where
  "fresh_at W now i \<longleftrightarrow> tw_chain W = Some (tw_chainId W) \<and> connected W (ti_account i) \<and> ti_specId i = tw_specId W
     \<and> (\<forall>expiry. ti_quoteExpiresAt i = Some expiry \<longrightarrow> now < expiry)"

lemma assertPreflight_fresh:
  "assertPreflight W now i = Inr () \<Longrightarrow> fresh_at W now i \<and> ti_revision i \<noteq> [] \<and> (ti_direct i \<longrightarrow> ti_hasRevision i \<and> ti_hasContext i)
    \<and> (\<not> ti_direct i \<longrightarrow> ti_syncStatus i \<noteq> ''lagging'' \<and> ti_syncStatus i \<noteq> ''unavailable'')"
  by (auto simp: assertPreflight_def fresh_at_def split: if_splits option.splits)

lemma check_revision_fresh: "check_revision i phase x = Inr () \<Longrightarrow> ti_hasRevision i \<Longrightarrow> x = Inr (ti_revision i)"
  by (auto simp: check_revision_def split: sum.splits thrown.splits if_splits)

lemma verifyWalletContext_fresh: "verifyWalletContext i x = Inr () \<Longrightarrow> ti_hasContext i \<Longrightarrow> x = Inr ()"
  by (auto simp: verifyWalletContext_def split: sum.splits thrown.splits if_splits)

lemma assertFresh_fresh:
  assumes "assertFresh i phase v = Inr ()"
  shows "assertPreflight (fv_wallet v) (fv_now v) i = Inr () \<and> assertPreflight (fv_later_wallet v) (fv_later v) i = Inr ()
    \<and> check_revision i phase (fv_revision v) = Inr () \<and> verifyWalletContext i (fv_context v) = Inr () \<and> verifyWalletContext i (fv_again v) = Inr ()"
  using assms by (auto simp: assertFresh_def bindR_eq_Inr)

text \<open>C29: A transaction is put before the wallet for its signature only right after a successful simulation and a complete check after it, during
  which time passes and the account may change: at the beginning and again at the end of that check the wallet was on the
  build's chain with the expected account, the snapshot was of the build's execution specification with a revision that is
  still current, it was neither lagging nor unavailable unless it is read directly from the chain, the quote had not
  expired, and the live wallet context held. Nothing is written.\<close>

theorem signs_only_fresh:
  assumes "advance W ok now t a s = Some (s', Continue (Signing approval))"
  shows "s' = s \<and> tt_pc t = Simulating approval \<and> (\<exists>v. a = SimulationAnswer True v
    \<and> fresh_at (fv_wallet v) (fv_now v) (tt_input t) \<and> fresh_at (fv_later_wallet v) (fv_later v) (tt_input t)
    \<and> ti_revision (tt_input t) \<noteq> [] \<and> (ti_hasRevision (tt_input t) \<longrightarrow> fv_revision v = Inr (ti_revision (tt_input t)))
    \<and> (ti_hasContext (tt_input t) \<longrightarrow> fv_context v = Inr () \<and> fv_again v = Inr ())
    \<and> (if ti_direct (tt_input t) then ti_hasRevision (tt_input t) \<and> ti_hasContext (tt_input t)
       else ti_syncStatus (tt_input t) \<noteq> ''lagging'' \<and> ti_syncStatus (tt_input t) \<noteq> ''unavailable''))"
proof -
  obtain v phase where v: "s' = s" "tt_pc t = Simulating approval" "a = SimulationAnswer True v" "assertFresh (tt_input t) phase v = Inr ()"
    using advance_signing [OF assms] by blast
  note parts = assertFresh_fresh [OF v(4)]
  have pre: "assertPreflight (fv_wallet v) (fv_now v) (tt_input t) = Inr ()" "assertPreflight (fv_later_wallet v) (fv_later v) (tt_input t) = Inr ()"
    using parts by simp_all
  have "ti_hasRevision (tt_input t) \<longrightarrow> fv_revision v = Inr (ti_revision (tt_input t))"
    "ti_hasContext (tt_input t) \<longrightarrow> fv_context v = Inr () \<and> fv_again v = Inr ()"
    using parts check_revision_fresh verifyWalletContext_fresh by blast+
  then show ?thesis using v(1-3) assertPreflight_fresh [OF pre(1)] assertPreflight_fresh [OF pre(2)] by simp
qed

lemma signs_only_fresh_witness:
  "fresh_at sample_wallet 1 sample_input \<and> advance sample_wallet True 1 (sample_task (Simulating False)) (SimulationAnswer True sample_fresh) no_items
    = Some (no_items, Continue (Signing False))"
  using signs_only_fresh [OF sample_signs] sample_signs by (auto simp: sample_fresh_def sample_task_def)

text \<open>
  A transaction that took up an approval recorded under another operation clears that operation at its end, not its own: the confirmed
  transaction's record stays in the journal.
\<close>

lemma recovered_approval_leaves_record:
  assumes "journal_ok W account s rs" and "ti_account i = account" and "r \<in> set rs" and "pt_operationKey r = ti_operationKey i" and "op \<noteq> ti_operationKey i"
  shows "\<exists>s' rs'. confirmed W ok now i (Some (op, True)) True s = (s', Finish None) \<and> journal_ok W account s' rs' \<and> r \<in> set rs'"
proof -
  obtain s' where s': "removePending W ok now account op s = Inr s'" "journal_ok W account s' (filter (\<lambda>x. pt_operationKey x \<noteq> op) rs)"
    "grows None rs (filter (\<lambda>x. pt_operationKey x \<noteq> op) rs)" by (rule remove_ok [OF assms(1)])
  have "confirmed W ok now i (Some (op, True)) True s = (s', Finish None)" using s'(1) assms(2) by (simp add: confirmed_def)
  then show ?thesis using s'(2) assms(3-5) by auto
qed

end
