(* ===== verification/Relay_Core.thy ===== *)
theory Relay_Core imports Chain_Source Chain_Reads begin

text \<open>
  The chain event relay of infra/vps/chain-event-relay/src/core.ts: its filter file, the logs of a subscription,
  the filters it subscribes with and the check it makes, and the triggers it sends to the pipeline.
\<close>

section \<open>Reading the filter and the logs\<close>

record event_filter =
  ef_chainId :: int
  ef_environment :: string
  ef_releaseId :: string
  ef_activationBlock :: int
  ef_sharedAddress :: string
  ef_swapTopic :: string
  ef_fixedAddresses :: "string list"
  ef_eventTopics :: "string list"

record source_address =
  sa_address :: string
  sa_birthBlock :: int

record pool_binding =
  pb_poolId :: string
  pb_birthBlock :: int

text \<open>\<open>record\<close> and \<open>stringArray\<close>.\<close>

definition as_record :: "json option \<Rightarrow> json res" where
  "as_record v = (case v of Some (JObject fs) \<Rightarrow> Inr (JObject fs) | _ \<Rightarrow> Inl (Error ''expected object''))"

definition is_text :: "(string \<Rightarrow> bool) \<Rightarrow> json \<Rightarrow> bool" where
  "is_text test v = (case v of JText s \<Rightarrow> test s | _ \<Rightarrow> False)"

definition stringArray :: "json option \<Rightarrow> (string \<Rightarrow> bool) \<Rightarrow> nat \<Rightarrow> string \<Rightarrow> string list res" where
  "stringArray v test maximum label = (case v of
     Some (JArray xs) \<Rightarrow> if xs = [] \<or> length xs > maximum \<or> \<not> list_all (is_text test) xs then Inl (Error (''invalid '' @ label)) else Inr (map string_of xs)
   | _ \<Rightarrow> Inl (Error (''invalid '' @ label)))"

definition filter_networks :: "(int \<times> string) list" where
  "filter_networks = [(46630, ''test''), (4663, ''production'')]"

definition filter_identity :: "json \<Rightarrow> json \<Rightarrow> event_filter option" where
  "filter_identity item shared = (case (field item ''chainId'', text_field (\<lambda>_. True) item ''environment'', text_field is_hash item ''releaseId'',
       text_field is_digits item ''activationBlock'', text_field is_address shared ''address'', text_field is_hash shared ''swapTopic'') of
     (Some (JNumber chain), Some environment, Some release, Some activation, Some address, Some swap) \<Rightarrow>
       if field item ''schema'' = Some (JText ''tickergarden.chain-event-filter.v1'') \<and> (chain, environment) \<in> set filter_networks
       then Some \<lparr>ef_chainId = chain, ef_environment = environment, ef_releaseId = release, ef_activationBlock = int (parse_nat activation),
         ef_sharedAddress = address, ef_swapTopic = swap, ef_fixedAddresses = [], ef_eventTopics = []\<rparr>
       else None
   | _ \<Rightarrow> None)"

definition parseEventFilter :: "json \<Rightarrow> event_filter res" where
  "parseEventFilter v =
     bindR (as_record (Some v)) (\<lambda>item.
     bindR (as_record (field item ''sharedPoolManager'')) (\<lambda>shared.
     case filter_identity item shared of None \<Rightarrow> Inl (Error ''invalid chain event filter identity'') | Some F \<Rightarrow>
     bindR (stringArray (field item ''fixedAddresses'') is_address 1000 ''fixed addresses'') (\<lambda>addresses.
     bindR (stringArray (field item ''eventTopics'') is_hash 1000 ''event topics'') (\<lambda>topics.
       if \<not> distinct addresses \<or> \<not> distinct topics then Inl (Error ''duplicate chain event filter item'')
       else if ef_sharedAddress F \<notin> set addresses \<or> ef_swapTopic F \<notin> set topics then Inl (Error ''shared pool filter is outside the allowlist'')
       else Inr (F\<lparr>ef_fixedAddresses := addresses, ef_eventTopics := topics\<rparr>)))))"

text \<open>A subscription log has the fields of a stored log; the case of its digits is normalized.\<close>

definition any_byte_data :: "string \<Rightarrow> bool" where
  "any_byte_data s \<longleftrightarrow> is_byte_data (lower s)"

definition parseSubscriptionLog :: "json \<Rightarrow> chain_log res" where
  "parseSubscriptionLog v = bindR (as_record (Some v)) (\<lambda>item.
     case (text_field is_address item ''address'', text_field is_hash item ''blockHash'', text_field is_quantity item ''blockNumber'',
           text_field is_hash item ''transactionHash'', text_field is_quantity item ''transactionIndex'', text_field is_quantity item ''logIndex'',
           text_field any_byte_data item ''data'', field item ''removed'') of
       (Some address, Some block, Some number, Some transaction, Some ti, Some li, Some bytes, Some (JBool removed)) \<Rightarrow>
         bindR (stringArray (field item ''topics'') is_hash 4 ''log topics'') (\<lambda>topics.
           Inr \<lparr>lg_address = lower address, lg_blockHash = lower block, lg_blockNumber = int (parse_hex number), lg_transactionHash = lower transaction,
             lg_transactionIndex = int (parse_hex ti), lg_logIndex = int (parse_hex li), lg_data = lower bytes, lg_topics = map lower topics,
             lg_removed = removed\<rparr>)
     | _ \<Rightarrow> Inl (Error ''invalid subscription log''))"

definition eventKey :: "chain_log \<Rightarrow> string" where
  "eventKey l = event_key (lg_blockHash l) (lg_transactionHash l) (show_int (lg_logIndex l)) (lg_removed l)"

section \<open>What is subscribed and what is accepted\<close>

text \<open>
  A filter of \<open>eth_subscribe\<close> and \<open>eth_getLogs\<close>: the addresses (one may be given by itself) and, for each topic position, the
  values allowed there. \<open>log_matches\<close> is its documented meaning.
\<close>

record rpc_filter =
  rf_address :: "string list"
  rf_topics :: "string list list"

definition log_matches :: "rpc_filter \<Rightarrow> chain_log \<Rightarrow> bool" where
  "log_matches f l \<longleftrightarrow> lg_address l \<in> set (rf_address f) \<and> length (rf_topics f) \<le> length (lg_topics l)
     \<and> list_all2 (\<lambda>allowed t. t \<in> set allowed) (rf_topics f) (take (length (rf_topics f)) (lg_topics l))"

abbreviation sorted_texts :: "string list \<Rightarrow> string list" where
  "sorted_texts \<equiv> js_sort sign_cmp"

definition subscriptionParameters :: "string list \<Rightarrow> string list \<Rightarrow> rpc_filter res" where
  "subscriptionParameters addresses topics = (if addresses = [] \<or> topics = [] then Inl (Error ''subscription filter cannot be empty'')
     else Inr \<lparr>rf_address = sorted_texts addresses, rf_topics = [sorted_texts topics]\<rparr>)"

definition subscriptionFilters :: "event_filter \<Rightarrow> source_address list \<Rightarrow> pool_binding list \<Rightarrow> rpc_filter list" where
  "subscriptionFilters F sources pools =
    (let ordinaryAddresses = filter (\<lambda>a. a \<noteq> ef_sharedAddress F) (map sa_address sources);
         ordinaryTopics = filter (\<lambda>t. t \<noteq> ef_swapTopic F) (ef_eventTopics F);
         poolIds = sorted_texts (remdups (map pb_poolId pools))
     in (if ordinaryAddresses \<noteq> [] \<and> ordinaryTopics \<noteq> []
         then map (\<lambda>as. \<lparr>rf_address = as, rf_topics = [sorted_texts ordinaryTopics]\<rparr>) (chunks (sorted_texts (remdups ordinaryAddresses)) 500) else [])
      @ map (\<lambda>ids. \<lparr>rf_address = [ef_sharedAddress F], rf_topics = [[ef_swapTopic F], ids]\<rparr>) (chunks poolIds 500))"

definition matchesFilter :: "event_filter \<Rightarrow> chain_log \<Rightarrow> string set \<Rightarrow> string set \<Rightarrow> bool" where
  "matchesFilter F l addresses poolIds =
    (if lg_address l \<notin> addresses then False
     else case lg_topics l of [] \<Rightarrow> False | topic # others \<Rightarrow>
       if lg_address l = ef_sharedAddress F
       then topic = ef_swapTopic F \<and> (case others of [] \<Rightarrow> False | pool # _ \<Rightarrow> pool \<in> poolIds)
       else topic \<noteq> ef_swapTopic F \<and> topic \<in> set (ef_eventTopics F))"

text \<open>\<open>localeCompare\<close> on lowercase addresses is the order of the code units.\<close>

definition mergeSources :: "event_filter \<Rightarrow> source_address list \<Rightarrow> source_address list res" where
  "mergeSources F found =
     bindR (foldR (\<lambda>s m. if \<not> is_address (sa_address s) \<or> sa_birthBlock s < 0 then Inl (Error ''invalid dynamic source'')
         else Inr (case map_of m (sa_address s) of
             Some known \<Rightarrow> if sa_birthBlock s < sa_birthBlock known then AList.update (sa_address s) s m else m
           | None \<Rightarrow> AList.update (sa_address s) s m)) found
       (fold (\<lambda>a. AList.update a \<lparr>sa_address = a, sa_birthBlock = ef_activationBlock F\<rparr>) (ef_fixedAddresses F) []))
     (\<lambda>m. Inr (js_sort (\<lambda>a b. sign_cmp (sa_address a) (sa_address b)) (map snd m)))"

definition serializeTrigger :: "event_filter \<Rightarrow> chain_log \<Rightarrow> int \<times> string \<Rightarrow> json" where
  "serializeTrigger F l head = JObject [(''schema'', JText ''tickergarden.chain-log-trigger.v1''), (''environment'', JText (ef_environment F)),
     (''chainId'', JNumber (ef_chainId F)), (''releaseId'', JText (ef_releaseId F)),
     (''head'', JObject [(''number'', JText (show_int (fst head))), (''hash'', JText (snd head))]), (''log'', serializeLog l)]"

section \<open>Routing of calls\<close>

datatype http_kind = Transport | InvalidJson | RpcFailure | HttpRejected | HttpStatus int

definition shouldFailoverHttp :: "http_kind \<Rightarrow> bool" where
  "shouldFailoverHttp kind = (case kind of Transport \<Rightarrow> True | InvalidJson \<Rightarrow> True | HttpStatus s \<Rightarrow> s = 408 \<or> s = 429 \<or> s \<ge> 500 | _ \<Rightarrow> False)"

definition any_hex :: "string \<Rightarrow> bool" where
  "any_hex s \<longleftrightarrow> lower (take 2 s) = ''0x'' \<and> drop 2 s \<noteq> [] \<and> list_all is_hex_digit (drop 2 s)"

definition shouldRouteLargeLogRangeToFallback :: "string \<Rightarrow> json list \<Rightarrow> int \<Rightarrow> bool" where
  "shouldRouteLargeLogRangeToFallback method params maximumBlocks \<longleftrightarrow> method = ''eth_getLogs'' \<and> maximumBlocks > 0
     \<and> (case params of JObject fs # _ \<Rightarrow> (case (text_field any_hex (JObject fs) ''fromBlock'', text_field any_hex (JObject fs) ''toBlock'') of
         (Some f, Some t) \<Rightarrow> parse_hex t \<ge> parse_hex f \<and> int (parse_hex t) - int (parse_hex f) + 1 > maximumBlocks
       | _ \<Rightarrow> False) | _ \<Rightarrow> False)"

section \<open>The subscription asks for exactly what is accepted\<close>

text \<open>The addresses that are followed: those of the filter and those that were found.\<close>

definition keyed :: "(string \<times> source_address) list \<Rightarrow> bool" where
  "keyed m \<longleftrightarrow> (\<forall>(a, s)\<in>set m. sa_address s = a)"

lemma keyed_update: "keyed m \<Longrightarrow> keyed (AList.update (sa_address s) s m)"
  by (auto simp: keyed_def dest!: set_update_cases)

lemma fst_update: "fst ` set (AList.update k v m) = insert k (fst ` set m)"
  using set_keys_update [of k v m] by simp

lemma known_key: "m' = m \<and> a \<in> fst ` set m \<Longrightarrow> keyed m \<Longrightarrow> fst ` set m' = insert a (fst ` set m) \<and> keyed m'"
  by (simp add: insert_absorb)

lemma keyed_addresses: "keyed m \<Longrightarrow> sa_address ` snd ` set m = fst ` set m"
  unfolding image_image by (rule image_cong) (auto simp: keyed_def)

lemma grown: "A' = insert a A \<and> k' \<Longrightarrow> k \<and> A = X \<union> f ` set pre \<Longrightarrow> a = f s \<Longrightarrow> k' \<and> A' = X \<union> f ` set (pre @ [s])"
  by simp

lemma fixed_sources:
  "keyed m \<Longrightarrow> keyed (fold (\<lambda>a. AList.update a \<lparr>sa_address = a, sa_birthBlock = b\<rparr>) as m)
    \<and> fst ` set (fold (\<lambda>a. AList.update a \<lparr>sa_address = a, sa_birthBlock = b\<rparr>) as m) = fst ` set m \<union> set as"
proof (induction as arbitrary: m)
  case (Cons a as)
  have "keyed (AList.update a \<lparr>sa_address = a, sa_birthBlock = b\<rparr> m)"
    using keyed_update [OF Cons.prems, of "\<lparr>sa_address = a, sa_birthBlock = b\<rparr>"] by simp
  then show ?case using Cons.IH by (auto simp: fst_update)
qed simp

lemma merged_addresses:
  assumes "mergeSources F found = Inr sources"
  shows "sa_address ` set sources = set (ef_fixedAddresses F) \<union> sa_address ` set found"
proof -
  let ?step = "\<lambda>s m. if \<not> is_address (sa_address s) \<or> sa_birthBlock s < 0 then Inl (Error ''invalid dynamic source'')
         else Inr (case map_of m (sa_address s) of
             Some known \<Rightarrow> if sa_birthBlock s < sa_birthBlock known then AList.update (sa_address s) s m else m
           | None \<Rightarrow> AList.update (sa_address s) s m)"
  let ?start = "fold (\<lambda>a. AList.update a \<lparr>sa_address = a, sa_birthBlock = ef_activationBlock F\<rparr>) (ef_fixedAddresses F) []"
  obtain m where m: "foldR ?step found ?start = Inr m" "sources = js_sort (\<lambda>a b. sign_cmp (sa_address a) (sa_address b)) (map snd m)"
    using assms by (auto simp: mergeSources_def bindR_eq_Inr)
  have "keyed m \<and> fst ` set m = set (ef_fixedAddresses F) \<union> sa_address ` set found"
  proof (rule foldR_invariant [OF m(1), where P = "\<lambda>pre m. keyed m \<and> fst ` set m = set (ef_fixedAddresses F) \<union> sa_address ` set pre"])
    show "keyed ?start \<and> fst ` set ?start = set (ef_fixedAddresses F) \<union> sa_address ` set []"
      using fixed_sources [of "[]"] by (simp add: keyed_def)
  next
    fix pre :: "source_address list" and s :: source_address and post m m'
    assume inv: "keyed m \<and> fst ` set m = set (ef_fixedAddresses F) \<union> sa_address ` set pre" and step: "?step s m = Inr m'"
    have "m' = AList.update (sa_address s) s m \<or> (m' = m \<and> sa_address s \<in> fst ` set m)"
      using step by (auto simp: if_Inl_eq_Inr split: option.splits if_splits dest!: map_of_SomeD intro: rev_image_eqI)
    then have "fst ` set m' = insert (sa_address s) (fst ` set m) \<and> keyed m'"
    proof
      assume "m' = AList.update (sa_address s) s m"
      then show ?thesis using inv keyed_update [of m s] fst_update [of "sa_address s" s m] by (simp only:)
    next
      assume "m' = m \<and> sa_address s \<in> fst ` set m"
      then show ?thesis using conjunct1 [OF inv] by (rule known_key)
    qed
    then show "keyed m' \<and> fst ` set m' = set (ef_fixedAddresses F) \<union> sa_address ` set (pre @ [s])" using inv refl by (rule grown)
  qed
  note inv = this
  have "sa_address ` set sources = sa_address ` snd ` set m" unfolding m(2) by (simp only: set_js_sort set_map)
  also have "\<dots> = fst ` set m" by (rule keyed_addresses [OF conjunct1 [OF inv]])
  also note conjunct2 [OF inv]
  finally show ?thesis .
qed

lemma chunk_exists: "0 < n \<Longrightarrow> (\<exists>c\<in>set (chunks xs n). x \<in> set c) \<longleftrightarrow> x \<in> set xs"
proof -
  assume "0 < n"
  then have "set xs = (\<Union>c\<in>set (chunks xs n). set c)" using chunks_concat [of n xs] by (metis set_concat)
  then show ?thesis by blast
qed

lemma log_matches_one: "log_matches \<lparr>rf_address = as, rf_topics = [ts]\<rparr> l \<longleftrightarrow> lg_address l \<in> set as \<and> (\<exists>t r. lg_topics l = t # r \<and> t \<in> set ts)"
  by (cases "lg_topics l") (auto simp: log_matches_def)

lemma log_matches_two: "log_matches \<lparr>rf_address = as, rf_topics = [ts, us]\<rparr> l
    \<longleftrightarrow> lg_address l \<in> set as \<and> (\<exists>t u r. lg_topics l = t # u # r \<and> t \<in> set ts \<and> u \<in> set us)"
  by (cases "lg_topics l"; cases "tl (lg_topics l)") (auto simp: log_matches_def)

lemma filters_match:
  assumes shared: "ef_sharedAddress F \<in> sa_address ` set sources"
  shows "(\<exists>f\<in>set (subscriptionFilters F sources pools). log_matches f l) \<longleftrightarrow> matchesFilter F l (sa_address ` set sources) (pb_poolId ` set pools)"
proof -
  define as where "as = filter (\<lambda>a. a \<noteq> ef_sharedAddress F) (map sa_address sources)"
  define ts where "ts = filter (\<lambda>t. t \<noteq> ef_swapTopic F) (ef_eventTopics F)"
  define ids where "ids = sorted_texts (remdups (map pb_poolId pools))"
  let ?A = "map (\<lambda>as. \<lparr>rf_address = as, rf_topics = [sorted_texts ts]\<rparr>) (chunks (sorted_texts (remdups as)) 500)"
  let ?P = "map (\<lambda>ids. \<lparr>rf_address = [ef_sharedAddress F], rf_topics = [[ef_swapTopic F], ids]\<rparr>) (chunks ids 500)"
  have A: "(\<exists>f\<in>set ?A. log_matches f l) \<longleftrightarrow> lg_address l \<in> set as \<and> (\<exists>t r. lg_topics l = t # r \<and> t \<in> set ts)"
    using chunk_exists [of 500 "sorted_texts (remdups as)" "lg_address l"] by (auto simp: log_matches_one)
  have P: "(\<exists>f\<in>set ?P. log_matches f l) \<longleftrightarrow> lg_address l = ef_sharedAddress F \<and> (\<exists>u r. lg_topics l = ef_swapTopic F # u # r \<and> u \<in> pb_poolId ` set pools)"
    using chunk_exists [of 500 ids] by (auto simp: log_matches_two ids_def) metis
  have "(\<exists>f\<in>set (subscriptionFilters F sources pools). log_matches f l) \<longleftrightarrow> (\<exists>f\<in>set ?A. log_matches f l) \<or> (\<exists>f\<in>set ?P. log_matches f l)"
    unfolding subscriptionFilters_def Let_def as_def [symmetric] ts_def [symmetric] ids_def [symmetric] using A by auto
  also have "\<dots> \<longleftrightarrow> matchesFilter F l (sa_address ` set sources) (pb_poolId ` set pools)"
    unfolding A P using shared by (auto simp: matchesFilter_def as_def ts_def split: list.splits)
  finally show ?thesis .
qed

lemma filter_shared: "parseEventFilter v = Inr F \<Longrightarrow> ef_sharedAddress F \<in> set (ef_fixedAddresses F)"
  by (auto simp: parseEventFilter_def bindR_eq_Inr if_Inl_eq_Inr split: option.splits)

text \<open>C26: The relay subscribes to exactly what it accepts. For a filter file that is valid and whatever sources and pools the database knows, a log
  matches one of the filters that the relay sends to the provider, each limited to 500 addresses or pools, if and only if the relay's own
  check accepts it: no event of the protocol is left out of the subscription, and no subscribed log is rejected, which
  would close the connection.\<close>

theorem subscription_exact:
  assumes "parseEventFilter v = Inr F" and "mergeSources F found = Inr sources"
  shows "(\<exists>f\<in>set (subscriptionFilters F sources pools). log_matches f l)
    \<longleftrightarrow> matchesFilter F l (set (map sa_address sources)) (set (map pb_poolId pools))"
  using filters_match [of F sources pools l] filter_shared [OF assms(1)] merged_addresses [OF assms(2)] by auto

section \<open>A trigger of the relay is accepted by the pipeline\<close>

lemma is_byte_lower: "any_byte_data s \<Longrightarrow> is_byte_data (lower s)"
  by (simp add: any_byte_data_def)

lemma stringArray_Inr: "stringArray v test n label = Inr xs \<longleftrightarrow> v = Some (JArray (map JText xs)) \<and> xs \<noteq> [] \<and> length xs \<le> n \<and> list_all test xs"
proof -
  have "list_all (is_text test) js \<Longrightarrow> map JText (map string_of js) = js \<and> list_all test (map string_of js)" for js
    by (induction js) (auto simp: is_text_def split: json.splits)
  moreover have "list_all (is_text test) (map JText xs) \<longleftrightarrow> list_all test xs" by (induction xs) (auto simp: is_text_def)
  moreover have "map string_of (map JText xs) = xs" by (induction xs) auto
  ultimately show ?thesis by (auto simp: stringArray_def if_Inl_eq_Inr split: option.splits json.splits)
qed
text \<open>The identity of a release, as the pipeline expects it.\<close>

definition same_release :: "event_filter \<Rightarrow> deployment \<Rightarrow> bool" where
  "same_release F dp \<longleftrightarrow> dp_environment dp = ef_environment F \<and> dp_chainId dp = ef_chainId F \<and> dp_digest dp = ef_releaseId F"

text \<open>
  The head sent with a log (server.ts): the block of the log, or for a removed log what the provider answers for its latest
  block, whatever its number.
\<close>

definition blockHeader :: "json \<Rightarrow> (int \<times> string) res" where
  "blockHeader v = (case (text_field any_hex v ''number'', text_field is_hash v ''hash'') of
     (Some number, Some h) \<Rightarrow> Inr (int (parse_hex number), h) | _ \<Rightarrow> Inl (Error ''invalid block header''))"

definition head_for :: "chain_log \<Rightarrow> json res \<Rightarrow> (int \<times> string) res" where
  "head_for l latest = (if lg_removed l then bindR latest blockHeader else Inr (lg_blockNumber l, lg_blockHash l))"

lemma blockHeader_Inr: "blockHeader v = Inr h \<Longrightarrow> is_hash (snd h) \<and> 0 \<le> fst h"
  by (cases "text_field any_hex v ''number''"; cases "text_field is_hash v ''hash''") (auto simp: blockHeader_def, auto simp: text_field_Some)

lemma head_for_Inr:
  assumes "head_for l latest = Inr h" and "is_hash (lg_blockHash l)" and "0 \<le> lg_blockNumber l"
  shows "is_hash (snd h) \<and> 0 \<le> fst h \<and> (\<not> lg_removed l \<longrightarrow> h = (lg_blockNumber l, lg_blockHash l))"
  using assms by (auto simp: head_for_def bindR_eq_Inr dest: blockHeader_Inr split: if_splits)

lemma is_digits_show: "0 \<le> i \<Longrightarrow> is_digits (show_int i)"
  by (simp add: is_digits_def show_int_nonneg digits_show_nat)

lemma case_fields_Inr:
  assumes "(case (a, b, n, t, ti, li, d, r) of
       (Some a', Some b', Some n', Some t', Some ti', Some li', Some d', Some (JBool r')) \<Rightarrow> f a' b' n' t' ti' li' d' r' | _ \<Rightarrow> Inl e) = Inr x"
  shows "\<exists>a' b' n' t' ti' li' d' r'. a = Some a' \<and> b = Some b' \<and> n = Some n' \<and> t = Some t' \<and> ti = Some ti' \<and> li = Some li' \<and> d = Some d' \<and> r = Some (JBool r')
    \<and> f a' b' n' t' ti' li' d' r' = Inr x"
  using assms
  by (cases a; simp; cases b; simp; cases n; simp; cases t; simp; cases ti; simp; cases li; simp; cases d; simp; cases r; simp)
    (auto split: json.split_asm)

lemma subscription_log_ok:
  assumes "parseSubscriptionLog w = Inr l"
  shows "is_address (lg_address l) \<and> is_hash (lg_blockHash l) \<and> is_hash (lg_transactionHash l) \<and> is_byte_data (lg_data l)
    \<and> 0 \<le> lg_blockNumber l \<and> 0 \<le> lg_transactionIndex l \<and> 0 \<le> lg_logIndex l
    \<and> list_all is_hash (lg_topics l) \<and> lg_topics l \<noteq> [] \<and> length (lg_topics l) \<le> 4"
proof -
  have low: "is_address s \<Longrightarrow> is_address (lower s)" "is_hash s \<Longrightarrow> is_hash (lower s)" for s by (simp_all add: is_address_def is_hash_def lower_id)
  obtain item where "(case (text_field is_address item ''address'', text_field is_hash item ''blockHash'', text_field is_quantity item ''blockNumber'',
           text_field is_hash item ''transactionHash'', text_field is_quantity item ''transactionIndex'', text_field is_quantity item ''logIndex'',
           text_field any_byte_data item ''data'', field item ''removed'') of
       (Some address, Some block, Some number, Some transaction, Some ti, Some li, Some bytes, Some (JBool removed)) \<Rightarrow>
         bindR (stringArray (field item ''topics'') is_hash 4 ''log topics'') (\<lambda>topics.
           Inr \<lparr>lg_address = lower address, lg_blockHash = lower block, lg_blockNumber = int (parse_hex number), lg_transactionHash = lower transaction,
             lg_transactionIndex = int (parse_hex ti), lg_logIndex = int (parse_hex li), lg_data = lower bytes, lg_topics = map lower topics,
             lg_removed = removed\<rparr>)
     | _ \<Rightarrow> Inl (Error ''invalid subscription log'')) = Inr l"
    using assms unfolding parseSubscriptionLog_def bindR_eq_Inr [of "as_record (Some w)"] by (elim exE conjE)
  from case_fields_Inr [OF this] obtain a b n t ti li d r where f: "text_field is_address item ''address'' = Some a" "text_field is_hash item ''blockHash'' = Some b"
      "text_field is_hash item ''transactionHash'' = Some t" "text_field any_byte_data item ''data'' = Some d"
    and rest: "bindR (stringArray (field item ''topics'') is_hash 4 ''log topics'') (\<lambda>topics.
           Inr \<lparr>lg_address = lower a, lg_blockHash = lower b, lg_blockNumber = int (parse_hex n), lg_transactionHash = lower t,
             lg_transactionIndex = int (parse_hex ti), lg_logIndex = int (parse_hex li), lg_data = lower d, lg_topics = map lower topics,
             lg_removed = r\<rparr>) = Inr l" by (elim exE conjE)
  obtain topics where topics: "topics \<noteq> []" "length topics \<le> 4" "list_all is_hash topics" and l: "l = \<lparr>lg_address = lower a, lg_blockHash = lower b,
      lg_blockNumber = int (parse_hex n), lg_transactionHash = lower t, lg_transactionIndex = int (parse_hex ti), lg_logIndex = int (parse_hex li),
      lg_data = lower d, lg_topics = map lower topics, lg_removed = r\<rparr>"
    using rest unfolding bindR_eq_Inr stringArray_Inr by blast
  have "list_all is_hash (map lower topics)" using topics(3) low(2) by (simp add: list_all_iff)
  moreover have "is_address (lower a)" "is_hash (lower b)" "is_hash (lower t)" "is_byte_data (lower d)"
    using f low by (simp_all add: text_field_Some any_byte_data_def)
  ultimately show ?thesis using topics(1,2) by (simp add: l)
qed

lemma serialized_fields:
  assumes "is_address (lg_address l)" "is_hash (lg_blockHash l)" "is_hash (lg_transactionHash l)" "is_byte_data (lg_data l)"
    "0 \<le> lg_blockNumber l" "0 \<le> lg_transactionIndex l" "0 \<le> lg_logIndex l" "list_all is_hash (lg_topics l)"
  shows "text_field is_address (serializeLog l) ''address'' = Some (lg_address l)" "text_field is_hash (serializeLog l) ''blockHash'' = Some (lg_blockHash l)"
    "text_field is_digits (serializeLog l) ''blockNumber'' = Some (show_int (lg_blockNumber l))"
    "text_field is_hash (serializeLog l) ''transactionHash'' = Some (lg_transactionHash l)"
    "text_field is_digits (serializeLog l) ''transactionIndex'' = Some (show_int (lg_transactionIndex l))"
    "text_field is_digits (serializeLog l) ''logIndex'' = Some (show_int (lg_logIndex l))"
    "text_field is_byte_data (serializeLog l) ''data'' = Some (lg_data l)" "topics_of (serializeLog l) = Some (lg_topics l)"
    "field (serializeLog l) ''removed'' = Some (JBool (lg_removed l))" "is_object (Some (serializeLog l))"
  using assms by (simp_all add: serializeLog_def text_field_def topics_of_def hash_texts_map is_digits_show is_object_def)

text \<open>C23: What the pipeline of the release does with a trigger of the relay, exactly. For any log that the relay read from a subscription, with the head
  the relay takes for it (the log's own block, or the provider's latest block when the log was removed), the JSON it sends
  is refused if the log is below the activation or the head is below the log, which can only happen to a removed log whose
  provider lags or follows a shorter fork; otherwise it parses to that head, the removal flag and an event key that is the key under
  which the relay stored the event. In particular a log that is not removed, from the activation on, is always accepted.\<close>

theorem relay_trigger_accepted:
  assumes "parseSubscriptionLog w = Inr l" and "same_release F dp" and "head_for l latest = Inr h"
  shows "parseChainLogTrigger (serializeTrigger F l h) dp
    = (if lg_blockNumber l < dp_activationBlock dp \<or> lg_removed l \<and> fst h < lg_blockNumber l
       then Inl (TypeError ''inconsistent chain log trigger head'')
       else Inr \<lparr>ct_number = fst h, ct_hash = snd h, ct_removed = lg_removed l, ct_eventKey = eventKey l\<rparr>)"
proof -
  have ok: "is_address (lg_address l)" "is_hash (lg_blockHash l)" "is_hash (lg_transactionHash l)" "is_byte_data (lg_data l)"
    "0 \<le> lg_blockNumber l" "0 \<le> lg_transactionIndex l" "0 \<le> lg_logIndex l"
    "list_all is_hash (lg_topics l)" "lg_topics l \<noteq> []" "length (lg_topics l) \<le> 4" using subscription_log_ok [OF assms(1)] by simp_all
  note fields = serialized_fields [OF ok(1-8)]
  let ?head = "JObject [(''number'', JText (show_int (fst h))), (''hash'', JText (snd h))]"
  have h: "is_hash (snd h)" "0 \<le> fst h" "\<not> lg_removed l \<longrightarrow> h = (lg_blockNumber l, lg_blockHash l)"
    using head_for_Inr [OF assms(3) ok(2,5)] by simp_all
  have head: "text_field is_digits ?head ''number'' = Some (show_int (fst h))" "text_field is_hash ?head ''hash'' = Some (snd h)"
    using h(1,2) by (simp_all add: text_field_def is_digits_show)
  have nat: "int (parse_nat (show_int n)) = n" if "0 \<le> n" for n using that by (simp add: show_int_nonneg)
  have top: "field (serializeTrigger F l h) ''head'' = Some ?head" "field (serializeTrigger F l h) ''log'' = Some (serializeLog l)"
    "field (serializeTrigger F l h) ''schema'' = Some (JText ''tickergarden.chain-log-trigger.v1'')"
    "field (serializeTrigger F l h) ''environment'' = Some (JText (dp_environment dp))"
    "field (serializeTrigger F l h) ''chainId'' = Some (JNumber (dp_chainId dp))"
    "field (serializeTrigger F l h) ''releaseId'' = Some (JText (dp_digest dp))" "is_object (Some (serializeTrigger F l h))" "is_object (Some ?head)"
    using assms(2) by (simp_all add: serializeTrigger_def same_release_def is_object_def)
  have count: "\<not> (length (lg_topics l) < 1 \<or> length (lg_topics l) > 4)" using ok(9,10) by (cases "lg_topics l") auto
  have parsed: "parseChainLogTrigger (serializeTrigger F l h) dp
    = (if lg_blockNumber l < dp_activationBlock dp \<or> fst h < lg_blockNumber l
         \<or> (\<not> lg_removed l \<and> (fst h \<noteq> lg_blockNumber l \<or> snd h \<noteq> lg_blockHash l))
       then Inl (TypeError ''inconsistent chain log trigger head'')
       else Inr \<lparr>ct_number = fst h, ct_hash = snd h, ct_removed = lg_removed l, ct_eventKey = eventKey l\<rparr>)"
    unfolding parseChainLogTrigger_def Let_def top using count nat [OF h(2)] nat [OF ok(5)]
    by (simp add: fields head top eventKey_def)
  show ?thesis unfolding parsed using h(3) by (cases "lg_removed l") auto
qed

definition sample_filter_json :: json where
  "sample_filter_json = JObject [(''schema'', JText ''tickergarden.chain-event-filter.v1''), (''chainId'', JNumber 46630), (''environment'', JText ''test''),
     (''releaseId'', JText (hex_lit 64 CHR ''a'')), (''activationBlock'', JText ''1''),
     (''sharedPoolManager'', JObject [(''address'', JText (hex_lit 40 CHR ''2'')), (''swapTopic'', JText (hex_lit 64 CHR ''e''))]),
     (''fixedAddresses'', JArray [JText (hex_lit 40 CHR ''1''), JText (hex_lit 40 CHR ''2'')]),
     (''eventTopics'', JArray [JText (hex_lit 64 CHR ''c''), JText (hex_lit 64 CHR ''e'')])]"

definition sample_filter :: event_filter where
  "sample_filter = \<lparr>ef_chainId = 46630, ef_environment = ''test'', ef_releaseId = hex_lit 64 CHR ''a'', ef_activationBlock = 1,
     ef_sharedAddress = hex_lit 40 CHR ''2'', ef_swapTopic = hex_lit 64 CHR ''e'', ef_fixedAddresses = [hex_lit 40 CHR ''1'', hex_lit 40 CHR ''2''],
     ef_eventTopics = [hex_lit 64 CHR ''c'', hex_lit 64 CHR ''e'']\<rparr>"

definition sample_sources :: "source_address list" where
  "sample_sources = [\<lparr>sa_address = hex_lit 40 CHR ''1'', sa_birthBlock = 1\<rparr>, \<lparr>sa_address = hex_lit 40 CHR ''2'', sa_birthBlock = 1\<rparr>]"

lemma sample_lower_hex: "is_lower_hex_digit CHR ''1''" "is_lower_hex_digit CHR ''2''" "is_lower_hex_digit CHR ''a''" "is_lower_hex_digit CHR ''b''"
    "is_lower_hex_digit CHR ''c''" "is_lower_hex_digit CHR ''d''" "is_lower_hex_digit CHR ''e''"
  by code_simp+

lemma sample_filter_parses: "parseEventFilter sample_filter_json = Inr sample_filter"
proof -
  have "is_digits ''1''" "parse_nat ''1'' = 1" by code_simp+
  then show ?thesis
    by (simp add: parseEventFilter_def sample_filter_json_def as_record_def filter_identity_def text_field_def stringArray_def is_text_def
        filter_networks_def sample_lower_hex) (simp add: sample_filter_def)
qed

lemma sample_sources_merge: "mergeSources sample_filter [] = Inr sample_sources"
proof -
  have "code_of CHR ''1'' \<le> code_of CHR ''2''" by code_simp
  then show ?thesis by (simp add: mergeSources_def sample_filter_def sample_sources_def js_sort_def hex_lit_less_iff)
qed

definition sample_subscription_of :: "bool \<Rightarrow> json" where
  "sample_subscription_of removed = JObject [(''address'', JText (hex_lit 40 CHR ''1'')), (''blockHash'', JText (hex_lit 64 CHR ''b'')),
     (''blockNumber'', JText ''0x2a''), (''transactionHash'', JText (hex_lit 64 CHR ''d'')), (''transactionIndex'', JText ''0x0''),
     (''logIndex'', JText ''0x7''), (''data'', JText ''0xAB''), (''topics'', JArray [JText (hex_lit 64 CHR ''c'')]), (''removed'', JBool removed)]"

definition sample_subscription :: json where
  "sample_subscription = sample_subscription_of False"

definition sample_removed :: json where
  "sample_removed = sample_subscription_of True"

definition sample_removed_log :: chain_log where
  "sample_removed_log = sample_chain_log\<lparr>lg_removed := True\<rparr>"

lemma sample_relay_log_parses: "parseSubscriptionLog (sample_subscription_of removed) = Inr (sample_chain_log\<lparr>lg_removed := removed\<rparr>)"
proof -
  have "is_quantity ''0x2a''" "is_quantity ''0x0''" "is_quantity ''0x7''" "any_byte_data ''0xAB''" "parse_hex ''0x2a'' = 42" "parse_hex ''0x0'' = 0"
    "parse_hex ''0x7'' = 7" "lower ''0xAB'' = ''0xab''" by code_simp+
  moreover have "lower_char CHR ''1'' = CHR ''1''" "lower_char CHR ''b'' = CHR ''b''" "lower_char CHR ''c'' = CHR ''c''" "lower_char CHR ''d'' = CHR ''d''" by code_simp+
  ultimately show ?thesis
    by (simp add: parseSubscriptionLog_def sample_subscription_of_def as_record_def text_field_def stringArray_def is_text_def sample_lower_hex)
      (simp add: sample_chain_log_def log_of_def sample_raw_log_def)
qed

lemma sample_subscription_parses: "parseSubscriptionLog sample_subscription = Inr sample_chain_log"
proof -
  have "sample_chain_log\<lparr>lg_removed := False\<rparr> = sample_chain_log"
    by (simp add: sample_chain_log_def log_of_def sample_raw_log_def)
  then show ?thesis using sample_relay_log_parses [of False] by (simp add: sample_subscription_def)
qed

lemma sample_removed_parses: "parseSubscriptionLog sample_removed = Inr sample_removed_log"
  by (simp add: sample_removed_def sample_removed_log_def sample_relay_log_parses)

definition sample_header :: json where
  "sample_header = JObject [(''number'', JText ''0x29''), (''hash'', JText (hex_lit 64 CHR ''f''))]"

lemma sample_header_parses: "blockHeader sample_header = Inr (41, hex_lit 64 CHR ''f'')"
proof -
  have "any_hex ''0x29''" "parse_hex ''0x29'' = 41" "is_lower_hex_digit CHR ''f''" by code_simp+
  then show ?thesis by (simp add: blockHeader_def sample_header_def text_field_def)
qed

lemma sample_log_accepted: "matchesFilter sample_filter sample_chain_log (set (map sa_address sample_sources)) P"
  by (simp add: matchesFilter_def sample_filter_def sample_chain_log_def log_of_def sample_sources_def)

lemma subscription_exact_witness: "\<exists>f\<in>set (subscriptionFilters sample_filter sample_sources []). log_matches f sample_chain_log"
  using subscription_exact [OF sample_filter_parses sample_sources_merge, of "[]" sample_chain_log] sample_log_accepted by blast

text \<open>A removed log, and a provider that is one block behind it: the pipeline refuses the trigger.\<close>

lemma relay_trigger_accepted_witness:
  "parseChainLogTrigger (serializeTrigger sample_filter sample_chain_log (42, hex_lit 64 CHR ''b'')) sample_deployment
    = Inr \<lparr>ct_number = 42, ct_hash = hex_lit 64 CHR ''b'', ct_removed = False, ct_eventKey = eventKey sample_chain_log\<rparr>
   \<and> (\<exists>w l h. parseSubscriptionLog w = Inr l \<and> lg_removed l \<and> head_for l (Inr sample_header) = Inr h
        \<and> parseChainLogTrigger (serializeTrigger sample_filter l h) sample_deployment = Inl (TypeError ''inconsistent chain log trigger head''))"
proof
  have same: "same_release sample_filter sample_deployment" by (simp add: same_release_def sample_filter_def sample_deployment_def)
  have "head_for sample_chain_log (Inr JNull) = Inr (42, hex_lit 64 CHR ''b'')"
    by (simp add: head_for_def sample_chain_log_def log_of_def sample_raw_log_def)
  from relay_trigger_accepted [OF sample_subscription_parses same this]
  show "parseChainLogTrigger (serializeTrigger sample_filter sample_chain_log (42, hex_lit 64 CHR ''b'')) sample_deployment
    = Inr \<lparr>ct_number = 42, ct_hash = hex_lit 64 CHR ''b'', ct_removed = False, ct_eventKey = eventKey sample_chain_log\<rparr>"
    by (simp add: sample_deployment_def sample_chain_log_def log_of_def sample_raw_log_def)
  have head: "head_for sample_removed_log (Inr sample_header) = Inr (41, hex_lit 64 CHR ''f'')"
    by (simp add: head_for_def sample_removed_log_def sample_header_parses)
  have "fst (41::int, hex_lit 64 CHR ''f'') < lg_blockNumber sample_removed_log" "lg_removed sample_removed_log"
    by (simp_all add: sample_removed_log_def sample_chain_log_def log_of_def sample_raw_log_def)
  with relay_trigger_accepted [OF sample_removed_parses same head] head sample_removed_parses
  show "\<exists>w l h. parseSubscriptionLog w = Inr l \<and> lg_removed l \<and> head_for l (Inr sample_header) = Inr h
        \<and> parseChainLogTrigger (serializeTrigger sample_filter l h) sample_deployment = Inl (TypeError ''inconsistent chain log trigger head'')"
    by (intro exI [of _ sample_removed] exI [of _ sample_removed_log] exI [of _ "(41, hex_lit 64 CHR ''f'')"]) simp
qed

end
