(* ===== verification/Relay_Outbox.thy ===== *)
theory Relay_Outbox imports Relay_Core begin

text \<open>
  The outbox of the relay (server.ts): stored events, sealed batches, the publishers' claims, and that no event is
  lost between them.
\<close>

section \<open>The tables of the relay\<close>

datatype outbox_state = OutPending | OutLeased | OutQueued | OutDead

record relay_event =
  re_key :: string
  re_payload :: json
  re_state :: outbox_state
  re_attempt :: nat
  re_nextAt :: int
  re_leaseUntil :: "int option"
  re_lastError :: "string option"
  re_batch :: "string option"

record relay_batch =
  rb_key :: string
  rb_payload :: json
  rb_count :: nat
  rb_state :: outbox_state
  rb_attempt :: nat
  rb_leaseUntil :: "int option"
  rb_nextAt :: int
  rb_lastError :: "string option"

record relay_db =
  rd_events :: "relay_event list"
  rd_batches :: "relay_batch list"

text \<open>The generated column \<open>group_key\<close>: block hash and removal flag of the log, and the hash of the head.\<close>

definition group_key :: "json \<Rightarrow> string option" where
  "group_key payload = Option.bind (field payload ''log'') (\<lambda>l. Option.bind (field payload ''head'') (\<lambda>h.
     Option.bind (field l ''blockHash'') (\<lambda>b. Option.bind (field l ''removed'') (\<lambda>r. Option.bind (field h ''hash'') (\<lambda>x.
       Some (string_of b @ '':'' @ string_of r @ '':'' @ string_of x))))))"

text \<open>\<open>handleSubscriptionLog\<close> stores an event once.\<close>

definition insert_event :: "string \<Rightarrow> json \<Rightarrow> int \<Rightarrow> relay_db \<Rightarrow> relay_db" where
  "insert_event key payload now db = (if key \<in> re_key ` set (rd_events db) then db
     else db\<lparr>rd_events := rd_events db @ [\<lparr>re_key = key, re_payload = payload, re_state = OutPending, re_attempt = 0, re_nextAt = now,
       re_leaseUntil = None, re_lastError = None, re_batch = None\<rparr>]\<rparr>)"

section \<open>Claiming, settling and releasing\<close>

text \<open>\<open>state='pending' OR (state='leased' AND lease_expires_at<=now())\<close>, and due.\<close>

definition claimable :: "int \<Rightarrow> outbox_state \<Rightarrow> int option \<Rightarrow> int \<Rightarrow> bool" where
  "claimable now state lease nextAt \<longleftrightarrow> (state = OutPending \<or> (state = OutLeased \<and> (case lease of None \<Rightarrow> False | Some t \<Rightarrow> t \<le> now))) \<and> nextAt \<le> now"

definition batch_due :: "int \<Rightarrow> relay_batch \<Rightarrow> bool" where
  "batch_due now b \<longleftrightarrow> claimable now (rb_state b) (rb_leaseUntil b) (rb_nextAt b)"

definition event_due :: "int \<Rightarrow> relay_event \<Rightarrow> bool" where
  "event_due now e \<longleftrightarrow> re_batch e = None \<and> claimable now (re_state e) (re_leaseUntil e) (re_nextAt e)"

record relay_claim =
  rc_batch :: string
  rc_payload :: json
  rc_attempt :: nat

text \<open>A row that another transaction has locked is skipped: \<open>locked\<close> are the keys of such rows.\<close>

definition first_of :: "'a list \<Rightarrow> 'a option" where
  "first_of xs = (case xs of [] \<Rightarrow> None | x # _ \<Rightarrow> Some x)"

definition first_batch :: "string set \<Rightarrow> int \<Rightarrow> relay_db \<Rightarrow> relay_batch option" where
  "first_batch locked now db = first_of (sort_key (\<lambda>b. (rb_nextAt b, rb_key b)) (filter (\<lambda>b. batch_due now b \<and> rb_key b \<notin> locked) (rd_batches db)))"

definition first_event :: "string set \<Rightarrow> int \<Rightarrow> relay_db \<Rightarrow> relay_event option" where
  "first_event locked now db = first_of (sort_key (\<lambda>e. (re_nextAt e, re_key e)) (filter (\<lambda>e. event_due now e \<and> re_key e \<notin> locked) (rd_events db)))"

definition group_events :: "string set \<Rightarrow> int \<Rightarrow> string option \<Rightarrow> relay_db \<Rightarrow> relay_event list" where
  "group_events locked now g db = take 256 (sort_key re_key (filter (\<lambda>e. event_due now e \<and> re_key e \<notin> locked \<and> g \<noteq> None \<and> group_key (re_payload e) = g) (rd_events db)))"

definition lease_batch :: "int \<Rightarrow> relay_batch \<Rightarrow> relay_batch" where
  "lease_batch now b = b\<lparr>rb_state := OutLeased, rb_attempt := rb_attempt b + 1, rb_leaseUntil := Some (now + 30000)\<rparr>"

definition map_batch :: "string \<Rightarrow> (relay_batch \<Rightarrow> relay_batch) \<Rightarrow> relay_db \<Rightarrow> relay_db" where
  "map_batch key f db = db\<lparr>rd_batches := map (\<lambda>b. if rb_key b = key then f b else b) (rd_batches db)\<rparr>"

definition map_events :: "(relay_event \<Rightarrow> bool) \<Rightarrow> (relay_event \<Rightarrow> relay_event) \<Rightarrow> relay_db \<Rightarrow> relay_db" where
  "map_events P f db = db\<lparr>rd_events := map (\<lambda>e. if P e then f e else e) (rd_events db)\<rparr>"

definition seal_batch :: "(string \<Rightarrow> string) \<Rightarrow> string set \<Rightarrow> int \<Rightarrow> relay_event \<Rightarrow> relay_db \<Rightarrow> (relay_db \<times> relay_claim) res" where
  "seal_batch sha locked now seed db =
    (let events = group_events locked now (group_key (re_payload seed)) db; keys = map re_key events; key = sha (json_text (JArray (map JText keys)))
     in case events of [] \<Rightarrow> Inl (Error ''empty relay batch'')
      | e # _ \<Rightarrow> if key \<in> rb_key ` set (rd_batches db) then Inl (Error ''duplicate key value violates unique constraint'')
        else Inr (map_events (\<lambda>x. re_key x \<in> set keys) (\<lambda>x. x\<lparr>re_batch := Some key\<rparr>)
            (db\<lparr>rd_batches := rd_batches db @ [\<lparr>rb_key = key, rb_payload = re_payload e, rb_count = length events, rb_state = OutLeased, rb_attempt = 1,
               rb_leaseUntil = Some (now + 30000), rb_nextAt = now, rb_lastError = None\<rparr>]\<rparr>),
          \<lparr>rc_batch = key, rc_payload = re_payload e, rc_attempt = 1\<rparr>))"

definition pick_batch :: "(string \<Rightarrow> string) \<Rightarrow> string set \<Rightarrow> int \<Rightarrow> relay_db \<Rightarrow> (relay_db \<times> relay_claim option) res" where
  "pick_batch sha locked now db = (case first_batch locked now db of
     Some b \<Rightarrow> Inr (map_batch (rb_key b) (lease_batch now) db, Some \<lparr>rc_batch = rb_key b, rc_payload = rb_payload b, rc_attempt = rb_attempt b + 1\<rparr>)
   | None \<Rightarrow> (case first_event locked now db of
       None \<Rightarrow> Inr (db, None)
     | Some seed \<Rightarrow> bindR (seal_batch sha locked now seed db) (\<lambda>(db', c). Inr (db', Some c))))"

definition lease_events :: "int \<Rightarrow> relay_claim \<Rightarrow> relay_db \<Rightarrow> relay_db" where
  "lease_events now c = map_events (\<lambda>e. re_batch e = Some (rc_batch c))
     (\<lambda>e. e\<lparr>re_state := OutLeased, re_attempt := rc_attempt c, re_leaseUntil := Some (now + 30000)\<rparr>)"

definition claimEvent :: "(string \<Rightarrow> string) \<Rightarrow> string set \<Rightarrow> int \<Rightarrow> relay_db \<Rightarrow> (relay_db \<times> relay_claim option) res" where
  "claimEvent sha locked now db = bindR (pick_batch sha locked now db) (\<lambda>(db', c).
     Inr ((case c of None \<Rightarrow> db' | Some c \<Rightarrow> lease_events now c db'), c))"

text \<open>Only the claim whose attempt is the current one changes the rows.\<close>

definition holds :: "relay_claim \<Rightarrow> relay_batch \<Rightarrow> bool" where
  "holds c b \<longleftrightarrow> rb_key b = rc_batch c \<and> rb_state b = OutLeased \<and> rb_attempt b = rc_attempt c"

definition holds_event :: "relay_claim \<Rightarrow> relay_event \<Rightarrow> bool" where
  "holds_event c e \<longleftrightarrow> re_batch e = Some (rc_batch c) \<and> re_state e = OutLeased \<and> re_attempt e = rc_attempt c"

definition settleBatch :: "relay_claim \<Rightarrow> relay_db \<Rightarrow> relay_db" where
  "settleBatch c db = (if list_ex (holds c) (rd_batches db)
     then map_events (holds_event c) (\<lambda>e. e\<lparr>re_state := OutQueued, re_leaseUntil := None, re_lastError := None\<rparr>)
       (map_batch (rc_batch c) (\<lambda>b. b\<lparr>rb_state := OutQueued, rb_leaseUntil := None, rb_lastError := None\<rparr>) db)
     else db)"

definition retry_state :: "nat \<Rightarrow> outbox_state" where
  "retry_state attempt = (if attempt \<ge> 8 then OutDead else OutPending)"

definition retry_at :: "int \<Rightarrow> nat \<Rightarrow> int" where
  "retry_at now attempt = now + 1000 * min 300 (2 ^ attempt)"

definition releaseClaim :: "relay_claim \<Rightarrow> string \<Rightarrow> int \<Rightarrow> relay_db \<Rightarrow> relay_db" where
  "releaseClaim c message now db = (if list_ex (holds c) (rd_batches db)
     then map_events (holds_event c) (\<lambda>e. e\<lparr>re_state := retry_state (rc_attempt c), re_leaseUntil := None, re_lastError := Some (take 200 message),
         re_nextAt := retry_at now (rc_attempt c)\<rparr>)
       (map_batch (rc_batch c) (\<lambda>b. b\<lparr>rb_state := retry_state (rc_attempt c), rb_leaseUntil := None, rb_lastError := Some (take 200 message),
         rb_nextAt := retry_at now (rc_attempt c)\<rparr>) db)
     else db)"

section \<open>Runs of the relay\<close>

text \<open>
  The events a connection stores, and the publishers: each claims a batch, posts its payload to the queue and settles it when the queue accepted
  it, or releases it, however late; \<open>rr_claims\<close> are the claims that were handed out and \<open>rr_accepted\<close> those the queue accepted. Any number of publishers may
  run, stop or be slow; a transaction may fail at any time, which is no step.
\<close>

record relay_run =
  rr_db :: relay_db
  rr_claims :: "relay_claim list"
  rr_accepted :: "relay_claim list"

inductive relay_step :: "(string \<Rightarrow> string) \<Rightarrow> event_filter \<Rightarrow> relay_run \<Rightarrow> relay_run \<Rightarrow> bool" for sha F where
  relay_insert: "parseSubscriptionLog raw = Inr l \<Longrightarrow> matchesFilter F l addresses poolIds \<Longrightarrow> head_for l latest = Inr h
    \<Longrightarrow> relay_step sha F st (st\<lparr>rr_db := insert_event (eventKey l) (serializeTrigger F l h) now (rr_db st)\<rparr>)"
| relay_claim: "claimEvent sha locked now (rr_db st) = Inr (db, Some c) \<Longrightarrow> relay_step sha F st (st\<lparr>rr_db := db, rr_claims := c # rr_claims st\<rparr>)"
| relay_accept: "c \<in> set (rr_claims st) \<Longrightarrow> relay_step sha F st (st\<lparr>rr_accepted := c # rr_accepted st\<rparr>)"
| relay_settle: "c \<in> set (rr_accepted st) \<Longrightarrow> relay_step sha F st (st\<lparr>rr_db := settleBatch c (rr_db st)\<rparr>)"
| relay_release: "c \<in> set (rr_claims st) \<Longrightarrow> relay_step sha F st (st\<lparr>rr_db := releaseClaim c message now (rr_db st)\<rparr>)"

inductive relay_reach :: "(string \<Rightarrow> string) \<Rightarrow> event_filter \<Rightarrow> relay_run \<Rightarrow> bool" for sha F where
  relay_new: "relay_reach sha F \<lparr>rr_db = \<lparr>rd_events = [], rd_batches = []\<rparr>, rr_claims = [], rr_accepted = []\<rparr>"
| relay_next: "relay_reach sha F st \<Longrightarrow> relay_step sha F st st' \<Longrightarrow> relay_reach sha F st'"

section \<open>Events and their batches agree\<close>

definition mirror :: "relay_batch list \<Rightarrow> relay_event \<Rightarrow> bool" where
  "mirror bs e \<longleftrightarrow> (case re_batch e of None \<Rightarrow> re_state e = OutPending
     | Some k \<Rightarrow> \<exists>b\<in>set bs. rb_key b = k \<and> rb_state b = re_state e \<and> rb_attempt b = re_attempt e \<and> group_key (rb_payload b) = group_key (re_payload e))"

definition outbox_ok :: "relay_db \<Rightarrow> bool" where
  "outbox_ok db \<longleftrightarrow> distinct (map re_key (rd_events db)) \<and> distinct (map rb_key (rd_batches db)) \<and> (\<forall>e\<in>set (rd_events db). mirror (rd_batches db) e)"

lemma mirror_batch:
  assumes "outbox_ok db" and "e \<in> set (rd_events db)" and "re_batch e = Some k"
  shows "\<exists>b\<in>set (rd_batches db). rb_key b = k \<and> rb_state b = re_state e \<and> rb_attempt b = re_attempt e \<and> group_key (rb_payload b) = group_key (re_payload e)"
proof -
  have "mirror (rd_batches db) e" using assms(1,2) by (simp add: outbox_ok_def)
  then show ?thesis using assms(3) by (simp add: mirror_def)
qed

text \<open>What a transaction keeps: every event with its payload, its batch and whether it was queued, and every batch with its payload.\<close>

definition event_kept :: "relay_event \<Rightarrow> relay_event \<Rightarrow> bool" where
  "event_kept e e' \<longleftrightarrow> re_key e' = re_key e \<and> re_payload e' = re_payload e \<and> (re_batch e \<noteq> None \<longrightarrow> re_batch e' = re_batch e)
     \<and> (re_state e = OutQueued \<longrightarrow> re_state e' = OutQueued)"

definition batch_kept :: "relay_batch \<Rightarrow> relay_batch \<Rightarrow> bool" where
  "batch_kept b b' \<longleftrightarrow> rb_key b' = rb_key b \<and> rb_payload b' = rb_payload b \<and> rb_attempt b \<le> rb_attempt b' \<and> (rb_state b = OutQueued \<longrightarrow> rb_state b' = OutQueued)"

definition outbox_kept :: "relay_db \<Rightarrow> relay_db \<Rightarrow> bool" where
  "outbox_kept db db' \<longleftrightarrow> (\<forall>e\<in>set (rd_events db). \<exists>e'\<in>set (rd_events db'). event_kept e e') \<and> (\<forall>b\<in>set (rd_batches db). \<exists>b'\<in>set (rd_batches db'). batch_kept b b')"

lemma outbox_kept_refl: "outbox_kept db db"
  by (auto simp: outbox_kept_def event_kept_def batch_kept_def)

lemma outbox_kept_trans: "outbox_kept a b \<Longrightarrow> outbox_kept b c \<Longrightarrow> outbox_kept a c"
  unfolding outbox_kept_def event_kept_def batch_kept_def by (fastforce intro: order_trans)

text \<open>A change of one batch together with its events.\<close>

definition change :: "string \<Rightarrow> (relay_batch \<Rightarrow> relay_batch) \<Rightarrow> (relay_event \<Rightarrow> relay_event) \<Rightarrow> relay_db \<Rightarrow> relay_db" where
  "change k f g db = map_events (\<lambda>e. re_batch e = Some k) g (map_batch k f db)"

definition in_step :: "(relay_batch \<Rightarrow> relay_batch) \<Rightarrow> (relay_event \<Rightarrow> relay_event) \<Rightarrow> bool" where
  "in_step f g \<longleftrightarrow> (\<forall>b. rb_key (f b) = rb_key b \<and> rb_payload (f b) = rb_payload b \<and> rb_attempt b \<le> rb_attempt (f b))
     \<and> (\<forall>e. re_key (g e) = re_key e \<and> re_payload (g e) = re_payload e \<and> re_batch (g e) = re_batch e)"

lemma change_rows: "rd_events (change k f g db) = map (\<lambda>e. if re_batch e = Some k then g e else e) (rd_events db)"
    "rd_batches (change k f g db) = map (\<lambda>b. if rb_key b = k then f b else b) (rd_batches db)"
  by (simp_all add: change_def map_events_def map_batch_def)

lemma in_map: "x \<in> set xs \<Longrightarrow> f x \<in> set (map f xs)"
  by simp

lemma outbox_ok_map:
  assumes "outbox_ok db" and es: "rd_events db' = map G (rd_events db)" and "\<And>e. re_key (G e) = re_key e"
    and "distinct (map rb_key (rd_batches db'))" and "\<And>e. e \<in> set (rd_events db) \<Longrightarrow> mirror (rd_batches db') (G e)"
  shows "outbox_ok db'"
proof -
  have "map re_key (rd_events db') = map re_key (rd_events db)" unfolding es map_map by (rule map_cong) (simp_all add: assms(3))
  moreover have "\<forall>e\<in>set (rd_events db'). mirror (rd_batches db') e" unfolding es using assms(5) by auto
  ultimately show ?thesis using assms(1,4) by (simp add: outbox_ok_def)
qed

lemma change_ok:
  assumes ok: "outbox_ok db" and fg: "in_step f g"
    and same: "\<And>b e. b \<in> set (rd_batches db) \<Longrightarrow> rb_key b = k \<Longrightarrow> e \<in> set (rd_events db) \<Longrightarrow> re_batch e = Some k
      \<Longrightarrow> rb_state (f b) = re_state (g e) \<and> rb_attempt (f b) = re_attempt (g e)"
  shows "outbox_ok (change k f g db)"
proof -
  let ?F = "\<lambda>b. if rb_key b = k then f b else b" and ?G = "\<lambda>e. if re_batch e = Some k then g e else e"
  have keys: "rb_key (?F b) = rb_key b" "rb_payload (?F b) = rb_payload b" "re_key (?G e) = re_key e" "re_payload (?G e) = re_payload e" "re_batch (?G e) = re_batch e" for b e
    using fg by (simp_all add: in_step_def)
  have "mirror (map ?F (rd_batches db)) (?G e)" if e: "e \<in> set (rd_events db)" for e
  proof (cases "re_batch e")
    case None
    then show ?thesis using ok e by (auto simp: outbox_ok_def mirror_def)
  next
    case (Some q)
    obtain b where b: "b \<in> set (rd_batches db)" "rb_key b = q" "rb_state b = re_state e" "rb_attempt b = re_attempt e" "group_key (rb_payload b) = group_key (re_payload e)"
      using mirror_batch [OF ok e Some] by blast
    have "rb_state (?F b) = re_state (?G e) \<and> rb_attempt (?F b) = re_attempt (?G e)"
      using b Some same [OF b(1) _ e] by simp
    then have "rb_key (?F b) = q \<and> rb_state (?F b) = re_state (?G e) \<and> rb_attempt (?F b) = re_attempt (?G e)
        \<and> group_key (rb_payload (?F b)) = group_key (re_payload (?G e))" using b(2,5) keys(1) [of b] keys(2) [of b] keys(4) [of e] by metis
    moreover have "?F b \<in> set (map ?F (rd_batches db))" using b(1) by (rule in_map)
    moreover have "re_batch (?G e) = Some q" by (rule trans [OF keys(5) Some])
    ultimately show ?thesis unfolding mirror_def by (simp only: option.case) (rule bexI)
  qed
  note mirrors = this
  show ?thesis
  proof (rule outbox_ok_map [OF ok change_rows(1)])
    show "distinct (map rb_key (rd_batches (change k f g db)))"
      unfolding change_rows(2) map_map by (subst map_cong [OF refl, where g = rb_key]) (use ok in \<open>simp_all add: keys(1) outbox_ok_def del: if_split\<close>)
    show "mirror (rd_batches (change k f g db)) (?G e)" if "e \<in> set (rd_events db)" for e unfolding change_rows(2) by (rule mirrors [OF that])
  qed (rule keys(3))
qed

lemma change_kept:
  assumes "in_step f g" and "\<And>b. b \<in> set (rd_batches db) \<Longrightarrow> rb_key b = k \<Longrightarrow> rb_state b \<noteq> OutQueued"
    and "\<And>e. e \<in> set (rd_events db) \<Longrightarrow> re_batch e = Some k \<Longrightarrow> re_state e \<noteq> OutQueued"
  shows "outbox_kept db (change k f g db)"
  unfolding outbox_kept_def
proof (intro conjI ballI)
  fix e assume e: "e \<in> set (rd_events db)"
  have "event_kept e (if re_batch e = Some k then g e else e)" using assms(1) assms(3) [OF e] by (simp add: event_kept_def in_step_def)
  then show "\<exists>e'\<in>set (rd_events (change k f g db)). event_kept e e'" using in_map [OF e, of "\<lambda>e. if re_batch e = Some k then g e else e"] unfolding change_rows by (rule bexI)
next
  fix b assume b: "b \<in> set (rd_batches db)"
  have "batch_kept b (if rb_key b = k then f b else b)" using assms(1) assms(2) [OF b] by (simp add: batch_kept_def in_step_def)
  then show "\<exists>b'\<in>set (rd_batches (change k f g db)). batch_kept b b'" using in_map [OF b, of "\<lambda>b. if rb_key b = k then f b else b"] unfolding change_rows by (rule bexI)
qed

section \<open>The transactions as changes\<close>

lemma map_events_cong: "(\<And>e. e \<in> set (rd_events db) \<Longrightarrow> P e = Q e) \<Longrightarrow> map_events P g db = map_events Q g db"
  by (simp add: map_events_def)

lemma held_events:
  assumes "outbox_ok db" and "b \<in> set (rd_batches db)" and "holds c b" and "e \<in> set (rd_events db)"
  shows "holds_event c e \<longleftrightarrow> re_batch e = Some (rc_batch c)"
proof
  assume r: "re_batch e = Some (rc_batch c)"
  obtain b' where b': "b' \<in> set (rd_batches db)" "rb_key b' = rc_batch c" "rb_state b' = re_state e" "rb_attempt b' = re_attempt e"
    using mirror_batch [OF assms(1,4) r] by blast
  have "b' = b" using b' assms(1-3) by (auto simp: outbox_ok_def holds_def distinct_map inj_on_def)
  then show "holds_event c e" using b' r assms(3) by (simp add: holds_event_def holds_def)
qed (simp add: holds_event_def)

definition settle_batch :: "relay_batch \<Rightarrow> relay_batch" where
  "settle_batch b = b\<lparr>rb_state := OutQueued, rb_leaseUntil := None, rb_lastError := None\<rparr>"

definition settle_event :: "relay_event \<Rightarrow> relay_event" where
  "settle_event e = e\<lparr>re_state := OutQueued, re_leaseUntil := None, re_lastError := None\<rparr>"

lemma settle_change:
  assumes "outbox_ok db" and "b \<in> set (rd_batches db)" and "holds c b"
  shows "settleBatch c db = change (rc_batch c) settle_batch settle_event db"
proof -
  have "list_ex (holds c) (rd_batches db)" using assms(2,3) by (auto simp: list_ex_iff)
  moreover have "map_events (holds_event c) settle_event (map_batch (rc_batch c) settle_batch db)
      = map_events (\<lambda>e. re_batch e = Some (rc_batch c)) settle_event (map_batch (rc_batch c) settle_batch db)"
    by (rule map_events_cong) (use held_events [OF assms] in \<open>simp add: map_batch_def\<close>)
  ultimately show ?thesis by (simp add: settleBatch_def change_def settle_batch_def [abs_def] settle_event_def [abs_def])
qed

definition release_batch :: "relay_claim \<Rightarrow> string \<Rightarrow> int \<Rightarrow> relay_batch \<Rightarrow> relay_batch" where
  "release_batch c message now b = b\<lparr>rb_state := retry_state (rc_attempt c), rb_leaseUntil := None, rb_lastError := Some (take 200 message),
     rb_nextAt := retry_at now (rc_attempt c)\<rparr>"

definition release_event :: "relay_claim \<Rightarrow> string \<Rightarrow> int \<Rightarrow> relay_event \<Rightarrow> relay_event" where
  "release_event c message now e = e\<lparr>re_state := retry_state (rc_attempt c), re_leaseUntil := None, re_lastError := Some (take 200 message),
     re_nextAt := retry_at now (rc_attempt c)\<rparr>"

lemma release_change:
  assumes "outbox_ok db" and "b \<in> set (rd_batches db)" and "holds c b"
  shows "releaseClaim c message now db = change (rc_batch c) (release_batch c message now) (release_event c message now) db"
proof -
  have "list_ex (holds c) (rd_batches db)" using assms(2,3) by (auto simp: list_ex_iff)
  moreover have "map_events (holds_event c) (release_event c message now) (map_batch (rc_batch c) (release_batch c message now) db)
      = map_events (\<lambda>e. re_batch e = Some (rc_batch c)) (release_event c message now) (map_batch (rc_batch c) (release_batch c message now) db)"
    by (rule map_events_cong) (use held_events [OF assms] in \<open>simp add: map_batch_def\<close>)
  ultimately show ?thesis by (simp add: releaseClaim_def change_def release_batch_def [abs_def] release_event_def [abs_def])
qed

lemma in_step_settle: "in_step settle_batch settle_event"
  by (simp add: in_step_def settle_batch_def settle_event_def)

lemma in_step_release: "in_step (release_batch c message now) (release_event c message now)"
  by (simp add: in_step_def release_batch_def release_event_def)

text \<open>A settled or released batch was held, so that it and its events carry the attempt of the claim and are not queued yet.\<close>

lemma held_batch:
  assumes "outbox_ok db" and "b \<in> set (rd_batches db)" and "holds c b" and "b' \<in> set (rd_batches db)" and "rb_key b' = rc_batch c"
  shows "b' = b"
  using assms by (auto simp: outbox_ok_def holds_def distinct_map inj_on_def)

lemma held_change:
  assumes ok: "outbox_ok db" and b: "b \<in> set (rd_batches db)" "holds c b" and fg: "in_step f g"
    and same: "\<And>b e. rb_state (f b) = re_state (g e) \<and> rb_attempt (f b) = rb_attempt b \<and> re_attempt (g e) = re_attempt e"
  shows "outbox_ok (change (rc_batch c) f g db) \<and> outbox_kept db (change (rc_batch c) f g db)"
proof
  show "outbox_ok (change (rc_batch c) f g db)"
  proof (rule change_ok [OF ok fg])
    fix b' e assume "b' \<in> set (rd_batches db)" "rb_key b' = rc_batch c" "e \<in> set (rd_events db)" "re_batch e = Some (rc_batch c)"
    then have "b' = b" "holds_event c e" using held_batch [OF ok b] held_events [OF ok b] by blast+
    then show "rb_state (f b') = re_state (g e) \<and> rb_attempt (f b') = re_attempt (g e)" using same b(2) by (simp add: holds_def holds_event_def)
  qed
  show "outbox_kept db (change (rc_batch c) f g db)"
  proof (rule change_kept [OF fg])
    show "rb_state b' \<noteq> OutQueued" if "b' \<in> set (rd_batches db)" "rb_key b' = rc_batch c" for b'
      using held_batch [OF ok b that] b(2) by (simp add: holds_def)
    show "re_state e \<noteq> OutQueued" if "e \<in> set (rd_events db)" "re_batch e = Some (rc_batch c)" for e
      using held_events [OF ok b that(1)] that(2) by (simp add: holds_event_def)
  qed
qed

lemma settle_ok_kept: "outbox_ok db \<Longrightarrow> outbox_ok (settleBatch c db) \<and> outbox_kept db (settleBatch c db)"
proof (cases "list_ex (holds c) (rd_batches db)")
  case True
  assume ok: "outbox_ok db"
  obtain b where b: "b \<in> set (rd_batches db)" "holds c b" using True by (auto simp: list_ex_iff)
  show ?thesis unfolding settle_change [OF ok b] by (rule held_change [OF ok b in_step_settle]) (simp add: settle_batch_def settle_event_def)
qed (simp add: settleBatch_def outbox_kept_refl)

lemma release_ok_kept: "outbox_ok db \<Longrightarrow> outbox_ok (releaseClaim c message now db) \<and> outbox_kept db (releaseClaim c message now db)"
proof (cases "list_ex (holds c) (rd_batches db)")
  case True
  assume ok: "outbox_ok db"
  obtain b where b: "b \<in> set (rd_batches db)" "holds c b" using True by (auto simp: list_ex_iff)
  show ?thesis unfolding release_change [OF ok b] by (rule held_change [OF ok b in_step_release]) (simp add: release_batch_def release_event_def)
qed (simp add: releaseClaim_def outbox_kept_refl)

section \<open>Storing and claiming\<close>

lemma trigger_group: "group_key (serializeTrigger F l h) \<noteq> None"
  by (simp add: group_key_def serializeTrigger_def serializeLog_def)

lemma insert_ok_kept:
  assumes "outbox_ok db"
  shows "outbox_ok (insert_event key payload now db) \<and> outbox_kept db (insert_event key payload now db)"
proof (cases "key \<in> re_key ` set (rd_events db)")
  case False
  have "mirror (rd_batches db) \<lparr>re_key = key, re_payload = payload, re_state = OutPending, re_attempt = 0, re_nextAt = now,
       re_leaseUntil = None, re_lastError = None, re_batch = None\<rparr>" by (simp add: mirror_def)
  then have "outbox_ok (insert_event key payload now db)" using assms False by (auto simp: insert_event_def outbox_ok_def)
  moreover have "outbox_kept db (insert_event key payload now db)"
    using False by (auto simp: insert_event_def outbox_kept_def event_kept_def batch_kept_def)
  ultimately show ?thesis ..
qed (simp add: insert_event_def assms outbox_kept_refl)

lemma find_first: "first_of (sort_key f xs) = Some x \<Longrightarrow> x \<in> set xs"
proof -
  assume "first_of (sort_key f xs) = Some x"
  then have "x \<in> set (sort_key f xs)" by (cases "sort_key f xs") (simp_all add: first_of_def del: set_sort)
  then show ?thesis by simp
qed

definition lease_event :: "int \<Rightarrow> nat \<Rightarrow> relay_event \<Rightarrow> relay_event" where
  "lease_event now attempt e = e\<lparr>re_state := OutLeased, re_attempt := attempt, re_leaseUntil := Some (now + 30000)\<rparr>"

text \<open>Taking up a sealed batch: it was pending, or its lease ran out.\<close>

lemma take_up_ok_kept:
  assumes ok: "outbox_ok db" and b: "first_batch locked now db = Some b"
  shows "outbox_ok (change (rb_key b) (lease_batch now) (lease_event now (rb_attempt b + 1)) db)
    \<and> outbox_kept db (change (rb_key b) (lease_batch now) (lease_event now (rb_attempt b + 1)) db)"
proof -
  have mem: "b \<in> set (rd_batches db)" "batch_due now b" using find_first [OF b [unfolded first_batch_def]] by auto
  have only: "b' = b" if "b' \<in> set (rd_batches db)" "rb_key b' = rb_key b" for b'
    using that mem(1) ok by (auto simp: outbox_ok_def distinct_map inj_on_def)
  have fg: "in_step (lease_batch now) (lease_event now (rb_attempt b + 1))" by (simp add: in_step_def lease_batch_def lease_event_def)
  have due: "rb_state b \<noteq> OutQueued" using mem(2) by (auto simp: batch_due_def claimable_def)
  show ?thesis
  proof
    show "outbox_ok (change (rb_key b) (lease_batch now) (lease_event now (rb_attempt b + 1)) db)"
      by (rule change_ok [OF ok fg]) (auto simp: lease_batch_def lease_event_def dest: only)
    show "outbox_kept db (change (rb_key b) (lease_batch now) (lease_event now (rb_attempt b + 1)) db)"
    proof (rule change_kept [OF fg])
      show "rb_state b' \<noteq> OutQueued" if "b' \<in> set (rd_batches db)" "rb_key b' = rb_key b" for b' using only [OF that] due by simp
      show "re_state e \<noteq> OutQueued" if "e \<in> set (rd_events db)" "re_batch e = Some (rb_key b)" for e
        using mirror_batch [OF ok that] only due by metis
    qed
  qed
qed

text \<open>Sealing a new batch of waiting events of one group.\<close>

definition sealed :: "int \<Rightarrow> string \<Rightarrow> string set \<Rightarrow> relay_event \<Rightarrow> relay_event" where
  "sealed now key keys e = (if re_key e \<in> keys then lease_event now 1 (e\<lparr>re_batch := Some key\<rparr>) else e)"

lemma seal_result:
  assumes ok: "outbox_ok db" and seal: "seal_batch sha locked now seed db = Inr (db', c)"
  obtains events where "events \<noteq> []" "events = group_events locked now (group_key (re_payload seed)) db"
    "rc_batch c \<notin> rb_key ` set (rd_batches db)" "rc_payload c = re_payload (hd events)" "rc_attempt c = 1"
    "rd_batches (lease_events now c db') = rd_batches db @ [\<lparr>rb_key = rc_batch c, rb_payload = rc_payload c, rb_count = length events, rb_state = OutLeased, rb_attempt = 1,
         rb_leaseUntil = Some (now + 30000), rb_nextAt = now, rb_lastError = None\<rparr>]"
    "rd_events (lease_events now c db') = map (sealed now (rc_batch c) (re_key ` set events)) (rd_events db)"
proof -
  define events where "events = group_events locked now (group_key (re_payload seed)) db"
  define key where "key = sha (json_text (JArray (map JText (map re_key events))))"
  obtain e es where es: "events = e # es" and fresh: "key \<notin> rb_key ` set (rd_batches db)"
    and db': "db' = map_events (\<lambda>x. re_key x \<in> set (map re_key events)) (\<lambda>x. x\<lparr>re_batch := Some key\<rparr>)
            (db\<lparr>rd_batches := rd_batches db @ [\<lparr>rb_key = key, rb_payload = re_payload e, rb_count = length events, rb_state = OutLeased, rb_attempt = 1,
               rb_leaseUntil = Some (now + 30000), rb_nextAt = now, rb_lastError = None\<rparr>]\<rparr>)"
    and c: "c = \<lparr>rc_batch = key, rc_payload = re_payload e, rc_attempt = 1\<rparr>"
    using seal unfolding seal_batch_def Let_def events_def [symmetric] key_def [symmetric]
    by (cases events) (auto split: if_splits)
  have none: "re_batch x \<noteq> Some key" if "x \<in> set (rd_events db)" for x
    using mirror_batch [OF ok that] fresh by (metis image_eqI)
  have "rd_events (lease_events now c db') = map (sealed now key (re_key ` set events)) (rd_events db)"
    using none by (auto simp: lease_events_def map_events_def db' c sealed_def lease_event_def)
  then show thesis using that [of events] es fresh c by (simp add: events_def lease_events_def map_events_def db')
qed

lemma group_member:
  assumes "outbox_ok db" and "e \<in> set (rd_events db)" and "re_key e \<in> re_key ` set (group_events locked now g db)"
  shows "re_batch e = None \<and> re_state e \<noteq> OutQueued \<and> group_key (re_payload e) = g"
proof -
  obtain x where x: "x \<in> set (group_events locked now g db)" "re_key x = re_key e" using assms(3) by auto
  then have "x \<in> set (rd_events db)" "event_due now x" "group_key (re_payload x) = g"
    by (auto simp: group_events_def dest!: in_set_takeD)
  moreover from this have "x = e" using x(2) assms(1,2) by (auto simp: outbox_ok_def distinct_map inj_on_def)
  ultimately show ?thesis by (auto simp: event_due_def claimable_def)
qed

lemma seal_ok_kept:
  assumes ok: "outbox_ok db" and seal: "seal_batch sha locked now seed db = Inr (db', c)"
  shows "outbox_ok (lease_events now c db') \<and> outbox_kept db (lease_events now c db')"
proof -
  obtain events where ev: "events \<noteq> []" "events = group_events locked now (group_key (re_payload seed)) db"
    and fresh: "rc_batch c \<notin> rb_key ` set (rd_batches db)" and c: "rc_payload c = re_payload (hd events)" "rc_attempt c = 1"
    and bs: "rd_batches (lease_events now c db') = rd_batches db @ [\<lparr>rb_key = rc_batch c, rb_payload = rc_payload c, rb_count = length events, rb_state = OutLeased,
         rb_attempt = 1, rb_leaseUntil = Some (now + 30000), rb_nextAt = now, rb_lastError = None\<rparr>]"
    and es: "rd_events (lease_events now c db') = map (sealed now (rc_batch c) (re_key ` set events)) (rd_events db)"
    by (rule seal_result [OF ok seal])
  have member: "re_batch e = None \<and> re_state e \<noteq> OutQueued \<and> group_key (re_payload e) = group_key (re_payload seed)"
    if "e \<in> set (rd_events db)" "re_key e \<in> re_key ` set events" for e using group_member [OF ok that(1)] that(2) ev(2) by simp
  have first: "hd events \<in> set (rd_events db)" using ev hd_in_set [OF ev(1)] by (auto simp: group_events_def dest!: in_set_takeD)
  have group: "group_key (rc_payload c) = group_key (re_payload seed)" using member [OF first] ev(1) by (simp add: c)
  have "mirror (rd_batches (lease_events now c db')) (sealed now (rc_batch c) (re_key ` set events) e)" if e: "e \<in> set (rd_events db)" for e
  proof (cases "re_key e \<in> re_key ` set events")
    case True
    then show ?thesis using member [OF e True] group by (simp add: sealed_def lease_event_def mirror_def bs)
  next
    case False
    have "mirror (rd_batches db) e" using ok e by (simp add: outbox_ok_def)
    then show ?thesis using False by (auto simp: sealed_def mirror_def bs split: option.splits)
  qed
  note mirrors = this
  have "outbox_ok (lease_events now c db')"
  proof (rule outbox_ok_map [OF ok es])
    show "distinct (map rb_key (rd_batches (lease_events now c db')))" using ok fresh by (simp add: bs outbox_ok_def)
  qed (simp add: sealed_def lease_event_def, rule mirrors)
  moreover have "outbox_kept db (lease_events now c db')"
    unfolding outbox_kept_def
  proof (intro conjI ballI)
    fix e assume e: "e \<in> set (rd_events db)"
    have "event_kept e (sealed now (rc_batch c) (re_key ` set events) e)"
      using member [OF e] by (auto simp: event_kept_def sealed_def lease_event_def)
    then show "\<exists>e'\<in>set (rd_events (lease_events now c db')). event_kept e e'" using in_map [OF e] unfolding es by (rule bexI)
  qed (auto simp: bs batch_kept_def)
  ultimately show ?thesis ..
qed

text \<open>A claim changes one batch, and names it with its payload and its current attempt.\<close>

lemma claim_ok_kept:
  assumes ok: "outbox_ok db" and claim: "claimEvent sha locked now db = Inr (db', Some c)"
  shows "outbox_ok db' \<and> outbox_kept db db' \<and> (\<exists>b\<in>set (rd_batches db'). rb_key b = rc_batch c \<and> rb_payload b = rc_payload c)"
proof (cases "first_batch locked now db")
  case (Some b)
  then have b: "b \<in> set (rd_batches db)" using find_first by (fastforce simp: first_batch_def)
  have c: "c = \<lparr>rc_batch = rb_key b, rc_payload = rb_payload b, rc_attempt = rb_attempt b + 1\<rparr>"
    and db': "db' = change (rb_key b) (lease_batch now) (lease_event now (rb_attempt b + 1)) db"
    using claim Some by (auto simp: claimEvent_def pick_batch_def lease_events_def change_def lease_event_def [abs_def])
  have "lease_batch now b \<in> set (rd_batches db')" using in_map [OF b, of "\<lambda>x. if rb_key x = rb_key b then lease_batch now x else x"] by (simp add: db' change_rows)
  moreover have "rb_key (lease_batch now b) = rc_batch c \<and> rb_payload (lease_batch now b) = rc_payload c" by (simp add: c lease_batch_def)
  ultimately have "\<exists>b\<in>set (rd_batches db'). rb_key b = rc_batch c \<and> rb_payload b = rc_payload c" by (rule bexI [rotated])
  then show ?thesis using take_up_ok_kept [OF ok Some] unfolding db' by blast
next
  case None
  obtain seed d where d: "seal_batch sha locked now seed db = Inr (d, c)" "db' = lease_events now c d"
    using claim None by (auto simp: claimEvent_def pick_batch_def bindR_eq_Inr split: option.splits)
  show ?thesis using seal_ok_kept [OF ok d(1)] seal_result [OF ok d(1)] unfolding d(2) by (metis in_set_conv_decomp relay_batch.select_convs(1,2))
qed

section \<open>No event is lost\<close>

text \<open>Claims name batches with their payload, and a queued batch was accepted.\<close>

definition claim_of :: "relay_db \<Rightarrow> relay_claim \<Rightarrow> bool" where
  "claim_of db c \<longleftrightarrow> (\<exists>b\<in>set (rd_batches db). rb_key b = rc_batch c \<and> rb_payload b = rc_payload c)"

definition accepted_batches :: "relay_claim list \<Rightarrow> relay_db \<Rightarrow> bool" where
  "accepted_batches accepted db \<longleftrightarrow> (\<forall>b\<in>set (rd_batches db). rb_state b = OutQueued \<longrightarrow> (\<exists>c\<in>set accepted. rc_batch c = rb_key b))"

definition relay_inv :: "relay_run \<Rightarrow> bool" where
  "relay_inv st \<longleftrightarrow> outbox_ok (rr_db st) \<and> (\<forall>c\<in>set (rr_claims st). claim_of (rr_db st) c) \<and> set (rr_accepted st) \<subseteq> set (rr_claims st)
     \<and> accepted_batches (rr_accepted st) (rr_db st)"

lemma claim_kept: "outbox_kept db db' \<Longrightarrow> claim_of db c \<Longrightarrow> claim_of db' c"
  unfolding outbox_kept_def claim_of_def batch_kept_def by metis

lemma claimEvent_not_queued:
  assumes ok: "outbox_ok db" and claim: "claimEvent sha locked now db = Inr (db', Some c)"
    and b: "b \<in> set (rd_batches db')" "rb_state b = OutQueued"
  shows "b \<in> set (rd_batches db)"
proof (cases "first_batch locked now db")
  case (Some x)
  then have "rd_batches db' = map (\<lambda>y. if rb_key y = rb_key x then lease_batch now y else y) (rd_batches db)"
    using claim by (auto simp: claimEvent_def pick_batch_def lease_events_def map_events_def map_batch_def)
  then show ?thesis using b by (auto simp: lease_batch_def split: if_splits)
next
  case None
  obtain seed d where d: "seal_batch sha locked now seed db = Inr (d, c)" "db' = lease_events now c d"
    using claim None by (auto simp: claimEvent_def pick_batch_def bindR_eq_Inr split: option.splits)
  obtain n where "rd_batches db' = rd_batches db @ [\<lparr>rb_key = rc_batch c, rb_payload = rc_payload c, rb_count = n, rb_state = OutLeased, rb_attempt = 1,
         rb_leaseUntil = Some (now + 30000), rb_nextAt = now, rb_lastError = None\<rparr>]" using seal_result [OF ok d(1)] unfolding d(2) by metis
  then show ?thesis using b by auto
qed

lemma settle_queued:
  assumes "b \<in> set (rd_batches (settleBatch c db))" and "rb_state b = OutQueued"
  shows "b \<in> set (rd_batches db) \<or> rb_key b = rc_batch c"
  using assms by (auto simp: settleBatch_def map_events_def map_batch_def split: if_splits)

lemma release_queued:
  assumes "b \<in> set (rd_batches (releaseClaim c message now db))" and "rb_state b = OutQueued"
  shows "b \<in> set (rd_batches db)"
  using assms by (auto simp: releaseClaim_def map_events_def map_batch_def retry_state_def split: if_splits)

lemma relay_step_ok:
  assumes "relay_step sha F st st'" and inv: "relay_inv st"
  shows "relay_inv st' \<and> outbox_kept (rr_db st) (rr_db st')"
  using assms
proof (induction rule: relay_step.induct)
  case (relay_insert raw l addresses poolIds latest h st now)
  have i: "outbox_ok (rr_db st)" using relay_insert by (simp add: relay_inv_def)
  note k = insert_ok_kept [OF i, of "eventKey l" "serializeTrigger F l h" now]
  have "rd_batches (insert_event (eventKey l) (serializeTrigger F l h) now (rr_db st)) = rd_batches (rr_db st)" by (simp add: insert_event_def)
  then show ?case using relay_insert k claim_kept [OF conjunct2 [OF k]] by (simp add: relay_inv_def accepted_batches_def)
next
  case (relay_claim locked now st db c)
  have i: "outbox_ok (rr_db st)" using relay_claim by (simp add: relay_inv_def)
  note k = claim_ok_kept [OF i relay_claim(1)]
  have kept: "outbox_kept (rr_db st) db" using k by blast
  have "claim_of db c" using k by (simp add: claim_of_def)
  moreover have "accepted_batches (rr_accepted st) db"
    using relay_claim(2) claimEvent_not_queued [OF i relay_claim(1)] unfolding accepted_batches_def relay_inv_def by blast
  ultimately show ?case using relay_claim(2) k claim_kept [OF kept] by (auto simp: relay_inv_def)
next
  case (relay_accept c st)
  then show ?case by (auto simp: relay_inv_def accepted_batches_def outbox_kept_refl)
next
  case (relay_settle c st)
  have i: "outbox_ok (rr_db st)" using relay_settle by (simp add: relay_inv_def)
  note k = settle_ok_kept [OF i, of c]
  have "accepted_batches (rr_accepted st) (settleBatch c (rr_db st))"
    using relay_settle settle_queued [of _ c "rr_db st"] unfolding accepted_batches_def relay_inv_def by metis
  then show ?case using relay_settle k claim_kept [OF conjunct2 [OF k]] by (simp add: relay_inv_def)
next
  case (relay_release c st message now)
  have i: "outbox_ok (rr_db st)" using relay_release by (simp add: relay_inv_def)
  note k = release_ok_kept [OF i, of c message now]
  have "accepted_batches (rr_accepted st) (releaseClaim c message now (rr_db st))"
    using relay_release release_queued [of _ c message now "rr_db st"] unfolding accepted_batches_def relay_inv_def by metis
  then show ?case using relay_release k claim_kept [OF conjunct2 [OF k]] by (simp add: relay_inv_def)
qed

lemma relay_reach_inv: "relay_reach sha F st \<Longrightarrow> relay_inv st"
proof (induction rule: relay_reach.induct)
  case relay_new
  then show ?case by (simp add: relay_inv_def outbox_ok_def accepted_batches_def)
qed (use relay_step_ok in blast)

lemma relay_steps_kept: "(relay_step sha F)\<^sup>*\<^sup>* st st' \<Longrightarrow> relay_inv st \<Longrightarrow> relay_inv st' \<and> outbox_kept (rr_db st) (rr_db st')"
proof (induction rule: rtranclp_induct)
  case (step y z)
  then show ?case using relay_step_ok [OF step(2)] outbox_kept_trans by blast
qed (simp add: outbox_kept_refl)

text \<open>The claims that were handed out for one batch.\<close>

definition claims_on :: "string \<Rightarrow> relay_run \<Rightarrow> relay_claim list" where
  "claims_on k st = filter (\<lambda>c. rc_batch c = k) (rr_claims st)"

lemma claim_not_queued:
  assumes ok: "outbox_ok db" and claim: "claimEvent sha locked now db = Inr (db', Some c)"
    and b: "b \<in> set (rd_batches db)" "rb_key b = rc_batch c"
  shows "rb_state b \<noteq> OutQueued"
proof (cases "first_batch locked now db")
  case (Some x)
  then have x: "x \<in> set (rd_batches db)" "batch_due now x" using find_first [OF Some [unfolded first_batch_def]] by auto
  have "rc_batch c = rb_key x" using claim Some by (auto simp: claimEvent_def pick_batch_def)
  then have "b = x" using b x(1) ok by (auto simp: outbox_ok_def distinct_map inj_on_def)
  then show ?thesis using x(2) by (auto simp: batch_due_def claimable_def)
next
  case None
  obtain seed d where d: "seal_batch sha locked now seed db = Inr (d, c)"
    using claim None by (auto simp: claimEvent_def pick_batch_def bindR_eq_Inr split: option.splits)
  have "rc_batch c \<notin> rb_key ` set (rd_batches db)" by (rule seal_result [OF ok d])
  then show ?thesis using b by (metis image_eqI)
qed

lemma step_claims:
  assumes "relay_step sha F st st'" and "relay_inv st" and "b \<in> set (rd_batches (rr_db st))" and "rb_state b = OutQueued"
  shows "claims_on (rb_key b) st' = claims_on (rb_key b) st"
  using assms
proof (induction rule: relay_step.induct)
  case (relay_claim locked now st db c)
  then have "rb_key b \<noteq> rc_batch c" using claim_not_queued by (auto simp: relay_inv_def)
  then show ?case by (simp add: claims_on_def)
qed (simp_all add: claims_on_def)

lemma steps_claims:
  assumes "(relay_step sha F)\<^sup>*\<^sup>* st st'" and "relay_inv st" and b: "b \<in> set (rd_batches (rr_db st))" "rb_state b = OutQueued"
  shows "claims_on (rb_key b) st' = claims_on (rb_key b) st"
  using assms(1)
proof (induction rule: rtranclp_induct)
  case (step y z)
  have later: "relay_inv y" "outbox_kept (rr_db st) (rr_db y)" using relay_steps_kept [OF step(1) assms(2)] by simp_all
  obtain b' where "b' \<in> set (rd_batches (rr_db y))" "rb_key b' = rb_key b" "rb_state b' = OutQueued"
    using later(2) b unfolding outbox_kept_def batch_kept_def by metis
  then show ?case using step_claims [OF step(2) later(1)] step(3) by metis
qed simp

lemma queued_claims:
  assumes steps: "(relay_step sha F)\<^sup>*\<^sup>* st st'" and inv: "relay_inv st" and e: "e \<in> set (rd_events (rr_db st))" "re_state e = OutQueued" "re_batch e = Some k"
  shows "claims_on k st' = claims_on k st"
proof -
  have "outbox_ok (rr_db st)" using inv by (simp add: relay_inv_def)
  from mirror_batch [OF this e(1,3)] obtain b where "b \<in> set (rd_batches (rr_db st))" "rb_key b = k" "rb_state b = OutQueued" using e(2) by metis
  then show ?thesis using steps_claims [OF steps inv] by blast
qed

text \<open>C19: The relay loses no event. An event that was stored stays, with its key, its payload and, once it is sealed into a batch, its batch, whatever
  publishers do: however many there are, and however often their calls fail, their leases run out or they answer late. It counts as
  queued only after the queue accepted a message with the same block, head and removal flag. Then it stays queued, and its batch
  is handed to no publisher again: only one that had claimed it before, and was slow, can still post it.\<close>

theorem relay_loses_nothing:
  assumes "relay_reach sha F st" and "e \<in> set (rd_events (rr_db st))" and "(relay_step sha F)\<^sup>*\<^sup>* st st'"
  shows "\<exists>e'\<in>set (rd_events (rr_db st')). re_key e' = re_key e \<and> re_payload e' = re_payload e \<and> (re_batch e \<noteq> None \<longrightarrow> re_batch e' = re_batch e)
    \<and> (re_state e = OutQueued \<longrightarrow> re_state e' = OutQueued \<and> (\<exists>k. re_batch e = Some k \<and> claims_on k st' = claims_on k st))
    \<and> (re_state e' = OutQueued \<longrightarrow> (\<exists>c\<in>set (rr_accepted st'). re_batch e' = Some (rc_batch c) \<and> group_key (rc_payload c) = group_key (re_payload e')))"
proof -
  have later: "relay_inv st'" "outbox_kept (rr_db st) (rr_db st')" using relay_steps_kept [OF assms(3) relay_reach_inv [OF assms(1)]] by simp_all
  obtain e' where e': "e' \<in> set (rd_events (rr_db st'))" "event_kept e e'" using later(2) assms(2) unfolding outbox_kept_def by blast
  have ok: "outbox_ok (rr_db st')" and acc: "accepted_batches (rr_accepted st') (rr_db st')" using later(1) by (simp_all add: relay_inv_def)
  have "\<exists>c\<in>set (rr_accepted st'). re_batch e' = Some (rc_batch c) \<and> group_key (rc_payload c) = group_key (re_payload e')" if q: "re_state e' = OutQueued"
  proof (cases "re_batch e'")
    case None
    have "mirror (rd_batches (rr_db st')) e'" using ok e'(1) by (simp add: outbox_ok_def)
    then show ?thesis using None q by (simp add: mirror_def)
  next
    case (Some k)
    obtain b where b: "b \<in> set (rd_batches (rr_db st'))" "rb_key b = k" "rb_state b = re_state e'" "group_key (rb_payload b) = group_key (re_payload e')"
      using mirror_batch [OF ok e'(1) Some] by blast
    obtain c where c: "c \<in> set (rr_accepted st')" "rc_batch c = k" using acc b q unfolding accepted_batches_def by metis
    then have "claim_of (rr_db st') c" using later(1) by (auto simp: relay_inv_def)
    then obtain b' where b': "b' \<in> set (rd_batches (rr_db st'))" "rb_key b' = k" "rb_payload b' = rc_payload c" using c(2) by (auto simp: claim_of_def)
    have "b' = b" using b b' ok by (auto simp: outbox_ok_def distinct_map inj_on_def)
    then show ?thesis using b' b(4) c Some by metis
  qed
  moreover have "\<exists>k. re_batch e = Some k \<and> claims_on k st' = claims_on k st" if q: "re_state e = OutQueued"
  proof -
    have inv: "relay_inv st" by (rule relay_reach_inv [OF assms(1)])
    then have "mirror (rd_batches (rr_db st)) e" using assms(2) by (simp add: relay_inv_def outbox_ok_def)
    then obtain k where "re_batch e = Some k" using q by (cases "re_batch e") (simp_all add: mirror_def)
    then show ?thesis using queued_claims [OF assms(3) inv assms(2) q] by blast
  qed
  ultimately show ?thesis using e' unfolding event_kept_def by blast
qed

text \<open>As long as an event or a batch is due and not locked, a publisher gets a claim, unless the name of a new batch is taken.\<close>

lemma relay_claim_progress:
  assumes "e \<in> set (rd_events db)" and "event_due now e" and "re_key e \<notin> locked" and "group_key (re_payload e) \<noteq> None"
    and "\<forall>e\<in>set (rd_events db). group_key (re_payload e) \<noteq> None"
    and fresh: "\<And>keys. sha keys \<notin> rb_key ` set (rd_batches db)"
  shows "\<exists>db' c. claimEvent sha locked now db = Inr (db', Some c)"
proof (cases "first_batch locked now db")
  case (Some b)
  then show ?thesis by (simp add: claimEvent_def pick_batch_def)
next
  case None
  define ys where "ys = filter (\<lambda>e. event_due now e \<and> re_key e \<notin> locked) (rd_events db)"
  have "e \<in> set ys" using assms(1-3) unfolding ys_def by simp
  then have "length (sort_key (\<lambda>e. (re_nextAt e, re_key e)) ys) \<noteq> 0" unfolding length_sort by auto
  then have "first_event locked now db \<noteq> None"
    unfolding first_event_def ys_def [symmetric] by (cases "sort_key (\<lambda>e. (re_nextAt e, re_key e)) ys") (simp_all add: first_of_def del: length_sort)
  then obtain seed where seed: "first_event locked now db = Some seed" by blast
  then have s: "seed \<in> set (rd_events db)" "event_due now seed" "re_key seed \<notin> locked" using find_first [OF seed [unfolded first_event_def]] by simp_all
  define xs where "xs = filter (\<lambda>e. event_due now e \<and> re_key e \<notin> locked \<and> group_key (re_payload seed) \<noteq> None
      \<and> group_key (re_payload e) = group_key (re_payload seed)) (rd_events db)"
  have "seed \<in> set xs" using s assms(5) unfolding xs_def by simp
  then have "length (sort_key re_key xs) \<noteq> 0" unfolding length_sort by auto
  then have "group_events locked now (group_key (re_payload seed)) db \<noteq> []"
    unfolding group_events_def xs_def [symmetric] by (simp del: length_sort)
  then show ?thesis using None seed fresh by (cases "group_events locked now (group_key (re_payload seed)) db") (auto simp: claimEvent_def pick_batch_def seal_batch_def Let_def)
qed

definition sample_event :: relay_event where
  "sample_event = \<lparr>re_key = eventKey sample_chain_log, re_payload = serializeTrigger sample_filter sample_chain_log (42, hex_lit 64 CHR ''b''),
     re_state = OutPending, re_attempt = 0, re_nextAt = 5, re_leaseUntil = None, re_lastError = None, re_batch = None\<rparr>"

definition sample_relay_run :: relay_run where
  "sample_relay_run = \<lparr>rr_db = \<lparr>rd_events = [sample_event], rd_batches = []\<rparr>, rr_claims = [], rr_accepted = []\<rparr>"

lemma sample_head: "head_for sample_chain_log (Inr JNull) = Inr (42, hex_lit 64 CHR ''b'')"
  by (simp add: head_for_def sample_chain_log_def log_of_def sample_raw_log_def)

lemma sample_relay_run_reached: "relay_reach sha sample_filter sample_relay_run"
  using relay_next [OF relay_new relay_insert [OF sample_subscription_parses sample_log_accepted sample_head, where now = 5]]
  by (simp add: insert_event_def sample_relay_run_def sample_event_def)

text \<open>A publisher claims the event, the queue accepts its message, and the publisher settles the batch.\<close>

definition sample_relay_claim :: relay_claim where
  "sample_relay_claim = \<lparr>rc_batch = ''k'', rc_payload = re_payload sample_event, rc_attempt = 1\<rparr>"

definition sample_leased :: relay_db where
  "sample_leased = \<lparr>rd_events = [sample_event\<lparr>re_state := OutLeased, re_attempt := 1, re_leaseUntil := Some 30010, re_batch := Some ''k''\<rparr>],
     rd_batches = [\<lparr>rb_key = ''k'', rb_payload = re_payload sample_event, rb_count = 1, rb_state = OutLeased, rb_attempt = 1,
       rb_leaseUntil = Some 30010, rb_nextAt = 10, rb_lastError = None\<rparr>]\<rparr>"

lemma sample_claimed: "claimEvent (\<lambda>_. ''k'') {} 10 (rr_db sample_relay_run) = Inr (sample_leased, Some sample_relay_claim)"
proof -
  have due: "event_due 10 sample_event" "group_key (re_payload sample_event) \<noteq> None"
    by (simp_all add: sample_event_def event_due_def claimable_def trigger_group)
  have "first_event {} 10 (rr_db sample_relay_run) = Some sample_event" "first_batch {} 10 (rr_db sample_relay_run) = None"
    "group_events {} 10 (group_key (re_payload sample_event)) (rr_db sample_relay_run) = [sample_event]"
    using due by (simp_all add: first_event_def first_batch_def group_events_def first_of_def sample_relay_run_def)
  then show ?thesis
    by (simp add: claimEvent_def pick_batch_def seal_batch_def Let_def)
      (simp add: lease_events_def map_events_def sample_relay_run_def sample_leased_def sample_relay_claim_def)
qed

definition sample_settled :: relay_run where
  "sample_settled = \<lparr>rr_db = settleBatch sample_relay_claim sample_leased, rr_claims = [sample_relay_claim], rr_accepted = [sample_relay_claim]\<rparr>"

lemma sample_settles: "(relay_step (\<lambda>_. ''k'') sample_filter)\<^sup>*\<^sup>* sample_relay_run sample_settled"
proof -
  let ?step = "relay_step (\<lambda>_. ''k'') sample_filter"
  let ?claimed = "\<lparr>rr_db = sample_leased, rr_claims = [sample_relay_claim], rr_accepted = []\<rparr>"
  have a: "?step sample_relay_run ?claimed" using relay_claim [OF sample_claimed] by (simp add: sample_relay_run_def)
  have b: "?step ?claimed (?claimed\<lparr>rr_accepted := [sample_relay_claim]\<rparr>)"
    using relay_accept [of sample_relay_claim ?claimed "\<lambda>_. ''k''" sample_filter] by simp
  have c: "?step (?claimed\<lparr>rr_accepted := [sample_relay_claim]\<rparr>) sample_settled"
    using relay_settle [of sample_relay_claim "?claimed\<lparr>rr_accepted := [sample_relay_claim]\<rparr>" "\<lambda>_. ''k''" sample_filter]
    by (simp add: sample_settled_def)
  have "?step\<^sup>*\<^sup>* sample_relay_run ?claimed" using a by (rule r_into_rtranclp)
  then have "?step\<^sup>*\<^sup>* sample_relay_run (?claimed\<lparr>rr_accepted := [sample_relay_claim]\<rparr>)" using b by (rule rtranclp.rtrancl_into_rtrancl)
  then show ?thesis using c by (rule rtranclp.rtrancl_into_rtrancl)
qed

lemma sample_settled_events: "e \<in> set (rd_events (rr_db sample_settled)) \<Longrightarrow> re_state e = OutQueued"
  by (simp add: sample_settled_def settleBatch_def sample_leased_def holds_def sample_relay_claim_def map_events_def map_batch_def holds_event_def)

lemma relay_loses_nothing_witness:
  "\<exists>e'\<in>set (rd_events (rr_db sample_settled)). re_key e' = eventKey sample_chain_log \<and> re_state e' = OutQueued
     \<and> (\<exists>c\<in>set (rr_accepted sample_settled). re_batch e' = Some (rc_batch c) \<and> group_key (rc_payload c) = group_key (re_payload e'))"
proof -
  have "sample_event \<in> set (rd_events (rr_db sample_relay_run))" by (simp add: sample_relay_run_def)
  from relay_loses_nothing [OF sample_relay_run_reached this sample_settles] obtain e' where e': "e' \<in> set (rd_events (rr_db sample_settled))"
    "re_key e' = re_key sample_event"
    "re_state e' = OutQueued \<longrightarrow> (\<exists>c\<in>set (rr_accepted sample_settled). re_batch e' = Some (rc_batch c) \<and> group_key (rc_payload c) = group_key (re_payload e'))"
    by blast
  moreover from this(1) have "re_state e' = OutQueued" by (rule sample_settled_events)
  moreover have "re_key sample_event = eventKey sample_chain_log" by (simp add: sample_event_def)
  ultimately show ?thesis by (intro bexI [of _ e']) simp_all
qed

end
