(* ===== verification/Relay_Scan.thy ===== *)
theory Relay_Scan imports Relay_Outbox begin

text \<open>
  The relay's recovery over HTTP (server.ts): handling a log, scanning ranges, and that the checkpoint it stores
  means a complete scan.
\<close>

section \<open>Scanning a range\<close>

text \<open>
  Statements that each keep what they wrote and may throw: a run stops at the first error. \<open>rn_logs\<close> is \<open>eth_getLogs\<close>, \<open>rn_head\<close> the provider's
  latest block over HTTP, and \<open>rn_inbox\<close> whether the second database stored the event and was notified.
\<close>

fun run_all :: "('a \<Rightarrow> 's \<Rightarrow> 's \<times> js_error option) \<Rightarrow> 'a list \<Rightarrow> 's \<Rightarrow> 's \<times> js_error option" where
  "run_all f [] s = (s, None)"
| "run_all f (x # xs) s = (case f x s of (s', None) \<Rightarrow> run_all f xs s' | (s', Some e) \<Rightarrow> (s', Some e))"

record relay_scan =
  rs_db :: relay_db
  rs_last :: "(int \<times> string option) option"

record relay_net =
  rn_logs :: "int \<Rightarrow> int \<Rightarrow> rpc_filter \<Rightarrow> json list res"
  rn_head :: "json res"
  rn_inbox :: "string \<Rightarrow> unit res"
  rn_now :: int

record relay_routing =
  ro_sources :: "source_address list"
  ro_pools :: "pool_binding list"

record relay_limits =
  rl_maxBackfillBlocks :: int
  rl_chunkBlocks :: int
  rl_overlap :: int

definition handleSubscriptionLog :: "event_filter \<Rightarrow> string set \<Rightarrow> string set \<Rightarrow> relay_net \<Rightarrow> json \<Rightarrow> relay_scan \<Rightarrow> relay_scan \<times> js_error option" where
  "handleSubscriptionLog F addresses poolIds N raw s = (case parseSubscriptionLog raw of
     Inl e \<Rightarrow> (s, Some e)
   | Inr l \<Rightarrow> if \<not> matchesFilter F l addresses poolIds then (s, Some (Error ''Alchemy emitted a log outside the project filter''))
       else (case head_for l (rn_head N) of
         Inl e \<Rightarrow> (s, Some e)
       | Inr h \<Rightarrow> (s\<lparr>rs_db := insert_event (eventKey l) (serializeTrigger F l h) (rn_now N) (rs_db s)\<rparr>,
           (case rn_inbox N (eventKey l) of Inl e \<Rightarrow> Some e | Inr _ \<Rightarrow> None))))"

definition advanceState :: "int \<Rightarrow> string option \<Rightarrow> relay_scan \<Rightarrow> relay_scan" where
  "advanceState number h s = s\<lparr>rs_last := (case rs_last s of None \<Rightarrow> Some (number, h)
     | Some (reached, known) \<Rightarrow> Some (max reached number, if reached \<le> number then h else known))\<rparr>"

definition scan_filter :: "event_filter \<Rightarrow> string set \<Rightarrow> string set \<Rightarrow> relay_net \<Rightarrow> int \<Rightarrow> int \<Rightarrow> rpc_filter \<Rightarrow> relay_scan \<Rightarrow> relay_scan \<times> js_error option" where
  "scan_filter F addresses poolIds N start end f s = (case rn_logs N start end f of
     Inl e \<Rightarrow> (s, Some e) | Inr logs \<Rightarrow> run_all (handleSubscriptionLog F addresses poolIds N) logs s)"

definition scan_range :: "event_filter \<Rightarrow> string set \<Rightarrow> string set \<Rightarrow> relay_routing \<Rightarrow> relay_net \<Rightarrow> bool \<Rightarrow> int \<times> int \<Rightarrow> relay_scan \<Rightarrow> relay_scan \<times> js_error option" where
  "scan_range F addresses poolIds R N advance r s =
    (case run_all (scan_filter F addresses poolIds N (fst r) (snd r)) (subscriptionFilters F (ro_sources R) (ro_pools R)) s of
       (s', None) \<Rightarrow> (if advance then advanceState (snd r) None s' else s', None) | (s', Some e) \<Rightarrow> (s', Some e))"

text \<open>The ranges of the loop over \<open>start\<close>.\<close>

function ranges :: "int \<Rightarrow> int \<Rightarrow> int \<Rightarrow> (int \<times> int) list" where
  "ranges n start end = (if n \<le> 0 \<or> start > end then [] else (start, min end (start + n - 1)) # ranges n (start + n) end)"
  by pat_completeness auto
termination by (relation "measure (\<lambda>(n, start, end). nat (end + 1 - start))") auto

declare ranges.simps [simp del]

definition backfill :: "event_filter \<Rightarrow> relay_limits \<Rightarrow> string set \<Rightarrow> string set \<Rightarrow> relay_routing \<Rightarrow> relay_net \<Rightarrow> int \<Rightarrow> int \<Rightarrow> bool \<Rightarrow> relay_scan
    \<Rightarrow> relay_scan \<times> js_error option" where
  "backfill F L addresses poolIds R N requestedFrom toBlock advance s =
    (let fromBlock = max requestedFrom (ef_activationBlock F)
     in if fromBlock > toBlock then (s, None)
        else if toBlock - fromBlock + 1 > rl_maxBackfillBlocks L
        then (s, Some (Error (''recovery range '' @ show_int (toBlock - fromBlock + 1) @ '' exceeds configured maximum'')))
        else run_all (scan_range F addresses poolIds R N advance) (ranges (rl_chunkBlocks L) fromBlock toBlock) s)"

definition reconcile_from :: "relay_limits \<Rightarrow> int \<Rightarrow> relay_scan \<Rightarrow> int" where
  "reconcile_from L head s = (case rs_last s of Some (reached, _) \<Rightarrow> reached - rl_overlap L + 1 | None \<Rightarrow> head - rl_overlap L + 1)"

text \<open>\<open>client_head\<close> is the head that the WebSocket client reads first.\<close>

definition reconcile :: "event_filter \<Rightarrow> relay_limits \<Rightarrow> string set \<Rightarrow> string set \<Rightarrow> relay_routing \<Rightarrow> relay_net \<Rightarrow> (int \<times> string) res \<Rightarrow> relay_scan
    \<Rightarrow> relay_scan \<times> js_error option" where
  "reconcile F L addresses poolIds R N client_head s = (case client_head of
     Inl e \<Rightarrow> (s, Some e)
   | Inr (number, h) \<Rightarrow>
       (case (if reconcile_from L number s \<le> number then backfill F L addresses poolIds R N (reconcile_from L number s) number True s else (s, None)) of
          (s', Some e) \<Rightarrow> (s', Some e) | (s', None) \<Rightarrow> (advanceState number (Some h) s', None)))"

section \<open>The checkpoint means a complete scan\<close>

definition recorded :: "relay_scan \<Rightarrow> chain_log \<Rightarrow> bool" where
  "recorded s l \<longleftrightarrow> eventKey l \<in> re_key ` set (rd_events (rs_db s))"

text \<open>The documented behaviour of \<open>eth_getLogs\<close>: its answer contains every log of the range that matches the filter.\<close>

definition answers_all :: "chain_log set \<Rightarrow> relay_net \<Rightarrow> bool" where
  "answers_all logs N \<longleftrightarrow> (\<forall>start end f answer. rn_logs N start end f = Inr answer
     \<longrightarrow> (\<forall>l\<in>logs. start \<le> lg_blockNumber l \<and> lg_blockNumber l \<le> end \<and> log_matches f l \<longrightarrow> (\<exists>raw\<in>set answer. parseSubscriptionLog raw = Inr l)))"

text \<open>The logs of the protocol, from the activation on.\<close>

definition protocol_log :: "event_filter \<Rightarrow> relay_routing \<Rightarrow> chain_log \<Rightarrow> bool" where
  "protocol_log F R l \<longleftrightarrow> matchesFilter F l (sa_address ` set (ro_sources R)) (pb_poolId ` set (ro_pools R)) \<and> ef_activationBlock F \<le> lg_blockNumber l"

definition complete_to :: "event_filter \<Rightarrow> relay_routing \<Rightarrow> chain_log set \<Rightarrow> int \<Rightarrow> int \<Rightarrow> relay_scan \<Rightarrow> bool" where
  "complete_to F R logs lo hi s \<longleftrightarrow> (\<forall>l\<in>logs. protocol_log F R l \<and> lo \<le> lg_blockNumber l \<and> lg_blockNumber l \<le> hi \<longrightarrow> recorded s l)"

definition checkpoint_complete :: "event_filter \<Rightarrow> relay_routing \<Rightarrow> chain_log set \<Rightarrow> int \<Rightarrow> relay_scan \<Rightarrow> bool" where
  "checkpoint_complete F R logs lo s \<longleftrightarrow> (case rs_last s of None \<Rightarrow> True | Some (reached, _) \<Rightarrow> complete_to F R logs lo reached s)"

text \<open>Running statements: what each of them keeps, and what each of them has done.\<close>

lemma run_all_keeps: "P s \<Longrightarrow> (\<And>x s. P s \<Longrightarrow> P (fst (f x s))) \<Longrightarrow> P (fst (run_all f xs s))"
proof (induction xs arbitrary: s)
  case (Cons x xs)
  have "P (fst (f x s))" using Cons.prems by blast
  then show ?case using Cons.IH Cons.prems(2) by (cases "f x s"; cases "snd (f x s)") auto
qed simp

lemma run_all_does:
  assumes "run_all f xs s = (s', None)" and keeps: "\<And>x y s. Q y s \<Longrightarrow> Q y (fst (f x s))" and does: "\<And>x s t. x \<in> set xs \<Longrightarrow> f x s = (t, None) \<Longrightarrow> Q x t"
  shows "\<forall>x\<in>set xs. Q x s'"
  using assms(1,3)
proof (induction xs arbitrary: s)
  case (Cons x xs)
  obtain t where t: "f x s = (t, None)" "run_all f xs t = (s', None)" using Cons.prems(1) by (auto split: prod.splits option.splits)
  have "Q x (fst (run_all f xs t))" by (rule run_all_keeps [where P = "Q x"]) (use Cons.prems(2) t(1) keeps in auto)
  then show ?case using Cons.IH [OF t(2)] Cons.prems(2) t(2) by simp
qed simp

lemma recorded_insert: "recorded s l \<Longrightarrow> recorded (s\<lparr>rs_db := insert_event key payload now (rs_db s)\<rparr>) l"
  by (auto simp: recorded_def insert_event_def)

lemma insert_records: "recorded (s\<lparr>rs_db := insert_event (eventKey l) payload now (rs_db s)\<rparr>) l"
  by (auto simp: recorded_def insert_event_def)

text \<open>Handling a log keeps the checkpoint and what is recorded.\<close>

definition only_adds :: "relay_scan \<Rightarrow> relay_scan \<Rightarrow> bool" where
  "only_adds s t \<longleftrightarrow> rs_last t = rs_last s \<and> (\<forall>l. recorded s l \<longrightarrow> recorded t l)"

lemma handle_adds: "only_adds s0 s \<Longrightarrow> only_adds s0 (fst (handleSubscriptionLog F A P N raw s))"
  by (auto simp: only_adds_def handleSubscriptionLog_def recorded_insert split: sum.splits)

lemma scan_filter_adds: "only_adds s0 s \<Longrightarrow> only_adds s0 (fst (scan_filter F A P N a b f s))"
  by (auto simp: scan_filter_def intro: run_all_keeps [where P = "only_adds s0"] handle_adds split: sum.splits)

lemma handle_records: "handleSubscriptionLog F A P N raw s = (t, None) \<Longrightarrow> parseSubscriptionLog raw = Inr l \<Longrightarrow> recorded t l"
  by (auto simp: handleSubscriptionLog_def insert_records split: sum.splits if_splits)

lemma handle_keeps_record: "recorded s l \<Longrightarrow> recorded (fst (handleSubscriptionLog F A P N raw s)) l"
  using handle_adds [of s s F A P N raw] by (simp add: only_adds_def)

lemma scan_filter_keeps_record: "recorded s l \<Longrightarrow> recorded (fst (scan_filter F A P N a b f s)) l"
  using scan_filter_adds [of s s F A P N a b f] by (simp add: only_adds_def)

lemma scan_filter_records:
  assumes run: "scan_filter F A P N a b f s = (t, None)" and all: "answers_all logs N" and l: "l \<in> logs" "a \<le> lg_blockNumber l" "lg_blockNumber l \<le> b" "log_matches f l"
  shows "recorded t l"
proof -
  obtain answer where answer: "rn_logs N a b f = Inr answer" "run_all (handleSubscriptionLog F A P N) answer s = (t, None)"
    using run by (auto simp: scan_filter_def split: sum.splits)
  obtain raw where raw: "raw \<in> set answer" "parseSubscriptionLog raw = Inr l" using all answer(1) l unfolding answers_all_def by blast
  have "\<forall>x\<in>set answer. parseSubscriptionLog x = Inr l \<longrightarrow> recorded t l"
    by (rule run_all_does [OF answer(2)]) (use handle_keeps_record handle_records in blast)+
  then show ?thesis using raw by blast
qed

lemma complete_split: "complete_to F R logs lo a s \<Longrightarrow> (\<And>l. l \<in> logs \<Longrightarrow> protocol_log F R l \<Longrightarrow> a < lg_blockNumber l \<Longrightarrow> lg_blockNumber l \<le> b \<Longrightarrow> recorded s l)
    \<Longrightarrow> complete_to F R logs lo b s"
  unfolding complete_to_def by (meson not_le)

lemma complete_mono: "complete_to F R logs lo hi s \<Longrightarrow> only_adds s t \<Longrightarrow> complete_to F R logs lo hi t"
  by (auto simp: complete_to_def only_adds_def)

lemma only_adds_refl: "only_adds s s"
  by (simp add: only_adds_def)

lemma scan_range_run:
  fixes R :: relay_routing
  assumes run: "run_all (scan_filter F A P N a b) (subscriptionFilters F (ro_sources R) (ro_pools R)) s = (t, err)"
  shows "only_adds s t"
  using run_all_keeps [where P = "only_adds s" and f = "scan_filter F A P N a b" and s = s and xs = "subscriptionFilters F (ro_sources R) (ro_pools R)"]
    scan_filter_adds only_adds_refl by (auto simp: run)

lemma scan_range_complete:
  fixes R :: relay_routing
  assumes shared: "ef_sharedAddress F \<in> sa_address ` set (ro_sources R)" and all: "answers_all logs N"
    and run: "run_all (scan_filter F A P N a b) (subscriptionFilters F (ro_sources R) (ro_pools R)) s = (t, None)"
    and l: "l \<in> logs" "protocol_log F R l" "a \<le> lg_blockNumber l" "lg_blockNumber l \<le> b"
  shows "recorded t l"
proof -
  obtain f where f: "f \<in> set (subscriptionFilters F (ro_sources R) (ro_pools R))" "log_matches f l"
    using filters_match [OF shared, of "ro_pools R" l] l(2) unfolding protocol_log_def by blast
  have "\<forall>f\<in>set (subscriptionFilters F (ro_sources R) (ro_pools R)). log_matches f l \<longrightarrow> recorded t l"
  proof (rule run_all_does [OF run])
    show "log_matches y l \<longrightarrow> recorded (fst (scan_filter F A P N a b x s)) l" if "log_matches y l \<longrightarrow> recorded s l" for x y s
      using that scan_filter_keeps_record by blast
    show "log_matches x l \<longrightarrow> recorded t l" if "scan_filter F A P N a b x s = (t, None)" for x s t
      using scan_filter_records [OF that all l(1,3,4)] by blast
  qed
  then show ?thesis using f by blast
qed

text \<open>
  The loop over the ranges: when the blocks before the next range are complete, each range that was scanned moves the checkpoint over blocks
  that are complete, also when a later one fails.
\<close>

definition reached_to :: "int \<Rightarrow> relay_scan \<Rightarrow> bool" where
  "reached_to n s \<longleftrightarrow> (case rs_last s of None \<Rightarrow> False | Some (reached, _) \<Rightarrow> n \<le> reached)"

lemma advance_rows: "rs_db (advanceState n h s) = rs_db s" "recorded (advanceState n h s) l = recorded s l"
    "complete_to F R logs lo hi (advanceState n h s) = complete_to F R logs lo hi s"
  by (simp_all add: advanceState_def recorded_def complete_to_def)

lemma advance_complete:
  assumes "checkpoint_complete F R logs lo s" and "complete_to F R logs lo n s"
  shows "checkpoint_complete F R logs lo (advanceState n h s) \<and> reached_to n (advanceState n h s)"
proof (cases "rs_last s")
  case None
  then show ?thesis using assms(2) by (simp add: checkpoint_complete_def reached_to_def advance_rows) (simp add: advanceState_def complete_to_def recorded_def)
next
  case (Some p)
  obtain r k where p: "p = (r, k)" by (cases p)
  have "complete_to F R logs lo (max r n) s" using assms Some p by (simp add: checkpoint_complete_def max_def)
  then show ?thesis using Some p by (simp add: checkpoint_complete_def reached_to_def advance_rows) (auto simp: advanceState_def complete_to_def recorded_def max_def)
qed

lemma ranges_complete:
  assumes shared: "ef_sharedAddress F \<in> sa_address ` set (ro_sources R)" and all: "answers_all logs N"
    and "0 < n" and "a \<le> to + 1" and "checkpoint_complete F R logs lo s" and "complete_to F R logs lo (a - 1) s"
    and "run_all (scan_range F A P R N True) (ranges n a to) s = (t, err)"
  shows "checkpoint_complete F R logs lo t \<and> (err = None \<longrightarrow> complete_to F R logs lo to t)"
  using assms(3-)
proof (induction n a to arbitrary: s rule: ranges.induct)
  case (1 n a to)
  show ?case
  proof (cases "a > to")
    case True
    then have "a - 1 = to" using 1(3) by simp
    then have "complete_to F R logs lo to s" using 1(5) by (simp only:)
    then show ?thesis using 1(4,6) True by (simp add: ranges.simps [of n a to])
  next
    case False
    let ?b = "min to (a + n - 1)"
    obtain u e where u: "run_all (scan_filter F A P N a ?b) (subscriptionFilters F (ro_sources R) (ro_pools R)) s = (u, e)" by force
    have adds: "only_adds s u" by (rule scan_range_run [OF u])
    have kept: "checkpoint_complete F R logs lo u" using 1(4) adds complete_mono [OF _ adds]
      by (auto simp: checkpoint_complete_def only_adds_def split: option.splits)
    show ?thesis
    proof (cases e)
      case (Some x)
      then have "t = u" "err = Some x" using 1(6) False 1(2) u by (simp_all add: ranges.simps [of n a to] scan_range_def)
      then show ?thesis using kept by simp
    next
      case None
      have "complete_to F R logs lo ?b u"
        by (rule complete_split [OF complete_mono [OF 1(5) adds]]) (use scan_range_complete [OF shared all u [unfolded None]] in auto)
      then have next_ok: "checkpoint_complete F R logs lo (advanceState ?b None u)" "complete_to F R logs lo ?b (advanceState ?b None u)"
        using advance_complete [OF kept] by (simp_all add: advance_rows)
      have "scan_range F A P R N True (a, ?b) s = (advanceState ?b None u, None)" using u None by (simp add: scan_range_def)
      then have rest: "run_all (scan_range F A P R N True) (ranges n (a + n) to) (advanceState ?b None u) = (t, err)"
        using 1(6) False 1(2) by (simp add: ranges.simps [of n a to])
      show ?thesis
      proof (cases "a + n \<le> to + 1")
        case True
        then have "?b = a + n - 1" by simp
        then show ?thesis using 1(1) [OF _ 1(2) True next_ok(1) _ rest] next_ok(2) 1(2) False by simp
      next
        case b: False
        then have "ranges n (a + n) to = []" "?b = to" by (simp_all add: ranges.simps [of n "a + n" to])
        then show ?thesis using rest next_ok by simp
      qed
    qed
  qed
qed

text \<open>C27: The relay's checkpoint means a complete scan. While its sources and pools stay the same, and as far as the provider's answers to
  \<open>eth_getLogs\<close> are complete: if every event of the protocol from a block \<open>lo\<close> up to the checkpoint is stored, then after a
  reconciliation this is so up to the new checkpoint, whether the reconciliation ends or stops at an error anywhere; and if it ends,
  the checkpoint has reached the head.\<close>

theorem reconcile_checkpoint_complete:
  assumes "parseEventFilter v = Inr F" and "mergeSources F found = Inr (ro_sources R)" and "answers_all logs N"
    and "0 < rl_chunkBlocks L" and "0 < rl_overlap L" and "checkpoint_complete F R logs lo s"
    and "rs_last s = None \<Longrightarrow> fst h - rl_overlap L + 1 \<le> lo"
    and "reconcile F L addresses poolIds R N (Inr h) s = (t, err)"
  shows "checkpoint_complete F R logs lo t \<and> (err = None \<longrightarrow> (\<exists>reached hash. rs_last t = Some (reached, hash) \<and> fst h \<le> reached))"
proof -
  obtain number hash where h: "h = (number, hash)" by (cases h)
  have shared: "ef_sharedAddress F \<in> sa_address ` set (ro_sources R)" using filter_shared [OF assms(1)] merged_addresses [OF assms(2)] by blast
  let ?from = "reconcile_from L number s" and ?start = "max (reconcile_from L number s) (ef_activationBlock F)"
  have before: "complete_to F R logs lo (?start - 1) s"
  proof (cases "rs_last s")
    case None
    then show ?thesis using assms(7) h by (auto simp: complete_to_def reconcile_from_def protocol_log_def)
  next
    case (Some p)
    then show ?thesis using assms(5,6) by (cases p) (auto simp: complete_to_def reconcile_from_def checkpoint_complete_def protocol_log_def)
  qed
  obtain u e where u: "(if ?from \<le> number then backfill F L addresses poolIds R N ?from number True s else (s, None)) = (u, e)" by force
  have scanned: "checkpoint_complete F R logs lo u \<and> (e = None \<longrightarrow> complete_to F R logs lo number u)"
  proof (cases "?start \<le> number")
    case True
    then have big: "?from \<le> number" by simp
    show ?thesis
    proof (cases "number - ?start + 1 > rl_maxBackfillBlocks L")
      case True
      then have "u = s" "e \<noteq> None" using u big \<open>?start \<le> number\<close> by (auto simp: backfill_def Let_def)
      then show ?thesis using assms(6) by blast
    next
      case False
      then have "run_all (scan_range F addresses poolIds R N True) (ranges (rl_chunkBlocks L) ?start number) s = (u, e)"
        using u big \<open>?start \<le> number\<close> by (simp add: backfill_def Let_def)
      moreover have "?start \<le> number + 1" using True by simp
      ultimately show ?thesis using ranges_complete [OF shared assms(3,4) _ assms(6) before] by blast
    qed
  next
    case False
    then have "u = s" "e = None" using u by (auto simp: backfill_def Let_def split: if_splits)
    then show ?thesis using assms(6) before False by (auto simp: complete_to_def)
  qed
  show ?thesis
  proof (cases e)
    case (Some x)
    then show ?thesis using assms(8) scanned by (auto simp: reconcile_def h u)
  next
    case None
    then have "t = advanceState number (Some hash) u" using assms(8) by (simp add: reconcile_def h u)
    then show ?thesis using advance_complete [of F R logs lo u number "Some hash"] scanned None h by (auto simp: reached_to_def split: option.splits)
  qed
qed

definition sample_routing :: relay_routing where
  "sample_routing = \<lparr>ro_sources = sample_sources, ro_pools = []\<rparr>"

definition sample_net :: relay_net where
  "sample_net = \<lparr>rn_logs = (\<lambda>_ _ _. Inr [sample_subscription]), rn_head = Inr sample_header, rn_inbox = (\<lambda>_. Inr ()), rn_now = 5\<rparr>"

definition sample_limits :: relay_limits where
  "sample_limits = \<lparr>rl_maxBackfillBlocks = 10000, rl_chunkBlocks = 1000, rl_overlap = 12\<rparr>"

lemma reconcile_checkpoint_complete_witness:
  "checkpoint_complete sample_filter sample_routing {sample_chain_log} 40 (fst (reconcile sample_filter sample_limits (set (map sa_address sample_sources)) {} sample_routing
     sample_net (Inr (50, hex_lit 64 CHR ''f'')) \<lparr>rs_db = \<lparr>rd_events = [], rd_batches = []\<rparr>, rs_last = None\<rparr>))"
proof -
  have all: "answers_all {sample_chain_log} sample_net" by (simp add: answers_all_def sample_net_def sample_subscription_parses)
  have merge: "mergeSources sample_filter [] = Inr (ro_sources sample_routing)" by (simp add: sample_routing_def sample_sources_merge)
  obtain t err where run: "reconcile sample_filter sample_limits (set (map sa_address sample_sources)) {} sample_routing sample_net
      (Inr (50, hex_lit 64 CHR ''f'')) \<lparr>rs_db = \<lparr>rd_events = [], rd_batches = []\<rparr>, rs_last = None\<rparr> = (t, err)" by force
  show ?thesis using reconcile_checkpoint_complete [OF sample_filter_parses merge all _ _ _ _ run, of 40]
    unfolding run fst_conv by (simp add: sample_limits_def) (simp add: checkpoint_complete_def)
qed

end
