(* ===== verification/Spec2Isabelle.thy ===== *)
theory Spec2Isabelle
  imports Trade_Candles Holder_Snapshot Queue_Steps Quote_Conversion Treasury_Root Chain_Recovery Projection_Readback Principal_Checked Tx_Signing Relay_Scan
begin

text \<open>
  A verification library of the TickerGarden TypeScript services. All paths below are under \<open>src/\<close>.

  The program. TickerGarden runs a token market on a chain and a set of services around it. A worker
  (\<open>services/backend-ts/packages/chain-worker\<close>) takes jobs from a durable queue (\<open>packages/jobs\<close>), reads
  blocks and logs from RPC providers into an ingestion store (\<open>packages/chain\<close>), and projects the stored
  events into publications (\<open>packages/projection\<close> and the projectors) that read APIs serve; trade history,
  candles and holder snapshots come from \<open>packages/analytics\<close>. The web client buys paired assets and
  converts ETH through quotes and router programs (\<open>packages/chain/src/quote-purchase\<close>). Treasury
  rewards are paid from a Merkle root (\<open>services/backend-go/testsupport/treasury-reference.ts\<close>).

  Conventions (\<open>TG_Prelude\<close>, \<open>TG_Order\<close>, \<open>TG_Text\<close>, \<open>TG_Json\<close>). Every \<open>throw\<close> is a value
  \<open>Inl e\<close> of \<open>js_error + 'a\<close>, \<open>bindR\<close> is the sequencing of statements, \<open>foldR\<close> and \<open>mapR\<close> are loops that
  may throw. A \<open>bigint\<close> is an \<open>int\<close> or \<open>nat\<close>, with the code's own range checks written out. A \<open>Map\<close>
  is an association list with \<open>AList.update\<close> (insertion order, replacement in place). Strings are ASCII;
  the regular expressions are executable predicates. \<open>Array.prototype.sort\<close> is the stable insertion
  sort \<open>js_sort\<close>; the locales \<open>comparator\<close> and \<open>keyed_comparator\<close> state what a comparator must promise
  and are interpreted on each comparator of the code. A database transaction is a function from the
  tables to \<open>Inl\<close> (rolled back) or the new tables; row locks make transactions atomic, so
  concurrency is the interleaving of whole transactions.

  Trade analytics, \<open>packages/analytics/src/index.ts\<close>. \<open>Trade_Types\<close>: trades, prices, the readers of
  event arguments. \<open>Trade_Normalize\<close>: \<open>normalizeTransaction\<close>, which finds the trades of a transaction
  and classifies protocol conversions; it yields one trade per swap event in log order (C1), classifies at
  most one trade per fee summary (C2), only one that the summary reports (C3), and every trade is well
  formed with a reduced price, with the accounting of a Curve trade stated beside it. \<open>Trade_Candles\<close>: \<open>buildCandles\<close>; \<open>in_bucket\<close> says
  from the trade's time and the bounds of an interval which candle a trade belongs to, every trade belongs to exactly
  one, and volumes and open, high, low,
  close are those of the candle's trades (C6, C7), no trade is lost or counted twice, and the order of
  the input does not matter. \<open>Holder_Snapshot\<close>: \<open>rebuildHolderSnapshot\<close>; balances add up to the
  supply (C10), each is what the account received less what it sent (C11), and the final reconciliation
  error is unreachable (C12).

  Durable queue, \<open>packages/jobs/src/index.ts\<close> and \<open>retention.ts\<close>. \<open>Queue_Store\<close>: the tables jobs,
  outbox, inbox, attempts and generations. \<open>Job_Queue\<close>: every operation (enqueue, claim, complete, fail,
  recover, outbox dispatch, repair, generations, execution mode, signed processing). \<open>Queue_Correct\<close>,
  \<open>Queue_Retention\<close>, \<open>Queue_Steps\<close>: well-formedness kept by every operation, retention keeps duplicate
  detection (C13), and over all interleavings of transactions the leases are fenced, completion is final,
  generations are drained, claims are disjoint and in order, and attempts never collide (C14 to C18, C21). Time
  is a parameter of each operation; \<open>sha256\<close>, the QStash client and the signature check are parameters.

  Quotes, \<open>packages/chain/src/quote-purchase\<close>. \<open>Quote_Routes\<close>: the table of reviewed routes.
  \<open>Quote_Purchase\<close>: \<open>quotePurchase\<close> and \<open>purchaseRequest\<close>; what \<open>purchaseRoute\<close> finds
  is a reviewed route that leads to the token or, for two texts, a member of \<open>Object.prototype\<close> (C24), a
  request spends at most its limit and delivers at least the quoted amount to the recipient (C25), and
  an accepted quote yields an executable request. \<open>Quote_Conversion\<close>: the same for exact-input
  conversions; a returned quote is accepted as it is, with the refresh that keeps a confirmed minimum. The router's commands are a datatype; the RPC answers are a parameter.

  Treasury root, \<open>testsupport/treasury-reference.ts\<close>. \<open>Treasury_Merkle\<close>: the tree over sorted pairs.
  \<open>Treasury_Root\<close>: validation, time-weighted balances, the largest-remainder split, leaves and proofs;
  every published proof verifies (C30), the split is exact (C31), the weights are the integrals of the
  balances (C32), and the order of the observations does not matter. The functions of viem (hashes,
  ABI encoding, checksummed addresses) are the record \<open>viem\<close>; \<open>viem_hashes\<close> and \<open>viem_addresses\<close>
  state that hashes are 32-byte literals and that address formatting keeps the address.

  Chain ingestion, \<open>packages/chain/src/index.ts\<close>. \<open>Chain_Wire\<close>: quantities, blocks, logs, their stored
  form and the relay trigger; round trips (C34) and typing (C35). \<open>Chain_Source\<close>: the transport and
  \<open>consensusBlock\<close>, \<open>isFinalized\<close>, contract sources, digests. \<open>Chain_Ingest\<close>: the tables of
  \<open>db/migrations/0001_core.sql\<close> with their constraints, and \<open>ingestCanonicalRange\<close>. \<open>Chain_Sparse\<close>:
  \<open>ingestFinalizedSparseRange\<close>, \<open>rewindCanonicalChain\<close>, \<open>findCommonAncestor\<close>. \<open>Chain_Ledger\<close>: the
  abstract store (its set of canonical hashes, with the header each hash commits to), the effect of every
  statement on it, and the invariant \<open>ledger_ok\<close>: coverage of the current generation tiles the blocks from
  activation to the checkpoint, and each range starts on the block after the previous one.
  \<open>Chain_Reads\<close>: what the reading phases collect, and preservation by the complete operations.
  \<open>Chain_Reach\<close>: the steps of the store, the states they reach and their consistency (C36).
  \<open>Chain_Recovery\<close>: the ancestor search ends and is maximal (C38), and \<open>recoverReorg\<close> of the worker restores a reachable store, the next generation and valid publication pointers (C39). One
  deployment and one stream are modelled; the provider may answer anything as long as one hash has one
  header (\<open>headers_agree\<close>); the host's \<open>sha256\<close> and \<open>localeCompare\<close> and the discovery of contracts are
  parameters.

  Projections, \<open>packages/projection/src/index.ts\<close>. \<open>Projection_Store\<close>: canonical JSON, the tables of the
  migrations \<open>0001\<close>, \<open>0005\<close> and \<open>0030\<close>, the readers' view \<open>read_records\<close>, invalidation, and the check of
  an anchor, which is exact on reachable stores (C37). \<open>Projection_Publish\<close>: \<open>publishProjection\<close> with its
  config sets and incremental market versions, and the acknowledgement. \<open>Projection_Delta\<close>:
  \<open>publishMarketDelta\<close>. \<open>Projection_Frames\<close>: what each write leaves alone. \<open>Projection_Invariant\<close> and
  \<open>Projection_Stable\<close>: the invariant over runs that mix ingestion, rewinds, publications and invalidations;
  both writers satisfy the contract of the locale \<open>projection_writer\<close>, and a published revision reads the
  same for ever (C40). \<open>Projection_Evidence\<close>, \<open>Projection_Overlay\<close>, \<open>Projection_Storage\<close> and
  \<open>Projection_Readback\<close>: a new publication reads exactly the records submitted (C22), and a market delta reads
  the records of its base overlaid with the change (C33). The collation of \<open>ORDER BY\<close> is a parameter.

  Principal ledger, \<open>packages/principal-projector/src/index.ts\<close> and \<open>incremental.ts\<close>. \<open>Principal_Ledger\<close>:
  \<open>replayPrincipal\<close>, which returns exactly the accounts and allocations its events name and conserves principal
  (C5; what the events say is stated by \<open>principal_event\<close> and \<open>event_amount\<close>, apart from the code). \<open>Principal_Store\<close>: the stored rows and \<open>applyEvent\<close>; event by event
  they are the replay (C9). \<open>Principal_Verify\<close>: \<open>verifyAccount\<close>, \<open>verifyPosition\<close> and
  \<open>normalizeGaugePrincipal\<close>; a verified position is what two providers agree on. \<open>Principal_Work\<close>: the
  continuation \<open>projectF72Principal\<close> as a machine over the tables of migration \<open>0018\<close> with its candidates, event pages, work
  and versions; a page is verified and committed in one step, which the comparison of phase and progress in
  \<open>locked\<close> justifies. \<open>Principal_Exact\<close>: in every reachable state the ledger holds each event exactly once (C8).
  \<open>Principal_Checked\<close>: \<open>principal_history\<close> records the passes that led to a state with the inputs of each, and whatever
  changed since the base was checked, in a pass of that history, against what its two providers answered at the block
  that is published (C28, with \<open>account_checked\<close> and \<open>position_checked\<close> for what they must have answered).
  The ABI encoding, the decoding of a log, the vault of an asset and the clock are parameters; the finalized logs up to an anchor
  are the same in every run.

  Web transactions, \<open>apps/web/src/v1/transaction.ts\<close> and \<open>recoveryStorage.ts\<close>. \<open>Tx_Journal\<close>: the storage with its
  memory of writes that failed, the scopes of operations, and the journal of pending transactions per chain and
  account, which reads back what was written (C4); \<open>reloaded\<close> empties the memory, which lives as long as the page. \<open>Tx_Executor\<close>: \<open>V1TransactionExecutor\<close>; \<open>execute\<close> starts a
  transaction and \<open>advance\<close> runs it from one \<open>await\<close> to the next, so that \<open>tx_reach\<close> interleaves all transactions of an
  account with reloads, which lose whatever the browser storage refused to write, reconciliation, retirement and late replacements. \<open>Tx_Exclusive\<close>: every step keeps the records and the
  running transactions distinct by operation and conflict key. \<open>Tx_Signing\<close>: what is signed is the only outstanding
  transaction of its conflict key (C20), and was completely checked just before (C29). The wallet, the provider and the
  clock answer anything; progress messages, timers and the archive of retired records, which no write reads, are left out.

  Event relay, \<open>infra/vps/chain-event-relay/src/core.ts\<close> and \<open>server.ts\<close>, which watches the chain and wakes the pipeline.
  \<open>Relay_Core\<close>: the filter file, subscription logs, filters, heads and triggers; the relay subscribes to exactly what it accepts (C26),
  and \<open>parseChainLogTrigger\<close> of the pipeline accepts what it sends, except a log below the activation block or a removed log above
  the head that the relay reads for it (C23). \<open>Relay_Outbox\<close>: the tables of events and batches with
  \<open>claimEvent\<close>, \<open>settleBatch\<close> and \<open>releaseClaim\<close>; over all interleavings of publishers no event is lost, and the batch of a queued event is not claimed again (C19). \<open>Relay_Scan\<close>:
  \<open>handleSubscriptionLog\<close>, \<open>backfill\<close> and \<open>reconcile\<close>; the stored checkpoint means a complete scan (C27). The provider's answers, the
  second database and the clock are parameters; rows locked by other transactions are skipped; sockets, the reconnecting loop, HTTP
  failover and the health page are not modelled.

  Termination and bounds. Loops over data are structural or have a \<open>measure\<close> (\<open>gcd_loop\<close>, \<open>chunks\<close>,
  \<open>windows\<close>, \<open>ranges\<close>, \<open>ancestor_search\<close>, the Merkle levels); the discovery loops run the code's own 8 rounds, so
  no fuel is invented anywhere. Ranges are bounded as in the code (10 blocks, 50000 blocks, 1000 blocks of
  search); \<open>bigint\<close> columns are checked to stay below 2 ^ 63.

  Not modelled, and why. The HTTP exchange, retries, failover and caches of \<open>RpcTransport.call\<close> and the
  QStash and S3 clients are I/O; their answers are parameters. \<open>readQueueMetrics\<close> is a report.
  The other projectors, the worker's scheduling loop, the read APIs,
  confirmed-display, display-price, the queue relay under \<open>infra/vps\<close>, the deployment checks under
  \<open>deployments/src\<close> and the launch flow of \<open>apps/web/src/v1\<close> are left for later.
  The web pages are DOM code, the generated ABIs are data, the Solidity contracts and the Go
  services are other languages, \<open>archive\<close> and the test overlays are copies of what is not deployed.
\<close>

end
